(* ===== verification/Prelude.thy ===== *)
theory Prelude
  imports Complex_Main
begin

text \<open>
  Shared vocabulary of the development: the type that stands for JavaScript numbers and the
  rounding of \<open>Math.round\<close>, the theorem collections the component theories add to, and the
  generic facts on lists and sums that several components use.

  JavaScript numbers that the code uses for geometry and weights are modelled by exact
  rationals. What the code computes with them (sums, products, quotients by non-zero numbers,
  comparisons, \<open>Math.max\<close>, \<open>Math.min\<close>, \<open>Math.round\<close>) is closed under the rationals;
  the rounding error of IEEE doubles, NaN and the infinities are outside the model. Time stamps
  and durations in milliseconds, counters and array indices are integers or naturals.
\<close>

type_synonym js_num = rat

text \<open>\<open>Math.round\<close>: the nearest integer, halves towards positive infinity.\<close>

definition js_round :: "js_num \<Rightarrow> int" where
  "js_round x = \<lfloor>x + 1 / 2\<rfloor>"

named_theorems lath_intros \<open>how well-formedness of layout trees is established\<close>
named_theorems lath_leaves \<open>what each tree operation does to the leaf sequence\<close>

lemma js_round_of_int [simp]: "js_round (of_int i) = i"
  by (simp add: js_round_def floor_unique)

lemma js_round_0 [simp]: "js_round 0 = 0"
  using js_round_of_int [of 0] by simp

lemma js_round_mono: "x \<le> y \<Longrightarrow> js_round x \<le> js_round y"
  unfolding js_round_def by (rule floor_mono) simp

lemma js_round_add_int: "js_round (x + of_int i) = js_round x + i"
proof -
  have "x + of_int i + 1 / 2 = (x + 1 / 2) + of_int i" by simp
  then show ?thesis by (simp only: js_round_def floor_add_int)
qed

subsection \<open>Lists\<close>

lemma sum_list_map_div: "sum_list (map (\<lambda>x. f x / c) xs) = sum_list (map f xs) / (c :: js_num)"
  by (induction xs) (auto simp: add_divide_distrib)

lemma sum_list_map_times: "sum_list (map (\<lambda>x. f x * c) xs) = sum_list (map f xs) * (c :: js_num)"
  by (induction xs) (auto simp: distrib_right)

lemma sum_list_const: "sum_list (map (\<lambda>x. c) xs) = of_nat (length xs) * (c :: js_num)"
  by (induction xs) (auto simp: algebra_simps)

lemma sum_list_pos:
  fixes f :: "'a \<Rightarrow> js_num"
  shows "xs \<noteq> [] \<Longrightarrow> (\<And>x. x \<in> set xs \<Longrightarrow> 0 < f x) \<Longrightarrow> 0 < sum_list (map f xs)"
proof (induction xs)
  case Nil
  then show ?case by simp
next
  case (Cons x xs)
  then show ?case by (cases xs) (auto intro!: add_pos_pos)
qed

lemma sum_list_upd:
  fixes xs :: "js_num list"
  shows "i < length xs \<Longrightarrow> sum_list (xs[i := y]) = sum_list xs - xs ! i + y"
  by (induction xs arbitrary: i) (auto split: nat.splits)

lemma concat_split_at:
  "i < length xss \<Longrightarrow> concat xss = concat (take i xss) @ xss ! i @ concat (drop (Suc i) xss)"
  by (metis append_assoc concat.simps(2) concat_append id_take_nth_drop)

lemma concat_upd_split:
  "i < length xss \<Longrightarrow>
   concat (xss[i := ys]) = concat (take i xss) @ ys @ concat (drop (Suc i) xss)"
  by (simp add: upd_conv_take_nth_drop)

subsection \<open>Invariants of event-driven components\<close>

text \<open>
  The contract of a component driven by events: a state, a step for each event and an invariant
  that every step keeps. \<open>ok\<close> limits the events that may occur.
\<close>

locale event_system =
  fixes step :: "'e \<Rightarrow> 's \<Rightarrow> 's"
    and ok :: "'e \<Rightarrow> bool"
    and inv :: "'s \<Rightarrow> bool"
  assumes step_keeps: "inv s \<Longrightarrow> ok e \<Longrightarrow> inv (step e s)"
begin

lemma run_keeps: "inv s \<Longrightarrow> list_all ok es \<Longrightarrow> inv (fold step es s)"
  by (induction es arbitrary: s) (auto simp: step_keeps)

end

text \<open>An event system with a quantity that no step decreases, such as a counter.\<close>

locale monotone_events = event_system step ok inv
  for step :: "'e \<Rightarrow> 's \<Rightarrow> 's" and ok :: "'e \<Rightarrow> bool" and inv :: "'s \<Rightarrow> bool" +
  fixes level :: "'s \<Rightarrow> nat"
  assumes step_grows: "inv s \<Longrightarrow> ok e \<Longrightarrow> level s \<le> level (step e s)"
begin

lemma run_grows: "inv s \<Longrightarrow> list_all ok es \<Longrightarrow> level s \<le> level (fold step es s)"
proof (induction es arbitrary: s)
  case (Cons e es)
  then have "level s \<le> level (step e s)" "level (step e s) \<le> level (fold step es (step e s))"
    by (auto simp: step_grows step_keeps)
  then show ?case by simp
qed simp

end

end
