(* ===== verification/Js_Text.thy ===== *)
theory Js_Text
  imports Complex_Main "HOL-Library.Char_ord"
begin

text \<open>
  JavaScript strings. A string is the list of its UTF-16 code units, as numbers, so that every
  string the code meets is a value of the model and lengths count what \<open>.length\<close> counts;
  \<open>js ''abc''\<close> is the literal \<open>'abc'\<close> and \<open>ch CHR ''a''\<close> the code unit of \<open>a\<close>.
  The rest are the string methods and regular-expression classes the sources use.
\<close>

type_synonym js_text = "nat list"

abbreviation ch :: "char \<Rightarrow> nat" where
  "ch c \<equiv> of_char c"

definition js :: "string \<Rightarrow> js_text" where
  "js s = map of_char s"

lemma js_Nil [simp]: "js [] = []"
  by (simp add: js_def)

section \<open>Character classes\<close>

text \<open>\<open>\s\<close> and what \<open>trim\<close> removes: ECMAScript white space and line terminators.\<close>

definition is_ws :: "nat \<Rightarrow> bool" where
  "is_ws c \<longleftrightarrow> 9 \<le> c \<and> c \<le> 13 \<or> c = 32 \<or> c = 160 \<or> c = 0x1680 \<or> 0x2000 \<le> c \<and> c \<le> 0x200A \<or>
     c = 0x2028 \<or> c = 0x2029 \<or> c = 0x202F \<or> c = 0x205F \<or> c = 0x3000 \<or> c = 0xFEFF"

definition is_upper_ascii :: "nat \<Rightarrow> bool" where
  "is_upper_ascii c \<longleftrightarrow> 65 \<le> c \<and> c \<le> 90"

definition is_lower_ascii :: "nat \<Rightarrow> bool" where
  "is_lower_ascii c \<longleftrightarrow> 97 \<le> c \<and> c \<le> 122"

definition is_letter :: "nat \<Rightarrow> bool" where
  "is_letter c \<longleftrightarrow> is_upper_ascii c \<or> is_lower_ascii c"

definition is_digit :: "nat \<Rightarrow> bool" where
  "is_digit c \<longleftrightarrow> 48 \<le> c \<and> c \<le> 57"

lemmas char_classes = is_ws_def is_upper_ascii_def is_lower_ascii_def is_letter_def is_digit_def

text \<open>
  \<open>toLowerCase\<close>, as far as the sources observe it: every use compares the result with an ASCII
  literal, so only the code units with an ASCII image matter (the letters and the Kelvin sign).
\<close>

definition lower_unit :: "nat \<Rightarrow> nat" where
  "lower_unit c = (if is_upper_ascii c then c + 32 else if c = 0x212A then 107 else c)"

definition js_lower :: "js_text \<Rightarrow> js_text" where
  "js_lower s = map lower_unit s"

text \<open>The \<open>i\<close> flag of a regular expression: folding of ASCII letters only.\<close>

definition fold_case :: "nat \<Rightarrow> nat" where
  "fold_case c = (if is_upper_ascii c then c + 32 else c)"

section \<open>Methods\<close>

definition trim_start :: "js_text \<Rightarrow> js_text" where
  "trim_start s = dropWhile is_ws s"

definition trim_end :: "js_text \<Rightarrow> js_text" where
  "trim_end s = rev (dropWhile is_ws (rev s))"

definition js_trim :: "js_text \<Rightarrow> js_text" where
  "js_trim s = trim_end (trim_start s)"

definition starts_with :: "js_text \<Rightarrow> js_text \<Rightarrow> bool" where
  "starts_with p s \<longleftrightarrow> take (length p) s = p"

definition ends_with :: "js_text \<Rightarrow> js_text \<Rightarrow> bool" where
  "ends_with p s \<longleftrightarrow> drop (length s - length p) s = p"

text \<open>\<open>split\<close> on a one-character separator, \<open>join\<close>, and \<open>replace\<close> of every occurrence of a character.\<close>

fun js_split :: "nat \<Rightarrow> js_text \<Rightarrow> js_text list" where
  "js_split sep [] = [[]]"
| "js_split sep (c # cs) =
     (if c = sep then [] # js_split sep cs
      else (case js_split sep cs of [] \<Rightarrow> [[c]] | p # ps \<Rightarrow> (c # p) # ps))"

fun js_join :: "js_text \<Rightarrow> js_text list \<Rightarrow> js_text" where
  "js_join sep [] = []"
| "js_join sep [p] = p"
| "js_join sep (p # q # ps) = p @ sep @ js_join sep (q # ps)"

definition replace_unit :: "nat \<Rightarrow> js_text \<Rightarrow> js_text \<Rightarrow> js_text" where
  "replace_unit c r s = concat (map (\<lambda>x. if x = c then r else [x]) s)"

text \<open>\<open>filter(Boolean)\<close> on strings.\<close>

definition non_empty :: "js_text list \<Rightarrow> js_text list" where
  "non_empty ps = filter (\<lambda>p. p \<noteq> []) ps"

text \<open>\<open>indexOf\<close>, with \<open>None\<close> for -1.\<close>

fun index_of :: "js_text \<Rightarrow> js_text \<Rightarrow> nat option" where
  "index_of p [] = (if p = [] then Some 0 else None)"
| "index_of p (c # cs) =
     (if starts_with p (c # cs) then Some 0 else map_option Suc (index_of p cs))"

text \<open>\<open>Array.from\<close>: the code points of a string, surrogate pairs kept together.\<close>

fun code_points :: "js_text \<Rightarrow> js_text list" where
  "code_points [] = []"
| "code_points [c] = [[c]]"
| "code_points (c # d # cs) =
     (if 0xD800 \<le> c \<and> c \<le> 0xDBFF \<and> 0xDC00 \<le> d \<and> d \<le> 0xDFFF
      then [c, d] # code_points cs else [c] # code_points (d # cs))"

section \<open>Facts\<close>

lemma concat_code_points [simp]: "concat (code_points s) = s"
  by (induction s rule: code_points.induct) auto

lemma js_split_not_Nil [simp]: "js_split sep s \<noteq> []"
  by (induction s) (auto split: list.splits)

lemma js_join_Cons: "ps \<noteq> [] \<Longrightarrow> js_join sep (p # ps) = p @ sep @ js_join sep ps"
  by (cases ps) auto

lemma js_join_head [simp]: "js_join sep ((c # p) # ps) = c # js_join sep (p # ps)"
  by (cases ps) auto

lemma js_join_split: "js_join [sep] (js_split sep s) = s"
proof (induction s)
  case (Cons c cs)
  then show ?case
    by (cases "js_split sep cs") (auto simp: js_join_Cons)
qed simp

lemma split_no_sep: "p \<in> set (js_split sep s) \<Longrightarrow> sep \<notin> set p"
  by (induction s arbitrary: p) (auto split: if_splits list.splits)

lemma trim_start_no_ws: "(\<And>c. c \<in> set s \<Longrightarrow> \<not> is_ws c) \<Longrightarrow> trim_start s = s"
  by (cases s) (auto simp: trim_start_def)

lemma trim_start_id: "s \<noteq> [] \<Longrightarrow> \<not> is_ws (hd s) \<Longrightarrow> trim_start s = s"
  by (cases s) (auto simp: trim_start_def)

lemma trim_end_id: "s \<noteq> [] \<Longrightarrow> \<not> is_ws (last s) \<Longrightarrow> trim_end s = s"
  by (cases s rule: rev_cases) (auto simp: trim_end_def)

lemma js_trim_id: "s \<noteq> [] \<Longrightarrow> \<not> is_ws (hd s) \<Longrightarrow> \<not> is_ws (last s) \<Longrightarrow> js_trim s = s"
  by (simp add: js_trim_def trim_start_id trim_end_id)

lemma js_trim_Nil [simp]: "js_trim [] = []"
  by (simp add: js_trim_def trim_start_def trim_end_def)

lemma hd_dropWhile_ws: "trim_start s \<noteq> [] \<Longrightarrow> \<not> is_ws (hd (trim_start s))"
  unfolding trim_start_def by (rule hd_dropWhile)

lemma trim_end_Nil: "trim_end s = [] \<longleftrightarrow> (\<forall>c \<in> set s. is_ws c)"
  by (simp add: trim_end_def)

lemma last_trim_end: "trim_end s \<noteq> [] \<Longrightarrow> \<not> is_ws (last (trim_end s))"
  using hd_dropWhile [of is_ws "rev s"] by (simp add: trim_end_def last_rev)

lemma trim_end_prefix: "\<exists>r. s = trim_end s @ r"
  by (rule exI [of _ "rev (takeWhile is_ws (rev s))"])
     (metis trim_end_def rev_append rev_rev_ident takeWhile_dropWhile_id)

lemma hd_js_trim: "js_trim s \<noteq> [] \<Longrightarrow> \<not> is_ws (hd (js_trim s))"
proof -
  assume ne: "js_trim s \<noteq> []"
  obtain r where "trim_start s = js_trim s @ r" using trim_end_prefix unfolding js_trim_def by blast
  with ne hd_dropWhile_ws [of s] show ?thesis by (cases "js_trim s") auto
qed

lemma last_js_trim: "js_trim s \<noteq> [] \<Longrightarrow> \<not> is_ws (last (js_trim s))"
  unfolding js_trim_def by (rule last_trim_end)

lemma js_trim_idem [simp]: "js_trim (js_trim s) = js_trim s"
  by (cases "js_trim s = []") (auto simp: js_trim_id hd_js_trim last_js_trim)

section \<open>Joined parts\<close>

lemma split_append_sep: "sep \<notin> set p \<Longrightarrow> js_split sep (p @ sep # s) = p # js_split sep s"
  by (induction p) auto

lemma split_single: "sep \<notin> set p \<Longrightarrow> js_split sep p = [p]"
  by (induction p) auto

lemma split_joined: "list_all (\<lambda>p. sep \<notin> set p) ps \<Longrightarrow> ps \<noteq> [] \<Longrightarrow> js_split sep (js_join [sep] ps) = ps"
  by (induction "[sep]" ps rule: js_join.induct) (auto simp: split_append_sep split_single)

section \<open>Decimal numbers\<close>

text \<open>\<open>String\<close> of a non-negative integer, \<open>padStart\<close>, and \<open>Number\<close> of a text of digits.\<close>

fun nat_text :: "nat \<Rightarrow> js_text" where
  "nat_text n = (if n < 10 then [48 + n] else nat_text (n div 10) @ [48 + n mod 10])"

declare nat_text.simps [simp del]

definition pad_start :: "nat \<Rightarrow> nat \<Rightarrow> js_text \<Rightarrow> js_text" where
  "pad_start width c s = replicate (width - length s) c @ s"

definition digits_value :: "js_text \<Rightarrow> nat" where
  "digits_value s = fold (\<lambda>c v. v * 10 + (c - 48)) s 0"

lemma digits_value_snoc: "digits_value (s @ [c]) = digits_value s * 10 + (c - 48)"
  by (simp add: digits_value_def)

lemma nat_text_spec: "digits_value (nat_text n) = n \<and> list_all is_digit (nat_text n) \<and> nat_text n \<noteq> []"
proof (induction n rule: nat_text.induct)
  case (1 n)
  show ?case
  proof (cases "n < 10")
    case True
    then show ?thesis by (simp add: nat_text.simps [of n] digits_value_def is_digit_def)
  next
    case False
    then show ?thesis using 1 by (simp add: nat_text.simps [of n] digits_value_snoc is_digit_def)
  qed
qed

lemma nat_text_length: "0 < k \<Longrightarrow> n < 10 ^ k \<Longrightarrow> length (nat_text n) \<le> k"
proof (induction k arbitrary: n)
  case (Suc k)
  show ?case
  proof (cases "n < 10")
    case True
    then show ?thesis by (simp add: nat_text.simps [of n])
  next
    case False
    then have "0 < k" using Suc.prems(2) by (cases k) auto
    moreover have "n div 10 < 10 ^ k" using Suc.prems(2) by (simp add: less_mult_imp_div_less mult.commute)
    ultimately show ?thesis using False Suc.IH [of "n div 10"] by (simp add: nat_text.simps [of n])
  qed
qed simp

lemma digits_value_pad: "digits_value (replicate k 48 @ s) = digits_value s"
proof -
  have "fold (\<lambda>c v. v * 10 + (c - 48)) (replicate k 48) 0 = (0 :: nat)" by (induction k) auto
  then show ?thesis by (simp add: digits_value_def)
qed

lemma padded_text:
  assumes "n < 10 ^ k" and "0 < k"
  shows "digits_value (pad_start k 48 (nat_text n)) = n" and "length (pad_start k 48 (nat_text n)) = k"
    and "list_all is_digit (pad_start k 48 (nat_text n))"
proof -
  show "digits_value (pad_start k 48 (nat_text n)) = n"
    by (simp add: pad_start_def digits_value_pad nat_text_spec)
  show "length (pad_start k 48 (nat_text n)) = k"
    using nat_text_length [OF assms(2,1)] by (simp add: pad_start_def)
  have "list_all is_digit (replicate m 48)" for m by (induction m) (simp_all add: is_digit_def)
  then show "list_all is_digit (pad_start k 48 (nat_text n))"
    by (simp add: pad_start_def nat_text_spec)
qed

lemma digits_value_less: "list_all is_digit s \<Longrightarrow> digits_value s < 10 ^ length s"
  by (induction s rule: rev_induct) (auto simp: digits_value_snoc is_digit_def digits_value_def [of "[]"])

lemma digits_value_inj:
  "list_all is_digit s \<Longrightarrow> list_all is_digit t \<Longrightarrow> length s = length t \<Longrightarrow> digits_value s = digits_value t \<Longrightarrow> s = t"
proof (induction s arbitrary: t rule: rev_induct)
  case (snoc c s)
  obtain d t' where t: "t = t' @ [d]" using snoc.prems(3) by (cases t rule: rev_cases) auto
  have c: "48 \<le> c" "c \<le> 57" "48 \<le> d" "d \<le> 57" using snoc.prems(1,2) t by (auto simp: is_digit_def)
  have eq: "digits_value s * 10 + (c - 48) = digits_value t' * 10 + (d - 48)"
    using snoc.prems(4) t by (simp add: digits_value_snoc)
  have ten: "a = b \<and> x = y" if "a * 10 + x = b * 10 + y" "x < 10" "y < 10" for a b x y :: nat
  proof -
    have "a = (a * 10 + x) div 10" "b = (b * 10 + y) div 10" using that(2,3) by simp_all
    then have "a = b" using that(1) by simp
    then show ?thesis using that(1) by simp
  qed
  have "digits_value s = digits_value t' \<and> c - 48 = d - 48" by (rule ten [OF eq]) (use c in simp_all)
  then have "digits_value s = digits_value t'" "c = d" using c by auto
  then show ?case using snoc.IH [of t'] snoc.prems t by simp
qed simp

end
