(* ===== verification/Lath_Model.thy ===== *)
theory Lath_Model
  imports Prelude Js_Text
begin

text \<open>
  The split tree of the tiling engine, \<open>lib/src/lib/lath/model.ts\<close>: its data, the queries by
  leaf id and by path, the invariant-restoring constructors and the structure fingerprint.
  A split's children are the code's \<open>LathChild\<close> records, here pairs of a node and its weight.
  Paths are chains of child indices; \<open>undefined\<close> results of indexing out of range are \<open>None\<close>.
\<close>

section \<open>Data\<close>

type_synonym leaf_id = js_text

datatype edge = EdgeLeft | EdgeRight | EdgeTop | EdgeBottom

datatype axis = Row | Col

record rect =
  rx :: js_num
  ry :: js_num
  rwidth :: js_num
  rheight :: js_num

record rsize =
  sz_width :: js_num
  sz_height :: js_num

datatype lath_node =
    Leaf leaf_id
  | Split axis "(lath_node \<times> js_num) list"

type_synonym lath_child = "lath_node \<times> js_num"

record lath_tree =
  tree_root :: "lath_node option"

abbreviation tree_of :: "lath_node \<Rightarrow> lath_tree" where
  "tree_of n \<equiv> \<lparr>tree_root = Some n\<rparr>"

definition rects_close :: "rect \<Rightarrow> rect \<Rightarrow> js_num \<Rightarrow> bool" where
  "rects_close a b eps \<longleftrightarrow>
     \<bar>rx a - rx b\<bar> \<le> eps \<and> \<bar>ry a - ry b\<bar> \<le> eps \<and>
     \<bar>rwidth a - rwidth b\<bar> \<le> eps \<and> \<bar>rheight a - rheight b\<bar> \<le> eps"

definition edge_axis :: "edge \<Rightarrow> axis" where
  "edge_axis e = (if e = EdgeLeft \<or> e = EdgeRight then Row else Col)"

definition edge_is_before :: "edge \<Rightarrow> bool" where
  "edge_is_before e \<longleftrightarrow> e = EdgeLeft \<or> e = EdgeTop"

fun opposite_edge :: "edge \<Rightarrow> edge" where
  "opposite_edge EdgeLeft = EdgeRight"
| "opposite_edge EdgeRight = EdgeLeft"
| "opposite_edge EdgeTop = EdgeBottom"
| "opposite_edge EdgeBottom = EdgeTop"

definition leaf_tree :: "leaf_id \<Rightarrow> lath_tree" where
  "leaf_tree lid = tree_of (Leaf lid)"

section \<open>Queries\<close>

lemma size_child [termination_simp]:
  "c \<in> set cs \<Longrightarrow> size (fst c) < Suc (size_list (size_prod size (\<lambda>_. 0)) cs)"
  by (induction cs) auto

fun node_leaves :: "lath_node \<Rightarrow> leaf_id list" where
  "node_leaves (Leaf lid) = [lid]"
| "node_leaves (Split d cs) = concat (map (\<lambda>c. node_leaves (fst c)) cs)"

definition leaves :: "lath_tree \<Rightarrow> leaf_id list" where
  "leaves t = (case tree_root t of None \<Rightarrow> [] | Some n \<Rightarrow> node_leaves n)"

text \<open>The walk of \<open>findLeafPath\<close>, stopping at the first match in pre-order.\<close>

fun find_leaf_node :: "leaf_id \<Rightarrow> lath_node \<Rightarrow> nat list option"
and find_leaf_children :: "leaf_id \<Rightarrow> nat \<Rightarrow> lath_child list \<Rightarrow> nat list option" where
  "find_leaf_node lid (Leaf x) = (if x = lid then Some [] else None)"
| "find_leaf_node lid (Split d cs) = find_leaf_children lid 0 cs"
| "find_leaf_children lid i [] = None"
| "find_leaf_children lid i ((c, w) # cs) =
     (case find_leaf_node lid c of
        Some p \<Rightarrow> Some (i # p)
      | None \<Rightarrow> find_leaf_children lid (Suc i) cs)"

definition find_leaf_path :: "lath_tree \<Rightarrow> leaf_id \<Rightarrow> nat list option" where
  "find_leaf_path t lid = (case tree_root t of None \<Rightarrow> None | Some n \<Rightarrow> find_leaf_node lid n)"

fun node_at :: "lath_node \<Rightarrow> nat list \<Rightarrow> lath_node option" where
  "node_at n [] = Some n"
| "node_at (Leaf lid) (i # p) = None"
| "node_at (Split d cs) (i # p) = (if i < length cs then node_at (fst (cs ! i)) p else None)"

definition node_at_path :: "lath_tree \<Rightarrow> nat list \<Rightarrow> lath_node option" where
  "node_at_path t p = (case tree_root t of None \<Rightarrow> None | Some n \<Rightarrow> node_at n p)"

section \<open>Constructors\<close>

definition normalize_weights :: "lath_child list \<Rightarrow> lath_child list" where
  "normalize_weights cs =
     (let s = sum_list (map snd cs) in
      if s \<le> 0
      then (let w = (if length cs > 0 then 1 / of_nat (length cs) else 0)
            in map (\<lambda>c. (fst c, w)) cs)
      else map (\<lambda>c. (fst c, snd c / s)) cs)"

text \<open>What \<open>normalize\<close> pushes for one child once the child itself is normalized.\<close>

fun collect_child :: "axis \<Rightarrow> js_num \<Rightarrow> lath_node option \<Rightarrow> lath_child list" where
  "collect_child d w None = []"
| "collect_child d w (Some (Leaf lid)) = [(Leaf lid, w)]"
| "collect_child d w (Some (Split d' gcs)) =
     (if d' = d then map (\<lambda>gc. (fst gc, snd gc * w)) gcs else [(Split d' gcs, w)])"

definition build_split :: "axis \<Rightarrow> lath_child list \<Rightarrow> lath_node option" where
  "build_split d collected =
     (if length collected = 0 then None
      else if length collected = 1 then Some (fst (hd collected))
      else Some (Split d (normalize_weights collected)))"

fun normalize :: "lath_node \<Rightarrow> lath_node option" where
  "normalize (Leaf lid) = Some (Leaf lid)"
| "normalize (Split d cs) =
     build_split d (concat (map (\<lambda>c. collect_child d (snd c) (normalize (fst c))) cs))"

fun replace_at :: "lath_node \<Rightarrow> nat list \<Rightarrow> lath_node \<Rightarrow> lath_node" where
  "replace_at n [] r = r"
| "replace_at (Leaf lid) (i # p) r = Leaf lid"
| "replace_at (Split d cs) (i # p) r =
     (if i < length cs
      then Split d (cs[i := (replace_at (fst (cs ! i)) p r, snd (cs ! i))])
      else Split d cs)"

section \<open>Well-formed trees\<close>

text \<open>
  \<open>canon\<close> is the shape the constructors promise (\<open>validate\<close>, with exact sums): a split has at
  least two children, none of them a split of its own direction, with positive weights that sum
  to 1. \<open>pos_weights\<close> is what the operations hand to \<open>normalize\<close>.
\<close>

fun split_dir :: "lath_node \<Rightarrow> axis option" where
  "split_dir (Leaf lid) = None"
| "split_dir (Split d cs) = Some d"

fun canon :: "lath_node \<Rightarrow> bool" where
  "canon (Leaf lid) = True"
| "canon (Split d cs) =
     (2 \<le> length cs \<and> sum_list (map snd cs) = 1 \<and>
      (\<forall>c \<in> set cs. canon (fst c) \<and> 0 < snd c \<and> split_dir (fst c) \<noteq> Some d))"

fun pos_weights :: "lath_node \<Rightarrow> bool" where
  "pos_weights (Leaf lid) = True"
| "pos_weights (Split d cs) = (\<forall>c \<in> set cs. pos_weights (fst c) \<and> 0 < snd c)"

text \<open>The leaf sequence of a child list.\<close>

definition children_leaves :: "lath_child list \<Rightarrow> leaf_id list" where
  "children_leaves cs = concat (map (\<lambda>c. node_leaves (fst c)) cs)"

lemma children_leaves_simps [simp]:
  "children_leaves [] = []"
  "children_leaves (c # cs) = node_leaves (fst c) @ children_leaves cs"
  "children_leaves (cs @ cs') = children_leaves cs @ children_leaves cs'"
  by (auto simp: children_leaves_def)

definition wf_tree :: "lath_tree \<Rightarrow> bool" where
  "wf_tree t \<longleftrightarrow> (case tree_root t of None \<Rightarrow> True | Some n \<Rightarrow> canon n \<and> distinct (node_leaves n))"

lemma canon_pos_weights: "canon n \<Longrightarrow> pos_weights n"
  by (induction n rule: canon.induct) auto

lemma node_leaves_split [simp]: "node_leaves (Split d cs) = children_leaves cs"
  by (simp add: children_leaves_def)

declare node_leaves.simps(2) [simp del]

lemma node_leaves_nonempty: "canon n \<Longrightarrow> node_leaves n \<noteq> []"
proof (induction n rule: canon.induct)
  case (1 lid)
  then show ?case by simp
next
  case (2 d cs)
  then obtain c cs' where cs: "cs = c # cs'" by (cases cs) auto
  with 2 have "node_leaves (fst c) \<noteq> []" by auto
  with cs show ?case by simp
qed

subsection \<open>Weights\<close>

lemma map_fst_normalize_weights [simp]: "map fst (normalize_weights cs) = map fst cs"
  by (auto simp: normalize_weights_def Let_def)

lemma length_normalize_weights [simp]: "length (normalize_weights cs) = length cs"
  by (auto simp: normalize_weights_def Let_def)

lemma sum_normalize_weights: "cs \<noteq> [] \<Longrightarrow> sum_list (map snd (normalize_weights cs)) = 1"
  by (auto simp: normalize_weights_def Let_def sum_list_const sum_list_map_div comp_def)

lemma pos_normalize_weights:
  assumes "\<forall>c \<in> set cs. 0 < snd c" and c: "c \<in> set (normalize_weights cs)"
  shows "0 < snd c"
proof -
  have "cs \<noteq> []" using c by (auto simp: normalize_weights_def)
  with assms have "0 < sum_list (map snd cs)" by (intro sum_list_pos) auto
  with assms show ?thesis by (auto simp: normalize_weights_def Let_def)
qed

lemma fst_normalize_weights: "c \<in> set (normalize_weights cs) \<Longrightarrow> \<exists>c' \<in> set cs. fst c = fst c'"
  by (metis imageE image_eqI list.set_map map_fst_normalize_weights)

lemma normalize_weights_id: "sum_list (map snd cs) = 1 \<Longrightarrow> normalize_weights cs = cs"
  by (simp add: normalize_weights_def Let_def)

subsection \<open>Normalization\<close>

lemma children_leaves_fst: "children_leaves cs = concat (map node_leaves (map fst cs))"
  by (simp add: children_leaves_def comp_def)

lemma children_leaves_cong: "map fst cs = map fst cs' \<Longrightarrow> children_leaves cs = children_leaves cs'"
  by (simp only: children_leaves_fst)

lemma children_leaves_normalize_weights [simp]:
  "children_leaves (normalize_weights cs) = children_leaves cs"
  by (rule children_leaves_cong) simp

lemma children_leaves_concat:
  "children_leaves (concat xss) = concat (map children_leaves xss)"
  by (induction xss) auto

definition opt_leaves :: "lath_node option \<Rightarrow> leaf_id list" where
  "opt_leaves o' = (case o' of None \<Rightarrow> [] | Some n \<Rightarrow> node_leaves n)"

lemma opt_leaves_simps [simp]: "opt_leaves None = []" "opt_leaves (Some n) = node_leaves n"
  by (auto simp: opt_leaves_def)

lemma leaves_eq_opt: "leaves t = opt_leaves (tree_root t)"
  by (simp add: leaves_def opt_leaves_def)

lemma children_leaves_collect: "children_leaves (collect_child d w o') = opt_leaves o'"
  by (cases "(d, w, o')" rule: collect_child.cases)
     (auto intro!: children_leaves_cong)

lemma opt_leaves_build_split: "opt_leaves (build_split d cs) = children_leaves cs"
  by (cases cs) (auto simp: build_split_def)

lemma opt_leaves_normalize [lath_leaves]: "opt_leaves (normalize n) = node_leaves n"
proof (induction n rule: normalize.induct)
  case (1 lid)
  then show ?case by simp
next
  case (2 d cs)
  have "map (\<lambda>c. children_leaves (collect_child d (snd c) (normalize (fst c)))) cs =
        map (\<lambda>c. node_leaves (fst c)) cs"
    using 2 by (auto simp: children_leaves_collect)
  then have "concat (map (\<lambda>c. children_leaves (collect_child d (snd c) (normalize (fst c)))) cs) =
        children_leaves cs"
    by (simp only: children_leaves_def)
  then show ?case by (simp add: opt_leaves_build_split children_leaves_concat comp_def)
qed

text \<open>Children in normal form beside a split of direction \<open>d\<close>.\<close>

definition good_child :: "axis \<Rightarrow> lath_child \<Rightarrow> bool" where
  "good_child d c \<longleftrightarrow> canon (fst c) \<and> 0 < snd c \<and> split_dir (fst c) \<noteq> Some d"

lemma canon_Split:
  "canon (Split d cs) \<longleftrightarrow>
   2 \<le> length cs \<and> sum_list (map snd cs) = 1 \<and> (\<forall>c \<in> set cs. good_child d c)"
  by (auto simp: good_child_def)

lemma good_child_collect:
  "(\<And>n. o' = Some n \<Longrightarrow> canon n) \<Longrightarrow> 0 < w \<Longrightarrow> c \<in> set (collect_child d w o') \<Longrightarrow> good_child d c"
  by (cases "(d, w, o')" rule: collect_child.cases) (auto simp: good_child_def split: if_splits)

lemma good_child_normalize_weights:
  assumes "\<forall>c \<in> set cs. good_child d c" and "c \<in> set (normalize_weights cs)"
  shows "good_child d c"
  using assms pos_normalize_weights [of cs c] fst_normalize_weights [of c cs]
  by (auto simp: good_child_def)

lemma canon_build_split:
  assumes good: "\<forall>c \<in> set cs. good_child d c" and "build_split d cs = Some n"
  shows "canon n"
proof (cases "length cs \<le> 1")
  case True
  with assms show ?thesis by (cases cs) (auto simp: build_split_def good_child_def)
next
  case False
  then have "cs \<noteq> []" by auto
  with False assms(2) show ?thesis
    by (auto simp: build_split_def sum_normalize_weights canon_Split simp del: canon.simps
             intro: good_child_normalize_weights [OF good])
qed

lemma canon_normalize: "pos_weights n \<Longrightarrow> normalize n = Some m \<Longrightarrow> canon m"
proof (induction n arbitrary: m rule: normalize.induct)
  case (1 lid)
  then show ?case by auto
next
  case (2 d cs)
  have "good_child d x" if "c \<in> set cs" "x \<in> set (collect_child d (snd c) (normalize (fst c)))" for c x
    using "2.IH" [OF that(1)] "2.prems"(1) that by (intro good_child_collect [of "normalize (fst c)"]) auto
  then have "\<forall>x \<in> set (concat (map (\<lambda>c. collect_child d (snd c) (normalize (fst c))) cs)). good_child d x"
    by auto
  then show ?case by (rule canon_build_split) (use "2.prems"(2) in simp)
qed

lemma collect_good_child: "good_child d c \<Longrightarrow> collect_child d (snd c) (Some (fst c)) = [c]"
  by (cases c; cases "fst c") (auto simp: good_child_def)

lemma concat_map_singleton: "(\<And>x. x \<in> set xs \<Longrightarrow> f x = [x]) \<Longrightarrow> concat (map f xs) = xs"
  by (induction xs) auto

lemma normalize_canon_id [simp]: "canon n \<Longrightarrow> normalize n = Some n"
proof (induction n rule: canon.induct)
  case (1 lid)
  then show ?case by simp
next
  case (2 d cs)
  have "collect_child d (snd c) (normalize (fst c)) = [c]" if "c \<in> set cs" for c
    using 2 that collect_good_child [of d c] by (auto simp: canon_Split good_child_def simp del: canon.simps)
  then have "concat (map (\<lambda>c. collect_child d (snd c) (normalize (fst c))) cs) = cs"
    by (rule concat_map_singleton)
  with "2.prems" show ?case by (auto simp: build_split_def normalize_weights_id)
qed

subsection \<open>Paths\<close>

lemma node_at_append:
  "node_at n (p @ q) = (case node_at n p of None \<Rightarrow> None | Some m \<Rightarrow> node_at m q)"
  by (induction n p rule: node_at.induct) auto

lemma find_leaf_sound:
  "find_leaf_node lid n = Some p \<Longrightarrow> node_at n p = Some (Leaf lid)"
  "find_leaf_children lid i cs = Some q \<Longrightarrow>
   \<exists>j p. q = (i + j) # p \<and> j < length cs \<and> node_at (fst (cs ! j)) p = Some (Leaf lid)"
proof (induction lid n and lid i cs arbitrary: p and q
       rule: find_leaf_node_find_leaf_children.induct)
  case (4 lid i c w cs)
  show ?case
  proof (cases "find_leaf_node lid c")
    case None
    with "4.prems" "4.IH"(2) obtain j p where
      "q = (Suc i + j) # p" "j < length cs" "node_at (fst (cs ! j)) p = Some (Leaf lid)"
      by auto
    then show ?thesis by (intro exI [of _ "Suc j"] exI [of _ p]) auto
  next
    case (Some p)
    with "4.prems" "4.IH"(1) show ?thesis by (intro exI [of _ 0] exI [of _ p]) auto
  qed
qed (force split: if_splits)+

lemma find_leaf_None:
  "find_leaf_node lid n = None \<longleftrightarrow> lid \<notin> set (node_leaves n)"
  "find_leaf_children lid i cs = None \<longleftrightarrow> lid \<notin> set (children_leaves cs)"
  by (induction lid n and lid i cs rule: find_leaf_node_find_leaf_children.induct)
     (auto split: option.splits)

lemma find_leaf_path_None: "find_leaf_path t lid = None \<longleftrightarrow> lid \<notin> set (leaves t)"
  by (auto simp: find_leaf_path_def leaves_def find_leaf_None split: option.splits)

lemma find_leaf_path_SomeD:
  assumes "find_leaf_path t lid = Some p"
  obtains n where "tree_root t = Some n" "node_at n p = Some (Leaf lid)"
    "find_leaf_node lid n = Some p"
  using assms find_leaf_sound(1) by (auto simp: find_leaf_path_def split: option.splits)

text \<open>A path cuts the leaf sequence in three: what is before, at and after the subtree.\<close>

lemma children_leaves_upd:
  "i < length cs \<Longrightarrow> children_leaves (cs[i := c]) =
   children_leaves (take i cs) @ node_leaves (fst c) @ children_leaves (drop (Suc i) cs)"
  by (simp add: upd_conv_take_nth_drop)

lemma leaves_replace:
  assumes "node_at n p = Some x"
  obtains pre post where "node_leaves n = pre @ node_leaves x @ post"
    "\<And>y. node_leaves (replace_at n p y) = pre @ node_leaves y @ post"
proof -
  have "\<exists>pre post. node_leaves n = pre @ node_leaves x @ post \<and>
          (\<forall>y. node_leaves (replace_at n p y) = pre @ node_leaves y @ post)"
    using assms
  proof (induction n p rule: node_at.induct)
    case (1 n)
    then show ?case by (intro exI [of _ "[]"]) auto
  next
    case (2 lid i p)
    then show ?case by simp
  next
    case (3 d cs i p)
    then obtain pre post where i: "i < length cs"
      and ih: "node_leaves (fst (cs ! i)) = pre @ node_leaves x @ post"
        "\<forall>y. node_leaves (replace_at (fst (cs ! i)) p y) = pre @ node_leaves y @ post"
      by (auto split: if_splits)
    let ?pre = "children_leaves (take i cs)" and ?post = "children_leaves (drop (Suc i) cs)"
    have "children_leaves cs = ?pre @ node_leaves (fst (cs ! i)) @ ?post"
      using children_leaves_upd [OF i, of "cs ! i"] by simp
    with i ih show ?case
      by (intro exI [of _ "?pre @ pre"] exI [of _ "post @ ?post"]) (simp add: children_leaves_upd)
  qed
  then show thesis using that by blast
qed

lemma set_leaves_node_at: "node_at n p = Some x \<Longrightarrow> set (node_leaves x) \<subseteq> set (node_leaves n)"
  by (erule leaves_replace) auto

lemma node_at_replace_same: "node_at n p = Some x \<Longrightarrow> node_at (replace_at n p y) p = Some y"
  by (induction n p rule: node_at.induct) (auto split: if_splits)

lemma replace_at_id: "node_at n p = Some x \<Longrightarrow> replace_at n p x = n"
  by (induction n p rule: node_at.induct) (auto split: if_splits)

lemma replace_at_twice: "node_at n p = Some x \<Longrightarrow> replace_at (replace_at n p y) p z = replace_at n p z"
  by (induction n p rule: node_at.induct) (auto split: if_splits)

lemma replace_at_append:
  "node_at n p = Some x \<Longrightarrow> replace_at n (p @ q) y = replace_at n p (replace_at x q y)"
  by (induction n p rule: node_at.induct) (auto split: if_splits)

lemma canon_node_at: "canon n \<Longrightarrow> node_at n p = Some x \<Longrightarrow> canon x"
  by (induction n p rule: node_at.induct) (auto split: if_splits)

lemma pos_weights_node_at: "pos_weights n \<Longrightarrow> node_at n p = Some x \<Longrightarrow> pos_weights x"
  by (induction n p rule: node_at.induct) (auto split: if_splits)

lemma set_update_cases: "c \<in> set (cs[i := x]) \<Longrightarrow> c = x \<or> c \<in> set cs"
  by (metis insertE set_update_subset_insert subsetD)

lemma pos_weights_replace [lath_intros]:
  "pos_weights n \<Longrightarrow> pos_weights y \<Longrightarrow> pos_weights (replace_at n p y)"
  by (induction n p y rule: replace_at.induct) (auto dest!: set_update_cases)

lemma normalize_Some_iff: "pos_weights n \<Longrightarrow> normalize n = None \<longleftrightarrow> node_leaves n = []"
  by (metis canon_normalize node_leaves_nonempty not_None_eq opt_leaves_normalize opt_leaves_simps)

text \<open>The well-formed tree that \<open>normalize\<close> builds from positively weighted nodes.\<close>

lemma wf_tree_normalize [lath_intros]:
  assumes "pos_weights n" and "distinct (node_leaves n)"
  shows "wf_tree \<lparr>tree_root = normalize n\<rparr>"
  using assms canon_normalize [of n] opt_leaves_normalize [of n]
  by (auto simp: wf_tree_def split: option.splits)

lemma leaves_normalize_tree [simp]: "leaves \<lparr>tree_root = normalize n\<rparr> = node_leaves n"
  by (simp add: leaves_eq_opt opt_leaves_normalize)

lemma leaves_tree_of [simp]: "leaves (tree_of n) = node_leaves n"
  by (simp add: leaves_def)

end
