(* ===== verification/Lath_Fingerprint.thy ===== *)
theory Lath_Fingerprint
  imports Lath_Model
begin

text \<open>
  \<open>structureFingerprint\<close> of \<open>lib/src/lib/lath/model.ts\<close>: the text \<open>JSON.stringify\<close> gives for
  a node with its weights stripped. The serializer is written out for the objects the code
  builds, and the text is shown to determine the stripped node.
\<close>

section \<open>JSON text\<close>

definition json_quote :: nat where "json_quote = 34"
definition json_backslash :: nat where "json_backslash = 92"

definition hex_digit :: "nat \<Rightarrow> nat" where
  "hex_digit d = (if d < 10 then 48 + d else 87 + d)"

text \<open>ECMAScript's \<open>UnicodeEscape\<close>: four lower-case hexadecimal digits.\<close>

definition json_unicode_escape :: "nat \<Rightarrow> js_text" where
  "json_unicode_escape c =
     [json_backslash, ch CHR ''u'', hex_digit (c div 4096), hex_digit (c div 256 mod 16),
      hex_digit (c div 16 mod 16), hex_digit (c mod 16)]"

definition is_surrogate :: "nat \<Rightarrow> bool" where
  "is_surrogate c \<longleftrightarrow> 0xD800 \<le> c \<and> c \<le> 0xDFFF"

text \<open>
  The escapes of \<open>QuoteJSONString\<close>, which goes through the code points of the string: a code
  unit of its own is escaped when it is a control character, a quote, a backslash or a lone
  surrogate; a surrogate pair is one code point and is copied.
\<close>

definition json_escape_unit :: "nat \<Rightarrow> js_text" where
  "json_escape_unit c =
     (if c = 8 then [json_backslash, ch CHR ''b'']
      else if c = 9 then [json_backslash, ch CHR ''t'']
      else if c = 10 then [json_backslash, ch CHR ''n'']
      else if c = 12 then [json_backslash, ch CHR ''f'']
      else if c = 13 then [json_backslash, ch CHR ''r'']
      else if c = json_quote then [json_backslash, json_quote]
      else if c = json_backslash then [json_backslash, json_backslash]
      else if c < 32 \<or> is_surrogate c then json_unicode_escape c
      else [c])"

fun json_escape_point :: "js_text \<Rightarrow> js_text" where
  "json_escape_point [c] = json_escape_unit c"
| "json_escape_point p = p"

definition json_string :: "js_text \<Rightarrow> js_text" where
  "json_string s = json_quote # concat (map json_escape_point (code_points s)) @ [json_quote]"

subsection \<open>The escapes read back\<close>

text \<open>Reading one escaped code point back, for the injectivity proof.\<close>

definition hex_value :: "nat \<Rightarrow> nat" where
  "hex_value c = (if c < 58 then c - 48 else c - 87)"

fun json_unescape :: "js_text \<Rightarrow> (js_text \<times> js_text) option" where
  "json_unescape [] = None"
| "json_unescape (c # r) =
     (if c \<noteq> json_backslash
      then (if is_surrogate c then Some (c # take 1 r, drop 1 r) else Some ([c], r))
      else case r of
        [] \<Rightarrow> None
      | e # r' \<Rightarrow>
          (if e = ch CHR ''b'' then Some ([8], r')
           else if e = ch CHR ''t'' then Some ([9], r')
           else if e = ch CHR ''n'' then Some ([10], r')
           else if e = ch CHR ''f'' then Some ([12], r')
           else if e = ch CHR ''r'' then Some ([13], r')
           else if e = ch CHR ''u''
           then Some ([4096 * hex_value (r' ! 0) + 256 * hex_value (r' ! 1) +
                       16 * hex_value (r' ! 2) + hex_value (r' ! 3)], drop 4 r')
           else Some ([e], r')))"

lemma hex_value_digit [simp]: "d < 16 \<Longrightarrow> hex_value (hex_digit d) = d"
  by (auto simp: hex_value_def hex_digit_def)

lemma hex_digits:
  "4096 * (c div 4096) + 256 * (c div 256 mod 16) + 16 * (c div 16 mod 16) + c mod 16 = (c :: nat)"
proof -
  have "16 * (c div 16) + c mod 16 = c" by simp
  moreover have "16 * (c div 256) + c div 16 mod 16 = c div 16"
    using mult_div_mod_eq [of 16 "c div 16"] by (simp add: div_mult2_eq [symmetric])
  moreover have "16 * (c div 4096) + c div 256 mod 16 = c div 256"
    using mult_div_mod_eq [of 16 "c div 256"] by (simp add: div_mult2_eq [symmetric])
  ultimately show ?thesis by linarith
qed

definition is_point :: "js_text \<Rightarrow> bool" where
  "is_point p \<longleftrightarrow> (\<exists>c. p = [c]) \<or> (\<exists>c d. p = [c, d] \<and> is_surrogate c)"

lemma code_points_are_points: "p \<in> set (code_points s) \<Longrightarrow> is_point p"
  by (induction s rule: code_points.induct) (auto simp: is_point_def is_surrogate_def split: if_splits)

lemma json_unescape_unicode:
  "c < 65536 \<Longrightarrow> json_unescape (json_unicode_escape c @ r) = Some ([c], r)"
  using less_mult_imp_div_less [of c 16 4096]
  by (simp add: json_unicode_escape_def json_backslash_def hex_digits)

lemma json_unescape_unit: "json_unescape (json_escape_unit c @ r) = Some ([c], r)"
proof (cases "c < 32 \<or> is_surrogate c")
  case True
  then have "c < 65536" by (auto simp: is_surrogate_def)
  from json_unescape_unicode [OF this] True show ?thesis
    by (auto simp: json_escape_unit_def json_backslash_def json_quote_def is_surrogate_def)
qed (auto simp: json_escape_unit_def json_backslash_def json_quote_def)

lemma json_unescape_point: "is_point p \<Longrightarrow> json_unescape (json_escape_point p @ r) = Some (p, r)"
  by (auto simp: is_point_def json_unescape_unit is_surrogate_def json_backslash_def)

lemma json_point_prefix:
  "is_point p \<Longrightarrow> is_point p' \<Longrightarrow> json_escape_point p @ r = json_escape_point p' @ r' \<Longrightarrow> p = p' \<and> r = r'"
  by (metis json_unescape_point option.inject prod.inject)

lemma json_unit_starts: "\<exists>u v. json_escape_unit c = u # v \<and> u \<noteq> json_quote"
  by (auto simp: json_escape_unit_def json_unicode_escape_def json_backslash_def json_quote_def)

lemma json_point_not_quote: "is_point p \<Longrightarrow> json_escape_point p @ r \<noteq> json_quote # r'"
  using json_unit_starts [of "hd p"]
  by (auto simp: is_point_def is_surrogate_def json_quote_def)

lemma json_body_prefix:
  assumes "list_all is_point ps" and "list_all is_point ps'"
    and "concat (map json_escape_point ps) @ json_quote # r = concat (map json_escape_point ps') @ json_quote # r'"
  shows "ps = ps' \<and> r = r'"
  using assms
proof (induction ps arbitrary: ps')
  case Nil
  then show ?case by (cases ps') (auto simp: json_point_not_quote [THEN not_sym])
next
  case (Cons p ps)
  show ?case
  proof (cases ps')
    case Nil
    with Cons.prems json_point_not_quote [of p] show ?thesis by auto
  next
    case (Cons p' qs)
    let ?rest = "\<lambda>ps r. concat (map json_escape_point ps) @ json_quote # r"
    have "json_escape_point p @ ?rest ps r = json_escape_point p' @ ?rest qs r'"
      using Cons.prems(3) Cons by simp
    moreover have points: "is_point p" "is_point p'" "list_all is_point ps" "list_all is_point qs"
      using Cons.prems(1,2) Cons by simp_all
    ultimately have "p = p' \<and> ?rest ps r = ?rest qs r'" by (intro json_point_prefix)
    with Cons.IH [OF points(3,4)] Cons show ?thesis by simp
  qed
qed

lemma json_string_prefix: "json_string s @ r = json_string s' @ r' \<Longrightarrow> s = s' \<and> r = r'"
proof -
  assume "json_string s @ r = json_string s' @ r'"
  then have "concat (map json_escape_point (code_points s)) @ json_quote # r =
      concat (map json_escape_point (code_points s')) @ json_quote # r'"
    by (simp add: json_string_def)
  then have "code_points s = code_points s' \<and> r = r'"
    by (intro json_body_prefix) (auto simp: list_all_iff code_points_are_points)
  then show ?thesis by (metis concat_code_points)
qed

section \<open>Fingerprints\<close>

text \<open>The result of \<open>strip\<close>: an object with the keys \<open>k\<close>, \<open>id\<close> or \<open>k\<close>, \<open>dir\<close>, \<open>children\<close>.\<close>

datatype shape = ShapeLeaf leaf_id | ShapeSplit axis "shape list"

fun strip :: "lath_node \<Rightarrow> shape" where
  "strip (Leaf lid) = ShapeLeaf lid"
| "strip (Split d cs) = ShapeSplit d (map (\<lambda>c. strip (fst c)) cs)"

definition json_key :: "js_text \<Rightarrow> js_text" where
  "json_key k = json_string k @ js '':''"

fun axis_name :: "axis \<Rightarrow> js_text" where
  "axis_name Row = js ''row''"
| "axis_name Col = js ''col''"

fun json_shape :: "shape \<Rightarrow> js_text"
and json_shapes :: "shape list \<Rightarrow> js_text" where
  "json_shape (ShapeLeaf lid) =
     js ''{'' @ json_key (js ''k'') @ json_string (js ''leaf'') @ js '','' @ json_key (js ''id'') @
     json_string lid @ js ''}''"
| "json_shape (ShapeSplit d ss) =
     js ''{'' @ json_key (js ''k'') @ json_string (js ''split'') @ js '','' @ json_key (js ''dir'') @
     json_string (axis_name d) @ js '','' @ json_key (js ''children'') @ js ''['' @ json_shapes ss @ js '']}''"
| "json_shapes [] = []"
| "json_shapes (s # ss) = json_shape s @ (if ss = [] then [] else js '','' @ json_shapes ss)"

definition structure_fingerprint :: "lath_node \<Rightarrow> js_text" where
  "structure_fingerprint n = json_shape (strip n)"

lemma json_key_prefix: "json_key k @ r = json_key k' @ r' \<Longrightarrow> k = k' \<and> r = r'"
  using json_string_prefix [of k "js '':'' @ r" k' "js '':'' @ r'"] by (simp add: json_key_def)

lemma js_literal: "js (c # s) = ch c # js s"
  by (simp add: js_def)

lemma json_shape_start: "\<exists>r. json_shape s = ch CHR ''{'' # r"
  by (cases s) (auto simp: js_literal)

lemma json_shapes_start:
  assumes "ss \<noteq> []"
  shows "\<exists>r. json_shapes ss = ch CHR ''{'' # r"
proof -
  obtain s ss' where "ss = s # ss'" using assms by (cases ss) auto
  then show ?thesis using json_shape_start [of s] by auto
qed

lemma axis_name_inj: "axis_name d = axis_name d' \<longleftrightarrow> d = d'"
  by (cases d; cases d') (auto simp: js_literal)

lemma json_shape_prefix:
  "json_shape s @ r = json_shape s' @ r' \<Longrightarrow> s = s' \<and> r = r'"
  "json_shapes ss @ ch CHR '']'' # q = json_shapes ss' @ ch CHR '']'' # q' \<Longrightarrow> ss = ss' \<and> q = q'"
proof (induction s and ss arbitrary: r s' r' and q ss' q' rule: json_shape_json_shapes.induct)
  case (1 lid)
  show ?case
  proof (cases s')
    case (ShapeLeaf lid')
    with "1.prems" have "json_string lid @ ch CHR ''}'' # r = json_string lid' @ ch CHR ''}'' # r'"
      by (simp add: js_literal)
    from json_string_prefix [OF this] show ?thesis using ShapeLeaf by simp
  next
    case (ShapeSplit d' ss')
    with "1.prems" have "json_string (js ''leaf'') @ ch CHR '','' # json_key (js ''id'') @ json_string lid @ ch CHR ''}'' # r =
      json_string (js ''split'') @ ch CHR '','' # json_key (js ''dir'') @ json_string (axis_name d') @ ch CHR '','' #
      json_key (js ''children'') @ ch CHR ''['' # json_shapes ss' @ ch CHR '']'' # ch CHR ''}'' # r'"
      by (simp add: js_literal)
    then show ?thesis by (auto dest!: json_string_prefix simp: js_literal)
  qed
next
  case (2 d ss)
  show ?case
  proof (cases s')
    case (ShapeLeaf lid')
    with "2.prems" have "json_string (js ''split'') @ ch CHR '','' # json_key (js ''dir'') @ json_string (axis_name d) @ ch CHR '','' #
      json_key (js ''children'') @ ch CHR ''['' # json_shapes ss @ ch CHR '']'' # ch CHR ''}'' # r =
      json_string (js ''leaf'') @ ch CHR '','' # json_key (js ''id'') @ json_string lid' @ ch CHR ''}'' # r'"
      by (simp add: js_literal)
    then show ?thesis by (auto dest!: json_string_prefix simp: js_literal)
  next
    case (ShapeSplit d' ss')
    with "2.prems" have "json_string (axis_name d) @ ch CHR '','' #
        json_key (js ''children'') @ ch CHR ''['' # json_shapes ss @ ch CHR '']'' # ch CHR ''}'' # r =
      json_string (axis_name d') @ ch CHR '','' #
        json_key (js ''children'') @ ch CHR ''['' # json_shapes ss' @ ch CHR '']'' # ch CHR ''}'' # r'"
      by (simp add: js_literal)
    then have "d = d'" "json_shapes ss @ ch CHR '']'' # ch CHR ''}'' # r = json_shapes ss' @ ch CHR '']'' # ch CHR ''}'' # r'"
      by (auto dest!: json_string_prefix simp: axis_name_inj)
    with "2.IH" ShapeSplit show ?thesis by blast
  qed
next
  case 3
  then show ?case using json_shape_start [of "hd ss'"] by (cases ss') auto
next
  case (4 s ss)
  obtain s' ts where ss': "ss' = s' # ts"
    using "4.prems" json_shape_start [of s] by (cases ss') auto
  let ?tail = "\<lambda>ss q. (if ss = [] then [] else js '','' @ json_shapes ss) @ ch CHR '']'' # q"
  from "4.prems" ss' have eq: "json_shape s @ ?tail ss q = json_shape s' @ ?tail ts q'" by simp
  from "4.IH"(1) [OF eq] have s: "s = s'" and rest: "?tail ss q = ?tail ts q'" by blast+
  show ?case
  proof (cases "ss = [] \<or> ts = []")
    case True
    with rest s ss' show ?thesis by (auto simp: js_literal split: if_splits)
  next
    case False
    with rest "4.IH"(2) have "ss = ts \<and> q = q'" by auto
    with s ss' show ?thesis by simp
  qed
qed

lemma structure_fingerprint_eq_iff:
  "structure_fingerprint n = structure_fingerprint m \<longleftrightarrow> strip n = strip m"
  using json_shape_prefix(1) [of "strip n" "[]" "strip m" "[]"]
  by (auto simp: structure_fingerprint_def)

text \<open>Two nodes that differ in nothing but weights: the same leaf, or the same direction and, one by
  one, children of the same structure.\<close>

fun same_structure :: "lath_node \<Rightarrow> lath_node \<Rightarrow> bool" where
  "same_structure (Leaf a) (Leaf b) = (a = b)"
| "same_structure (Split d cs) (Split e ds) =
     (d = e \<and> list_all2 (\<lambda>x y. same_structure (fst x) (fst y)) cs ds)"
| "same_structure _ _ = False"

lemma strip_eq_iff: "strip n = strip m \<longleftrightarrow> same_structure n m"
proof (induction n m rule: same_structure.induct)
  case (2 d cs e ds)
  have "map (\<lambda>c. strip (fst c)) cs = map (\<lambda>c. strip (fst c)) ds \<longleftrightarrow>
      list_all2 (\<lambda>x y. strip (fst x) = strip (fst y)) cs ds"
    by (simp add: list_all2_conv_all_nth list_eq_iff_nth_eq) auto
  also have "\<dots> \<longleftrightarrow> list_all2 (\<lambda>x y. same_structure (fst x) (fst y)) cs ds"
    using 2 by (intro list.rel_cong refl) auto
  finally show ?case by simp
qed simp_all

fun shape_leaves :: "shape \<Rightarrow> leaf_id list" where
  "shape_leaves (ShapeLeaf lid) = [lid]"
| "shape_leaves (ShapeSplit d ss) = concat (map shape_leaves ss)"

lemma shape_leaves_strip: "shape_leaves (strip n) = node_leaves n"
proof (induction n rule: strip.induct)
  case (2 d cs)
  then have "map (\<lambda>c. shape_leaves (strip (fst c))) cs = map (\<lambda>c. node_leaves (fst c)) cs" by auto
  then have "concat (map (\<lambda>c. shape_leaves (strip (fst c))) cs) = children_leaves cs"
    by (simp only: children_leaves_def)
  then show ?case by (simp add: comp_def)
qed simp

lemma strip_leaves: "strip n = strip m \<Longrightarrow> node_leaves n = node_leaves m"
  by (metis shape_leaves_strip)

end
