(* ===== verification/Lath_Layout.thy ===== *)
theory Lath_Layout
  imports Lath_Fingerprint "HOL-Library.AList" "HOL-Library.Product_Lexorder"
    "HOL-Library.List_Lexorder" "HOL-Library.Char_ord"
begin

text \<open>
  The geometry of the tiling engine, \<open>lib/src/lib/lath/layout.ts\<close>: how a split's extent is
  allocated to its children (a waterfill against the minimum sizes, then cumulative rounding), the
  rectangles of all leaves, and the queries derived from them. A JavaScript \<open>Map\<close> is an
  association list in insertion order, and \<open>Map.set\<close> is \<open>AList.update\<close>.
\<close>

section \<open>Definitions\<close>

record layout_opts =
  gap :: js_num
  min_leaf :: rsize

datatype direction = DirLeft | DirRight | DirUp | DirDown

fun min_span :: "lath_node \<Rightarrow> axis \<Rightarrow> layout_opts \<Rightarrow> js_num" where
  "min_span (Leaf lid) ax o' =
     (if ax = Row then sz_width (min_leaf o') else sz_height (min_leaf o'))"
| "min_span (Split d cs) ax o' =
     (if d = ax
      then sum_list (map (\<lambda>c. min_span (fst c) ax o') cs) + gap o' * (of_nat (length cs) - 1)
      else fold max (map (\<lambda>c. min_span (fst c) ax o') cs) 0)"

text \<open>One child's state in the waterfill: its weight and minimum, whether it is clamped, its extent.\<close>

record span_slot =
  slot_weight :: js_num
  slot_min :: js_num
  slot_clamped :: bool
  slot_frac :: js_num

definition active_slots :: "span_slot list \<Rightarrow> span_slot list" where
  "active_slots ss = filter (\<lambda>s. \<not> slot_clamped s) ss"

definition slot_share :: "span_slot list \<Rightarrow> js_num \<Rightarrow> span_slot \<Rightarrow> js_num" where
  "slot_share ss remaining s =
     (let active_weight = sum_list (map slot_weight (active_slots ss));
          active_count = length (active_slots ss)
      in if active_weight > 0 then slot_weight s / active_weight * remaining
         else remaining / of_nat active_count)"

definition slot_pins :: "span_slot list \<Rightarrow> js_num \<Rightarrow> span_slot \<Rightarrow> bool" where
  "slot_pins ss remaining s \<longleftrightarrow>
     \<not> slot_clamped s \<and> slot_share ss remaining s < slot_min s - 1 / 1000000000"

definition pin_slots :: "span_slot list \<Rightarrow> js_num \<Rightarrow> span_slot list" where
  "pin_slots ss remaining =
     map (\<lambda>s. if slot_pins ss remaining s
               then s\<lparr>slot_clamped := True, slot_frac := slot_min s\<rparr> else s) ss"

definition pinned_total :: "span_slot list \<Rightarrow> js_num \<Rightarrow> js_num" where
  "pinned_total ss remaining = sum_list (map slot_min (filter (slot_pins ss remaining) ss))"

definition fill_slots :: "span_slot list \<Rightarrow> js_num \<Rightarrow> span_slot list" where
  "fill_slots ss remaining =
     map (\<lambda>s. if slot_clamped s then s else s\<lparr>slot_frac := slot_share ss remaining s\<rparr>) ss"

lemma active_pin_slots:
  "active_slots (pin_slots ss r) = filter (\<lambda>s. \<not> slot_clamped s \<and> \<not> slot_pins ss r s) ss"
proof -
  have "filter (\<lambda>s. \<not> slot_clamped s)
          (map (\<lambda>s. if P s then s\<lparr>slot_clamped := True, slot_frac := slot_min s\<rparr> else s) xs) =
        filter (\<lambda>s. \<not> slot_clamped s \<and> \<not> P s) xs" for P and xs :: "span_slot list"
    by (induction xs) auto
  then show ?thesis by (simp add: active_slots_def pin_slots_def)
qed

lemma length_filter_less:
  "(\<And>x. Q x \<Longrightarrow> P x) \<Longrightarrow> x \<in> set xs \<Longrightarrow> P x \<Longrightarrow> \<not> Q x \<Longrightarrow> length (filter Q xs) < length (filter P xs)"
proof (induction xs)
  case (Cons y xs)
  have "length (filter Q xs) \<le> length (filter P xs)"
    using Cons.prems(1) by (induction xs) auto
  with Cons show ?case by (cases "x = y") auto
qed simp

lemma pin_slots_decrease:
  assumes "list_ex (slot_pins ss r) ss"
  shows "length (active_slots (pin_slots ss r)) < length (active_slots ss)"
proof -
  obtain s where "s \<in> set ss" "slot_pins ss r s" using assms by (auto simp: list_ex_iff)
  then show ?thesis
    by (auto simp: active_pin_slots active_slots_def [of ss] slot_pins_def
             intro!: length_filter_less [of _ _ s])
qed

function waterfill :: "span_slot list \<Rightarrow> js_num \<Rightarrow> span_slot list" where
  "waterfill ss remaining =
     (if length (active_slots ss) = 0 then ss
      else if \<not> list_ex (slot_pins ss remaining) ss then fill_slots ss remaining
      else waterfill (pin_slots ss remaining) (remaining - pinned_total ss remaining))"
  by pat_completeness auto
termination
  by (relation "measure (\<lambda>(ss, r). length (active_slots ss))") (auto intro: pin_slots_decrease)

declare waterfill.simps [simp del]

fun cumulative_round_from :: "js_num \<Rightarrow> int \<Rightarrow> int \<Rightarrow> js_num list \<Rightarrow> int list" where
  "cumulative_round_from cum prev target [] = []"
| "cumulative_round_from cum prev target (f # fs) =
     (let cum' = cum + f;
          rounded = (if fs = [] then target else js_round cum')
      in (rounded - prev) # cumulative_round_from cum' rounded target fs)"

definition cumulative_round :: "js_num list \<Rightarrow> js_num \<Rightarrow> int list" where
  "cumulative_round fracs tot = cumulative_round_from 0 0 (js_round tot) fracs"

definition available_span :: "nat \<Rightarrow> js_num \<Rightarrow> layout_opts \<Rightarrow> js_num" where
  "available_span n ext o' = max 0 (ext - gap o' * (of_nat n - 1))"

definition span_fracs :: "lath_child list \<Rightarrow> js_num \<Rightarrow> js_num list \<Rightarrow> js_num list" where
  "span_fracs cs available mins =
     (let total_min = sum_list mins in
      if total_min > available
      then (if total_min > 0 then map (\<lambda>m. m / total_min * available) mins
            else map (\<lambda>m. available / of_nat (length cs)) mins)
      else map slot_frac
             (waterfill
                (map (\<lambda>(c, m). \<lparr>slot_weight = snd c, slot_min = m, slot_clamped = False, slot_frac = 0\<rparr>)
                   (zip cs mins))
                available))"

definition allocate_child_spans ::
    "lath_child list \<Rightarrow> js_num \<Rightarrow> layout_opts \<Rightarrow> axis \<Rightarrow> int list" where
  "allocate_child_spans cs ext o' d =
     (let available = available_span (length cs) ext o';
          mins = map (\<lambda>c. min_span (fst c) d o') cs
      in cumulative_round (span_fracs cs available mins) available)"

text \<open>The walk of \<open>forEachChildRect\<close> as the list of its callbacks' arguments, in order.\<close>

fun place_children ::
    "axis \<Rightarrow> rect \<Rightarrow> layout_opts \<Rightarrow> js_num \<Rightarrow> lath_child list \<Rightarrow> int list \<Rightarrow> (lath_child \<times> rect) list" where
  "place_children d r o' pos (c # cs) (s # ss) =
     (c, if d = Row
         then \<lparr>rx = pos, ry = ry r, rwidth = of_int s, rheight = rheight r\<rparr>
         else \<lparr>rx = rx r, ry = pos, rwidth = rwidth r, rheight = of_int s\<rparr>)
     # place_children d r o' (pos + (of_int s + gap o')) cs ss"
| "place_children d r o' pos _ _ = []"

definition child_rects ::
    "axis \<Rightarrow> lath_child list \<Rightarrow> rect \<Rightarrow> layout_opts \<Rightarrow> (lath_child \<times> rect) list" where
  "child_rects d cs r o' =
     (let ext = (if d = Row then rwidth r else rheight r);
          spans = allocate_child_spans cs ext o' d;
          pos = (if d = Row then rx r else ry r)
      in place_children d r o' pos cs spans)"

definition nonnegative_rect :: "rect \<Rightarrow> rect" where
  "nonnegative_rect r = r\<lparr>rwidth := max 0 (rwidth r), rheight := max 0 (rheight r)\<rparr>"

lemma place_children_subset: "(c, r') \<in> set (place_children d r o' pos cs ss) \<Longrightarrow> c \<in> set cs"
  by (induction d r o' pos cs ss rule: place_children.induct) auto

lemma size_child_list: "c \<in> set cs \<Longrightarrow> size (fst c) < Suc (size_list (\<lambda>x. Suc (size (fst x))) cs)"
  by (induction cs) auto

lemma size_child_rects [termination_simp]:
  "((n, w), r') \<in> set (child_rects d cs r o') \<Longrightarrow> size n < Suc (size_list (\<lambda>x. Suc (size (fst x))) cs)"
  using size_child_list [of "(n, w)" cs] by (auto simp: child_rects_def Let_def dest: place_children_subset)

fun layout_node ::
    "lath_node \<Rightarrow> rect \<Rightarrow> layout_opts \<Rightarrow> (leaf_id \<times> rect) list \<Rightarrow> (leaf_id \<times> rect) list" where
  "layout_node (Leaf lid) r o' out = AList.update lid r out"
| "layout_node (Split d cs) r o' out =
     fold (\<lambda>(c, r') out. layout_node (fst c) r' o' out) (child_rects d cs r o') out"

definition layout :: "lath_tree \<Rightarrow> rect \<Rightarrow> layout_opts \<Rightarrow> (leaf_id \<times> rect) list" where
  "layout t r o' =
     (case tree_root t of None \<Rightarrow> [] | Some n \<Rightarrow> layout_node n (nonnegative_rect r) o' [])"

fun node_rect :: "lath_node \<Rightarrow> rect \<Rightarrow> layout_opts \<Rightarrow> nat list \<Rightarrow> rect option" where
  "node_rect n cur o' [] = Some cur"
| "node_rect (Leaf lid) cur o' (i # p) = None"
| "node_rect (Split d cs) cur o' (i # p) =
     (if i \<ge> length cs then None
      else (case drop i (child_rects d cs cur o') of
              [] \<Rightarrow> None
            | (c, r') # _ \<Rightarrow> node_rect (fst (cs ! i)) r' o' p))"

definition node_rect_at_path ::
    "lath_tree \<Rightarrow> rect \<Rightarrow> layout_opts \<Rightarrow> nat list \<Rightarrow> rect option" where
  "node_rect_at_path t r o' p =
     (case tree_root t of None \<Rightarrow> None | Some n \<Rightarrow> node_rect n (nonnegative_rect r) o' p)"

subsection \<open>Neighbors\<close>

definition is_horizontal :: "direction \<Rightarrow> bool" where
  "is_horizontal d \<longleftrightarrow> d = DirLeft \<or> d = DirRight"

fun beyond_edge :: "direction \<Rightarrow> rect \<Rightarrow> rect \<Rightarrow> bool" where
  "beyond_edge DirLeft c r \<longleftrightarrow> \<not> rx r + rwidth r > rx c"
| "beyond_edge DirRight c r \<longleftrightarrow> \<not> rx r < rx c + rwidth c"
| "beyond_edge DirUp c r \<longleftrightarrow> \<not> ry r + rheight r > ry c"
| "beyond_edge DirDown c r \<longleftrightarrow> \<not> ry r < ry c + rheight c"

definition cand_overlaps :: "direction \<Rightarrow> rect \<Rightarrow> rect \<Rightarrow> bool" where
  "cand_overlaps d c r \<longleftrightarrow>
     (if is_horizontal d then ry r < ry c + rheight c \<and> ry r + rheight r > ry c
      else rx r < rx c + rwidth c \<and> rx r + rwidth r > rx c)"

fun cand_dist :: "direction \<Rightarrow> rect \<Rightarrow> rect \<Rightarrow> js_num" where
  "cand_dist DirLeft c r = rx c - (rx r + rwidth r)"
| "cand_dist DirRight c r = rx r - (rx c + rwidth c)"
| "cand_dist DirUp c r = ry c - (ry r + rheight r)"
| "cand_dist DirDown c r = ry r - (ry c + rheight c)"

definition neighbors ::
    "lath_tree \<Rightarrow> rect \<Rightarrow> leaf_id \<Rightarrow> direction \<Rightarrow> layout_opts \<Rightarrow> leaf_id option" where
  "neighbors t rct lid d o' =
     (let rects = layout t rct o' in
      case map_of rects lid of
        None \<Rightarrow> None
      | Some c \<Rightarrow>
          (let cands = filter (\<lambda>(pid, r). pid \<noteq> lid \<and> beyond_edge d c r) rects;
               overlapping = filter (\<lambda>(pid, r). cand_overlaps d c r) cands;
               pool = (if length overlapping > 0 then overlapping else cands);
               sorted_pool = sort_key (\<lambda>(pid, r). (cand_dist d c r, ry r, rx r, pid)) pool
           in case sorted_pool of [] \<Rightarrow> None | (pid, r) # _ \<Rightarrow> Some pid))"

definition auto_edge :: "lath_tree \<Rightarrow> rect \<Rightarrow> leaf_id \<Rightarrow> layout_opts \<Rightarrow> edge" where
  "auto_edge t rct lid o' =
     (case map_of (layout t rct o') lid of
        None \<Rightarrow> EdgeRight
      | Some r \<Rightarrow> if rwidth r - rheight r > 0 then EdgeRight else EdgeBottom)"

subsection \<open>Sashes\<close>

record sash =
  split_path :: "nat list"
  boundary :: nat
  sash_dir :: axis
  sash_rect :: rect

definition sash_band :: "axis \<Rightarrow> rect \<Rightarrow> rect \<Rightarrow> layout_opts \<Rightarrow> rect" where
  "sash_band d r cr o' =
     (let band_start = (if d = Row then rx cr + rwidth cr else ry cr + rheight cr) in
      if d = Row then \<lparr>rx = band_start, ry = ry r, rwidth = gap o', rheight = rheight r\<rparr>
      else \<lparr>rx = rx r, ry = band_start, rwidth = rwidth r, rheight = gap o'\<rparr>)"

text \<open>The callbacks' arguments paired with the child index that \<open>forEachChildRect\<close> passes.\<close>

definition indexed_child_rects ::
    "axis \<Rightarrow> lath_child list \<Rightarrow> rect \<Rightarrow> layout_opts \<Rightarrow> (nat \<times> lath_child \<times> rect) list" where
  "indexed_child_rects d cs r o' = zip [0..<length cs] (child_rects d cs r o')"

lemma size_indexed_child_rects [termination_simp]:
  "(i, (n, w), r') \<in> set (indexed_child_rects d cs r o') \<Longrightarrow>
   size n < Suc (size_list (\<lambda>x. Suc (size (fst x))) cs)"
  by (rule size_child_rects) (auto simp: indexed_child_rects_def dest: set_zip_rightD)

fun node_sashes :: "lath_node \<Rightarrow> rect \<Rightarrow> layout_opts \<Rightarrow> nat list \<Rightarrow> sash list" where
  "node_sashes (Leaf lid) r o' p = []"
| "node_sashes (Split d cs) r o' p =
     concat (map (\<lambda>(i, c, cr).
       (if i < length cs - 1
        then [\<lparr>split_path = p, boundary = i, sash_dir = d, sash_rect = sash_band d r cr o'\<rparr>]
        else []) @ node_sashes (fst c) cr o' (p @ [i]))
       (indexed_child_rects d cs r o'))"

definition sashes :: "lath_tree \<Rightarrow> rect \<Rightarrow> layout_opts \<Rightarrow> sash list" where
  "sashes t r o' =
     (case tree_root t of None \<Rightarrow> [] | Some n \<Rightarrow> node_sashes n (nonnegative_rect r) o' [])"

end
