(* ===== verification/Lath_Tiling.thy ===== *)
theory Lath_Tiling
  imports Lath_Layout
begin

text \<open>
  Correctness of the geometry of \<open>Lath_Layout\<close>: cumulative rounding loses nothing, the waterfill
  allocates exactly the available span, every leaf gets one rectangle, the rectangles lie in the
  wall, never overlap and, without gaps, cover it.
\<close>

section \<open>Rounding\<close>

lemma length_cumulative_round [simp]:
  "length (cumulative_round_from cum prev target fs) = length fs"
  "length (cumulative_round fs total') = length fs"
proof -
  show *: "length (cumulative_round_from cum prev target fs) = length fs" for cum prev target
    by (induction fs arbitrary: cum prev) (auto simp: Let_def)
  show "length (cumulative_round fs total') = length fs" by (simp add: cumulative_round_def *)
qed

lemma sum_cumulative_round_from:
  "fs \<noteq> [] \<Longrightarrow> sum_list (cumulative_round_from cum prev target fs) = target - prev"
proof (induction fs arbitrary: cum prev)
  case (Cons f fs)
  then show ?case by (cases "fs = []") (auto simp: Let_def)
qed simp

lemma sum_cumulative_round:
  "fs \<noteq> [] \<Longrightarrow> sum_list (cumulative_round fs tot) = js_round tot"
  by (simp add: cumulative_round_def sum_cumulative_round_from)

lemma cumulative_round_from_nonneg:
  assumes "\<forall>f \<in> set fs. 0 \<le> f" and "cum + sum_list fs \<le> tot"
  shows "\<forall>s \<in> set (cumulative_round_from cum (js_round cum) (js_round tot) fs). 0 \<le> s"
  using assms
proof (induction fs arbitrary: cum)
  case Nil
  then show ?case by simp
next
  case (Cons f fs)
  show ?case
  proof (cases "fs = []")
    case True
    with Cons.prems show ?thesis by (auto simp: Let_def intro!: js_round_mono)
  next
    case False
    have "\<forall>s \<in> set (cumulative_round_from (cum + f) (js_round (cum + f)) (js_round tot) fs). 0 \<le> s"
      using Cons.prems by (intro Cons.IH) auto
    with False Cons.prems show ?thesis by (auto simp: Let_def intro!: js_round_mono)
  qed
qed

lemma cumulative_round_nonneg:
  assumes "\<forall>f \<in> set fs. 0 \<le> f" and "sum_list fs \<le> tot" and "s \<in> set (cumulative_round fs tot)"
  shows "0 \<le> s"
  using cumulative_round_from_nonneg [of fs 0 tot] assms by (simp add: cumulative_round_def)

lemma js_round_close: "\<bar>of_int (js_round x) - x\<bar> \<le> 1 / 2"
  unfolding js_round_def abs_le_iff by linarith

lemma js_round_diff_close: "\<bar>of_int (js_round (x + f) - js_round x) - f\<bar> \<le> 1"
  using js_round_close [of "x + f"] js_round_close [of x] unfolding of_int_diff by linarith

lemma cumulative_round_from_close:
  assumes "cum + sum_list fs = tot"
  shows "list_all2 (\<lambda>s f. \<bar>of_int s - f\<bar> \<le> 1)
           (cumulative_round_from cum (js_round cum) (js_round tot) fs) fs"
  using assms
proof (induction fs arbitrary: cum)
  case (Cons f fs)
  then show ?case
    using js_round_diff_close [of cum f] by (cases "fs = []") (auto simp: Let_def add.assoc)
qed simp

section \<open>The waterfill\<close>

definition slots_ok :: "span_slot list \<Rightarrow> bool" where
  "slots_ok ss \<longleftrightarrow> (\<forall>s \<in> set ss. 0 < slot_weight s \<and> 0 \<le> slot_min s \<and>
                               (slot_clamped s \<longrightarrow> slot_frac s = slot_min s))"

definition slots_balance :: "js_num \<Rightarrow> span_slot list \<Rightarrow> js_num \<Rightarrow> bool" where
  "slots_balance avail ss r \<longleftrightarrow>
     r + sum_list (map slot_frac (filter slot_clamped ss)) = avail \<and>
     sum_list (map slot_min (active_slots ss)) \<le> r \<and> active_slots ss \<noteq> []"

lemma sum_list_partition:
  fixes f :: "'a \<Rightarrow> js_num"
  shows "sum_list (map f (filter P xs)) + sum_list (map f (filter (\<lambda>x. \<not> P x) xs)) = sum_list (map f xs)"
  by (induction xs) auto

lemma sum_list_strict_mono_ne:
  fixes f g :: "'a \<Rightarrow> js_num"
  assumes "xs \<noteq> []" and "\<And>x. x \<in> set xs \<Longrightarrow> f x < g x"
  shows "sum_list (map f xs) < sum_list (map g xs)"
  using sum_list_pos [of xs "\<lambda>x. g x - f x"] assms by (simp add: sum_list_subtractf)

lemma active_weight_pos:
  assumes "slots_ok ss" and "active_slots ss \<noteq> []"
  shows "0 < sum_list (map slot_weight (active_slots ss))"
  using assms by (intro sum_list_pos) (auto simp: slots_ok_def active_slots_def)

lemma sum_shares:
  assumes "slots_ok ss" and "active_slots ss \<noteq> []"
  shows "sum_list (map (slot_share ss r) (active_slots ss)) = r"
proof -
  let ?W = "sum_list (map slot_weight (active_slots ss))"
  have W: "0 < ?W" using assms by (rule active_weight_pos)
  then have "map (slot_share ss r) (active_slots ss) = map (\<lambda>s. slot_weight s / ?W * r) (active_slots ss)"
    by (simp add: slot_share_def Let_def)
  then have "sum_list (map (slot_share ss r) (active_slots ss)) = ?W / ?W * r"
    by (simp only: sum_list_map_div sum_list_map_times [of "\<lambda>s. slot_weight s / ?W"])
  with W show ?thesis by simp
qed

lemma not_all_pinned:
  assumes "slots_ok ss" and "slots_balance avail ss r"
  shows "\<exists>s \<in> set (active_slots ss). \<not> slot_pins ss r s"
proof (rule ccontr)
  assume "\<not> ?thesis"
  then have "slot_share ss r s < slot_min s" if "s \<in> set (active_slots ss)" for s
    using that by (fastforce simp: slot_pins_def)
  then have "sum_list (map (slot_share ss r) (active_slots ss)) < sum_list (map slot_min (active_slots ss))"
    using assms(2) by (intro sum_list_strict_mono_ne) (auto simp: slots_balance_def)
  with assms show False by (simp add: sum_shares slots_balance_def)
qed

lemma slots_ok_pin: "slots_ok ss \<Longrightarrow> slots_ok (pin_slots ss r)"
  by (auto simp: slots_ok_def pin_slots_def)

lemma sum_clamped_pin:
  "sum_list (map slot_frac (filter slot_clamped (pin_slots ss r))) =
   sum_list (map slot_frac (filter slot_clamped ss)) + pinned_total ss r"
proof -
  have "sum_list (map slot_frac (filter slot_clamped
          (map (\<lambda>s. if P s then s\<lparr>slot_clamped := True, slot_frac := slot_min s\<rparr> else s) xs))) =
        sum_list (map slot_frac (filter slot_clamped xs)) + sum_list (map slot_min (filter P xs))"
    if "\<And>s. P s \<Longrightarrow> \<not> slot_clamped s" for P and xs :: "span_slot list"
    using that by (induction xs) (auto simp: algebra_simps)
  from this [of "slot_pins ss r" ss] show ?thesis
    unfolding pin_slots_def pinned_total_def by (simp add: slot_pins_def)
qed

lemma slots_balance_pin:
  assumes "slots_ok ss" and bal: "slots_balance avail ss r"
  shows "slots_balance avail (pin_slots ss r) (r - pinned_total ss r)"
proof -
  let ?P = "slot_pins ss r"
  have active: "active_slots (pin_slots ss r) = filter (\<lambda>s. \<not> ?P s) (active_slots ss)"
    unfolding active_pin_slots by (simp add: active_slots_def conj_commute)
  have "filter ?P ss = filter ?P (active_slots ss)"
    unfolding active_slots_def filter_filter by (rule filter_cong) (auto simp: slot_pins_def)
  then have "sum_list (map slot_min (active_slots (pin_slots ss r))) + pinned_total ss r =
        sum_list (map slot_min (active_slots ss))"
    using sum_list_partition [of slot_min ?P "active_slots ss"] active
    by (simp add: pinned_total_def)
  moreover have "active_slots (pin_slots ss r) \<noteq> []"
    using not_all_pinned [OF assms] by (auto simp: active filter_empty_conv)
  ultimately show ?thesis
    using bal by (auto simp: slots_balance_def sum_clamped_pin)
qed

definition filled :: "js_num \<Rightarrow> js_num list \<Rightarrow> js_num list \<Rightarrow> bool" where
  "filled avail mins fracs \<longleftrightarrow>
     sum_list fracs = avail \<and>
     list_all2 (\<lambda>f m. 0 \<le> f \<and> m - 1 / 1000000000 \<le> f) fracs mins"

lemma filled_fill_slots:
  assumes ok: "slots_ok ss" and bal: "slots_balance avail ss r"
    and none: "\<not> list_ex (slot_pins ss r) ss"
  shows "filled avail (map slot_min ss) (map slot_frac (fill_slots ss r))"
proof -
  have ne: "active_slots ss \<noteq> []" and mins: "sum_list (map slot_min (active_slots ss)) \<le> r"
    using bal by (auto simp: slots_balance_def)
  have "0 \<le> sum_list (map slot_min (active_slots ss))"
    using ok by (intro sum_list_nonneg) (auto simp: slots_ok_def active_slots_def)
  with mins have r: "0 \<le> r" by simp
  have W: "0 < sum_list (map slot_weight (active_slots ss))" using ok ne by (rule active_weight_pos)
  have share: "0 \<le> slot_share ss r s \<and> slot_min s - 1 / 1000000000 \<le> slot_share ss r s"
    if "s \<in> set ss" "\<not> slot_clamped s" for s
    using that none ok r W by (auto simp: slot_pins_def list_ex_iff slot_share_def Let_def slots_ok_def)
  have frac: "slot_frac (if slot_clamped s then s else s\<lparr>slot_frac := slot_share ss r s\<rparr>) =
          (if slot_clamped s then slot_frac s else slot_share ss r s)" for s
    by simp
  have sum: "sum_list (map (\<lambda>s. if slot_clamped s then slot_frac s else g s) xs) =
          sum_list (map slot_frac (filter slot_clamped xs)) + sum_list (map g (active_slots xs))"
    for g and xs :: "span_slot list"
    by (induction xs) (auto simp: active_slots_def)
  have "map slot_frac (fill_slots ss r) = map (\<lambda>s. if slot_clamped s then slot_frac s else slot_share ss r s) ss"
    by (simp add: fill_slots_def frac)
  moreover have "list_all2 (\<lambda>f m. 0 \<le> f \<and> m - 1 / 1000000000 \<le> f)
      (map (\<lambda>s. if slot_clamped s then slot_frac s else slot_share ss r s) ss) (map slot_min ss)"
    unfolding list_all2_map1 list_all2_map2 using ok share
    by (auto simp: list_all2_same slots_ok_def)
  ultimately show ?thesis
    using bal ok ne by (simp add: filled_def sum sum_shares slots_balance_def)
qed

lemma map_min_pin [simp]: "map slot_min (pin_slots ss r) = map slot_min ss"
  by (simp add: pin_slots_def)

lemma filled_waterfill:
  "slots_ok ss \<Longrightarrow> slots_balance avail ss r \<Longrightarrow>
   filled avail (map slot_min ss) (map slot_frac (waterfill ss r))"
proof (induction ss r rule: waterfill.induct)
  case (1 ss r)
  have ne: "length (active_slots ss) \<noteq> 0" using "1.prems"(2) by (auto simp: slots_balance_def)
  show ?case
  proof (cases "list_ex (slot_pins ss r) ss")
    case True
    with "1.IH" ne have "filled avail (map slot_min (pin_slots ss r))
        (map slot_frac (waterfill (pin_slots ss r) (r - pinned_total ss r)))"
      using slots_ok_pin [OF "1.prems"(1)] slots_balance_pin [OF "1.prems"] by auto
    with True ne show ?thesis by (simp add: waterfill.simps [of ss r])
  next
    case False
    with filled_fill_slots [OF "1.prems" False] ne show ?thesis by (simp add: waterfill.simps [of ss r])
  qed
qed

lemma length_waterfill [simp]: "length (waterfill ss r) = length ss"
  by (induction ss r rule: waterfill.induct)
     (subst waterfill.simps, auto simp: fill_slots_def pin_slots_def)

section \<open>Span allocation\<close>

text \<open>Weights as in a valid tree, minimum sizes as the code's callers pass them.\<close>

definition nonneg_opts :: "layout_opts \<Rightarrow> bool" where
  "nonneg_opts o' \<longleftrightarrow> 0 \<le> gap o' \<and> 0 \<le> sz_width (min_leaf o') \<and> 0 \<le> sz_height (min_leaf o')"

definition pos_children :: "lath_child list \<Rightarrow> bool" where
  "pos_children cs \<longleftrightarrow> cs \<noteq> [] \<and> (\<forall>c \<in> set cs. 0 < snd c)"

lemma fold_max_nonneg: "0 \<le> a \<Longrightarrow> 0 \<le> fold max xs (a :: js_num)"
  by (induction xs arbitrary: a) auto

fun nonempty_splits :: "lath_node \<Rightarrow> bool" where
  "nonempty_splits (Leaf lid) = True"
| "nonempty_splits (Split d cs) = (cs \<noteq> [] \<and> (\<forall>c \<in> set cs. nonempty_splits (fst c) \<and> 0 < snd c))"

lemma canon_nonempty_splits: "canon n \<Longrightarrow> nonempty_splits n"
  by (induction n rule: canon.induct) auto

lemma min_span_nonneg: "nonneg_opts o' \<Longrightarrow> nonempty_splits n \<Longrightarrow> 0 \<le> min_span n ax o'"
proof (induction n ax o' rule: min_span.induct)
  case (1 lid ax o')
  then show ?case by (simp add: nonneg_opts_def)
next
  case (2 d cs ax o')
  have "1 \<le> (of_nat (length cs) :: js_num)"
    using "2.prems"(2) by (cases cs) auto
  moreover have "0 \<le> sum_list (map (\<lambda>c. min_span (fst c) ax o') cs)" if "d = ax"
    using 2 that by (intro sum_list_nonneg) auto
  ultimately show ?case
    using "2.prems"(1) by (auto simp: nonneg_opts_def fold_max_nonneg)
qed

lemma length_span_fracs [simp]:
  "length mins = length cs \<Longrightarrow> length (span_fracs cs avail mins) = length cs"
  by (simp add: span_fracs_def Let_def)

lemma map_snd_zip_fun: "length xs = length ys \<Longrightarrow> map (\<lambda>(x, y). y) (zip xs ys) = ys"
  by (induction xs ys rule: list_induct2) auto

lemma filled_nonneg: "filled avail mins fracs \<Longrightarrow> f \<in> set fracs \<Longrightarrow> 0 \<le> f"
  by (auto simp: filled_def list_all2_conv_all_nth in_set_conv_nth)

lemma span_fracs_waterfill:
  assumes "pos_children cs" and "length mins = length cs" and "\<forall>m \<in> set mins. 0 \<le> m"
    and fits: "sum_list mins \<le> avail"
  shows "filled avail mins (span_fracs cs avail mins)"
proof -
  let ?ss = "map (\<lambda>(c, m). \<lparr>slot_weight = snd c, slot_min = m, slot_clamped = False, slot_frac = 0\<rparr>)
               (zip cs mins)"
  have ok: "slots_ok ?ss"
    using assms(1,3) by (fastforce simp: slots_ok_def pos_children_def dest: set_zip_leftD set_zip_rightD)
  have mins: "map slot_min ?ss = mins"
    using assms(2) by (simp add: comp_def case_prod_unfold)
  have act: "active_slots ?ss = ?ss" by (auto simp: active_slots_def filter_id_conv)
  have "filter slot_clamped ?ss = []" by (auto simp: filter_empty_conv)
  moreover have "?ss \<noteq> []" using assms(1,2) by (cases cs; cases mins) (auto simp: pos_children_def)
  ultimately have "slots_balance avail ?ss avail"
    unfolding slots_balance_def act mins using fits by simp
  with ok have "filled avail (map slot_min ?ss) (map slot_frac (waterfill ?ss avail))"
    by (rule filled_waterfill)
  then have "filled avail mins (map slot_frac (waterfill ?ss avail))" by (simp only: mins)
  moreover have "\<not> sum_list mins > avail" using fits by simp
  ultimately show ?thesis unfolding span_fracs_def Let_def by (simp only: if_False)
qed

lemma span_fracs_spec:
  assumes "pos_children cs" and len: "length mins = length cs" and mins: "\<forall>m \<in> set mins. 0 \<le> m"
    and "0 \<le> avail"
  shows "sum_list (span_fracs cs avail mins) = avail" and "\<forall>f \<in> set (span_fracs cs avail mins). 0 \<le> f"
proof -
  have "sum_list (span_fracs cs avail mins) = avail \<and> (\<forall>f \<in> set (span_fracs cs avail mins). 0 \<le> f)"
  proof (cases "sum_list mins > avail")
    case True
    with assms(4) have "0 < sum_list mins" by simp
    moreover from this True have "span_fracs cs avail mins = map (\<lambda>m. m / sum_list mins * avail) mins"
      by (simp add: span_fracs_def Let_def)
    moreover have "sum_list (map (\<lambda>m. m / sum_list mins * avail) mins) = sum_list mins / sum_list mins * avail"
      by (simp only: sum_list_map_times [of "\<lambda>m. m / sum_list mins"] sum_list_map_div list.map_ident)
    ultimately show ?thesis using mins assms(4) by auto
  next
    case False
    with span_fracs_waterfill [OF assms(1) len mins, of avail] show ?thesis
      using filled_nonneg by (auto simp: filled_def)
  qed
  then show "sum_list (span_fracs cs avail mins) = avail" "\<forall>f \<in> set (span_fracs cs avail mins). 0 \<le> f"
    by auto
qed

lemma length_allocate [simp]: "length (allocate_child_spans cs ext o' d) = length cs"
  by (simp add: allocate_child_spans_def Let_def)

lemma allocate_spec:
  assumes "nonneg_opts o'" and ne: "nonempty_splits (Split d' cs)"
  shows "sum_list (allocate_child_spans cs ext o' d) = js_round (available_span (length cs) ext o')"
    and "s \<in> set (allocate_child_spans cs ext o' d) \<Longrightarrow> 0 \<le> s"
proof -
  let ?mins = "map (\<lambda>c. min_span (fst c) d o') cs" and ?a = "available_span (length cs) ext o'"
  have cs: "pos_children cs" using ne by (auto simp: pos_children_def)
  have mins: "\<forall>m \<in> set ?mins. 0 \<le> m" using assms by (auto intro!: min_span_nonneg)
  have a: "0 \<le> ?a" by (simp add: available_span_def)
  note fracs = span_fracs_spec [OF cs _ mins a, simplified]
  have "span_fracs cs ?a ?mins \<noteq> []"
    using cs length_span_fracs [of ?mins cs ?a] by (auto simp: pos_children_def simp del: length_span_fracs)
  then show "sum_list (allocate_child_spans cs ext o' d) = js_round ?a"
    by (simp add: allocate_child_spans_def Let_def sum_cumulative_round)
  show "0 \<le> s" if "s \<in> set (allocate_child_spans cs ext o' d)"
    using that fracs by (auto simp: allocate_child_spans_def Let_def intro: cumulative_round_nonneg)
qed

text \<open>An extent with room for whole-pixel gaps is used up, to the nearest pixel.\<close>

lemma js_round_Ints: "x \<in> \<int> \<Longrightarrow> of_int (js_round x) = x"
  by (auto elim: Ints_cases)

lemma js_round_nonneg: "0 \<le> x \<Longrightarrow> 0 \<le> js_round x"
  using js_round_mono [of 0 x] by simp

lemma allocate_tiles:
  assumes "nonneg_opts o'" and "nonempty_splits (Split d' cs)"
    and "gap o' \<in> \<int>" and "gap o' * (of_nat (length cs) - 1) \<le> ext"
  shows "of_int (sum_list (allocate_child_spans cs ext o' d)) + gap o' * (of_nat (length cs) - 1) =
    of_int (js_round ext)"
proof -
  have "gap o' * (of_nat (length cs) - 1) \<in> \<int>" using assms(3) by simp
  then obtain k where k: "gap o' * (of_nat (length cs) - 1) = of_int k" by (auto elim: Ints_cases)
  with assms(4) have "available_span (length cs) ext o' = ext + of_int (- k)"
    by (simp add: available_span_def)
  then have "js_round (available_span (length cs) ext o') = js_round ext - k"
    by (simp only: js_round_add_int)
  then show ?thesis using allocate_spec(1) [OF assms(1,2), of ext d] k by simp
qed

section \<open>One rectangle per leaf\<close>

text \<open>The rectangles in placement order, which is what \<open>layout\<close> stores when ids are distinct.\<close>

fun leaf_rects :: "lath_node \<Rightarrow> rect \<Rightarrow> layout_opts \<Rightarrow> (leaf_id \<times> rect) list" where
  "leaf_rects (Leaf lid) r o' = [(lid, r)]"
| "leaf_rects (Split d cs) r o' =
     concat (map (\<lambda>(c, r'). leaf_rects (fst c) r' o') (child_rects d cs r o'))"

lemma map_fst_place_children [simp]:
  "length ss = length cs \<Longrightarrow> map fst (place_children d r o' pos cs ss) = cs"
  by (induction d r o' pos cs ss rule: place_children.induct) auto

lemma map_fst_child_rects [simp]: "map fst (child_rects d cs r o') = cs"
  by (simp add: child_rects_def Let_def)

lemma map_child_rects: "map (\<lambda>cr. f (fst cr)) (child_rects d cs r o') = map f cs"
proof -
  have "map f (map fst (child_rects d cs r o')) = map f cs" by (simp only: map_fst_child_rects)
  then show ?thesis by (simp only: list.map_comp comp_def)
qed

lemma length_child_rects [simp]: "length (child_rects d cs r o') = length cs"
  by (metis length_map map_fst_child_rects)

lemma fold_layout_rects:
  assumes "\<And>c r' out. (c, r') \<in> set xs \<Longrightarrow>
     layout_node (fst c) r' o' out = fold (\<lambda>(k, v). AList.update k v) (leaf_rects (fst c) r' o') out"
  shows "fold (\<lambda>(c, r') out. layout_node (fst c) r' o' out) xs out =
     fold (\<lambda>(k, v). AList.update k v) (concat (map (\<lambda>(c, r'). leaf_rects (fst c) r' o') xs)) out"
  using assms
proof (induction xs arbitrary: out)
  case (Cons x xs)
  obtain c r' where x: "x = (c, r')" by (cases x)
  have "layout_node (fst c) r' o' out =
      fold (\<lambda>(k, v). AList.update k v) (leaf_rects (fst c) r' o') out"
    using Cons.prems [of c r'] x by simp
  moreover have "fold (\<lambda>(c, r') out. layout_node (fst c) r' o' out) xs out' =
      fold (\<lambda>(k, v). AList.update k v) (concat (map (\<lambda>(c, r'). leaf_rects (fst c) r' o') xs)) out'"
    for out'
    using Cons.prems by (intro Cons.IH) auto
  ultimately show ?case by (simp add: x)
qed simp

lemma layout_node_rects:
  "layout_node n r o' out = fold (\<lambda>(k, v). AList.update k v) (leaf_rects n r o') out"
proof (induction n r o' arbitrary: out rule: leaf_rects.induct)
  case (2 d cs r o')
  show ?case unfolding layout_node.simps leaf_rects.simps
    by (rule fold_layout_rects) (rule "2.IH", auto)
qed simp

lemma fst_leaf_rects: "map fst (leaf_rects n r o') = node_leaves n"
proof (induction n r o' rule: leaf_rects.induct)
  case (2 d cs r o')
  have "map (\<lambda>(c, r'). map fst (leaf_rects (fst c) r' o')) (child_rects d cs r o') =
        map (\<lambda>cr. node_leaves (fst (fst cr))) (child_rects d cs r o')"
    using 2 by auto
  also have "\<dots> = map (\<lambda>c. node_leaves (fst c)) cs" by (rule map_child_rects)
  finally have "map (\<lambda>(c, r'). map fst (leaf_rects (fst c) r' o')) (child_rects d cs r o') =
        map (\<lambda>c. node_leaves (fst c)) cs" .
  then show ?case by (simp add: map_concat comp_def case_prod_unfold children_leaves_def)
qed simp

lemma fold_update_distinct:
  "distinct (map fst (out @ xs)) \<Longrightarrow> fold (\<lambda>(k, v). AList.update k v) xs out = out @ xs"
proof (induction xs arbitrary: out)
  case (Cons x xs)
  obtain k v where x: "x = (k, v)" by (cases x)
  have "k \<notin> fst ` set out" using Cons.prems x by auto
  then have "AList.update k v out = out @ [(k, v)]"
    by (induction out) auto
  with Cons x show ?case by auto
qed simp

lemma layout_eq_rects:
  assumes "wf_tree t" and "tree_root t = Some n"
  shows "layout t r o' = leaf_rects n (nonnegative_rect r) o'"
  using assms fold_update_distinct [of "[]" "leaf_rects n (nonnegative_rect r) o'"]
  by (simp add: layout_def layout_node_rects fst_leaf_rects wf_tree_def)

lemma fst_layout: "wf_tree t \<Longrightarrow> map fst (layout t r o') = leaves t"
proof (cases "tree_root t")
  case None
  then show ?thesis by (simp add: layout_def leaves_def)
next
  case (Some n)
  moreover assume "wf_tree t"
  ultimately show ?thesis by (simp add: layout_eq_rects fst_leaf_rects leaves_def)
qed

lemma map_of_layout: "wf_tree t \<Longrightarrow> map_of (layout t r o') lid = None \<longleftrightarrow> lid \<notin> set (leaves t)"
  by (metis fst_layout list.set_map map_of_eq_None_iff)

section \<open>Tiling\<close>

definition inside :: "rect \<Rightarrow> rect \<Rightarrow> bool" where
  "inside a r \<longleftrightarrow> 0 \<le> rwidth a \<and> 0 \<le> rheight a \<and>
     rx r \<le> rx a \<and> rx a + rwidth a \<le> rx r + rwidth r \<and>
     ry r \<le> ry a \<and> ry a + rheight a \<le> ry r + rheight r"

definition separated :: "rect \<Rightarrow> rect \<Rightarrow> bool" where
  "separated a b \<longleftrightarrow> rx a + rwidth a \<le> rx b \<or> rx b + rwidth b \<le> rx a \<or>
     ry a + rheight a \<le> ry b \<or> ry b + rheight b \<le> ry a"

text \<open>
  A rectangle with fractional sides, its sides grown or shrunk to the nearest whole pixel: the
  sides of \<open>grown r\<close> and \<open>shrunk r\<close> are at most half a pixel longer or shorter, and both
  are \<open>r\<close> when its sides are whole.
\<close>

definition grown :: "rect \<Rightarrow> rect" where
  "grown r = r\<lparr>rwidth := max (rwidth r) (of_int (js_round (rwidth r))),
               rheight := max (rheight r) (of_int (js_round (rheight r)))\<rparr>"

definition shrunk :: "rect \<Rightarrow> rect" where
  "shrunk r = r\<lparr>rwidth := min (rwidth r) (of_int (js_round (rwidth r))),
                rheight := min (rheight r) (of_int (js_round (rheight r)))\<rparr>"

lemma grown_simps [simp]:
  "rx (grown r) = rx r" "ry (grown r) = ry r"
  "rwidth (grown r) = max (rwidth r) (of_int (js_round (rwidth r)))"
  "rheight (grown r) = max (rheight r) (of_int (js_round (rheight r)))"
  by (simp_all add: grown_def)

lemma shrunk_simps [simp]:
  "rx (shrunk r) = rx r" "ry (shrunk r) = ry r"
  "rwidth (shrunk r) = min (rwidth r) (of_int (js_round (rwidth r)))"
  "rheight (shrunk r) = min (rheight r) (of_int (js_round (rheight r)))"
  by (simp_all add: shrunk_def)

lemma whole_sides:
  "rwidth r \<in> \<int> \<Longrightarrow> rheight r \<in> \<int> \<Longrightarrow> grown r = r"
  "rwidth r \<in> \<int> \<Longrightarrow> rheight r \<in> \<int> \<Longrightarrow> shrunk r = r"
  by (auto simp: grown_def shrunk_def js_round_Ints)

lemma grown_half_pixel: "rwidth (grown r) \<le> rwidth r + 1 / 2" "rheight (grown r) \<le> rheight r + 1 / 2"
  using js_round_close [of "rwidth r"] js_round_close [of "rheight r"]
  unfolding grown_simps max_def abs_le_iff by (simp_all; linarith)+

definition rect_extent :: "axis \<Rightarrow> rect \<Rightarrow> js_num" where
  "rect_extent d r = (if d = Row then rwidth r else rheight r)"

definition rect_start :: "axis \<Rightarrow> rect \<Rightarrow> js_num" where
  "rect_start d r = (if d = Row then rx r else ry r)"

definition rect_area :: "rect \<Rightarrow> js_num" where
  "rect_area r = rwidth r * rheight r"

text \<open>Every split has room for its gaps in the rectangle it is laid out in.\<close>

fun roomy :: "lath_node \<Rightarrow> rect \<Rightarrow> layout_opts \<Rightarrow> bool" where
  "roomy (Leaf lid) r o' = True"
| "roomy (Split d cs) r o' =
     (gap o' * (of_nat (length cs) - 1) \<le> rect_extent d r \<and>
      (\<forall>(c, r') \<in> set (child_rects d cs r o'). roomy (fst c) r' o'))"

lemma separated_sym: "separated a b \<Longrightarrow> separated b a"
  by (auto simp: separated_def)

lemma inside_trans: "inside a b \<Longrightarrow> inside b c \<Longrightarrow> inside a c"
  by (auto simp: inside_def)

lemma separated_inside: "separated a b \<Longrightarrow> inside a' a \<Longrightarrow> inside b' b \<Longrightarrow> separated a' b'"
  by (auto simp: separated_def inside_def)

text \<open>A child's rectangle spans the parent across the axis and starts at or after its position.\<close>

lemma place_children_bounds:
  assumes "0 \<le> gap o'" and "\<forall>s \<in> set ss. 0 \<le> s" and "length ss = length cs"
    and "(c, r') \<in> set (place_children d r o' pos cs ss)"
  shows "pos \<le> rect_start d r'" and "0 \<le> rect_extent d r'"
    and "rect_start d r' + rect_extent d r' \<le>
         pos + of_int (sum_list ss) + gap o' * (of_nat (length cs) - 1)"
    and "d = Row \<Longrightarrow> ry r' = ry r \<and> rheight r' = rheight r"
    and "d = Col \<Longrightarrow> rx r' = rx r \<and> rwidth r' = rwidth r"
proof -
  have "pos \<le> rect_start d r' \<and> 0 \<le> rect_extent d r' \<and>
        rect_start d r' + rect_extent d r' \<le> pos + of_int (sum_list ss) + gap o' * (of_nat (length cs) - 1) \<and>
        (d = Row \<longrightarrow> ry r' = ry r \<and> rheight r' = rheight r) \<and>
        (d = Col \<longrightarrow> rx r' = rx r \<and> rwidth r' = rwidth r)"
    using assms
  proof (induction d r o' pos cs ss rule: place_children.induct)
    case (1 d r o' pos c0 cs s ss)
    have "0 \<le> sum_list ss" using "1.prems"(2) by (intro sum_list_nonneg) auto
    then have ss: "0 \<le> (of_int (sum_list ss) :: js_num)" by simp
    have g: "0 \<le> gap o' * of_nat (length cs)" using "1.prems"(1) by simp
    have s: "0 \<le> (of_int s :: js_num)" using "1.prems"(2) by simp
    show ?case
    proof (cases "(c, r') \<in> set (place_children d r o' (pos + (of_int s + gap o')) cs ss)")
      case True
      with "1.IH" "1.prems" s show ?thesis by (auto simp: algebra_simps)
    next
      case False
      with "1.prems"(4) ss g s show ?thesis
        by (cases d) (auto simp: rect_start_def rect_extent_def)
    qed
  qed auto
  then show "pos \<le> rect_start d r'" "0 \<le> rect_extent d r'"
    "rect_start d r' + rect_extent d r' \<le> pos + of_int (sum_list ss) + gap o' * (of_nat (length cs) - 1)"
    "d = Row \<Longrightarrow> ry r' = ry r \<and> rheight r' = rheight r"
    "d = Col \<Longrightarrow> rx r' = rx r \<and> rwidth r' = rwidth r" by auto
qed

lemma place_children_extent:
  "(c, r') \<in> set (place_children d r o' pos cs ss) \<Longrightarrow> rect_extent d r' \<in> \<int>"
  by (induction d r o' pos cs ss rule: place_children.induct)
     (auto simp: rect_extent_def split: if_splits)

lemma place_children_separated:
  assumes "0 \<le> gap o'" and "\<forall>s \<in> set ss. 0 \<le> s" and "length ss = length cs"
  shows "sorted_wrt (\<lambda>a b. separated (grown (snd a)) (grown (snd b))) (place_children d r o' pos cs ss)"
  using assms
proof (induction d r o' pos cs ss rule: place_children.induct)
  case (1 d r o' pos c0 cs s ss)
  let ?r0 = "if d = Row then \<lparr>rx = pos, ry = ry r, rwidth = of_int s, rheight = rheight r\<rparr>
         else \<lparr>rx = rx r, ry = pos, rwidth = rwidth r, rheight = of_int s\<rparr>"
  have "separated (grown ?r0) (grown r')"
    if "(c, r') \<in> set (place_children d r o' (pos + (of_int s + gap o')) cs ss)" for c r'
    using place_children_bounds(1) [OF _ _ _ that] "1.prems"
    by (cases d) (auto simp: separated_def rect_start_def)
  with 1 show ?case by auto
qed auto

text \<open>What the callers pass: options of whole, non-negative pixels and a wall with an extent.\<close>

definition layout_args :: "lath_node \<Rightarrow> rect \<Rightarrow> layout_opts \<Rightarrow> bool" where
  "layout_args n r o' \<longleftrightarrow> nonneg_opts o' \<and> gap o' \<in> \<int> \<and> nonempty_splits n \<and>
     0 \<le> rwidth r \<and> 0 \<le> rheight r"

lemma child_rects_placed:
  "child_rects d cs r o' = place_children d r o' (rect_start d r) cs
     (allocate_child_spans cs (rect_extent d r) o' d)"
  by (simp add: child_rects_def Let_def rect_extent_def rect_start_def)

lemma child_rects_bounds:
  assumes args: "layout_args (Split d cs) r o'" and room: "gap o' * (of_nat (length cs) - 1) \<le> rect_extent d r"
    and mem: "(c, r') \<in> set (child_rects d cs r o')"
  shows "inside (grown r') (grown r)"
proof -
  have ne: "nonempty_splits (Split d cs)" and o': "nonneg_opts o'" "0 \<le> gap o'" "gap o' \<in> \<int>"
    using args by (auto simp: layout_args_def nonneg_opts_def)
  let ?ss = "allocate_child_spans cs (rect_extent d r) o' d"
  have sum: "of_int (sum_list ?ss) + gap o' * (of_nat (length cs) - 1) = of_int (js_round (rect_extent d r))"
    using o'(3) room by (rule allocate_tiles [OF o'(1) ne])
  note mem' = mem [unfolded child_rects_placed]
  have ss: "\<forall>s \<in> set ?ss. 0 \<le> s" using allocate_spec(2) [OF o'(1) ne] by blast
  have "of_int (js_round (rect_extent d r')) = rect_extent d r'"
    using place_children_extent [OF mem'] by (rule js_round_Ints)
  then show ?thesis
    using place_children_bounds [OF o'(2) ss length_allocate mem'] sum args
    by (cases d) (auto simp: inside_def rect_start_def rect_extent_def layout_args_def)
qed

lemma child_rects_separated:
  assumes "layout_args (Split d cs) r o'"
  shows "sorted_wrt (\<lambda>a b. separated (grown (snd a)) (grown (snd b))) (child_rects d cs r o')"
proof -
  have "nonempty_splits (Split d cs)" "nonneg_opts o'" "0 \<le> gap o'"
    using assms by (auto simp: layout_args_def nonneg_opts_def)
  then show ?thesis
    unfolding child_rects_def Let_def
    by (intro place_children_separated ballI allocate_spec(2) [of o' d cs] length_allocate)
qed

lemma place_children_nonneg:
  "0 \<le> rwidth r \<Longrightarrow> 0 \<le> rheight r \<Longrightarrow> \<forall>s \<in> set ss. 0 \<le> s \<Longrightarrow>
   (c, r') \<in> set (place_children d r o' pos cs ss) \<Longrightarrow> 0 \<le> rwidth r' \<and> 0 \<le> rheight r'"
  by (induction d r o' pos cs ss rule: place_children.induct) (auto split: if_splits)

lemma layout_args_child:
  assumes args: "layout_args (Split d cs) r o'" and mem: "(c, r') \<in> set (child_rects d cs r o')"
  shows "layout_args (fst c) r' o'"
proof -
  have ne: "nonempty_splits (Split d cs)" and o': "nonneg_opts o'" and r: "0 \<le> rwidth r" "0 \<le> rheight r"
    using args by (auto simp: layout_args_def)
  have "\<forall>s \<in> set (allocate_child_spans cs (rect_extent d r) o' d). 0 \<le> s"
    using allocate_spec(2) [OF o' ne] by blast
  with r have "0 \<le> rwidth r' \<and> 0 \<le> rheight r'"
    using mem [unfolded child_rects_placed] by (rule place_children_nonneg)
  moreover have "c \<in> set cs" using mem map_fst_child_rects [of d cs r o'] by (metis fst_conv image_eqI list.set_map)
  ultimately show ?thesis using args by (auto simp: layout_args_def)
qed

lemma sorted_wrt_concat:
  assumes "\<forall>xs \<in> set xss. sorted_wrt P xs"
    and "sorted_wrt (\<lambda>xs ys. \<forall>x \<in> set xs. \<forall>y \<in> set ys. P x y) xss"
  shows "sorted_wrt P (concat xss)"
  using assms by (induction xss) (auto simp: sorted_wrt_append)

lemma leaf_rects_tile:
  assumes "layout_args n r o'" and "roomy n r o'"
  shows "\<forall>x \<in> set (leaf_rects n r o'). inside (snd x) (grown r)"
    and "sorted_wrt (\<lambda>a b. separated (snd a) (snd b)) (leaf_rects n r o')"
proof -
  have "(\<forall>x \<in> set (leaf_rects n r o'). inside (snd x) (grown r)) \<and>
        sorted_wrt (\<lambda>a b. separated (snd a) (snd b)) (leaf_rects n r o')"
    using assms
  proof (induction n r o' rule: leaf_rects.induct)
    case (1 lid r o')
    then show ?case by (auto simp: inside_def layout_args_def)
  next
    case (2 d cs r o')
    let ?cr = "child_rects d cs r o'" and ?L = "\<lambda>(c, r'). leaf_rects (fst c) r' o'"
    have ih: "(\<forall>x \<in> set (?L cr). inside (snd x) (grown (snd cr))) \<and>
        sorted_wrt (\<lambda>a b. separated (snd a) (snd b)) (?L cr)" if "cr \<in> set ?cr" for cr
      using "2.IH" [of cr "fst cr" "snd cr"] that "2.prems" layout_args_child [of d cs r o' "fst cr" "snd cr"]
      by (auto simp: case_prod_unfold)
    have "inside (grown (snd cr)) (grown r)" if "cr \<in> set ?cr" for cr
      using child_rects_bounds [of d cs r o' "fst cr" "snd cr"] "2.prems" that by auto
    with ih have in_r: "\<forall>x \<in> set (concat (map ?L ?cr)). inside (snd x) (grown r)"
      by (fastforce intro: inside_trans)
    have "sorted_wrt (\<lambda>a b. \<forall>x \<in> set (?L a). \<forall>y \<in> set (?L b). separated (snd x) (snd y)) ?cr"
      using child_rects_separated [OF "2.prems"(1)]
      by (rule sorted_wrt_mono_rel [rotated]) (use ih separated_inside in blast)
    with ih have "sorted_wrt (\<lambda>a b. separated (snd a) (snd b)) (concat (map ?L ?cr))"
      by (intro sorted_wrt_concat) (auto simp: sorted_wrt_map)
    with in_r show ?case by simp
  qed
  then show "\<forall>x \<in> set (leaf_rects n r o'). inside (snd x) (grown r)"
    "sorted_wrt (\<lambda>a b. separated (snd a) (snd b)) (leaf_rects n r o')" by auto
qed

lemma roomy_gapless: "gap o' = 0 \<Longrightarrow> layout_args n r o' \<Longrightarrow> roomy n r o'"
proof (induction n r o' rule: roomy.induct)
  case (2 d cs r o')
  have "roomy (fst c) r' o'" if "(c, r') \<in> set (child_rects d cs r o')" for c r'
    using 2 that layout_args_child [OF "2.prems"(2) that] by auto
  with "2.prems" show ?case by (auto simp: layout_args_def rect_extent_def)
qed simp

subsection \<open>Without gaps the leaves cover the wall\<close>

lemma area_place_children:
  "length ss = length cs \<Longrightarrow> \<forall>s \<in> set ss. 0 \<le> s \<Longrightarrow>
   sum_list (map (\<lambda>cr. rect_area (grown (snd cr))) (place_children d r o' pos cs ss)) =
   of_int (sum_list ss) * (if d = Row then rheight (grown r) else rwidth (grown r))"
  "length ss = length cs \<Longrightarrow> \<forall>s \<in> set ss. 0 \<le> s \<Longrightarrow>
   sum_list (map (\<lambda>cr. rect_area (shrunk (snd cr))) (place_children d r o' pos cs ss)) =
   of_int (sum_list ss) * (if d = Row then rheight (shrunk r) else rwidth (shrunk r))"
  by (induction d r o' pos cs ss rule: place_children.induct)
     (auto simp: rect_area_def algebra_simps)

lemma area_child_rects:
  assumes args: "layout_args (Split d cs) r o'" and gap: "gap o' = 0"
  shows "sum_list (map (\<lambda>cr. rect_area (grown (snd cr))) (child_rects d cs r o')) \<le> rect_area (grown r)"
    and "rect_area (shrunk r) \<le> sum_list (map (\<lambda>cr. rect_area (shrunk (snd cr))) (child_rects d cs r o'))"
proof -
  have o': "nonneg_opts o'" "nonempty_splits (Split d cs)" and r: "0 \<le> rwidth r" "0 \<le> rheight r"
    using args by (auto simp: layout_args_def)
  let ?ss = "allocate_child_spans cs (rect_extent d r) o' d"
  have sum: "of_int (sum_list ?ss) = (of_int (js_round (rect_extent d r)) :: js_num)"
    using allocate_tiles [OF o', of "rect_extent d r" d] gap r by (auto simp: rect_extent_def)
  have ss: "\<forall>s \<in> set ?ss. 0 \<le> s" using allocate_spec(2) [OF o'] by blast
  let ?R = "of_int (js_round (rect_extent d r)) :: js_num"
  have area: "sum_list (map (\<lambda>cr. rect_area (grown (snd cr))) (child_rects d cs r o')) =
      ?R * (if d = Row then rheight (grown r) else rwidth (grown r))"
    "sum_list (map (\<lambda>cr. rect_area (shrunk (snd cr))) (child_rects d cs r o')) =
      ?R * (if d = Row then rheight (shrunk r) else rwidth (shrunk r))"
    by (simp_all only: child_rects_placed area_place_children [OF length_allocate ss] sum)
  have "0 \<le> (of_int (js_round (rwidth r)) :: js_num)" "0 \<le> (of_int (js_round (rheight r)) :: js_num)"
    using r by (simp_all add: js_round_nonneg)
  then show "sum_list (map (\<lambda>cr. rect_area (grown (snd cr))) (child_rects d cs r o')) \<le> rect_area (grown r)"
    "rect_area (shrunk r) \<le> sum_list (map (\<lambda>cr. rect_area (shrunk (snd cr))) (child_rects d cs r o'))"
    unfolding area using r
    by (auto simp: rect_area_def rect_extent_def mult.commute [of "of_int (js_round (rheight r))"] intro!: mult_mono)
qed

lemma sum_list_concat_map:
  fixes f :: "'a \<Rightarrow> js_num"
  shows "sum_list (map f (concat xss)) = sum_list (map (\<lambda>xs. sum_list (map f xs)) xss)"
  by (induction xss) auto

lemma area_leaf_rects:
  "layout_args n r o' \<Longrightarrow> gap o' = 0 \<Longrightarrow>
   rect_area (shrunk r) \<le> sum_list (map (\<lambda>x. rect_area (snd x)) (leaf_rects n r o')) \<and>
   sum_list (map (\<lambda>x. rect_area (snd x)) (leaf_rects n r o')) \<le> rect_area (grown r)"
proof (induction n r o' rule: leaf_rects.induct)
  case (1 lid r o')
  then show ?case
    by (auto simp: rect_area_def layout_args_def js_round_nonneg intro!: mult_mono)
next
  case (2 d cs r o')
  let ?cr = "child_rects d cs r o'"
  let ?A = "\<lambda>cr. sum_list (map (\<lambda>x. rect_area (snd x)) (leaf_rects (fst (fst cr)) (snd cr) o'))"
  have "rect_area (shrunk (snd cr)) \<le> ?A cr \<and> ?A cr \<le> rect_area (grown (snd cr))" if "cr \<in> set ?cr" for cr
    using "2.IH" [of cr "fst cr" "snd cr"] that "2.prems" layout_args_child [OF "2.prems"(1), of "fst cr" "snd cr"]
    by (auto simp: case_prod_unfold)
  then have "sum_list (map (\<lambda>cr. rect_area (shrunk (snd cr))) ?cr) \<le> sum_list (map ?A ?cr)"
    "sum_list (map ?A ?cr) \<le> sum_list (map (\<lambda>cr. rect_area (grown (snd cr))) ?cr)"
    by (auto intro!: sum_list_mono)
  moreover have "sum_list (map (\<lambda>x. rect_area (snd x)) (leaf_rects (Split d cs) r o')) = sum_list (map ?A ?cr)"
    by (simp add: sum_list_concat_map comp_def case_prod_unfold)
  ultimately show ?case using area_child_rects [OF "2.prems"] by linarith
qed

end
