(* ===== verification/Lath_Ops.thy ===== *)
theory Lath_Ops
  imports Lath_Tiling
begin

text \<open>
  The tree operations of the tiling engine, \<open>lib/src/lib/lath/ops.ts\<close>: split, remove, restore,
  replace, swap, insert, move and resize. An operation returns the new tree and whether it was
  accepted; a rejected operation returns its input. Where the code casts a looked-up node to a
  split (\<open>as SplitNode\<close>), \<open>as_split\<close> reads it; the lemmas show the casts succeed.
\<close>

section \<open>Definitions\<close>

record restore_token =
  tok_leaf_id :: leaf_id
  tok_weight :: js_num
  tok_sibling_id :: "leaf_id option"
  tok_sibling_leaf_ids :: "leaf_id list option"
  tok_sibling_fingerprint :: "js_text option"
  tok_edge :: edge
  tok_index :: int
  tok_fingerprint :: "js_text option"

datatype drop_target =
    DropEdge "nat list" edge
  | DropSwap leaf_id

fun as_split :: "lath_node option \<Rightarrow> axis \<times> lath_child list" where
  "as_split (Some (Split d cs)) = (d, cs)"
| "as_split _ = (Row, [])"

fun find_fp_node :: "js_text \<Rightarrow> lath_node \<Rightarrow> nat list option"
and find_fp_children :: "js_text \<Rightarrow> nat \<Rightarrow> lath_child list \<Rightarrow> nat list option" where
  "find_fp_node fp (Leaf lid) = None"
| "find_fp_node fp (Split d cs) =
     (if structure_fingerprint (Split d cs) = fp then Some [] else find_fp_children fp 0 cs)"
| "find_fp_children fp i [] = None"
| "find_fp_children fp i ((c, w) # cs) =
     (case find_fp_node fp c of
        Some p \<Rightarrow> Some (i # p)
      | None \<Rightarrow> find_fp_children fp (Suc i) cs)"

definition find_split_path_by_fingerprint :: "lath_tree \<Rightarrow> js_text \<Rightarrow> nat list option" where
  "find_split_path_by_fingerprint t fp =
     (case tree_root t of None \<Rightarrow> None | Some n \<Rightarrow> find_fp_node fp n)"

text \<open>
  The walk of \<open>findPathByLeafSet\<close>: it returns the leaf set of the node and the best path so far,
  children before their parent; a later match replaces an earlier one only if its path is shorter.
\<close>

definition better_path ::
    "leaf_id set \<Rightarrow> leaf_id set \<Rightarrow> nat list \<Rightarrow> nat list option \<Rightarrow> nat list option" where
  "better_path target s path result =
     (if s = target \<and> (case result of None \<Rightarrow> True | Some q \<Rightarrow> length path < length q)
      then Some path else result)"

fun leaf_set_walk ::
    "leaf_id set \<Rightarrow> lath_node \<Rightarrow> nat list \<Rightarrow> nat list option \<Rightarrow> leaf_id set \<times> nat list option"
and leaf_set_children ::
    "leaf_id set \<Rightarrow> nat \<Rightarrow> lath_child list \<Rightarrow> nat list \<Rightarrow> leaf_id set \<Rightarrow> nat list option \<Rightarrow>
     leaf_id set \<times> nat list option" where
  "leaf_set_walk target (Leaf lid) path result = ({lid}, better_path target {lid} path result)"
| "leaf_set_walk target (Split d cs) path result =
     (let (s, result') = leaf_set_children target 0 cs path {} result
      in (s, better_path target s path result'))"
| "leaf_set_children target i [] path s result = (s, result)"
| "leaf_set_children target i ((c, w) # cs) path s result =
     (let (sc, result') = leaf_set_walk target c (path @ [i]) result
      in leaf_set_children target (Suc i) cs path (s \<union> sc) result')"

definition find_path_by_leaf_set :: "lath_tree \<Rightarrow> leaf_id set \<Rightarrow> nat list option" where
  "find_path_by_leaf_set t target =
     (if target = {} then None
      else case tree_root t of
             None \<Rightarrow> None
           | Some n \<Rightarrow> snd (leaf_set_walk target n [] None))"

text \<open>The two-child split that puts a new leaf beside a node.\<close>

definition beside :: "edge \<Rightarrow> lath_child \<Rightarrow> lath_child \<Rightarrow> lath_node" where
  "beside e new target =
     Split (edge_axis e) (if edge_is_before e then [new, target] else [target, new])"

definition lath_split :: "lath_tree \<Rightarrow> leaf_id \<Rightarrow> edge \<Rightarrow> leaf_id \<Rightarrow> lath_tree \<times> bool" where
  "lath_split t at_leaf e new_id =
     (case tree_root t of
        None \<Rightarrow> (t, False)
      | Some n \<Rightarrow>
          (case find_leaf_path t at_leaf of
             None \<Rightarrow> (t, False)
           | Some at_path \<Rightarrow>
               if find_leaf_path t new_id \<noteq> None then (t, False)
               else (let nested = beside e (Leaf new_id, 1 / 2) (Leaf at_leaf, 1 / 2)
                     in (\<lparr>tree_root = normalize (replace_at n at_path nested)\<rparr>, True))))"

definition remove_idx :: "nat \<Rightarrow> 'a list \<Rightarrow> 'a list" where
  "remove_idx i xs = take i xs @ drop (Suc i) xs"

definition node_first_leaf :: "lath_node \<Rightarrow> leaf_id option" where
  "node_first_leaf n =
     (case n of Leaf lid \<Rightarrow> Some lid
      | Split d cs \<Rightarrow> (case leaves (tree_of n) of [] \<Rightarrow> None | lid # _ \<Rightarrow> Some lid))"

definition lath_remove ::
    "lath_tree \<Rightarrow> leaf_id \<Rightarrow> lath_tree \<times> bool \<times> restore_token option" where
  "lath_remove t lid =
     (case (tree_root t, find_leaf_path t lid) of
        (Some n, Some path) \<Rightarrow>
          if path = []
          then (\<lparr>tree_root = None\<rparr>, True,
                Some \<lparr>tok_leaf_id = lid, tok_weight = 1, tok_sibling_id = None,
                      tok_sibling_leaf_ids = None, tok_sibling_fingerprint = None,
                      tok_edge = EdgeRight, tok_index = 0, tok_fingerprint = None\<rparr>)
          else
            (let parent_path = butlast path;
                 idx = last path;
                 (dir, children) = as_split (node_at_path t parent_path);
                 weight = snd (children ! idx);
                 before = idx > 0;
                 sib_child = fst (children ! (if before then idx - 1 else idx + 1));
                 e = (if before then (if dir = Row then EdgeRight else EdgeBottom)
                      else (if dir = Row then EdgeLeft else EdgeTop));
                 post_children = remove_idx idx children;
                 token = \<lparr>tok_leaf_id = lid, tok_weight = weight,
                          tok_sibling_id = node_first_leaf sib_child,
                          tok_sibling_leaf_ids = Some (leaves (tree_of sib_child)),
                          tok_sibling_fingerprint = Some (structure_fingerprint sib_child),
                          tok_edge = e, tok_index = int idx,
                          tok_fingerprint = Some (structure_fingerprint (Split dir post_children))\<rparr>;
                 new_parent = Split dir post_children
             in (\<lparr>tree_root = normalize (replace_at n parent_path new_parent)\<rparr>, True, Some token))
      | _ \<Rightarrow> (t, False, None))"

definition insert_beside_node ::
    "lath_tree \<Rightarrow> nat list \<Rightarrow> edge \<Rightarrow> leaf_id \<Rightarrow> js_num \<Rightarrow> lath_tree" where
  "insert_beside_node t target_path e new_id w =
     (case (tree_root t, node_at_path t target_path) of
        (Some n, Some target_node) \<Rightarrow>
          if target_path = []
          then \<lparr>tree_root = normalize (beside e (Leaf new_id, w) (n, 1 - w))\<rparr>
          else
            (let parent_path = butlast target_path;
                 idx = last target_path;
                 nested = \<lparr>tree_root = normalize (replace_at n target_path
                             (beside e (Leaf new_id, w) (target_node, 1 - w)))\<rparr>
             in case node_at_path t parent_path of
                  Some (Split d cs) \<Rightarrow>
                    if d = edge_axis e
                    then (let k = (if edge_is_before e then idx else idx + 1);
                              children = take k cs @ [(Leaf new_id, w)] @ drop k cs
                          in \<lparr>tree_root = normalize (replace_at n parent_path
                                (Split (edge_axis e) (normalize_weights children)))\<rparr>)
                    else nested
                | _ \<Rightarrow> nested)
      | _ \<Rightarrow> t)"

definition clamp_weight :: "js_num \<Rightarrow> js_num" where
  "clamp_weight w = (let eps = 1 / 1000000 in min (max w eps) (1 - eps))"

definition lath_insert ::
    "lath_tree \<Rightarrow> leaf_id \<Rightarrow> drop_target \<Rightarrow> js_num \<Rightarrow> lath_tree \<times> bool" where
  "lath_insert t lid target weight =
     (case target of
        DropSwap l \<Rightarrow> (t, False)
      | DropEdge path e \<Rightarrow>
          if tree_root t = None then (t, False)
          else if find_leaf_path t lid \<noteq> None then (t, False)
          else if node_at_path t path = None then (t, False)
          else (insert_beside_node t path e lid (clamp_weight weight), True))"

datatype restore_tier = TierExact | TierNeighbor | TierFallback

record restore_opts =
  fallback_ref :: "leaf_id option"
  opt_rect :: "rect option"
  opt_layout :: "layout_opts option"

definition restore_parent ::
    "lath_tree \<Rightarrow> lath_node \<Rightarrow> nat list \<Rightarrow> restore_token \<Rightarrow> lath_tree" where
  "restore_parent t n parent_path token =
     (let (dir, cs) = as_split (node_at_path t parent_path);
          scaled = map (\<lambda>c. (fst c, snd c * (1 - tok_weight token))) cs;
          insert_at = nat (min (max (tok_index token) 0) (int (length scaled)));
          children = take insert_at scaled @ [(Leaf (tok_leaf_id token), tok_weight token)] @
                     drop insert_at scaled;
          new_parent = Split dir (normalize_weights children)
      in \<lparr>tree_root = normalize (replace_at n parent_path new_parent)\<rparr>)"

definition restore_sibling :: "lath_tree \<Rightarrow> restore_token \<Rightarrow> lath_tree option" where
  "restore_sibling t token =
     (case (tok_sibling_leaf_ids token, tok_sibling_fingerprint token) of
        (Some ids, Some fp) \<Rightarrow>
          if length ids > 1 \<and> fp \<noteq> []
          then (case find_path_by_leaf_set t (set ids) of
                  None \<Rightarrow> None
                | Some sibling_path \<Rightarrow>
                    (case node_at_path t sibling_path of
                       None \<Rightarrow> None
                     | Some sibling \<Rightarrow>
                         if structure_fingerprint sibling = fp
                         then (let r = lath_insert t (tok_leaf_id token)
                                         (DropEdge sibling_path (tok_edge token)) (tok_weight token)
                               in if snd r then Some (fst r) else None)
                         else None))
          else None
      | _ \<Rightarrow> None)"

definition restore_exact :: "lath_tree \<Rightarrow> lath_node \<Rightarrow> restore_token \<Rightarrow> lath_tree option" where
  "restore_exact t n token =
     (case (tok_sibling_id token, tok_fingerprint token) of
        (Some sid, Some fp) \<Rightarrow>
          (case find_split_path_by_fingerprint t fp of
             Some parent_path \<Rightarrow> Some (restore_parent t n parent_path token)
           | None \<Rightarrow> restore_sibling t token)
      | _ \<Rightarrow> None)"

definition restore_neighbor :: "lath_tree \<Rightarrow> restore_token \<Rightarrow> lath_tree option" where
  "restore_neighbor t token =
     (case tok_sibling_id token of
        None \<Rightarrow> None
      | Some sid \<Rightarrow>
          if find_leaf_path t sid \<noteq> None
          then (let r = lath_split t sid (tok_edge token) (tok_leaf_id token)
                in if snd r then Some (fst r) else None)
          else None)"

definition restore_fallback ::
    "lath_tree \<Rightarrow> restore_token \<Rightarrow> restore_opts option \<Rightarrow> lath_tree option" where
  "restore_fallback t token opts =
     (case opts of
        None \<Rightarrow> None
      | Some os \<Rightarrow>
          (case fallback_ref os of
             None \<Rightarrow> None
           | Some ref \<Rightarrow>
               if ref \<noteq> [] \<and> find_leaf_path t ref \<noteq> None
               then (let e = (case (opt_rect os, opt_layout os) of
                                (Some r, Some lo) \<Rightarrow> auto_edge t r ref lo
                              | _ \<Rightarrow> EdgeRight);
                         r = lath_split t ref e (tok_leaf_id token)
                     in if snd r then Some (fst r) else None)
               else None))"

definition lath_restore ::
    "lath_tree \<Rightarrow> restore_token \<Rightarrow> restore_opts option \<Rightarrow>
     lath_tree \<times> bool \<times> restore_tier option" where
  "lath_restore t token opts =
     (if find_leaf_path t (tok_leaf_id token) \<noteq> None then (t, False, None)
      else case tree_root t of
        None \<Rightarrow> (leaf_tree (tok_leaf_id token), True, Some TierFallback)
      | Some n \<Rightarrow>
          (case restore_exact t n token of
             Some t' \<Rightarrow> (t', True, Some TierExact)
           | None \<Rightarrow>
               (case restore_neighbor t token of
                  Some t' \<Rightarrow> (t', True, Some TierNeighbor)
                | None \<Rightarrow>
                    (case restore_fallback t token opts of
                       Some t' \<Rightarrow> (t', True, Some TierFallback)
                     | None \<Rightarrow> (t, False, None)))))"

definition lath_replace :: "lath_tree \<Rightarrow> leaf_id \<Rightarrow> leaf_id \<Rightarrow> lath_tree \<times> bool" where
  "lath_replace t old_id new_id =
     (case (tree_root t, find_leaf_path t old_id) of
        (Some n, Some path) \<Rightarrow>
          if find_leaf_path t new_id \<noteq> None then (t, False)
          else (\<lparr>tree_root = Some (replace_at n path (Leaf new_id))\<rparr>, True)
      | _ \<Rightarrow> (t, False))"

definition lath_swap :: "lath_tree \<Rightarrow> leaf_id \<Rightarrow> leaf_id \<Rightarrow> lath_tree \<times> bool" where
  "lath_swap t a b =
     (if a = b then (t, False)
      else case (tree_root t, find_leaf_path t a, find_leaf_path t b) of
        (Some n, Some pa, Some pb) \<Rightarrow>
          (\<lparr>tree_root = Some (replace_at (replace_at n pa (Leaf b)) pb (Leaf a))\<rparr>, True)
      | _ \<Rightarrow> (t, False))"

definition lath_move :: "lath_tree \<Rightarrow> leaf_id \<Rightarrow> drop_target \<Rightarrow> lath_tree \<times> bool" where
  "lath_move t lid target =
     (case target of
        DropSwap l \<Rightarrow> lath_swap t lid l
      | DropEdge tpath e \<Rightarrow>
          (case find_leaf_path t lid of
             None \<Rightarrow> (t, False)
           | Some id_path \<Rightarrow>
               (case node_at_path t tpath of
                  None \<Rightarrow> (t, False)
                | Some target_node \<Rightarrow>
                    (let target_leaves = leaves (tree_of target_node) in
                     if target_leaves = [lid] then (t, False)
                     else
                       (let w = (if id_path = [] then 1
                                 else snd (snd (as_split (node_at_path t (butlast id_path))) ! last id_path));
                            t2 = fst (lath_remove t lid);
                            survivors = filter (\<lambda>l. l \<noteq> lid) target_leaves;
                            insert_path =
                              (case find_path_by_leaf_set t2 (set survivors) of
                                 Some p \<Rightarrow> Some p
                               | None \<Rightarrow>
                                   (case survivors of
                                      [] \<Rightarrow> None
                                    | anchor # _ \<Rightarrow> find_leaf_path t2 anchor))
                        in case insert_path of
                             None \<Rightarrow> (t, False)
                           | Some p \<Rightarrow>
                               (let r = lath_insert t2 lid (DropEdge p e) w
                                in if snd r then r else (t, False)))))))"

definition resized_weight ::
    "js_num \<Rightarrow> js_num \<Rightarrow> js_num \<Rightarrow> js_num \<Rightarrow> js_num \<Rightarrow> js_num" where
  "resized_weight wa pair_sum min_a min_b delta =
     (let lo = min_a;
          hi = pair_sum - min_b;
          new_wa = (if lo > hi
                    then (if min_a + min_b > 0 then pair_sum * (min_a / (min_a + min_b))
                          else pair_sum / 2)
                    else min (max (wa + delta) lo) hi);
          eps = 1 / 10000 * pair_sum
      in min (max new_wa eps) (pair_sum - eps))"

definition lath_resize ::
    "lath_tree \<Rightarrow> nat list \<Rightarrow> int \<Rightarrow> js_num \<Rightarrow> rect \<Rightarrow> layout_opts \<Rightarrow> lath_tree \<times> bool" where
  "lath_resize t spath bnd delta_px rct o' =
     (case (tree_root t, node_at_path t spath) of
        (Some n, Some (Split dir cs)) \<Rightarrow>
          if bnd < 0 \<or> bnd \<ge> int (length cs) - 1 then (t, False)
          else
            (case node_rect_at_path t rct o' spath of
               None \<Rightarrow> (t, False)
             | Some split_rect \<Rightarrow>
                 (let ext = (if dir = Row then rwidth split_rect else rheight split_rect);
                      available = ext - gap o' * (of_nat (length cs) - 1)
                  in if available \<le> 0 then (t, False)
                     else
                       (let a = nat bnd;
                            b = a + 1;
                            wa = snd (cs ! a);
                            wb = snd (cs ! b);
                            pair_sum = wa + wb;
                            min_a = min_span (fst (cs ! a)) dir o' / available;
                            min_b = min_span (fst (cs ! b)) dir o' / available;
                            new_wa = resized_weight wa pair_sum min_a min_b (delta_px / available);
                            new_wb = pair_sum - new_wa;
                            children = (cs[a := (fst (cs ! a), new_wa)])[b := (fst (cs ! b), new_wb)]
                        in (\<lparr>tree_root = normalize (replace_at n spath (Split dir children))\<rparr>, True))))
      | _ \<Rightarrow> (t, False))"

end
