(* ===== verification/Lath_Correct.thy ===== *)
theory Lath_Correct
  imports Lath_Ops
begin

text \<open>
  What the operations of \<open>Lath_Ops\<close> promise: a rejected operation returns its input, an accepted
  one returns a well-formed tree, and the leaf sequence changes exactly as its name says.
\<close>

section \<open>The contract shared by the operations\<close>

locale lath_operation =
  fixes operate :: "'a \<Rightarrow> lath_tree \<Rightarrow> lath_tree \<times> bool"
    and admissible :: "'a \<Rightarrow> bool"
  assumes rejected: "\<not> snd (operate x t) \<Longrightarrow> fst (operate x t) = t"
    and accepted_wf: "wf_tree t \<Longrightarrow> admissible x \<Longrightarrow> snd (operate x t) \<Longrightarrow> wf_tree (fst (operate x t))"
begin

lemma keeps_wf: "wf_tree t \<Longrightarrow> admissible x \<Longrightarrow> wf_tree (fst (operate x t))"
  using rejected accepted_wf by metis

lemma history_wf:
  "wf_tree t \<Longrightarrow> \<forall>x \<in> set xs. admissible x \<Longrightarrow> wf_tree (fold (\<lambda>x t. fst (operate x t)) xs t)"
  by (induction xs arbitrary: t) (auto simp: keeps_wf)

end

section \<open>Locating a leaf\<close>

lemma wf_treeD: "wf_tree t \<Longrightarrow> tree_root t = Some n \<Longrightarrow> canon n \<and> distinct (node_leaves n)"
  by (simp add: wf_tree_def)

lemma wf_distinct: "wf_tree t \<Longrightarrow> distinct (leaves t)"
  by (cases "tree_root t") (auto simp: leaves_def wf_tree_def)

lemma located:
  assumes wf: "wf_tree t" and path: "find_leaf_path t lid = Some p"
  obtains n pre post where "tree_root t = Some n" "canon n" "node_at n p = Some (Leaf lid)"
    "leaves t = pre @ [lid] @ post" "lid \<notin> set pre" "lid \<notin> set post" "distinct (pre @ post)"
    "\<And>y. node_leaves (replace_at n p y) = pre @ node_leaves y @ post"
proof -
  obtain n where n: "tree_root t = Some n" "node_at n p = Some (Leaf lid)"
    using path by (rule find_leaf_path_SomeD)
  obtain pre post where pp: "node_leaves n = pre @ node_leaves (Leaf lid) @ post"
    "\<And>y. node_leaves (replace_at n p y) = pre @ node_leaves y @ post"
    using leaves_replace [OF n(2)] by blast
  have "canon n" "distinct (node_leaves n)" using wf n(1) by (auto simp: wf_tree_def)
  with n pp show thesis using that [of n pre post] by (auto simp: leaves_def)
qed

lemma find_leaf_cases:
  obtains (absent) "find_leaf_path t lid = None" "lid \<notin> set (leaves t)"
  | (present) p n where "find_leaf_path t lid = Some p" "tree_root t = Some n" "lid \<in> set (leaves t)"
proof (cases "find_leaf_path t lid")
  case None
  then show ?thesis by (intro absent) (auto simp: find_leaf_path_None)
next
  case (Some p)
  moreover have "lid \<in> set (leaves t)" using Some by (metis find_leaf_path_None option.distinct(1))
  ultimately show ?thesis using present by (metis find_leaf_path_SomeD)
qed

lemma pos_beside [lath_intros]:
  "pos_weights (fst a) \<Longrightarrow> pos_weights (fst b) \<Longrightarrow> 0 < snd a \<Longrightarrow> 0 < snd b \<Longrightarrow> pos_weights (beside e a b)"
  by (auto simp: beside_def)

lemma leaves_beside [lath_leaves, simp]:
  "node_leaves (beside e a b) =
   (if edge_is_before e then node_leaves (fst a) @ node_leaves (fst b)
    else node_leaves (fst b) @ node_leaves (fst a))"
  by (auto simp: beside_def)

text \<open>Replacing one element of a list that holds it once.\<close>

lemma subst_once:
  assumes "x \<notin> set pre" and "x \<notin> set post"
  shows "concat (map (\<lambda>y. if y = x then zs else [y]) (pre @ [x] @ post)) = pre @ zs @ post"
proof -
  have "concat (map (\<lambda>y. if y = x then zs else [y]) ys) = ys" if "x \<notin> set ys" for ys
    using that by (induction ys) auto
  with assms show ?thesis by simp
qed

section \<open>split\<close>

lemma lath_split_ok_iff:
  "snd (lath_split t at_leaf e new_id) \<longleftrightarrow> at_leaf \<in> set (leaves t) \<and> new_id \<notin> set (leaves t)"
  by (cases rule: find_leaf_cases [where t = t and lid = at_leaf];
      cases rule: find_leaf_cases [where t = t and lid = new_id])
     (auto simp: lath_split_def Let_def split: option.splits)

lemma lath_split_rejected: "\<not> snd (lath_split t a e b) \<Longrightarrow> fst (lath_split t a e b) = t"
  by (cases rule: find_leaf_cases [where t = t and lid = a]; cases rule: find_leaf_cases [where t = t and lid = b])
     (auto simp: lath_split_def Let_def split: option.splits)

lemma lath_split_accepted:
  assumes wf: "wf_tree t" and ok: "snd (lath_split t at_leaf e new_id)"
  shows "wf_tree (fst (lath_split t at_leaf e new_id))"
    and "leaves (fst (lath_split t at_leaf e new_id)) =
      concat (map (\<lambda>l. if l = at_leaf then (if edge_is_before e then [new_id, at_leaf] else [at_leaf, new_id])
                        else [l]) (leaves t))"
proof -
  have mem: "at_leaf \<in> set (leaves t)" and new: "new_id \<notin> set (leaves t)"
    using ok by (auto simp: lath_split_ok_iff)
  obtain p where p: "find_leaf_path t at_leaf = Some p" using mem by (metis find_leaf_path_None option.exhaust)
  obtain n pre post where n: "tree_root t = Some n" "canon n" "leaves t = pre @ [at_leaf] @ post"
      "at_leaf \<notin> set pre" "at_leaf \<notin> set post" "distinct (pre @ post)"
    and repl: "\<And>y. node_leaves (replace_at n p y) = pre @ node_leaves y @ post"
    using located [OF wf p] by metis
  let ?nested = "beside e (Leaf new_id, 1 / 2) (Leaf at_leaf, 1 / 2)"
  have res: "fst (lath_split t at_leaf e new_id) = \<lparr>tree_root = normalize (replace_at n p ?nested)\<rparr>"
    using n(1) p new by (simp add: lath_split_def Let_def find_leaf_path_None [THEN iffD2])
  show "leaves (fst (lath_split t at_leaf e new_id)) =
      concat (map (\<lambda>l. if l = at_leaf then (if edge_is_before e then [new_id, at_leaf] else [at_leaf, new_id])
                        else [l]) (leaves t))"
    unfolding n(3) subst_once [OF n(4,5)] by (simp add: res repl)
  have "pos_weights (replace_at n p ?nested)"
    by (intro lath_intros canon_pos_weights [OF n(2)]) auto
  moreover have "distinct (node_leaves (replace_at n p ?nested))"
    using n new by (auto simp: repl)
  ultimately show "wf_tree (fst (lath_split t at_leaf e new_id))"
    unfolding res by (rule wf_tree_normalize)
qed

interpretation split_op: lath_operation
  "\<lambda>(a, e, b) t. lath_split t a e b" "\<lambda>_. True"
  by unfold_locales (auto simp: lath_split_rejected lath_split_accepted(1))

section \<open>replace and swap\<close>

text \<open>Renaming leaves in place keeps the tree canonical.\<close>

lemma canon_replace:
  "canon n \<Longrightarrow> node_at n p = Some x \<Longrightarrow> canon y \<Longrightarrow> split_dir y = split_dir x \<Longrightarrow>
   canon (replace_at n p y) \<and> split_dir (replace_at n p y) = split_dir n"
proof (induction n p rule: node_at.induct)
  case (3 d cs i p)
  then have i: "i < length cs" and ih: "canon (replace_at (fst (cs ! i)) p y)"
      "split_dir (replace_at (fst (cs ! i)) p y) = split_dir (fst (cs ! i))"
    by (auto split: if_splits)
  let ?c = "(replace_at (fst (cs ! i)) p y, snd (cs ! i))"
  have "map snd (cs[i := ?c]) = map snd cs" by (simp add: map_update list_update_same_conv i)
  moreover have "cs ! i \<in> set cs" using i by simp
  ultimately show ?case using i ih "3.prems"(1) by (auto dest!: set_update_cases)
qed auto

lemma lath_replace_ok_iff:
  "snd (lath_replace t old_id new_id) \<longleftrightarrow> old_id \<in> set (leaves t) \<and> new_id \<notin> set (leaves t)"
  by (cases rule: find_leaf_cases [where t = t and lid = old_id]; cases rule: find_leaf_cases [where t = t and lid = new_id])
     (auto simp: lath_replace_def split: option.splits)

lemma lath_replace_rejected: "\<not> snd (lath_replace t a b) \<Longrightarrow> fst (lath_replace t a b) = t"
  by (cases rule: find_leaf_cases [where t = t and lid = a]; cases rule: find_leaf_cases [where t = t and lid = b])
     (auto simp: lath_replace_def split: option.splits)

lemma map_rename_once:
  "x \<notin> set pre \<Longrightarrow> x \<notin> set post \<Longrightarrow>
   map (\<lambda>l. if l = x then y else l) (pre @ [x] @ post) = pre @ [y] @ post"
  by (auto intro!: map_idI)

lemma lath_replace_accepted:
  assumes wf: "wf_tree t" and ok: "snd (lath_replace t old_id new_id)"
  shows "wf_tree (fst (lath_replace t old_id new_id))"
    and "leaves (fst (lath_replace t old_id new_id)) = map (\<lambda>l. if l = old_id then new_id else l) (leaves t)"
proof -
  have mem: "old_id \<in> set (leaves t)" and new: "new_id \<notin> set (leaves t)"
    using ok by (auto simp: lath_replace_ok_iff)
  obtain p where p: "find_leaf_path t old_id = Some p" using mem by (metis find_leaf_path_None option.exhaust)
  obtain n pre post where n: "tree_root t = Some n" "canon n" "node_at n p = Some (Leaf old_id)"
      "leaves t = pre @ [old_id] @ post" "old_id \<notin> set pre" "old_id \<notin> set post" "distinct (pre @ post)"
    and repl: "\<And>y. node_leaves (replace_at n p y) = pre @ node_leaves y @ post"
    using located [OF wf p] by metis
  have res: "fst (lath_replace t old_id new_id) = tree_of (replace_at n p (Leaf new_id))"
    using n(1) p new by (simp add: lath_replace_def find_leaf_path_None [THEN iffD2])
  show "leaves (fst (lath_replace t old_id new_id)) = map (\<lambda>l. if l = old_id then new_id else l) (leaves t)"
    unfolding n(4) map_rename_once [OF n(5,6)] by (simp add: res repl)
  have "canon (replace_at n p (Leaf new_id))" using canon_replace [OF n(2,3)] by simp
  then show "wf_tree (fst (lath_replace t old_id new_id))"
    using n new by (auto simp: wf_tree_def res repl)
qed

interpretation replace_op: lath_operation "\<lambda>(a, b) t. lath_replace t a b" "\<lambda>_. True"
  by unfold_locales (auto simp: lath_replace_rejected lath_replace_accepted(1))

lemma lath_swap_ok_iff:
  "snd (lath_swap t a b) \<longleftrightarrow> a \<noteq> b \<and> a \<in> set (leaves t) \<and> b \<in> set (leaves t)"
  by (cases rule: find_leaf_cases [where t = t and lid = a]; cases rule: find_leaf_cases [where t = t and lid = b])
     (auto simp: lath_swap_def split: option.splits)

lemma lath_swap_rejected: "\<not> snd (lath_swap t a b) \<Longrightarrow> fst (lath_swap t a b) = t"
  by (cases rule: find_leaf_cases [where t = t and lid = a]; cases rule: find_leaf_cases [where t = t and lid = b])
     (auto simp: lath_swap_def split: option.splits)

text \<open>A leaf keeps its place when another leaf is renamed.\<close>

lemma node_at_replace_other_leaf:
  "node_at n p = Some (Leaf a) \<Longrightarrow> node_at n q = Some (Leaf b) \<Longrightarrow> p \<noteq> q \<Longrightarrow>
   node_at (replace_at n p (Leaf x)) q = Some (Leaf b)"
proof (induction n p arbitrary: q rule: node_at.induct)
  case (1 n)
  then show ?case by (cases q) auto
next
  case (2 lid i p)
  then show ?case by simp
next
  case (3 d cs i p)
  then obtain j q' where q: "q = j # q'" by (cases q) auto
  show ?case
  proof (cases "j = i")
    case True
    with 3 q show ?thesis by (auto split: if_splits)
  next
    case False
    with "3.prems" q show ?thesis by (auto split: if_splits)
  qed
qed

definition exchange :: "'a \<Rightarrow> 'a \<Rightarrow> 'a \<Rightarrow> 'a" where
  "exchange a b l = (if l = a then b else if l = b then a else l)"

lemma distinct_concat_nth:
  "distinct (concat xss) \<Longrightarrow> i < length xss \<Longrightarrow> k < length xss \<Longrightarrow> i \<noteq> k \<Longrightarrow>
   x \<in> set (xss ! i) \<Longrightarrow> x \<notin> set (xss ! k)"
proof (induction xss arbitrary: i k)
  case (Cons ys xss)
  have mem: "x \<in> set (concat xss)" if "x \<in> set (xss ! j)" "j < length xss" for j
    using that nth_mem by fastforce
  show ?case
  proof (cases i)
    case 0
    with Cons.prems mem show ?thesis by (cases k) auto
  next
    case (Suc i')
    show ?thesis
    proof (cases k)
      case 0
      with Suc Cons.prems mem [of i'] show ?thesis by auto
    next
      case (Suc k')
      with \<open>i = Suc i'\<close> Cons.prems Cons.IH [of i' k'] show ?thesis by auto
    qed
  qed
qed simp

lemma distinct_children_nth:
  "distinct (children_leaves cs) \<Longrightarrow> i < length cs \<Longrightarrow> k < length cs \<Longrightarrow> i \<noteq> k \<Longrightarrow>
   x \<in> set (node_leaves (fst (cs ! i))) \<Longrightarrow> x \<notin> set (node_leaves (fst (cs ! k)))"
  using distinct_concat_nth [of "map (\<lambda>c. node_leaves (fst c)) cs" i k x]
  by (simp add: children_leaves_def)

lemma distinct_child:
  "distinct (children_leaves cs) \<Longrightarrow> i < length cs \<Longrightarrow> distinct (node_leaves (fst (cs ! i)))"
  by (auto simp: children_leaves_def distinct_concat_iff)

lemma map_children_leaves:
  assumes "length ds = length cs"
    and "\<And>k. k < length cs \<Longrightarrow> node_leaves (fst (ds ! k)) = map f (node_leaves (fst (cs ! k)))"
  shows "children_leaves ds = map f (children_leaves cs)"
proof -
  have "map (\<lambda>c. node_leaves (fst c)) ds = map (map f) (map (\<lambda>c. node_leaves (fst c)) cs)"
    using assms by (intro nth_equalityI) auto
  then show ?thesis by (simp only: children_leaves_def map_concat)
qed

lemma rename_leaf:
  assumes "distinct (node_leaves n)" and "node_at n p = Some (Leaf x)"
  shows "node_leaves (replace_at n p (Leaf y)) = map (\<lambda>l. if l = x then y else l) (node_leaves n)"
proof -
  obtain pre post where "node_leaves n = pre @ [x] @ post"
    "node_leaves (replace_at n p (Leaf y)) = pre @ [y] @ post"
    using leaves_replace [OF assms(2)] by (metis node_leaves.simps(1))
  moreover from this(1) assms(1) have "x \<notin> set pre" "x \<notin> set post" by auto
  ultimately show ?thesis by (metis map_rename_once)
qed

lemma leaf_mem: "node_at n p = Some (Leaf x) \<Longrightarrow> x \<in> set (node_leaves n)"
  using set_leaves_node_at [of n p "Leaf x"] by simp

lemma exchange_leaves:
  "distinct (node_leaves n) \<Longrightarrow> node_at n p = Some (Leaf a) \<Longrightarrow> node_at n q = Some (Leaf b) \<Longrightarrow> a \<noteq> b \<Longrightarrow>
   node_leaves (replace_at (replace_at n p (Leaf b)) q (Leaf a)) = map (exchange a b) (node_leaves n)"
proof (induction n p arbitrary: q rule: node_at.induct)
  case (1 n)
  then show ?case by (cases q) auto
next
  case (2 lid i p)
  then show ?case by simp
next
  case (3 d cs i p)
  then obtain j q' where q: "q = j # q'" by (cases q) auto
  have i: "i < length cs" "node_at (fst (cs ! i)) p = Some (Leaf a)"
    and j: "j < length cs" "node_at (fst (cs ! j)) q' = Some (Leaf b)"
    and dist: "distinct (children_leaves cs)"
    using "3.prems" q by (auto split: if_splits)
  note mem = leaf_mem [OF i(2)] leaf_mem [OF j(2)]
  have other: "map (exchange a b) (node_leaves (fst (cs ! k))) = node_leaves (fst (cs ! k))"
    if "k < length cs" "k \<noteq> i" "k \<noteq> j" for k
  proof -
    have "a \<notin> set (node_leaves (fst (cs ! k)))" "b \<notin> set (node_leaves (fst (cs ! k)))"
      using distinct_children_nth [OF dist] i(1) j(1) mem that by metis+
    then show ?thesis by (auto simp: exchange_def intro!: map_idI)
  qed
  show ?case
  proof (cases "j = i")
    case True
    have "node_leaves (replace_at (replace_at (fst (cs ! i)) p (Leaf b)) q' (Leaf a)) =
          map (exchange a b) (node_leaves (fst (cs ! i)))"
      using "3.IH" [OF i(1) distinct_child [OF dist i(1)] i(2)] j(2) True "3.prems"(4) by simp
    with i(1) True other q show ?thesis
      by (auto simp: nth_list_update intro!: map_children_leaves)
  next
    case False
    have ren: "map (\<lambda>l. if l = x then y else l) xs = map (exchange a b) xs"
      if "x = a \<and> y = b \<and> b \<notin> set xs \<or> x = b \<and> y = a \<and> a \<notin> set xs" for x y xs
      using that by (auto simp: exchange_def)
    have "node_leaves (replace_at (fst (cs ! i)) p (Leaf b)) = map (exchange a b) (node_leaves (fst (cs ! i)))"
      using rename_leaf [OF distinct_child [OF dist i(1)] i(2), of b]
        distinct_children_nth [OF dist j(1) i(1) False mem(2)] ren [of a b] by simp
    moreover have "node_leaves (replace_at (fst (cs ! j)) q' (Leaf a)) = map (exchange a b) (node_leaves (fst (cs ! j)))"
      using rename_leaf [OF distinct_child [OF dist j(1)] j(2), of a]
        distinct_children_nth [OF dist i(1) j(1) False [symmetric] mem(1)] ren [of b a] by simp
    ultimately show ?thesis
      using i(1) j(1) False other q
      by (auto simp: nth_list_update intro!: map_children_leaves)
  qed
qed

lemma lath_swap_accepted:
  assumes wf: "wf_tree t" and ok: "snd (lath_swap t a b)"
  shows "wf_tree (fst (lath_swap t a b))"
    and "leaves (fst (lath_swap t a b)) = map (exchange a b) (leaves t)"
proof -
  have ab: "a \<noteq> b" "a \<in> set (leaves t)" "b \<in> set (leaves t)" using ok by (auto simp: lath_swap_ok_iff)
  obtain pa n where a: "find_leaf_path t a = Some pa" "tree_root t = Some n" "node_at n pa = Some (Leaf a)"
    using ab(2) by (metis find_leaf_path_None find_leaf_path_SomeD option.exhaust)
  obtain pb where b: "find_leaf_path t b = Some pb" "node_at n pb = Some (Leaf b)"
    using ab(3) a(2) by (metis find_leaf_path_None find_leaf_path_SomeD option.exhaust option.inject)
  have n: "canon n" "distinct (node_leaves n)" using wf_treeD [OF wf a(2)] by auto
  let ?n1 = "replace_at n pa (Leaf b)" let ?n2 = "replace_at ?n1 pb (Leaf a)"
  have res: "fst (lath_swap t a b) = tree_of ?n2" using ab(1) a(1,2) b(1) by (simp add: lath_swap_def)
  have leaves: "node_leaves ?n2 = map (exchange a b) (node_leaves n)"
    using exchange_leaves [OF n(2) a(3) b(2) ab(1)] .
  then show "leaves (fst (lath_swap t a b)) = map (exchange a b) (leaves t)"
    using a(2) by (simp add: res leaves_def)
  have "pa \<noteq> pb" using a(3) b(2) ab(1) by auto
  then have "node_at ?n1 pb = Some (Leaf b)" using a(3) b(2) node_at_replace_other_leaf by blast
  moreover have "canon ?n1" using canon_replace [OF n(1) a(3)] by simp
  ultimately have "canon ?n2" using canon_replace by (metis canon.simps(1) split_dir.simps(1))
  moreover have "inj (exchange a b)" by (auto simp: inj_def exchange_def split: if_splits)
  ultimately show "wf_tree (fst (lath_swap t a b))"
    using n(2) by (auto simp: res wf_tree_def leaves distinct_map intro: inj_on_subset)
qed

interpretation swap_op: lath_operation "\<lambda>(a, b) t. lath_swap t a b" "\<lambda>_. True"
  by unfold_locales (auto simp: lath_swap_rejected lath_swap_accepted(1))

end
