(* ===== verification/Lath_Restructure.thy ===== *)
theory Lath_Restructure
  imports Lath_Correct
begin

text \<open>
  The operations that change the structure of the tree: remove, insert, move, resize and restore.
\<close>

section \<open>remove\<close>

lemma parent_split:
  assumes "node_at n p = Some x" and "p \<noteq> []"
  obtains d cs where "node_at n (butlast p) = Some (Split d cs)" "last p < length cs"
    "fst (cs ! last p) = x"
proof -
  have "node_at n (butlast p @ [last p]) = Some x" using assms by simp
  then obtain m where m: "node_at n (butlast p) = Some m" "node_at m [last p] = Some x"
    by (auto simp: node_at_append simp del: append_butlast_last_id split: option.splits)
  then show thesis using that by (cases m) (auto split: if_splits)
qed

lemma children_leaves_nth_split:
  "i < length cs \<Longrightarrow> children_leaves cs =
   children_leaves (take i cs) @ node_leaves (fst (cs ! i)) @ children_leaves (drop (Suc i) cs)"
  using children_leaves_upd [of i cs "cs ! i"] by simp

lemma set_remove_idx: "set (remove_idx i xs) \<subseteq> set xs"
  by (auto simp: remove_idx_def dest: in_set_takeD in_set_dropD)

text \<open>What \<open>remove\<close> builds for a leaf that has a parent: its casts and indices are in range.\<close>

definition removal_token :: "leaf_id \<Rightarrow> axis \<Rightarrow> lath_child list \<Rightarrow> nat \<Rightarrow> restore_token" where
  "removal_token lid d cs i =
     (let sib = fst (cs ! (if i > 0 then i - 1 else i + 1)) in
      \<lparr>tok_leaf_id = lid, tok_weight = snd (cs ! i), tok_sibling_id = node_first_leaf sib,
       tok_sibling_leaf_ids = Some (node_leaves sib),
       tok_sibling_fingerprint = Some (structure_fingerprint sib),
       tok_edge = (if i > 0 then (if d = Row then EdgeRight else EdgeBottom)
                   else (if d = Row then EdgeLeft else EdgeTop)),
       tok_index = int i,
       tok_fingerprint = Some (structure_fingerprint (Split d (remove_idx i cs)))\<rparr>)"

lemma lath_remove_cases:
  assumes wf: "wf_tree t" and mem: "lid \<in> set (leaves t)"
  obtains
    (only) "tree_root t = Some (Leaf lid)" "fst (lath_remove t lid) = \<lparr>tree_root = None\<rparr>"
      "snd (lath_remove t lid) = (True, Some \<lparr>tok_leaf_id = lid, tok_weight = 1, tok_sibling_id = None,
         tok_sibling_leaf_ids = None, tok_sibling_fingerprint = None, tok_edge = EdgeRight,
         tok_index = 0, tok_fingerprint = None\<rparr>)"
  | (inner) n pp i d cs where "tree_root t = Some n" "find_leaf_path t lid = Some (pp @ [i])"
      "node_at n pp = Some (Split d cs)" "i < length cs" "fst (cs ! i) = Leaf lid" "2 \<le> length cs"
      "fst (lath_remove t lid) = \<lparr>tree_root = normalize (replace_at n pp (Split d (remove_idx i cs)))\<rparr>"
      "snd (lath_remove t lid) = (True, Some (removal_token lid d cs i))"
proof -
  obtain p n where p: "find_leaf_path t lid = Some p" "tree_root t = Some n" "node_at n p = Some (Leaf lid)"
    using mem by (metis find_leaf_path_None find_leaf_path_SomeD option.exhaust)
  show thesis
  proof (cases "p = []")
    case True
    with p show thesis by (intro only) (auto simp: lath_remove_def)
  next
    case False
    obtain d cs where s: "node_at n (butlast p) = Some (Split d cs)" "last p < length cs" "fst (cs ! last p) = Leaf lid"
      using parent_split [OF p(3) False] by metis
    have "canon (Split d cs)" using wf_treeD [OF wf p(2)] s(1) canon_node_at by blast
    then have "2 \<le> length cs" by simp
    with s p False show thesis
      by (intro inner [of n "butlast p" "last p" d cs])
         (auto simp: lath_remove_def node_at_path_def removal_token_def Let_def)
  qed
qed

lemma lath_remove_ok_iff: "wf_tree t \<Longrightarrow> fst (snd (lath_remove t lid)) \<longleftrightarrow> lid \<in> set (leaves t)"
proof
  assume "fst (snd (lath_remove t lid))"
  then show "lid \<in> set (leaves t)"
    by (cases rule: find_leaf_cases [where t = t and lid = lid]) (auto simp: lath_remove_def split: option.splits)
next
  assume "wf_tree t" "lid \<in> set (leaves t)"
  then show "fst (snd (lath_remove t lid))" by (cases rule: lath_remove_cases) auto
qed

lemma lath_remove_absent: "lid \<notin> set (leaves t) \<Longrightarrow> lath_remove t lid = (t, False, None)"
  by (auto simp: lath_remove_def find_leaf_path_None [THEN iffD2] split: option.splits)

lemma filter_absent [simp]: "lid \<notin> set xs \<Longrightarrow> filter (\<lambda>l. l \<noteq> lid) xs = xs"
  by (induction xs) auto

lemma remove_leaf_once: "lid \<notin> set pre \<Longrightarrow> lid \<notin> set post \<Longrightarrow>
   filter (\<lambda>l. l \<noteq> lid) (pre @ [lid] @ post) = pre @ post"
  by simp

lemma lath_remove_accepted:
  assumes wf: "wf_tree t" and mem: "lid \<in> set (leaves t)"
  shows "wf_tree (fst (lath_remove t lid))"
    and "leaves (fst (lath_remove t lid)) = filter (\<lambda>l. l \<noteq> lid) (leaves t)"
proof -
  have "wf_tree (fst (lath_remove t lid)) \<and>
        leaves (fst (lath_remove t lid)) = filter (\<lambda>l. l \<noteq> lid) (leaves t)"
    using wf mem
  proof (cases rule: lath_remove_cases)
    case only
    then show ?thesis by (simp add: wf_tree_def leaves_def)
  next
    case (inner n pp i d cs)
    let ?new = "replace_at n pp (Split d (remove_idx i cs))"
    have n: "canon n" "distinct (node_leaves n)" using wf_treeD [OF wf inner(1)] by auto
    obtain pre post where pp: "node_leaves n = pre @ children_leaves cs @ post"
      "node_leaves ?new = pre @ children_leaves (remove_idx i cs) @ post"
      using leaves_replace [OF inner(3)] by (metis node_leaves_split)
    let ?a = "children_leaves (take i cs)" and ?b = "children_leaves (drop (Suc i) cs)"
    have cs: "children_leaves cs = ?a @ [lid] @ ?b"
      using children_leaves_nth_split [OF inner(4)] inner(5) by simp
    have rm: "children_leaves (remove_idx i cs) = ?a @ ?b" by (simp add: remove_idx_def)
    have all: "node_leaves n = (pre @ ?a) @ [lid] @ (?b @ post)" by (simp add: pp(1) cs)
    with n(2) have out: "lid \<notin> set (pre @ ?a)" "lid \<notin> set (?b @ post)" by auto
    have new: "node_leaves ?new = filter (\<lambda>l. l \<noteq> lid) (node_leaves n)"
      unfolding all remove_leaf_once [OF out] by (simp add: pp(2) rm)
    have "pos_weights (Split d cs)" using n(1) inner(3) canon_node_at canon_pos_weights by blast
    then have "pos_weights (Split d (remove_idx i cs))" using set_remove_idx by fastforce
    then have "pos_weights ?new" using canon_pos_weights [OF n(1)] by (intro pos_weights_replace)
    then have "wf_tree (fst (lath_remove t lid))"
      unfolding inner(7) using n(2) by (intro wf_tree_normalize) (auto simp: new)
    then show ?thesis using inner(1) by (simp add: inner(7) new leaves_def [of t])
  qed
  then show "wf_tree (fst (lath_remove t lid))"
    "leaves (fst (lath_remove t lid)) = filter (\<lambda>l. l \<noteq> lid) (leaves t)" by auto
qed

interpretation remove_op: lath_operation
  "\<lambda>lid t. (fst (lath_remove t lid), fst (snd (lath_remove t lid)))" "\<lambda>_. True"
proof unfold_locales
  fix x t assume "\<not> snd (fst (lath_remove t x), fst (snd (lath_remove t x)))"
  then show "fst (fst (lath_remove t x), fst (snd (lath_remove t x))) = t"
    by (auto simp: lath_remove_def Let_def case_prod_unfold split: option.splits if_splits)
next
  fix x t assume "wf_tree t" "snd (fst (lath_remove t x), fst (snd (lath_remove t x)))"
  then show "wf_tree (fst (fst (lath_remove t x), fst (snd (lath_remove t x))))"
    using lath_remove_ok_iff lath_remove_accepted(1) by auto
qed

section \<open>insert\<close>

lemma clamp_weight_range: "0 < clamp_weight w \<and> clamp_weight w < 1"
  by (auto simp: clamp_weight_def Let_def)

text \<open>Inserting a new leaf keeps the order of the others.\<close>

lemma grown_tree:
  assumes n: "tree_root t = Some n" and new: "lid \<notin> set (leaves t)" and wf: "distinct (node_leaves n)"
    and m: "pos_weights m" "node_leaves m = pre @ [lid] @ post" "node_leaves n = pre @ post"
  shows "wf_tree \<lparr>tree_root = normalize m\<rparr>"
    and "filter (\<lambda>l. l \<noteq> lid) (leaves \<lparr>tree_root = normalize m\<rparr>) = leaves t"
    and "lid \<in> set (leaves \<lparr>tree_root = normalize m\<rparr>)"
proof -
  have new': "lid \<notin> set pre" "lid \<notin> set post" using new n m(3) by (auto simp: leaves_def)
  show "filter (\<lambda>l. l \<noteq> lid) (leaves \<lparr>tree_root = normalize m\<rparr>) = leaves t"
    using n m(2,3) remove_leaf_once [OF new'] by (simp add: leaves_def [of t])
  have "distinct (node_leaves m)" using wf new' m by auto
  with m(1) show "wf_tree \<lparr>tree_root = normalize m\<rparr>" by (rule wf_tree_normalize)
  show "lid \<in> set (leaves \<lparr>tree_root = normalize m\<rparr>)" using m(2) by simp
qed

lemma insert_beside_node_spec:
  assumes wf: "wf_tree t" and target: "node_at_path t path = Some x"
    and new: "lid \<notin> set (leaves t)" and w: "0 < w" "w < 1"
  shows "wf_tree (insert_beside_node t path e lid w)"
    and "filter (\<lambda>l. l \<noteq> lid) (leaves (insert_beside_node t path e lid w)) = leaves t"
    and "lid \<in> set (leaves (insert_beside_node t path e lid w))"
proof -
  obtain n where n: "tree_root t = Some n" "node_at n path = Some x"
    using target by (auto simp: node_at_path_def split: option.splits)
  have canon: "canon n" "distinct (node_leaves n)" using wf_treeD [OF wf n(1)] by auto
  have new': "lid \<notin> set (node_leaves n)" using new n(1) by (simp add: leaves_def)
  have nest: "\<exists>pre post. pos_weights m \<and> node_leaves m = pre @ [lid] @ post \<and> node_leaves n = pre @ post"
    if m: "m = replace_at n path (beside e (Leaf lid, w) (x, 1 - w))" for m
  proof -
    obtain pre post where pp: "node_leaves n = pre @ node_leaves x @ post"
      "\<And>y. node_leaves (replace_at n path y) = pre @ node_leaves y @ post"
      using leaves_replace [OF n(2)] by blast
    have "pos_weights m" unfolding m
      using canon_pos_weights [OF canon(1)] canon_pos_weights [OF canon_node_at [OF canon(1) n(2)]] w
      by (intro pos_weights_replace pos_beside) auto
    moreover have "\<exists>p q. node_leaves m = p @ [lid] @ q \<and> node_leaves n = p @ q"
    proof (cases "edge_is_before e")
      case True
      then show ?thesis by (intro exI [of _ pre] exI [of _ "node_leaves x @ post"]) (simp add: m pp)
    next
      case False
      then show ?thesis by (intro exI [of _ "pre @ node_leaves x"] exI [of _ post]) (simp add: m pp)
    qed
    ultimately show ?thesis by blast
  qed
  have main: "\<exists>m pre post. insert_beside_node t path e lid w = \<lparr>tree_root = normalize m\<rparr> \<and>
      pos_weights m \<and> node_leaves m = pre @ [lid] @ post \<and> node_leaves n = pre @ post"
  proof (cases "path = []")
    case True
    with n have "x = n" by simp
    with True n nest [OF refl] show ?thesis
      by (intro exI [of _ "beside e (Leaf lid, w) (n, 1 - w)"]) (auto simp: insert_beside_node_def node_at_path_def)
  next
    case False
    obtain d cs where s: "node_at n (butlast path) = Some (Split d cs)" "last path < length cs" "fst (cs ! last path) = x"
      using parent_split [OF n(2) False] by metis
    show ?thesis
    proof (cases "d = edge_axis e")
      case False
      with s n \<open>path \<noteq> []\<close> nest [OF refl] show ?thesis
        by (intro exI [of _ "replace_at n path (beside e (Leaf lid, w) (x, 1 - w))"])
           (auto simp: insert_beside_node_def node_at_path_def Let_def)
    next
      case True
      define k where "k = (if edge_is_before e then last path else last path + 1)"
      let ?new = "Split d (normalize_weights (take k cs @ [(Leaf lid, w)] @ drop k cs))"
      let ?m = "replace_at n (butlast path) ?new"
      obtain pre post where pp: "node_leaves n = pre @ children_leaves cs @ post"
        "node_leaves ?m = pre @ node_leaves ?new @ post"
        using leaves_replace [OF s(1)] by (metis node_leaves_split)
      have "canon (Split d cs)" using canon(1) s(1) by (rule canon_node_at)
      then have good: "\<forall>c \<in> set (take k cs @ [(Leaf lid, w)] @ drop k cs). good_child d c"
        using w by (auto simp: canon_Split good_child_def simp del: canon.simps(2) dest: in_set_takeD in_set_dropD)
      have "pos_weights ?new"
        using good_child_normalize_weights [OF good] canon_pos_weights by (auto simp: good_child_def)
      then have "pos_weights ?m" using canon_pos_weights [OF canon(1)] by (intro pos_weights_replace)
      moreover have "node_leaves ?m = (pre @ children_leaves (take k cs)) @ [lid] @ (children_leaves (drop k cs) @ post)"
        unfolding pp(2) by simp
      moreover have "node_leaves n = (pre @ children_leaves (take k cs)) @ (children_leaves (drop k cs) @ post)"
        by (metis append.assoc append_take_drop_id children_leaves_simps(3) pp(1))
      moreover have "insert_beside_node t path e lid w = \<lparr>tree_root = normalize ?m\<rparr>"
        using n s \<open>path \<noteq> []\<close> True by (simp add: insert_beside_node_def node_at_path_def Let_def k_def)
      ultimately show ?thesis by blast
    qed
  qed
  then obtain m pre post where "insert_beside_node t path e lid w = \<lparr>tree_root = normalize m\<rparr>"
      "pos_weights m" "node_leaves m = pre @ [lid] @ post" "node_leaves n = pre @ post" by blast
  with grown_tree [OF n(1) new canon(2), of m pre post]
  show "wf_tree (insert_beside_node t path e lid w)"
    "filter (\<lambda>l. l \<noteq> lid) (leaves (insert_beside_node t path e lid w)) = leaves t"
    "lid \<in> set (leaves (insert_beside_node t path e lid w))" by auto
qed

lemma lath_insert_ok_iff:
  "snd (lath_insert t lid target w) \<longleftrightarrow>
   (\<exists>p e. target = DropEdge p e \<and> lid \<notin> set (leaves t) \<and> node_at_path t p \<noteq> None)"
  by (cases target; cases rule: find_leaf_cases [where t = t and lid = lid])
     (auto simp: lath_insert_def node_at_path_def leaves_def split: option.splits)

lemma lath_insert_rejected: "\<not> snd (lath_insert t lid target w) \<Longrightarrow> fst (lath_insert t lid target w) = t"
  by (auto simp: lath_insert_def split: drop_target.splits)

lemma lath_insert_accepted:
  assumes "wf_tree t" and ok: "snd (lath_insert t lid target w)"
  shows "wf_tree (fst (lath_insert t lid target w))"
    and "filter (\<lambda>l. l \<noteq> lid) (leaves (fst (lath_insert t lid target w))) = leaves t"
    and "lid \<in> set (leaves (fst (lath_insert t lid target w)))"
proof -
  obtain p e x where target: "target = DropEdge p e" and new: "lid \<notin> set (leaves t)"
    and x: "node_at_path t p = Some x"
    using ok by (auto simp: lath_insert_ok_iff)
  have "tree_root t \<noteq> None" using x by (cases "tree_root t") (auto simp: node_at_path_def)
  with target new x have res: "fst (lath_insert t lid target w) = insert_beside_node t p e lid (clamp_weight w)"
    by (auto simp: lath_insert_def find_leaf_path_None)
  note spec = insert_beside_node_spec [OF assms(1) x new clamp_weight_range [THEN conjunct1] clamp_weight_range [THEN conjunct2]]
  show "wf_tree (fst (lath_insert t lid target w))"
    "filter (\<lambda>l. l \<noteq> lid) (leaves (fst (lath_insert t lid target w))) = leaves t"
    "lid \<in> set (leaves (fst (lath_insert t lid target w)))"
    unfolding res by (rule spec)+
qed

interpretation insert_op: lath_operation "\<lambda>(lid, target, w) t. lath_insert t lid target w" "\<lambda>_. True"
  by unfold_locales (auto simp: lath_insert_rejected lath_insert_accepted(1))

end
