(* ===== verification/Lath_Restore.thy ===== *)
theory Lath_Restore
  imports Lath_Restructure
begin

text \<open>
  Searching by leaf set and by fingerprint, and the operations that build on the search: move,
  resize and restore, with the round trip of remove and restore.
\<close>

section \<open>Searching\<close>

lemma better_path_cases:
  "better_path target s path result = Some p \<Longrightarrow> result = Some p \<or> (p = path \<and> s = target)"
  by (auto simp: better_path_def split: if_splits)

lemma leaf_set_walk_sound:
  "fst (leaf_set_walk target n path result) = set (node_leaves n) \<and>
   (snd (leaf_set_walk target n path result) = Some p \<longrightarrow> result = Some p \<or>
     (\<exists>q x. p = path @ q \<and> node_at n q = Some x \<and> set (node_leaves x) = target))"
  "fst (leaf_set_children target i cs path s result) = s \<union> set (children_leaves cs) \<and>
   (snd (leaf_set_children target i cs path s result) = Some p \<longrightarrow> result = Some p \<or>
     (\<exists>j q x. p = path @ (i + j) # q \<and> j < length cs \<and> node_at (fst (cs ! j)) q = Some x \<and>
        set (node_leaves x) = target))"
proof (induction target n path result and target i cs path s result
       rule: leaf_set_walk_leaf_set_children.induct)
  case (1 target lid path result)
  then show ?case by (auto dest!: better_path_cases)
next
  case (2 target d cs path result)
  let ?w = "leaf_set_children target 0 cs path {} result"
  have "leaf_set_walk target (Split d cs) path result = (fst ?w, better_path target (fst ?w) path (snd ?w))"
    by (simp add: Let_def case_prod_unfold)
  moreover have "\<exists>q x. p = path @ q \<and> node_at (Split d cs) q = Some x \<and> set (node_leaves x) = target"
    if "p = path @ j # q" "j < length cs" "node_at (fst (cs ! j)) q = Some x" "set (node_leaves x) = target"
    for j q x
    using that by (intro exI [of _ "j # q"] exI [of _ x]) auto
  moreover have "\<exists>q x. path = path @ q \<and> node_at (Split d cs) q = Some x \<and> set (node_leaves x) = target"
    if "set (children_leaves cs) = target"
    using that by (intro exI [of _ "[]"] exI [of _ "Split d cs"]) auto
  ultimately show ?case using "2.IH" by (auto dest!: better_path_cases) 
next
  case (3 target i path s result)
  then show ?case by simp
next
  case (4 target i c w cs path s result)
  let ?w = "leaf_set_walk target c (path @ [i]) result"
  let ?r = "leaf_set_children target (Suc i) cs path (s \<union> fst ?w) (snd ?w)"
  have eq: "leaf_set_children target i ((c, w) # cs) path s result = ?r"
    by (simp add: Let_def case_prod_unfold)
  have ih2: "fst ?r = (s \<union> fst ?w) \<union> set (children_leaves cs) \<and>
    (snd ?r = Some p \<longrightarrow> snd ?w = Some p \<or>
     (\<exists>j q x. p = path @ (Suc i + j) # q \<and> j < length cs \<and> node_at (fst (cs ! j)) q = Some x \<and>
        set (node_leaves x) = target))"
    using "4.IH"(2) [of ?w "fst ?w" "snd ?w"] by simp
  have "\<exists>j q x. p = path @ (i + j) # q \<and> j < length ((c, w) # cs) \<and>
      node_at (fst (((c, w) # cs) ! j)) q = Some x \<and> set (node_leaves x) = target"
    if "p = path @ (Suc i + k) # q" "k < length cs" "node_at (fst (cs ! k)) q = Some x" "set (node_leaves x) = target"
    for k q x
    using that by (intro exI [of _ "Suc k"] exI [of _ q] exI [of _ x]) auto
  moreover have "\<exists>j q x. p = path @ (i + j) # q \<and> j < length ((c, w) # cs) \<and>
      node_at (fst (((c, w) # cs) ! j)) q = Some x \<and> set (node_leaves x) = target"
    if "p = (path @ [i]) @ q" "node_at c q = Some x" "set (node_leaves x) = target" for q x
    using that by (intro exI [of _ 0] exI [of _ q] exI [of _ x]) auto
  ultimately show ?case unfolding eq using ih2 "4.IH"(1) by auto
qed

lemma find_path_by_leaf_set_sound:
  assumes "find_path_by_leaf_set t target = Some p"
  obtains x where "node_at_path t p = Some x" "set (node_leaves x) = target"
proof -
  obtain n where "tree_root t = Some n" "snd (leaf_set_walk target n [] None) = Some p"
    using assms by (auto simp: find_path_by_leaf_set_def split: if_splits option.splits)
  then show thesis
    using leaf_set_walk_sound(1) [of target n "[]" None p] that by (auto simp: node_at_path_def)
qed

lemma find_fp_sound:
  "find_fp_node fp n = Some p \<Longrightarrow>
   \<exists>d cs. node_at n p = Some (Split d cs) \<and> structure_fingerprint (Split d cs) = fp"
  "find_fp_children fp i cs = Some q \<Longrightarrow>
   \<exists>j p d ds. q = (i + j) # p \<and> j < length cs \<and> node_at (fst (cs ! j)) p = Some (Split d ds) \<and>
      structure_fingerprint (Split d ds) = fp"
proof (induction fp n and fp i cs arbitrary: p and q rule: find_fp_node_find_fp_children.induct)
  case (2 fp d cs)
  then show ?case by (fastforce split: if_splits)
next
  case (4 fp i c w cs)
  show ?case
  proof (cases "find_fp_node fp c")
    case None
    with "4.prems" "4.IH"(2) obtain j p d ds where
      "q = (Suc i + j) # p" "j < length cs" "node_at (fst (cs ! j)) p = Some (Split d ds)"
      "structure_fingerprint (Split d ds) = fp"
      by auto
    then show ?thesis by (intro exI [of _ "Suc j"] exI [of _ p] exI [of _ d] exI [of _ ds]) auto
  next
    case (Some p)
    with "4.prems" "4.IH"(1) show ?thesis by fastforce
  qed
qed simp_all

lemma find_fp_complete:
  "node_at n p = Some (Split d ds) \<Longrightarrow> structure_fingerprint (Split d ds) = fp \<Longrightarrow> find_fp_node fp n \<noteq> None"
proof (induction n p rule: node_at.induct)
  case (3 e cs i p)
  have "find_fp_children fp k cs' \<noteq> None" if "c \<in> set cs'" "find_fp_node fp (fst c) \<noteq> None" for c cs' k
    using that by (induction cs' arbitrary: k) (auto split: option.splits)
  then have "find_fp_children fp 0 cs \<noteq> None"
    using 3 by (metis nth_mem option.distinct(1) node_at.simps(3))
  then show ?case by auto
qed auto

text \<open>In a canonical tree a leaf set belongs to one node only.\<close>

lemma length_leaves_pos: "canon n \<Longrightarrow> 0 < length (node_leaves n)"
  using node_leaves_nonempty by auto

lemma shorter_child:
  assumes "canon (Split d cs)" and i: "i < length cs"
  shows "length (node_leaves (fst (cs ! i))) < length (children_leaves cs)"
proof -
  have pos: "0 < length (node_leaves (fst c))" if "c \<in> set cs" for c
    using assms(1) that length_leaves_pos by auto
  have "take i cs @ drop (Suc i) cs \<noteq> []" using assms by (cases i) auto
  then obtain c where "c \<in> set (take i cs @ drop (Suc i) cs)" by (metis last_in_set)
  then have c: "c \<in> set cs" "c \<in> set (take i cs) \<or> c \<in> set (drop (Suc i) cs)"
    by (auto dest: in_set_takeD in_set_dropD)
  have "length (node_leaves (fst c)) \<le> length (children_leaves xs)" if "c \<in> set xs" for xs
    using that by (induction xs) auto
  with c pos [OF c(1)] have "0 < length (children_leaves (take i cs)) + length (children_leaves (drop (Suc i) cs))"
    by fastforce
  then show ?thesis using children_leaves_nth_split [OF i] by simp
qed

lemma shorter_below: "canon n \<Longrightarrow> node_at n q = Some y \<Longrightarrow> length (node_leaves y) \<le> length (node_leaves n)"
  by (erule leaves_replace) simp

lemma unique_leaf_set:
  "canon n \<Longrightarrow> distinct (node_leaves n) \<Longrightarrow> node_at n p = Some x \<Longrightarrow> node_at n q = Some y \<Longrightarrow>
   node_leaves x = node_leaves y \<Longrightarrow> p = q"
proof (induction n p arbitrary: q rule: node_at.induct)
  case (1 n)
  show ?case
  proof (cases q)
    case (Cons j q')
    with 1 obtain d cs where n: "n = Split d cs" "j < length cs" "node_at (fst (cs ! j)) q' = Some y"
      by (cases n) (auto split: if_splits)
    have "canon (fst (cs ! j))" using 1(1) n by auto
    then have "length (node_leaves y) \<le> length (node_leaves (fst (cs ! j)))" using n(3) shorter_below by blast
    also have "\<dots> < length (node_leaves n)" using shorter_child [of d cs j] 1(1) n by simp
    finally show ?thesis using 1 by simp
  qed simp
next
  case (2 lid i p)
  then show ?case by simp
next
  case (3 d cs i p)
  have i: "i < length cs" "node_at (fst (cs ! i)) p = Some x" using "3.prems" by (auto split: if_splits)
  have canon_i: "canon (fst (cs ! i))" using "3.prems"(1) i(1) by auto
  have x: "set (node_leaves x) \<subseteq> set (node_leaves (fst (cs ! i)))" "node_leaves x \<noteq> []"
    using set_leaves_node_at [OF i(2)] node_leaves_nonempty [OF canon_node_at [OF canon_i i(2)]] by auto
  show ?case
  proof (cases q)
    case Nil
    then have "length (node_leaves y) = length (children_leaves cs)" using "3.prems" by auto
    moreover have "length (node_leaves x) \<le> length (node_leaves (fst (cs ! i)))"
      using shorter_below [OF canon_i i(2)] .
    ultimately show ?thesis using shorter_child [OF "3.prems"(1) i(1)] "3.prems"(5) by simp
  next
    case (Cons j q')
    have j: "j < length cs" "node_at (fst (cs ! j)) q' = Some y" using "3.prems" Cons by (auto split: if_splits)
    have "j = i"
    proof (rule ccontr)
      assume "j \<noteq> i"
      obtain l where "l \<in> set (node_leaves x)" using x(2) by (cases "node_leaves x") auto
      moreover from this have "l \<in> set (node_leaves (fst (cs ! j)))"
        using set_leaves_node_at [OF j(2)] "3.prems"(5) by auto
      ultimately show False
        using distinct_children_nth [of cs j i l] "3.prems"(2) x(1) i(1) j(1) \<open>j \<noteq> i\<close> by auto
    qed
    with "3.IH" [OF i(1) canon_i distinct_child i(2)] "3.prems"(2,5) i(1) j(2) Cons show ?thesis by auto
  qed
qed

section \<open>move\<close>

lemma lath_move_swap [simp]: "lath_move t lid (DropSwap l) = lath_swap t lid l"
  by (simp add: lath_move_def)

definition moved_weight :: "lath_tree \<Rightarrow> nat list \<Rightarrow> js_num" where
  "moved_weight t id_path =
     (if id_path = [] then 1
      else snd (snd (as_split (node_at_path t (butlast id_path))) ! last id_path))"

lemma node_at_path_wf: "wf_tree t \<Longrightarrow> node_at_path t p = Some x \<Longrightarrow> canon x \<and> distinct (node_leaves x) \<and>
   set (node_leaves x) \<subseteq> set (leaves t)"
proof -
  assume "wf_tree t" "node_at_path t p = Some x"
  then obtain n where n: "tree_root t = Some n" "node_at n p = Some x" "canon n" "distinct (node_leaves n)"
    by (auto simp: node_at_path_def wf_tree_def split: option.splits)
  obtain pre post where "node_leaves n = pre @ node_leaves x @ post"
    using leaves_replace [OF n(2)] by blast
  with n show ?thesis using canon_node_at by (auto simp: leaves_def)
qed

text \<open>
  An edge drop is accepted exactly when the leaf and the target exist and the target is not the
  leaf itself: the re-found insertion path always exists in the tree without the leaf.
\<close>

lemma lath_move_edge:
  assumes wf: "wf_tree t" and lid: "find_leaf_path t lid = Some id_path"
    and x: "node_at_path t tpath = Some x" and other: "node_leaves x \<noteq> [lid]"
  obtains p where
    "lath_move t lid (DropEdge tpath e) =
       lath_insert (fst (lath_remove t lid)) lid (DropEdge p e) (moved_weight t id_path)"
    "snd (lath_insert (fst (lath_remove t lid)) lid (DropEdge p e) (moved_weight t id_path))"
proof -
  let ?t2 = "fst (lath_remove t lid)" and ?sv = "filter (\<lambda>l. l \<noteq> lid) (node_leaves x)"
  have mem: "lid \<in> set (leaves t)" using lid by (metis find_leaf_path_None option.distinct(1))
  have t2: "wf_tree ?t2" "leaves ?t2 = filter (\<lambda>l. l \<noteq> lid) (leaves t)"
    using lath_remove_accepted [OF wf mem] by auto
  have xs: "canon x" "distinct (node_leaves x)" "set (node_leaves x) \<subseteq> set (leaves t)"
    using node_at_path_wf [OF wf x] by auto
  have "?sv \<noteq> []"
  proof
    assume "?sv = []"
    then have "set (node_leaves x) \<subseteq> {lid}" by (auto simp: filter_empty_conv)
    with xs(1,2) other node_leaves_nonempty show False
      by (cases "node_leaves x") (auto simp: subset_singleton_iff)
  qed
  then obtain anchor rest where sv: "?sv = anchor # rest" by (cases ?sv) auto
  then have "anchor \<in> set ?sv" by simp
  with xs(3) t2(2) have anchor: "anchor \<in> set (leaves ?t2)" by auto
  obtain ap where ap: "find_leaf_path ?t2 anchor = Some ap" "node_at_path ?t2 ap \<noteq> None"
  proof (cases rule: find_leaf_cases [where t = ?t2 and lid = anchor])
    case absent
    with anchor show ?thesis by simp
  next
    case (present p n)
    from present(1) obtain m where "tree_root ?t2 = Some m" "node_at m p = Some (Leaf anchor)"
      by (rule find_leaf_path_SomeD)
    with present(1) show ?thesis by (intro that [of p]) (auto simp: node_at_path_def)
  qed
  define p where "p = (case find_path_by_leaf_set ?t2 (set ?sv) of Some p \<Rightarrow> p | None \<Rightarrow> ap)"
  have p: "node_at_path ?t2 p \<noteq> None"
    using ap(2) by (auto simp: p_def split: option.splits elim: find_path_by_leaf_set_sound)
  then have ok: "snd (lath_insert ?t2 lid (DropEdge p e) w)" for w
    using t2(2) by (auto simp: lath_insert_ok_iff)
  have path: "(case find_path_by_leaf_set ?t2 (set ?sv) of Some p \<Rightarrow> Some p
     | None \<Rightarrow> (case ?sv of [] \<Rightarrow> None | anchor # _ \<Rightarrow> find_leaf_path ?t2 anchor)) = Some p"
    by (simp add: p_def sv ap(1) split: option.splits)
  have "lath_move t lid (DropEdge tpath e) = lath_insert ?t2 lid (DropEdge p e) (moved_weight t id_path)"
    unfolding lath_move_def drop_target.case Let_def lid x option.case leaves_tree_of moved_weight_def [symmetric]
    using other by (simp only: path option.case ok if_True if_False)
  with ok show thesis by (intro that) auto
qed

lemma lath_move_edge_ok_iff:
  assumes "wf_tree t"
  shows "snd (lath_move t lid (DropEdge tpath e)) \<longleftrightarrow>
    lid \<in> set (leaves t) \<and> (\<exists>x. node_at_path t tpath = Some x \<and> node_leaves x \<noteq> [lid])"
proof (cases rule: find_leaf_cases [where t = t and lid = lid])
  case absent
  then show ?thesis by (simp add: lath_move_def)
next
  case (present p n)
  show ?thesis
  proof (cases "\<exists>x. node_at_path t tpath = Some x \<and> node_leaves x \<noteq> [lid]")
    case True
    then show ?thesis using lath_move_edge [OF assms present(1)] present(3) by metis
  next
    case False
    with present(1) show ?thesis by (auto simp: lath_move_def Let_def split: option.splits)
  qed
qed

lemma lath_move_rejected: "\<not> snd (lath_move t lid target) \<Longrightarrow> fst (lath_move t lid target) = t"
  by (cases target) (auto simp: lath_move_def lath_swap_rejected Let_def split: option.splits)

lemma lath_move_edge_accepted:
  assumes wf: "wf_tree t" and ok: "snd (lath_move t lid (DropEdge tpath e))"
  shows "wf_tree (fst (lath_move t lid (DropEdge tpath e)))"
    and "filter (\<lambda>l. l \<noteq> lid) (leaves (fst (lath_move t lid (DropEdge tpath e)))) =
         filter (\<lambda>l. l \<noteq> lid) (leaves t)"
    and "lid \<in> set (leaves (fst (lath_move t lid (DropEdge tpath e))))"
proof -
  obtain x where mem: "lid \<in> set (leaves t)" and x: "node_at_path t tpath = Some x" "node_leaves x \<noteq> [lid]"
    using ok lath_move_edge_ok_iff [OF wf] by auto
  then obtain ip where "find_leaf_path t lid = Some ip" by (metis find_leaf_path_None option.exhaust)
  from lath_move_edge [OF wf this x] obtain p where
    eq: "lath_move t lid (DropEdge tpath e) =
       lath_insert (fst (lath_remove t lid)) lid (DropEdge p e) (moved_weight t ip)" by metis
  note rm = lath_remove_accepted [OF wf mem]
  note ins = lath_insert_accepted [OF rm(1) ok [unfolded eq]]
  show "wf_tree (fst (lath_move t lid (DropEdge tpath e)))"
    "filter (\<lambda>l. l \<noteq> lid) (leaves (fst (lath_move t lid (DropEdge tpath e)))) = filter (\<lambda>l. l \<noteq> lid) (leaves t)"
    "lid \<in> set (leaves (fst (lath_move t lid (DropEdge tpath e))))"
    unfolding eq using ins rm(2) by auto
qed

lemma lath_move_wf:
  "wf_tree t \<Longrightarrow> snd (lath_move t lid target) \<Longrightarrow> wf_tree (fst (lath_move t lid target))"
proof (cases target)
  case (DropSwap l)
  assume "wf_tree t" "snd (lath_move t lid target)"
  then show ?thesis by (simp add: DropSwap lath_move_def lath_swap_accepted)
qed (simp add: lath_move_edge_accepted)

interpretation move_op: lath_operation "\<lambda>(lid, target) t. lath_move t lid target" "\<lambda>_. True"
  by unfold_locales (auto simp: lath_move_rejected lath_move_wf)

section \<open>resize\<close>

lemma resized_weight_range:
  "0 < pair \<Longrightarrow> 0 < resized_weight wa pair ma mb dl \<and> resized_weight wa pair ma mb dl < pair"
  by (auto simp: resized_weight_def Let_def)

lemma sum_list_map_upd:
  fixes f :: "'a \<Rightarrow> js_num"
  shows "i < length xs \<Longrightarrow> sum_list (map f (xs[i := y])) = sum_list (map f xs) - f (xs ! i) + f y"
  by (simp add: map_update sum_list_upd)

text \<open>Moving weight between two neighbors is a canonical split with the same children.\<close>

lemma canon_resized:
  assumes "canon (Split d cs)" and "Suc a < length cs"
    and "0 < wa" and "0 < wb" and sum: "wa + wb = snd (cs ! a) + snd (cs ! Suc a)"
  shows "canon (Split d ((cs[a := (fst (cs ! a), wa)])[Suc a := (fst (cs ! Suc a), wb)]))"
    and "children_leaves ((cs[a := (fst (cs ! a), wa)])[Suc a := (fst (cs ! Suc a), wb)]) = children_leaves cs"
proof -
  let ?ds = "(cs[a := (fst (cs ! a), wa)])[Suc a := (fst (cs ! Suc a), wb)]"
  have "map fst ?ds = map fst cs"
    using assms(2) by (simp add: map_update) (metis Suc_lessD list_update_id nth_map)
  then show "children_leaves ?ds = children_leaves cs" by (rule children_leaves_cong)
  have "sum_list (map snd ?ds) = sum_list (map snd cs)"
    using assms(2) sum by (simp add: sum_list_map_upd)
  moreover have "good_child d (fst (cs ! a), wa)" "good_child d (fst (cs ! Suc a), wb)"
    using assms by (auto simp: good_child_def)
  ultimately show "canon (Split d ?ds)"
    using assms(1) by (auto simp: canon_Split simp del: canon.simps dest!: set_update_cases)
qed

lemma lath_resize_rejected: "\<not> snd (lath_resize t p bnd dl r o') \<Longrightarrow> fst (lath_resize t p bnd dl r o') = t"
  by (auto simp: lath_resize_def Let_def split: option.splits lath_node.splits)

text \<open>An accepted resize rewrites the two weights and nothing else.\<close>

lemma lath_resize_accepted:
  assumes wf: "wf_tree t" and ok: "snd (lath_resize t p bnd dl r o')"
  obtains n d cs wa where "tree_root t = Some n" "node_at n p = Some (Split d cs)"
    "0 \<le> bnd" "nat bnd + 1 < length cs" "0 < wa" "wa < snd (cs ! nat bnd) + snd (cs ! (nat bnd + 1))"
    "canon (replace_at n p (Split d ((cs[nat bnd := (fst (cs ! nat bnd), wa)])
        [nat bnd + 1 := (fst (cs ! (nat bnd + 1)), snd (cs ! nat bnd) + snd (cs ! (nat bnd + 1)) - wa)])))"
    "fst (lath_resize t p bnd dl r o') = tree_of (replace_at n p (Split d ((cs[nat bnd := (fst (cs ! nat bnd), wa)])
        [nat bnd + 1 := (fst (cs ! (nat bnd + 1)), snd (cs ! nat bnd) + snd (cs ! (nat bnd + 1)) - wa)])))"
proof -
  obtain n where n: "tree_root t = Some n" using ok by (auto simp: lath_resize_def split: option.splits)
  obtain d cs where s: "node_at n p = Some (Split d cs)"
    using ok n by (auto simp: lath_resize_def node_at_path_def split: option.splits lath_node.splits)
  let ?a = "nat bnd" let ?pair = "snd (cs ! ?a) + snd (cs ! (?a + 1))"
  have b: "0 \<le> bnd" "bnd < int (length cs) - 1"
    using ok n s by (auto simp: lath_resize_def node_at_path_def split: if_splits)
  then have len: "?a + 1 < length cs" by linarith
  obtain avail wa where wa: "wa = resized_weight (snd (cs ! ?a)) ?pair
        (min_span (fst (cs ! ?a)) d o' / avail) (min_span (fst (cs ! (?a + 1))) d o' / avail) (dl / avail)"
    "fst (lath_resize t p bnd dl r o') = \<lparr>tree_root = normalize (replace_at n p
        (Split d ((cs[?a := (fst (cs ! ?a), wa)])[?a + 1 := (fst (cs ! (?a + 1)), ?pair - wa)])))\<rparr>"
    using ok n s b by (auto simp: lath_resize_def node_at_path_def Let_def split: option.splits if_splits)
  have canon: "canon n" using wf_treeD [OF wf n] by blast
  note canon = this canon_node_at [OF this s]
  then have "0 < snd (cs ! ?a)" "0 < snd (cs ! (?a + 1))" using len by auto
  then have pair: "0 < wa" "wa < ?pair" using resized_weight_range [of ?pair] wa(1) by auto
  let ?ds = "(cs[?a := (fst (cs ! ?a), wa)])[?a + 1 := (fst (cs ! (?a + 1)), ?pair - wa)]"
  have "canon (Split d ?ds)" using canon_resized(1) [OF canon(2), of ?a wa "?pair - wa"] len pair by simp
  with canon(1) s have "canon (replace_at n p (Split d ?ds))" using canon_replace by simp
  with wa(2) n s b(1) len pair show thesis by (intro that [of n d cs wa]) auto
qed

lemma lath_resize_wf:
  assumes wf: "wf_tree t" and ok: "snd (lath_resize t p bnd dl r o')"
  shows "wf_tree (fst (lath_resize t p bnd dl r o'))" and "leaves (fst (lath_resize t p bnd dl r o')) = leaves t"
proof -
  obtain n d cs wa where r: "tree_root t = Some n" "node_at n p = Some (Split d cs)"
    "0 \<le> bnd" "nat bnd + 1 < length cs" "0 < wa" "wa < snd (cs ! nat bnd) + snd (cs ! (nat bnd + 1))"
    "canon (replace_at n p (Split d ((cs[nat bnd := (fst (cs ! nat bnd), wa)])
        [nat bnd + 1 := (fst (cs ! (nat bnd + 1)), snd (cs ! nat bnd) + snd (cs ! (nat bnd + 1)) - wa)])))"
    "fst (lath_resize t p bnd dl r o') = tree_of (replace_at n p (Split d ((cs[nat bnd := (fst (cs ! nat bnd), wa)])
        [nat bnd + 1 := (fst (cs ! (nat bnd + 1)), snd (cs ! nat bnd) + snd (cs ! (nat bnd + 1)) - wa)])))"
    using lath_resize_accepted [OF assms] by metis
  let ?pair = "snd (cs ! nat bnd) + snd (cs ! (nat bnd + 1))"
  let ?ds = "(cs[nat bnd := (fst (cs ! nat bnd), wa)])[nat bnd + 1 := (fst (cs ! (nat bnd + 1)), ?pair - wa)]"
  have "canon n" using wf_treeD [OF wf r(1)] by simp
  then have "canon (Split d cs)" using r(2) canon_node_at by blast
  then have "children_leaves ?ds = children_leaves cs"
    using canon_resized(2) [of d cs "nat bnd" wa "?pair - wa"] r(4-6) by simp
  then have "node_leaves (replace_at n p (Split d ?ds)) = node_leaves n"
    using leaves_replace [OF r(2)] by (metis node_leaves_split)
  then show "wf_tree (fst (lath_resize t p bnd dl r o'))" "leaves (fst (lath_resize t p bnd dl r o')) = leaves t"
    using r wf_treeD [OF wf r(1)] by (auto simp: wf_tree_def leaves_def)
qed

interpretation resize_op: lath_operation "\<lambda>(p, bnd, dl, r, o') t. lath_resize t p bnd dl r o'" "\<lambda>_. True"
  by unfold_locales (auto simp: lath_resize_rejected lath_resize_wf)

end
