(* ===== verification/Lath_Roundtrip.thy ===== *)
theory Lath_Roundtrip
  imports Lath_Restore
begin

text \<open>
  Restore: it always yields a well-formed tree holding the leaf, it keeps the order of the leaves
  that stayed, and it undoes remove exactly while the parent of the leaf keeps two children.
\<close>

section \<open>Restore keeps the tree well formed\<close>

text \<open>A restored leaf joins the tree; the others keep their order.\<close>

definition grows :: "lath_tree \<Rightarrow> leaf_id \<Rightarrow> lath_tree \<Rightarrow> bool" where
  "grows t lid t' \<longleftrightarrow> wf_tree t' \<and> filter (\<lambda>l. l \<noteq> lid) (leaves t') = leaves t \<and> lid \<in> set (leaves t')"

lemma grows_split:
  assumes wf: "wf_tree t" and ok: "snd (lath_split t a e lid)"
  shows "grows t lid (fst (lath_split t a e lid))"
proof -
  have ne: "lid \<notin> set (leaves t)" "a \<in> set (leaves t)" using ok by (auto simp: lath_split_ok_iff)
  have "filter (\<lambda>l. l \<noteq> lid) (concat (map (\<lambda>l. if l = a then (if edge_is_before e then [lid, a] else [a, lid])
        else [l]) xs)) = xs" if "lid \<notin> set xs" for xs
    using that by (induction xs) auto
  with ne lath_split_accepted [OF assms] show ?thesis by (auto simp: grows_def)
qed

lemma grows_insert: "wf_tree t \<Longrightarrow> snd (lath_insert t lid target w) \<Longrightarrow> grows t lid (fst (lath_insert t lid target w))"
  using lath_insert_accepted by (auto simp: grows_def)

lemma grows_restore_parent:
  assumes wf: "wf_tree t" and n: "tree_root t = Some n" and new: "tok_leaf_id tok \<notin> set (leaves t)"
    and w: "0 < tok_weight tok" "tok_weight tok < 1"
    and path: "node_at n pp = Some (Split d cs)"
  shows "grows t (tok_leaf_id tok) (restore_parent t n pp tok)"
proof -
  define sc where "sc = map (\<lambda>c. (fst c, snd c * (1 - tok_weight tok))) cs"
  define k where "k = nat (min (max (tok_index tok) 0) (int (length sc)))"
  define ds where "ds = take k sc @ [(Leaf (tok_leaf_id tok), tok_weight tok)] @ drop k sc"
  have eq: "restore_parent t n pp tok = \<lparr>tree_root = normalize (replace_at n pp (Split d (normalize_weights ds)))\<rparr>"
    by (simp add: restore_parent_def node_at_path_def n path sc_def k_def ds_def Let_def)
  have cn: "canon n" "distinct (node_leaves n)" using wf_treeD [OF wf n] by auto
  have "canon (Split d cs)" using canon_node_at [OF cn(1) path] .
  then have good: "pos_weights (fst c) \<and> 0 < snd c" if "c \<in> set sc" for c
    using that w canon_pos_weights by (auto simp: sc_def)
  then have "\<forall>c \<in> set ds. pos_weights (fst c) \<and> 0 < snd c"
    using w by (auto simp: ds_def dest!: in_set_takeD in_set_dropD)
  then have "pos_weights (Split d (normalize_weights ds))"
    using pos_normalize_weights [of ds] fst_normalize_weights [of _ ds] by fastforce
  then have pos: "pos_weights (replace_at n pp (Split d (normalize_weights ds)))"
    using canon_pos_weights [OF cn(1)] by (intro pos_weights_replace)
  obtain pre post where pp: "node_leaves n = pre @ children_leaves cs @ post"
    "\<And>y. node_leaves (replace_at n pp y) = pre @ node_leaves y @ post"
    using leaves_replace [OF path] by (metis node_leaves_split)
  have "children_leaves cs = children_leaves (take k sc @ drop k sc)"
    by (rule children_leaves_cong) (simp add: sc_def comp_def)
  then have cs: "children_leaves cs = children_leaves (take k sc) @ children_leaves (drop k sc)"
    by (simp only: children_leaves_simps)
  have "node_leaves (replace_at n pp (Split d (normalize_weights ds))) =
      (pre @ children_leaves (take k sc)) @ [tok_leaf_id tok] @ (children_leaves (drop k sc) @ post)"
    unfolding pp(2) by (simp add: ds_def del: append_take_drop_id)
  from grown_tree [OF n new cn(2) pos this] show ?thesis
    by (simp add: eq grows_def pp(1) cs)
qed

lemma grows_restore_sibling:
  assumes "wf_tree t" and "restore_sibling t tok = Some t'"
  shows "grows t (tok_leaf_id tok) t'"
  using assms by (auto simp: restore_sibling_def Let_def intro: grows_insert split: option.splits if_splits)

lemma restored_parent_path:
  assumes "tree_root t = Some n" and "find_split_path_by_fingerprint t fp = Some pp"
  obtains d cs where "node_at n pp = Some (Split d cs)" "structure_fingerprint (Split d cs) = fp"
  using assms find_fp_sound(1) by (fastforce simp: find_split_path_by_fingerprint_def)

lemma grows_restore_exact:
  assumes "wf_tree t" and "tree_root t = Some n" and "tok_leaf_id tok \<notin> set (leaves t)"
    and "0 < tok_weight tok" and "tok_weight tok < 1" and "restore_exact t n tok = Some t'"
  shows "grows t (tok_leaf_id tok) t'"
proof -
  obtain sid fp where tok: "tok_sibling_id tok = Some sid" "tok_fingerprint tok = Some fp"
    using assms(6) by (auto simp: restore_exact_def split: option.splits)
  show ?thesis
  proof (cases "find_split_path_by_fingerprint t fp")
    case None
    with tok assms show ?thesis by (auto simp: restore_exact_def intro: grows_restore_sibling)
  next
    case (Some pp)
    moreover obtain d cs where "node_at n pp = Some (Split d cs)"
      using restored_parent_path [OF assms(2) Some] by metis
    ultimately show ?thesis
      using tok assms grows_restore_parent [of t n tok pp d cs] by (auto simp: restore_exact_def)
  qed
qed

text \<open>
  A token that names no sibling or no parent, such as the one closing the last pane leaves, is not
  restored at its weight; any other is good when its weight lies strictly between 0 and 1.
\<close>

definition good_token :: "restore_token \<Rightarrow> bool" where
  "good_token tok \<longleftrightarrow> tok_sibling_id tok = None \<or> tok_fingerprint tok = None \<or>
     0 < tok_weight tok \<and> tok_weight tok < 1"

lemma grows_restore:
  assumes wf: "wf_tree t" and w: "good_token tok"
    and ok: "fst (snd (lath_restore t tok opts))"
  shows "grows t (tok_leaf_id tok) (fst (lath_restore t tok opts))"
proof (cases rule: find_leaf_cases [where t = t and lid = "tok_leaf_id tok"])
  case present
  with ok show ?thesis by (simp add: lath_restore_def)
next
  case absent
  show ?thesis
  proof (cases "tree_root t")
    case None
    with absent show ?thesis
      by (auto simp: lath_restore_def grows_def wf_tree_def leaf_tree_def leaves_def)
  next
    case (Some n)
    have neighbor: "grows t (tok_leaf_id tok) t'" if "restore_neighbor t tok = Some t'" for t'
      using that wf by (auto simp: restore_neighbor_def Let_def intro: grows_split split: option.splits if_splits)
    have fallback: "grows t (tok_leaf_id tok) t'" if "restore_fallback t tok opts = Some t'" for t'
      using that wf by (auto simp: restore_fallback_def Let_def intro: grows_split split: option.splits if_splits)
    have exact: "grows t (tok_leaf_id tok) t'" if "restore_exact t n tok = Some t'" for t'
      using that w grows_restore_exact [OF wf Some absent(2), of t']
      by (auto simp: good_token_def restore_exact_def split: option.splits)
    show ?thesis
      using ok absent(1) Some neighbor fallback exact
      by (auto simp: lath_restore_def split: option.splits)
  qed
qed

lemma lath_restore_rejected:
  "\<not> fst (snd (lath_restore t tok opts)) \<Longrightarrow> fst (lath_restore t tok opts) = t"
  by (auto simp: lath_restore_def split: option.splits)

interpretation restore_op: lath_operation
  "\<lambda>(tok, opts) t. (fst (lath_restore t tok opts), fst (snd (lath_restore t tok opts)))"
  "\<lambda>(tok, opts). good_token tok"
  using grows_restore by unfold_locales (auto simp: lath_restore_rejected grows_def)

lemma single_weight: "sum_list ws = (1 :: js_num) \<Longrightarrow> \<forall>w \<in> set ws. 0 < w \<Longrightarrow> 2 \<le> length ws \<Longrightarrow>
  i < length ws \<Longrightarrow> ws ! i < 1"
proof -
  assume ws: "sum_list ws = 1" "\<forall>w \<in> set ws. 0 < w" "2 \<le> length ws" "i < length ws"
  let ?rest = "take i ws @ drop (Suc i) ws"
  have "sum_list ws = ws ! i + sum_list ?rest"
    using arg_cong [OF id_take_nth_drop [OF ws(4)], of sum_list] by simp
  moreover have "0 < sum_list ?rest"
  proof -
    have "?rest \<noteq> []" using ws(3,4) by (cases i) auto
    then obtain w vs where r: "?rest = w # vs" by (cases ?rest) auto
    have "\<forall>v \<in> set ?rest. 0 < v" using ws(2) by (auto dest: in_set_takeD in_set_dropD)
    then have "0 < w" "\<forall>v \<in> set vs. 0 \<le> v" unfolding r by auto
    moreover from this(2) have "0 \<le> sum_list vs" by (intro sum_list_nonneg) auto
    ultimately show ?thesis unfolding r by simp
  qed
  ultimately show ?thesis using ws(1) by linarith
qed

lemma removal_issues_good_token:
  assumes wf: "wf_tree t" and tok: "snd (snd (lath_remove t lid)) = Some tok"
  shows "good_token tok"
proof -
  have mem: "lid \<in> set (leaves t)"
    using tok by (cases rule: find_leaf_cases [where t = t and lid = lid]) (auto simp: lath_remove_def split: option.splits)
  show ?thesis
  proof (cases rule: lath_remove_cases [OF wf mem])
    case 1
    with tok show ?thesis by (auto simp: good_token_def)
  next
    case (2 n pp i d cs)
    note inner = this
    have "canon (Split d cs)" using canon_node_at inner(1,3) wf_treeD [OF wf] by blast
    then have "0 < snd (cs ! i)" "snd (cs ! i) < 1"
      using single_weight [of "map snd cs" i] inner(4,6) by auto
    with inner(8) tok show ?thesis by (auto simp: good_token_def removal_token_def Let_def)
  qed
qed

section \<open>Restore undoes remove\<close>

lemma normalize_replace_cong:
  "normalize a = normalize b \<Longrightarrow> normalize (replace_at n p a) = normalize (replace_at n p b)"
  by (induction n p a rule: replace_at.induct) (auto simp: map_update)

lemma normalize_replace:
  assumes "canon n" and "node_at n p = Some x" and "normalize y = Some y'" and "canon y'"
    and "split_dir y' = split_dir x"
  shows "normalize (replace_at n p y) = Some (replace_at n p y')"
  using normalize_replace_cong [of y y' n p] canon_replace [OF assms(1,2,4,5)] assms by simp

lemma strip_normalize_weights: "strip (Split d (normalize_weights cs)) = strip (Split d cs)"
proof -
  have "map (\<lambda>c. strip (fst c)) xs = map strip (map fst xs)" for xs :: "lath_child list"
    by (simp add: comp_def)
  then show ?thesis by (simp only: strip.simps map_fst_normalize_weights)
qed

lemma fingerprint_of_shape:
  "structure_fingerprint n = structure_fingerprint m \<Longrightarrow> node_leaves n = node_leaves m"
  unfolding structure_fingerprint_eq_iff by (rule strip_leaves)

text \<open>In a canonical tree without repeated leaves a fingerprint leads to one node.\<close>

lemma find_fp_unique:
  assumes n: "canon n" "distinct (node_leaves n)" and at: "node_at n pp = Some (Split d cs)"
    and fp: "structure_fingerprint (Split d cs) = fp"
  shows "find_fp_node fp n = Some pp"
proof -
  obtain q where q: "find_fp_node fp n = Some q" using find_fp_complete [OF at fp] by auto
  then obtain d' ds where "node_at n q = Some (Split d' ds)" "structure_fingerprint (Split d' ds) = fp"
    using find_fp_sound(1) by metis
  then have "node_at n q = Some (Split d' ds)" "node_leaves (Split d' ds) = node_leaves (Split d cs)"
    using fp by (simp, metis fingerprint_of_shape)
  then have "q = pp" using unique_leaf_set [OF n _ at] by blast
  with q show ?thesis by simp
qed

lemma remove_idx_sum:
  fixes f :: "'a \<Rightarrow> js_num"
  shows "i < length xs \<Longrightarrow> sum_list (map f (remove_idx i xs)) = sum_list (map f xs) - f (xs ! i)"
  by (subst (2) id_take_nth_drop [of i xs]) (auto simp: remove_idx_def)

lemma length_remove_idx: "i < length xs \<Longrightarrow> length (remove_idx i xs) = length xs - 1"
  by (simp add: remove_idx_def)

lemma reinsert_removed:
  "i < length xs \<Longrightarrow> take i (remove_idx i xs) @ [xs ! i] @ drop i (remove_idx i xs) = xs"
  by (simp add: remove_idx_def id_take_nth_drop [symmetric] min_def)

lemma normalize_good:
  assumes "\<forall>c \<in> set cs. good_child d c" and "2 \<le> length cs"
  shows "normalize (Split d cs) = Some (Split d (normalize_weights cs))"
    and "canon (Split d (normalize_weights cs))"
proof -
  have "collect_child d (snd c) (normalize (fst c)) = [c]" if "c \<in> set cs" for c
    using assms(1) that collect_good_child [of d c] by (auto simp: good_child_def)
  then have "concat (map (\<lambda>c. collect_child d (snd c) (normalize (fst c))) cs) = cs"
    by (rule concat_map_singleton)
  with assms(2) show eq: "normalize (Split d cs) = Some (Split d (normalize_weights cs))"
    by (auto simp: build_split_def)
  have "pos_weights (Split d cs)" using assms(1) canon_pos_weights by (auto simp: good_child_def)
  then show "canon (Split d (normalize_weights cs))" using eq by (rule canon_normalize)
qed

lemma node_first_leaf_Some: "canon x \<Longrightarrow> node_first_leaf x \<noteq> None"
  using node_leaves_nonempty [of x] by (auto simp: node_first_leaf_def split: lath_node.splits list.splits)

text \<open>Removing a child of a wide split only rescales its siblings.\<close>

lemma remove_wide:
  assumes wf: "wf_tree t" and n: "tree_root t = Some n" and at: "node_at n pp = Some (Split d cs)"
    and i: "i < length cs" and wide: "3 \<le> length cs"
  shows "normalize (replace_at n pp (Split d (remove_idx i cs))) =
      Some (replace_at n pp (Split d (normalize_weights (remove_idx i cs))))"
    and "canon (Split d (normalize_weights (remove_idx i cs)))"
proof -
  have cn: "canon n" "canon (Split d cs)"
    using wf_treeD [OF wf n] canon_node_at [OF _ at] by auto
  then have "\<forall>c \<in> set (remove_idx i cs). good_child d c"
    using set_remove_idx [of i cs] by (auto simp: canon_Split simp del: canon.simps)
  note normed = normalize_good [OF this, unfolded length_remove_idx [OF i]]
  show can: "canon (Split d (normalize_weights (remove_idx i cs)))" using normed(2) wide by simp
  show "normalize (replace_at n pp (Split d (remove_idx i cs))) =
      Some (replace_at n pp (Split d (normalize_weights (remove_idx i cs))))"
    using normalize_replace [OF cn(1) at normed(1) can] wide by simp
qed

lemma restore_parent_undoes:
  assumes wf: "wf_tree t" and n: "tree_root t = Some n" and at: "node_at n pp = Some (Split d cs)"
    and i: "i < length cs" "fst (cs ! i) = Leaf lid" and wide: "3 \<le> length cs"
    and n': "n' = replace_at n pp (Split d (normalize_weights (remove_idx i cs)))"
  shows "restore_parent (tree_of n') n' pp (removal_token lid d cs i) = tree_of n"
proof -
  let ?rem = "remove_idx i cs"
  have cn: "canon n" using wf_treeD [OF wf n] by blast
  have cs: "canon (Split d cs)" using canon_node_at [OF cn at] .
  then have total: "sum_list (map snd cs) = 1" by simp
  have "sum_list (map snd ?rem) > 0"
    using cs wide i(1) set_remove_idx [of i cs] length_remove_idx [OF i(1)]
    by (intro sum_list_pos) auto
  then have s: "sum_list (map snd ?rem) = 1 - snd (cs ! i)" "1 - snd (cs ! i) > 0"
    using remove_idx_sum [OF i(1), of snd] total by auto
  then have "normalize_weights ?rem = map (\<lambda>c. (fst c, snd c / (1 - snd (cs ! i)))) ?rem"
    by (simp add: normalize_weights_def Let_def)
  with s(2) have scaled: "map (\<lambda>c. (fst c, snd c * (1 - snd (cs ! i)))) (normalize_weights ?rem) = ?rem"
    by (simp add: comp_def)
  have "(Leaf lid, snd (cs ! i)) = cs ! i" using i(2) by (metis prod.collapse)
  then have undone: "take i ?rem @ [(Leaf lid, snd (cs ! i))] @ drop i ?rem = cs"
    using reinsert_removed [OF i(1)] by simp
  have at': "node_at_path (tree_of n') pp = Some (Split d (normalize_weights ?rem))"
    using node_at_replace_same [OF at] by (simp add: node_at_path_def n')
  have k: "nat (min (max (int i) 0) (int (length ?rem))) = i"
    using i(1) by (simp add: length_remove_idx)
  have "replace_at n' pp (Split d cs) = n"
    using replace_at_twice [OF at] replace_at_id [OF at] by (simp add: n')
  with cn show ?thesis
    unfolding restore_parent_def at' as_split.simps prod.case Let_def
    using scaled k undone total by (simp add: removal_token_def Let_def normalize_weights_id)
qed

lemma restore_undoes_remove:
  assumes wf: "wf_tree t" and path: "find_leaf_path t lid = Some (pp @ [i])"
    and parent: "node_at_path t pp = Some (Split d cs)" and wide: "3 \<le> length cs"
    and removed: "lath_remove t lid = (t', True, Some tok)"
  shows "lath_restore t' tok opts = (t, True, Some TierExact)"
proof -
  have mem: "lid \<in> set (leaves t)" using path by (metis find_leaf_path_None option.distinct(1))
  obtain n where n: "tree_root t = Some n" and at: "node_at n pp = Some (Split d cs)"
    using parent by (auto simp: node_at_path_def split: option.splits)
  let ?rem = "remove_idx i cs"
  define n' where "n' = replace_at n pp (Split d (normalize_weights ?rem))"
  have "i < length cs \<and> fst (cs ! i) = Leaf lid \<and> t' = tree_of n' \<and> tok = removal_token lid d cs i"
    using wf mem
  proof (cases rule: lath_remove_cases)
    case only
    with path show ?thesis by (auto simp: find_leaf_path_def)
  next
    case (inner m qq j e ds)
    with path n at have same: "m = n" "qq = pp" "j = i" "e = d" "ds = cs" by auto
    with inner removed remove_wide(1) [OF wf n at _ wide] show ?thesis by (auto simp: n'_def)
  qed
  then have i: "i < length cs" "fst (cs ! i) = Leaf lid"
    and t': "t' = tree_of n'" and tok: "tok = removal_token lid d cs i" by auto
  have wf': "wf_tree t'" "lid \<notin> set (leaves t')"
    using lath_remove_accepted [OF wf mem] removed by auto
  have at': "node_at n' pp = Some (Split d (normalize_weights ?rem))"
    using node_at_replace_same [OF at] by (simp add: n'_def)
  have fp: "find_split_path_by_fingerprint t' (structure_fingerprint (Split d ?rem)) = Some pp"
    using wf_treeD [OF wf'(1), of n'] at' strip_normalize_weights [of d ?rem]
    by (auto simp: t' find_split_path_by_fingerprint_def structure_fingerprint_eq_iff intro!: find_fp_unique)
  let ?sib = "fst (cs ! (if i > 0 then i - 1 else i + 1))"
  have "canon (Split d cs)" using wf_treeD [OF wf n] canon_node_at [OF _ at] by blast
  then have "canon ?sib" using wide i(1) by auto
  then obtain sid where "node_first_leaf ?sib = Some sid" using node_first_leaf_Some by blast
  moreover have "restore_parent t' n' pp tok = t"
    using restore_parent_undoes [OF wf n at i wide n'_def] n by (simp add: t' tok)
  ultimately have "restore_exact t' n' tok = Some t"
    using fp by (simp add: restore_exact_def tok removal_token_def Let_def)
  moreover have "find_leaf_path t' (tok_leaf_id tok) = None"
    using wf'(2) by (simp add: find_leaf_path_None tok removal_token_def Let_def)
  ultimately show ?thesis by (simp add: lath_restore_def t')
qed

end
