(* ===== verification/Lath_Claims.thy ===== *)
theory Lath_Claims
  imports Lath_Roundtrip
begin

text \<open>
  The tiling engine as its callers see it: the edits a wall makes as one event system over the
  tree, and the theorems that state what every edit, the layout and the restore token promise.
\<close>

section \<open>Every edit of the wall\<close>

text \<open>The edits of \<open>ops.ts\<close>, each with the arguments of its function.\<close>

datatype wall_edit =
    EditSplit leaf_id edge leaf_id
  | EditRemove leaf_id
  | EditRestore restore_token "restore_opts option"
  | EditReplace leaf_id leaf_id
  | EditSwap leaf_id leaf_id
  | EditInsert leaf_id drop_target js_num
  | EditMove leaf_id drop_target
  | EditResize "nat list" int js_num rect layout_opts

fun edit_wall :: "wall_edit \<Rightarrow> lath_tree \<Rightarrow> lath_tree \<times> bool" where
  "edit_wall (EditSplit a e b) t = lath_split t a e b"
| "edit_wall (EditRemove lid) t = (fst (lath_remove t lid), fst (snd (lath_remove t lid)))"
| "edit_wall (EditRestore tok opts) t = (fst (lath_restore t tok opts), fst (snd (lath_restore t tok opts)))"
| "edit_wall (EditReplace a b) t = lath_replace t a b"
| "edit_wall (EditSwap a b) t = lath_swap t a b"
| "edit_wall (EditInsert lid target w) t = lath_insert t lid target w"
| "edit_wall (EditMove lid target) t = lath_move t lid target"
| "edit_wall (EditResize p b d r opts) t = lath_resize t p b d r opts"

text \<open>The only edit that trusts its caller is a restore: its token is one closing a pane can issue.\<close>

fun edit_admissible :: "wall_edit \<Rightarrow> bool" where
  "edit_admissible (EditRestore tok opts) = good_token tok"
| "edit_admissible _ = True"

interpretation wall: lath_operation edit_wall edit_admissible
proof unfold_locales
  show "fst (edit_wall x t) = t" if "\<not> snd (edit_wall x t)" for x t
    using that remove_op.rejected by (cases x)
      (auto simp: lath_split_rejected lath_restore_rejected lath_replace_rejected lath_swap_rejected
        lath_insert_rejected lath_move_rejected lath_resize_rejected)
  show "wf_tree (fst (edit_wall x t))" if "wf_tree t" "edit_admissible x" "snd (edit_wall x t)" for x t
    using that remove_op.accepted_wf restore_op.accepted_wf by (cases x)
      (auto simp: lath_split_accepted(1) lath_replace_accepted(1) lath_swap_accepted(1)
        lath_insert_accepted(1) lath_move_wf lath_resize_wf(1))
qed

interpretation wall_events: event_system "\<lambda>x t. fst (edit_wall x t)" edit_admissible wf_tree
  by unfold_locales (rule wall.keeps_wf)

lemma pane_ids [simp]: "js ''a'' = [97]" "js ''b'' = [98]" "js ''c'' = [99]"
  by (simp_all add: js_def)

definition three_panes :: lath_tree where
  "three_panes = fold (\<lambda>x t. fst (edit_wall x t))
     [EditSplit (js ''a'') EdgeRight (js ''b''), EditSplit (js ''b'') EdgeRight (js ''c'')] (leaf_tree (js ''a''))"

definition wall_rect :: rect where
  "wall_rect = \<lparr>rx = 0, ry = 0, rwidth = 300, rheight = 200\<rparr>"

definition wall_opts :: layout_opts where
  "wall_opts = \<lparr>gap = 2, min_leaf = \<lparr>sz_width = 20, sz_height = 10\<rparr>\<rparr>"

lemma three_panes_eval:
  "three_panes = tree_of (Split Row [(Leaf (js ''a''), 1 / 2), (Leaf (js ''b''), 1 / 4), (Leaf (js ''c''), 1 / 4)])"
  by code_simp

lemma three_panes_wf [simp]: "wf_tree three_panes"
  by (simp add: three_panes_eval wf_tree_def)

section \<open>Properties\<close>

text \<open>C8: Whatever sequence of edits (split, remove, restore, replace, swap, insert, move, resize)
  a wall goes through, in any order and with any arguments except that a restore token is one of
  the kind closing a pane issues (it names no sibling or no parent, or its weight lies strictly
  between 0 and 1), the tree stays canonical: every split has at least two children of positive
  weight summing to 1, no split directly contains a split of its own direction, and no leaf id
  occurs twice. Every token that closing a pane of the resulting tree issues is of that kind.\<close>

theorem every_history_well_formed:
  assumes "wf_tree t" and "list_all edit_admissible xs"
  shows "wf_tree (fold (\<lambda>x t. fst (edit_wall x t)) xs t) \<and>
    (\<forall>lid tok opts. snd (snd (lath_remove (fold (\<lambda>x t. fst (edit_wall x t)) xs t) lid)) = Some tok \<longrightarrow>
       edit_admissible (EditRestore tok opts))"
  using wall_events.run_keeps [OF assms] removal_issues_good_token by auto

definition last_pane_token :: restore_token where
  "last_pane_token = \<lparr>tok_leaf_id = js ''d'', tok_weight = 1, tok_sibling_id = None,
     tok_sibling_leaf_ids = None, tok_sibling_fingerprint = None, tok_edge = EdgeRight,
     tok_index = 0, tok_fingerprint = None\<rparr>"

theorem every_history_well_formed_witness:
  "wf_tree (fold (\<lambda>x t. fst (edit_wall x t))
     [EditSwap (js ''a'') (js ''c''), EditMove (js ''b'') (DropEdge [0] EdgeTop),
      EditRestore last_pane_token (Some \<lparr>fallback_ref = Some (js ''b''), opt_rect = None, opt_layout = None\<rparr>),
      EditRemove (js ''a''), EditResize [] 0 17 wall_rect wall_opts] three_panes)"
  by (rule every_history_well_formed [THEN conjunct1]) (simp_all add: good_token_def last_pane_token_def)

text \<open>An edit that is refused hands back the very tree it was given, so a caller can tell a
  refused edit by identity.\<close>

lemma refused_edit_is_identity:
  assumes "\<not> snd (edit_wall x t)"
  shows "fst (edit_wall x t) = t"
  using assms by (rule wall.rejected)

text \<open>Splitting succeeds exactly when the pane exists and the new id does not, and puts the new
  pane directly before or after it in reading order; every other pane keeps its place.\<close>

lemma split_places_new_leaf:
  assumes "wf_tree t"
  shows "snd (lath_split t a e b) = (a \<in> set (leaves t) \<and> b \<notin> set (leaves t)) \<and>
    (snd (lath_split t a e b) \<longrightarrow>
       leaves (fst (lath_split t a e b)) =
         concat (map (\<lambda>l. if l = a then (if edge_is_before e then [b, a] else [a, b]) else [l]) (leaves t)))"
  using lath_split_accepted(2) [OF assms] by (simp add: lath_split_ok_iff)

text \<open>C9: Closing a pane and restoring it from the token that closing returned gives back the
  original tree, weights included, through the exact tier, whenever the pane had at least two
  siblings (so that its parent split survived the removal).\<close>

theorem restore_gives_back_removed_leaf:
  assumes "wf_tree t" and "find_leaf_path t lid = Some (pp @ [i])"
    and "node_at_path t pp = Some (Split d cs)" and "3 \<le> length cs"
    and "lath_remove t lid = (t', True, Some tok)"
  shows "lath_restore t' tok opts = (t, True, Some TierExact)"
  using assms by (rule restore_undoes_remove)

theorem restore_gives_back_removed_leaf_witness:
  "case lath_remove three_panes (js ''b'') of
     (t', ok, Some tok) \<Rightarrow> lath_restore t' tok None = (three_panes, True, Some TierExact)
   | _ \<Rightarrow> False"
proof -
  obtain t' tok where "lath_remove three_panes (js ''b'') = (t', True, Some tok)"
    using lath_remove_ok_iff [OF three_panes_wf, of "js ''b''"]
    by (cases "lath_remove three_panes (js ''b'')")
       (auto simp: three_panes_eval leaves_def lath_remove_def find_leaf_path_def Let_def
         node_at_path_def split: option.splits)
  moreover have "find_leaf_path three_panes (js ''b'') = Some ([] @ [1])" by code_simp
  moreover have "node_at_path three_panes [] =
      Some (Split Row [(Leaf (js ''a''), 1 / 2), (Leaf (js ''b''), 1 / 4), (Leaf (js ''c''), 1 / 4)])"
    by (simp add: three_panes_eval node_at_path_def)
  ultimately show ?thesis
    using restore_gives_back_removed_leaf [OF three_panes_wf, of "js ''b''" "[]" 1] by simp
qed

text \<open>Dropping a pane on an edge of a node is accepted exactly when the pane and the node exist
  and the node is not the pane alone; then the pane is still there, once, and all the other
  panes keep their reading order.\<close>

lemma move_keeps_other_leaves:
  assumes "wf_tree t"
  shows "snd (lath_move t lid (DropEdge p e)) =
      (lid \<in> set (leaves t) \<and> (\<exists>x. node_at_path t p = Some x \<and> node_leaves x \<noteq> [lid])) \<and>
    filter (\<lambda>l. l \<noteq> lid) (leaves (fst (lath_move t lid (DropEdge p e)))) = filter (\<lambda>l. l \<noteq> lid) (leaves t) \<and>
    (lid \<in> set (leaves (fst (lath_move t lid (DropEdge p e)))) \<longleftrightarrow> lid \<in> set (leaves t))"
  using lath_move_edge_accepted [OF assms] lath_move_rejected [of t lid "DropEdge p e"]
    lath_move_edge_ok_iff [OF assms]
  by (cases "snd (lath_move t lid (DropEdge p e))") auto

text \<open>An accepted resize changes nothing but two neighboring weights: the panes keep their
  order, the tree stays canonical, and in the split it touches the two weights stay positive and
  keep their sum, whatever the distance dragged.\<close>

lemma resize_moves_one_boundary:
  assumes "wf_tree t" and "snd (lath_resize t p k delta r opts)"
  shows "\<exists>n d cs w. tree_root t = Some n \<and> node_at n p = Some (Split d cs) \<and>
    0 < w \<and> w < snd (cs ! nat k) + snd (cs ! (nat k + 1)) \<and>
    fst (lath_resize t p k delta r opts) =
      tree_of (replace_at n p (Split d ((cs[nat k := (fst (cs ! nat k), w)])
        [nat k + 1 := (fst (cs ! (nat k + 1)), snd (cs ! nat k) + snd (cs ! (nat k + 1)) - w)]))) \<and>
    wf_tree (fst (lath_resize t p k delta r opts)) \<and>
    leaves (fst (lath_resize t p k delta r opts)) = leaves t"
proof -
  note kept = lath_resize_wf [OF assms]
  obtain n d cs w where r: "tree_root t = Some n" "node_at n p = Some (Split d cs)"
    "0 < w" "w < snd (cs ! nat k) + snd (cs ! (nat k + 1))"
    "fst (lath_resize t p k delta r opts) = tree_of (replace_at n p (Split d ((cs[nat k := (fst (cs ! nat k), w)])
        [nat k + 1 := (fst (cs ! (nat k + 1)), snd (cs ! nat k) + snd (cs ! (nat k + 1)) - w)])))"
    by (rule lath_resize_accepted [OF assms]) blast
  show ?thesis
    by (intro exI [of _ n] exI [of _ d] exI [of _ cs] exI [of _ w] conjI r kept)
qed

lemma layout_argsI: "wf_tree t \<Longrightarrow> tree_root t = Some n \<Longrightarrow> nonneg_opts opts \<Longrightarrow> gap opts \<in> \<int> \<Longrightarrow>
   layout_args n (nonnegative_rect r) opts"
  using canon_nonempty_splits wf_treeD by (auto simp: layout_args_def nonnegative_rect_def)

lemma whole_nonnegative:
  assumes "rwidth r \<in> \<int>" and "rheight r \<in> \<int>"
  shows "grown (nonnegative_rect r) = nonnegative_rect r" "shrunk (nonnegative_rect r) = nonnegative_rect r"
  using assms by (auto intro!: whole_sides simp: nonnegative_rect_def max_def)

text \<open>C10: The layout gives every pane of the wall exactly one rectangle, in reading order, whatever
  the wall and the options. When the gap is a whole, non-negative number of pixels, the minimum
  sizes are not negative (as in LATH_LAYOUT_OPTS) and the splits have room for their gaps, no two
  rectangles overlap and each lies inside the wall with its sides grown to the nearest whole
  pixel, which is the wall itself when its width and height are whole; a wall with fractional
  sides, as the browser may measure, is left by at most half a pixel.\<close>

theorem layout_places_leaves_apart:
  assumes "wf_tree t" and "tree_root t = Some n"
  shows "map fst (layout t r opts) = leaves t \<and>
    (nonneg_opts opts \<and> gap opts \<in> \<int> \<and> roomy n (nonnegative_rect r) opts \<longrightarrow>
       sorted_wrt (\<lambda>a b. separated (snd a) (snd b)) (layout t r opts) \<and>
       (\<forall>x \<in> set (layout t r opts). inside (snd x) (grown (nonnegative_rect r)) \<and>
          (rwidth r \<in> \<int> \<and> rheight r \<in> \<int> \<longrightarrow> inside (snd x) (nonnegative_rect r))))"
  using leaf_rects_tile [OF layout_argsI [OF assms, of opts r]] fst_layout [OF assms(1), of r opts]
    whole_nonnegative(1) [of r]
  unfolding layout_eq_rects [OF assms] by fastforce

lemma roomy_leaves:
  assumes "\<forall>c \<in> set cs. \<exists>lid. fst c = Leaf lid"
  shows "roomy (Split d cs) r opts \<longleftrightarrow> gap opts * (of_nat (length cs) - 1) \<le> rect_extent d r"
proof -
  have "roomy (fst c) r' opts" if "(c, r') \<in> set (child_rects d cs r opts)" for c r'
  proof -
    have "c \<in> set cs" using that map_fst_child_rects [of d cs r opts] by (metis fst_conv image_eqI list.set_map)
    then show ?thesis using assms by fastforce
  qed
  then show ?thesis by auto
qed

definition fractional_wall :: rect where
  "fractional_wall = \<lparr>rx = 0, ry = 0, rwidth = 300 + 1 / 2, rheight = 200\<rparr>"

theorem layout_places_leaves_apart_witness:
  "map fst (layout three_panes fractional_wall wall_opts) = [js ''a'', js ''b'', js ''c''] \<and>
   sorted_wrt (\<lambda>a b. separated (snd a) (snd b)) (layout three_panes fractional_wall wall_opts) \<and>
   list_all (\<lambda>x. inside (snd x) \<lparr>rx = 0, ry = 0, rwidth = 301, rheight = 200\<rparr>)
     (layout three_panes fractional_wall wall_opts)"
proof -
  let ?n = "Split Row [(Leaf (js ''a''), 1 / 2), (Leaf (js ''b''), 1 / 4), (Leaf (js ''c''), 1 / 4)]"
  have "roomy ?n (nonnegative_rect fractional_wall) wall_opts"
    by (simp add: roomy_leaves del: roomy.simps
      add: rect_extent_def nonnegative_rect_def fractional_wall_def wall_opts_def)
  moreover have "nonneg_opts wall_opts" "gap wall_opts \<in> \<int>" by (simp_all add: nonneg_opts_def wall_opts_def)
  moreover have "grown (nonnegative_rect fractional_wall) = \<lparr>rx = 0, ry = 0, rwidth = 301, rheight = 200\<rparr>"
    by (simp add: grown_def nonnegative_rect_def fractional_wall_def js_round_def)
  ultimately show ?thesis
    using layout_places_leaves_apart [OF three_panes_wf, of ?n fractional_wall wall_opts]
    by (simp add: three_panes_eval leaves_def list_all_iff)
qed

text \<open>A wall of 300.5 pixels: the last pane ends at 301, half a pixel outside the wall.\<close>

lemma fractional_wall_is_not_tiled:
  "map (\<lambda>x. rx (snd x) + rwidth (snd x)) (layout three_panes fractional_wall wall_opts) = [148, 224, 301]"
  by code_simp

text \<open>C22: Without gaps the panes cover the wall, whatever the weights and the non-negative minimum
  sizes: the areas of the rectangles of the layout add up to the area of the wall when its width
  and height are whole pixels. When they are fractional, the sum lies between the areas of the
  wall with its sides shrunk and grown to the nearest whole pixel.\<close>

theorem gapless_layout_covers_wall:
  assumes "wf_tree t" and "tree_root t = Some n" and "nonneg_opts opts" and "gap opts = 0"
  shows "rect_area (shrunk (nonnegative_rect r)) \<le> sum_list (map (\<lambda>x. rect_area (snd x)) (layout t r opts)) \<and>
    sum_list (map (\<lambda>x. rect_area (snd x)) (layout t r opts)) \<le> rect_area (grown (nonnegative_rect r)) \<and>
    (rwidth r \<in> \<int> \<and> rheight r \<in> \<int> \<longrightarrow>
       sum_list (map (\<lambda>x. rect_area (snd x)) (layout t r opts)) = rect_area (nonnegative_rect r))"
  using area_leaf_rects [OF layout_argsI [OF assms(1-3), of r]] assms(4) whole_nonnegative [of r]
  by (auto simp: layout_eq_rects [OF assms(1,2)])

theorem gapless_layout_covers_wall_witness:
  "sum_list (map (\<lambda>x. rect_area (snd x))
     (layout three_panes wall_rect \<lparr>gap = 0, min_leaf = \<lparr>sz_width = 20, sz_height = 10\<rparr>\<rparr>)) = 60000"
proof -
  have "nonneg_opts \<lparr>gap = 0, min_leaf = \<lparr>sz_width = 20, sz_height = 10\<rparr>\<rparr>" by (simp add: nonneg_opts_def)
  from gapless_layout_covers_wall [OF three_panes_wf _ this, of _ wall_rect] show ?thesis
    by (simp add: three_panes_eval rect_area_def nonnegative_rect_def wall_rect_def)
qed

text \<open>The spans of the children of a split are whole, non-negative pixels and together with the
  gaps they are the extent of the split to the nearest pixel, even when the minimum sizes do not
  fit.\<close>

lemma child_spans_use_up_extent:
  assumes "nonneg_opts opts" and "nonempty_splits (Split d' cs)"
    and "gap opts \<in> \<int>" and "gap opts * (of_nat (length cs) - 1) \<le> ext"
  shows "length (allocate_child_spans cs ext opts d) = length cs \<and>
    (\<forall>s \<in> set (allocate_child_spans cs ext opts d). 0 \<le> s) \<and>
    of_int (sum_list (allocate_child_spans cs ext opts d)) + gap opts * (of_nat (length cs) - 1) =
      of_int (js_round ext)"
  using allocate_tiles [OF assms] allocate_spec(2) [OF assms(1,2)] by simp

text \<open>C23: Two subtrees have the same structure fingerprint exactly when they differ in nothing but
  the weights, that is, when they have the same splits in the same directions with the same leaf
  ids in the same places, whatever the ids are: the escapes of the JSON text, lone surrogates
  included, keep any two structures apart.\<close>

theorem fingerprint_identifies_structure:
  "(structure_fingerprint n = structure_fingerprint m) = same_structure n m"
  by (simp add: structure_fingerprint_eq_iff strip_eq_iff)

text \<open>Swapping two panes succeeds exactly when they are two different panes of the wall, and
  then exchanges their ids in reading order.\<close>

lemma swap_exchanges_leaves:
  assumes "wf_tree t"
  shows "snd (lath_swap t a b) = (a \<noteq> b \<and> a \<in> set (leaves t) \<and> b \<in> set (leaves t)) \<and>
    (snd (lath_swap t a b) \<longrightarrow> leaves (fst (lath_swap t a b)) = map (exchange a b) (leaves t))"
  using lath_swap_accepted(2) [OF assms] by (simp add: lath_swap_ok_iff)

end
