(* ===== verification/Shell_Command.thy ===== *)
theory Shell_Command
  imports Js_Text
begin

text \<open>
  Command lines: the tokenizer and the program-name rules of \<open>lib/src/lib/terminal-state.ts\<close>,
  the escaping of pasted paths (\<open>lib/src/lib/shell-escape.ts\<close>, \<open>posix-escape.ts\<close>) and the
  quoting of argument vectors (\<open>dor/src/commands/shell-quote.ts\<close>), with the round trips between
  writing and reading a command line.
\<close>

section \<open>Escaping and quoting\<close>

text \<open>\<open>POSIX_ESCAPABLE\<close>.\<close>

definition posix_escapable :: "nat \<Rightarrow> bool" where
  "posix_escapable c \<longleftrightarrow> c \<in> set (js '' !#$&()*;<>?[]`{|}~'') \<or> c = 9 \<or> c = 34 \<or> c = 39 \<or> c = 92"

text \<open>\<open>s.replace(/'/g, r)\<close> between single quotes.\<close>

definition single_quoted :: "js_text \<Rightarrow> js_text \<Rightarrow> js_text" where
  "single_quoted r s = [39] @ replace_unit 39 r s @ [39]"

definition shell_escape_posix :: "js_text \<Rightarrow> js_text" where
  "shell_escape_posix s =
     (if s = [] then [39, 39]
      else if 10 \<in> set s \<or> 13 \<in> set s then single_quoted [39, 92, 39, 39] s
      else concat (map (\<lambda>c. if posix_escapable c then [92, c] else [c]) s))"

definition shell_escape_windows :: "js_text \<Rightarrow> js_text" where
  "shell_escape_windows s = [34] @ replace_unit 34 [34, 34] s @ [34]"

datatype shell_command_kind = ShellCmd | ShellPosix | ShellPowershell

definition posix_safe_unit :: "nat \<Rightarrow> bool" where
  "posix_safe_unit c \<longleftrightarrow> is_letter c \<or> is_digit c \<or> c \<in> set (js ''_@%+=:,./-'')"

definition windows_safe_unit :: "nat \<Rightarrow> bool" where
  "windows_safe_unit c \<longleftrightarrow> is_letter c \<or> is_digit c \<or> c \<in> set (js ''_+=:./-'') \<or> c = 92"

text \<open>\<open>POSIX_SAFE_ARG\<close> and \<open>WINDOWS_SAFE_ARG\<close>, the latter on a non-empty argument.\<close>

definition posix_safe_arg :: "js_text \<Rightarrow> bool" where
  "posix_safe_arg a \<longleftrightarrow> a \<noteq> [] \<and> list_all posix_safe_unit a"

definition windows_safe_arg :: "js_text \<Rightarrow> bool" where
  "windows_safe_arg a \<longleftrightarrow> a \<noteq> [] \<and> list_all windows_safe_unit a"

definition quote_posix_arg :: "js_text \<Rightarrow> js_text" where
  "quote_posix_arg a =
     (if a = [] then [39, 39] else if posix_safe_arg a then a else single_quoted [39, 92, 39, 39] a)"

definition quote_powershell_arg :: "js_text \<Rightarrow> js_text" where
  "quote_powershell_arg a =
     (if a = [] then [39, 39] else if windows_safe_arg a then a else single_quoted [39, 39] a)"

definition quote_powershell_command :: "js_text list \<Rightarrow> js_text" where
  "quote_powershell_command args =
     (case args of
        [] \<Rightarrow> []
      | command # rest \<Rightarrow>
          (let q = quote_powershell_arg command;
               command_prefix = (if starts_with [39] q then js ''& '' else [])
           in command_prefix @ js_join [32] (q # map quote_powershell_arg rest)))"

definition quote_cmd_arg :: "js_text \<Rightarrow> js_text" where
  "quote_cmd_arg a =
     (if a = [] then [34, 34]
      else (let escaped = concat (map (\<lambda>c. if c \<in> set (js ''&|<>()^'') \<or> c = 34 then [94, c] else [c])
                             (replace_unit 37 [37, 37] a))
            in if windows_safe_arg a then escaped else [34] @ escaped @ [34]))"

definition build_shell_command_for_kind :: "shell_command_kind \<Rightarrow> js_text list \<Rightarrow> js_text" where
  "build_shell_command_for_kind kind args =
     (case kind of
        ShellCmd \<Rightarrow> js_join [32] (map quote_cmd_arg args)
      | ShellPowershell \<Rightarrow> quote_powershell_command args
      | ShellPosix \<Rightarrow> js_join [32] (map quote_posix_arg args))"

definition shell_escape_path :: "js_text \<Rightarrow> shell_command_kind \<Rightarrow> js_text" where
  "shell_escape_path s kind =
     (case kind of
        ShellPowershell \<Rightarrow> quote_powershell_arg s
      | ShellCmd \<Rightarrow> shell_escape_windows s
      | ShellPosix \<Rightarrow> shell_escape_posix s)"

text \<open>
  \<open>shellCommandKind\<close>; an undefined shell is the empty string. \<open>/win/i\<close> is looked up in the
  platform string folded by \<open>fold_case\<close>.
\<close>

definition shell_command_kind_of :: "js_text option \<Rightarrow> js_text \<Rightarrow> shell_command_kind" where
  "shell_command_kind_of shell platform =
     (let s = (case shell of None \<Rightarrow> [] | Some s \<Rightarrow> s);
          normalized = js_lower (last (js_split 47 (replace_unit 92 [47] s)))
      in if normalized = [] \<and> index_of (js ''win'') (map fold_case platform) \<noteq> None then ShellCmd
         else if normalized = js ''cmd.exe'' \<or> normalized = js ''cmd'' then ShellCmd
         else if normalized = js ''powershell.exe'' \<or> normalized = js ''powershell''
                \<or> normalized = js ''pwsh.exe'' \<or> normalized = js ''pwsh'' then ShellPowershell
         else ShellPosix)"

section \<open>The tokenizer\<close>

definition push_token :: "js_text list \<Rightarrow> js_text \<Rightarrow> js_text list" where
  "push_token tokens current = (if current = [] then tokens else tokens @ [current])"

text \<open>
  The loop of \<open>tokenizeCommand\<close>: the rest of the input, the tokens so far, the current word, the
  open quote and whether the next character is escaped.
\<close>

function (sequential) tokenize_loop ::
    "js_text \<Rightarrow> js_text list \<Rightarrow> js_text \<Rightarrow> nat option \<Rightarrow> bool \<Rightarrow> js_text list" where
  "tokenize_loop [] tokens current quote escaping = push_token tokens current"
| "tokenize_loop (c # cs) tokens current quote escaping =
     (if escaping then tokenize_loop cs tokens (current @ [c]) quote False
      else if c = 92 \<and> quote \<noteq> Some 39
      then (if cs \<noteq> [] \<and> posix_escapable (hd cs) then tokenize_loop cs tokens current quote True
            else tokenize_loop cs tokens (current @ [c]) quote False)
      else if quote \<noteq> None
      then (if quote = Some c then tokenize_loop cs tokens current None False
            else tokenize_loop cs tokens (current @ [c]) quote False)
      else if c = 34 \<or> c = 39 then tokenize_loop cs tokens current (Some c) False
      else if is_ws c then tokenize_loop cs (push_token tokens current) [] None False
      else if c = 38 \<and> cs \<noteq> [] \<and> hd cs = 38
      then tokenize_loop (tl cs) (push_token tokens current @ [js ''&&'']) [] None False
      else if c = 124 \<and> cs \<noteq> [] \<and> hd cs = 124
      then tokenize_loop (tl cs) (push_token tokens current @ [js ''||'']) [] None False
      else if c = 124 \<or> c = 59 \<or> c = 38
      then tokenize_loop cs (push_token tokens current @ [[c]]) [] None False
      else tokenize_loop cs tokens (current @ [c]) None False)"
  by pat_completeness auto
termination
  by (relation "measure (\<lambda>(cs, _). length cs)") auto

definition tokenize_command :: "js_text \<Rightarrow> js_text list" where
  "tokenize_command input = tokenize_loop input [] [] None False"

section \<open>Program names\<close>

definition is_separator :: "js_text \<Rightarrow> bool" where
  "is_separator t \<longleftrightarrow> t \<in> {js ''|'', js ''&&'', js ''||'', js '';'', js ''&''}"

text \<open>\<open>/^[A-Za-z_][A-Za-z0-9_]*=/\<close>.\<close>

definition is_env_assignment :: "js_text \<Rightarrow> bool" where
  "is_env_assignment t =
     (case t of
        [] \<Rightarrow> False
      | c # cs \<Rightarrow>
          (is_letter c \<or> c = 95) \<and>
          (case dropWhile (\<lambda>x. is_letter x \<or> is_digit x \<or> x = 95) cs of
             [] \<Rightarrow> False
           | d # _ \<Rightarrow> d = 61))"

definition take_primary_command_tokens :: "js_text list \<Rightarrow> js_text list" where
  "take_primary_command_tokens tokens =
     (let words = (if tokens \<noteq> [] \<and> hd tokens = js ''&'' then tl tokens else tokens);
          command = non_empty (takeWhile (\<lambda>t. \<not> is_separator t) words);
          rest = dropWhile is_env_assignment command
      in if rest \<noteq> [] \<and> hd rest = js ''env'' then dropWhile is_env_assignment (tl rest) else rest)"

text \<open>\<open>replace(/^.*[\\/]/, '')\<close>: the text after the last separator, on one line.\<close>

definition is_line_end :: "nat \<Rightarrow> bool" where
  "is_line_end c \<longleftrightarrow> c = 10 \<or> c = 13 \<or> c = 0x2028 \<or> c = 0x2029"

definition command_basename :: "js_text \<Rightarrow> js_text" where
  "command_basename command =
     (let line = takeWhile (\<lambda>c. \<not> is_line_end c) command;
          tail_of = rev (takeWhile (\<lambda>c. c \<noteq> 92 \<and> c \<noteq> 47) (rev line))
      in if length tail_of = length line then command
         else drop (length line - length tail_of) command)"

text \<open>\<open>WINDOWS_EXECUTABLE_SUFFIX\<close>: \<open>/\.(?:exe|cmd|bat|com|ps1)$/i\<close>.\<close>

definition windows_suffixes :: "js_text list" where
  "windows_suffixes = [js ''.exe'', js ''.cmd'', js ''.bat'', js ''.com'', js ''.ps1'']"

definition has_windows_suffix :: "js_text \<Rightarrow> bool" where
  "has_windows_suffix s = list_ex (\<lambda>x. ends_with x (map fold_case s)) windows_suffixes"

definition strip_windows_suffix :: "js_text \<Rightarrow> js_text" where
  "strip_windows_suffix s = (if has_windows_suffix s then take (length s - 4) s else s)"

definition command_program_name :: "js_text \<Rightarrow> js_text" where
  "command_program_name command = strip_windows_suffix (command_basename command)"

definition command_argv0 :: "js_text \<Rightarrow> js_text option" where
  "command_argv0 raw =
     (case take_primary_command_tokens (tokenize_command (js_trim raw)) of
        [] \<Rightarrow> None
      | command # _ \<Rightarrow>
          if command = [] then None
          else (let name = command_program_name command in if name = [] then None else Some name))"

section \<open>Titles\<close>

definition command_title_tokens :: "js_text list \<Rightarrow> js_text list" where
  "command_title_tokens tokens =
     (case tokens of
        [] \<Rightarrow> []
      | command # rest \<Rightarrow>
          if command = [] then []
          else
            (let program = command_program_name command;
                 first = (case rest of [] \<Rightarrow> None | r # _ \<Rightarrow> Some r)
             in if program = js ''npm'' \<and> first = Some (js ''run'') then program # take 2 rest
                else if program = js ''pnpm'' \<or> program = js ''yarn'' \<or> program = js ''bun''
                then program # take 2 rest
                else if program = js ''docker'' \<and> first = Some (js ''compose'') then program # take 2 rest
                else if program = js ''cargo'' \<and> first = Some (js ''watch'') then program # take 3 rest
                else if program = js ''ssh'' then program # take 1 rest
                else if program \<in> {js ''vim'', js ''nvim'', js ''vi'', js ''pytest''} then [program]
                else program # take 2 rest))"

definition command_title_limit :: nat where
  "command_title_limit = 48"

definition truncate_command_title :: "js_text \<Rightarrow> js_text" where
  "truncate_command_title title =
     (if length title \<le> command_title_limit then title
      else trim_end (concat (take (command_title_limit - 3) (code_points title))) @ js ''...'')"

definition default_command_title :: js_text where
  "default_command_title = js ''shell''"

definition summarize_command_line :: "js_text \<Rightarrow> js_text" where
  "summarize_command_line raw =
     (let tokens = tokenize_command (js_trim raw)
      in if tokens = [] then default_command_title
         else
           (let command_tokens = take_primary_command_tokens tokens
            in if command_tokens = [] then default_command_title
               else
                 (let has_pipeline = js ''|'' \<in> set tokens;
                      has_compound = list_ex (\<lambda>t. t \<in> {js ''&&'', js ''||'', js '';''}) tokens;
                      suffix = (if has_pipeline then js '' | ...'' else if has_compound then js '' ...'' else [])
                  in truncate_command_title
                       (js_join [32] (command_title_tokens command_tokens) @ suffix))))"

section \<open>Starting a command\<close>

datatype command_run_source = Osc633E | Osc633Boundaries | Osc133Boundaries | UserInput

record command_start =
  cs_source :: "command_run_source option"
  cs_started_at :: "int option"

record resolved_start =
  rs_raw :: "js_text option"
  rs_display :: js_text
  rs_source :: command_run_source
  rs_started_at :: int

definition resolve_command_start :: "js_text option \<Rightarrow> command_start \<Rightarrow> int \<Rightarrow> js_text \<Rightarrow> resolved_start" where
  "resolve_command_start pending event now fallback_title =
     (let given = (case pending of None \<Rightarrow> False | Some r \<Rightarrow> r \<noteq> [])
      in \<lparr>rs_raw = pending,
          rs_display = (if given then summarize_command_line (the pending) else fallback_title),
          rs_source =
            (if cs_source event = Some Osc633Boundaries \<and> given then Osc633E
             else case cs_source event of
                    Some s \<Rightarrow> s
                  | None \<Rightarrow> if given then Osc633E else Osc133Boundaries),
          rs_started_at = (case cs_started_at event of Some s \<Rightarrow> s | None \<Rightarrow> now)\<rparr>)"

end
