(* ===== verification/Shell_Roundtrip.thy ===== *)
theory Shell_Roundtrip
  imports Shell_Command
begin

text \<open>
  What the tokenizer guarantees, and that it reads back what the escaping of paths and the
  quoting of argument vectors write.
\<close>

section \<open>Reading words\<close>

text \<open>A code unit with no meaning to the tokenizer outside quotes.\<close>

definition plain_unit :: "nat \<Rightarrow> bool" where
  "plain_unit c \<longleftrightarrow> c \<notin> {34, 38, 39, 59, 92, 124} \<and> \<not> is_ws c"

lemma posix_escapable_code: "posix_escapable c \<longleftrightarrow>
   c \<in> {9, 32, 33, 34, 35, 36, 38, 39, 40, 41, 42, 59, 60, 62, 63, 91, 92, 93, 96, 123, 124, 125, 126}"
  by (auto simp: posix_escapable_def js_def)

lemma loop_plain: "plain_unit c \<Longrightarrow>
   tokenize_loop (c # rest) ts cur None False = tokenize_loop rest ts (cur @ [c]) None False"
  by (simp add: plain_unit_def)

lemma loop_escape: "posix_escapable c \<Longrightarrow>
   tokenize_loop (92 # c # rest) ts cur None False = tokenize_loop rest ts (cur @ [c]) None False"
  by simp

lemma loop_word: "list_all plain_unit w \<Longrightarrow>
   tokenize_loop (w @ rest) ts cur None False = tokenize_loop rest ts (cur @ w) None False"
  by (induction w arbitrary: cur) (auto simp: loop_plain simp del: tokenize_loop.simps)

lemma loop_escaped_word:
  "(\<And>c. c \<in> set w \<Longrightarrow> is_ws c \<Longrightarrow> posix_escapable c) \<Longrightarrow>
   tokenize_loop (concat (map (\<lambda>c. if posix_escapable c then [92, c] else [c]) w) @ rest) ts cur None False =
   tokenize_loop rest ts (cur @ w) None False"
proof (induction w arbitrary: cur)
  case (Cons c w)
  show ?case
  proof (cases "posix_escapable c")
    case True
    with Cons show ?thesis by (simp add: loop_escape del: tokenize_loop.simps)
  next
    case False
    then have "c \<notin> {34, 38, 39, 59, 92, 124}" by (simp add: posix_escapable_code)
    with False Cons.prems [of c] have "plain_unit c" unfolding plain_unit_def by auto
    with False Cons show ?thesis by (simp add: loop_plain del: tokenize_loop.simps)
  qed
qed simp

lemma loop_inside_quotes:
  "tokenize_loop (replace_unit 39 [39, 92, 39, 39] s @ rest) ts cur (Some 39) False =
   tokenize_loop rest ts (cur @ s) (Some 39) False"
  by (induction s arbitrary: cur) (auto simp: replace_unit_def posix_escapable_code)

lemma loop_single_quoted:
  "tokenize_loop (single_quoted [39, 92, 39, 39] s @ rest) ts cur None False =
   tokenize_loop rest ts (cur @ s) None False"
proof -
  have "tokenize_loop (single_quoted [39, 92, 39, 39] s @ rest) ts cur None False =
    tokenize_loop (replace_unit 39 [39, 92, 39, 39] s @ 39 # rest) ts cur (Some 39) False"
    by (simp add: single_quoted_def is_ws_def)
  then show ?thesis unfolding loop_inside_quotes by simp
qed

section \<open>Round trips\<close>

text \<open>White space that \<open>shellEscapePosix\<close> leaves bare although the tokenizer splits on it.\<close>

definition stray_space :: "nat \<Rightarrow> bool" where
  "stray_space c \<longleftrightarrow> is_ws c \<and> c \<notin> {9, 10, 13, 32}"

lemma tokenize_escaped:
  assumes "s \<noteq> []" and "\<not> list_ex stray_space s"
  shows "tokenize_command (shell_escape_posix s) = [s]"
proof (cases "10 \<in> set s \<or> 13 \<in> set s")
  case True
  then have "tokenize_command (shell_escape_posix s) = tokenize_loop [] [] s None False"
    using loop_single_quoted [of s "[]" "[]" "[]"] assms(1)
    by (simp add: tokenize_command_def shell_escape_posix_def)
  with assms(1) show ?thesis by (simp add: push_token_def)
next
  case False
  have "posix_escapable c" if "c \<in> set s" "is_ws c" for c
    using that False assms(2) by (auto simp: posix_escapable_code stray_space_def list_ex_iff)
  from loop_escaped_word [OF this, of s "[]" "[]" "[]"] False assms(1)
  have "tokenize_command (shell_escape_posix s) = tokenize_loop [] [] s None False"
    by (simp add: tokenize_command_def shell_escape_posix_def del: tokenize_loop.simps)
  with assms(1) show ?thesis by (simp add: push_token_def)
qed

lemma safe_units_plain: "posix_safe_unit c \<Longrightarrow> plain_unit c"
  by (auto simp: posix_safe_unit_def plain_unit_def char_classes js_def)

lemma loop_quoted_arg:
  "tokenize_loop (quote_posix_arg a @ rest) ts cur None False = tokenize_loop rest ts (cur @ a) None False"
proof (cases "a = []")
  case True
  then show ?thesis by (simp add: quote_posix_arg_def is_ws_def)
next
  case False
  show ?thesis
  proof (cases "posix_safe_arg a")
    case True
    then have "list_all plain_unit a" by (auto simp: posix_safe_arg_def list_all_iff safe_units_plain)
    with True False show ?thesis by (simp add: quote_posix_arg_def loop_word del: tokenize_loop.simps)
  next
    case unsafe: False
    with False show ?thesis by (simp add: quote_posix_arg_def loop_single_quoted del: tokenize_loop.simps)
  qed
qed

lemma loop_space: "tokenize_loop (32 # rest) ts cur None False = tokenize_loop rest (push_token ts cur) [] None False"
  by (simp add: is_ws_def)

lemma loop_quoted_args:
  "tokenize_loop (js_join [32] (map quote_posix_arg args)) ts [] None False = ts @ non_empty args"
proof (induction args arbitrary: ts)
  case Nil
  then show ?case by (simp add: non_empty_def push_token_def)
next
  case (Cons a args)
  have push: "push_token ts a = ts @ non_empty [a]" by (simp add: push_token_def non_empty_def)
  show ?case
  proof (cases args)
    case Nil
    then show ?thesis using loop_quoted_arg [of a "[]" ts "[]"] push by simp
  next
    case (Cons b bs)
    have "js_join [32] (map quote_posix_arg (a # args)) =
        quote_posix_arg a @ 32 # js_join [32] (map quote_posix_arg args)"
      using Cons by simp
    then have "tokenize_loop (js_join [32] (map quote_posix_arg (a # args))) ts [] None False =
        tokenize_loop (js_join [32] (map quote_posix_arg args)) (push_token ts a) [] None False"
      by (simp add: loop_quoted_arg loop_space del: tokenize_loop.simps)
    with Cons.IH [of "push_token ts a"] push show ?thesis by (simp add: non_empty_def)
  qed
qed

lemma tokenize_built: "tokenize_command (build_shell_command_for_kind ShellPosix args) = non_empty args"
  by (simp add: build_shell_command_for_kind_def tokenize_command_def loop_quoted_args)

section \<open>Tokens are never empty\<close>

lemma push_token_nonempty: "[] \<notin> set ts \<Longrightarrow> [] \<notin> set (push_token ts cur)"
  by (simp add: push_token_def)

lemma nonempty_if:
  "(b \<Longrightarrow> [] \<notin> set x) \<Longrightarrow> (\<not> b \<Longrightarrow> [] \<notin> set y) \<Longrightarrow> [] \<notin> set (if b then x else y)"
  by simp

lemma loop_nonempty: "[] \<notin> set ts \<Longrightarrow> [] \<notin> set (tokenize_loop cs ts cur q esc)"
proof (induction cs ts cur q esc rule: tokenize_loop.induct)
  case (2 c cs ts cur q esc)
  have push: "[] \<notin> set (push_token ts cur @ [[c]])" "[] \<notin> set (push_token ts cur @ [js ''&&''])"
    "[] \<notin> set (push_token ts cur @ [js ''||''])" "[] \<notin> set (push_token ts cur)"
    using "2.prems" push_token_nonempty by (auto simp: js_def)
  show ?case
    unfolding tokenize_loop.simps(2) [of c cs ts cur q esc]
    by (intro nonempty_if; (rule "2.IH"; (assumption | rule push "2.prems")))
qed (simp add: push_token_nonempty)

lemma tokens_nonempty: "t \<in> set (tokenize_command s) \<Longrightarrow> t \<noteq> []"
  using loop_nonempty [of "[]" s "[]" None False] unfolding tokenize_command_def by auto

section \<open>Program names\<close>

lemma has_windows_suffix_length: "has_windows_suffix s \<Longrightarrow> 4 \<le> length s"
proof -
  have "4 \<le> length s" if "ends_with x (map fold_case s)" "length x = 4" for x
    using that by (cases "4 \<le> length s") (auto simp: ends_with_def dest: arg_cong [of _ _ length])
  then show "has_windows_suffix s \<Longrightarrow> 4 \<le> length s"
    by (auto simp: has_windows_suffix_def windows_suffixes_def js_def)
qed

lemma basename_after_sep:
  assumes "list_all (\<lambda>c. \<not> is_line_end c) (dir @ [sep] @ name)" and "sep \<in> {47, 92}"
    and "47 \<notin> set name" "92 \<notin> set name"
  shows "command_basename (dir @ [sep] @ name) = name"
proof -
  let ?s = "dir @ [sep] @ name"
  have line: "takeWhile (\<lambda>c. \<not> is_line_end c) ?s = ?s"
    using assms(1) by (simp add: takeWhile_eq_all_conv list_all_iff del: append_Cons)
  have "takeWhile (\<lambda>c. c \<noteq> 92 \<and> c \<noteq> 47) (rev name @ sep # rev dir) = rev name"
    using assms(2-4) by (subst takeWhile_append2) auto
  then have "rev (takeWhile (\<lambda>c. c \<noteq> 92 \<and> c \<noteq> 47) (rev ?s)) = name" by simp
  then show ?thesis unfolding command_basename_def line Let_def by simp
qed

lemma basename_no_sep: "47 \<notin> set name \<Longrightarrow> 92 \<notin> set name \<Longrightarrow> command_basename name = name"
proof -
  assume "47 \<notin> set name" "92 \<notin> set name"
  then have eq: "takeWhile (\<lambda>c. c \<noteq> 92 \<and> c \<noteq> 47) (rev (takeWhile (\<lambda>c. \<not> is_line_end c) name)) =
      rev (takeWhile (\<lambda>c. \<not> is_line_end c) name)"
    by (subst takeWhile_eq_all_conv) (auto dest: set_takeWhileD)
  show ?thesis unfolding command_basename_def Let_def eq by (simp only: rev_rev_ident simp_thms if_True)
qed

lemma strip_added_suffix: "x \<in> set windows_suffixes \<Longrightarrow> strip_windows_suffix (name @ x) = name"
  by (auto simp: strip_windows_suffix_def has_windows_suffix_def windows_suffixes_def js_def
      ends_with_def fold_case_def is_upper_ascii_def)

text \<open>A path and a launcher suffix are not part of the program's name.\<close>

lemma program_name_of_path:
  assumes "list_all (\<lambda>c. \<not> is_line_end c) (dir @ [sep] @ name)" and "sep \<in> {47, 92}"
    and "47 \<notin> set name" "92 \<notin> set name" and "x \<in> set windows_suffixes"
  shows "command_program_name (dir @ [sep] @ name @ x) = name"
proof -
  have x: "47 \<notin> set x" "92 \<notin> set x" "list_all (\<lambda>c. \<not> is_line_end c) x"
    using assms(5) by (auto simp: windows_suffixes_def js_def is_line_end_def)
  then have "command_basename (dir @ [sep] @ (name @ x)) = name @ x"
    using assms(1-4) by (intro basename_after_sep) (auto simp: list_all_iff)
  then show ?thesis using strip_added_suffix [OF assms(5), of name] by (simp add: command_program_name_def)
qed

section \<open>Titles are short\<close>

lemma code_point_length: "p \<in> set (code_points s) \<Longrightarrow> length p \<le> 2"
  by (induction s rule: code_points.induct) (auto split: if_splits)

lemma length_concat_bound: "(\<And>p. p \<in> set ps \<Longrightarrow> length p \<le> k) \<Longrightarrow> length (concat ps) \<le> k * length ps"
  by (induction ps) (auto simp: add_le_mono)

lemma length_trim_end: "length (trim_end s) \<le> length s"
  unfolding trim_end_def using length_dropWhile_le [of is_ws "rev s"] by simp

lemma truncated_length: "length (truncate_command_title s) \<le> 93"
proof -
  have "length (concat (take 45 (code_points s))) \<le> 2 * length (take 45 (code_points s))"
    by (rule length_concat_bound) (auto dest: in_set_takeD code_point_length)
  also have "\<dots> \<le> 90" by simp
  finally have "length (trim_end (concat (take 45 (code_points s)))) \<le> 90"
    using length_trim_end le_trans by blast
  then show ?thesis by (auto simp: truncate_command_title_def command_title_limit_def js_def)
qed

lemma code_points_bmp: "(\<And>c. c \<in> set s \<Longrightarrow> c < 0xD800 \<or> 0xDFFF < c) \<Longrightarrow> code_points s = map (\<lambda>c. [c]) s"
  by (induction s rule: code_points.induct) fastforce+

lemma truncated_length_bmp:
  assumes "\<And>c. c \<in> set s \<Longrightarrow> c < 0xD800 \<or> 0xDFFF < c"
  shows "length (truncate_command_title s) \<le> 48"
proof -
  have "concat (take 45 (code_points s)) = take 45 s"
    by (simp add: code_points_bmp [OF assms] take_map)
  then have "length (trim_end (concat (take 45 (code_points s)))) \<le> 45"
    using length_trim_end [of "take 45 s"] by simp
  then show ?thesis by (auto simp: truncate_command_title_def command_title_limit_def js_def)
qed

lemma summarize_bounds:
  "length (summarize_command_line raw) \<le> 93"
  using truncated_length by (simp add: summarize_command_line_def Let_def default_command_title_def js_def)

section \<open>Where the halves differ\<close>

text \<open>A no-break space is not escaped but separates tokens, so such a path reads back as two.\<close>

lemma no_break_space_splits:
  "tokenize_command (shell_escape_posix [97, 160, 98]) = [[97], [98]]"
  by (simp add: shell_escape_posix_def tokenize_command_def posix_escapable_code is_ws_def push_token_def)

text \<open>Only one launcher suffix is stripped, so a program name can still end in one.\<close>

lemma second_suffix_stays:
  "command_argv0 (js ''a.exe.exe'') = Some (js ''a.exe'')"
proof -
  have chars: "js ''a.exe.exe'' = [97, 46, 101, 120, 101, 46, 101, 120, 101]" by (simp add: js_def)
  have words: "tokenize_command (js_trim (js ''a.exe.exe'')) = [[97, 46, 101, 120, 101, 46, 101, 120, 101]]"
    unfolding chars by (simp add: js_trim_def trim_start_def trim_end_def tokenize_command_def is_ws_def push_token_def)
  have name: "command_program_name [97, 46, 101, 120, 101, 46, 101, 120, 101] = [97, 46, 101, 120, 101]"
    by (simp add: command_program_name_def command_basename_def strip_windows_suffix_def has_windows_suffix_def
        windows_suffixes_def ends_with_def fold_case_def is_upper_ascii_def is_line_end_def js_def)
  show ?thesis
    unfolding command_argv0_def words
    by (simp add: take_primary_command_tokens_def is_separator_def is_env_assignment_def is_letter_def is_digit_def
        is_upper_ascii_def is_lower_ascii_def non_empty_def name js_def)
qed

end
