(* ===== verification/Term_Cwd.thy ===== *)
theory Term_Cwd
  imports Js_Text "HOL-Library.AList"
begin

text \<open>
  The working directory a Session reports: the \<open>CwdState\<close> part of
  \<open>lib/src/lib/terminal-state.ts\<close> (parsing of reported paths, path labels, the shortest labels
  that tell panes apart, and the match of \<open>dor ensure\<close>). JavaScript maps keep insertion order and
  are association lists. \<open>new URL\<close> and \<open>decodeURIComponent\<close> belong to the platform: they are the
  parameters \<open>parse_url\<close> and \<open>decode_uri\<close> (\<open>None\<close> where they throw); the Unicode
  \<open>toLowerCase\<close> of two arbitrary paths is the parameter \<open>lower\<close>.
\<close>

section \<open>State\<close>

datatype cwd_source = SrcOsc7 | SrcOsc9_9 | SrcOsc633 | SrcOsc1337 | SrcProcess | SrcManual

datatype path_kind = Posix | Windows | UnknownKind

record cwd_state =
  cwd_uri :: "js_text option"
  cwd_path :: js_text
  cwd_host :: "js_text option"
  cwd_scheme_file :: bool
  cwd_kind :: path_kind
  cwd_remote :: bool
  cwd_source :: cwd_source
  cwd_updated :: int

text \<open>A present, non-empty optional string (\<open>!!host\<close>).\<close>

definition truthy :: "js_text option \<Rightarrow> bool" where
  "truthy x = (case x of None \<Rightarrow> False | Some s \<Rightarrow> s \<noteq> [])"

section \<open>Reported paths\<close>

definition max_cwd_length :: nat where
  "max_cwd_length = 4096"

definition is_control :: "nat \<Rightarrow> bool" where
  "is_control c \<longleftrightarrow> c \<le> 0x1F \<or> 0x7F \<le> c \<and> c \<le> 0x9F"

definition bounded_cwd_value :: "js_text \<Rightarrow> js_text" where
  "bounded_cwd_value s =
     (let stripped = filter (\<lambda>c. \<not> is_control c) s
      in if length stripped \<le> max_cwd_length then stripped
         else concat (take max_cwd_length (code_points stripped)))"

definition is_unc_path :: "js_text \<Rightarrow> bool" where
  "is_unc_path p \<longleftrightarrow> starts_with [92, 92] p \<or> starts_with [47, 47] p"

text \<open>\<open>/^[A-Za-z]:(?:[\\/]|$)/\<close>.\<close>

fun drive_path :: "js_text \<Rightarrow> bool" where
  "drive_path (d # k # rest) = (is_letter d \<and> k = 58 \<and> (rest = [] \<or> hd rest = 92 \<or> hd rest = 47))"
| "drive_path _ = False"

definition is_windows_path :: "js_text \<Rightarrow> bool" where
  "is_windows_path p \<longleftrightarrow> drive_path p \<or> is_unc_path p"

definition infer_path_kind :: "js_text \<Rightarrow> path_kind" where
  "infer_path_kind p =
     (if is_windows_path p then Windows
      else if starts_with [47] p \<or> starts_with (js ''~/'') p then Posix
      else UnknownKind)"

definition is_remote_file_host :: "js_text option \<Rightarrow> bool" where
  "is_remote_file_host host \<longleftrightarrow> truthy host \<and> js_lower (the host) \<noteq> js ''localhost''"

text \<open>\<open>/^\/[A-Za-z]:\//\<close>.\<close>

definition normalize_file_uri_path :: "js_text \<Rightarrow> js_text" where
  "normalize_file_uri_path p =
     (case p of
        s # d # k # t # rest \<Rightarrow> if s = 47 \<and> is_letter d \<and> k = 58 \<and> t = 47 then tl p else p
      | _ \<Rightarrow> p)"

definition safe_decode :: "(js_text \<Rightarrow> js_text option) \<Rightarrow> js_text \<Rightarrow> js_text" where
  "safe_decode decode_uri s = (case decode_uri s of Some d \<Rightarrow> d | None \<Rightarrow> s)"

definition extract_file_uri_host :: "(js_text \<Rightarrow> js_text option) \<Rightarrow> js_text \<Rightarrow> js_text option" where
  "extract_file_uri_host decode_uri uri =
     (if map fold_case (take 7 uri) = js ''file://''
      then (let host = takeWhile (\<lambda>c. c \<notin> {47, 63, 35}) (drop 7 uri)
            in if host = [] then None else Some (safe_decode decode_uri host))
      else None)"

definition file_uri_host ::
    "(js_text \<Rightarrow> js_text) \<Rightarrow> (js_text \<Rightarrow> js_text option) \<Rightarrow> js_text \<Rightarrow> js_text \<Rightarrow> js_text" where
  "file_uri_host lower decode_uri uri parsed_hostname =
     (let sliced = extract_file_uri_host decode_uri uri
      in if \<not> truthy sliced then parsed_hostname
         else if lower (the sliced) = parsed_hostname then the sliced
         else if parsed_hostname = [] \<and> js_lower (the sliced) = js ''localhost'' then the sliced
         else parsed_hostname)"

record parsed_url =
  url_protocol :: js_text
  url_hostname :: js_text
  url_pathname :: js_text

definition cwd_from_osc7 ::
    "(js_text \<Rightarrow> js_text) \<Rightarrow> (js_text \<Rightarrow> js_text option) \<Rightarrow> (js_text \<Rightarrow> parsed_url option) \<Rightarrow>
     js_text \<Rightarrow> int \<Rightarrow> cwd_state option" where
  "cwd_from_osc7 lower decode_uri parse_url raw_uri_input now =
     (let raw_uri = bounded_cwd_value raw_uri_input
      in case parse_url raw_uri of
           None \<Rightarrow> None
         | Some parsed \<Rightarrow>
             if url_protocol parsed \<noteq> js ''file:'' then None
             else
               (let decoded = bounded_cwd_value
                      (normalize_file_uri_path (safe_decode decode_uri (url_pathname parsed)));
                    h = bounded_cwd_value (file_uri_host lower decode_uri raw_uri (url_hostname parsed));
                    host = (if h = [] then None else Some h)
                in Some \<lparr>cwd_uri = Some raw_uri, cwd_path = decoded, cwd_host = host,
                         cwd_scheme_file = True, cwd_kind = infer_path_kind decoded,
                         cwd_remote = is_remote_file_host host, cwd_source = SrcOsc7,
                         cwd_updated = now\<rparr>))"

definition cwd_from_osc9_9 :: "js_text \<Rightarrow> int \<Rightarrow> cwd_state option" where
  "cwd_from_osc9_9 raw_path now =
     (let path = bounded_cwd_value raw_path
      in if path = [] then None
         else Some \<lparr>cwd_uri = None, cwd_path = path, cwd_host = None, cwd_scheme_file = False,
                    cwd_kind = (if is_windows_path path then Windows else UnknownKind),
                    cwd_remote = is_unc_path path, cwd_source = SrcOsc9_9, cwd_updated = now\<rparr>)"

definition cwd_from_decoded_path :: "js_text \<Rightarrow> cwd_source \<Rightarrow> int \<Rightarrow> cwd_state option" where
  "cwd_from_decoded_path raw_path source now =
     (let path = bounded_cwd_value raw_path
      in if path = [] then None
         else Some \<lparr>cwd_uri = None, cwd_path = path, cwd_host = None, cwd_scheme_file = False,
                    cwd_kind = infer_path_kind path, cwd_remote = is_unc_path path,
                    cwd_source = source, cwd_updated = now\<rparr>)"

definition process_cwd_may_replace :: "cwd_source option \<Rightarrow> bool" where
  "process_cwd_may_replace source \<longleftrightarrow>
     source = None \<or> source = Some SrcProcess \<or> source = Some SrcManual"

section \<open>Identity\<close>

fun kind_name :: "path_kind \<Rightarrow> js_text" where
  "kind_name Posix = js ''posix''"
| "kind_name Windows = js ''windows''"
| "kind_name UnknownKind = js ''unknown''"

definition cwd_identity :: "cwd_state \<Rightarrow> js_text" where
  "cwd_identity c =
     (if cwd_scheme_file c then js ''file'' else js ''path'') @ [124] @
     (case cwd_host c of None \<Rightarrow> [] | Some h \<Rightarrow> h) @ [124] @ kind_name (cwd_kind c) @ [124] @ cwd_path c"

definition same_cwd :: "cwd_state \<Rightarrow> cwd_state \<Rightarrow> bool" where
  "same_cwd a b \<longleftrightarrow> cwd_identity a = cwd_identity b \<and> cwd_source a = cwd_source b"

section \<open>Labels\<close>

record path_parts_rec =
  pp_root :: js_text
  pp_segments :: "js_text list"
  pp_separator :: nat

text \<open>\<open>/^\\\\([^\\]+)\\([^\\]+)\\?(.*)$/\<close> on a path whose slashes are backslashes.\<close>

definition is_line_terminator :: "nat \<Rightarrow> bool" where
  "is_line_terminator c \<longleftrightarrow> c = 10 \<or> c = 13 \<or> c = 0x2028 \<or> c = 0x2029"

definition no_line_end :: "js_text \<Rightarrow> bool" where
  "no_line_end s \<longleftrightarrow> list_all (\<lambda>c. \<not> is_line_terminator c) s"

definition skip_backslash :: "js_text \<Rightarrow> js_text" where
  "skip_backslash s = (if s \<noteq> [] \<and> hd s = 92 then tl s else s)"

definition match_unc :: "js_text \<Rightarrow> (js_text \<times> js_text \<times> js_text) option" where
  "match_unc s =
     (if starts_with [92, 92] s
      then (let server = takeWhile (\<lambda>c. c \<noteq> 92) (drop 2 s);
                after = dropWhile (\<lambda>c. c \<noteq> 92) (drop 2 s);
                share = takeWhile (\<lambda>c. c \<noteq> 92) (tl after);
                rest = skip_backslash (dropWhile (\<lambda>c. c \<noteq> 92) (tl after))
            in if server = [] \<or> after = [] \<or> share = [] \<or> \<not> no_line_end rest then None
               else Some (server, share, rest))
      else None)"

fun match_drive :: "js_text \<Rightarrow> (js_text \<times> js_text) option" where
  "match_drive (d # k # rest) =
     (if is_letter d \<and> k = 58 \<and> no_line_end (skip_backslash rest)
      then Some ([d, k], skip_backslash rest) else None)"
| "match_drive _ = None"

definition path_parts :: "js_text \<Rightarrow> path_kind \<Rightarrow> path_parts_rec" where
  "path_parts path kind =
     (if kind = Windows
      then (let normalized = replace_unit 47 [92] path
            in case match_unc normalized of
                 Some (server, share, rest) \<Rightarrow>
                   \<lparr>pp_root = [92, 92] @ server @ [92] @ share @ [92],
                    pp_segments = non_empty (js_split 92 rest), pp_separator = 92\<rparr>
               | None \<Rightarrow>
                   (case match_drive normalized of
                      Some (drive, rest) \<Rightarrow>
                        \<lparr>pp_root = drive @ [92], pp_segments = non_empty (js_split 92 rest),
                         pp_separator = 92\<rparr>
                    | None \<Rightarrow>
                        \<lparr>pp_root = [], pp_segments = non_empty (js_split 92 normalized),
                         pp_separator = 92\<rparr>))
      else \<lparr>pp_root = (if starts_with [47] path then [47] else []),
            pp_segments = non_empty (js_split 47 path), pp_separator = 47\<rparr>)"

definition default_directory_label :: js_text where
  "default_directory_label = js ''Unknown directory''"

definition last_segments :: "nat \<Rightarrow> js_text list \<Rightarrow> js_text list" where
  "last_segments k segs = drop (length segs - k) segs"

definition format_trailing_path :: "js_text \<Rightarrow> path_kind \<Rightarrow> nat \<Rightarrow> js_text" where
  "format_trailing_path path kind depth =
     (let parts = path_parts path kind
      in if pp_segments parts = []
         then (if pp_root parts \<noteq> [] then pp_root parts
               else if path \<noteq> [] then path else default_directory_label)
         else (let tail_of = js_join [pp_separator parts] (last_segments (max 1 depth) (pp_segments parts))
               in if kind = Windows \<and> pp_root parts \<noteq> [] \<and> length (pp_segments parts) \<le> depth
                  then pp_root parts @ tail_of else tail_of))"

definition format_full_path :: "(js_text \<Rightarrow> js_text) \<Rightarrow> js_text \<Rightarrow> js_text option \<Rightarrow> js_text" where
  "format_full_path lower path home_path =
     (if \<not> truthy home_path then path
      else
        (let hp = the home_path;
             norm = (\<lambda>s. if is_windows_path hp then lower (replace_unit 92 [47] s) else s);
             nh = norm hp;
             home = (if nh \<noteq> [] \<and> last nh = 47 then butlast nh else nh);
             candidate = norm path
         in if candidate = home \<or> starts_with (home @ [47]) candidate
            then 126 # drop (length home) path else path))"

datatype host_mode = HostAuto | HostAlways | HostNever

datatype path_style = StyleBasename | StyleShort | StyleFull

record display_options =
  include_host :: host_mode
  path_style_of :: path_style
  max_segments :: nat
  home_path_of :: "js_text option"

definition cwd_display :: "(js_text \<Rightarrow> js_text) \<Rightarrow> cwd_state \<Rightarrow> display_options \<Rightarrow> js_text" where
  "cwd_display lower c o' =
     (let label = (if path_style_of o' = StyleFull then format_full_path lower (cwd_path c) (home_path_of o')
                   else format_trailing_path (cwd_path c) (cwd_kind c)
                          (if path_style_of o' = StyleBasename then 1 else max_segments o'));
          should = (include_host o' = HostAlways \<or>
                    include_host o' = HostAuto \<and> cwd_remote c \<and> truthy (cwd_host c))
      in if should \<and> truthy (cwd_host c) then the (cwd_host c) @ [58] @ label else label)"

text \<open>The first directory of each identity, in order.\<close>

fun unique_by_identity_from :: "cwd_state list \<Rightarrow> js_text list \<Rightarrow> cwd_state list" where
  "unique_by_identity_from [] seen = []"
| "unique_by_identity_from (c # cs) seen =
     (if cwd_identity c \<in> set seen then unique_by_identity_from cs seen
      else c # unique_by_identity_from cs (cwd_identity c # seen))"

definition unique_by_identity :: "cwd_state list \<Rightarrow> cwd_state list" where
  "unique_by_identity cs = unique_by_identity_from cs []"

type_synonym labels = "(js_text \<times> js_text) list"

text \<open>The label of a directory; an empty label is skipped by the code like a missing one.\<close>

definition label_of :: "labels \<Rightarrow> cwd_state \<Rightarrow> js_text option" where
  "label_of ls c = (case map_of ls (cwd_identity c) of Some [] \<Rightarrow> None | x \<Rightarrow> x)"

definition label_collisions :: "cwd_state list \<Rightarrow> labels \<Rightarrow> js_text set" where
  "label_collisions cs ls =
     {l \<in> set (List.map_filter (label_of ls) cs). 1 < length (filter (\<lambda>c. label_of ls c = Some l) cs)}"

text \<open>The groups of \<open>withRequiredHostPrefixes\<close>: directories that share a base label.\<close>

definition label_group :: "cwd_state list \<Rightarrow> labels \<Rightarrow> js_text \<Rightarrow> cwd_state list" where
  "label_group cs ls l = filter (\<lambda>c. label_of ls c = Some l) cs"

definition host_prefix_needed :: "cwd_state list \<Rightarrow> cwd_state \<Rightarrow> host_mode \<Rightarrow> bool" where
  "host_prefix_needed grp c mode =
     (let has_collision = 1 < length grp;
          same_path_different_hosts =
            card (set (map cwd_path grp)) < length grp \<and>
            1 < card (set (map (\<lambda>c. case cwd_host c of None \<Rightarrow> [] | Some h \<Rightarrow> h) grp))
      in mode = HostAlways \<or>
         mode = HostAuto \<and> truthy (cwd_host c) \<and>
           (cwd_remote c \<or> has_collision \<and> same_path_different_hosts))"

definition with_required_host_prefixes :: "cwd_state list \<Rightarrow> labels \<Rightarrow> host_mode \<Rightarrow> labels" where
  "with_required_host_prefixes cs base mode =
     fold (\<lambda>c ls. case label_of base c of
                    None \<Rightarrow> ls
                  | Some l \<Rightarrow>
                      if host_prefix_needed (label_group cs base l) c mode \<and> truthy (cwd_host c)
                      then AList.update (cwd_identity c) (the (cwd_host c) @ [58] @ l) ls else ls)
          cs base"

definition base_labels :: "cwd_state list \<Rightarrow> nat \<Rightarrow> labels" where
  "base_labels cs depth =
     fold (\<lambda>c ls. AList.update (cwd_identity c) (format_trailing_path (cwd_path c) (cwd_kind c) depth) ls) cs []"

text \<open>The depths still to try, with the labels of the last depth tried.\<close>

fun labels_at_depths :: "cwd_state list \<Rightarrow> host_mode \<Rightarrow> nat list \<Rightarrow> labels \<Rightarrow> labels \<times> bool" where
  "labels_at_depths cs mode [] ls = (ls, False)"
| "labels_at_depths cs mode (d # ds) ls =
     (let ls' = with_required_host_prefixes cs (base_labels cs d) mode
      in if label_collisions cs ls' = {} then (ls', True) else labels_at_depths cs mode ds ls')"

definition depth_of :: "cwd_state \<Rightarrow> nat" where
  "depth_of c = length (pp_segments (path_parts (cwd_path c) (cwd_kind c)))"

text \<open>The last resort for directories whose labels still collide: the host in front.\<close>

definition relabel ::
    "(js_text \<Rightarrow> js_text) \<Rightarrow> display_options \<Rightarrow> js_text set \<Rightarrow> cwd_state \<Rightarrow> labels \<Rightarrow> labels" where
  "relabel lower o' remaining c ls =
     (let label = (case map_of ls (cwd_identity c) of
                     Some l \<Rightarrow> l | None \<Rightarrow> cwd_display lower c o');
          needs = (include_host o' = HostAlways \<or>
                   include_host o' = HostAuto \<and> (cwd_remote c \<or> label \<in> remaining))
      in AList.update (cwd_identity c)
           (if needs \<and> truthy (cwd_host c) then the (cwd_host c) @ [58] @ label else label) ls)"

definition shortest_unique_cwd_labels ::
    "(js_text \<Rightarrow> js_text) \<Rightarrow> cwd_state list \<Rightarrow> display_options \<Rightarrow> labels" where
  "shortest_unique_cwd_labels lower cwds o' =
     (let unique = unique_by_identity cwds
      in if unique = [] then []
         else
           (let max_depth = fold max (map depth_of unique) 1;
                (ls, done) = labels_at_depths unique (include_host o') [1..<Suc max_depth] []
            in if done then ls
               else
                 fold (relabel lower o' (label_collisions unique ls)) unique ls))"

section \<open>Matching directories across dialects\<close>

definition upper_first :: "js_text \<Rightarrow> js_text" where
  "upper_first s = (case s of [] \<Rightarrow> [] | c # cs \<Rightarrow> (if is_lower_ascii c then c - 32 else c) # cs)"

fun msys_drive :: "js_text \<Rightarrow> js_text" where
  "msys_drive (s # d # t # rest) =
     (if s = 47 \<and> is_letter d \<and> t = 47 then d # 58 # 47 # rest else s # d # t # rest)"
| "msys_drive p = p"

definition canonicalize_cwd_for_match :: "js_text \<Rightarrow> js_text" where
  "canonicalize_cwd_for_match path =
     (let with_drive = msys_drive path
      in if drive_path with_drive \<and> 3 \<le> length with_drive
         then upper_first (replace_unit 47 [92] with_drive) else path)"

end
