(* ===== verification/Term_State.thy ===== *)
theory Term_State
  imports Shell_Command Term_Cwd "HOL-Library.Product_Lexorder"
begin

text \<open>
  The semantic state of a terminal pane: the reducer of \<open>lib/src/lib/terminal-state.ts\<close> over the
  events the shell reports, the titles and the header derived from it, and the grouping of panes.
  Title candidates are an object keyed by source, an association list in insertion order. The
  clock and the fresh run id the reducer asks for are its arguments \<open>now\<close> and \<open>new_id\<close>.
\<close>

section \<open>State\<close>

datatype shell_activity =
    ActUnknown | ActPrompt | ActEditing | ActRunning | ActFinished "int option"

datatype title_source = TOsc0 | TOsc2 | TOsc9 | TOsc99 | TOsc777 | TUser

record terminal_title =
  tt_title :: js_text
  tt_source :: title_source
  tt_updated :: int

type_synonym title_candidates = "(title_source \<times> terminal_title) list"

record command_run =
  run_id :: js_text
  run_raw :: "js_text option"
  run_display :: js_text
  run_cwd :: "cwd_state option"
  run_started :: int
  run_finished :: "int option"
  run_exit :: "int option"
  run_source :: command_run_source
  run_final_title :: "terminal_title option"

record pane_state =
  ps_cwd :: "cwd_state option"
  ps_activity :: shell_activity
  ps_pending :: "js_text option"
  ps_current :: "command_run option"
  ps_last :: "command_run option"
  ps_title :: "terminal_title option"
  ps_candidates :: title_candidates

datatype semantic_event =
    EvCwd cwd_state
  | EvPromptStart
  | EvPromptEnd
  | EvCommandLine js_text
  | EvCommandStart command_start
  | EvCommandFinish "int option" "int option"
  | EvTitle terminal_title

definition default_pane_state :: pane_state where
  "default_pane_state =
     \<lparr>ps_cwd = None, ps_activity = ActUnknown, ps_pending = None, ps_current = None,
      ps_last = None, ps_title = None, ps_candidates = []\<rparr>"

definition default_idle_title :: js_text where
  "default_idle_title = js ''<idle>''"

definition command_fail_glyph :: js_text where
  "command_fail_glyph = [0x2717]"

definition unnamed_panel_title :: js_text where
  "unnamed_panel_title = js ''<unnamed>''"

text \<open>Of several titles, the first with the latest time stamp.\<close>

fun newest_title :: "terminal_title option \<Rightarrow> terminal_title list \<Rightarrow> terminal_title option" where
  "newest_title best [] = best"
| "newest_title best (t # ts) =
     newest_title (case best of
                     None \<Rightarrow> Some t
                   | Some b \<Rightarrow> if tt_updated t > tt_updated b then Some t else best) ts"

text \<open>\<open>createTerminalPaneState\<close>; a missing field of \<open>initial\<close> has its default.\<close>

definition create_pane_state :: "pane_state \<Rightarrow> pane_state" where
  "create_pane_state initial =
     (let cands = (case ps_title initial of
                     Some t \<Rightarrow> AList.update (tt_source t) t (ps_candidates initial)
                   | None \<Rightarrow> ps_candidates initial);
          title = (case ps_title initial of
                     Some t \<Rightarrow> Some t
                   | None \<Rightarrow> newest_title None (map snd cands))
      in initial\<lparr>ps_title := title, ps_candidates := cands\<rparr>)"

section \<open>Titles of a run\<close>

definition header_app_title_sources :: "title_source list" where
  "header_app_title_sources = [TOsc0, TOsc2, TOsc9]"

definition latest_title_candidate :: "pane_state \<Rightarrow> terminal_title option" where
  "latest_title_candidate s =
     newest_title None (filter (\<lambda>t. tt_source t \<in> set header_app_title_sources) (map snd (ps_candidates s)))"

text \<open>The shell name is an option of \<open>deriveFallbackCommandTitle\<close>.\<close>

definition derive_fallback_command_title :: "pane_state option \<Rightarrow> js_text option \<Rightarrow> js_text" where
  "derive_fallback_command_title state shell_name =
     (let title = (case Option.bind state latest_title_candidate of
                     None \<Rightarrow> [] | Some t \<Rightarrow> js_trim (tt_title t));
          name = (case shell_name of None \<Rightarrow> [] | Some n \<Rightarrow> js_trim n)
      in if title \<noteq> [] then title else if name \<noteq> [] then name else default_command_title)"

text \<open>The scan of the header sources for titles sent during a run that ends at \<open>until\<close>.\<close>

definition titles_in_run :: "pane_state \<Rightarrow> int \<Rightarrow> int option \<Rightarrow> terminal_title list" where
  "titles_in_run s from_time until =
     filter (\<lambda>t. \<not> tt_updated t < from_time \<and>
                 (case until of None \<Rightarrow> True | Some u \<Rightarrow> \<not> tt_updated t > u))
       (List.map_filter (map_of (ps_candidates s)) header_app_title_sources)"

definition snapshot_in_run_title :: "pane_state \<Rightarrow> command_run \<Rightarrow> int \<Rightarrow> terminal_title option" where
  "snapshot_in_run_title s run finished_at =
     newest_title None (titles_in_run s (run_started run) (Some finished_at))"

definition find_in_run_title :: "pane_state \<Rightarrow> command_run \<Rightarrow> terminal_title option" where
  "find_in_run_title s run = newest_title None (titles_in_run s (run_started run) (run_finished run))"

section \<open>The reducer\<close>

definition finished_command :: "pane_state \<Rightarrow> command_run \<Rightarrow> int \<Rightarrow> int option \<Rightarrow> command_run" where
  "finished_command s run finished_at exit_code =
     (let r = run\<lparr>run_finished := Some finished_at, run_exit := exit_code\<rparr>
      in case snapshot_in_run_title s run finished_at of
           None \<Rightarrow> r
         | Some t \<Rightarrow> r\<lparr>run_final_title := Some t\<rparr>)"

definition reduce_terminal_state :: "int \<Rightarrow> js_text \<Rightarrow> pane_state \<Rightarrow> semantic_event \<Rightarrow> pane_state" where
  "reduce_terminal_state now new_id s e =
     (case e of
        EvCwd c \<Rightarrow>
          (case ps_cwd s of
             Some old \<Rightarrow> if same_cwd old c then s else s\<lparr>ps_cwd := Some c\<rparr>
           | None \<Rightarrow> s\<lparr>ps_cwd := Some c\<rparr>)
      | EvPromptStart \<Rightarrow>
          if ps_activity s = ActPrompt \<and> ps_pending s = None \<and> ps_current s = None then s
          else s\<lparr>ps_activity := ActPrompt, ps_current := None, ps_pending := None\<rparr>
      | EvPromptEnd \<Rightarrow>
          if ps_activity s = ActEditing \<and> ps_pending s = None \<and> ps_current s = None then s
          else s\<lparr>ps_activity := ActEditing, ps_current := None, ps_pending := None\<rparr>
      | EvCommandLine l \<Rightarrow>
          if ps_pending s = Some l then s else s\<lparr>ps_pending := Some l\<rparr>
      | EvCommandStart cs \<Rightarrow>
          (let r = resolve_command_start (ps_pending s) cs now (derive_fallback_command_title (Some s) None)
           in s\<lparr>ps_current := Some \<lparr>run_id = new_id, run_raw = rs_raw r, run_display = rs_display r,
                                     run_cwd = ps_cwd s, run_started = rs_started_at r,
                                     run_finished = None, run_exit = None, run_source = rs_source r,
                                     run_final_title = None\<rparr>,
                 ps_activity := ActRunning, ps_pending := None\<rparr>)
      | EvCommandFinish exit_code finished_at \<Rightarrow>
          (case ps_current s of
             None \<Rightarrow>
               if ps_activity s = ActFinished exit_code then s
               else s\<lparr>ps_activity := ActFinished exit_code\<rparr>
           | Some run \<Rightarrow>
               (let fin = (case finished_at of Some f \<Rightarrow> f | None \<Rightarrow> now)
                in s\<lparr>ps_current := None, ps_last := Some (finished_command s run fin exit_code),
                      ps_activity := ActFinished exit_code\<rparr>))
      | EvTitle t \<Rightarrow>
          if ps_title s = Some t \<and> map_of (ps_candidates s) (tt_source t) = Some t then s
          else s\<lparr>ps_title := Some t, ps_candidates := AList.update (tt_source t) t (ps_candidates s)\<rparr>)"

definition surface_runs_command :: "pane_state \<Rightarrow> js_text \<Rightarrow> js_text \<Rightarrow> bool" where
  "surface_runs_command s command cwd =
     (case ps_current s of
        None \<Rightarrow> False
      | Some run \<Rightarrow>
          if run_raw run \<noteq> Some command then False
          else
            (let run_cwd_path = (case run_cwd run of
                                   Some c \<Rightarrow> Some (cwd_path c)
                                 | None \<Rightarrow> map_option cwd_path (ps_cwd s))
             in case run_cwd_path of
                  None \<Rightarrow> False
                | Some p \<Rightarrow> canonicalize_cwd_for_match p = canonicalize_cwd_for_match cwd))"

section \<open>Meaningful titles\<close>

definition generic_process_title_names :: "js_text list" where
  "generic_process_title_names =
     map js [''cmd'', ''powershell'', ''pwsh'', ''bash'', ''sh'', ''zsh'', ''fish'', ''dash'', ''ksh'',
             ''csh'', ''tcsh'', ''wsl'', ''conhost'']"

definition is_generic_process_title :: "js_text \<Rightarrow> bool" where
  "is_generic_process_title title =
     (let trimmed = js_trim title
      in if trimmed = [] then False
         else
           (let basename = command_basename trimmed
            in if list_ex is_ws basename then False
               else if has_windows_suffix basename then True
               else js_lower basename \<in> set generic_process_title_names))"

definition meaningful_title :: "js_text \<Rightarrow> js_text option" where
  "meaningful_title title =
     (let trimmed = js_trim title
      in if trimmed = [] \<or> is_generic_process_title trimmed then None
         else
           (case index_of (js '' - '') trimmed of
              Some k \<Rightarrow>
                if 0 < k \<and> is_generic_process_title (take k trimmed)
                then (let rest = js_trim (drop (k + 3) trimmed) in if rest = [] then None else Some rest)
                else Some trimmed
            | None \<Rightarrow> Some trimmed))"

definition title_for_command :: "pane_state \<Rightarrow> command_run \<Rightarrow> js_text option" where
  "title_for_command s run =
     (let snap = (if run_finished run \<noteq> None
                  then Option.bind (run_final_title run) (\<lambda>t. meaningful_title (tt_title t)) else None)
      in case snap of
           Some x \<Rightarrow> Some x
         | None \<Rightarrow>
             (case find_in_run_title s run of
                None \<Rightarrow> None
              | Some t \<Rightarrow> if tt_title t = [] then None else meaningful_title (tt_title t)))"

section \<open>The header\<close>

type_synonym app_titles = "pane_state \<Rightarrow> js_text option"

definition title_from :: "pane_state \<Rightarrow> title_source \<Rightarrow> terminal_title option" where
  "title_from s source = map_of (ps_candidates s) source"

definition trimmed_title :: "js_text option \<Rightarrow> js_text" where
  "trimmed_title t = (case t of None \<Rightarrow> [] | Some x \<Rightarrow> js_trim x)"

definition is_app_title_fresh_for :: "pane_state \<Rightarrow> command_run \<Rightarrow> bool" where
  "is_app_title_fresh_for s run =
     (case title_from s TOsc9 of
        None \<Rightarrow> True
      | Some t \<Rightarrow>
          \<not> tt_updated t < run_started run \<and>
          (case run_finished run of None \<Rightarrow> True | Some f \<Rightarrow> \<not> tt_updated t > f))"

definition command_header_label :: "app_titles \<Rightarrow> pane_state \<Rightarrow> command_run \<Rightarrow> js_text" where
  "command_header_label app s run =
     (let app_title = trimmed_title (app s)
      in if app_title \<noteq> [] \<and> is_app_title_fresh_for s run then app_title
         else case title_for_command s run of
                Some t \<Rightarrow> t
              | None \<Rightarrow> run_display run)"

definition last_command_failed :: "command_run \<Rightarrow> bool" where
  "last_command_failed run = (case run_exit run of None \<Rightarrow> False | Some c \<Rightarrow> c \<noteq> 0)"

definition header_primary :: "app_titles \<Rightarrow> pane_state \<Rightarrow> js_text \<times> bool" where
  "header_primary app s =
     (let user = trimmed_title (map_option tt_title (title_from s TUser))
      in if user \<noteq> [] then (user, False)
         else case ps_current s of
                Some run \<Rightarrow> (command_header_label app s run, False)
              | None \<Rightarrow>
                  (case ps_last s of
                     Some run \<Rightarrow>
                       (let idle = default_idle_title @ [32] @ command_header_label app s run;
                            failed = last_command_failed run
                        in (if failed then idle @ [32] @ command_fail_glyph else idle, failed))
                   | None \<Rightarrow> (default_idle_title, False)))"

definition cwd_for_header :: "pane_state \<Rightarrow> cwd_state option" where
  "cwd_for_header s =
     (case Option.bind (ps_current s) run_cwd of Some c \<Rightarrow> Some c | None \<Rightarrow> ps_cwd s)"

record derived_header =
  dh_primary :: js_text
  dh_secondary :: "js_text option"
  dh_failed :: bool

definition derive_header ::
    "(js_text \<Rightarrow> js_text) \<Rightarrow> app_titles \<Rightarrow> pane_state \<Rightarrow> pane_state list \<Rightarrow> display_options \<Rightarrow> derived_header" where
  "derive_header lower app pane visible o' =
     (let (text, failed) = header_primary app pane;
          same = filter (\<lambda>p. fst (header_primary app p) = text) visible;
          secondary =
            (if 1 < length same
             then (case cwd_for_header pane of
                     Some c \<Rightarrow>
                       (case map_of (shortest_unique_cwd_labels lower (List.map_filter cwd_for_header same) o')
                               (cwd_identity c) of
                          Some l \<Rightarrow> Some l
                        | None \<Rightarrow> Some (cwd_display lower c o'))
                   | None \<Rightarrow> Some default_directory_label)
             else None)
      in \<lparr>dh_primary = text, dh_secondary = secondary, dh_failed = failed\<rparr>)"

definition resolve_display_primary :: "js_text \<Rightarrow> js_text option \<Rightarrow> js_text" where
  "resolve_display_primary primary fallback =
     (if primary = default_idle_title then primary
      else if primary \<noteq> default_command_title then primary
      else (let trimmed = trimmed_title fallback
            in if trimmed \<noteq> [] \<and> trimmed \<noteq> unnamed_panel_title then trimmed else primary))"

definition derive_surface_label :: "app_titles \<Rightarrow> pane_state \<Rightarrow> js_text option \<Rightarrow> js_text" where
  "derive_surface_label app pane fallback = resolve_display_primary (fst (header_primary app pane)) fallback"

section \<open>Notifications as titles\<close>

text \<open>A notification as the header sees it: source, title and body, each possibly absent.\<close>

record notification_like =
  nl_source :: "js_text option"
  nl_title :: "js_text option"
  nl_body :: "js_text option"

definition notification_display_title :: "notification_like option \<Rightarrow> js_text option" where
  "notification_display_title n =
     (case n of
        None \<Rightarrow> None
      | Some x \<Rightarrow>
          if nl_source x = Some (js ''OSC 9'') \<and> trimmed_title (nl_body x) \<noteq> []
          then Some (trimmed_title (nl_body x)) else None)"

definition title_from_notification :: "notification_like option \<Rightarrow> int \<Rightarrow> terminal_title option" where
  "title_from_notification n updated =
     (case n of
        None \<Rightarrow> None
      | Some x \<Rightarrow>
          let mk = (\<lambda>t src. if t = [] then None
                            else Some \<lparr>tt_title = t, tt_source = src, tt_updated = updated\<rparr>)
          in if nl_source x = Some (js ''OSC 9'')
             then (case notification_display_title n of None \<Rightarrow> None | Some t \<Rightarrow> mk t TOsc9)
             else if nl_source x = Some (js ''OSC 99'') then mk (trimmed_title (nl_title x)) TOsc99
             else if nl_source x = Some (js ''OSC 777'') then mk (trimmed_title (nl_title x)) TOsc777
             else None)"

section \<open>Explaining a title\<close>

text \<open>The order of \<open>localeCompare\<close> on the six source names.\<close>

fun source_rank :: "title_source \<Rightarrow> nat" where
  "source_rank TOsc0 = 0"
| "source_rank TOsc2 = 1"
| "source_rank TOsc777 = 2"
| "source_rank TOsc9 = 3"
| "source_rank TOsc99 = 4"
| "source_rank TUser = 5"

fun title_source_label :: "title_source \<Rightarrow> js_text" where
  "title_source_label TOsc0 = js ''OSC 0''"
| "title_source_label TOsc2 = js ''OSC 2''"
| "title_source_label TOsc9 = js ''OSC 9''"
| "title_source_label TOsc99 = js ''OSC 99''"
| "title_source_label TOsc777 = js ''OSC 777''"
| "title_source_label TUser = js ''user''"

definition candidates_for_display :: "pane_state \<Rightarrow> terminal_title list" where
  "candidates_for_display s =
     sort_key (\<lambda>t. (- tt_updated t, source_rank (tt_source t))) (map snd (ps_candidates s))"

definition same_stamp :: "terminal_title \<Rightarrow> terminal_title \<Rightarrow> bool" where
  "same_stamp a b \<longleftrightarrow> tt_source a = tt_source b \<and> tt_updated a = tt_updated b"

record explain_row =
  er_source :: js_text
  er_value :: js_text
  er_note :: js_text

definition explain_terminal_title :: "app_titles \<Rightarrow> pane_state \<Rightarrow> explain_row list" where
  "explain_terminal_title app s =
     (let user = trimmed_title (map_option tt_title (title_from s TUser));
          command = (case ps_current s of Some r \<Rightarrow> Some r | None \<Rightarrow> ps_last s);
          app_title = trimmed_title (app s);
          app_wins = (user = [] \<and> app_title \<noteq> [] \<and>
                      (case command of None \<Rightarrow> False | Some r \<Rightarrow> is_app_title_fresh_for s r));
          terminal = (case command of
                        Some r \<Rightarrow> if user = [] \<and> \<not> app_wins then title_for_command s r else None
                      | None \<Rightarrow> None);
          winner = (case (terminal, command) of
                      (Some _, Some r) \<Rightarrow>
                        (case run_final_title r of
                           Some t \<Rightarrow> if run_finished r \<noteq> None \<and> meaningful_title (tt_title t) \<noteq> None
                                     then Some t else find_in_run_title s r
                         | None \<Rightarrow> find_in_run_title s r)
                    | _ \<Rightarrow> None);
          candidates = candidates_for_display s;
          rows = map (\<lambda>c. \<lparr>er_source = title_source_label (tt_source c), er_value = tt_title c,
                            er_note = (if tt_source c = TUser \<and> user \<noteq> [] then js ''Used''
                                       else if (case winner of None \<Rightarrow> False | Some w \<Rightarrow> same_stamp c w)
                                       then js ''Used by command title'' else js ''Not used'')\<rparr>) candidates;
          extra = (case winner of
                     None \<Rightarrow> []
                   | Some w \<Rightarrow>
                       if list_ex (\<lambda>c. same_stamp c w) candidates then []
                       else [\<lparr>er_source = title_source_label (tt_source w) @ js '' (command)'',
                              er_value = tt_title w, er_note = js ''Used by command title''\<rparr>]);
          app_row = (if app_wins then [\<lparr>er_source = js ''Notification'', er_value = app_title,
                                        er_note = js ''Used''\<rparr>] else []);
          command_row = (case command of
                           None \<Rightarrow> []
                         | Some r \<Rightarrow> [\<lparr>er_source = js ''Command'', er_value = run_display r,
                             er_note = (if user = [] \<and> \<not> app_wins \<and> terminal = None then js ''Used''
                                        else js ''Fallback'')\<rparr>])
      in rows @ extra @ app_row @ command_row @
         [\<lparr>er_source = js ''Result'', er_value = fst (header_primary app s),
           er_note = (if ps_current s \<noteq> None then js ''Running'' else js ''Idle'')\<rparr>])"

section \<open>Grouping\<close>

datatype grouping_mode = GroupNone | GroupDirectory | GroupCommand | GroupStatus

record terminal_group =
  tg_key :: js_text
  tg_label :: js_text
  tg_panes :: "pane_state list"

fun add_to_groups :: "js_text \<Rightarrow> js_text \<Rightarrow> pane_state \<Rightarrow> terminal_group list \<Rightarrow> terminal_group list" where
  "add_to_groups k l p [] = [\<lparr>tg_key = k, tg_label = l, tg_panes = [p]\<rparr>]"
| "add_to_groups k l p (g # gs) =
     (if tg_key g = k then g\<lparr>tg_panes := tg_panes g @ [p]\<rparr> # gs else g # add_to_groups k l p gs)"

definition group_by :: "(pane_state \<Rightarrow> js_text \<times> js_text) \<Rightarrow> pane_state list \<Rightarrow> terminal_group list" where
  "group_by key_for panes =
     fold (\<lambda>p gs. add_to_groups (fst (key_for p)) (snd (key_for p)) p gs) panes []"

fun status_bucket :: "shell_activity \<Rightarrow> js_text" where
  "status_bucket ActRunning = js ''running''"
| "status_bucket (ActFinished c) = js ''finished''"
| "status_bucket ActUnknown = js ''unknown''"
| "status_bucket ActPrompt = js ''idle''"
| "status_bucket ActEditing = js ''idle''"

definition idle_label :: "pane_state \<Rightarrow> js_text" where
  "idle_label s =
     (let user = trimmed_title (map_option tt_title (title_from s TUser))
      in if user \<noteq> [] then user else default_idle_title)"

definition group_terminal_panes ::
    "(js_text \<Rightarrow> js_text) \<Rightarrow> pane_state list \<Rightarrow> grouping_mode \<Rightarrow> display_options \<Rightarrow> terminal_group list" where
  "group_terminal_panes lower panes mode o' =
     (case mode of
        GroupNone \<Rightarrow> [\<lparr>tg_key = js ''all'', tg_label = js ''All'', tg_panes = panes\<rparr>]
      | GroupDirectory \<Rightarrow>
          (let ls = shortest_unique_cwd_labels lower (List.map_filter cwd_for_header panes) o'
           in group_by (\<lambda>p. case cwd_for_header p of
                              None \<Rightarrow> (js ''unknown'', default_directory_label)
                            | Some c \<Rightarrow>
                                (cwd_identity c,
                                 case map_of ls (cwd_identity c) of
                                   Some l \<Rightarrow> l | None \<Rightarrow> cwd_display lower c o')) panes)
      | GroupCommand \<Rightarrow>
          group_by (\<lambda>p. let l = (case ps_current p of Some r \<Rightarrow> run_display r | None \<Rightarrow> idle_label p)
                        in (l, l)) panes
      | GroupStatus \<Rightarrow>
          group_by (\<lambda>p. (status_bucket (ps_activity p), status_bucket (ps_activity p))) panes)"

end
