(* ===== verification/Term_Cwd_Facts.thy ===== *)
theory Term_Cwd_Facts
  imports Term_Cwd
begin

text \<open>
  Facts about reported directories: reported values are bounded, the identity of a directory
  determines it, the dialects of one Windows directory match, and the shortest labels tell
  different absolute paths apart.
\<close>

section \<open>Bounded values\<close>

lemma code_points_take: "code_points (concat (take n (code_points s))) = take n (code_points s)"
proof (induction s arbitrary: n rule: code_points.induct)
  case (2 c)
  then show ?case by (cases n) auto
next
  case (3 c d cs)
  show ?case
  proof (cases n)
    case (Suc m)
    have split: "code_points ([c] @ x) = [c] # code_points x"
      if "\<not> (0xD800 \<le> c \<and> c \<le> 0xDBFF \<and> x \<noteq> [] \<and> 0xDC00 \<le> hd x \<and> hd x \<le> 0xDFFF)" for x
      using that by (cases x) auto
    show ?thesis
    proof (cases "0xD800 \<le> c \<and> c \<le> 0xDBFF \<and> 0xDC00 \<le> d \<and> d \<le> 0xDFFF")
      case True
      with "3.IH"(1) [OF True, of m] Suc show ?thesis by simp
    next
      case False
      have "concat (take m (code_points (d # cs))) = [] \<or> hd (concat (take m (code_points (d # cs)))) = d"
        by (cases m; cases cs) auto
      with False have "code_points ([c] @ concat (take m (code_points (d # cs)))) =
          [c] # code_points (concat (take m (code_points (d # cs))))"
        by (intro split) auto
      with False Suc "3.IH"(2) [OF False, of m] show ?thesis by (simp del: code_points.simps(3)) auto
    qed
  qed simp
qed simp

lemma set_take_code_points: "set (concat (take n (code_points s))) \<subseteq> set s"
  using concat_code_points [of s] by (metis concat_append append_take_drop_id set_append Un_upper1)

lemma bounded_no_control: "c \<in> set (bounded_cwd_value s) \<Longrightarrow> \<not> is_control c"
  using set_take_code_points [of max_cwd_length "filter (\<lambda>c. \<not> is_control c) s"]
  by (auto simp: bounded_cwd_value_def Let_def split: if_splits)

lemma length_code_points: "length (code_points s) \<le> length s"
  by (induction s rule: code_points.induct) auto

lemma bounded_length: "length (code_points (bounded_cwd_value s)) \<le> max_cwd_length"
  using length_code_points [of "filter (\<lambda>c. \<not> is_control c) s"]
  by (simp add: bounded_cwd_value_def Let_def code_points_take)

lemma bounded_idem: "bounded_cwd_value (bounded_cwd_value s) = bounded_cwd_value s"
proof -
  let ?b = "bounded_cwd_value s"
  have "filter (\<lambda>c. \<not> is_control c) ?b = ?b" using bounded_no_control by (simp add: filter_id_conv)
  moreover have "concat (take max_cwd_length (code_points ?b)) = ?b" using bounded_length [of s] by simp
  ultimately show ?thesis by (simp add: bounded_cwd_value_def [of ?b] Let_def)
qed

section \<open>Identity\<close>

text \<open>The part of a string before a separator is determined when it does not hold the separator.\<close>

lemma split_at_sep: "sep \<notin> set a \<Longrightarrow> sep \<notin> set b \<Longrightarrow> a @ [sep] @ x = b @ [sep] @ y \<Longrightarrow> a = b \<and> x = y"
proof (induction a arbitrary: b)
  case Nil
  then show ?case by (cases b) auto
next
  case (Cons c a)
  then show ?case by (cases b) auto
qed

lemma kind_name_no_bar: "124 \<notin> set (kind_name k)"
  by (cases k) (auto simp: js_def)

lemma kind_name_inj: "kind_name k = kind_name l \<longleftrightarrow> k = l"
  by (cases k; cases l) (auto simp: js_def)

definition host_text :: "cwd_state \<Rightarrow> js_text" where
  "host_text c = (case cwd_host c of None \<Rightarrow> [] | Some h \<Rightarrow> h)"

lemma cwd_identity_eq:
  assumes "124 \<notin> set (host_text a)" and "124 \<notin> set (host_text b)"
  shows "cwd_identity a = cwd_identity b \<longleftrightarrow>
    cwd_scheme_file a = cwd_scheme_file b \<and> host_text a = host_text b \<and>
    cwd_kind a = cwd_kind b \<and> cwd_path a = cwd_path b"
proof
  let ?s = "\<lambda>c. if cwd_scheme_file c then js ''file'' else js ''path''"
  have id: "cwd_identity c = ?s c @ [124] @ (host_text c @ [124] @ (kind_name (cwd_kind c) @ [124] @ cwd_path c))" for c
    by (simp add: cwd_identity_def host_text_def)
  have bar: "124 \<notin> set (?s c)" for c by (simp add: js_def)
  assume "cwd_identity a = cwd_identity b"
  then have 1: "?s a = ?s b" and r1: "host_text a @ [124] @ (kind_name (cwd_kind a) @ [124] @ cwd_path a) =
      host_text b @ [124] @ (kind_name (cwd_kind b) @ [124] @ cwd_path b)"
    using split_at_sep [OF bar bar] unfolding id by blast+
  have 2: "host_text a = host_text b" and r2: "kind_name (cwd_kind a) @ [124] @ cwd_path a =
      kind_name (cwd_kind b) @ [124] @ cwd_path b"
    using split_at_sep [OF assms r1] by blast+
  have "kind_name (cwd_kind a) = kind_name (cwd_kind b) \<and> cwd_path a = cwd_path b"
    using split_at_sep [OF kind_name_no_bar kind_name_no_bar r2] .
  moreover have "cwd_scheme_file a = cwd_scheme_file b" using 1 by (auto simp: js_def split: if_splits)
  ultimately show "cwd_scheme_file a = cwd_scheme_file b \<and> host_text a = host_text b \<and>
    cwd_kind a = cwd_kind b \<and> cwd_path a = cwd_path b"
    using 2 by (simp add: kind_name_inj)
qed (simp add: cwd_identity_def host_text_def [symmetric])

section \<open>Matching dialects\<close>

lemma upper_first_idem: "upper_first (upper_first s) = upper_first s"
  by (cases s) (auto simp: upper_first_def is_lower_ascii_def)

lemma replace_unit_twice: "replace_unit 47 [92] (replace_unit 47 [92] s) = replace_unit 47 [92] s"
  by (induction s) (auto simp: replace_unit_def)

text \<open>The MSYS, forward-slash and native spellings of one Windows directory have one key.\<close>

lemma canonical_spellings:
  assumes "is_letter d"
  shows "canonicalize_cwd_for_match (47 # d # 47 # rest) = canonicalize_cwd_for_match (d # 58 # 92 # replace_unit 47 [92] rest)"
    and "canonicalize_cwd_for_match (d # 58 # 47 # rest) = canonicalize_cwd_for_match (d # 58 # 92 # replace_unit 47 [92] rest)"
proof -
  have "d \<noteq> 47" using assms by (auto simp: char_classes)
  then have msys: "msys_drive (47 # d # 47 # rest) = d # 58 # 47 # rest" "msys_drive (d # 58 # x # y) = d # 58 # x # y" for x y
    using assms by auto
  have rep: "replace_unit 47 [92] (c # cs) = (if c = 47 then [92] else [c]) @ replace_unit 47 [92] cs" for c cs
    by (simp add: replace_unit_def)
  show "canonicalize_cwd_for_match (47 # d # 47 # rest) = canonicalize_cwd_for_match (d # 58 # 92 # replace_unit 47 [92] rest)"
    "canonicalize_cwd_for_match (d # 58 # 47 # rest) = canonicalize_cwd_for_match (d # 58 # 92 # replace_unit 47 [92] rest)"
    unfolding canonicalize_cwd_for_match_def msys Let_def rep replace_unit_twice using assms by simp_all
qed

lemma canonical_posix:
  "hd p = 47 \<Longrightarrow> length p < 3 \<or> p ! 2 \<noteq> 47 \<or> \<not> is_letter (p ! 1) \<Longrightarrow> canonicalize_cwd_for_match p = p"
proof -
  assume hd: "hd p = 47" and c: "length p < 3 \<or> p ! 2 \<noteq> 47 \<or> \<not> is_letter (p ! 1)"
  have same: "msys_drive p = p" using c by (cases p rule: msys_drive.cases) auto
  have "\<not> drive_path p" if "p \<noteq> []" using hd that
    by (cases p rule: drive_path.cases) (auto simp: char_classes)
  then show ?thesis using same by (cases p) (auto simp: canonicalize_cwd_for_match_def Let_def)
qed

section \<open>Shortest labels\<close>

text \<open>An absolute POSIX path without empty segments.\<close>

definition path_of_segments :: "js_text list \<Rightarrow> js_text" where
  "path_of_segments segs = 47 # js_join [47] segs"

definition good_segments :: "js_text list \<Rightarrow> bool" where
  "good_segments segs \<longleftrightarrow> (\<forall>p \<in> set segs. p \<noteq> [] \<and> 47 \<notin> set p)"

lemma split_join: "good_segments segs \<Longrightarrow> segs \<noteq> [] \<Longrightarrow> js_split 47 (js_join [47] segs) = segs"
  by (rule split_joined) (auto simp: good_segments_def list_all_iff)

lemma non_empty_segments: "good_segments segs \<Longrightarrow> non_empty segs = segs"
  by (auto simp: good_segments_def non_empty_def filter_id_conv)

lemma segments_of_path: "good_segments segs \<Longrightarrow> non_empty (js_split 47 (path_of_segments segs)) = segs"
  using non_empty_segments [of segs]
  by (cases "segs = []") (auto simp: path_of_segments_def split_join non_empty_def)

lemma full_label:
  assumes "good_segments segs" and "length segs \<le> d" and "k \<noteq> Windows"
  shows "format_trailing_path (path_of_segments segs) k d = (if segs = [] then [47] else js_join [47] segs)"
  using assms segments_of_path [OF assms(1)]
  by (auto simp: format_trailing_path_def path_parts_def last_segments_def path_of_segments_def starts_with_def)

lemma join_segments_inj:
  "good_segments s \<Longrightarrow> good_segments t \<Longrightarrow>
   (if s = [] then [47] else js_join [47] s) = (if t = [] then [47] else js_join [47] t) \<Longrightarrow> s = t"
proof -
  assume g: "good_segments s" "good_segments t"
    and eq: "(if s = [] then [47] else js_join [47] s) = (if t = [] then [47] else js_join [47] t)"
  have root: "js_join [47] u \<noteq> [47]" if "good_segments u" "u \<noteq> []" for u
  proof
    assume "js_join [47] u = [47]"
    then have "js_split 47 (js_join [47] u) = [[], []]" by simp
    with that show False by (auto simp: split_join good_segments_def)
  qed
  show "s = t"
  proof (cases "s = [] \<or> t = []")
    case True
    with root g eq show ?thesis by (metis (full_types))
  next
    case False
    with eq g show ?thesis using split_join by metis
  qed
qed

lemma unique_subset: "c \<in> set (unique_by_identity_from cs seen) \<Longrightarrow> c \<in> set cs"
  by (induction cs seen rule: unique_by_identity_from.induct) (auto split: if_splits)

lemma unique_fresh: "c \<in> set (unique_by_identity_from cs seen) \<Longrightarrow> cwd_identity c \<notin> set seen"
  by (induction cs seen rule: unique_by_identity_from.induct) (auto split: if_splits)

lemma unique_distinct: "distinct (map cwd_identity (unique_by_identity_from cs seen))"
proof (induction cs seen rule: unique_by_identity_from.induct)
  case (2 c cs seen)
  have "cwd_identity c \<notin> cwd_identity ` set (unique_by_identity_from cs (cwd_identity c # seen))"
    using unique_fresh by fastforce
  with 2 show ?case by simp
qed simp

lemma unique_covers: "c \<in> set cs \<Longrightarrow>
   cwd_identity c \<in> set seen \<or> (\<exists>u \<in> set (unique_by_identity_from cs seen). cwd_identity u = cwd_identity c)"
proof (induction cs seen rule: unique_by_identity_from.induct)
  case (2 a cs seen)
  show ?case
  proof (cases "cwd_identity a \<in> set seen")
    case True
    with 2 show ?thesis by auto
  next
    case False
    with 2 show ?thesis by (cases "c = a") auto
  qed
qed simp

lemma fold_update_notin: "k \<notin> f ` set cs \<Longrightarrow>
   map_of (fold (\<lambda>c ls. AList.update (f c) (g c) ls) cs acc) k = map_of acc k"
  by (induction cs arbitrary: acc) (auto simp: update_conv')

lemma fold_update_lookup: "distinct (map f cs) \<Longrightarrow> c \<in> set cs \<Longrightarrow>
   map_of (fold (\<lambda>c ls. AList.update (f c) (g c) ls) cs acc) (f c) = Some (g c)"
  by (induction cs arbitrary: acc) (auto simp: fold_update_notin update_conv')

lemma base_label: "distinct (map cwd_identity cs) \<Longrightarrow> c \<in> set cs \<Longrightarrow>
   map_of (base_labels cs d) (cwd_identity c) = Some (format_trailing_path (cwd_path c) (cwd_kind c) d)"
  unfolding base_labels_def by (rule fold_update_lookup)

definition hostless :: "cwd_state \<Rightarrow> bool" where
  "hostless c \<longleftrightarrow> cwd_host c = None"

lemma prefixes_hostless: "list_all hostless cs \<Longrightarrow> with_required_host_prefixes cs base mode = base"
proof -
  assume "list_all hostless cs"
  then have "fold (\<lambda>c ls. case label_of base c of None \<Rightarrow> ls
      | Some l \<Rightarrow> if host_prefix_needed (label_group cs0 base l) c mode \<and> truthy (cwd_host c)
                 then AList.update (cwd_identity c) (the (cwd_host c) @ [58] @ l) ls else ls) cs ls = ls" for ls cs0
    by (induction cs arbitrary: ls) (auto simp: hostless_def truthy_def split: option.splits)
  then show ?thesis unfolding with_required_host_prefixes_def .
qed

lemma labels_at_depths_cases:
  assumes "list_all hostless cs" and "labels_at_depths cs mode ds ls = (ls', done)" and "ds \<noteq> []"
  obtains d where "d \<in> set ds" "ls' = base_labels cs d" "label_collisions cs ls' = {}"
  | "ls' = base_labels cs (last ds)"
  using assms(2,3)
proof (induction ds arbitrary: ls thesis)
  case (Cons d ds)
  show ?case
  proof (cases "label_collisions cs (base_labels cs d) = {}")
    case True
    with Cons.prems show ?thesis by (auto simp: prefixes_hostless [OF assms(1)])
  next
    case False
    show ?thesis
    proof (cases "ds = []")
      case True
      with False Cons.prems show ?thesis by (auto simp: prefixes_hostless [OF assms(1)])
    next
      case ne: False
      with False Cons show ?thesis by (auto simp: prefixes_hostless [OF assms(1)])
    qed
  qed
qed simp

lemma label_of_Some: "l \<noteq> [] \<Longrightarrow> map_of ls (cwd_identity c) = Some l \<Longrightarrow> label_of ls c = Some l"
  by (auto simp: label_of_def split: list.splits)

text \<open>Without collisions, two directories never share a non-empty label.\<close>

lemma no_collision_distinct:
  assumes "label_collisions cs ls = {}" and "a \<in> set cs" "b \<in> set cs" and "a \<noteq> b"
    and "label_of ls a = Some l"
  shows "label_of ls b \<noteq> Some l"
proof
  assume b: "label_of ls b = Some l"
  have "l \<in> set (List.map_filter (label_of ls) cs)"
    using assms(2,5) by (auto simp: map_filter_def image_iff intro!: bexI [of _ a])
  moreover have "{a, b} \<subseteq> set (filter (\<lambda>c. label_of ls c = Some l) cs)" using assms(2,3,5) b by auto
  then have "card {a, b} \<le> length (filter (\<lambda>c. label_of ls c = Some l) cs)"
    by (meson card_length card_mono le_trans List.finite_set)
  with assms(4) have "1 < length (filter (\<lambda>c. label_of ls c = Some l) cs)" by simp
  ultimately have "l \<in> label_collisions cs ls" by (simp add: label_collisions_def)
  with assms(1) show False by simp
qed

lemma fold_max_ge: "(x :: nat) \<in> set xs \<or> x \<le> a \<Longrightarrow> x \<le> fold max xs a"
proof (induction xs arbitrary: a)
  case (Cons y ys)
  then have "x \<in> set ys \<or> x \<le> max y a" by auto
  with Cons.IH show ?case by simp
qed simp

definition plain_cwd :: "cwd_state \<Rightarrow> bool" where
  "plain_cwd c \<longleftrightarrow> hostless c \<and> cwd_kind c \<noteq> Windows \<and>
     (\<exists>segs. good_segments segs \<and> cwd_path c = path_of_segments segs)"

lemma depth_of_plain: "good_segments segs \<Longrightarrow> cwd_path c = path_of_segments segs \<Longrightarrow> cwd_kind c \<noteq> Windows \<Longrightarrow>
   depth_of c = length segs"
  by (simp add: depth_of_def path_parts_def segments_of_path)

lemma hostless_no_bar: "hostless c \<Longrightarrow> 124 \<notin> set (host_text c)"
  by (simp add: hostless_def host_text_def)

lemma relabel_hostless:
  assumes "list_all hostless cs" and "\<forall>c \<in> set cs. map_of ls (cwd_identity c) \<noteq> None"
  shows "map_of (fold (relabel lower o' remaining) cs ls) = map_of ls"
  using assms
proof (induction cs arbitrary: ls)
  case (Cons c cs)
  then obtain l where l: "map_of ls (cwd_identity c) = Some l" by auto
  have "\<not> truthy (cwd_host c)" using Cons.prems(1) by (simp add: hostless_def truthy_def)
  with l have same: "map_of (relabel lower o' remaining c ls) = map_of ls"
    by (auto simp: relabel_def Let_def update_conv')
  with Cons show ?case by simp
qed simp

lemma js_join_nonempty: "ps \<noteq> [] \<Longrightarrow> [] \<notin> set ps \<Longrightarrow> js_join sep ps \<noteq> []"
  by (cases "(sep, ps)" rule: js_join.cases) auto

lemma trailing_label_nonempty:
  assumes "good_segments segs" and "k \<noteq> Windows"
  shows "format_trailing_path (path_of_segments segs) k d \<noteq> []"
proof (cases "segs = []")
  case True
  then show ?thesis
    using assms by (simp add: format_trailing_path_def path_parts_def segments_of_path)
      (simp add: path_of_segments_def)
next
  case False
  then have "0 < length segs" by simp
  then have "length segs - max 1 d < length segs" by linarith
  then have "last_segments (max 1 d) segs \<noteq> []" by (simp add: last_segments_def)
  moreover have "[] \<notin> set (last_segments (max 1 d) segs)"
    using assms(1) by (auto simp: last_segments_def good_segments_def dest: in_set_dropD)
  ultimately have "last_segments (max 1 d) segs \<noteq> []" "[] \<notin> set (last_segments (max 1 d) segs)" by auto
  with False assms show ?thesis
    by (simp add: format_trailing_path_def path_parts_def segments_of_path js_join_nonempty)
qed

lemma shortest_labels_tell_apart:
  assumes plain: "list_all plain_cwd cwds"
    and a: "a \<in> set cwds" and b: "b \<in> set cwds" and diff: "cwd_path a \<noteq> cwd_path b"
  shows "\<exists>la lb. map_of (shortest_unique_cwd_labels lower cwds o') (cwd_identity a) = Some la \<and>
    map_of (shortest_unique_cwd_labels lower cwds o') (cwd_identity b) = Some lb \<and> la \<noteq> lb"
proof -
  define u where "u = unique_by_identity cwds"
  have pl: "plain_cwd c" if "c \<in> set u" for c
    using that plain unique_subset by (auto simp: u_def unique_by_identity_def list_all_iff)
  have u: "distinct (map cwd_identity u)" "list_all hostless u"
    using unique_distinct pl by (auto simp: u_def unique_by_identity_def list_all_iff plain_cwd_def)
  have rep: "\<exists>c' \<in> set u. cwd_identity c' = cwd_identity c \<and> cwd_path c' = cwd_path c" if mem: "c \<in> set cwds" for c
  proof -
    obtain c' where c': "c' \<in> set u" "cwd_identity c' = cwd_identity c"
      using unique_covers [OF mem, of "[]"] by (auto simp: u_def unique_by_identity_def)
    then have "cwd_path c' = cwd_path c"
      using cwd_identity_eq [of c' c] pl [OF c'(1)] plain mem hostless_no_bar
      by (auto simp: plain_cwd_def list_all_iff)
    with c' show ?thesis by blast
  qed
  obtain a' where a': "a' \<in> set u" "cwd_identity a' = cwd_identity a" "cwd_path a' = cwd_path a" using rep [OF a] by blast
  obtain b' where b': "b' \<in> set u" "cwd_identity b' = cwd_identity b" "cwd_path b' = cwd_path b" using rep [OF b] by blast
  define m where "m = fold max (map depth_of u) 1"
  obtain ls fin where ld: "labels_at_depths u (include_host o') [1..<Suc m] [] = (ls, fin)" by fastforce
  have ds: "[1..<Suc m] \<noteq> []" "last [1..<Suc m] = m"
    using fold_max_ge [of 1 "map depth_of u" 1] by (auto simp: m_def)
  obtain d where d: "ls = base_labels u d" "label_collisions u ls = {} \<or> d = m"
    using labels_at_depths_cases [OF u(2) ld ds(1)] ds(2) by metis
  have look: "map_of ls (cwd_identity c) = Some (format_trailing_path (cwd_path c) (cwd_kind c) d)" if "c \<in> set u" for c
    unfolding d(1) using u(1) that by (rule base_label)
  have "map_of (shortest_unique_cwd_labels lower cwds o') = map_of ls"
    using relabel_hostless [OF u(2), of ls] look a'(1) ld
    by (auto simp: shortest_unique_cwd_labels_def u_def [symmetric] m_def Let_def simp del: upt_Suc)
  moreover have "format_trailing_path (cwd_path a') (cwd_kind a') d \<noteq> format_trailing_path (cwd_path b') (cwd_kind b') d"
    (is "?la \<noteq> ?lb")
  proof
    assume eq: "?la = ?lb"
    obtain sa sb where s: "good_segments sa" "cwd_path a' = path_of_segments sa" "cwd_kind a' \<noteq> Windows"
      "good_segments sb" "cwd_path b' = path_of_segments sb" "cwd_kind b' \<noteq> Windows"
      using pl [OF a'(1)] pl [OF b'(1)] by (auto simp: plain_cwd_def)
    have "a' \<noteq> b'" using a'(3) b'(3) diff by auto
    show False
    proof (cases "d = m")
      case True
      have "depth_of a' \<le> d" "depth_of b' \<le> d"
        unfolding True m_def using a'(1) b'(1) by (intro fold_max_ge; simp)+
      then have "length sa \<le> d" "length sb \<le> d"
        using depth_of_plain [OF s(1-3)] depth_of_plain [OF s(4-6)] by auto
      then have "sa = sb" using eq full_label s join_segments_inj by metis
      with s a'(3) b'(3) diff show False by simp
    next
      case False
      with d(2) have none: "label_collisions u ls = {}" by simp
      have "?la \<noteq> []" using trailing_label_nonempty s(1-3) by metis
      then have "label_of ls a' = Some ?la" "label_of ls b' = Some ?la"
        using label_of_Some look a'(1) b'(1) eq by auto
      with no_collision_distinct [OF none a'(1) b'(1) \<open>a' \<noteq> b'\<close>] show False by blast
    qed
  qed
  ultimately show ?thesis using look [OF a'(1)] look [OF b'(1)] a'(2) b'(2) by auto
qed

end
