(* ===== verification/Term_State_Facts.thy ===== *)
theory Term_State_Facts
  imports Prelude Term_State Term_Cwd_Facts
begin

text \<open>
  The invariant of a pane's state and what the reducer, the titles and the grouping guarantee.
\<close>

section \<open>The invariant of the reducer\<close>

text \<open>
  A command is current exactly while the activity is running; a current command is unfinished and
  the last one finished; candidates are filed under their own source, and the title is one of them.
\<close>

definition wf_candidates :: "title_candidates \<Rightarrow> bool" where
  "wf_candidates cs \<longleftrightarrow> distinct (map fst cs) \<and> (\<forall>(k, t) \<in> set cs. tt_source t = k)"

definition wf_pane :: "pane_state \<Rightarrow> bool" where
  "wf_pane s \<longleftrightarrow>
     (ps_activity s = ActRunning \<longleftrightarrow> ps_current s \<noteq> None) \<and>
     (\<forall>r. ps_current s = Some r \<longrightarrow> run_finished r = None \<and> run_final_title r = None) \<and>
     (\<forall>r. ps_last s = Some r \<longrightarrow> run_finished r \<noteq> None) \<and>
     wf_candidates (ps_candidates s) \<and>
     (\<forall>t. ps_title s = Some t \<longrightarrow> map_of (ps_candidates s) (tt_source t) = Some t)"

lemma wf_candidates_update: "wf_candidates cs \<Longrightarrow> wf_candidates (AList.update (tt_source t) t cs)"
proof -
  assume wf: "wf_candidates cs"
  then have d: "distinct (map fst (AList.update (tt_source t) t cs))"
    by (simp add: wf_candidates_def distinct_update)
  have "tt_source t' = k" if "(k, t') \<in> set (AList.update (tt_source t) t cs)" for k t'
  proof -
    have "map_of (AList.update (tt_source t) t cs) k = Some t'" using that d by (simp add: map_of_is_SomeI)
    then have "(k = tt_source t \<and> t' = t) \<or> map_of cs k = Some t'" by (auto simp: update_conv' split: if_splits)
    then show ?thesis using wf by (auto simp: wf_candidates_def dest: map_of_SomeD)
  qed
  with d show ?thesis by (auto simp: wf_candidates_def)
qed

lemma finished_command_fields [simp]:
  "run_finished (finished_command s r f c) = Some f" "run_exit (finished_command s r f c) = c"
  "run_started (finished_command s r f c) = run_started r" "run_raw (finished_command s r f c) = run_raw r"
  "run_display (finished_command s r f c) = run_display r"
  by (auto simp: finished_command_def Let_def split: option.splits)

lemma reduce_wf: "wf_pane s \<Longrightarrow> wf_pane (reduce_terminal_state now new_id s e)"
proof (cases e)
  case (EvTitle t)
  assume "wf_pane s"
  then show ?thesis using wf_candidates_update by (auto simp: EvTitle reduce_terminal_state_def wf_pane_def update_conv')
qed (auto simp: reduce_terminal_state_def wf_pane_def Let_def split: option.splits)

interpretation pane: event_system
  "\<lambda>(now, new_id, e) s. reduce_terminal_state now new_id s e" "\<lambda>_. True" wf_pane
  by unfold_locales (auto simp: reduce_wf)

lemma wf_default_pane: "wf_pane default_pane_state"
  by (simp add: wf_pane_def default_pane_state_def wf_candidates_def)

text \<open>A repeated report changes nothing; only a new command start is news each time.\<close>

lemma reduce_again:
  assumes "\<nexists>cs. e = EvCommandStart cs"
  shows "reduce_terminal_state now new_id (reduce_terminal_state now' new_id' s e) e =
         reduce_terminal_state now' new_id' s e"
  using assms
  by (cases e) (auto simp: reduce_terminal_state_def same_cwd_def update_conv' Let_def split: option.splits)

section \<open>Titles\<close>

lemma newest_title_in: "newest_title best ts = Some t \<Longrightarrow> best = Some t \<or> t \<in> set ts"
  by (induction best ts rule: newest_title.induct) (auto split: option.splits if_splits)

lemma newest_title_max:
  "newest_title best ts = Some t \<Longrightarrow>
   (\<forall>b. best = Some b \<longrightarrow> tt_updated b \<le> tt_updated t) \<and> (\<forall>x \<in> set ts. tt_updated x \<le> tt_updated t)"
proof (induction best ts rule: newest_title.induct)
  case (2 best x ts)
  from "2.IH" "2.prems" show ?case by (fastforce split: option.splits if_splits)
qed simp

lemma newest_title_None: "newest_title best ts = None \<longleftrightarrow> best = None \<and> ts = []"
  by (induction best ts rule: newest_title.induct) (auto split: option.splits)

lemma titles_in_run_iff:
  "t \<in> set (titles_in_run s a u) \<longleftrightarrow>
   (\<exists>src \<in> set header_app_title_sources. map_of (ps_candidates s) src = Some t) \<and>
   a \<le> tt_updated t \<and> (\<forall>v. u = Some v \<longrightarrow> tt_updated t \<le> v)"
  by (auto simp: titles_in_run_def map_filter_def image_iff split: option.splits)

text \<open>The title a finished command keeps was sent while it ran, and is the latest such.\<close>

lemma final_title_in_run:
  assumes "wf_pane s" and run: "ps_current s = Some r"
    and t: "run_final_title (finished_command s r f c) = Some t"
  shows "run_started r \<le> tt_updated t" and "tt_updated t \<le> f"
    and "tt_source t \<in> set header_app_title_sources"
    and "\<And>x. x \<in> set (titles_in_run s (run_started r) (Some f)) \<Longrightarrow> tt_updated x \<le> tt_updated t"
proof -
  have new: "newest_title None (titles_in_run s (run_started r) (Some f)) = Some t"
    using assms by (auto simp: finished_command_def snapshot_in_run_title_def Let_def wf_pane_def split: option.splits)
  then have "t \<in> set (titles_in_run s (run_started r) (Some f))" using newest_title_in by fastforce
  then show "run_started r \<le> tt_updated t" "tt_updated t \<le> f"
    "tt_source t \<in> set header_app_title_sources"
    using assms(1) by (auto simp: titles_in_run_iff wf_pane_def wf_candidates_def dest!: map_of_SomeD)
  show "\<And>x. x \<in> set (titles_in_run s (run_started r) (Some f)) \<Longrightarrow> tt_updated x \<le> tt_updated t"
    using newest_title_max [OF new] by blast
qed

lemma meaningful_nonempty: "meaningful_title x = Some y \<Longrightarrow> y \<noteq> [] \<and> js_trim y = y"
  by (auto simp: meaningful_title_def Let_def split: if_splits option.splits)

text \<open>Titles sent after a command finished leave its idle header alone.\<close>

lemma idle_header_stable:
  assumes "ps_current s = None" and "ps_last s = Some r" and "run_finished r \<noteq> None"
    and "run_final_title r = Some ft" and "meaningful_title (tt_title ft) \<noteq> None"
    and "tt_source t \<noteq> TUser"
  shows "header_primary (\<lambda>_. None) (reduce_terminal_state now i s (EvTitle t)) = header_primary (\<lambda>_. None) s"
proof -
  let ?s = "reduce_terminal_state now i s (EvTitle t)"
  have "title_from ?s TUser = title_from s TUser" "ps_current ?s = None" "ps_last ?s = Some r"
    using assms(1,2,6) by (auto simp: reduce_terminal_state_def title_from_def update_conv')
  moreover have "title_for_command p r = meaningful_title (tt_title ft)" for p
    using assms(3-5) by (auto simp: title_for_command_def)
  then have "command_header_label (\<lambda>_. None) ?s r = command_header_label (\<lambda>_. None) s r"
    by (simp add: command_header_label_def trimmed_title_def)
  ultimately show ?thesis
    unfolding header_primary_def Let_def using assms(1,2) by simp
qed

lemma header_failed_iff:
  "snd (header_primary app s) \<longleftrightarrow>
   trimmed_title (map_option tt_title (title_from s TUser)) = [] \<and> ps_current s = None \<and>
   (\<exists>r c. ps_last s = Some r \<and> run_exit r = Some c \<and> c \<noteq> 0)"
  by (auto simp: header_primary_def last_command_failed_def Let_def split: option.splits)

section \<open>The window of a command\<close>

text \<open>Events that neither start nor end a command.\<close>

fun mid_run :: "semantic_event \<Rightarrow> bool" where
  "mid_run (EvCwd c) = True"
| "mid_run (EvTitle t) = True"
| "mid_run (EvCommandLine l) = True"
| "mid_run _ = False"

definition reduce_all :: "(int \<times> js_text \<times> semantic_event) list \<Rightarrow> pane_state \<Rightarrow> pane_state" where
  "reduce_all es s = fold (\<lambda>(now, i, e) s. reduce_terminal_state now i s e) es s"

text \<open>The command line the shell reported last, which the next start takes.\<close>

fun reported_line :: "js_text option \<Rightarrow> (int \<times> js_text \<times> semantic_event) list \<Rightarrow> js_text option" where
  "reported_line l [] = l"
| "reported_line l ((now, i, EvCommandLine l') # es) = reported_line (Some l') es"
| "reported_line l (e # es) = reported_line l es"

lemma mid_run_keeps_current: "mid_run e \<Longrightarrow> ps_current (reduce_terminal_state now i s e) = ps_current s"
  by (cases e) (auto simp: reduce_terminal_state_def split: option.splits)

lemma reduce_all_current:
  "list_all (\<lambda>(now, i, e). mid_run e) es \<Longrightarrow> ps_current (reduce_all es s) = ps_current s"
  by (induction es arbitrary: s) (auto simp: reduce_all_def mid_run_keeps_current)

lemma reduce_all_pending:
  "list_all (\<lambda>(now, i, e). mid_run e) es \<Longrightarrow> ps_pending (reduce_all es s) = reported_line (ps_pending s) es"
proof (induction es arbitrary: s)
  case (Cons x es)
  obtain now i e where x: "x = (now, i, e)" by (cases x) auto
  have step: "reduce_all (x # es) s = reduce_all es (reduce_terminal_state now i s e)"
    by (simp add: reduce_all_def x)
  have "reported_line (ps_pending (reduce_terminal_state now i s e)) es = reported_line (ps_pending s) ((now, i, e) # es)"
    using Cons.prems x by (cases e) (auto simp: reduce_terminal_state_def split: option.splits)
  then show ?case using Cons.IH [of "reduce_terminal_state now i s e"] Cons.prems step x by simp
qed (simp add: reduce_all_def)

lemma mid_run_keeps_cwd: "mid_run e \<Longrightarrow> ps_cwd s \<noteq> None \<Longrightarrow> ps_cwd (reduce_terminal_state now i s e) \<noteq> None"
  by (cases e) (auto simp: reduce_terminal_state_def split: option.splits)

lemma reduce_all_cwd:
  "list_all (\<lambda>(now, i, e). mid_run e) es \<Longrightarrow> ps_cwd s \<noteq> None \<Longrightarrow> ps_cwd (reduce_all es s) \<noteq> None"
proof (induction es arbitrary: s)
  case (Cons x es)
  obtain now i e where x: "x = (now, i, e)" by (cases x) auto
  have "ps_cwd (reduce_terminal_state now i s e) \<noteq> None" using mid_run_keeps_cwd Cons.prems x by auto
  then show ?case using Cons.IH Cons.prems x by (simp add: reduce_all_def)
qed (simp add: reduce_all_def)

lemma surface_runs_cong:
  assumes "ps_current s' = ps_current s" and "\<And>r. ps_current s = Some r \<Longrightarrow> run_cwd r \<noteq> None"
  shows "surface_runs_command s' l p = surface_runs_command s l p"
  using assms by (cases "ps_current s") (auto simp: surface_runs_command_def split: option.splits)

lemma command_window:
  assumes cwd: "ps_cwd s = Some c"
    and mid: "list_all (\<lambda>(now, i, e). mid_run e) es"
  shows "surface_runs_command
      (reduce_all es (reduce_terminal_state n2 i2 (reduce_terminal_state n1 i1 s (EvCommandLine l)) (EvCommandStart cs)))
      line path \<longleftrightarrow>
    line = l \<and> canonicalize_cwd_for_match (cwd_path c) = canonicalize_cwd_for_match path"
proof -
  let ?s = "reduce_terminal_state n2 i2 (reduce_terminal_state n1 i1 s (EvCommandLine l)) (EvCommandStart cs)"
  have cur: "\<exists>r. ps_current ?s = Some r \<and> run_raw r = Some l \<and> run_cwd r = Some c"
    using cwd by (auto simp: reduce_terminal_state_def resolve_command_start_def Let_def)
  then have "surface_runs_command (reduce_all es ?s) line path = surface_runs_command ?s line path"
    by (intro surface_runs_cong) (auto simp: reduce_all_current [OF mid])
  with cur show ?thesis by (auto simp: surface_runs_command_def)
qed

text \<open>A further start, with no end in between, runs what was reported since: no line if none was.\<close>

lemma command_window_restarted:
  assumes cwd: "ps_cwd s = Some c"
    and mid: "list_all (\<lambda>(now, i, e). mid_run e) es"
    and s1: "s1 = reduce_all es (reduce_terminal_state n2 i2 (reduce_terminal_state n1 i1 s (EvCommandLine l)) (EvCommandStart cs))"
  shows "surface_runs_command (reduce_terminal_state n3 i3 s1 (EvCommandStart cs')) line path \<longleftrightarrow>
    reported_line None es = Some line \<and>
    (\<exists>d. ps_cwd s1 = Some d \<and> canonicalize_cwd_for_match (cwd_path d) = canonicalize_cwd_for_match path)"
proof -
  let ?s = "reduce_terminal_state n2 i2 (reduce_terminal_state n1 i1 s (EvCommandLine l)) (EvCommandStart cs)"
  have "ps_cwd ?s \<noteq> None" "ps_pending ?s = None"
    using cwd by (auto simp: reduce_terminal_state_def Let_def)
  then have "ps_pending s1 = reported_line None es" "ps_cwd s1 \<noteq> None"
    using reduce_all_pending [OF mid, of ?s] reduce_all_cwd [OF mid, of ?s] s1 by simp_all
  then show ?thesis
    by (auto simp: surface_runs_command_def reduce_terminal_state_def resolve_command_start_def Let_def split: option.splits)
qed

lemma command_window_closed:
  "e = EvPromptStart \<or> e = EvPromptEnd \<or> (\<exists>x f. e = EvCommandFinish x f) \<Longrightarrow>
   \<not> surface_runs_command (reduce_terminal_state now i s e) line path"
proof -
  assume "e = EvPromptStart \<or> e = EvPromptEnd \<or> (\<exists>x f. e = EvCommandFinish x f)"
  then have "ps_current (reduce_terminal_state now i s e) = None"
    by (elim disjE exE; cases "ps_current s") (auto simp: reduce_terminal_state_def Let_def)
  then show ?thesis by (simp add: surface_runs_command_def)
qed

section \<open>Grouping\<close>

text \<open>
  The groups are the classes of the key, each in the order of the panes, in the order in which
  the keys first appear.
\<close>

lemma add_to_groups_key:
  "map tg_key (add_to_groups k l p gs) = map tg_key gs @ (if k \<in> set (map tg_key gs) then [] else [k])"
  by (induction gs) auto

lemma add_to_groups_old: "g \<in> set (add_to_groups k l p gs) \<Longrightarrow> distinct (map tg_key gs) \<Longrightarrow>
   (tg_key g \<noteq> k \<and> g \<in> set gs) \<or>
   (tg_key g = k \<and> (\<exists>h \<in> set gs. tg_key h = k \<and> tg_panes g = tg_panes h @ [p])) \<or>
   (tg_key g = k \<and> k \<notin> set (map tg_key gs) \<and> tg_panes g = [p])"
proof (induction gs)
  case (Cons h gs)
  then have "tg_key x \<noteq> tg_key h" if "x \<in> set gs" for x using that by (auto simp: image_iff)
  with Cons show ?case by (cases "tg_key h = k") auto
qed simp

lemma group_by_spec:
  "distinct (map tg_key (group_by f ps)) \<and>
   set (map tg_key (group_by f ps)) = fst ` f ` set ps \<and>
   (\<forall>g \<in> set (group_by f ps). tg_panes g = filter (\<lambda>p. fst (f p) = tg_key g) ps)"
proof (induction ps rule: rev_induct)
  case Nil
  then show ?case by (simp add: group_by_def)
next
  case (snoc p ps)
  let ?gs = "group_by f ps" and ?k = "fst (f p)" and ?l = "snd (f p)"
  have eq: "group_by f (ps @ [p]) = add_to_groups ?k ?l p ?gs" by (simp add: group_by_def)
  from snoc have d: "distinct (map tg_key ?gs)" and keys: "set (map tg_key ?gs) = fst ` f ` set ps"
    and panes: "\<And>g. g \<in> set ?gs \<Longrightarrow> tg_panes g = filter (\<lambda>p. fst (f p) = tg_key g) ps" by auto
  have "tg_panes g = filter (\<lambda>p. fst (f p) = tg_key g) (ps @ [p])" if mem: "g \<in> set (group_by f (ps @ [p]))" for g
  proof -
    consider "tg_key g \<noteq> ?k" "g \<in> set ?gs"
      | h where "tg_key g = ?k" "h \<in> set ?gs" "tg_key h = ?k" "tg_panes g = tg_panes h @ [p]"
      | "tg_key g = ?k" "?k \<notin> set (map tg_key ?gs)" "tg_panes g = [p]"
      using add_to_groups_old [OF mem [unfolded eq] d] by blast
    then show ?thesis
    proof cases
      case 3
      then have "filter (\<lambda>q. fst (f q) = ?k) ps = []"
        unfolding keys by (auto simp: filter_empty_conv) (metis image_eqI)
      with 3 show ?thesis by simp
    qed (use panes in auto)
  qed
  then show ?case using d keys unfolding eq add_to_groups_key by auto
qed

end
