(* ===== verification/Term_Claims.thy ===== *)
theory Term_Claims
  imports Shell_Roundtrip Term_State_Facts
begin

text \<open>
  What the command line, working directory and title code of a terminal pane promises, stated
  over the model of \<open>terminal-state.ts\<close> and of the shell quoting it has to read back.
\<close>

section \<open>Command lines\<close>

text \<open>A path that Dormouse escapes for pasting into a POSIX shell reads back as itself: the
  tokenizer of command lines returns the one token it was made from. The path must not be empty,
  and its only white space may be space, tab, newline and return.\<close>

lemma pasted_path_reads_back:
  assumes "s \<noteq> []" and "\<not> list_ex stray_space s"
  shows "tokenize_command (shell_escape_posix s) = [s]"
  using assms by (rule tokenize_escaped)

text \<open>C17: The command line built from an argument vector for a POSIX shell reads back as exactly
  the non-empty arguments, in order, whatever characters they contain.\<close>

theorem built_command_reads_back:
  "tokenize_command (build_shell_command_for_kind ShellPosix args) = non_empty args"
  by (rule tokenize_built)

section \<open>Working directories\<close>

definition home_cwd :: "js_text \<Rightarrow> cwd_state" where
  "home_cwd user =
     \<lparr>cwd_uri = None, cwd_path = path_of_segments [js ''home'', user, js ''src''], cwd_host = None,
      cwd_scheme_file = False, cwd_kind = Posix, cwd_remote = False, cwd_source = SrcOsc633, cwd_updated = 3\<rparr>"

definition short_style :: display_options where
  "short_style = \<lparr>include_host = HostNever, path_style_of = StyleShort, max_segments = 2, home_path_of = None\<rparr>"

definition home_a :: cwd_state where "home_a = home_cwd (js ''ann'')"
definition home_b :: cwd_state where "home_b = home_cwd (js ''ben'')"

lemma home_cwd_plain: "user \<noteq> [] \<Longrightarrow> 47 \<notin> set user \<Longrightarrow> plain_cwd (home_cwd user)"
  by (auto simp: plain_cwd_def hostless_def home_cwd_def good_segments_def js_def
      intro!: exI [of _ "[js ''home'', user, js ''src'']"])

text \<open>A reported working directory is bounded and free of control characters, and bounding it
  again changes nothing.\<close>

lemma reported_cwd_is_bounded:
  "length (code_points (bounded_cwd_value s)) \<le> max_cwd_length \<and>
   list_all (\<lambda>c. \<not> is_control c) (bounded_cwd_value s) \<and>
   bounded_cwd_value (bounded_cwd_value s) = bounded_cwd_value s"
  using bounded_length bounded_idem bounded_no_control by (auto simp: list_all_iff)

text \<open>Among local POSIX directories, two with different paths get different labels, at the
  shortest depth the labeller chooses, whatever other directories are shown with them.\<close>

lemma shortest_labels_differ:
  assumes "list_all plain_cwd cwds" and "a \<in> set cwds" and "b \<in> set cwds" and "cwd_path a \<noteq> cwd_path b"
  shows "\<exists>la lb. map_of (shortest_unique_cwd_labels lower cwds opts) (cwd_identity a) = Some la \<and>
    map_of (shortest_unique_cwd_labels lower cwds opts) (cwd_identity b) = Some lb \<and> la \<noteq> lb"
  using assms by (rule shortest_labels_tell_apart)

text \<open>The spellings of one Windows directory (a drive path with slashes, with backslashes, and
  the MSYS form with the drive as first segment) are the same directory for matching.\<close>

lemma drive_spellings_match:
  assumes "is_letter d"
  shows "canonicalize_cwd_for_match (47 # d # 47 # rest) = canonicalize_cwd_for_match (d # 58 # 92 # replace_unit 47 [92] rest) \<and>
    canonicalize_cwd_for_match (d # 58 # 47 # rest) = canonicalize_cwd_for_match (d # 58 # 92 # replace_unit 47 [92] rest)"
  using canonical_spellings [OF assms] by blast

section \<open>The pane\<close>

text \<open>C16: Whatever the events of the terminal (working directory, title, prompt, command line,
  command start and finish, in any order), the pane state stays consistent: a command is
  running exactly when there is a current run, a finished run is closed, and each title source
  holds one title of its own.\<close>

theorem pane_stays_consistent:
  assumes "wf_pane s"
  shows "wf_pane (reduce_all es s)"
proof -
  have "list_all (\<lambda>_. True) es" by (simp add: list_all_iff)
  with assms have "wf_pane (fold (\<lambda>(now, i, e) s. reduce_terminal_state now i s e) es s)"
    by (rule pane.run_keeps)
  then show ?thesis by (simp add: reduce_all_def)
qed

theorem pane_stays_consistent_witness:
  "wf_pane (reduce_all [(5, [], EvPromptStart), (6, [], EvCommandFinish None (Some 6))] default_pane_state)"
  by (rule pane_stays_consistent) (rule wf_default_pane)

text \<open>The title a finished command is shown under was set by the terminal while that command
  ran, by an application title source, and is the latest such title.\<close>

lemma final_title_belongs_to_run:
  assumes "wf_pane s" and "ps_current s = Some r"
    and "run_final_title (finished_command s r f c) = Some t"
  shows "run_started r \<le> tt_updated t \<and> tt_updated t \<le> f \<and> tt_source t \<in> set header_app_title_sources \<and>
    (\<forall>x \<in> set (titles_in_run s (run_started r) (Some f)). tt_updated x \<le> tt_updated t)"
  using final_title_in_run [OF assms] by blast

definition busy_run :: command_run where
  "busy_run =
     \<lparr>run_id = [], run_raw = None, run_display = js ''make'', run_cwd = None, run_started = 10,
      run_finished = None, run_exit = None, run_source = Osc633E, run_final_title = None\<rparr>"

definition build_title :: terminal_title where
  "build_title = \<lparr>tt_title = js ''build 3'', tt_source = TOsc0, tt_updated = 15\<rparr>"

definition busy_pane :: pane_state where
  "busy_pane = default_pane_state\<lparr>ps_activity := ActRunning, ps_current := Some busy_run,
     ps_title := Some build_title, ps_candidates := [(TOsc0, build_title)]\<rparr>"

text \<open>The header shows a failed command exactly when no title set by the user hides it, no
  command is running and the last command exited with a code other than 0.\<close>

lemma header_shows_failure:
  "snd (header_primary app s) =
   (trimmed_title (map_option tt_title (title_from s TUser)) = [] \<and> ps_current s = None \<and>
    (\<exists>r c. ps_last s = Some r \<and> run_exit r = Some c \<and> c \<noteq> 0))"
  by (rule header_failed_iff)

text \<open>C27: In a pane whose working directory is known, from the moment a shell starts a command line
  it reported, and through any reports of directories, titles and command lines, the pane counts
  as running exactly that line in the directory it was started in. A prompt or a finish ends it:
  then it counts as running nothing. A further start without either replaces it: then the pane
  counts as running the line reported since, in the directory known then, and no line at all when
  none was reported.\<close>

theorem command_runs_between_start_and_finish:
  assumes "ps_cwd s = Some c" and "list_all (\<lambda>(now, i, e). mid_run e) es"
    and "e = EvPromptStart \<or> e = EvPromptEnd \<or> (\<exists>x f. e = EvCommandFinish x f)"
  shows "let s1 = reduce_all es (reduce_terminal_state n2 i2
                    (reduce_terminal_state n1 i1 s (EvCommandLine l)) (EvCommandStart cs))
    in surface_runs_command s1 line path =
         (line = l \<and> canonicalize_cwd_for_match (cwd_path c) = canonicalize_cwd_for_match path) \<and>
       \<not> surface_runs_command (reduce_terminal_state n3 i3 s1 e) line path \<and>
       surface_runs_command (reduce_terminal_state n3 i3 s1 (EvCommandStart cs')) line path =
         (reported_line None es = Some line \<and>
          (\<exists>d. ps_cwd s1 = Some d \<and> canonicalize_cwd_for_match (cwd_path d) = canonicalize_cwd_for_match path))"
  using command_window [OF assms(1,2)] command_window_closed [OF assms(3)]
    command_window_restarted [OF assms(1,2) refl] by (simp add: Let_def)

theorem command_runs_between_start_and_finish_witness:
  "let s1 = reduce_all [(3, [], EvTitle build_title)]
          (reduce_terminal_state 2 [] (reduce_terminal_state 1 [] (default_pane_state\<lparr>ps_cwd := Some home_a\<rparr>)
             (EvCommandLine (js ''make''))) (EvCommandStart \<lparr>cs_source = None, cs_started_at = None\<rparr>))
    in surface_runs_command s1 (js ''make'') (cwd_path home_a) \<and>
       \<not> surface_runs_command (reduce_terminal_state 4 [] s1 EvPromptStart) (js ''make'') (cwd_path home_a) \<and>
       \<not> surface_runs_command (reduce_terminal_state 4 [] s1 (EvCommandStart \<lparr>cs_source = None, cs_started_at = None\<rparr>))
           (js ''make'') (cwd_path home_a)"
  using command_runs_between_start_and_finish
    [of "default_pane_state\<lparr>ps_cwd := Some home_a\<rparr>" home_a "[(3, [], EvTitle build_title)]" EvPromptStart
        2 "[]" 1 "[]" "js ''make''" "\<lparr>cs_source = None, cs_started_at = None\<rparr>" "js ''make''" "cwd_path home_a" 4 "[]"
        "\<lparr>cs_source = None, cs_started_at = None\<rparr>"]
  by (simp add: Let_def)

text \<open>Grouping panes by a key makes one group per key that occurs, and each group holds exactly
  the panes with its key, in their original order.\<close>

lemma groups_partition_panes:
  "distinct (map tg_key (group_by f ps)) \<and>
   set (map tg_key (group_by f ps)) = fst ` f ` set ps \<and>
   list_all (\<lambda>g. tg_panes g = filter (\<lambda>p. fst (f p) = tg_key g) ps) (group_by f ps)"
  using group_by_spec [of f ps] by (simp add: list_all_iff)

end
