(* ===== verification/Term_Controls.thy ===== *)
theory Term_Controls
  imports Js_Text Term_Cwd
begin

text \<open>
  The grammar of string controls in terminal output and the two readers of
  \<open>lib/src/lib/terminal-controls.ts\<close>: the filter that removes string controls from a stream
  that arrives in pieces, and \<open>stripTerminalControls\<close>, which removes every other control from a
  text. The scanners of the code work on indices into a text; here they return the parts of the
  text those indices separate.
\<close>

section \<open>The grammar\<close>

datatype string_kind = KindOsc | KindOther

datatype filter_state = InGround | InEscape | InOsc | InString | InStringEscape

text \<open>C1 introducers: DCS, SOS, OSC, PM and APC. The two-unit ones end in one of \<open>] P X ^ _\<close>.\<close>

definition is_c1_introducer :: "nat \<Rightarrow> bool" where
  "is_c1_introducer c \<longleftrightarrow> c = 0x90 \<or> c = 0x98 \<or> c = 0x9D \<or> c = 0x9E \<or> c = 0x9F"

definition opens_string :: "nat \<Rightarrow> bool" where
  "opens_string c \<longleftrightarrow> c = 93 \<or> c = 80 \<or> c = 88 \<or> c = 94 \<or> c = 95"

text \<open>\<open>STRING_CONTROL_INTRODUCER_SCAN.exec\<close>: the text before the first introducer, the
  introducer, and the text after it.\<close>

fun find_introducer :: "js_text \<Rightarrow> (js_text \<times> js_text \<times> js_text) option" where
  "find_introducer [] = None"
| "find_introducer (c # cs) =
     (if is_c1_introducer c then Some ([], [c], cs)
      else if c = 27 \<and> cs \<noteq> [] \<and> opens_string (hd cs) then Some ([], [c, hd cs], tl cs)
      else map_option (\<lambda>(gap, intro, rest). (c # gap, intro, rest)) (find_introducer cs))"

definition string_control_kind :: "js_text \<Rightarrow> string_kind" where
  "string_control_kind intro =
     (let opener = (if length intro = 2 then intro ! 1 else hd intro)
      in if opener = 93 \<or> opener = 0x9D then KindOsc else KindOther)"

text \<open>The units at which a string control can end: BEL ends an OSC only; CAN, SUB, ESC and the
  C1 string terminator end every kind.\<close>

definition string_control_end_scan :: "string_kind \<Rightarrow> nat \<Rightarrow> bool" where
  "string_control_end_scan k c \<longleftrightarrow>
     (k = KindOsc \<and> c = 7) \<or> c = 0x18 \<or> c = 0x1A \<or> c = 27 \<or> c = 0x9C"

section \<open>The stream filter\<close>

text \<open>What follows the first end of a string control, with the unit that ended it.\<close>

fun find_end_unit :: "string_kind \<Rightarrow> js_text \<Rightarrow> (nat \<times> js_text) option" where
  "find_end_unit k [] = None"
| "find_end_unit k (c # cs) = (if string_control_end_scan k c then Some (c, cs) else find_end_unit k cs)"

lemma find_introducer_shorter: "find_introducer s = Some (g, i, r) \<Longrightarrow> length r < length s"
  by (induction s arbitrary: g i r) (auto split: if_splits simp: neq_Nil_conv)

lemma find_end_unit_shorter: "find_end_unit k s = Some (c, r) \<Longrightarrow> length r < length s"
  by (induction s) (auto split: if_splits)

definition with_output :: "js_text \<Rightarrow> 's \<times> js_text \<Rightarrow> 's \<times> js_text" where
  "with_output out r = (fst r, out @ snd r)"

lemma with_output_Nil [simp]: "with_output [] r = r"
  and with_output_twice [simp]: "with_output a (with_output b r) = with_output (a @ b) r"
  and with_output_pair [simp]: "with_output a (s, b) = (s, a @ b)"
  and fst_with_output [simp]: "fst (with_output a r) = fst r"
  and snd_with_output [simp]: "snd (with_output a r) = a @ snd r"
  by (simp_all add: with_output_def)

text \<open>How often a state may be left without reading a unit.\<close>

definition pause_rank :: "filter_state \<Rightarrow> nat" where
  "pause_rank s = (case s of InStringEscape \<Rightarrow> 2 | InEscape \<Rightarrow> 1 | _ \<Rightarrow> 0)"

text \<open>The loop of \<open>TerminalControlStreamFilter.process\<close>: the state it ends in and its output.\<close>

function filter_loop :: "filter_state \<Rightarrow> js_text \<Rightarrow> filter_state \<times> js_text" where
  "filter_loop s input =
     (if input = [] then (s, [])
      else case s of
        InGround \<Rightarrow>
          (case find_introducer input of
             None \<Rightarrow> if last input = 27 then (InEscape, butlast input) else (InGround, input)
           | Some (gap, intro, rest) \<Rightarrow>
               with_output gap
                 (filter_loop (if string_control_kind intro = KindOsc then InOsc else InString) rest))
      | InEscape \<Rightarrow>
          if hd input = 93 then filter_loop InOsc (tl input)
          else if hd input = 80 \<or> hd input = 88 \<or> hd input = 94 \<or> hd input = 95
          then filter_loop InString (tl input)
          else with_output [27] (filter_loop InGround input)
      | InStringEscape \<Rightarrow>
          if hd input = 92 then filter_loop InGround (tl input) else filter_loop InEscape input
      | _ \<Rightarrow>
          (case find_end_unit (if s = InOsc then KindOsc else KindOther) input of
             None \<Rightarrow> (s, [])
           | Some (c, rest) \<Rightarrow> filter_loop (if c = 27 then InStringEscape else InGround) rest))"
  by pat_completeness auto
termination
  by (relation "measure (\<lambda>(s, t). 3 * length t + pause_rank s)")
     (auto simp: pause_rank_def neq_Nil_conv dest!: find_introducer_shorter find_end_unit_shorter split: filter_state.splits)

declare filter_loop.simps [simp del]

definition filter_process :: "filter_state \<Rightarrow> js_text \<Rightarrow> filter_state \<times> js_text" where
  "filter_process s input =
     (if s = InGround \<and> \<not> ends_with [27] input \<and> find_introducer input = None then (s, input)
      else filter_loop s input)"

section \<open>Stripping a text\<close>

text \<open>
  The replacements of \<open>stripTerminalControls\<close>, in order. A CSI sequence is \<open>ESC [\<close>, parameter
  units \<open>0-?\<close>, intermediate units and a final unit \<open>@-~\<close>; the classes do not meet, so what the
  regular expression matches is found without backtracking.
\<close>

definition is_csi_param :: "nat \<Rightarrow> bool" where "is_csi_param c \<longleftrightarrow> 48 \<le> c \<and> c \<le> 63"
definition is_intermediate :: "nat \<Rightarrow> bool" where "is_intermediate c \<longleftrightarrow> 32 \<le> c \<and> c \<le> 47"
definition is_csi_final :: "nat \<Rightarrow> bool" where "is_csi_final c \<longleftrightarrow> 64 \<le> c \<and> c \<le> 126"
definition is_escape_final :: "nat \<Rightarrow> bool" where "is_escape_final c \<longleftrightarrow> 48 \<le> c \<and> c \<le> 126"

definition after_csi_body :: "js_text \<Rightarrow> js_text" where
  "after_csi_body s = dropWhile is_intermediate (dropWhile is_csi_param s)"

lemma length_after_csi_body: "length (after_csi_body s) \<le> length s"
  unfolding after_csi_body_def by (meson length_dropWhile_le order_trans)

text \<open>\<open>/\x1b\[[0-?]*[ -/]*[@-~]/g\<close>: with boundaries, everything but SGR becomes a line break.\<close>

function replace_csi :: "bool \<Rightarrow> js_text \<Rightarrow> js_text" where
  "replace_csi boundaries s =
     (if s = [] then []
      else if starts_with [27, 91] s \<and> after_csi_body (drop 2 s) \<noteq> [] \<and> is_csi_final (hd (after_csi_body (drop 2 s)))
      then (if boundaries \<and> hd (after_csi_body (drop 2 s)) \<noteq> 109 then [10] else [])
           @ replace_csi boundaries (tl (after_csi_body (drop 2 s)))
      else hd s # replace_csi boundaries (tl s))"
  by pat_completeness auto
termination
proof (relation "measure (\<lambda>(b, s). length s)")
  fix boundaries :: bool and s :: js_text
  assume "s \<noteq> []"
  moreover have "length (tl (after_csi_body (drop 2 s))) \<le> length s - 2"
    using length_after_csi_body [of "drop 2 s"] by simp
  ultimately show "((boundaries, tl (after_csi_body (drop 2 s))), boundaries, s) \<in> measure (\<lambda>(b, s). length s)"
    by (cases s) auto
qed (auto simp: neq_Nil_conv)

declare replace_csi.simps [simp del]

text \<open>\<open>/\x1b\[[0-?]*[ -/]*$/\<close>: an unfinished CSI sequence at the end.\<close>

fun replace_open_csi :: "js_text \<Rightarrow> js_text \<Rightarrow> js_text" where
  "replace_open_csi boundary [] = []"
| "replace_open_csi boundary (c # cs) =
     (if starts_with [27, 91] (c # cs) \<and> after_csi_body (drop 1 cs) = [] then boundary
      else c # replace_open_csi boundary cs)"

text \<open>\<open>/\x1b[()*+][A-Za-z0-9]/g\<close>.\<close>

fun remove_charsets :: "js_text \<Rightarrow> js_text" where
  "remove_charsets (a # b # c # r) =
     (if a = 27 \<and> 40 \<le> b \<and> b \<le> 43 \<and> (is_letter c \<or> is_digit c) then remove_charsets r
      else a # remove_charsets (b # c # r))"
| "remove_charsets s = s"

text \<open>\<open>/\x1b[ -/]*[0-~]/g\<close>.\<close>

function replace_escapes :: "js_text \<Rightarrow> js_text \<Rightarrow> js_text" where
  "replace_escapes boundary s =
     (if s = [] then []
      else let after = dropWhile is_intermediate (tl s)
           in if hd s = 27 \<and> after \<noteq> [] \<and> is_escape_final (hd after) then boundary @ replace_escapes boundary (tl after)
              else hd s # replace_escapes boundary (tl s))"
  by pat_completeness auto
termination
proof (relation "measure (\<lambda>(b, s). length s)")
  fix boundary s after :: js_text
  assume ne: "s \<noteq> []" and after: "after = dropWhile is_intermediate (tl s)"
  have "length (tl after) \<le> length (tl s) - 1"
    unfolding after using length_dropWhile_le [of is_intermediate "tl s"] by simp
  with ne show "((boundary, tl after), boundary, s) \<in> measure (\<lambda>(b, s). length s)"
    by (cases s) auto
qed (auto simp: neq_Nil_conv)

declare replace_escapes.simps [simp del]

definition strip_terminal_controls :: "bool \<Rightarrow> js_text \<Rightarrow> js_text" where
  "strip_terminal_controls boundaries input =
     (let boundary = (if boundaries then [10] else []);
          s1 = snd (filter_process InGround input);
          s2 = replace_csi boundaries s1;
          s3 = replace_open_csi boundary s2;
          s4 = remove_charsets s3;
          s5 = replace_escapes boundary s4;
          s6 = concat (map (\<lambda>c. if c = 8 \<or> c = 11 \<or> c = 12 then boundary else [c]) s5)
      in filter (\<lambda>c. \<not> (c \<le> 8 \<or> 14 \<le> c \<and> c \<le> 31 \<or> 127 \<le> c \<and> c \<le> 159)) s6)"

section \<open>The filter as an automaton on single units\<close>

text \<open>
  The reference for the filter: an automaton that reads one unit at a time and has no notion of a
  chunk. It withholds an \<open>ESC\<close> until the next unit shows what it opens.
\<close>

definition escape_step :: "nat \<Rightarrow> filter_state \<times> js_text" where
  "escape_step c =
     (if opens_string c then (if c = 93 then InOsc else InString, [])
      else if c = 27 then (InEscape, [27])
      else if is_c1_introducer c then (if c = 0x9D then InOsc else InString, [27])
      else (InGround, [27, c]))"

fun unit_step :: "filter_state \<Rightarrow> nat \<Rightarrow> filter_state \<times> js_text" where
  "unit_step InGround c =
     (if c = 27 then (InEscape, [])
      else if is_c1_introducer c then (if c = 0x9D then InOsc else InString, [])
      else (InGround, [c]))"
| "unit_step InEscape c = escape_step c"
| "unit_step InOsc c =
     (if c = 27 then InStringEscape else if string_control_end_scan KindOsc c then InGround else InOsc, [])"
| "unit_step InString c =
     (if c = 27 then InStringEscape else if string_control_end_scan KindOther c then InGround else InString, [])"
| "unit_step InStringEscape c = (if c = 92 then (InGround, []) else escape_step c)"

fun run_units :: "filter_state \<Rightarrow> js_text \<Rightarrow> filter_state \<times> js_text" where
  "run_units s [] = (s, [])"
| "run_units s (c # cs) = (let (s', out) = unit_step s c in with_output out (run_units s' cs))"

text \<open>Reading a stream that arrives in pieces.\<close>

fun filter_pieces :: "filter_state \<Rightarrow> js_text list \<Rightarrow> filter_state \<times> js_text" where
  "filter_pieces s [] = (s, [])"
| "filter_pieces s (p # ps) = (let (s', out) = filter_process s p in with_output out (filter_pieces s' ps))"

lemma run_units_Cons:
  "run_units s (c # cs) = with_output (snd (unit_step s c)) (run_units (fst (unit_step s c)) cs)"
  by (simp split: prod.splits)

declare run_units.simps(2) [simp del]

lemma run_units_append:
  "run_units s (x @ y) = with_output (snd (run_units s x)) (run_units (fst (run_units s x)) y)"
  by (induction x arbitrary: s) (simp_all add: run_units_Cons)

lemma run_ground_gap:
  "find_introducer s = Some (gap, intro, rest) \<Longrightarrow>
   run_units InGround s = with_output gap
     (run_units (if string_control_kind intro = KindOsc then InOsc else InString) rest)"
proof (induction s arbitrary: gap)
  case (Cons c cs)
  show ?case
  proof (cases "is_c1_introducer c")
    case True
    then show ?thesis using Cons.prems
      by (auto simp: string_control_kind_def is_c1_introducer_def Let_def run_units_Cons)
  next
    case c1: False
    show ?thesis
    proof (cases "c = 27")
      case False
      then show ?thesis using Cons c1 by (auto simp: simp: run_units_Cons)
    next
      case esc: True
      then obtain d ds where cs: "cs = d # ds" using Cons.prems c1 by (cases cs) auto
      show ?thesis
      proof (cases "opens_string d")
        case True
        then show ?thesis using Cons.prems c1 esc cs
          by (auto simp: string_control_kind_def escape_step_def opens_string_def Let_def run_units_Cons)
      next
        case False
        obtain g where g: "find_introducer cs = Some (g, intro, rest)" "gap = 27 # g"
          using Cons.prems c1 esc cs False by auto
        have "run_units InEscape cs = with_output [27] (run_units InGround cs)"
          using False cs by (auto simp: escape_step_def opens_string_def is_c1_introducer_def run_units_Cons)
        then show ?thesis using Cons.IH [OF g(1)] esc g(2) by (auto simp: is_c1_introducer_def run_units_Cons)
      qed
    qed
  qed
qed simp

lemma run_ground_end:
  "find_introducer s = None \<Longrightarrow> s \<noteq> [] \<Longrightarrow>
   run_units InGround s = (if last s = 27 then (InEscape, butlast s) else (InGround, s))"
proof (induction s rule: induct_list012)
  case (3 c d s)
  have step: "run_units InEscape (d # s) = with_output [27] (run_units InGround (d # s))" if "c = 27"
    using 3(3) that by (auto simp: run_units_Cons escape_step_def opens_string_def is_c1_introducer_def split: if_splits)
  show ?case using 3 step by (auto simp: run_units_Cons [of _ c] with_output_def split: if_splits)
qed (auto simp: run_units_Cons split: if_splits)

lemma run_string:
  "s = InOsc \<and> k = KindOsc \<or> s = InString \<and> k = KindOther \<Longrightarrow>
   run_units s t =
     (case find_end_unit k t of
        None \<Rightarrow> (s, [])
      | Some (c, rest) \<Rightarrow> run_units (if c = 27 then InStringEscape else InGround) rest)"
  by (induction t) (auto simp: run_units_Cons string_control_end_scan_def)

lemma filter_loop_units: "filter_loop s t = run_units s t"
proof (induction s t rule: filter_loop.induct)
  case (1 s t)
  show ?case
  proof (cases t)
    case (Cons c cs)
    then have ne: "t \<noteq> []" by simp
    show ?thesis
    proof (cases s)
      case InGround
      show ?thesis
      proof (cases "find_introducer t")
        case None
        then show ?thesis using InGround ne by (subst filter_loop.simps) (simp add: run_ground_end)
      next
        case (Some a)
        then obtain g i r where "find_introducer t = Some (g, i, r)" by (cases a) auto
        then show ?thesis using InGround ne 1(1) by (subst filter_loop.simps) (auto simp: run_ground_gap)
      qed
    next
      case InEscape
      have "run_units InEscape t = with_output [27] (run_units InGround t)" if "\<not> opens_string c"
        using that Cons by (auto simp: run_units_Cons escape_step_def opens_string_def is_c1_introducer_def)
      then show ?thesis using InEscape Cons 1(2,3,4)
        by (subst filter_loop.simps) (auto simp: run_units_Cons escape_step_def opens_string_def)
    next
      case InStringEscape
      have "run_units InStringEscape t = run_units InEscape t" if "c \<noteq> 92"
        using that Cons by (simp add: run_units_Cons)
      then show ?thesis using InStringEscape Cons 1(7,8)
        by (subst filter_loop.simps) (auto simp: run_units_Cons)
    next
      case InOsc
      then show ?thesis using ne 1(5)
        by (subst filter_loop.simps) (auto simp: run_string [of InOsc KindOsc] split: option.splits)
    next
      case InString
      then show ?thesis using ne 1(6)
        by (subst filter_loop.simps) (auto simp: run_string [of InString KindOther] split: option.splits)
    qed
  qed (simp add: filter_loop.simps)
qed

lemma filter_process_units: "filter_process s t = run_units s t"
proof (cases "s = InGround \<and> \<not> ends_with [27] t \<and> find_introducer t = None")
  case True
  show ?thesis
  proof (cases "t = []")
    case False
    then have "last t \<noteq> 27" using True by (cases t rule: rev_cases) (auto simp: ends_with_def)
    then show ?thesis using True False by (simp add: filter_process_def run_ground_end)
  qed (use True in \<open>simp add: filter_process_def\<close>)
next
  case False
  then show ?thesis unfolding filter_process_def by (simp only: if_False filter_loop_units)
qed

lemma filter_pieces_units: "filter_pieces s ps = run_units s (concat ps)"
  by (induction ps arbitrary: s) (simp_all add: filter_process_units run_units_append split: prod.splits)

section \<open>What stripping leaves\<close>

lemma stripped_units:
  "list_all (\<lambda>c. c = 9 \<or> c = 10 \<or> c = 13 \<or> \<not> is_control c) (strip_terminal_controls boundaries input)"
  by (auto simp: strip_terminal_controls_def Let_def list_all_iff is_control_def)

end
