(* ===== verification/Sec_Bytes.thy ===== *)
theory Sec_Bytes
  imports Js_Text "HOL-Library.Word"
begin

text \<open>
  The byte helpers every security primitive is built on (\<open>remote-lib-common/src/security/bytes.ts\<close>):
  base64url with its strict decoder, the big-endian length prefix, the framed concatenation that
  makes signing payloads unambiguous, and the comparison without early exit. A \<open>Uint8Array\<close> is
  a list of 8-bit words; a function that throws returns \<open>None\<close>.
\<close>

unbundle bit_operations_syntax

type_synonym bytes = "8 word list"

section \<open>Base64url\<close>

definition b64u_alphabet :: js_text where
  "b64u_alphabet = js ''ABCDEFGHIJKLMNOPQRSTUVWXYZabcdefghijklmnopqrstuvwxyz0123456789-_''"

text \<open>The reverse table; \<open>None\<close> is its entry \<open>-1\<close>.\<close>

definition b64u_reverse :: "nat \<Rightarrow> nat option" where
  "b64u_reverse c = map_of (zip b64u_alphabet [0..<64]) c"

definition b64u_char :: "8 word \<Rightarrow> nat" where
  "b64u_char v = b64u_alphabet ! unat v"

fun to_base64_url :: "bytes \<Rightarrow> js_text" where
  "to_base64_url [] = []"
| "to_base64_url [b0] =
     [b64u_char (drop_bit 2 b0), b64u_char (push_bit 4 (b0 AND 0x03))]"
| "to_base64_url [b0, b1] =
     [b64u_char (drop_bit 2 b0), b64u_char (push_bit 4 (b0 AND 0x03) OR drop_bit 4 b1),
      b64u_char (push_bit 2 (b1 AND 0x0f))]"
| "to_base64_url (b0 # b1 # b2 # rest) =
     [b64u_char (drop_bit 2 b0), b64u_char (push_bit 4 (b0 AND 0x03) OR drop_bit 4 b1),
      b64u_char (push_bit 2 (b1 AND 0x0f) OR drop_bit 6 b2), b64u_char (b2 AND 0x3f)]
     @ to_base64_url rest"

definition base64_url_length :: "nat \<Rightarrow> nat" where
  "base64_url_length n = n div 3 * 4 + (if n mod 3 = 0 then 0 else n mod 3 + 1)"

definition is_b64u_unit :: "nat \<Rightarrow> bool" where
  "is_b64u_unit c \<longleftrightarrow> is_letter c \<or> is_digit c \<or> c = 95 \<or> c = 45"

definition is_bounded_base64_url :: "js_text \<Rightarrow> nat \<Rightarrow> bool" where
  "is_bounded_base64_url s limit \<longleftrightarrow> 0 < length s \<and> length s \<le> limit \<and> list_all is_b64u_unit s"

definition is_exact_base64_url :: "js_text \<Rightarrow> nat \<Rightarrow> bool" where
  "is_exact_base64_url s n \<longleftrightarrow> is_bounded_base64_url s n \<and> length s = n"

text \<open>
  The decoding loop: \<open>bits\<close> is the 32-bit accumulator, whose old bits are shifted out, and
  \<open>count\<close> the number of its low bits not yet written. The result carries both on.
\<close>

fun decode_loop :: "32 word \<Rightarrow> nat \<Rightarrow> js_text \<Rightarrow> (bytes \<times> 32 word \<times> nat) option" where
  "decode_loop bits count [] = Some ([], bits, count)"
| "decode_loop bits count (c # cs) =
     (case b64u_reverse c of
        None \<Rightarrow> None
      | Some v \<Rightarrow>
          let bits' = push_bit 6 bits OR of_nat v
          in if 8 \<le> count + 6
             then map_option (\<lambda>(out, end_state). (ucast (signed_drop_bit (count + 6 - 8) bits' AND 0xff) # out, end_state))
                    (decode_loop bits' (count + 6 - 8) cs)
             else decode_loop bits' (count + 6) cs)"

definition strip_padding :: "js_text \<Rightarrow> js_text" where
  "strip_padding s = rev (dropWhile (\<lambda>c. c = 61) (rev s))"

definition from_base64_url :: "js_text \<Rightarrow> bytes option" where
  "from_base64_url text =
     (let body = strip_padding text
      in if length body mod 4 = 1 then None
         else case decode_loop 0 0 body of
                None \<Rightarrow> None
              | Some (out, bits, count) \<Rightarrow>
                  if bits AND (push_bit count 1 - 1) \<noteq> 0 then None else Some out)"

section \<open>Lengths and framing\<close>

definition uint32_size :: nat where "uint32_size = 4"

definition write_uint32_be :: "nat \<Rightarrow> bytes" where
  "write_uint32_be v =
     (let w = (of_nat v :: 32 word)
      in [ucast (drop_bit 24 w AND 0xff), ucast (drop_bit 16 w AND 0xff),
          ucast (drop_bit 8 w AND 0xff), ucast (w AND 0xff)])"

text \<open>\<open>None\<close> stands for the \<open>NaN\<close> that reading past the end gives.\<close>

definition read_uint32_be :: "bytes \<Rightarrow> nat \<Rightarrow> nat option" where
  "read_uint32_be bs offset =
     (if offset + uint32_size \<le> length bs
      then Some (unat (bs ! offset) * 2 ^ 24 + unat (bs ! (offset + 1)) * 2 ^ 16 +
                 unat (bs ! (offset + 2)) * 2 ^ 8 + unat (bs ! (offset + 3)))
      else None)"

definition concat_bytes :: "bytes list \<Rightarrow> bytes" where
  "concat_bytes parts = concat parts"

fun length_prefixed_concat :: "bytes list \<Rightarrow> bytes" where
  "length_prefixed_concat [] = []"
| "length_prefixed_concat (part # parts) =
     write_uint32_be (length part) @ part @ length_prefixed_concat parts"

definition is_bounded_string :: "js_text \<Rightarrow> nat \<Rightarrow> bool" where
  "is_bounded_string s limit \<longleftrightarrow> length s \<le> limit"

definition constant_time_equal :: "bytes \<Rightarrow> bytes \<Rightarrow> bool" where
  "constant_time_equal a b \<longleftrightarrow>
     length a = length b \<and> fold (\<lambda>(x, y) diff. diff OR (x XOR y)) (zip a b) 0 = 0"

section \<open>Bits\<close>

lemma bit_nat_bounded: "(v :: nat) < 2 ^ k \<Longrightarrow> bit v n \<Longrightarrow> n < k"
  by (metis bit_take_bit_iff take_bit_nat_eq_self_iff)

lemma and_masks:
  "(x :: 8 word) AND 0x03 = take_bit 2 x" "x AND 0x0f = take_bit 4 x" "x AND 0x3f = take_bit 6 x"
  "(w :: 32 word) AND 0xff = take_bit 8 w"
  by (simp_all add: take_bit_eq_mask mask_eq_exp_minus_1)

lemma decoded_bytes:
  fixes bits :: "32 word" and v0 v1 v2 v3 :: nat
  assumes "v0 < 64" "v1 < 64" "v2 < 64" "v3 < 64"
  shows "(ucast (signed_drop_bit 4 (push_bit 6 (push_bit 6 bits OR of_nat v0) OR of_nat v1) AND 0xff) :: 8 word) =
      push_bit 2 (of_nat v0) OR drop_bit 4 (of_nat v1)"
    and "(ucast (signed_drop_bit 2 (push_bit 6 (push_bit 6 bits OR of_nat v1) OR of_nat v2) AND 0xff) :: 8 word) =
      push_bit 4 (of_nat v1) OR drop_bit 2 (of_nat v2)"
    and "(ucast ((push_bit 6 (push_bit 6 bits OR of_nat v2) OR of_nat v3) AND 0xff) :: 8 word) =
      push_bit 6 (of_nat v2) OR of_nat v3"
proof -
  have b: "bit v n \<Longrightarrow> n < 6" if "v < 64" for v n :: nat using bit_nat_bounded [of v 6 n] that by simp
  note bb = b [OF assms(1)] b [OF assms(2)] b [OF assms(3)] b [OF assms(4)]
  show "(ucast (signed_drop_bit 4 (push_bit 6 (push_bit 6 bits OR of_nat v0) OR of_nat v1) AND 0xff) :: 8 word) =
      push_bit 2 (of_nat v0) OR drop_bit 4 (of_nat v1)"
    by (rule bit_word_eqI) (auto simp: and_masks bit_simps dest: bb)
  show "(ucast (signed_drop_bit 2 (push_bit 6 (push_bit 6 bits OR of_nat v1) OR of_nat v2) AND 0xff) :: 8 word) =
      push_bit 4 (of_nat v1) OR drop_bit 2 (of_nat v2)"
    by (rule bit_word_eqI) (auto simp: and_masks bit_simps dest: bb)
  show "(ucast ((push_bit 6 (push_bit 6 bits OR of_nat v2) OR of_nat v3) AND 0xff) :: 8 word) =
      push_bit 6 (of_nat v2) OR of_nat v3"
    by (rule bit_word_eqI) (auto simp: and_masks bit_simps dest: bb)
qed

section \<open>The alphabet\<close>

lemma alphabet: "length b64u_alphabet = 64" "distinct b64u_alphabet" "list_all is_b64u_unit b64u_alphabet"
  by code_simp+

lemma reverse_char: "v < 64 \<Longrightarrow> b64u_reverse (b64u_alphabet ! v) = Some v"
  using map_of_zip_nth [of b64u_alphabet "[0..<64]" v] by (simp add: b64u_reverse_def alphabet)

lemma reverse_b64u_char: "unat x < 64 \<Longrightarrow> b64u_reverse (b64u_char x) = Some (unat x)"
  by (simp add: b64u_char_def reverse_char)

lemma reverse_Some: "b64u_reverse c = Some v \<longleftrightarrow> v < 64 \<and> c = b64u_alphabet ! v"
proof
  assume "b64u_reverse c = Some v"
  then have "(c, v) \<in> set (zip b64u_alphabet [0..<64])" by (auto simp: b64u_reverse_def dest: map_of_SomeD)
  then show "v < 64 \<and> c = b64u_alphabet ! v" by (auto simp: in_set_zip alphabet)
qed (auto simp: reverse_char)

lemma b64u_char_of: "v < 64 \<Longrightarrow> b64u_char (of_nat v) = b64u_alphabet ! v"
  by (simp add: b64u_char_def unat_of_nat take_bit_nat_eq_self)

section \<open>Groups of four characters\<close>

lemma reverse_less: "b64u_reverse c = Some v \<Longrightarrow> v < 64"
  by (simp add: reverse_Some)

lemma decode_two:
  assumes "b64u_reverse c0 = Some v0" "b64u_reverse c1 = Some v1"
  shows "decode_loop bits 0 (c0 # c1 # cs) =
    map_option (\<lambda>(out, end_state). ((push_bit 2 (of_nat v0) OR drop_bit 4 (of_nat v1)) # out, end_state))
      (decode_loop (push_bit 6 (push_bit 6 bits OR of_nat v0) OR of_nat v1) 4 cs)"
  using decoded_bytes(1) [OF assms [THEN reverse_less], of 0 0 bits] by (simp add: assms Let_def)

lemma decode_third:
  assumes "b64u_reverse c1 = Some v1" "b64u_reverse c2 = Some v2"
  shows "decode_loop (push_bit 6 bits OR of_nat v1) 4 (c2 # cs) =
    map_option (\<lambda>(out, end_state). ((push_bit 4 (of_nat v1) OR drop_bit 2 (of_nat v2)) # out, end_state))
      (decode_loop (push_bit 6 (push_bit 6 bits OR of_nat v1) OR of_nat v2) 2 cs)"
  using decoded_bytes(2) [OF _ assms [THEN reverse_less], of 0 0 bits] by (simp add: assms Let_def)

lemma decode_fourth:
  assumes "b64u_reverse c2 = Some v2" "b64u_reverse c3 = Some v3"
  shows "decode_loop (push_bit 6 bits OR of_nat v2) 2 (c3 # cs) =
    map_option (\<lambda>(out, end_state). ((push_bit 6 (of_nat v2) OR of_nat v3) # out, end_state))
      (decode_loop (push_bit 6 (push_bit 6 bits OR of_nat v2) OR of_nat v3) 0 cs)"
  using decoded_bytes(3) [OF _ _ assms [THEN reverse_less], of 0 0 bits] by (simp add: assms Let_def)

section \<open>Round trip\<close>

lemma encoded_values:
  "unat (drop_bit 2 b0 :: 8 word) < 64" "unat (push_bit 4 (b0 AND 0x03) OR drop_bit 4 b1 :: 8 word) < 64"
  "unat (push_bit 2 (b1 AND 0x0f) OR drop_bit 6 b2 :: 8 word) < 64" "unat (b2 AND 0x3f :: 8 word) < 64"
  "unat (push_bit 4 (b0 AND 0x03) :: 8 word) < 64" "unat (push_bit 2 (b1 AND 0x0f) :: 8 word) < 64"
proof -
  have small: "unat x < 64" if "take_bit 6 x = x" for x :: "8 word"
  proof -
    have "unat (take_bit 6 x) < 2 ^ 6" unfolding unsigned_take_bit_eq by (rule take_bit_nat_less_exp)
    with that show ?thesis by simp
  qed
  show "unat (drop_bit 2 b0 :: 8 word) < 64" "unat (push_bit 4 (b0 AND 0x03) OR drop_bit 4 b1 :: 8 word) < 64"
    "unat (push_bit 2 (b1 AND 0x0f) OR drop_bit 6 b2 :: 8 word) < 64" "unat (b2 AND 0x3f :: 8 word) < 64"
    "unat (push_bit 4 (b0 AND 0x03) :: 8 word) < 64" "unat (push_bit 2 (b1 AND 0x0f) :: 8 word) < 64"
    by (rule small, rule bit_word_eqI, auto simp: and_masks bit_simps dest: bit_imp_le_length)+
qed

lemma byte_eqI:
  fixes a b :: "8 word"
  assumes "\<And>n. n \<in> {0, 1, 2, 3, 4, 5, 6, 7} \<Longrightarrow> bit a n = bit b n"
  shows "a = b"
proof (rule bit_word_eqI)
  fix n assume "n < LENGTH(8)"
  then have "n \<in> {0, 1, 2, 3, 4, 5, 6, 7}" by auto
  then show "bit a n = bit b n" by (rule assms)
qed

lemma joined_bytes:
  fixes b0 b1 b2 :: "8 word"
  shows "push_bit 2 (drop_bit 2 b0) OR drop_bit 4 (push_bit 4 (b0 AND 0x03) OR drop_bit 4 b1) = b0"
    and "push_bit 4 (push_bit 4 (b0 AND 0x03) OR drop_bit 4 b1) OR drop_bit 2 (push_bit 2 (b1 AND 0x0f) OR drop_bit 6 b2) = b1"
    and "push_bit 6 (push_bit 2 (b1 AND 0x0f) OR drop_bit 6 b2) OR (b2 AND 0x3f) = b2"
  by (rule byte_eqI, auto simp: and_masks bit_simps simp flip: numeral_2_eq_2)+

lemma split_values:
  fixes w0 w1 w2 :: "8 word" and v0 v1 v2 v3 :: nat
  assumes "v0 < 64" "v1 < 64" "v2 < 64" "v3 < 64"
    and w0: "w0 = push_bit 2 (of_nat v0) OR drop_bit 4 (of_nat v1)"
    and w1: "w1 = push_bit 4 (of_nat v1) OR drop_bit 2 (of_nat v2)"
    and w2: "w2 = push_bit 6 (of_nat v2) OR of_nat v3"
  shows "drop_bit 2 w0 = of_nat v0" and "push_bit 4 (w0 AND 0x03) OR drop_bit 4 w1 = of_nat v1"
    and "push_bit 2 (w1 AND 0x0f) OR drop_bit 6 w2 = of_nat v2" and "w2 AND 0x3f = of_nat v3"
proof -
  have b: "\<not> bit v n" if "v < 64" "6 \<le> n" for v n :: nat using bit_nat_bounded [of v 6 n] that by auto
  note bb = b [OF assms(1)] b [OF assms(2)] b [OF assms(3)] b [OF assms(4)]
  show "drop_bit 2 w0 = of_nat v0" "push_bit 4 (w0 AND 0x03) OR drop_bit 4 w1 = of_nat v1"
    "push_bit 2 (w1 AND 0x0f) OR drop_bit 6 w2 = of_nat v2" "w2 AND 0x3f = of_nat v3"
    unfolding w0 w1 w2 by (rule byte_eqI, auto simp: and_masks bit_simps bb simp flip: numeral_2_eq_2)+
qed

lemma low_bits: "w AND (push_bit k 1 - 1) = take_bit k (w :: 32 word)" "w AND (2 ^ k - 1) = take_bit k w"
  by (simp_all add: take_bit_eq_mask mask_eq_exp_minus_1 push_bit_eq_mult)

lemma decode_group:
  assumes "b64u_reverse c0 = Some v0" "b64u_reverse c1 = Some v1" "b64u_reverse c2 = Some v2" "b64u_reverse c3 = Some v3"
  shows "\<exists>bits1. decode_loop bits 0 (c0 # c1 # c2 # c3 # cs) =
    map_option (\<lambda>(out, end_state). ((push_bit 2 (of_nat v0) OR drop_bit 4 (of_nat v1)) #
        (push_bit 4 (of_nat v1) OR drop_bit 2 (of_nat v2)) # (push_bit 6 (of_nat v2) OR of_nat v3) # out, end_state))
      (decode_loop bits1 0 cs)"
  unfolding decode_two [OF assms(1,2)] decode_third [OF assms(2,3)] decode_fourth [OF assms(3,4)]
    option.map_comp comp_def case_prod_unfold fst_conv snd_conv by blast

lemma decode_encode:
  "\<exists>bits' count. decode_loop bits 0 (to_base64_url bs) = Some (bs, bits', count) \<and> take_bit count bits' = 0"
proof (induction bs arbitrary: bits rule: to_base64_url.induct)
  case (2 b0)
  note v = encoded_values(1,5) [THEN reverse_b64u_char, of b0]
  have "drop_bit 4 (push_bit 4 (b0 AND 0x03)) = b0 AND 0x03" by (rule byte_eqI) (auto simp: and_masks bit_simps)
  then have "push_bit 2 (drop_bit 2 b0) OR drop_bit 4 (push_bit 4 (b0 AND 0x03)) = b0"
    using joined_bytes(1) [of b0 0] by simp
  moreover have "take_bit 4 (ucast (push_bit 4 (b0 AND 3)) :: 32 word) = 0"
    by (rule bit_word_eqI) (auto simp: bit_simps)
  ultimately show ?case
    unfolding to_base64_url.simps decode_two [OF v]
    by (auto simp: take_bit_push_bit take_bit_or)
next
  case (3 b0 b1)
  note v = encoded_values(1) [THEN reverse_b64u_char, of b0] encoded_values(2) [THEN reverse_b64u_char, of b0 b1] encoded_values(6) [THEN reverse_b64u_char, of b1]
  have low: "take_bit 2 (ucast (push_bit 2 (b1 AND 0x0f)) :: 32 word) = 0"
    by (rule bit_word_eqI) (auto simp: bit_simps)
  show ?case
    unfolding to_base64_url.simps decode_two [OF v(1,2)] decode_third [OF v(2,3)]
    using joined_bytes(1) [of b0 b1] joined_bytes(2) [of b0 b1 0] low
    by (auto simp: take_bit_push_bit take_bit_or)
next
  case (4 b0 b1 b2 rest)
  note v = encoded_values(1) [THEN reverse_b64u_char, of b0] encoded_values(2) [THEN reverse_b64u_char, of b0 b1] encoded_values(3) [THEN reverse_b64u_char, of b1 b2] encoded_values(4) [THEN reverse_b64u_char, of b2]
  obtain bits1 where g: "decode_loop bits 0 (to_base64_url (b0 # b1 # b2 # rest)) =
      map_option (\<lambda>(out, end_state). (b0 # b1 # b2 # out, end_state)) (decode_loop bits1 0 (to_base64_url rest))"
    using decode_group [OF v, of bits "to_base64_url rest"] joined_bytes(1) [of b0 b1] joined_bytes(2) [of b0 b1 b2] joined_bytes(3) [of b1 b2]
    by auto
  with "4.IH" [of bits1] show ?case by auto
qed simp

lemma encoded_units: "c \<in> set (to_base64_url bs) \<Longrightarrow> is_b64u_unit c"
proof -
  have unit: "is_b64u_unit (b64u_char x)" if "unat x < 64" for x
    using that alphabet by (auto simp: b64u_char_def list_all_length)
  note chars = encoded_values [THEN unit]
  show "c \<in> set (to_base64_url bs) \<Longrightarrow> is_b64u_unit c"
    by (induction bs rule: to_base64_url.induct;
        simp only: to_base64_url.simps list.set set_append insert_iff Un_iff empty_iff)
       (use chars in blast)+
qed

lemma padding_free: "list_all is_b64u_unit s \<Longrightarrow> strip_padding s = s"
proof -
  assume "list_all is_b64u_unit s"
  then have "61 \<notin> set s" by (auto simp: list_all_iff is_b64u_unit_def char_classes)
  then show ?thesis by (cases "rev s") (auto simp: strip_padding_def rev_eq_Cons_iff)
qed

lemma encoded_padding [simp]: "strip_padding (to_base64_url bs) = to_base64_url bs"
  using encoded_units by (intro padding_free) (auto simp: list_all_iff)

lemma length_to_base64_url: "length (to_base64_url bs) = base64_url_length (length bs)"
proof (induction bs rule: to_base64_url.induct)
  case (4 b0 b1 b2 rest)
  then show ?case by (simp add: base64_url_length_def mod_Suc)
qed (simp_all add: base64_url_length_def)

lemma base64_url_length_mod: "base64_url_length n mod 4 \<noteq> 1"
  by (auto simp: base64_url_length_def mod_Suc split: if_splits)

lemma from_to_base64_url: "from_base64_url (to_base64_url bs) = Some bs"
  using decode_encode [of 0 bs] base64_url_length_mod [of "length bs"]
  by (auto simp: from_base64_url_def Let_def length_to_base64_url low_bits)

section \<open>One spelling\<close>

lemma tail_bits:
  assumes "take_bit k (push_bit 6 b OR of_nat v :: 32 word) = 0" and "k \<le> 6"
  shows "push_bit (8 - k) (of_nat v :: 8 word) = 0"
proof (rule bit_word_eqI)
  fix n assume n: "n < LENGTH(8)"
  have "\<not> bit (take_bit k (push_bit 6 b OR of_nat v :: 32 word)) m" for m using assms(1) by simp
  then have "\<not> bit v m" if "m < k" for m using that assms(2) by (fastforce simp: bit_simps)
  with n assms(2) show "bit (push_bit (8 - k) (of_nat v) :: 8 word) n = bit (0 :: 8 word) n"
    by (auto simp: bit_simps)
qed

lemma loop_None: "b64u_reverse c = None \<Longrightarrow> c \<in> set s \<Longrightarrow> decode_loop bits count s = None"
  by (induction bits count s rule: decode_loop.induct) (auto simp: Let_def split: option.splits)

lemma loop_values:
  assumes "decode_loop bits count s \<noteq> None" and "c \<in> set s"
  obtains v where "b64u_reverse c = Some v"
  using assms loop_None by (cases "b64u_reverse c") auto

lemma encode_decode:
  "decode_loop bits 0 s = Some (bs, bits', count) \<Longrightarrow> length s mod 4 \<noteq> 1 \<Longrightarrow> take_bit count bits' = 0 \<Longrightarrow>
   to_base64_url bs = s"
proof (induction s arbitrary: bits bs rule: measure_induct_rule [where f = length])
  case (less s)
  have val: "\<exists>v. b64u_reverse c = Some v" if "c \<in> set s" for c
    using loop_values [OF _ that, of bits 0] less.prems(1) by auto
  have spelt: "b64u_char (of_nat v) = c" if "b64u_reverse c = Some v" for c v
    using that by (simp add: reverse_Some b64u_char_of)
  consider "s = []" | a where "s = [a]" | a b where "s = [a, b]" | a b c where "s = [a, b, c]"
    | a b c d r where "s = a # b # c # d # r"
    by (metis list.exhaust)
  then show ?case
  proof cases
    case (3 c0 c1)
    then obtain v0 v1 where v: "b64u_reverse c0 = Some v0" "b64u_reverse c1 = Some v1" using val by (metis list.set_intros)
    let ?w0 = "push_bit 2 (of_nat v0) OR drop_bit 4 (of_nat v1) :: 8 word"
    have res: "bs = [?w0]" "count = 4" "bits' = push_bit 6 (push_bit 6 bits OR of_nat v0) OR of_nat v1"
      using less.prems(1) unfolding 3 decode_two [OF v] by auto
    have "push_bit 4 (of_nat v1 :: 8 word) = 0"
      using tail_bits [of 4 "push_bit 6 bits OR of_nat v0" v1] less.prems(3) unfolding res by simp
    then show ?thesis
      using split_values(1,2) [OF v [THEN reverse_less], of 0 0 ?w0 0] spelt v by (simp add: 3 res(1))
  next
    case (4 c0 c1 c2)
    then obtain v0 v1 v2 where v: "b64u_reverse c0 = Some v0" "b64u_reverse c1 = Some v1" "b64u_reverse c2 = Some v2"
      using val by (metis list.set_intros)
    let ?w0 = "push_bit 2 (of_nat v0) OR drop_bit 4 (of_nat v1) :: 8 word"
    let ?w1 = "push_bit 4 (of_nat v1) OR drop_bit 2 (of_nat v2) :: 8 word"
    have res: "bs = [?w0, ?w1]" "count = 2"
        "bits' = push_bit 6 (push_bit 6 (push_bit 6 bits OR of_nat v0) OR of_nat v1) OR of_nat v2"
      using less.prems(1) unfolding 4 decode_two [OF v(1,2)] decode_third [OF v(2,3)] by auto
    have "push_bit 6 (of_nat v2 :: 8 word) = 0"
      using tail_bits [of 2 "push_bit 6 (push_bit 6 bits OR of_nat v0) OR of_nat v1" v2] less.prems(3)
      unfolding res by simp
    then show ?thesis
      using split_values(1-3) [OF v [THEN reverse_less], of 0 ?w0 ?w1 0] spelt v by (simp add: 4 res(1))
  next
    case (5 c0 c1 c2 c3 r)
    then obtain v0 v1 v2 v3 where v: "b64u_reverse c0 = Some v0" "b64u_reverse c1 = Some v1"
        "b64u_reverse c2 = Some v2" "b64u_reverse c3 = Some v3"
      using val by (metis list.set_intros)
    let ?w0 = "push_bit 2 (of_nat v0) OR drop_bit 4 (of_nat v1) :: 8 word"
    let ?w1 = "push_bit 4 (of_nat v1) OR drop_bit 2 (of_nat v2) :: 8 word"
    let ?w2 = "push_bit 6 (of_nat v2) OR of_nat v3 :: 8 word"
    obtain bits1 rest where rest: "bs = ?w0 # ?w1 # ?w2 # rest" "decode_loop bits1 0 r = Some (rest, bits', count)"
      using decode_group [OF v, of bits r] less.prems(1) [unfolded 5]
      by (auto simp del: decode_loop.simps dest: sym)
    have "to_base64_url rest = r" using less.IH [OF _ rest(2)] less.prems(2,3) by (simp add: 5)
    then show ?thesis
      using split_values [OF v [THEN reverse_less], of ?w0 ?w1 ?w2] spelt v by (simp add: 5 rest(1))
  qed (use less.prems in auto)
qed

lemma to_from_base64_url:
  assumes "from_base64_url s = Some bs"
  shows "to_base64_url bs = strip_padding s"
  using assms encode_decode [of 0 "strip_padding s" bs]
  by (auto simp: from_base64_url_def Let_def low_bits split: option.splits if_splits)

lemma from_base64_url_inj:
  assumes "from_base64_url s = Some bs" and "from_base64_url t = Some bs"
    and "list_all is_b64u_unit s" and "list_all is_b64u_unit t"
  shows "s = t"
  using to_from_base64_url [OF assms(1)] to_from_base64_url [OF assms(2)] padding_free assms(3,4) by simp

section \<open>Length prefixes\<close>

lemma length_write [simp]: "length (write_uint32_be v) = 4"
  by (simp add: write_uint32_be_def Let_def)

lemma byte_value: "unat (ucast (w AND 0xff :: 32 word) :: 8 word) = unat w mod 256"
  unfolding and_masks unsigned_ucast_eq unsigned_take_bit_eq by (simp add: take_bit_eq_mod)

lemma written_bytes:
  assumes "v < 2 ^ 32"
  shows "map unat (write_uint32_be v) = [v div 2 ^ 24, v div 2 ^ 16 mod 256, v div 2 ^ 8 mod 256, v mod 256]"
proof -
  have w: "unat (of_nat v :: 32 word) = v" using assms by (simp add: unat_of_nat take_bit_eq_mod)
  have drop: "unat (drop_bit k (of_nat v :: 32 word)) = v div 2 ^ k" for k
    using unat_drop_bit_eq [of k "of_nat v :: 32 word"] by (simp only: w drop_bit_eq_div)
  have "v div 2 ^ 24 mod 256 = v div 2 ^ 24" using assms by (simp add: div_less_iff_less_mult)
  then show ?thesis by (simp only: write_uint32_be_def Let_def list.map byte_value drop w)
qed

lemma four_digits: "(v :: nat) div 2 ^ 24 * 2 ^ 24 + v div 2 ^ 16 mod 256 * 2 ^ 16 + v div 2 ^ 8 mod 256 * 2 ^ 8 + v mod 256 = v"
proof -
  have 1: "v = v div 256 * 256 + v mod 256" by simp
  have 2: "v div 256 = v div 65536 * 256 + v div 256 mod 256"
    using div_mult_mod_eq [of "v div 256" 256] by (simp add: div_mult2_eq [symmetric])
  have 3: "v div 65536 = v div 16777216 * 256 + v div 65536 mod 256"
    using div_mult_mod_eq [of "v div 65536" 256] by (simp add: div_mult2_eq [symmetric])
  have "c * 2 ^ 24 + t * 2 ^ 16 + s * 2 ^ 8 + r = v" if "v = a * 256 + r" "a = b * 256 + s" "b = c * 256 + t"
    for v a b c r s t :: nat using that by simp
  from this [OF 1 2 3] show ?thesis by simp
qed

lemma read_written: "v < 2 ^ 32 \<Longrightarrow> read_uint32_be (write_uint32_be v @ rest) 0 = Some v"
proof -
  assume v: "v < 2 ^ 32"
  obtain b0 b1 b2 b3 where w: "write_uint32_be v = [b0, b1, b2, b3]" by (simp add: write_uint32_be_def Let_def)
  then have "unat b0 = v div 2 ^ 24" "unat b1 = v div 2 ^ 16 mod 256" "unat b2 = v div 2 ^ 8 mod 256" "unat b3 = v mod 256"
    using written_bytes [OF v] by auto
  then show ?thesis using four_digits [of v] by (simp add: w read_uint32_be_def uint32_size_def)
qed

lemma write_inj: "v < 2 ^ 32 \<Longrightarrow> u < 2 ^ 32 \<Longrightarrow> write_uint32_be v = write_uint32_be u \<Longrightarrow> v = u"
  using read_written [of v "[]"] read_written [of u "[]"] by simp

lemma length_prefixed_inj:
  assumes "list_all (\<lambda>p. length p < 2 ^ 32) ps" and "list_all (\<lambda>p. length p < 2 ^ 32) qs"
    and "length_prefixed_concat ps = length_prefixed_concat qs"
  shows "ps = qs"
  using assms
proof (induction ps arbitrary: qs)
  case Nil
  then show ?case by (cases qs) (auto dest: arg_cong [of _ _ length])
next
  case (Cons p ps)
  then obtain q qs' where qs: "qs = q # qs'" by (cases qs) (auto dest: arg_cong [of _ _ length])
  have "write_uint32_be (length p) = write_uint32_be (length q)"
    using Cons.prems(3) by (simp add: qs append_eq_append_conv)
  then have len: "length p = length q" using Cons.prems(1,2) write_inj by (auto simp: qs)
  with Cons show ?case by (auto simp: qs append_eq_append_conv)
qed

section \<open>Comparison\<close>

lemma or_zero: "(a :: 8 word) OR b = 0 \<longleftrightarrow> a = 0 \<and> b = 0"
  by (auto simp: bit_eq_iff bit_simps)

lemma xor_zero: "(a :: 8 word) XOR b = 0 \<longleftrightarrow> a = b"
  by (auto simp: bit_eq_iff bit_simps)

lemma diff_fold:
  "fold (\<lambda>(x, y) diff. diff OR (x XOR y)) xs (d :: 8 word) = 0 \<longleftrightarrow> d = 0 \<and> (\<forall>(x, y) \<in> set xs. x = y)"
  by (induction xs arbitrary: d) (auto simp: or_zero xor_zero)

lemma constant_time_equal_iff: "constant_time_equal a b \<longleftrightarrow> a = b"
  by (simp add: constant_time_equal_def diff_fold list_eq_iff_zip_eq)

end
