(* ===== verification/Sec_Utf8.thy ===== *)
theory Sec_Utf8
  imports Sec_Bytes
begin

text \<open>
  \<open>utf8Encode\<close> and \<open>utf8Decode\<close> of \<open>bytes.ts\<close>: the platform's \<open>TextEncoder\<close> and its \<open>TextDecoder\<close> in
  fatal mode with \<open>ignoreBOM\<close>, which is UTF-8 as the Encoding standard defines it. Encoding replaces
  an unpaired surrogate, decoding refuses every malformed sequence.
\<close>

definition is_high :: "nat \<Rightarrow> bool" where "is_high c \<longleftrightarrow> 0xD800 \<le> c \<and> c \<le> 0xDBFF"
definition is_low :: "nat \<Rightarrow> bool" where "is_low c \<longleftrightarrow> 0xDC00 \<le> c \<and> c \<le> 0xDFFF"

definition scalar_of_unit :: "nat \<Rightarrow> nat" where
  "scalar_of_unit c = (if is_high c \<or> is_low c then 0xFFFD else c)"

fun scalars :: "js_text \<Rightarrow> nat list" where
  "scalars [] = []"
| "scalars [c] = [scalar_of_unit c]"
| "scalars (c # d # r) =
     (if is_high c \<and> is_low d then (0x10000 + (c - 0xD800) * 0x400 + (d - 0xDC00)) # scalars r
      else scalar_of_unit c # scalars (d # r))"

definition byte :: "nat \<Rightarrow> 8 word" where
  "byte n = of_nat n"

definition utf8_scalar :: "nat \<Rightarrow> bytes" where
  "utf8_scalar p =
     map byte
       (if p < 0x80 then [p]
        else if p < 0x800 then [0xC0 + p div 64, 0x80 + p mod 64]
        else if p < 0x10000 then [0xE0 + p div 4096, 0x80 + p div 64 mod 64, 0x80 + p mod 64]
        else [0xF0 + p div 262144, 0x80 + p div 4096 mod 64, 0x80 + p div 64 mod 64, 0x80 + p mod 64])"

definition utf8_encode :: "js_text \<Rightarrow> bytes" where
  "utf8_encode s = concat (map utf8_scalar (scalars s))"

definition is_cont :: "8 word \<Rightarrow> bool" where
  "is_cont b \<longleftrightarrow> 0x80 \<le> unat b \<and> unat b \<le> 0xBF"

text \<open>One scalar off the front: no overlong form, no surrogate, nothing above U+10FFFF.\<close>

fun utf8_next :: "bytes \<Rightarrow> (nat \<times> bytes) option" where
  "utf8_next [] = None"
| "utf8_next (b0 # r) =
     (let x = unat b0 in
      if x < 0x80 then Some (x, r)
      else if 0xC2 \<le> x \<and> x \<le> 0xDF then
        (case r of
           b1 # r' \<Rightarrow> if is_cont b1 then Some ((x - 0xC0) * 64 + (unat b1 - 0x80), r') else None
         | _ \<Rightarrow> None)
      else if 0xE0 \<le> x \<and> x \<le> 0xEF then
        (case r of
           b1 # b2 # r' \<Rightarrow>
             let p = (x - 0xE0) * 4096 + (unat b1 - 0x80) * 64 + (unat b2 - 0x80)
             in if is_cont b1 \<and> is_cont b2 \<and> 0x800 \<le> p \<and> \<not> is_high p \<and> \<not> is_low p then Some (p, r') else None
         | _ \<Rightarrow> None)
      else if 0xF0 \<le> x \<and> x \<le> 0xF4 then
        (case r of
           b1 # b2 # b3 # r' \<Rightarrow>
             let p = (x - 0xF0) * 262144 + (unat b1 - 0x80) * 4096 + (unat b2 - 0x80) * 64 + (unat b3 - 0x80)
             in if is_cont b1 \<and> is_cont b2 \<and> is_cont b3 \<and> 0x10000 \<le> p \<and> p \<le> 0x10FFFF then Some (p, r') else None
         | _ \<Rightarrow> None)
      else None)"

definition scalar_units :: "nat \<Rightarrow> js_text" where
  "scalar_units p =
     (if p < 0x10000 then [p]
      else [0xD800 + (p - 0x10000) div 0x400, 0xDC00 + (p - 0x10000) mod 0x400])"

lemma utf8_next_shorter: "utf8_next bs = Some (p, r) \<Longrightarrow> length r < length bs"
  by (cases bs) (auto simp: Let_def split: if_splits list.splits)

function utf8_decode :: "bytes \<Rightarrow> js_text option" where
  "utf8_decode bs =
     (if bs = [] then Some []
      else case utf8_next bs of
             None \<Rightarrow> None
           | Some (p, r) \<Rightarrow> map_option (\<lambda>s. scalar_units p @ s) (utf8_decode r))"
  by pat_completeness auto
termination by (relation "measure length") (auto simp: utf8_next_shorter)

declare utf8_decode.simps [simp del]

section \<open>Round trip\<close>

definition is_scalar :: "nat \<Rightarrow> bool" where
  "is_scalar p \<longleftrightarrow> p \<le> 0x10FFFF \<and> \<not> is_high p \<and> \<not> is_low p"

lemma byte_back: "n < 256 \<Longrightarrow> unat (byte n) = n"
  by (simp add: byte_def unat_of_nat take_bit_eq_mod)

lemma next_three:
  assumes "unat b0 = 0xE0 + a" "a < 16" "unat b1 = 0x80 + b" "b < 64" "unat b2 = 0x80 + c" "c < 64"
    and "p = a * 4096 + b * 64 + c" "0x800 \<le> p" "\<not> is_high p" "\<not> is_low p"
  shows "utf8_next (b0 # b1 # b2 # r) = Some (p, r)"
  using assms by (simp add: is_cont_def)

lemma next_four:
  assumes "unat b0 = 0xF0 + a" "a \<le> 4" "unat b1 = 0x80 + b" "b < 64" "unat b2 = 0x80 + c" "c < 64"
    and "unat b3 = 0x80 + d" "d < 64"
    and "p = a * 262144 + b * 4096 + c * 64 + d" "0x10000 \<le> p" "p \<le> 0x10FFFF"
  shows "utf8_next (b0 # b1 # b2 # b3 # r) = Some (p, r)"
  using assms by (simp add: is_cont_def)

lemma base64_digits:
  "(p :: nat) div 4096 * 4096 + p div 64 mod 64 * 64 + p mod 64 = p"
  "(p :: nat) div 262144 * 262144 + p div 4096 mod 64 * 4096 + p div 64 mod 64 * 64 + p mod 64 = p"
proof -
  have 1: "p = p div 64 * 64 + p mod 64" by simp
  have 2: "p div 64 = p div 4096 * 64 + p div 64 mod 64"
    using div_mult_mod_eq [of "p div 64" 64] by (simp add: div_mult2_eq [symmetric])
  have 3: "p div 4096 = p div 262144 * 64 + p div 4096 mod 64"
    using div_mult_mod_eq [of "p div 4096" 64] by (simp add: div_mult2_eq [symmetric])
  have "b * 4096 + s * 64 + r = v" if "v = a * 64 + r" "a = b * 64 + s" for v a b r s :: nat using that by simp
  from this [OF 1 2] show "p div 4096 * 4096 + p div 64 mod 64 * 64 + p mod 64 = p" by simp
  have "c * 262144 + t * 4096 + s * 64 + r = v" if "v = a * 64 + r" "a = b * 64 + s" "b = c * 64 + t"
    for v a b c r s t :: nat using that by simp
  from this [OF 1 2 3] show "p div 262144 * 262144 + p div 4096 mod 64 * 4096 + p div 64 mod 64 * 64 + p mod 64 = p"
    by simp
qed

lemma next_scalar: "is_scalar p \<Longrightarrow> utf8_next (utf8_scalar p @ r) = Some (p, r)"
proof -
  assume p: "is_scalar p"
  consider (one) "p < 0x80" | (two) "0x80 \<le> p" "p < 0x800" | (three) "0x800 \<le> p" "p < 0x10000"
    | (four) "0x10000 \<le> p" "p \<le> 0x10FFFF" using p by (fastforce simp: is_scalar_def)
  then show ?thesis
  proof cases
    case one
    then show ?thesis by (simp add: utf8_scalar_def byte_back)
  next
    case two
    then have "p div 64 < 32" "2 \<le> p div 64" by auto
    then show ?thesis using two by (simp add: utf8_scalar_def byte_back is_cont_def)
  next
    case three
    have "p = p div 4096 * 4096 + p div 64 mod 64 * 64 + p mod 64" using base64_digits by simp
    moreover have "p div 4096 < 16" using three by auto
    ultimately have "utf8_next (byte (0xE0 + p div 4096) # byte (0x80 + p div 64 mod 64) # byte (0x80 + p mod 64) # r) = Some (p, r)"
      using three p by (intro next_three) (simp_all add: byte_back is_scalar_def)
    then show ?thesis using three by (simp add: utf8_scalar_def del: utf8_next.simps)
  next
    case four
    have "p = p div 262144 * 262144 + p div 4096 mod 64 * 4096 + p div 64 mod 64 * 64 + p mod 64"
      using base64_digits by simp
    moreover have "p div 262144 \<le> 4" using four by auto
    ultimately have "utf8_next (byte (0xF0 + p div 262144) # byte (0x80 + p div 4096 mod 64) #
        byte (0x80 + p div 64 mod 64) # byte (0x80 + p mod 64) # r) = Some (p, r)"
      using four by (intro next_four) (simp_all add: byte_back)
    then show ?thesis using four by (simp add: utf8_scalar_def del: utf8_next.simps)
  qed
qed

lemma utf8_scalar_nonempty: "utf8_scalar p \<noteq> []"
  by (simp add: utf8_scalar_def)

lemma decode_scalars: "list_all is_scalar ps \<Longrightarrow> utf8_decode (concat (map utf8_scalar ps)) = Some (concat (map scalar_units ps))"
proof (induction ps)
  case (Cons p ps)
  then show ?case
    by (subst utf8_decode.simps) (simp add: next_scalar utf8_scalar_nonempty)
qed (simp add: utf8_decode.simps)

text \<open>A string without unpaired surrogates.\<close>

fun well_formed :: "js_text \<Rightarrow> bool" where
  "well_formed [] = True"
| "well_formed [c] = (c < 0x10000 \<and> \<not> is_high c \<and> \<not> is_low c)"
| "well_formed (c # d # r) =
     (if is_high c then is_low d \<and> well_formed r else c < 0x10000 \<and> \<not> is_low c \<and> well_formed (d # r))"

lemma pair_scalar:
  assumes "is_high c" and "is_low d"
  defines "p \<equiv> 0x10000 + (c - 0xD800) * 0x400 + (d - 0xDC00)"
  shows "is_scalar p" and "scalar_units p = [c, d]"
proof -
  obtain a b where "c = 0xD800 + a" "a < 0x400" "d = 0xDC00 + b" "b < 0x400"
    using assms(1,2) by (auto simp: is_high_def is_low_def le_iff_add)
  then show "is_scalar p" "scalar_units p = [c, d]"
    by (auto simp: p_def is_scalar_def scalar_units_def is_high_def is_low_def)
qed

lemma scalars_well_formed: "well_formed s \<Longrightarrow> list_all is_scalar (scalars s) \<and> concat (map scalar_units (scalars s)) = s"
proof (induction s rule: scalars.induct)
  case (3 c d r)
  then show ?case using pair_scalar [of c d]
    by (auto simp: scalar_of_unit_def is_scalar_def [of c] scalar_units_def [of c] split: if_splits)
qed (auto simp: scalar_of_unit_def is_scalar_def scalar_units_def)

lemma utf8_round_trip: "well_formed s \<Longrightarrow> utf8_decode (utf8_encode s) = Some s"
  using scalars_well_formed decode_scalars by (simp add: utf8_encode_def)

lemma utf8_encode_inj: "well_formed s \<Longrightarrow> well_formed t \<Longrightarrow> utf8_encode s = utf8_encode t \<Longrightarrow> s = t"
  using utf8_round_trip by (metis option.inject)

section \<open>ASCII\<close>

lemma scalars_ascii: "list_all (\<lambda>c. c < 128) s \<Longrightarrow> scalars s = s"
  by (induction s rule: scalars.induct) (auto simp: scalar_of_unit_def is_high_def is_low_def)

lemma utf8_ascii: "list_all (\<lambda>c. c < 128) s \<Longrightarrow> utf8_encode s = map byte s"
proof -
  assume a: "list_all (\<lambda>c. c < 128) s"
  then have "concat (map utf8_scalar s) = map byte s" by (induction s) (auto simp: utf8_scalar_def)
  then show ?thesis by (simp add: utf8_encode_def scalars_ascii [OF a])
qed

lemma ascii_well_formed: "list_all (\<lambda>c. c < 128) s \<Longrightarrow> well_formed s"
  by (induction s rule: well_formed.induct) (auto simp: is_high_def is_low_def)

end
