(* ===== verification/Css_Color.thy ===== *)
theory Css_Color
  imports Prelude Js_Text
begin

text \<open>
  CSS colours as \<open>lib/src/lib/css-color.ts\<close> parses and prints them. A number is \<open>None\<close> for
  \<open>NaN\<close>, which \<open>parseFloat\<close> returns for a text such as \<open>.\<close> that the pattern of \<open>rgb()\<close> admits.
\<close>

section \<open>Numbers\<close>

type_synonym js_float = "js_num option"

record rgba =
  rgba_r :: js_float
  rgba_g :: js_float
  rgba_b :: js_float
  rgba_a :: js_float

definition is_hex_digit :: "nat \<Rightarrow> bool" where
  "is_hex_digit c \<longleftrightarrow> is_digit c \<or> 97 \<le> c \<and> c \<le> 102 \<or> 65 \<le> c \<and> c \<le> 70"

definition hex_digit_value :: "nat \<Rightarrow> nat" where
  "hex_digit_value c = (if is_digit c then c - 48 else if 97 \<le> c then c - 87 else c - 55)"

text \<open>\<open>parseInt(s, 16)\<close> of a text of hexadecimal digits.\<close>

definition hex_number :: "js_text \<Rightarrow> nat" where
  "hex_number s = fold (\<lambda>c v. v * 16 + hex_digit_value c) s 0"

text \<open>\<open>parseFloat\<close> of a text of digits and dots: the longest decimal number it starts with.\<close>

definition parse_float :: "js_text \<Rightarrow> js_float" where
  "parse_float s =
     (let whole = takeWhile is_digit s;
          rest = dropWhile is_digit s;
          frac = (if rest \<noteq> [] \<and> hd rest = 46 then takeWhile is_digit (tl rest) else [])
      in if whole = [] \<and> frac = [] then None
         else Some (of_nat (digits_value (whole @ frac)) / 10 ^ length frac))"

section \<open>Parsing\<close>

definition byte_number :: "js_text \<Rightarrow> js_float" where
  "byte_number s = Some (of_nat (hex_number s))"

definition hex_color :: "js_text \<Rightarrow> rgba option" where
  "hex_color v =
     (if v = [] \<or> hd v \<noteq> 35 \<or> \<not> list_all is_hex_digit (tl v) then None
      else let h = tl v; dup = (\<lambda>i. byte_number [h ! i, h ! i]); pair = (\<lambda>i. byte_number [h ! i, h ! (i + 1)])
           in if length h = 3 then Some \<lparr>rgba_r = dup 0, rgba_g = dup 1, rgba_b = dup 2, rgba_a = Some 1\<rparr>
              else if length h = 4
              then Some \<lparr>rgba_r = dup 0, rgba_g = dup 1, rgba_b = dup 2, rgba_a = map_option (\<lambda>x. x / 255) (dup 3)\<rparr>
              else if length h = 6 then Some \<lparr>rgba_r = pair 0, rgba_g = pair 2, rgba_b = pair 4, rgba_a = Some 1\<rparr>
              else if length h = 8
              then Some \<lparr>rgba_r = pair 0, rgba_g = pair 2, rgba_b = pair 4, rgba_a = map_option (\<lambda>x. x / 255) (pair 6)\<rparr>
              else None)"

definition is_float_unit :: "nat \<Rightarrow> bool" where
  "is_float_unit c \<longleftrightarrow> is_digit c \<or> c = 46"

text \<open>A number of the pattern \<open>([0-9.]+)\<close> and what follows it.\<close>

definition take_float :: "js_text \<Rightarrow> (js_text \<times> js_text) option" where
  "take_float s =
     (let n = takeWhile is_float_unit s in if n = [] then None else Some (n, drop (length n) s))"

definition skip_ws :: "js_text \<Rightarrow> js_text" where
  "skip_ws s = dropWhile is_ws s"

text \<open>\<open>\s*[, ]\s*\<close>: white space with one comma in it, or with a plain space in it.\<close>

definition skip_separator :: "js_text \<Rightarrow> js_text option" where
  "skip_separator s =
     (let rest = skip_ws s
      in if rest \<noteq> [] \<and> hd rest = 44 then Some (skip_ws (tl rest))
         else if 32 \<in> set (takeWhile is_ws s) then Some rest else None)"

text \<open>\<open>(?:\s*[,/]\s*([0-9.]+%?))?\s*\)$\<close>: the alpha, one if it is left out.\<close>

definition rgb_end :: "js_text \<Rightarrow> js_float option" where
  "rgb_end s =
     (let rest = skip_ws s
      in if rest = [41] then Some (Some 1)
         else if rest \<noteq> [] \<and> (hd rest = 44 \<or> hd rest = 47) then
           (case take_float (skip_ws (tl rest)) of
              None \<Rightarrow> None
            | Some (n, more') \<Rightarrow>
                let percent = more' \<noteq> [] \<and> hd more' = 37; after = (if percent then tl more' else more')
                in if skip_ws after = [41]
                   then Some (if percent then map_option (\<lambda>x. x / 100) (parse_float n) else parse_float n)
                   else None)
         else None)"

definition rgb_open :: "js_text \<Rightarrow> js_text option" where
  "rgb_open v =
     (if map fold_case (take 5 v) = js ''rgba('' then Some (drop 5 v)
      else if map fold_case (take 4 v) = js ''rgb('' then Some (drop 4 v) else None)"

definition rgb_color :: "js_text \<Rightarrow> rgba option" where
  "rgb_color v =
     Option.bind (rgb_open v) (\<lambda>s0.
     Option.bind (take_float (skip_ws s0)) (\<lambda>(r, s1).
     Option.bind (skip_separator s1) (\<lambda>s2.
     Option.bind (take_float s2) (\<lambda>(g, s3).
     Option.bind (skip_separator s3) (\<lambda>s4.
     Option.bind (take_float s4) (\<lambda>(b, s5).
     Option.bind (rgb_end s5) (\<lambda>a.
       Some \<lparr>rgba_r = parse_float r, rgba_g = parse_float g, rgba_b = parse_float b, rgba_a = a\<rparr>)))))))"

definition parse_color :: "js_text \<Rightarrow> rgba option" where
  "parse_color value =
     (let v = js_trim value in case hex_color v of Some c \<Rightarrow> Some c | None \<Rightarrow> rgb_color v)"

section \<open>Printing\<close>

definition channel_digit :: "nat \<Rightarrow> nat" where
  "channel_digit n = (if n < 10 then 48 + n else 87 + n)"

text \<open>The two digits of a channel: rounded, clamped to a byte, \<open>toString(16).padStart(2, '0')\<close>;
  \<open>NaN\<close> survives rounding and clamping and prints as its name.\<close>

definition hex_channel :: "js_float \<Rightarrow> js_text" where
  "hex_channel v =
     (case v of
        None \<Rightarrow> js ''NaN''
      | Some x \<Rightarrow> let n = nat (max 0 (min 255 (js_round x))) in [channel_digit (n div 16), channel_digit (n mod 16)])"

definition to_hex :: "rgba \<Rightarrow> js_text" where
  "to_hex c = 35 # hex_channel (rgba_r c) @ hex_channel (rgba_g c) @ hex_channel (rgba_b c)"

definition parse_color_rgb :: "js_text \<Rightarrow> (js_float \<times> js_float \<times> js_float) option" where
  "parse_color_rgb value = map_option (\<lambda>c. (rgba_r c, rgba_g c, rgba_b c)) (parse_color value)"

section \<open>Facts\<close>

lemma channel_digit_plain: "n < 16 \<Longrightarrow> 48 \<le> channel_digit n \<and> channel_digit n \<le> 122"
  by (simp add: channel_digit_def)

lemma hex_channel_plain: "list_all (\<lambda>c. 48 \<le> c \<and> c \<le> 122) (hex_channel v)"
proof (cases v)
  case None
  then show ?thesis by (simp add: hex_channel_def js_def)
next
  case (Some x)
  define n where "n = nat (max 0 (min 255 (js_round x)))"
  have "n \<le> 255" unfolding n_def by linarith
  then have "n div 16 < 16" "n mod 16 < 16" by simp_all
  then show ?thesis using Some channel_digit_plain by (simp add: hex_channel_def Let_def n_def [symmetric])
qed

end
