(* ===== verification/Term_Values.thy ===== *)
theory Term_Values
  imports Prelude Js_Text Sec_Utf8 Term_Cwd_Facts Css_Color
begin

text \<open>
  The values \<open>lib/src/lib/terminal-protocol.ts\<close> reads out of terminal output: sanitized and
  truncated texts, \<open>Number\<close>, base64 with a replacing UTF-8 decoder, and the escaped command lines
  of OSC 633.
\<close>

section \<open>Texts\<close>

definition truncate_text :: "js_text \<Rightarrow> nat \<Rightarrow> js_text" where
  "truncate_text input limit =
     (if length input \<le> limit then input else concat (take limit (code_points input)))"

text \<open>\<open>replace(/[...]+/g, r)\<close>: every maximal run of a class becomes one unit.\<close>

fun replace_runs :: "(nat \<Rightarrow> bool) \<Rightarrow> nat \<Rightarrow> js_text \<Rightarrow> js_text" where
  "replace_runs P r [] = []"
| "replace_runs P r (c # cs) =
     (if P c then (if cs \<noteq> [] \<and> P (hd cs) then replace_runs P r cs else r # replace_runs P r cs)
      else c # replace_runs P r cs)"

definition sanitize_text :: "js_text \<Rightarrow> nat \<Rightarrow> js_text option" where
  "sanitize_text input limit =
     (let collapsed = js_trim (replace_runs is_ws 32 (replace_runs is_control 32 input))
      in if collapsed = [] then None else Some (truncate_text collapsed limit))"

definition append_limited :: "js_text \<Rightarrow> js_text \<Rightarrow> nat \<Rightarrow> js_text" where
  "append_limited existing next limit = truncate_text (existing @ next) limit"

text \<open>\<open>decodeOsc633Value\<close>: a doubled backslash is one, and \<open>\x\<close> with two hexadecimal digits is the
  unit with that code.\<close>

fun decode_osc633_value :: "js_text \<Rightarrow> js_text" where
  "decode_osc633_value (a # b # r) =
     (if a = 92 \<and> b = 92 then 92 # decode_osc633_value r
      else if a = 92 \<and> b = 120 \<and> length r \<ge> 2 \<and> list_all is_hex_digit (take 2 r)
      then hex_number (take 2 r) # decode_osc633_value (drop 2 r)
      else a # decode_osc633_value (b # r))"
| "decode_osc633_value s = s"

section \<open>Numbers\<close>

text \<open>
  \<open>Number(s)\<close>, for callers that treat \<open>NaN\<close> and the infinities alike: \<open>None\<close> stands for all of
  them. A decimal whose magnitude reaches \<open>2^1024 - 2^970\<close> rounds to an infinity.
\<close>

definition radix_number :: "nat \<Rightarrow> (nat \<Rightarrow> bool) \<Rightarrow> js_text \<Rightarrow> js_num option" where
  "radix_number radix ok s =
     (if s = [] \<or> \<not> list_all ok s then None
      else Some (of_nat (fold (\<lambda>c v. v * radix + hex_digit_value c) s 0)))"

definition exponent_value :: "js_text \<Rightarrow> int option" where
  "exponent_value s =
     (if s = [] then Some 0
      else if hd s \<noteq> 101 \<and> hd s \<noteq> 69 then None
      else let signed = tl s \<noteq> [] \<and> (hd (tl s) = 43 \<or> hd (tl s) = 45);
               digits = (if signed then tl (tl s) else tl s)
           in if digits = [] \<or> \<not> list_all is_digit digits then None
              else Some (if signed \<and> hd (tl s) = 45 then - int (digits_value digits) else int (digits_value digits)))"

definition unsigned_decimal :: "js_text \<Rightarrow> js_num option" where
  "unsigned_decimal s =
     (let whole = takeWhile is_digit s;
          rest = dropWhile is_digit s;
          dot = rest \<noteq> [] \<and> hd rest = 46;
          frac = (if dot then takeWhile is_digit (tl rest) else []);
          tail = (if dot then dropWhile is_digit (tl rest) else rest)
      in if whole = [] \<and> frac = [] then None
         else case exponent_value tail of
                None \<Rightarrow> None
              | Some e \<Rightarrow>
                  let m = of_nat (digits_value (whole @ frac)) / 10 ^ length frac
                  in Some (if e < 0 then m / 10 ^ nat (- e) else m * 10 ^ nat e))"

definition signed_decimal :: "js_text \<Rightarrow> js_num option" where
  "signed_decimal s =
     (if s \<noteq> [] \<and> hd s = 45 then map_option uminus (unsigned_decimal (tl s))
      else if s \<noteq> [] \<and> hd s = 43 then unsigned_decimal (tl s)
      else unsigned_decimal s)"

definition finite_number :: "js_num \<Rightarrow> bool" where
  "finite_number v \<longleftrightarrow> \<bar>v\<bar> < 2 ^ 1024 - 2 ^ 970"

definition js_number :: "js_text \<Rightarrow> js_num option" where
  "js_number input =
     (let s = js_trim input;
          prefix = map fold_case (take 2 s);
          v = (if s = [] then Some 0
               else if prefix = js ''0x'' then radix_number 16 is_hex_digit (drop 2 s)
               else if prefix = js ''0o'' then radix_number 8 (\<lambda>c. 48 \<le> c \<and> c \<le> 55) (drop 2 s)
               else if prefix = js ''0b'' then radix_number 2 (\<lambda>c. c = 48 \<or> c = 49) (drop 2 s)
               else signed_decimal s)
      in case v of Some n \<Rightarrow> if finite_number n then Some n else None | None \<Rightarrow> None)"

definition parse_exit_code :: "js_text option \<Rightarrow> int option" where
  "parse_exit_code raw =
     (case raw of
        None \<Rightarrow> None
      | Some s \<Rightarrow>
          if s = [] then None
          else case js_number s of
                 None \<Rightarrow> None
               | Some v \<Rightarrow> if v = of_int \<lfloor>v\<rfloor> then Some \<lfloor>v\<rfloor> else None)"

definition parse_percent :: "js_text option \<Rightarrow> js_num option" where
  "parse_percent raw =
     (case raw of
        None \<Rightarrow> None
      | Some s \<Rightarrow>
          if s = [] then None
          else case js_number s of
                 None \<Rightarrow> None
               | Some v \<Rightarrow> if v < 0 \<or> v > 100 then None else Some v)"

section \<open>Base64\<close>

definition is_b64_unit :: "nat \<Rightarrow> bool" where
  "is_b64_unit c \<longleftrightarrow> is_letter c \<or> is_digit c \<or> c = 43 \<or> c = 47"

definition b64_value :: "nat \<Rightarrow> nat" where
  "b64_value c =
     (if is_upper_ascii c then c - 65 else if is_lower_ascii c then c - 71
      else if is_digit c then c + 4 else if c = 43 then 62 else 63)"

fun b64_bytes :: "nat list \<Rightarrow> bytes" where
  "b64_bytes (a # b # c # d # r) =
     [byte (a * 4 + b div 16), byte (b mod 16 * 16 + c div 4), byte (c mod 4 * 64 + d)] @ b64_bytes r"
| "b64_bytes [a, b, c] = [byte (a * 4 + b div 16), byte (b mod 16 * 16 + c div 4)]"
| "b64_bytes [a, b] = [byte (a * 4 + b div 16)]"
| "b64_bytes s = []"

text \<open>\<open>atob\<close>: padding is only dropped from a text whose length is a multiple of four, and what
  remains must be alphabet units, not one more than a multiple of four of them.\<close>

definition drop_pad :: "js_text \<Rightarrow> js_text" where
  "drop_pad s = (if s \<noteq> [] \<and> last s = 61 then butlast s else s)"

definition js_atob :: "js_text \<Rightarrow> bytes option" where
  "js_atob s =
     (let t = (if length s mod 4 = 0 then drop_pad (drop_pad s) else s)
      in if length t mod 4 = 1 \<or> \<not> list_all is_b64_unit t then None else Some (b64_bytes (map b64_value t)))"

text \<open>\<open>new TextDecoder().decode\<close>: each maximal ill-formed prefix of a sequence becomes U+FFFD, and
  a byte order mark at the start is dropped.\<close>

definition second_byte_ok :: "nat \<Rightarrow> 8 word \<Rightarrow> bool" where
  "second_byte_ok lead b \<longleftrightarrow>
     (if lead = 0xE0 then 0xA0 else if lead = 0xF0 then 0x90 else 0x80) \<le> unat b \<and>
     unat b \<le> (if lead = 0xED then 0x9F else if lead = 0xF4 then 0x8F else 0xBF)"

fun ill_formed_length :: "bytes \<Rightarrow> nat" where
  "ill_formed_length (b0 # b1 # r) =
     (if unat b0 < 0xC2 \<or> unat b0 > 0xF4 \<or> \<not> second_byte_ok (unat b0) b1 then 1
      else if unat b0 \<ge> 0xF0 \<and> r \<noteq> [] \<and> is_cont (hd r) then 3 else 2)"
| "ill_formed_length s = 1"

function decode_replacing :: "bytes \<Rightarrow> js_text" where
  "decode_replacing bs =
     (if bs = [] then []
      else case utf8_next bs of
             Some (p, r) \<Rightarrow> scalar_units p @ decode_replacing r
           | None \<Rightarrow> 0xFFFD # decode_replacing (drop (max 1 (ill_formed_length bs)) bs))"
  by pat_completeness auto
termination
  by (relation "measure length") (auto simp: utf8_next_shorter)

declare decode_replacing.simps [simp del]

definition text_decoder_decode :: "bytes \<Rightarrow> js_text" where
  "text_decoder_decode bs =
     decode_replacing (if take 3 bs = [0xEF, 0xBB, 0xBF] then drop 3 bs else bs)"

definition decode_base64 :: "js_text \<Rightarrow> js_text option" where
  "decode_base64 input =
     (let normalized = js_trim input;
          body = takeWhile is_b64_unit normalized;
          padding = dropWhile is_b64_unit normalized
      in if padding \<noteq> replicate (length padding) 61 \<or> length padding > 2 \<or> length normalized mod 4 = 1 then None
         else map_option text_decoder_decode (js_atob normalized))"

section \<open>Facts\<close>

lemma truncate_set: "set (truncate_text s n) \<subseteq> set s"
  using set_take_code_points [of n s] by (auto simp: truncate_text_def)

lemma truncate_length: "length (code_points (truncate_text s n)) \<le> n"
  using length_code_points [of s] by (auto simp: truncate_text_def code_points_take)

lemma code_point_short: "list_all (\<lambda>p. length p \<le> 2) (code_points s)"
  by (induction s rule: code_points.induct) auto

lemma truncate_units: "length (truncate_text s n) \<le> 2 * n"
proof -
  have sum: "list_all (\<lambda>p. length p \<le> 2) ps \<Longrightarrow> length (concat ps) \<le> 2 * length ps" for ps :: "js_text list"
    by (induction ps) auto
  have "list_all (\<lambda>p. length p \<le> 2) (take n (code_points s))"
    using code_point_short [of s] by (auto simp: list_all_iff dest: in_set_takeD)
  then have "length (concat (take n (code_points s))) \<le> 2 * n" using sum by fastforce
  then show ?thesis by (auto simp: truncate_text_def)
qed

lemma truncate_Nil: "0 < n \<Longrightarrow> truncate_text s n = [] \<longleftrightarrow> s = []"
proof -
  assume "0 < n"
  moreover have "concat (take n (code_points s)) \<noteq> []" if "s \<noteq> []"
    using that \<open>0 < n\<close> by (cases s rule: code_points.cases; cases n) auto
  ultimately show ?thesis by (auto simp: truncate_text_def)
qed

lemma replace_runs_set: "set (replace_runs P r s) \<subseteq> insert r (set s - {c. P c})"
  by (induction s) auto

text \<open>A sanitized text is not empty, has no control character and counts at most the limit.\<close>

definition clean_text :: "nat \<Rightarrow> js_text \<Rightarrow> bool" where
  "clean_text limit s \<longleftrightarrow> s \<noteq> [] \<and> list_all (\<lambda>c. \<not> is_control c) s \<and> length (code_points s) \<le> limit"

lemma set_js_trim: "set (js_trim s) \<subseteq> set s"
proof -
  have "set (trim_end t) \<subseteq> set t" for t
    unfolding trim_end_def by (metis set_dropWhileD set_rev subsetI)
  moreover have "set (trim_start s) \<subseteq> set s" unfolding trim_start_def by (meson set_dropWhileD subsetI)
  ultimately show ?thesis unfolding js_trim_def by blast
qed

lemma sanitize_clean:
  assumes "sanitize_text s n = Some t" and "0 < n"
  shows "clean_text n t"
proof -
  define k where "k = js_trim (replace_runs is_ws 32 (replace_runs is_control 32 s))"
  have t: "t = truncate_text k n" and ne: "k \<noteq> []"
    using assms(1) by (auto simp: sanitize_text_def Let_def k_def split: if_splits)
  have "set t \<subseteq> set (replace_runs is_ws 32 (replace_runs is_control 32 s))"
    using truncate_set set_js_trim unfolding t k_def by blast
  then have "set t \<subseteq> insert 32 (insert 32 (set s - {c. is_control c}))"
    using replace_runs_set [of is_ws 32 "replace_runs is_control 32 s"] replace_runs_set [of is_control 32 s] by blast
  moreover have "\<not> is_control 32" by (simp add: is_control_def)
  ultimately have "list_all (\<lambda>c. \<not> is_control c) t" by (auto simp: list_all_iff)
  then show ?thesis using ne truncate_length [of k n] truncate_Nil [OF assms(2)] by (simp add: clean_text_def t)
qed

end
