(* ===== verification/Alert_Detector.thy ===== *)
theory Alert_Detector
  imports Prelude
begin

text \<open>
  The output and silence detector of a Session, \<open>lib/src/lib/quiesce-detector.ts\<close>. A pending
  \<open>setTimeout\<close> is the time it is due; the clock is an argument of the operations that read it.
  An operation changes the status at most once and announces the change through \<open>onChange\<close>, so
  its effect on the owner is that the status differs afterwards; the settle, which calls the owner
  between two steps, is split in \<open>det_settle_begin\<close> and \<open>det_settle_end\<close>.
\<close>

section \<open>Definitions\<close>

datatype quiesce_status = NothingToShow | MightBeBusy | Busy | MightNeedAttention

definition t_busy_candidate_gap :: int where "t_busy_candidate_gap = 1500"
definition t_busy_confirm_gap :: int where "t_busy_confirm_gap = 500"
definition t_might_need_attention :: int where "t_might_need_attention = 2000"
definition t_settled_confirm :: int where "t_settled_confirm = 3000"
definition t_resize_debounce :: int where "t_resize_debounce = 500"

definition quiesce_after_output_ms :: int where
  "quiesce_after_output_ms = t_might_need_attention + t_settled_confirm"

lemmas detector_times = t_busy_candidate_gap_def t_busy_confirm_gap_def t_might_need_attention_def
  t_settled_confirm_def t_resize_debounce_def quiesce_after_output_ms_def

record detector =
  det_status :: quiesce_status
  resize_grace :: bool
  busy_candidate_timer :: "int option"
  busy_confirm_timer :: "int option"
  might_need_timer :: "int option"
  settled_timer :: "int option"
  resize_timer :: "int option"
  det_disposed :: bool
  first_output_at :: "int option"
  last_output_at :: "int option"
  last_accepted_at :: "int option"
  output_count :: nat

definition new_detector :: detector where
  "new_detector =
     \<lparr>det_status = NothingToShow, resize_grace = False, busy_candidate_timer = None,
      busy_confirm_timer = None, might_need_timer = None, settled_timer = None,
      resize_timer = None, det_disposed = False, first_output_at = None, last_output_at = None,
      last_accepted_at = None, output_count = 0\<rparr>"

definition is_confirmed_busy :: "detector \<Rightarrow> bool" where
  "is_confirmed_busy d \<longleftrightarrow> det_status d = Busy \<or> det_status d = MightNeedAttention"

definition quiet_at :: "int \<Rightarrow> detector \<Rightarrow> int" where
  "quiet_at now d = (case last_accepted_at d of Some t \<Rightarrow> t | None \<Rightarrow> now) + quiesce_after_output_ms"

definition clear_activity_timers :: "detector \<Rightarrow> detector" where
  "clear_activity_timers d =
     d\<lparr>busy_candidate_timer := None, busy_confirm_timer := None, might_need_timer := None,
       settled_timer := None\<rparr>"

definition reset_output_tracking :: "detector \<Rightarrow> detector" where
  "reset_output_tracking d = d\<lparr>first_output_at := None, last_output_at := None, output_count := 0\<rparr>"

definition det_set_status :: "quiesce_status \<Rightarrow> detector \<Rightarrow> detector" where
  "det_set_status s d = d\<lparr>det_status := s\<rparr>"

definition start_busy_candidate_timer :: "int \<Rightarrow> detector \<Rightarrow> detector" where
  "start_busy_candidate_timer now d =
     (if busy_candidate_timer d \<noteq> None then d
      else d\<lparr>busy_candidate_timer := Some (now + t_busy_candidate_gap)\<rparr>)"

definition start_might_need_timer :: "int \<Rightarrow> detector \<Rightarrow> detector" where
  "start_might_need_timer now d = d\<lparr>might_need_timer := Some (now + t_might_need_attention)\<rparr>"

definition seed_from_latest_output :: "int \<Rightarrow> detector \<Rightarrow> detector" where
  "seed_from_latest_output now d =
     (case last_output_at d of
        None \<Rightarrow> reset_output_tracking d
      | Some t \<Rightarrow> start_busy_candidate_timer now (d\<lparr>first_output_at := Some t, output_count := 1\<rparr>))"

definition enter_might_be_busy :: "int \<Rightarrow> detector \<Rightarrow> detector" where
  "enter_might_be_busy now d =
     (det_set_status MightBeBusy (clear_activity_timers d))\<lparr>busy_confirm_timer := Some (now + t_busy_confirm_gap)\<rparr>"

definition enter_busy :: "int \<Rightarrow> detector \<Rightarrow> detector" where
  "enter_busy now d =
     start_might_need_timer now (det_set_status Busy (reset_output_tracking (clear_activity_timers d)))"

definition handle_nothing_to_show_output :: "int \<Rightarrow> detector \<Rightarrow> detector" where
  "handle_nothing_to_show_output now d =
     (case first_output_at d of
        None \<Rightarrow> start_busy_candidate_timer now (d\<lparr>first_output_at := Some now, output_count := 1\<rparr>)
      | Some f \<Rightarrow>
          (let d' = d\<lparr>output_count := output_count d + 1\<rparr>
           in if now - f \<ge> t_busy_candidate_gap then enter_might_be_busy now d' else d'))"

definition det_reset :: "detector \<Rightarrow> detector" where
  "det_reset d =
     (if det_disposed d then d
      else det_set_status NothingToShow (reset_output_tracking (clear_activity_timers d)))"

definition det_on_data :: "int \<Rightarrow> detector \<Rightarrow> detector" where
  "det_on_data now d =
     (if det_disposed d \<or> resize_grace d then d
      else
        (let d' = d\<lparr>last_output_at := Some now, last_accepted_at := Some now\<rparr>
         in case det_status d of
              NothingToShow \<Rightarrow> handle_nothing_to_show_output now d'
            | MightBeBusy \<Rightarrow> enter_busy now d'
            | Busy \<Rightarrow> start_might_need_timer now d'
            | MightNeedAttention \<Rightarrow> enter_busy now d'))"

definition det_on_resize :: "int \<Rightarrow> detector \<Rightarrow> detector" where
  "det_on_resize now d =
     (if det_disposed d then d
      else d\<lparr>resize_grace := True, resize_timer := Some (now + t_resize_debounce)\<rparr>)"

definition det_dispose :: "detector \<Rightarrow> detector" where
  "det_dispose d = (clear_activity_timers (d\<lparr>det_disposed := True\<rparr>))\<lparr>resize_timer := None\<rparr>"

text \<open>The timer callbacks other than the settle.\<close>

definition fire_busy_candidate :: "int \<Rightarrow> detector \<Rightarrow> detector" where
  "fire_busy_candidate now d =
     (let d' = d\<lparr>busy_candidate_timer := None\<rparr>
      in if det_status d \<noteq> NothingToShow then d'
         else if output_count d \<ge> 2 then enter_might_be_busy now d' else d')"

definition fire_busy_confirm :: "int \<Rightarrow> detector \<Rightarrow> detector" where
  "fire_busy_confirm now d =
     (let d' = d\<lparr>busy_confirm_timer := None\<rparr>
      in if det_status d \<noteq> MightBeBusy then d'
         else det_set_status NothingToShow (seed_from_latest_output now d'))"

definition fire_might_need :: "int \<Rightarrow> detector \<Rightarrow> detector" where
  "fire_might_need now d =
     (let d' = d\<lparr>might_need_timer := None\<rparr>
      in if det_status d \<noteq> Busy then d'
         else (det_set_status MightNeedAttention d')\<lparr>settled_timer := Some (now + t_settled_confirm)\<rparr>)"

definition fire_resize :: "detector \<Rightarrow> detector" where
  "fire_resize d = d\<lparr>resize_grace := False, resize_timer := None\<rparr>"

text \<open>The settle up to the call of \<open>onSettled\<close>, whether that call is made, and what follows it.\<close>

definition det_settle_begin :: "detector \<Rightarrow> detector" where
  "det_settle_begin d =
     (let d' = d\<lparr>settled_timer := None\<rparr>
      in if det_status d \<noteq> MightNeedAttention then d' else reset_output_tracking d')"

definition det_settles :: "detector \<Rightarrow> bool" where
  "det_settles d \<longleftrightarrow> det_status d = MightNeedAttention"

definition det_settle_end :: "detector \<Rightarrow> detector" where
  "det_settle_end d = det_set_status NothingToShow d"

datatype detector_timer = BusyCandidateTimer | BusyConfirmTimer | MightNeedTimer | SettledTimer | ResizeTimer

fun timer_of :: "detector_timer \<Rightarrow> detector \<Rightarrow> int option" where
  "timer_of BusyCandidateTimer d = busy_candidate_timer d"
| "timer_of BusyConfirmTimer d = busy_confirm_timer d"
| "timer_of MightNeedTimer d = might_need_timer d"
| "timer_of SettledTimer d = settled_timer d"
| "timer_of ResizeTimer d = resize_timer d"

text \<open>A timer that is due, for a detector whose owner does not touch it in \<open>onSettled\<close>.\<close>

definition det_fire :: "detector_timer \<Rightarrow> int \<Rightarrow> detector \<Rightarrow> detector" where
  "det_fire k now d =
     (case timer_of k d of
        None \<Rightarrow> d
      | Some due \<Rightarrow>
          if now < due then d
          else case k of
                 BusyCandidateTimer \<Rightarrow> fire_busy_candidate now d
               | BusyConfirmTimer \<Rightarrow> fire_busy_confirm now d
               | MightNeedTimer \<Rightarrow> fire_might_need now d
               | SettledTimer \<Rightarrow>
                   if det_settles d then det_settle_end (det_settle_begin d) else det_settle_begin d
               | ResizeTimer \<Rightarrow> fire_resize d)"

section \<open>The invariant\<close>

text \<open>
  Which timers can be pending in which status, and how the pending silence timers bound the time
  since the last accepted output. A disposed detector has no timer at all.
\<close>

definition det_inv :: "detector \<Rightarrow> bool" where
  "det_inv d \<longleftrightarrow>
     (if det_disposed d
      then busy_candidate_timer d = None \<and> busy_confirm_timer d = None \<and> might_need_timer d = None \<and>
           settled_timer d = None \<and> resize_timer d = None
      else
        (busy_candidate_timer d \<noteq> None \<longrightarrow> det_status d = NothingToShow) \<and>
        (busy_confirm_timer d \<noteq> None \<longleftrightarrow> det_status d = MightBeBusy) \<and>
        (might_need_timer d \<noteq> None \<longleftrightarrow> det_status d = Busy) \<and>
        (settled_timer d \<noteq> None \<longleftrightarrow> det_status d = MightNeedAttention) \<and>
        (resize_grace d \<longleftrightarrow> resize_timer d \<noteq> None) \<and>
        (\<forall>due. might_need_timer d = Some due \<longrightarrow>
           (\<exists>t. last_accepted_at d = Some t \<and> t + t_might_need_attention \<le> due)) \<and>
        (\<forall>due. settled_timer d = Some due \<longrightarrow>
           (\<exists>t. last_accepted_at d = Some t \<and> t + quiesce_after_output_ms \<le> due)) \<and>
        (first_output_at d = None \<longrightarrow> output_count d = 0))"

lemmas detector_defs = det_set_status_def clear_activity_timers_def reset_output_tracking_def
  start_busy_candidate_timer_def start_might_need_timer_def seed_from_latest_output_def
  enter_might_be_busy_def enter_busy_def handle_nothing_to_show_output_def

lemma new_detector_inv: "det_inv new_detector"
  by (simp add: new_detector_def det_inv_def)

lemma det_reset_inv: "det_inv d \<Longrightarrow> det_inv (det_reset d)"
  by (auto simp: det_reset_def detector_defs det_inv_def)

lemma det_on_data_inv: "det_inv d \<Longrightarrow> det_inv (det_on_data now d)"
  by (cases "det_status d")
     (auto simp: det_on_data_def detector_defs det_inv_def Let_def split: option.splits)

lemma det_on_resize_inv: "det_inv d \<Longrightarrow> det_inv (det_on_resize now d)"
  by (auto simp: det_on_resize_def det_inv_def)

lemma det_dispose_inv: "det_inv (det_dispose d)"
  by (auto simp: det_dispose_def detector_defs det_inv_def)

lemma fire_busy_candidate_inv: "det_inv d \<Longrightarrow> busy_candidate_timer d \<noteq> None \<Longrightarrow> det_inv (fire_busy_candidate now d)"
  by (auto simp: fire_busy_candidate_def detector_defs det_inv_def Let_def split: if_splits)

lemma fire_busy_confirm_inv: "det_inv d \<Longrightarrow> busy_confirm_timer d \<noteq> None \<Longrightarrow> det_inv (fire_busy_confirm now d)"
  by (auto simp: fire_busy_confirm_def detector_defs det_inv_def Let_def split: if_splits option.splits)

lemma fire_might_need_inv:
  "det_inv d \<Longrightarrow> might_need_timer d = Some due \<Longrightarrow> due \<le> now \<Longrightarrow> det_inv (fire_might_need now d)"
  by (auto simp: fire_might_need_def detector_defs det_inv_def Let_def quiesce_after_output_ms_def split: if_splits)

lemma fire_resize_inv: "det_inv d \<Longrightarrow> resize_timer d \<noteq> None \<Longrightarrow> det_inv (fire_resize d)"
  by (auto simp: fire_resize_def det_inv_def split: if_splits)

lemma det_settle_inv:
  "det_inv d \<Longrightarrow> settled_timer d \<noteq> None \<Longrightarrow> det_settles d \<and> det_inv (det_settle_end (det_settle_begin d))"
  by (auto simp: det_settle_begin_def det_settle_end_def det_settles_def detector_defs det_inv_def split: if_splits)

lemma det_fire_inv: "det_inv d \<Longrightarrow> det_inv (det_fire k now d)"
  by (cases k)
     (auto simp: det_fire_def fire_busy_candidate_inv fire_busy_confirm_inv fire_might_need_inv
        fire_resize_inv det_settle_inv split: option.splits)

datatype detector_event = DetData int | DetResize int | DetReset | DetDispose | DetFire detector_timer int

fun det_step :: "detector_event \<Rightarrow> detector \<Rightarrow> detector" where
  "det_step (DetData now) d = det_on_data now d"
| "det_step (DetResize now) d = det_on_resize now d"
| "det_step DetReset d = det_reset d"
| "det_step DetDispose d = det_dispose d"
| "det_step (DetFire k now) d = det_fire k now d"

interpretation detector_events: event_system det_step "\<lambda>_. True" det_inv
proof unfold_locales
  fix s e assume "det_inv s"
  then show "det_inv (det_step e s)"
    by (cases e) (auto simp: det_on_data_inv det_on_resize_inv det_reset_inv det_dispose_inv det_fire_inv)
qed

section \<open>Behaviour\<close>

text \<open>The transitions of the status: BUSY is reached only through a confirmation window.\<close>

definition allowed_transitions :: "(quiesce_status \<times> quiesce_status) set" where
  "allowed_transitions =
     {(NothingToShow, MightBeBusy), (MightBeBusy, Busy), (MightBeBusy, NothingToShow),
      (Busy, MightNeedAttention), (Busy, NothingToShow), (MightNeedAttention, Busy),
      (MightNeedAttention, NothingToShow)}"

lemma det_step_transition:
  "det_status (det_step e d) \<noteq> det_status d \<Longrightarrow>
   (det_status d, det_status (det_step e d)) \<in> allowed_transitions"
proof (cases e)
  case (DetFire k now)
  moreover assume "det_status (det_step e d) \<noteq> det_status d"
  ultimately show ?thesis
    by (cases k)
       (auto simp: det_fire_def allowed_transitions_def fire_busy_candidate_def fire_busy_confirm_def
          fire_might_need_def fire_resize_def det_settle_begin_def det_settle_end_def det_settles_def
          detector_defs Let_def split: option.splits if_splits)
next
  case (DetData now)
  moreover assume "det_status (det_step e d) \<noteq> det_status d"
  ultimately show ?thesis
    by (cases "det_status d")
       (auto simp: det_on_data_def allowed_transitions_def detector_defs Let_def split: option.splits if_splits)
next
  case DetReset
  moreover assume "det_status (det_step e d) \<noteq> det_status d"
  ultimately show ?thesis
    by (cases "det_status d") (auto simp: det_reset_def detector_defs allowed_transitions_def split: if_splits)
qed (auto simp: det_on_resize_def det_dispose_def detector_defs split: if_splits)

text \<open>BUSY is announced only by an output that falls into the confirmation window.\<close>

lemma busy_needs_output:
  "det_status d \<noteq> Busy \<Longrightarrow> det_status (det_step e d) = Busy \<Longrightarrow>
   \<exists>now. e = DetData now \<and> (det_status d = MightBeBusy \<or> det_status d = MightNeedAttention)"
proof (cases e)
  case (DetData now)
  moreover assume "det_status d \<noteq> Busy" "det_status (det_step e d) = Busy"
  ultimately show ?thesis
    by (cases "det_status d") (auto simp: det_on_data_def detector_defs Let_def split: option.splits if_splits)
next
  case (DetFire k now)
  moreover assume "det_status d \<noteq> Busy" "det_status (det_step e d) = Busy"
  ultimately show ?thesis
    by (cases k)
       (auto simp: det_fire_def fire_busy_candidate_def fire_busy_confirm_def fire_might_need_def
          fire_resize_def det_settle_begin_def det_settle_end_def detector_defs Let_def
        split: option.splits if_splits)
qed (auto simp: det_reset_def det_on_resize_def det_dispose_def detector_defs split: if_splits)

text \<open>A settle is announced only after the full silence since the last accepted output.\<close>

lemma settle_not_early:
  "det_inv d \<Longrightarrow> settled_timer d = Some due \<Longrightarrow> due \<le> now \<Longrightarrow> quiet_at now d \<le> now"
  by (auto simp: det_inv_def quiet_at_def split: if_splits)

text \<open>A busy detector that hears nothing more settles: its two silence timers fire in turn.\<close>

lemma busy_settles:
  assumes "det_inv d" and "det_status d = Busy" and "\<not> det_disposed d"
    and "might_need_timer d = Some due" and "due \<le> t1" and "t1 + t_settled_confirm \<le> t2"
  shows "det_status (det_fire MightNeedTimer t1 d) = MightNeedAttention"
    and "det_settles (det_fire MightNeedTimer t1 d)"
    and "settled_timer (det_fire MightNeedTimer t1 d) = Some (t1 + t_settled_confirm)"
    and "det_status (det_fire SettledTimer t2 (det_fire MightNeedTimer t1 d)) = NothingToShow"
  using assms
  by (auto simp: det_fire_def fire_might_need_def det_settles_def det_settle_begin_def det_settle_end_def
      detector_defs Let_def)

end
