(* ===== verification/Alert_Manager.thy ===== *)
theory Alert_Manager
  imports Alert_Detector Term_State "HOL-Library.List_Lexorder"
begin

text \<open>
  The alert manager of all Sessions, \<open>lib/src/lib/alert-manager.ts\<close>. Its state is passed
  explicitly; the entry objects live in the map under their Session id, so a method that mutates
  \<open>entry\<close> updates the map. What the manager tells the outside is recorded in the state: every call
  of the listeners in \<open>am_emitted\<close>, every settled await in \<open>am_outcomes\<close>. A pending
  \<open>setTimeout\<close> is the time it is due, and \<open>now\<close> is \<open>Date.now()\<close>. The only claimants the program
  registers are those of the await groups, so a Session has a claimant exactly while it has a
  group. Listeners do not call back into the manager.
\<close>

section \<open>Data\<close>

type_synonym session_id = string

datatype session_status =
    Detected quiesce_status | WatchingDisabled | AlertRinging | OscNotifBusy | CommandExitArmed

datatype notification_source = NOsc9 | NOsc9_4 | NOsc99 | NOsc777 | NBel | NCommandExit

record activity_notification =
  an_source :: notification_source
  an_title :: "js_text option"
  an_body :: "js_text option"

datatype progress_state = PClear | PNormal | PWarning | PIndeterminate | PError

record progress_update =
  pu_state :: progress_state
  pu_percent :: "js_num option"

datatype protocol_status = ProtoIdle | ProtoBusy | ProtoRinging

datatype exit_status = ExitIdle | ExitArmed | ExitRinging

record command_exit_watch =
  cw_display :: js_text
  cw_argv0 :: "js_text option"
  cw_source :: command_run_source
  cw_started :: int
  cw_seen :: "int option"

datatype completion_event =
    Settled
  | CommandFinished js_text "js_text option" "int option" int bool
  | NotificationEvent activity_notification

datatype await_until = UntilQuiet | UntilExit

datatype await_cause = CauseQuiet | CauseExit | CauseBell | CauseIdle

datatype await_outcome =
    AwaitResolved await_cause int
  | AwaitTimeout int
  | AwaitDied int
  | AwaitCancelled int

record await_waiter =
  aw_id :: nat
  aw_until :: await_until
  aw_started :: int
  aw_grace :: "int option"
  aw_timeout :: "int option"

record alert_state =
  as_status :: session_status
  as_watching :: bool
  as_todo :: bool
  as_notification :: "activity_notification option"
  as_dismissed_ring :: bool
  as_awaited :: bool
  as_ring_seq :: nat

record alert_entry =
  ae_detector :: detector
  ae_watching_ring :: "js_text option"
  ae_output_since_ring :: bool
  ae_ring_seq :: nat
  ae_protocol :: protocol_status
  ae_progress :: "progress_update option"
  ae_exit :: exit_status
  ae_watch :: "command_exit_watch option"
  ae_pending :: "js_text option"
  ae_todo :: bool
  ae_notification :: "activity_notification option"
  ae_dismissed_ring :: bool
  ae_deferred :: "activity_notification option"
  ae_deferred_timer :: "int option"

record alert_manager =
  am_entries :: "(session_id \<times> alert_entry) list"
  am_removed :: "session_id set"
  am_awaits :: "(session_id \<times> await_waiter list) list"
  am_attention :: "session_id option"
  am_attention_timer :: "(int \<times> session_id) option"
  am_last :: "(session_id \<times> alert_state) list"
  am_watched :: "js_text list"
  am_helpers :: "session_id set"
  am_inactivity :: int
  am_defer :: bool
  am_next_waiter :: nat
  am_emitted :: "(session_id \<times> alert_state) list"
  am_outcomes :: "(nat \<times> await_outcome) list"

definition user_attention :: int where
  "user_attention = 15000"

definition await_grace_ms :: int where
  "await_grace_ms = t_busy_candidate_gap + t_busy_confirm_gap"

definition max_await_timeout_ms :: int where
  "max_await_timeout_ms = 24 * 60 * 60 * 1000"

definition new_manager :: alert_manager where
  "new_manager =
     \<lparr>am_entries = [], am_removed = {}, am_awaits = [], am_attention = None,
      am_attention_timer = None, am_last = [], am_watched = [], am_helpers = {},
      am_inactivity = user_attention, am_defer = False, am_next_waiter = 0,
      am_emitted = [], am_outcomes = []\<rparr>"

definition default_alert_state :: alert_state where
  "default_alert_state =
     \<lparr>as_status = WatchingDisabled, as_watching = False, as_todo = False, as_notification = None,
      as_dismissed_ring = False, as_awaited = False, as_ring_seq = 0\<rparr>"

definition new_entry :: alert_entry where
  "new_entry =
     \<lparr>ae_detector = new_detector, ae_watching_ring = None, ae_output_since_ring = False,
      ae_ring_seq = 0, ae_protocol = ProtoIdle, ae_progress = None, ae_exit = ExitIdle,
      ae_watch = None, ae_pending = None, ae_todo = False, ae_notification = None,
      ae_dismissed_ring = False, ae_deferred = None, ae_deferred_timer = None\<rparr>"

section \<open>Notifications\<close>

text \<open>
  A value read as a notification: its \<open>source\<close> when that is one of the known names, and its text
  fields when they are strings. A value that is no object has no source.
\<close>

record raw_notification =
  rn_source :: "notification_source option"
  rn_title :: "js_text option"
  rn_body :: "js_text option"

definition normalize_notification_text :: "js_text option \<Rightarrow> js_text option" where
  "normalize_notification_text v =
     (case v of None \<Rightarrow> None
      | Some s \<Rightarrow> let trimmed = js_trim s in if trimmed \<noteq> [] then Some trimmed else None)"

definition normalize_activity_notification :: "raw_notification \<Rightarrow> activity_notification option" where
  "normalize_activity_notification v =
     (case rn_source v of
        None \<Rightarrow> None
      | Some src \<Rightarrow>
          (let title = normalize_notification_text (rn_title v);
               body = normalize_notification_text (rn_body v)
           in if title = None \<and> body = None then None
              else Some \<lparr>an_source = src, an_title = title, an_body = body\<rparr>))"

text \<open>Decimal numerals, as template strings print integers.\<close>

definition int_text :: "int \<Rightarrow> js_text" where
  "int_text i = (if i < 0 then 45 # nat_text (nat (- i)) else nat_text (nat i))"

definition format_command_exit_body :: "js_text \<Rightarrow> int option \<Rightarrow> js_text" where
  "format_command_exit_body display exit_code =
     (let command = (if js_trim display \<noteq> [] then js_trim display else default_command_title)
      in case exit_code of
           None \<Rightarrow> command
         | Some c \<Rightarrow> command @ js '' exited '' @ int_text c)"

section \<open>Projection and notification of listeners\<close>

definition is_watching :: "alert_manager \<Rightarrow> alert_entry \<Rightarrow> bool" where
  "is_watching m e =
     (case Option.bind (ae_watch e) cw_argv0 of None \<Rightarrow> False | Some a \<Rightarrow> a \<in> set (am_watched m))"

definition has_active_ring :: "alert_entry \<Rightarrow> bool" where
  "has_active_ring e \<longleftrightarrow>
     ae_protocol e = ProtoRinging \<or> ae_exit e = ExitRinging \<or> ae_watching_ring e \<noteq> None"

definition projected_status :: "alert_manager \<Rightarrow> alert_entry \<Rightarrow> session_status" where
  "projected_status m e =
     (if has_active_ring e then AlertRinging
      else if ae_protocol e = ProtoBusy then OscNotifBusy
      else if is_watching m e then Detected (det_status (ae_detector e))
      else if ae_exit e = ExitArmed then CommandExitArmed
      else WatchingDisabled)"

definition waiters_of :: "alert_manager \<Rightarrow> session_id \<Rightarrow> await_waiter list" where
  "waiters_of m i = (case map_of (am_awaits m) i of None \<Rightarrow> [] | Some ws \<Rightarrow> ws)"

definition entry_of :: "alert_manager \<Rightarrow> session_id \<Rightarrow> alert_entry option" where
  "entry_of m i = map_of (am_entries m) i"

definition get_state :: "alert_manager \<Rightarrow> session_id \<Rightarrow> alert_state" where
  "get_state m i =
     (case entry_of m i of
        None \<Rightarrow> default_alert_state
      | Some e \<Rightarrow>
          \<lparr>as_status = projected_status m e, as_watching = is_watching m e, as_todo = ae_todo e,
           as_notification = ae_notification e, as_dismissed_ring = ae_dismissed_ring e,
           as_awaited = (0 < length (waiters_of m i)), as_ring_seq = ae_ring_seq e\<rparr>)"

definition get_all_states :: "alert_manager \<Rightarrow> (session_id \<times> alert_state) list" where
  "get_all_states m = map (\<lambda>(i, _). (i, get_state m i)) (am_entries m)"

definition notify :: "session_id \<Rightarrow> alert_manager \<Rightarrow> alert_manager" where
  "notify i m =
     (let s = get_state m i
      in if map_of (am_last m) i = Some s then m
         else m\<lparr>am_last := (if entry_of m i \<noteq> None then AList.update i s (am_last m)
                            else AList.delete i (am_last m)),
                am_emitted := am_emitted m @ [(i, s)]\<rparr>)"

section \<open>Entries\<close>

definition set_entry :: "session_id \<Rightarrow> alert_entry \<Rightarrow> alert_manager \<Rightarrow> alert_manager" where
  "set_entry i e m = m\<lparr>am_entries := AList.update i e (am_entries m)\<rparr>"

definition with_entry :: "session_id \<Rightarrow> (alert_entry \<Rightarrow> alert_entry) \<Rightarrow> alert_manager \<Rightarrow> alert_manager" where
  "with_entry i f m = (case entry_of m i of None \<Rightarrow> m | Some e \<Rightarrow> set_entry i (f e) m)"

definition get_or_create_entry :: "session_id \<Rightarrow> alert_manager \<Rightarrow> alert_manager" where
  "get_or_create_entry i m = (if entry_of m i = None then set_entry i new_entry m else m)"

text \<open>\<open>streamEntry\<close>: whether there is an entry to feed, created on demand unless the id is retired.\<close>

definition stream_entry :: "session_id \<Rightarrow> alert_manager \<Rightarrow> alert_manager \<times> bool" where
  "stream_entry i m = (if i \<in> am_removed m then (m, False) else (get_or_create_entry i m, True))"

definition reported_entry :: "session_id \<Rightarrow> alert_manager \<Rightarrow> alert_manager" where
  "reported_entry i m = get_or_create_entry i (m\<lparr>am_removed := am_removed m - {i}\<rparr>)"

text \<open>
  An operation of the detector of an entry. \<open>createDetector\<close> hands the detector an \<open>onChange\<close>
  that publishes the change while the entry is watching.
\<close>

definition with_detector :: "session_id \<Rightarrow> (detector \<Rightarrow> detector) \<Rightarrow> alert_manager \<Rightarrow> alert_manager" where
  "with_detector i f m =
     (case entry_of m i of
        None \<Rightarrow> m
      | Some e \<Rightarrow>
          (let m' = set_entry i (e\<lparr>ae_detector := f (ae_detector e)\<rparr>) m
           in if det_status (f (ae_detector e)) \<noteq> det_status (ae_detector e) \<and> is_watching m e
              then notify i m' else m'))"

section \<open>Rings\<close>

definition has_attention :: "alert_manager \<Rightarrow> session_id \<Rightarrow> bool" where
  "has_attention m i \<longleftrightarrow> am_attention m = Some i"

definition latch_ring :: "bool \<Rightarrow> alert_entry \<Rightarrow> alert_entry" where
  "latch_ring was_ringing e = (if was_ringing then e else e\<lparr>ae_ring_seq := ae_ring_seq e + 1\<rparr>)"

definition apply_protocol_ringing :: "activity_notification \<Rightarrow> alert_entry \<Rightarrow> alert_entry" where
  "apply_protocol_ringing n e =
     (latch_ring (ae_protocol e = ProtoRinging) e)
       \<lparr>ae_notification := Some n, ae_todo := True, ae_protocol := ProtoRinging, ae_progress := None\<rparr>"

definition apply_command_exit_ringing :: "js_text \<Rightarrow> int option \<Rightarrow> alert_entry \<Rightarrow> alert_entry" where
  "apply_command_exit_ringing display exit_code e =
     (let e' = (latch_ring (ae_exit e = ExitRinging) e)\<lparr>ae_exit := ExitRinging, ae_todo := True\<rparr>
      in if ae_protocol e' \<noteq> ProtoRinging
         then e'\<lparr>ae_notification := Some \<lparr>an_source = NCommandExit,
                  an_title = Some (js ''Command finished''),
                  an_body = Some (format_command_exit_body display exit_code)\<rparr>\<rparr>
         else e')"

definition apply_watching_ringing :: "alert_entry \<Rightarrow> alert_entry" where
  "apply_watching_ringing e =
     (latch_ring (ae_watching_ring e \<noteq> None) e)
       \<lparr>ae_watching_ring := Option.bind (ae_watch e) cw_argv0, ae_output_since_ring := False\<rparr>"

definition clear_deferred :: "alert_entry \<Rightarrow> alert_entry" where
  "clear_deferred e = e\<lparr>ae_deferred_timer := None, ae_deferred := None\<rparr>"

datatype ring_track = TrackProtocol | TrackCommandExit | TrackWatching

definition release_ring :: "session_id \<Rightarrow> ring_track \<Rightarrow> alert_manager \<Rightarrow> alert_manager \<times> bool" where
  "release_ring i track m =
     (case entry_of m i of
        None \<Rightarrow> (m, False)
      | Some e \<Rightarrow>
          (case track of
             TrackProtocol \<Rightarrow>
               if ae_protocol e \<noteq> ProtoRinging then (m, False)
               else (set_entry i (e\<lparr>ae_protocol := ProtoIdle, ae_progress := None\<rparr>) m, True)
           | TrackCommandExit \<Rightarrow>
               if ae_exit e \<noteq> ExitRinging then (m, False)
               else (set_entry i (e\<lparr>ae_exit := ExitIdle\<rparr>) m, True)
           | TrackWatching \<Rightarrow>
               if ae_watching_ring e = None then (m, False)
               else (with_detector i det_reset
                       (set_entry i (e\<lparr>ae_watching_ring := None, ae_output_since_ring := False\<rparr>) m),
                     True)))"

definition clear_all_rings_if_active :: "session_id \<Rightarrow> alert_manager \<Rightarrow> alert_manager \<times> bool" where
  "clear_all_rings_if_active i m =
     (let m0 = with_entry i clear_deferred m;
          (m1, r1) = release_ring i TrackProtocol m0;
          (m2, r2) = release_ring i TrackCommandExit m1;
          (m3, r3) = release_ring i TrackWatching m2
      in (m3, r1 \<or> r2 \<or> r3))"

definition flush_deferred :: "session_id \<Rightarrow> alert_manager \<Rightarrow> alert_manager" where
  "flush_deferred i m =
     (case entry_of m i of
        None \<Rightarrow> m
      | Some e \<Rightarrow>
          (case ae_deferred e of
             None \<Rightarrow> m
           | Some n \<Rightarrow>
               (let m' = set_entry i (clear_deferred e) m
                in if has_attention m' i then m'
                   else notify i (with_entry i (apply_protocol_ringing n) m'))))"

definition schedule_deferred :: "int \<Rightarrow> alert_entry \<Rightarrow> alert_entry" where
  "schedule_deferred now e =
     e\<lparr>ae_deferred_timer := Some (now + max 0 (quiet_at now (ae_detector e) - now))\<rparr>"

definition defer_or_deliver :: "int \<Rightarrow> session_id \<Rightarrow> activity_notification \<Rightarrow> alert_manager \<Rightarrow> alert_manager" where
  "defer_or_deliver now i n m =
     (case entry_of m i of
        None \<Rightarrow> m
      | Some e \<Rightarrow>
          notify i
            (if am_defer m \<and> \<not> has_active_ring e \<and>
                (ae_deferred e \<noteq> None \<or> is_confirmed_busy (ae_detector e))
             then set_entry i (schedule_deferred now (e\<lparr>ae_deferred := Some n\<rparr>)) m
             else set_entry i (apply_protocol_ringing n (clear_deferred e)) m))"

section \<open>Awaits\<close>

definition await_cause_for :: "await_until \<Rightarrow> completion_event \<Rightarrow> await_cause option" where
  "await_cause_for until ev =
     (case ev of
        CommandFinished _ _ _ _ _ \<Rightarrow> Some CauseExit
      | Settled \<Rightarrow> if until = UntilExit then None else Some CauseQuiet
      | NotificationEvent _ \<Rightarrow> if until = UntilExit then None else Some CauseBell)"

definition drop_waiter :: "session_id \<Rightarrow> nat \<Rightarrow> alert_manager \<Rightarrow> alert_manager" where
  "drop_waiter i w m =
     (let ws = filter (\<lambda>x. aw_id x \<noteq> w) (waiters_of m i)
      in m\<lparr>am_awaits := (if ws = [] then AList.delete i (am_awaits m)
                         else AList.update i ws (am_awaits m))\<rparr>)"

text \<open>\<open>settle\<close>: a waiter that is no longer parked has been settled before.\<close>

definition settle_waiter :: "session_id \<Rightarrow> nat \<Rightarrow> await_outcome \<Rightarrow> alert_manager \<Rightarrow> alert_manager" where
  "settle_waiter i w outcome m =
     (if w \<in> aw_id ` set (waiters_of m i)
      then (let m' = drop_waiter i w m
            in notify i (m'\<lparr>am_outcomes := am_outcomes m' @ [(w, outcome)]\<rparr>))
      else m)"

text \<open>The claimant of an await group: every parked waiter is offered the event.\<close>

fun offer_waiters ::
    "int \<Rightarrow> session_id \<Rightarrow> completion_event \<Rightarrow> await_waiter list \<Rightarrow> alert_manager \<Rightarrow> alert_manager \<times> bool" where
  "offer_waiters now i ev [] m = (m, False)"
| "offer_waiters now i ev (w # ws) m =
     (case await_cause_for (aw_until w) ev of
        None \<Rightarrow> offer_waiters now i ev ws m
      | Some cause \<Rightarrow>
          (fst (offer_waiters now i ev ws
                  (settle_waiter i (aw_id w) (AwaitResolved cause (now - aw_started w)) m)), True))"

definition map_waiters :: "session_id \<Rightarrow> (await_waiter \<Rightarrow> await_waiter) \<Rightarrow> alert_manager \<Rightarrow> alert_manager" where
  "map_waiters i f m =
     (if waiters_of m i = [] then m
      else m\<lparr>am_awaits := AList.update i (map f (waiters_of m i)) (am_awaits m)\<rparr>)"

definition waiter_on_output :: "await_waiter \<Rightarrow> await_waiter" where
  "waiter_on_output w = (if aw_until w = UntilQuiet then w\<lparr>aw_grace := None\<rparr> else w)"

definition waiter_on_command_start :: "await_waiter \<Rightarrow> await_waiter" where
  "waiter_on_command_start w = w\<lparr>aw_grace := None\<rparr>"

fun settle_all :: "int \<Rightarrow> session_id \<Rightarrow> (int \<Rightarrow> await_outcome) \<Rightarrow> await_waiter list \<Rightarrow> alert_manager \<Rightarrow> alert_manager" where
  "settle_all now i how [] m = m"
| "settle_all now i how (w # ws) m =
     settle_all now i how ws (settle_waiter i (aw_id w) (how (now - aw_started w)) m)"

definition settle_waiters :: "int \<Rightarrow> session_id \<Rightarrow> (int \<Rightarrow> await_outcome) \<Rightarrow> alert_manager \<Rightarrow> alert_manager" where
  "settle_waiters now i how m = settle_all now i how (waiters_of m i) m"

section \<open>Completion events\<close>

text \<open>\<open>dispatchCompletion\<close>, for an id that has an entry: observe, claim, ring rule.\<close>

definition dispatch_completion ::
    "int \<Rightarrow> session_id \<Rightarrow> completion_event \<Rightarrow> alert_manager \<Rightarrow> alert_manager \<times> bool" where
  "dispatch_completion now i ev m =
     (let (m1, claimed) = offer_waiters now i ev (waiters_of m i) m
      in if claimed then (m1, True)
         else
           (case entry_of m1 i of
              None \<Rightarrow> (m1, False)
            | Some e \<Rightarrow>
                (case ev of
                   Settled \<Rightarrow>
                     if \<not> is_watching m1 e \<or> has_attention m1 i then (m1, False)
                     else (notify i (set_entry i (apply_watching_ringing e) m1), False)
                 | CommandFinished display argv0 exit_code ran_ms armed \<Rightarrow>
                     if \<not> armed \<or> has_attention m1 i \<or> ran_ms < am_inactivity m1 then (m1, False)
                     else
                       (let m2 = set_entry i (apply_command_exit_ringing display exit_code e) m1
                        in (if ae_deferred e \<noteq> None then flush_deferred i m2 else notify i m2, False))
                 | NotificationEvent n \<Rightarrow>
                     if has_attention m1 i then (notify i m1, False)
                     else (defer_or_deliver now i n m1, False))))"

definition on_settled :: "int \<Rightarrow> session_id \<Rightarrow> alert_manager \<Rightarrow> alert_manager" where
  "on_settled now i m =
     (if entry_of m i = None then m
      else flush_deferred i (fst (dispatch_completion now i Settled m)))"

section \<open>Command-exit track\<close>

definition start_command_exit_watch :: "int \<Rightarrow> session_id \<Rightarrow> command_start \<Rightarrow> alert_manager \<Rightarrow> alert_manager" where
  "start_command_exit_watch now i ev m =
     (case entry_of m i of
        None \<Rightarrow> m
      | Some e \<Rightarrow>
          (let r = resolve_command_start (ae_pending e) ev now default_command_title;
               e' = e\<lparr>ae_pending := None,
                      ae_exit := (if ae_exit e \<noteq> ExitRinging then ExitIdle else ae_exit e),
                      ae_watch := Some \<lparr>cw_display = rs_display r,
                                        cw_argv0 = Option.bind (rs_raw r) command_argv0,
                                        cw_source = rs_source r, cw_started = rs_started_at r,
                                        cw_seen = (if has_attention m i then Some now else None)\<rparr>\<rparr>
           in map_waiters i waiter_on_command_start (with_detector i det_reset (set_entry i e' m))))"

definition finish_command_exit_watch :: "int \<Rightarrow> session_id \<Rightarrow> int option \<Rightarrow> alert_manager \<Rightarrow> alert_manager \<times> bool" where
  "finish_command_exit_watch now i exit_code m =
     (case entry_of m i of
        None \<Rightarrow> (m, False)
      | Some e \<Rightarrow>
          (let m1 = set_entry i (e\<lparr>ae_watch := None, ae_pending := None,
                       ae_exit := (if ae_exit e \<noteq> ExitRinging then ExitIdle else ae_exit e)\<rparr>) m;
               m2 = (case ae_watch e of
                       None \<Rightarrow> m1
                     | Some w \<Rightarrow>
                         fst (dispatch_completion now i
                                (CommandFinished (cw_display w) (cw_argv0 w) exit_code (now - cw_started w)
                                   (ae_exit e = ExitArmed)) m1))
           in (with_detector i det_reset m2, ae_watch e \<noteq> None)))"

definition mark_command_exit_seen :: "int \<Rightarrow> alert_entry \<Rightarrow> alert_entry" where
  "mark_command_exit_seen now e =
     (case ae_watch e of
        None \<Rightarrow> e
      | Some w \<Rightarrow>
          e\<lparr>ae_watch := Some (if cw_seen w = None then w\<lparr>cw_seen := Some now\<rparr> else w),
            ae_exit := (if ae_exit e = ExitArmed then ExitIdle else ae_exit e)\<rparr>)"

definition arm_command_exit :: "session_id \<Rightarrow> alert_manager \<Rightarrow> alert_manager \<times> bool" where
  "arm_command_exit i m =
     (case entry_of m i of
        None \<Rightarrow> (m, False)
      | Some e \<Rightarrow>
          (case ae_watch e of
             None \<Rightarrow> (m, False)
           | Some w \<Rightarrow>
               if ae_exit e \<noteq> ExitIdle then (m, False)
               else if cw_seen w = None then (m, False)
               else (set_entry i (e\<lparr>ae_exit := ExitArmed\<rparr>) m, True)))"

text \<open>One semantic event, with whether anything may have changed so far.\<close>

definition apply_semantic_event ::
    "int \<Rightarrow> session_id \<Rightarrow> semantic_event \<Rightarrow> alert_manager \<times> bool \<Rightarrow> alert_manager \<times> bool" where
  "apply_semantic_event now i ev mc =
     (let (m, changed) = mc
      in case entry_of m i of
           None \<Rightarrow> (m, changed)
         | Some e \<Rightarrow>
             (case ev of
                EvCommandLine l \<Rightarrow>
                  if ae_pending e \<noteq> Some l then (set_entry i (e\<lparr>ae_pending := Some l\<rparr>) m, True)
                  else (m, changed)
              | EvCommandStart cs \<Rightarrow> (start_command_exit_watch now i cs m, True)
              | EvCommandFinish exit_code finished_at \<Rightarrow>
                  (let (m', finished) = finish_command_exit_watch now i exit_code m
                   in (m', finished \<or> changed))
              | EvPromptStart \<Rightarrow>
                  if ae_pending e \<noteq> None \<or> ae_watch e \<noteq> None
                  then (fst (finish_command_exit_watch now i None m), True)
                  else (with_detector i det_reset m, changed)
              | EvPromptEnd \<Rightarrow>
                  if ae_pending e \<noteq> None \<or> ae_watch e \<noteq> None
                  then (fst (finish_command_exit_watch now i None m), True)
                  else (with_detector i det_reset m, changed)
              | _ \<Rightarrow> (m, changed)))"

definition apply_terminal_semantic_events ::
    "int \<Rightarrow> session_id \<Rightarrow> semantic_event list \<Rightarrow> alert_manager \<Rightarrow> alert_manager" where
  "apply_terminal_semantic_events now i evs m =
     (if evs = [] \<or> i \<in> am_helpers m then m
      else (let (m', changed) = fold (apply_semantic_event now i) evs (reported_entry i m, False)
            in if changed then notify i m' else m'))"

section \<open>Terminal-report protocol track\<close>

definition notify_from_protocol :: "int \<Rightarrow> session_id \<Rightarrow> raw_notification \<Rightarrow> alert_manager \<Rightarrow> alert_manager" where
  "notify_from_protocol now i n m =
     (if i \<in> am_helpers m then m
      else (let m' = reported_entry i m
            in case normalize_activity_notification n of
                 None \<Rightarrow> m'
               | Some x \<Rightarrow> fst (dispatch_completion now i (NotificationEvent x) m')))"

definition finish_protocol_progress_cycle ::
    "int \<Rightarrow> session_id \<Rightarrow> js_text \<Rightarrow> js_num option \<Rightarrow> alert_manager \<Rightarrow> alert_manager" where
  "finish_protocol_progress_cycle now i title percent m =
     (let m1 = with_entry i (\<lambda>e. e\<lparr>ae_progress := None,
                 ae_protocol := (if ae_protocol e = ProtoBusy then ProtoIdle else ae_protocol e)\<rparr>) m;
          (m2, claimed) = dispatch_completion now i
            (NotificationEvent \<lparr>an_source = NOsc9_4, an_title = Some title,
               an_body = (case percent of None \<Rightarrow> None
                          | Some p \<Rightarrow> Some (js ''Progress '' @ int_text (js_round p) @ [37]))\<rparr>) m1
      in if claimed then notify i m2 else m2)"

definition complete_protocol_progress ::
    "int \<Rightarrow> session_id \<Rightarrow> progress_update \<Rightarrow> alert_manager \<Rightarrow> alert_manager" where
  "complete_protocol_progress now i p m =
     finish_protocol_progress_cycle now i
       (if pu_state p = PWarning then js ''Progress warning'' else js ''Progress complete'')
       (pu_percent p) m"

definition update_protocol_progress ::
    "int \<Rightarrow> session_id \<Rightarrow> progress_update \<Rightarrow> alert_manager \<Rightarrow> alert_manager" where
  "update_protocol_progress now i p m =
     (if i \<in> am_helpers m then m
      else
        (let m' = reported_entry i m
         in case entry_of m' i of
              None \<Rightarrow> m'
            | Some e \<Rightarrow>
                if pu_state p = PClear
                then (case ae_progress e of
                        None \<Rightarrow> m'
                      | Some cur \<Rightarrow> complete_protocol_progress now i cur m')
                else if pu_state p = PError
                then finish_protocol_progress_cycle now i (js ''Progress error'') (pu_percent p) m'
                else if pu_state p = PNormal \<and> pu_percent p = Some 100
                then complete_protocol_progress now i
                       \<lparr>pu_state = (if map_option pu_state (ae_progress e) = Some PWarning
                                    then PWarning else PNormal),
                        pu_percent = pu_percent p\<rparr> m'
                else if ae_protocol e = ProtoBusy \<and> ae_progress e = Some p then m'
                else notify i (set_entry i (e\<lparr>ae_progress := Some p, ae_protocol := ProtoBusy\<rparr>) m')))"

section \<open>Attention\<close>

definition arm_and_notify :: "session_id \<Rightarrow> alert_manager \<Rightarrow> alert_manager" where
  "arm_and_notify i m = (let (m', armed) = arm_command_exit i m in if armed then notify i m' else m')"

definition set_attention :: "int \<Rightarrow> session_id \<Rightarrow> alert_manager \<Rightarrow> alert_manager" where
  "set_attention now i m =
     (let m1 = (case am_attention m of
                  None \<Rightarrow> m
                | Some prev \<Rightarrow> if prev \<noteq> '''' \<and> prev \<noteq> i then arm_and_notify prev m else m)
      in m1\<lparr>am_attention := Some i, am_attention_timer := Some (now + am_inactivity m1, i)\<rparr>)"

definition attend :: "int \<Rightarrow> session_id \<Rightarrow> alert_manager \<Rightarrow> alert_manager" where
  "attend now i m =
     (if i \<in> am_helpers m then m
      else
        (let m1 = set_attention now i (get_or_create_entry i m);
             (m2, dismissed) = clear_all_rings_if_active i m1;
             m3 = (if dismissed then with_entry i (\<lambda>e. e\<lparr>ae_dismissed_ring := True, ae_todo := True\<rparr>) m2
                   else m2)
         in notify i (with_entry i (mark_command_exit_seen now) m3)))"

definition clear_attention :: "session_id option \<Rightarrow> alert_manager \<Rightarrow> alert_manager" where
  "clear_attention i m =
     (if (case i of None \<Rightarrow> False | Some x \<Rightarrow> am_attention m \<noteq> Some x \<or> x \<in> am_helpers m) then m
      else
        (let m1 = m\<lparr>am_attention := None, am_attention_timer := None\<rparr>
         in case am_attention m of
              None \<Rightarrow> m1
            | Some lost \<Rightarrow> if lost \<noteq> '''' then arm_and_notify lost m1 else m1))"

section \<open>Settings and rules\<close>

definition set_inactivity_timeout_ms :: "int \<Rightarrow> int \<Rightarrow> alert_manager \<Rightarrow> alert_manager" where
  "set_inactivity_timeout_ms now ms m =
     (if ms \<le> 0 \<or> ms = am_inactivity m then m
      else
        (let m1 = m\<lparr>am_inactivity := ms\<rparr>
         in case (am_attention_timer m1, am_attention m1) of
              (Some _, Some i) \<Rightarrow> set_attention now i m1
            | _ \<Rightarrow> m1))"

definition set_defer_alerts_until_quiet :: "bool \<Rightarrow> alert_manager \<Rightarrow> alert_manager" where
  "set_defer_alerts_until_quiet enabled m =
     (if enabled = am_defer m then m
      else
        (let m1 = m\<lparr>am_defer := enabled\<rparr>
         in if enabled then m1 else fold flush_deferred (map fst (am_entries m1)) m1))"

definition apply_settings :: "int \<Rightarrow> int \<Rightarrow> bool \<Rightarrow> alert_manager \<Rightarrow> alert_manager" where
  "apply_settings now ms defer m = set_defer_alerts_until_quiet defer (set_inactivity_timeout_ms now ms m)"

definition set_helper :: "session_id \<Rightarrow> bool \<Rightarrow> alert_manager \<Rightarrow> alert_manager" where
  "set_helper i helper m =
     (if helper then m\<lparr>am_helpers := insert i (am_helpers m)\<rparr>
      else m\<lparr>am_helpers := am_helpers m - {i}\<rparr>)"

text \<open>\<open>new Set(names)\<close> keeps the first occurrence of each name.\<close>

definition js_set :: "js_text list \<Rightarrow> js_text list" where
  "js_set names = rev (remdups (rev names))"

definition silence_dropped_rule :: "session_id \<Rightarrow> alert_manager \<Rightarrow> alert_manager" where
  "silence_dropped_rule i m =
     notify i (with_entry i (\<lambda>e.
       case ae_watching_ring e of
         None \<Rightarrow> e
       | Some c \<Rightarrow> if c \<in> set (am_watched m) then e
                   else e\<lparr>ae_watching_ring := None, ae_output_since_ring := False\<rparr>) m)"

definition set_watched_commands :: "js_text list \<Rightarrow> alert_manager \<Rightarrow> alert_manager" where
  "set_watched_commands names m =
     (let next = js_set names
      in if length next = length (am_watched m) \<and> list_all (\<lambda>x. x \<in> set (am_watched m)) next then m
         else (let m1 = m\<lparr>am_watched := next\<rparr>
               in fold silence_dropped_rule (map fst (am_entries m1)) m1))"

definition set_command_watched :: "js_text \<Rightarrow> bool \<Rightarrow> alert_manager \<Rightarrow> alert_manager" where
  "set_command_watched name watched m =
     (let trimmed = js_trim name
      in if trimmed = [] \<or> (trimmed \<in> set (am_watched m)) = watched then m
         else set_watched_commands
                (if watched then am_watched m @ [trimmed] else filter (\<lambda>x. x \<noteq> trimmed) (am_watched m)) m)"

definition get_watched_commands :: "alert_manager \<Rightarrow> js_text list" where
  "get_watched_commands m = sort (am_watched m)"

section \<open>Output, resize and exit\<close>

definition on_data :: "int \<Rightarrow> session_id \<Rightarrow> alert_manager \<Rightarrow> alert_manager" where
  "on_data now i m =
     (if i \<in> am_helpers m then m
      else
        (let (m1, found) = stream_entry i m
         in if \<not> found then m1
            else
              (let m2 = with_detector i (det_on_data now) m1;
                   m3 = with_entry i (\<lambda>e. if ae_watching_ring e \<noteq> None
                                         then e\<lparr>ae_output_since_ring := True\<rparr> else e) m2
               in map_waiters i waiter_on_output m3)))"

definition on_exit :: "int \<Rightarrow> session_id \<Rightarrow> int option \<Rightarrow> alert_manager \<Rightarrow> alert_manager" where
  "on_exit now i exit_code m =
     (if i \<in> am_helpers m then m
      else
        (let (m1, finished) = finish_command_exit_watch now i exit_code m;
             m2 = (if finished then notify i m1 else m1)
         in settle_waiters now i AwaitDied m2))"

definition on_resize :: "int \<Rightarrow> session_id \<Rightarrow> alert_manager \<Rightarrow> alert_manager" where
  "on_resize now i m =
     (if i \<in> am_helpers m then m
      else (let (m1, found) = stream_entry i m
            in if found then with_detector i (det_on_resize now) m1 else m1))"

section \<open>Awaiting a completion\<close>

definition consume_awaitable_ring ::
    "session_id \<Rightarrow> await_until \<Rightarrow> alert_manager \<Rightarrow> alert_manager \<times> await_cause option" where
  "consume_awaitable_ring i until m =
     (case entry_of m i of
        None \<Rightarrow> (m, None)
      | Some e \<Rightarrow>
          if until = UntilQuiet \<and> ae_protocol e = ProtoRinging
          then (fst (release_ring i TrackProtocol m), Some CauseBell)
          else if ae_watch e = None \<and> ae_exit e = ExitRinging
          then (fst (release_ring i TrackCommandExit m), Some CauseExit)
          else if until = UntilQuiet \<and> \<not> ae_output_since_ring e \<and> ae_watching_ring e \<noteq> None
          then (fst (release_ring i TrackWatching m), Some CauseQuiet)
          else (m, None))"

definition add_waiter :: "session_id \<Rightarrow> await_waiter \<Rightarrow> alert_manager \<Rightarrow> alert_manager" where
  "add_waiter i w m = m\<lparr>am_awaits := AList.update i (waiters_of m i @ [w]) (am_awaits m)\<rparr>"

text \<open>
  \<open>awaitCompletion\<close>: the outcome of an await that is over at once, or the number of the parked
  waiter, which stands for the handle.
\<close>

definition await_completion ::
    "int \<Rightarrow> session_id \<Rightarrow> await_until \<Rightarrow> int \<Rightarrow> alert_manager \<Rightarrow> alert_manager \<times> (await_outcome + nat)" where
  "await_completion now i until timeout_ms m =
     (if i \<in> am_helpers m then (m, Inl (AwaitCancelled 0))
      else if timeout_ms \<le> 0 \<or> timeout_ms > max_await_timeout_ms then (m, Inl (AwaitCancelled 0))
      else if i \<in> am_removed m then (m, Inl (AwaitDied 0))
      else
        (let m1 = get_or_create_entry i m;
             (m2, ringing) = consume_awaitable_ring i until m1
         in case ringing of
              Some cause \<Rightarrow> (notify i m2, Inl (AwaitResolved cause 0))
            | None \<Rightarrow>
                (let running = (case entry_of m2 i of None \<Rightarrow> False | Some e \<Rightarrow> ae_watch e \<noteq> None);
                     w = am_next_waiter m2;
                     waiter = \<lparr>aw_id = w, aw_until = until, aw_started = now,
                               aw_grace = (if running then None else Some (now + await_grace_ms)),
                               aw_timeout = Some (now + timeout_ms)\<rparr>
                 in (notify i (add_waiter i waiter (m2\<lparr>am_next_waiter := Suc w\<rparr>)), Inr w))))"

definition find_waiter :: "session_id \<Rightarrow> nat \<Rightarrow> alert_manager \<Rightarrow> await_waiter option" where
  "find_waiter i w m = find (\<lambda>x. aw_id x = w) (waiters_of m i)"

definition cancel_await :: "int \<Rightarrow> session_id \<Rightarrow> nat \<Rightarrow> alert_manager \<Rightarrow> alert_manager" where
  "cancel_await now i w m =
     (case find_waiter i w m of
        None \<Rightarrow> m
      | Some x \<Rightarrow> settle_waiter i w (AwaitCancelled (now - aw_started x)) m)"

section \<open>Alert and TODO controls\<close>

definition dismiss_alert :: "session_id \<Rightarrow> alert_manager \<Rightarrow> alert_manager" where
  "dismiss_alert i m =
     (if entry_of m i = None then m
      else
        (let (m1, dismissed) = clear_all_rings_if_active i m;
             had_flag = (case entry_of m1 i of None \<Rightarrow> False | Some e \<Rightarrow> ae_dismissed_ring e);
             m2 = with_entry i (\<lambda>e. e\<lparr>ae_todo := (ae_todo e \<or> dismissed), ae_dismissed_ring := False\<rparr>) m1
         in if dismissed \<or> had_flag then notify i m2 else m2))"

definition toggle_todo :: "session_id \<Rightarrow> alert_manager \<Rightarrow> alert_manager" where
  "toggle_todo i m =
     (if i \<in> am_helpers m then m
      else
        (let m1 = with_entry i (\<lambda>e. e\<lparr>ae_todo := \<not> ae_todo e,
                    ae_notification := (if ae_todo e then None else ae_notification e)\<rparr>)
                    (get_or_create_entry i m)
         in notify i (fst (clear_all_rings_if_active i m1))))"

definition mark_todo :: "session_id \<Rightarrow> alert_manager \<Rightarrow> alert_manager" where
  "mark_todo i m =
     (if i \<in> am_helpers m then m
      else
        (let (m1, cleared) = clear_all_rings_if_active i (get_or_create_entry i m)
         in if (case entry_of m1 i of None \<Rightarrow> False | Some e \<Rightarrow> ae_todo e) \<and> \<not> cleared then m1
            else notify i (with_entry i (\<lambda>e. e\<lparr>ae_todo := True\<rparr>) m1)))"

definition clear_todo :: "session_id \<Rightarrow> alert_manager \<Rightarrow> alert_manager" where
  "clear_todo i m =
     (if i \<in> am_helpers m then m
      else
        (let m1 = with_entry i (\<lambda>e. e\<lparr>ae_todo := False, ae_notification := None\<rparr>) (get_or_create_entry i m)
         in notify i (fst (clear_all_rings_if_active i m1))))"

section \<open>Removal, restore and disposal\<close>

definition remove_session :: "int \<Rightarrow> session_id \<Rightarrow> alert_manager \<Rightarrow> alert_manager" where
  "remove_session now i m =
     (let m1 = m\<lparr>am_helpers := am_helpers m - {i}, am_removed := insert i (am_removed m)\<rparr>;
          m2 = settle_waiters now i AwaitDied m1
      in if entry_of m2 i = None then m2
         else
           (let m3 = m2\<lparr>am_entries := AList.delete i (am_entries m2)\<rparr>;
                m4 = (if am_attention m3 = Some i
                      then m3\<lparr>am_attention := None, am_attention_timer := None\<rparr> else m3)
            in notify i m4))"

definition seed :: "session_id \<Rightarrow> bool \<Rightarrow> raw_notification \<Rightarrow> alert_manager \<Rightarrow> alert_manager" where
  "seed i todo n m =
     (if i \<in> am_helpers m then m
      else
        (let m1 = with_entry i (\<lambda>e. clear_deferred (e\<lparr>ae_todo := todo,
                    ae_notification := (if todo then normalize_activity_notification n else None),
                    ae_watching_ring := None, ae_output_since_ring := False,
                    ae_protocol := ProtoIdle, ae_progress := None, ae_exit := ExitIdle,
                    ae_watch := None, ae_pending := None\<rparr>)) (get_or_create_entry i m)
         in notify i (with_detector i det_reset m1)))"

definition dispose :: "int \<Rightarrow> alert_manager \<Rightarrow> alert_manager" where
  "dispose now m =
     (fold (\<lambda>i. settle_waiters now i AwaitCancelled) (map fst (am_awaits m)) m)
       \<lparr>am_entries := [], am_removed := {}, am_helpers := {}, am_awaits := [], am_last := [],
        am_attention_timer := None\<rparr>"

section \<open>Timers\<close>

definition due :: "int \<Rightarrow> int option \<Rightarrow> bool" where
  "due now t = (case t of None \<Rightarrow> False | Some d \<Rightarrow> d \<le> now)"

text \<open>
  The callback of a detector timer. The settle calls \<open>onSettled\<close> before the status changes, so
  the manager acts between the two halves of the detector's own step.
\<close>

definition fire_detector :: "int \<Rightarrow> session_id \<Rightarrow> detector_timer \<Rightarrow> alert_manager \<Rightarrow> alert_manager" where
  "fire_detector now i k m =
     (case entry_of m i of
        None \<Rightarrow> m
      | Some e \<Rightarrow>
          if \<not> due now (timer_of k (ae_detector e)) then m
          else if k = SettledTimer \<and> det_settles (ae_detector e)
          then with_detector i det_settle_end (on_settled now i (with_detector i det_settle_begin m))
          else with_detector i (det_fire k now) m)"

definition fire_deferred :: "int \<Rightarrow> session_id \<Rightarrow> alert_manager \<Rightarrow> alert_manager" where
  "fire_deferred now i m =
     (case entry_of m i of
        None \<Rightarrow> m
      | Some e \<Rightarrow>
          if \<not> due now (ae_deferred_timer e) then m
          else
            (let m1 = set_entry i (e\<lparr>ae_deferred_timer := None\<rparr>) m
             in if quiet_at now (ae_detector e) > now
                then with_entry i (schedule_deferred now) m1
                else flush_deferred i m1))"

definition fire_attention :: "int \<Rightarrow> alert_manager \<Rightarrow> alert_manager" where
  "fire_attention now m =
     (case am_attention_timer m of
        None \<Rightarrow> m
      | Some (d, i) \<Rightarrow>
          if d > now then m
          else
            (let m1 = (if am_attention m = Some i then arm_and_notify i (m\<lparr>am_attention := None\<rparr>) else m)
             in m1\<lparr>am_attention_timer := None\<rparr>))"

definition fire_grace :: "int \<Rightarrow> session_id \<Rightarrow> nat \<Rightarrow> alert_manager \<Rightarrow> alert_manager" where
  "fire_grace now i w m =
     (case find_waiter i w m of
        None \<Rightarrow> m
      | Some x \<Rightarrow>
          if due now (aw_grace x)
          then settle_waiter i w (AwaitResolved CauseIdle (now - aw_started x)) m else m)"

definition fire_timeout :: "int \<Rightarrow> session_id \<Rightarrow> nat \<Rightarrow> alert_manager \<Rightarrow> alert_manager" where
  "fire_timeout now i w m =
     (case find_waiter i w m of
        None \<Rightarrow> m
      | Some x \<Rightarrow>
          if due now (aw_timeout x)
          then settle_waiter i w (AwaitTimeout (now - aw_started x)) m else m)"

section \<open>Events\<close>

datatype alert_event =
    AData session_id | AExit session_id "int option" | AResize session_id
  | ASemantic session_id "semantic_event list"
  | ANotify session_id raw_notification | AProgress session_id progress_update
  | AAttend session_id | AClearAttention "session_id option" | ADismiss session_id
  | AToggleTodo session_id | AMarkTodo session_id | AClearTodo session_id
  | AAwait session_id await_until int | ACancelAwait session_id nat
  | ASeed session_id bool raw_notification | ARemove session_id | ASetHelper session_id bool
  | AWatched "js_text list" | AWatchOne js_text bool | AInactivity int | ADefer bool
  | AFireDetector session_id detector_timer | AFireDeferred session_id | AFireAttention
  | AFireGrace session_id nat | AFireTimeout session_id nat | ADispose

fun alert_step :: "int \<times> alert_event \<Rightarrow> alert_manager \<Rightarrow> alert_manager" where
  "alert_step (now, AData i) m = on_data now i m"
| "alert_step (now, AExit i c) m = on_exit now i c m"
| "alert_step (now, AResize i) m = on_resize now i m"
| "alert_step (now, ASemantic i evs) m = apply_terminal_semantic_events now i evs m"
| "alert_step (now, ANotify i n) m = notify_from_protocol now i n m"
| "alert_step (now, AProgress i p) m = update_protocol_progress now i p m"
| "alert_step (now, AAttend i) m = attend now i m"
| "alert_step (now, AClearAttention i) m = clear_attention i m"
| "alert_step (now, ADismiss i) m = dismiss_alert i m"
| "alert_step (now, AToggleTodo i) m = toggle_todo i m"
| "alert_step (now, AMarkTodo i) m = mark_todo i m"
| "alert_step (now, AClearTodo i) m = clear_todo i m"
| "alert_step (now, AAwait i until ms) m = fst (await_completion now i until ms m)"
| "alert_step (now, ACancelAwait i w) m = cancel_await now i w m"
| "alert_step (now, ASeed i todo n) m = seed i todo n m"
| "alert_step (now, ARemove i) m = remove_session now i m"
| "alert_step (now, ASetHelper i h) m = set_helper i h m"
| "alert_step (now, AWatched names) m = set_watched_commands names m"
| "alert_step (now, AWatchOne name w) m = set_command_watched name w m"
| "alert_step (now, AInactivity ms) m = set_inactivity_timeout_ms now ms m"
| "alert_step (now, ADefer b) m = set_defer_alerts_until_quiet b m"
| "alert_step (now, AFireDetector i k) m = fire_detector now i k m"
| "alert_step (now, AFireDeferred i) m = fire_deferred now i m"
| "alert_step (now, AFireAttention) m = fire_attention now m"
| "alert_step (now, AFireGrace i w) m = fire_grace now i w m"
| "alert_step (now, AFireTimeout i w) m = fire_timeout now i w m"
| "alert_step (now, ADispose) m = dispose now m"

end
