(* ===== verification/Term_Protocol.thy ===== *)
theory Term_Protocol
  imports Term_Controls Term_Values Term_State Alert_Manager
begin

text \<open>
  The parser of terminal output, \<open>lib/src/lib/terminal-protocol.ts\<close>: what it reads out of each OSC,
  how it frames string controls, and the state it keeps between two reads. The clock is the argument
  \<open>now\<close> of a read. What the parser calls outside its file and the development is a field of
  \<open>protocol_env\<close>. An exception of the JavaScript code is a value: \<open>OscThrows\<close> of one OSC,
  \<open>po_threw\<close> of a read.
\<close>

section \<open>Events\<close>

datatype color_target = ColorForeground | ColorBackground | ColorCursor

text \<open>\<open>PeInherited\<close> is a progress event whose value is what a method of \<open>Object.prototype\<close>
  returned; see \<open>osc94_lookup\<close>.\<close>

datatype protocol_event =
    PeNotification activity_notification
  | PeProgress progress_update
  | PeInherited js_text
  | PeResponse js_text
  | PeSemantic semantic_event

datatype osc_result = OscForward | OscEvents "protocol_event list" | OscThrows

record protocol_env =
  pe_lower :: "js_text \<Rightarrow> js_text"
  pe_decode_uri :: "js_text \<Rightarrow> js_text option"
  pe_parse_url :: "js_text \<Rightarrow> parsed_url option"
  pe_color :: "(color_target \<Rightarrow> js_text option) option"

record osc99_pending =
  o9_title :: js_text
  o9_body :: js_text
  o9_updated :: int

type_synonym osc99_map = "(js_text \<times> osc99_pending) list"

definition osc_incomplete_limit :: nat where "osc_incomplete_limit = 16384"
definition osc99_pending_ttl_ms :: int where "osc99_pending_ttl_ms = 60000"
definition osc99_max_pending_ids :: nat where "osc99_max_pending_ids = 64"
definition title_limit :: nat where "title_limit = 256"
definition body_limit :: nat where "body_limit = 4096"
definition command_line_limit :: nat where "command_line_limit = 2048"
definition osc99_pending_title_limit :: nat where "osc99_pending_title_limit = 2048"
definition osc99_pending_body_limit :: nat where "osc99_pending_body_limit = 16384"

definition osc99_support_payload :: js_text where
  "osc99_support_payload = js ''o=always:p=title,body''"

definition osc_consumed_ids :: "js_text list" where
  "osc_consumed_ids =
     map js [''0'', ''2'', ''7'', ''9'', ''10'', ''11'', ''12'', ''50'', ''52'', ''99'', ''133'', ''633'', ''777'']"

definition osc1337_forwarded :: "js_text list" where
  "osc1337_forwarded = map js [''File='', ''MultipartFile='', ''FilePart='', ''FileEnd'', ''ReportCellSize'']"

definition terminal_bell_notification :: activity_notification where
  "terminal_bell_notification =
     \<lparr>an_source = NBel, an_title = Some (js ''Terminal bell''), an_body = None\<rparr>"

definition iterm2_device_attributes_response :: js_text where
  "iterm2_device_attributes_response = 27 # js ''P>|iTerm2 3.5.0'' @ [27, 92]"

section \<open>Framing\<close>

text \<open>\<open>findStringControlEnd\<close> on the text after an introducer: the payload, the terminator, what is
  read next, and whether the string was cancelled. A cancelling \<open>ESC\<close> is read again.\<close>

fun find_string_control_end :: "string_kind \<Rightarrow> js_text \<Rightarrow> (js_text \<times> js_text \<times> js_text \<times> bool) option" where
  "find_string_control_end k [] = None"
| "find_string_control_end k (c # cs) =
     (if string_control_end_scan k c then
        (if c \<noteq> 27 then Some ([], [c], cs, c = 0x18 \<or> c = 0x1A)
         else if cs = [] then None
         else if hd cs = 92 then Some ([], [27, 92], tl cs, False)
         else Some ([], [], c # cs, True))
      else map_option (\<lambda>(payload, e, rest, b). (c # payload, e, rest, b)) (find_string_control_end k cs))"

datatype disposition = Consume | Forward

text \<open>\<open>None\<close>: more of the text may change the answer.\<close>

definition osc1337_disposition :: "js_text \<Rightarrow> disposition option" where
  "osc1337_disposition t =
     (if list_ex (\<lambda>c. starts_with c t) osc1337_forwarded then Some Forward
      else if list_ex (\<lambda>c. length t < length c \<and> starts_with t c) osc1337_forwarded then None
      else Some Consume)"

definition osc_disposition :: "js_text \<Rightarrow> disposition option" where
  "osc_disposition t =
     (let code = takeWhile is_digit t; rest = dropWhile is_digit t
      in if rest = [] then None
         else if code = [] \<or> hd rest \<noteq> 59 then Some Forward
         else if code = js ''1337'' then osc1337_disposition (tl rest)
         else Some (if code \<in> set osc_consumed_ids then Consume else Forward))"

section \<open>Reading an OSC\<close>

definition nth_field :: "js_text list \<Rightarrow> nat \<Rightarrow> js_text option" where
  "nth_field parts i = (if i < length parts then Some (parts ! i) else None)"

definition cwd_event :: "cwd_state option \<Rightarrow> osc_result" where
  "cwd_event c = OscEvents (case c of None \<Rightarrow> [] | Some cwd \<Rightarrow> [PeSemantic (EvCwd cwd)])"

definition notification_event ::
    "notification_source \<Rightarrow> js_text option \<Rightarrow> js_text option \<Rightarrow> protocol_event list" where
  "notification_event src title body =
     (if title = None \<and> body = None then []
      else [PeNotification \<lparr>an_source = src, an_title = title, an_body = body\<rparr>])"

definition parse_osc7 :: "protocol_env \<Rightarrow> int \<Rightarrow> js_text \<Rightarrow> osc_result" where
  "parse_osc7 env now content =
     (if \<not> starts_with (js ''7;'') content then OscEvents []
      else cwd_event (cwd_from_osc7 (pe_lower env) (pe_decode_uri env) (pe_parse_url env) (drop 2 content) now))"

text \<open>
  \<open>OSC94_STATE_TABLE[state]\<close> is looked up in an object literal, so a state that names a member of
  \<open>Object.prototype\<close> finds that member. Called as the code calls it, without a receiver and with
  one text or \<open>null\<close>, \<open>isPrototypeOf\<close> returns \<open>false\<close>, the constructor \<open>Object\<close> and \<open>toString\<close> return
  a value that is not a progress shape, and the others, \<open>__proto__\<close> included, throw a \<open>TypeError\<close>.
\<close>

datatype progress_result = NoProgress | Progress progress_update | InheritedValue | InheritedThrow

definition object_prototype_throws :: "js_text list" where
  "object_prototype_throws =
     map js [''hasOwnProperty'', ''propertyIsEnumerable'', ''valueOf'', ''toLocaleString'', ''__proto__'',
             ''__defineGetter__'', ''__defineSetter__'', ''__lookupGetter__'', ''__lookupSetter__'']"

definition osc94_lookup :: "js_text \<Rightarrow> js_text option \<Rightarrow> progress_result" where
  "osc94_lookup state raw =
     (if state = [] \<or> state = js ''0'' then Progress \<lparr>pu_state = PClear, pu_percent = None\<rparr>
      else if state = js ''1'' then
        (case parse_percent raw of
           None \<Rightarrow> NoProgress | Some v \<Rightarrow> Progress \<lparr>pu_state = PNormal, pu_percent = Some v\<rparr>)
      else if state = js ''2'' then Progress \<lparr>pu_state = PError, pu_percent = parse_percent raw\<rparr>
      else if state = js ''3'' then Progress \<lparr>pu_state = PIndeterminate, pu_percent = None\<rparr>
      else if state = js ''4'' then
        (case parse_percent raw of
           None \<Rightarrow> NoProgress | Some v \<Rightarrow> Progress \<lparr>pu_state = PWarning, pu_percent = Some v\<rparr>)
      else if state \<in> set object_prototype_throws then InheritedThrow
      else if state = js ''constructor'' \<or> state = js ''toString'' then InheritedValue
      else NoProgress)"

definition parse_osc94 :: "js_text \<Rightarrow> progress_result" where
  "parse_osc94 content =
     (let parts = js_split 59 content
      in osc94_lookup (case nth_field parts 2 of None \<Rightarrow> [] | Some s \<Rightarrow> s) (nth_field parts 3))"

definition parse_osc9 :: "int \<Rightarrow> js_text \<Rightarrow> osc_result" where
  "parse_osc9 now content =
     (if \<not> starts_with (js ''9;'') content then OscEvents []
      else if starts_with (js ''9;9;'') content then cwd_event (cwd_from_osc9_9 (drop 4 content) now)
      else if content = js ''9;4'' \<or> starts_with (js ''9;4;'') content then
        (case parse_osc94 content of
           NoProgress \<Rightarrow> OscEvents []
         | Progress p \<Rightarrow> OscEvents [PeProgress p]
         | InheritedValue \<Rightarrow> OscEvents [PeInherited content]
         | InheritedThrow \<Rightarrow> OscThrows)
      else OscEvents (notification_event NOsc9 None (sanitize_text (drop 2 content) body_limit)))"

definition parse_prompt_boundary :: "js_text list \<Rightarrow> command_run_source \<Rightarrow> osc_result" where
  "parse_prompt_boundary parts src =
     (case nth_field parts 1 of
        None \<Rightarrow> OscEvents []
      | Some f \<Rightarrow>
          if f = js ''A'' then OscEvents [PeSemantic EvPromptStart]
          else if f = js ''B'' then OscEvents [PeSemantic EvPromptEnd]
          else if f = js ''C''
          then OscEvents [PeSemantic (EvCommandStart \<lparr>cs_source = Some src, cs_started_at = None\<rparr>)]
          else if f = js ''D''
          then OscEvents [PeSemantic (EvCommandFinish (parse_exit_code (nth_field parts 2)) None)]
          else OscEvents [])"

definition parse_osc133 :: "js_text \<Rightarrow> osc_result" where
  "parse_osc133 content =
     (let parts = js_split 59 content
      in if hd parts \<noteq> js ''133'' then OscEvents [] else parse_prompt_boundary parts Osc133Boundaries)"

definition parse_osc633_property :: "js_text \<Rightarrow> int \<Rightarrow> osc_result" where
  "parse_osc633_property raw now =
     (if \<not> starts_with (js ''Cwd='') raw then OscEvents []
      else cwd_event (cwd_from_decoded_path (drop 4 raw) SrcOsc633 now))"

definition parse_osc633 :: "int \<Rightarrow> js_text \<Rightarrow> osc_result" where
  "parse_osc633 now content =
     (let parts = js_split 59 content
      in if hd parts \<noteq> js ''633'' then OscEvents []
         else if nth_field parts 1 = Some (js ''E'') then
           (if \<not> starts_with (js ''633;E;'') content then OscEvents []
            else let raw = hd (js_split 59 (drop 6 content))
                 in case sanitize_text (decode_osc633_value (truncate_text raw (command_line_limit * 4))) command_line_limit of
                      None \<Rightarrow> OscEvents []
                    | Some line \<Rightarrow> OscEvents [PeSemantic (EvCommandLine line)])
         else if nth_field parts 1 = Some (js ''P'') then parse_osc633_property (drop 6 content) now
         else parse_prompt_boundary parts Osc633Boundaries)"

definition parse_osc1337 :: "int \<Rightarrow> js_text \<Rightarrow> osc_result" where
  "parse_osc1337 now content =
     (if osc_disposition content = Some Forward then OscForward
      else if \<not> starts_with (js ''1337;CurrentDir='') content then OscEvents []
      else cwd_event (cwd_from_decoded_path (drop 16 content) SrcOsc1337 now))"

definition parse_osc_title :: "js_text \<Rightarrow> title_source \<Rightarrow> osc_result" where
  "parse_osc_title content src =
     (if \<not> starts_with (if src = TOsc0 then js ''0;'' else js ''2;'') content then OscEvents []
      else case sanitize_text (drop 2 content) title_limit of
             None \<Rightarrow> OscEvents []
           | Some t \<Rightarrow> OscEvents [PeSemantic (EvTitle \<lparr>tt_title = t, tt_source = src, tt_updated = 0\<rparr>)])"

text \<open>The text before and after the first of a separator; all of it and nothing if it has none.\<close>

definition cut_at :: "nat \<Rightarrow> js_text \<Rightarrow> js_text \<times> js_text" where
  "cut_at sep s = (takeWhile (\<lambda>c. c \<noteq> sep) s, drop 1 (dropWhile (\<lambda>c. c \<noteq> sep) s))"

definition parse_osc777 :: "js_text \<Rightarrow> osc_result" where
  "parse_osc777 content =
     (if \<not> starts_with (js ''777;notify;'') content then OscEvents []
      else let (raw_title, raw_body) = cut_at 59 (drop 11 content)
           in OscEvents (notification_event NOsc777 (sanitize_text raw_title title_limit) (sanitize_text raw_body body_limit)))"

section \<open>OSC 99\<close>

text \<open>The metadata \<open>k=v:k=v\<close>: a key is one letter, and a later value replaces an earlier one.\<close>

definition parse_osc99_metadata :: "js_text \<Rightarrow> (nat \<times> js_text) list" where
  "parse_osc99_metadata raw =
     fold (\<lambda>part m.
       case part of
         k # e # v \<Rightarrow> if is_letter k \<and> e = 61 then AList.update k v m else m
       | _ \<Rightarrow> m) (js_split 58 raw) []"

definition osc99_id :: "js_text option \<Rightarrow> js_text option" where
  "osc99_id v = (case v of None \<Rightarrow> None | Some s \<Rightarrow> if s = [] then None else sanitize_text s title_limit)"

definition normalize_osc99_response_id :: "js_text option \<Rightarrow> js_text option" where
  "normalize_osc99_response_id v =
     (case v of
        None \<Rightarrow> None
      | Some s \<Rightarrow>
          if s = [] \<or> length s > title_limit then None
          else if list_all (\<lambda>c. \<not> is_ws c \<and> c \<noteq> 58 \<and> c \<noteq> 59 \<and> \<not> is_control c) s then Some s else None)"

definition format_osc99_support_response :: "js_text option \<Rightarrow> js_text" where
  "format_osc99_support_response raw =
     (let metadata = (case normalize_osc99_response_id raw of
                        Some i \<Rightarrow> js ''i='' @ i @ js '':p=?'' | None \<Rightarrow> js ''p=?'')
      in [27, 93] @ js ''99;'' @ metadata @ [59] @ osc99_support_payload @ [27, 92])"

definition expire_osc99_pending :: "int \<Rightarrow> osc99_map \<Rightarrow> osc99_map" where
  "expire_osc99_pending now m = filter (\<lambda>(i, p). \<not> o9_updated p < now - osc99_pending_ttl_ms) m"

definition enforce_osc99_pending_cap :: "osc99_map \<Rightarrow> osc99_map" where
  "enforce_osc99_pending_cap m = drop (length m - osc99_max_pending_ids) m"

definition osc99_target :: "js_text option \<Rightarrow> int \<Rightarrow> osc99_map \<Rightarrow> osc99_map \<times> osc99_pending" where
  "osc99_target i now m =
     (let new = \<lparr>o9_title = [], o9_body = [], o9_updated = now\<rparr>
      in case i of
           None \<Rightarrow> (m, new)
         | Some k \<Rightarrow>
             (case map_of m k of
                Some p \<Rightarrow> (m, p)
              | None \<Rightarrow> (enforce_osc99_pending_cap (m @ [(k, new)]), new)))"

text \<open>A payload of any other type only renews the entry it belongs to.\<close>

definition osc99_extend :: "js_text \<Rightarrow> js_text \<Rightarrow> int \<Rightarrow> osc99_pending \<Rightarrow> osc99_pending" where
  "osc99_extend payload_type payload now p =
     (if payload_type = js ''title''
      then p\<lparr>o9_title := append_limited (o9_title p) payload osc99_pending_title_limit\<rparr>
      else if payload_type = js ''body''
      then p\<lparr>o9_body := append_limited (o9_body p) payload osc99_pending_body_limit\<rparr>
      else p)\<lparr>o9_updated := now\<rparr>"

text \<open>The entry is shared with the map, so the map sees its update before it is deleted.\<close>

definition osc99_chunk ::
    "js_text option \<Rightarrow> bool \<Rightarrow> js_text \<Rightarrow> js_text \<Rightarrow> int \<Rightarrow> osc99_map \<Rightarrow> osc99_map \<times> osc_result" where
  "osc99_chunk i finished payload_type payload now m0 =
     (let (m1, p) = osc99_target i now m0;
          target = osc99_extend payload_type payload now p;
          m2 = (case i of None \<Rightarrow> m1 | Some k \<Rightarrow> AList.update k target m1)
      in if \<not> finished then (m2, OscEvents [])
         else (case i of None \<Rightarrow> m2 | Some k \<Rightarrow> AList.delete k m2,
               OscEvents (notification_event NOsc99 (sanitize_text (o9_title target) title_limit)
                            (sanitize_text (o9_body target) body_limit))))"

definition parse_osc99 :: "int \<Rightarrow> osc99_map \<Rightarrow> js_text \<Rightarrow> osc99_map \<times> osc_result" where
  "parse_osc99 now m content =
     (let m0 = expire_osc99_pending now m
      in if \<not> starts_with (js ''99;'') content then (m0, OscEvents [])
         else
           (let (raw_metadata, raw_payload) = cut_at 59 (drop 3 content);
                metadata = map_of (parse_osc99_metadata raw_metadata);
                payload_type = (case metadata (ch CHR ''p'') of None \<Rightarrow> js ''title'' | Some t \<Rightarrow> t);
                encoding = (case metadata (ch CHR ''e'') of None \<Rightarrow> js ''0'' | Some e \<Rightarrow> e);
                decoded = (if encoding = js ''1'' then decode_base64 raw_payload
                           else if encoding = js ''0'' then Some raw_payload else None)
            in if payload_type = js ''?''
               then (m0, OscEvents [PeResponse (format_osc99_support_response (metadata (ch CHR ''i'')))])
               else if payload_type = js ''close'' \<or> payload_type = js ''alive'' then (m0, OscEvents [])
               else case decoded of
                      None \<Rightarrow> (m0, OscEvents [])
                    | Some payload \<Rightarrow>
                        osc99_chunk (osc99_id (metadata (ch CHR ''i''))) (metadata (ch CHR ''d'') \<noteq> Some (js ''0''))
                          payload_type payload now m0))"

section \<open>Dispatch\<close>

definition format_osc_color_response :: "js_text \<Rightarrow> js_text option \<Rightarrow> js_text option" where
  "format_osc_color_response code color =
     (case (if truthy color then parse_color (the color) else None) of
        None \<Rightarrow> None
      | Some rgb \<Rightarrow>
          let channel = (\<lambda>v. hex_channel v @ hex_channel v)
          in Some ([27, 93] @ code @ js '';rgb:'' @ channel (rgba_r rgb) @ [47] @ channel (rgba_g rgb) @ [47]
                   @ channel (rgba_b rgb) @ [27, 92]))"

definition parse_color_query :: "protocol_env \<Rightarrow> js_text \<Rightarrow> osc_result" where
  "parse_color_query env content =
     (let code = take 2 content;
          target = (if code = js ''10'' then ColorForeground else if code = js ''11'' then ColorBackground else ColorCursor)
      in if content \<notin> set (map js [''10;?'', ''11;?'', ''12;?'']) then OscForward
         else case pe_color env of
                None \<Rightarrow> OscForward
              | Some provider \<Rightarrow>
                  (case format_osc_color_response code (provider target) of
                     None \<Rightarrow> OscForward | Some data \<Rightarrow> OscEvents [PeResponse data]))"

definition has_code :: "string \<Rightarrow> js_text \<Rightarrow> bool" where
  "has_code code content \<longleftrightarrow> content = js code \<or> starts_with (js code @ [59]) content"

definition is_known_unsupported_iterm2_osc :: "js_text \<Rightarrow> bool" where
  "is_known_unsupported_iterm2_osc content \<longleftrightarrow> has_code ''50'' content \<or> has_code ''52'' content"

definition parse_osc :: "protocol_env \<Rightarrow> int \<Rightarrow> osc99_map \<Rightarrow> js_text \<Rightarrow> osc99_map \<times> osc_result" where
  "parse_osc env now m content =
     (if has_code ''7'' content then (m, parse_osc7 env now content)
      else if has_code ''9'' content then (m, parse_osc9 now content)
      else if has_code ''133'' content then (m, parse_osc133 content)
      else if has_code ''633'' content then (m, parse_osc633 now content)
      else if has_code ''1337'' content then (m, parse_osc1337 now content)
      else if has_code ''0'' content then (m, parse_osc_title content TOsc0)
      else if has_code ''2'' content then (m, parse_osc_title content TOsc2)
      else if has_code ''99'' content then parse_osc99 now m content
      else if has_code ''777'' content then (m, parse_osc777 content)
      else (m, case parse_color_query env content of
                 OscForward \<Rightarrow> if is_known_unsupported_iterm2_osc content then OscEvents [] else OscForward
               | r \<Rightarrow> r))"

end
