(* ===== verification/Term_Parser.thy ===== *)
theory Term_Parser
  imports Term_Protocol
begin

text \<open>
  \<open>TerminalProtocolParser\<close> of \<open>lib/src/lib/terminal-protocol.ts\<close>: its state between two reads and
  \<open>process\<close>. \<open>scan\<close> is the loop of \<open>process\<close>, on the text that is still to be read. When the code
  throws, the state keeps what was assigned before, and the read delivers nothing.
\<close>

section \<open>State and output\<close>

record parser =
  pp_pending :: js_text
  pp_forwarding :: "(string_kind \<times> js_text) option"
  pp_discarding :: "js_text option"
  pp_osc99 :: osc99_map

definition initial_parser :: parser where
  "initial_parser = \<lparr>pp_pending = [], pp_forwarding = None, pp_discarding = None, pp_osc99 = []\<rparr>"

text \<open>\<open>po_resumed\<close> is \<open>resumedStringEnd\<close>, \<open>None\<close> for \<open>null\<close>.\<close>

record parse_output =
  po_visible :: js_text
  po_text :: js_text
  po_events :: "protocol_event list"
  po_resumed :: "nat option"
  po_threw :: bool

definition no_output :: parse_output where
  "no_output = \<lparr>po_visible = [], po_text = [], po_events = [], po_resumed = Some 0, po_threw = False\<rparr>"

definition thrown_output :: parse_output where
  "thrown_output = no_output\<lparr>po_threw := True\<rparr>"

section \<open>Ground text\<close>

definition is_bell_event :: "protocol_event \<Rightarrow> bool" where
  "is_bell_event e = (case e of PeNotification n \<Rightarrow> an_source n = NBel | _ \<Rightarrow> False)"

definition is_richer_event :: "protocol_event \<Rightarrow> bool" where
  "is_richer_event e =
     (case e of PeNotification n \<Rightarrow> an_source n \<noteq> NBel | PeProgress _ \<Rightarrow> True | PeInherited _ \<Rightarrow> True | _ \<Rightarrow> False)"

text \<open>\<open>stripStandaloneBells\<close>: one event however many bells a segment has.\<close>

definition strip_bells :: "js_text \<Rightarrow> js_text" where
  "strip_bells segment = filter (\<lambda>c. c \<noteq> 7) segment"

definition bell_events :: "js_text \<Rightarrow> protocol_event list" where
  "bell_events segment = (if 7 \<in> set segment then [PeNotification terminal_bell_notification] else [])"

text \<open>\<open>filterTerminalBellEvents\<close>: no bell beside a richer event, and at most one.\<close>

fun keep_first_bell :: "protocol_event list \<Rightarrow> protocol_event list" where
  "keep_first_bell [] = []"
| "keep_first_bell (e # es) =
     (if is_bell_event e then e # filter (\<lambda>x. \<not> is_bell_event x) es else e # keep_first_bell es)"

definition filter_bell_events :: "protocol_event list \<Rightarrow> protocol_event list" where
  "filter_bell_events es =
     (if list_ex is_richer_event es then filter (\<lambda>x. \<not> is_bell_event x) es else keep_first_bell es)"

text \<open>\<open>answerDeviceAttributeQueries\<close>: the text without the queries, and their number.\<close>

fun remove_queries :: "js_text \<Rightarrow> js_text \<times> nat" where
  "remove_queries [] = ([], 0)"
| "remove_queries (c # cs) =
     (if starts_with [27, 91, 62, 113] (c # cs) then apsnd Suc (remove_queries (drop 3 cs))
      else if starts_with [0x9B, 62, 113] (c # cs) then apsnd Suc (remove_queries (drop 2 cs))
      else apfst (Cons c) (remove_queries cs))"

definition query_answers :: "js_text \<Rightarrow> protocol_event list" where
  "query_answers ground = replicate (snd (remove_queries ground)) (PeResponse iterm2_device_attributes_response)"

definition device_attribute_pending_suffixes :: "js_text list" where
  "device_attribute_pending_suffixes = [[27, 91, 62], [27, 91], [27], [0x9B, 62], [0x9B]]"

definition take_pending_suffix :: "js_text \<Rightarrow> js_text" where
  "take_pending_suffix s =
     (case find (\<lambda>p. ends_with p s) device_attribute_pending_suffixes of None \<Rightarrow> [] | Some p \<Rightarrow> p)"

section \<open>String controls\<close>

definition trailing_escape :: "js_text \<Rightarrow> js_text" where
  "trailing_escape s = (if ends_with [27] s then [27] else [])"

definition without_escape :: "js_text \<Rightarrow> js_text" where
  "without_escape s = (if ends_with [27] s then butlast s else s)"

text \<open>A string control the text ends in: what the parser becomes and what it emits.\<close>

definition open_string :: "osc99_map \<Rightarrow> js_text \<Rightarrow> js_text \<Rightarrow> parser \<times> js_text" where
  "open_string m intro rest =
     (let kind = string_control_kind intro;
          incomplete = intro @ rest;
          ground = initial_parser\<lparr>pp_osc99 := m\<rparr>
      in if kind \<noteq> KindOsc \<or> osc_disposition rest = Some Forward
         then (ground\<lparr>pp_forwarding := Some (kind, trailing_escape incomplete)\<rparr>, without_escape incomplete)
         else if length incomplete \<le> osc_incomplete_limit then (ground\<lparr>pp_pending := incomplete\<rparr>, [])
         else (ground\<lparr>pp_discarding := Some (trailing_escape incomplete)\<rparr>, []))"

text \<open>A string control that has ended: what is visible of it and its events, \<open>None\<close> for a throw.\<close>

definition close_string ::
    "protocol_env \<Rightarrow> int \<Rightarrow> osc99_map \<Rightarrow> js_text \<Rightarrow> js_text \<Rightarrow> js_text \<Rightarrow> js_text \<Rightarrow> bool \<Rightarrow>
     osc99_map \<times> (js_text \<times> protocol_event list) option" where
  "close_string env now m intro rest payload e cancelled =
     (let sequence = intro @ payload @ e
      in if string_control_kind intro \<noteq> KindOsc then (m, Some (sequence, []))
         else if cancelled then (m, Some (if osc_disposition rest = Some Forward then sequence else [], []))
         else case parse_osc env now m payload of
                (m', OscForward) \<Rightarrow> (m', Some (sequence, []))
              | (m', OscEvents es) \<Rightarrow> (m', Some ([], es))
              | (m', OscThrows) \<Rightarrow> (m', None))"

definition prepend_output :: "js_text \<Rightarrow> js_text \<Rightarrow> protocol_event list \<Rightarrow> parser \<times> parse_output \<Rightarrow> parser \<times> parse_output" where
  "prepend_output v t es r =
     (fst r, (snd r)\<lparr>po_visible := v @ po_visible (snd r), po_text := t @ po_text (snd r), po_events := es @ po_events (snd r)\<rparr>)"

lemma find_string_control_end_shorter:
  "find_string_control_end k s = Some (p, e, r, b) \<Longrightarrow> length r \<le> length s"
  by (induction s arbitrary: p) (auto split: if_splits)

section \<open>Reading\<close>

function scan :: "protocol_env \<Rightarrow> int \<Rightarrow> osc99_map \<Rightarrow> js_text \<Rightarrow> parser \<times> parse_output" where
  "scan env now m input =
     (if input = [] then (initial_parser\<lparr>pp_osc99 := m\<rparr>, no_output)
      else case find_introducer input of
        None \<Rightarrow>
          (let tail = strip_bells input;
               pending = take_pending_suffix tail;
               ground = take (length tail - length pending) tail
           in (initial_parser\<lparr>pp_osc99 := m, pp_pending := pending\<rparr>,
               no_output\<lparr>po_visible := fst (remove_queries ground), po_text := fst (remove_queries ground),
                         po_events := bell_events input @ query_answers ground\<rparr>))
      | Some (before, intro, rest) \<Rightarrow>
          (let gap = fst (remove_queries (strip_bells before))
           in prepend_output gap gap (bell_events before @ query_answers (strip_bells before))
             (case find_string_control_end (string_control_kind intro) rest of
                None \<Rightarrow> (let (p, v) = open_string m intro rest in (p, no_output\<lparr>po_visible := v\<rparr>))
              | Some (payload, e, rest', cancelled) \<Rightarrow>
                  (case close_string env now m intro rest payload e cancelled of
                     (m', None) \<Rightarrow> (initial_parser\<lparr>pp_osc99 := m'\<rparr>, thrown_output)
                   | (m', Some (v, es)) \<Rightarrow> prepend_output v [] es (scan env now m' rest')))))"
  by pat_completeness auto
termination
  by (relation "measure (\<lambda>(env, now, m, input). length input)")
     (auto dest!: find_introducer_shorter find_string_control_end_shorter)

declare scan.simps [simp del]

definition needs_parse :: "js_text \<Rightarrow> bool" where
  "needs_parse s = list_ex (\<lambda>c. c = 7 \<or> c = 27 \<or> c = 0x9B \<or> is_c1_introducer c) s"

definition process_ground :: "protocol_env \<Rightarrow> int \<Rightarrow> parser \<Rightarrow> js_text \<Rightarrow> parser \<times> parse_output" where
  "process_ground env now p data =
     (if pp_pending p = [] \<and> \<not> needs_parse data then (p, no_output\<lparr>po_visible := data, po_text := data\<rparr>)
      else let (q, out) = scan env now (pp_osc99 p) (pp_pending p @ data)
           in (q, if po_threw out then thrown_output else out\<lparr>po_events := filter_bell_events (po_events out)\<rparr>))"

text \<open>\<open>processForwarded\<close>: the rest of the data is read with nothing being forwarded.\<close>

definition process_forwarded ::
    "protocol_env \<Rightarrow> int \<Rightarrow> parser \<Rightarrow> string_kind \<Rightarrow> js_text \<Rightarrow> js_text \<Rightarrow> parser \<times> parse_output" where
  "process_forwarded env now p kind held data =
     (let input = held @ data
      in case find_string_control_end kind input of
           None \<Rightarrow> (p\<lparr>pp_forwarding := Some (kind, trailing_escape input)\<rparr>,
                    no_output\<lparr>po_visible := without_escape input, po_resumed := None\<rparr>)
         | Some (payload, e, rest, cancelled) \<Rightarrow>
             (let (q, out) = process_ground env now (p\<lparr>pp_forwarding := None\<rparr>) rest
              in (q, if po_threw out then thrown_output
                     else out\<lparr>po_visible := payload @ e @ po_visible out,
                              po_resumed := Some (length (payload @ e))\<rparr>)))"

definition process_kept :: "protocol_env \<Rightarrow> int \<Rightarrow> parser \<Rightarrow> js_text \<Rightarrow> parser \<times> parse_output" where
  "process_kept env now p data =
     (case pp_forwarding p of
        Some (kind, held) \<Rightarrow> process_forwarded env now p kind held data
      | None \<Rightarrow> process_ground env now p data)"

text \<open>\<open>process\<close>: the end of an oversized OSC comes first.\<close>

definition process :: "protocol_env \<Rightarrow> int \<Rightarrow> parser \<Rightarrow> js_text \<Rightarrow> parser \<times> parse_output" where
  "process env now p data =
     (case pp_discarding p of
        None \<Rightarrow> process_kept env now p data
      | Some held \<Rightarrow>
          (let input = held @ data
           in case find_string_control_end KindOsc input of
                None \<Rightarrow> (p\<lparr>pp_discarding := Some (trailing_escape input)\<rparr>, no_output)
              | Some (payload, e, rest, cancelled) \<Rightarrow> process_kept env now (p\<lparr>pp_discarding := None\<rparr>) rest))"

section \<open>What the callers take from a read\<close>

definition text_projection_of :: "js_text \<Rightarrow> js_text \<Rightarrow> js_text option" where
  "text_projection_of visible t = (if t = visible then None else Some t)"

definition collect_protocol_alerts :: "protocol_event list \<Rightarrow> protocol_event list" where
  "collect_protocol_alerts es =
     filter (\<lambda>e. case e of PeNotification _ \<Rightarrow> True | PeProgress _ \<Rightarrow> True | PeInherited _ \<Rightarrow> True | _ \<Rightarrow> False) es"

definition collect_protocol_responses :: "protocol_event list \<Rightarrow> js_text list" where
  "collect_protocol_responses es = concat (map (\<lambda>e. case e of PeResponse d \<Rightarrow> [d] | _ \<Rightarrow> []) es)"

text \<open>Reading a stream in pieces, with one clock reading each: every output in order.\<close>

fun process_pieces :: "protocol_env \<Rightarrow> parser \<Rightarrow> (int \<times> js_text) list \<Rightarrow> parser \<times> parse_output list" where
  "process_pieces env p [] = (p, [])"
| "process_pieces env p ((now, data) # ps) =
     (let (q, out) = process env now p data in apsnd (Cons out) (process_pieces env q ps))"

end
