(* ===== verification/Term_Parser_Facts.thy ===== *)
theory Term_Parser_Facts
  imports Term_Parser
begin

text \<open>
  How reads of terminal output compose: scanning a text in one read, and scanning it in two, the
  second continuing from the state the first left. The two agree but for the bells, which the
  parser reports once a read, unless the split is one of those \<open>split_safe\<close> excludes.
\<close>

section \<open>Scanners and appended text\<close>

lemma ends_with_unit: "ends_with [c] s \<longleftrightarrow> s \<noteq> [] \<and> last s = c"
  by (cases s rule: rev_cases) (auto simp: ends_with_def)

lemma find_introducer_split: "find_introducer s = Some (g, i, r) \<Longrightarrow> s = g @ i @ r"
  by (induction s arbitrary: g) (auto split: if_splits simp: neq_Nil_conv)

lemma find_introducer_append:
  "find_introducer s = Some (g, i, r) \<Longrightarrow> find_introducer (s @ y) = Some (g, i, r @ y)"
proof (induction s arbitrary: g)
  case (Cons c s)
  then show ?case by (cases s) (auto split: if_splits)
qed simp

lemma find_introducer_head:
  "find_introducer s = Some (g, i, r) \<Longrightarrow> find_introducer (i @ t) = Some ([], i, t)"
  by (induction s arbitrary: g) (auto split: if_splits simp: neq_Nil_conv)

lemma find_introducer_Cons:
  "\<not> is_c1_introducer c \<Longrightarrow> c \<noteq> 27 \<or> s = [] \<or> \<not> opens_string (hd s) \<Longrightarrow>
   find_introducer (c # s) = map_option (\<lambda>(g, i, r). (c # g, i, r)) (find_introducer s)"
  by auto

lemma find_introducer_skip:
  "find_introducer s = None \<Longrightarrow> \<not> ends_with [27] s \<or> t = [] \<or> \<not> opens_string (hd t) \<Longrightarrow>
   find_introducer (s @ t) = map_option (\<lambda>(g, i, r). (s @ g, i, r)) (find_introducer t)"
proof (induction s)
  case (Cons c s)
  have c: "\<not> is_c1_introducer c" and s: "find_introducer s = None"
    and n: "c \<noteq> 27 \<or> s = [] \<or> \<not> opens_string (hd s)"
    using Cons.prems(1) by (auto split: if_splits)
  have n': "c \<noteq> 27 \<or> s @ t = [] \<or> \<not> opens_string (hd (s @ t))"
    using n Cons.prems(2) by (cases s) (auto simp: ends_with_unit)
  have "\<not> ends_with [27] s \<or> t = [] \<or> \<not> opens_string (hd t)"
    using Cons.prems(2) by (auto simp: ends_with_unit)
  then have "find_introducer (s @ t) = map_option (\<lambda>(g, i, r). (s @ g, i, r)) (find_introducer t)"
    using Cons.IH [OF s] by blast
  then show ?case
    using find_introducer_Cons [OF c n'] by (simp add: option.map_comp comp_def split_beta)
qed (simp add: map_option_idI split_beta)

lemma find_end_split: "find_string_control_end k s = Some (p, e, r, b) \<Longrightarrow> s = p @ e @ r"
  by (induction s arbitrary: p) (auto split: if_splits simp: neq_Nil_conv)

lemma find_end_append:
  "find_string_control_end k s = Some (p, e, r, b) \<Longrightarrow>
   find_string_control_end k (s @ y) = Some (p, e, r @ y, b)"
proof (induction s arbitrary: p)
  case (Cons c s)
  then show ?case by (cases s) (auto split: if_splits)
qed simp

lemma escape_parts: "without_escape s @ trailing_escape s = s"
  by (cases s rule: rev_cases) (auto simp: without_escape_def trailing_escape_def ends_with_unit)

lemma find_end_open:
  "find_string_control_end k s = None \<Longrightarrow>
   find_string_control_end k (s @ y) =
     map_option (\<lambda>(p, e, r, b). (without_escape s @ p, e, r, b)) (find_string_control_end k (trailing_escape s @ y))"
proof (induction s)
  case (Cons c s)
  show ?case
  proof (cases "string_control_end_scan k c")
    case True
    then have "c = 27" "s = []" using Cons.prems by (auto split: if_splits)
    then show ?thesis by (simp add: without_escape_def trailing_escape_def ends_with_unit map_option_idI split_beta)
  next
    case False
    then have "c \<noteq> 27" by (auto simp: string_control_end_scan_def)
    then have "without_escape (c # s) = c # without_escape s" "trailing_escape (c # s) = trailing_escape s"
      by (auto simp: without_escape_def trailing_escape_def ends_with_unit)
    then show ?thesis using Cons False by (auto simp: option.map_comp comp_def split_beta split: if_splits)
  qed
qed (simp add: without_escape_def trailing_escape_def ends_with_unit map_option_idI split_beta)

lemma find_end_None_units:
  "find_string_control_end k s = None \<Longrightarrow> list_all (\<lambda>c. \<not> string_control_end_scan k c) (without_escape s)"
proof (induction s)
  case (Cons c s)
  then show ?case by (cases "s = []") (auto simp: without_escape_def ends_with_unit split: if_splits)
qed (simp add: without_escape_def)

lemma find_end_Some_units:
  "find_string_control_end k s = Some (p, e, r, b) \<Longrightarrow> list_all (\<lambda>c. \<not> string_control_end_scan k c) p"
  by (induction s arbitrary: p) (auto split: if_splits)

lemma find_end_next:
  "find_string_control_end k s = Some (p, e, r, b) \<Longrightarrow>
   \<exists>c t. e @ r = c # t \<and> string_control_end_scan k c"
  by (induction s arbitrary: p) (auto split: if_splits simp: neq_Nil_conv)

section \<open>Routing by the identifier\<close>

lemma starts_with_append: "starts_with p s \<Longrightarrow> starts_with p (s @ y)"
  unfolding starts_with_def by (metis append_take_drop_id append_assoc append_eq_conv_conj)

lemma starts_with_cut:
  assumes "starts_with p (u @ y)" and "\<not> starts_with p u"
  shows "set u \<subseteq> set p" and "y \<noteq> []" and "hd y \<in> set p"
proof -
  have len: "length u < length p"
  proof (rule ccontr)
    assume "\<not> length u < length p"
    then have "take (length p) (u @ y) = take (length p) u" by simp
    then show False using assms unfolding starts_with_def by metis
  qed
  then have p: "p = u @ take (length p - length u) y" using assms(1) by (simp add: starts_with_def)
  then show "set u \<subseteq> set p" by (metis set_append Un_upper1)
  obtain k where k: "length p - length u = Suc k" using len by (metis Suc_diff_Suc)
  show ne: "y \<noteq> []" using p k len by (cases y) auto
  then have "hd y \<in> set (take (length p - length u) y)" using k by (cases y) auto
  then show "hd y \<in> set p" using p by (metis UnCI set_append)
qed

lemma forwarded_units: "list_all (list_all (\<lambda>c. 61 \<le> c \<and> c \<le> 122)) osc1337_forwarded"
  by (simp add: osc1337_forwarded_def js_def)

lemma digits_split: obtains "list_all is_digit t"
  | ds c r where "t = ds @ c # r" "list_all is_digit ds" "\<not> is_digit c"
proof (cases "dropWhile is_digit t")
  case Nil
  then have "list_all is_digit t" by (simp add: dropWhile_eq_Nil_conv list_all_iff)
  then show thesis by (rule that(1))
next
  case (Cons c r)
  then have "t = takeWhile is_digit t @ c # r" by (metis takeWhile_dropWhile_id)
  moreover have "\<not> is_digit c" using Cons by (simp add: dropWhile_eq_Cons_conv)
  moreover have "list_all is_digit (takeWhile is_digit t)" by (auto simp: list_all_iff dest: set_takeWhileD)
  ultimately show thesis using that(2) by blast
qed

lemma disposition_digits: "list_all is_digit t \<Longrightarrow> osc_disposition t = None"
  by (simp add: osc_disposition_def Let_def dropWhile_eq_Nil_conv list_all_iff)

lemma disposition_parts:
  assumes "list_all is_digit ds" and "\<not> is_digit c"
  shows "osc_disposition (ds @ c # r) =
    (if ds = [] \<or> c \<noteq> 59 then Some Forward
     else if ds = js ''1337'' then osc1337_disposition r
     else Some (if ds \<in> set osc_consumed_ids then Consume else Forward))"
proof -
  have "takeWhile is_digit (ds @ c # r) = ds" "dropWhile is_digit (ds @ c # r) = c # r"
    using assms by (simp_all add: list_all_iff)
  then show ?thesis by (simp add: osc_disposition_def)
qed

lemma disposition1337_forward: "osc1337_disposition t = Some Forward \<longleftrightarrow> list_ex (\<lambda>c. starts_with c t) osc1337_forwarded"
  by (simp add: osc1337_disposition_def)

lemma disposition1337_append:
  "osc1337_disposition t = Some Forward \<Longrightarrow> osc1337_disposition (t @ y) = Some Forward"
  unfolding disposition1337_forward by (auto simp: list_ex_iff intro: starts_with_append)

lemma disposition_forward_append:
  assumes "osc_disposition t = Some Forward"
  shows "osc_disposition (t @ y) = Some Forward"
proof (cases t rule: digits_split)
  case 1
  then show ?thesis using assms by (simp add: disposition_digits)
next
  case (2 ds c r)
  have "osc_disposition (ds @ c # r @ y) = Some Forward"
    using assms 2 disposition1337_append by (auto simp: disposition_parts split: if_splits)
  then show ?thesis using 2(1) by simp
qed

text \<open>A unit that ends a string decides: nothing behind it changes the routing.\<close>

lemma disposition1337_cut:
  assumes "osc1337_disposition (t @ y) = Some Forward" and "(\<exists>c \<in> set t. c < 61 \<or> 122 < c) \<or> y \<noteq> [] \<and> (hd y < 61 \<or> 122 < hd y)"
  shows "osc1337_disposition t = Some Forward"
proof -
  obtain p where p: "p \<in> set osc1337_forwarded" "starts_with p (t @ y)"
    using assms(1) by (auto simp: disposition1337_forward list_ex_iff)
  have units: "\<forall>c \<in> set p. 61 \<le> c \<and> c \<le> 122" using p(1) forwarded_units by (auto simp: list_all_iff)
  have "starts_with p t"
  proof (rule ccontr)
    assume n: "\<not> starts_with p t"
    show False using starts_with_cut [OF p(2) n] units assms(2) by fastforce
  qed
  then show ?thesis using p(1) by (auto simp: disposition1337_forward list_ex_iff)
qed

lemma end_unit_odd: "string_control_end_scan k c \<Longrightarrow> (c < 61 \<or> 122 < c) \<and> \<not> is_digit c \<and> c \<noteq> 59"
  by (auto simp: string_control_end_scan_def is_digit_def)

lemma disposition_cut:
  assumes "string_control_end_scan k c"
  shows "osc_disposition (u @ c # y) = Some Forward \<longleftrightarrow> osc_disposition (u @ [c]) = Some Forward"
proof
  assume "osc_disposition (u @ [c]) = Some Forward"
  then show "osc_disposition (u @ c # y) = Some Forward" using disposition_forward_append [of "u @ [c]" y] by simp
next
  assume f: "osc_disposition (u @ c # y) = Some Forward"
  note odd = end_unit_odd [OF assms]
  show "osc_disposition (u @ [c]) = Some Forward"
  proof (cases u rule: digits_split)
    case 1
    then show ?thesis using odd by (simp add: disposition_parts)
  next
    case (2 ds d r)
    have g: "osc_disposition (ds @ d # r @ c # y) = Some Forward" using f 2(1) by simp
    have "osc1337_disposition ((r @ [c]) @ y) = Some Forward \<Longrightarrow> osc1337_disposition (r @ [c]) = Some Forward"
      by (rule disposition1337_cut) (use odd in auto)
    then have "osc_disposition (ds @ d # r @ [c]) = Some Forward"
      using g 2(2,3) by (auto simp: disposition_parts split: if_splits)
    then show ?thesis using 2(1) by simp
  qed
qed

text \<open>What is routed to the renderer before its end arrives is not read when the end has arrived,
  unless all there was to decide on was an \<open>ESC\<close> behind the digits.\<close>

lemma disposition_payload:
  assumes f: "osc_disposition t = Some Forward" and n: "\<And>ds. list_all is_digit ds \<Longrightarrow> t \<noteq> ds @ [27]"
  shows "osc_disposition (without_escape t @ z) = Some Forward"
proof (rule disposition_forward_append, cases "ends_with [27] t")
  case True
  then obtain u where t: "t = u @ [27]" by (metis ends_with_unit append_butlast_last_id)
  have "osc_disposition u = Some Forward"
  proof (cases u rule: digits_split)
    case 1
    then show ?thesis using n t by blast
  next
    case (2 ds c r)
    have g: "osc_disposition (ds @ c # r @ [27]) = Some Forward" using f t 2(1) by simp
    have "osc1337_disposition (r @ [27]) = Some Forward \<Longrightarrow> osc1337_disposition r = Some Forward"
      by (rule disposition1337_cut) auto
    then show ?thesis using g 2 by (auto simp: disposition_parts split: if_splits)
  qed
  then show "osc_disposition (without_escape t) = Some Forward" by (simp add: without_escape_def t ends_with_unit)
qed (simp add: without_escape_def f)

section \<open>Forwarded sequences are not read\<close>

lemma has_code_not_forwarded:
  assumes "js code \<in> set osc_consumed_ids" and "has_code code content"
  shows "osc_disposition content \<noteq> Some Forward"
proof -
  have digits: "list_all is_digit (js code)" "js code \<noteq> []" "js code \<noteq> js ''1337''"
    using assms(1) by (auto simp: osc_consumed_ids_def js_def is_digit_def)
  have semi: "\<not> is_digit 59" by (simp add: is_digit_def)
  from assms(2) consider "content = js code" | r where "content = js code @ 59 # r"
    unfolding has_code_def starts_with_def by (metis append_Cons append_Nil append_assoc append_take_drop_id)
  then show ?thesis
  proof cases
    case 1
    then show ?thesis using digits by (simp add: disposition_digits)
  next
    case 2
    then show ?thesis using assms(1) digits disposition_parts [OF digits(1) semi] by simp
  qed
qed

lemma consumed_codes:
  "js ''7'' \<in> set osc_consumed_ids" "js ''9'' \<in> set osc_consumed_ids" "js ''133'' \<in> set osc_consumed_ids"
  "js ''633'' \<in> set osc_consumed_ids" "js ''0'' \<in> set osc_consumed_ids" "js ''2'' \<in> set osc_consumed_ids"
  "js ''99'' \<in> set osc_consumed_ids" "js ''777'' \<in> set osc_consumed_ids" "js ''50'' \<in> set osc_consumed_ids"
  "js ''52'' \<in> set osc_consumed_ids" "js ''10'' \<in> set osc_consumed_ids" "js ''11'' \<in> set osc_consumed_ids"
  "js ''12'' \<in> set osc_consumed_ids"
  by (simp_all add: osc_consumed_ids_def)

lemma color_query_codes:
  "content \<in> set (map js [''10;?'', ''11;?'', ''12;?'']) \<Longrightarrow>
   has_code ''10'' content \<or> has_code ''11'' content \<or> has_code ''12'' content"
  by (auto simp: has_code_def starts_with_def js_def)

lemma forward_not_parsed:
  assumes "osc_disposition content = Some Forward"
  shows "parse_osc env now m content = (m, OscForward)"
proof -
  have n: "\<not> has_code code content" if "js code \<in> set osc_consumed_ids" for code
    using has_code_not_forwarded [OF that] assms by blast
  have "content \<notin> set (map js [''10;?'', ''11;?'', ''12;?''])" using color_query_codes n consumed_codes(11-13) by blast
  then have "parse_color_query env content = OscForward" by (simp add: parse_color_query_def Let_def)
  then show ?thesis using assms n consumed_codes
    by (simp add: parse_osc_def parse_osc1337_def is_known_unsupported_iterm2_osc_def)
qed

section \<open>Ground text\<close>

lemma strip_bells_append [simp]: "strip_bells (x @ y) = strip_bells x @ strip_bells y"
  by (simp add: strip_bells_def)

lemma ends_with_iff: "ends_with p s \<longleftrightarrow> (\<exists>r. s = r @ p)"
proof
  show "ends_with p s \<Longrightarrow> \<exists>r. s = r @ p" unfolding ends_with_def by (metis append_take_drop_id)
qed (auto simp: ends_with_def)

lemma find_found: "find P xs = Some x \<Longrightarrow> x \<in> set xs \<and> P x"
  by (auto simp: find_Some_iff)

lemma pending_suffix_cases:
  "take_pending_suffix s = [] \<or> take_pending_suffix s \<in> set device_attribute_pending_suffixes"
  by (auto simp: take_pending_suffix_def dest!: find_found split: option.splits)

lemma pending_suffix_ends: "ends_with (take_pending_suffix s) s"
  by (auto simp: take_pending_suffix_def ends_with_iff [of "[]"] dest: find_found split: option.splits)

lemma pending_suffix_Nil:
  "take_pending_suffix s = [] \<longleftrightarrow> list_all (\<lambda>p. \<not> ends_with p s) device_attribute_pending_suffixes"
proof (cases "find (\<lambda>p. ends_with p s) device_attribute_pending_suffixes")
  case None
  then have "list_all (\<lambda>p. \<not> ends_with p s) device_attribute_pending_suffixes"
    by (simp add: find_None_iff list_all_iff)
  then show ?thesis using None by (simp add: take_pending_suffix_def)
next
  case (Some p)
  then have p: "p \<in> set device_attribute_pending_suffixes" "ends_with p s" by (auto dest: find_found)
  have "[] \<notin> set device_attribute_pending_suffixes" by (simp add: device_attribute_pending_suffixes_def)
  then have "take_pending_suffix s \<noteq> []" using Some p(1) by (auto simp: take_pending_suffix_def)
  then show ?thesis using p by (auto simp: list_all_iff)
qed

lemma starts_with_length: "starts_with p s \<Longrightarrow> length p \<le> length s"
  by (metis length_take min.cobounded1 starts_with_def)

lemma suffix_prefixes:
  assumes "p @ q \<in> set device_attribute_pending_suffixes" and "p \<noteq> []"
  shows "p \<in> set device_attribute_pending_suffixes \<and> (q \<noteq> [] \<longrightarrow> hd q \<noteq> 27 \<and> hd q \<noteq> 0x9B)"
  using assms by (auto simp: device_attribute_pending_suffixes_def append_eq_Cons_conv)

lemma query_prefixes:
  assumes "p @ q = [27, 91, 62, 113] \<or> p @ q = [0x9B, 62, 113]" and "p \<noteq> []" and "q \<noteq> []"
  shows "p \<in> set device_attribute_pending_suffixes \<and> hd q \<noteq> 27 \<and> hd q \<noteq> 0x9B"
  using assms by (auto simp: device_attribute_pending_suffixes_def append_eq_Cons_conv)

text \<open>No query and no held suffix lies across such a boundary.\<close>

definition clean_cut :: "js_text \<Rightarrow> js_text \<Rightarrow> bool" where
  "clean_cut u v \<longleftrightarrow> take_pending_suffix u = [] \<or> v \<noteq> [] \<and> (hd v = 27 \<or> hd v = 0x9B)"

lemma pending_suffix_append:
  assumes "clean_cut u v"
  shows "take_pending_suffix (u @ v) = take_pending_suffix v"
proof -
  have same: "ends_with p (u @ v) \<longleftrightarrow> ends_with p v" if p: "p \<in> set device_attribute_pending_suffixes" for p
  proof
    assume "ends_with p (u @ v)"
    then obtain r where "u @ v = r @ p" by (auto simp: ends_with_iff)
    then consider us where "u = r @ us" "us @ v = p" | us where "v = us @ p"
      by (auto simp: append_eq_append_conv2)
    then show "ends_with p v"
    proof cases
      case 1
      have "us = []"
      proof (rule ccontr)
        assume "us \<noteq> []"
        then have "us \<in> set device_attribute_pending_suffixes" "v \<noteq> [] \<longrightarrow> hd v \<noteq> 27 \<and> hd v \<noteq> 0x9B"
          using suffix_prefixes [of us v] p 1(2) by auto
        then show False using assms 1(1) by (auto simp: clean_cut_def pending_suffix_Nil list_all_iff ends_with_iff)
      qed
      then show ?thesis using 1(2) by (auto simp: ends_with_iff)
    qed (auto simp: ends_with_iff)
  next
    assume "ends_with p v"
    then show "ends_with p (u @ v)" by (auto simp: ends_with_iff)
  qed
  have "find (\<lambda>p. ends_with p (u @ v)) device_attribute_pending_suffixes =
        find (\<lambda>p. ends_with p v) device_attribute_pending_suffixes"
    by (rule find_cong) (auto simp: same)
  then show ?thesis by (simp add: take_pending_suffix_def)
qed

lemma clean_cut_drop: "clean_cut (w @ u) v \<Longrightarrow> clean_cut u v"
  by (auto simp: clean_cut_def pending_suffix_Nil list_all_iff ends_with_iff)

lemma query_cut:
  assumes "clean_cut u v" and "u \<noteq> []" and "q = [27, 91, 62, 113] \<or> q = [0x9B, 62, 113]"
  shows "starts_with q (u @ v) \<longleftrightarrow> starts_with q u"
proof
  assume s: "starts_with q (u @ v)"
  show "starts_with q u"
  proof (rule ccontr)
    assume n: "\<not> starts_with q u"
    have ne: "v \<noteq> []" using starts_with_cut(2) [OF s n] .
    have "\<not> length q \<le> length u" using s n by (auto simp: starts_with_def)
    then have "q = u @ take (length q - length u) v" "take (length q - length u) v \<noteq> []" "hd (take (length q - length u) v) = hd v"
      using s ne by (auto simp: starts_with_def)
    then have "u \<in> set device_attribute_pending_suffixes \<and> hd v \<noteq> 27 \<and> hd v \<noteq> 0x9B"
      using query_prefixes [of u "take (length q - length u) v"] assms(2,3) by metis
    then show False using assms(1) by (auto simp: clean_cut_def pending_suffix_Nil list_all_iff ends_with_iff)
  qed
qed (rule starts_with_append)

lemma remove_queries_append:
  assumes "clean_cut u v"
  shows "remove_queries (u @ v) =
    (fst (remove_queries u) @ fst (remove_queries v), snd (remove_queries u) + snd (remove_queries v))"
  using assms
proof (induction u rule: remove_queries.induct)
  case (2 c cs)
  have long: "starts_with [27, 91, 62, 113] (c # cs) \<Longrightarrow> 3 \<le> length cs"
    and short: "starts_with [0x9B, 62, 113] (c # cs) \<Longrightarrow> 2 \<le> length cs"
    using starts_with_length [of "[27, 91, 62, 113]" "c # cs"] starts_with_length [of "[0x9B, 62, 113]" "c # cs"]
    by simp_all
  have cut: "clean_cut (drop n cs) v" for n using clean_cut_drop [of "c # take n cs" "drop n cs" v] 2(4) by simp
  have q1: "starts_with [27, 91, 62, 113] (c # cs @ v) = starts_with [27, 91, 62, 113] (c # cs)"
    and q2: "starts_with [0x9B, 62, 113] (c # cs @ v) = starts_with [0x9B, 62, 113] (c # cs)"
    using query_cut [OF 2(4)] by auto
  show ?case using 2(1-3) long short cut [of 3] cut [of 2] cut [of 0] q1 q2 by (cases "starts_with [27, 91, 62, 113] (c # cs)"; cases "starts_with [0x9B, 62, 113] (c # cs)") simp_all
qed simp

section \<open>What of a read does not depend on its boundaries\<close>

type_synonym read_view = "parser \<times> js_text \<times> js_text \<times> protocol_event list \<times> bool"

definition plain_events :: "protocol_event list \<Rightarrow> protocol_event list" where
  "plain_events es = filter (\<lambda>e. \<not> is_bell_event e) es"

definition out_view :: "parser \<times> parse_output \<Rightarrow> read_view" where
  "out_view r = (fst r, po_visible (snd r), po_text (snd r), plain_events (po_events (snd r)), po_threw (snd r))"

definition prefix_view :: "js_text \<Rightarrow> js_text \<Rightarrow> protocol_event list \<Rightarrow> read_view \<Rightarrow> read_view" where
  "prefix_view v t es r = (case r of (p, v', t', es', b) \<Rightarrow> (p, v @ v', t @ t', es @ es', b))"

lemma prefix_view_Nil [simp]: "prefix_view [] [] [] r = r"
  and prefix_view_prefix [simp]: "prefix_view v t es (prefix_view v' t' es' r) = prefix_view (v @ v') (t @ t') (es @ es') r"
  by (cases r; simp add: prefix_view_def)+

lemma plain_events_append [simp]: "plain_events (x @ y) = plain_events x @ plain_events y"
  by (simp add: plain_events_def)

lemma plain_events_Nil [simp]: "plain_events [] = []"
  by (simp add: plain_events_def)

lemma plain_bell_events [simp]: "plain_events (bell_events s) = []"
  by (simp add: plain_events_def bell_events_def is_bell_event_def terminal_bell_notification_def)

lemma plain_query_answers [simp]: "plain_events (query_answers s) = query_answers s"
  by (simp add: plain_events_def query_answers_def is_bell_event_def)

lemma out_view_prepend [simp]:
  "out_view (prepend_output v t es r) = prefix_view v t (plain_events es) (out_view r)"
  by (simp add: out_view_def prefix_view_def prepend_output_def)

lemma threw_prepend [simp]: "po_threw (snd (prepend_output v t es r)) = po_threw (snd r)"
  and fst_prepend [simp]: "fst (prepend_output v t es r) = fst r"
  by (simp_all add: prepend_output_def)

text \<open>One step of \<open>scan\<close>, on any text.\<close>

lemma scan_unfold:
  "scan env now m input =
     (case find_introducer input of
        None \<Rightarrow>
          (let tail = strip_bells input;
               pending = take_pending_suffix tail;
               ground = take (length tail - length pending) tail
           in (initial_parser\<lparr>pp_osc99 := m, pp_pending := pending\<rparr>,
               no_output\<lparr>po_visible := fst (remove_queries ground), po_text := fst (remove_queries ground),
                         po_events := bell_events input @ query_answers ground\<rparr>))
      | Some (before, intro, rest) \<Rightarrow>
          (let gap = fst (remove_queries (strip_bells before))
           in prepend_output gap gap (bell_events before @ query_answers (strip_bells before))
             (case find_string_control_end (string_control_kind intro) rest of
                None \<Rightarrow> (let (p, v) = open_string m intro rest in (p, no_output\<lparr>po_visible := v\<rparr>))
              | Some (payload, e, rest', cancelled) \<Rightarrow>
                  (case close_string env now m intro rest payload e cancelled of
                     (m', None) \<Rightarrow> (initial_parser\<lparr>pp_osc99 := m'\<rparr>, thrown_output)
                   | (m', Some (v, es)) \<Rightarrow> prepend_output v [] es (scan env now m' rest')))))"
proof (cases "input = []")
  case True
  have "take_pending_suffix [] = []" by (simp add: take_pending_suffix_def device_attribute_pending_suffixes_def ends_with_def)
  then show ?thesis using True
    by (simp add: scan.simps [of env now m "[]"] strip_bells_def bell_events_def query_answers_def no_output_def initial_parser_def Let_def)
next
  case False
  then show ?thesis by (subst scan.simps) simp
qed

text \<open>The part of a scan behind the gap in front of a string control.\<close>

definition scan_string :: "protocol_env \<Rightarrow> int \<Rightarrow> osc99_map \<Rightarrow> js_text \<Rightarrow> js_text \<Rightarrow> parser \<times> parse_output" where
  "scan_string env now m intro rest =
     (case find_string_control_end (string_control_kind intro) rest of
        None \<Rightarrow> (let (p, v) = open_string m intro rest in (p, no_output\<lparr>po_visible := v\<rparr>))
      | Some (payload, e, rest', cancelled) \<Rightarrow>
          (case close_string env now m intro rest payload e cancelled of
             (m', None) \<Rightarrow> (initial_parser\<lparr>pp_osc99 := m'\<rparr>, thrown_output)
           | (m', Some (v, es)) \<Rightarrow> prepend_output v [] es (scan env now m' rest')))"

definition gap_view :: "js_text \<Rightarrow> read_view \<Rightarrow> read_view" where
  "gap_view g r =
     prefix_view (fst (remove_queries (strip_bells g))) (fst (remove_queries (strip_bells g)))
       (query_answers (strip_bells g)) r"

lemma view_scan_string:
  "find_introducer s = Some (g, i, r) \<Longrightarrow> out_view (scan env now m s) = gap_view g (out_view (scan_string env now m i r))"
  by (subst scan_unfold) (simp add: scan_string_def gap_view_def Let_def)

lemma view_scan_ground:
  assumes "find_introducer s = None"
  shows "out_view (scan env now m s) =
    (let pending = take_pending_suffix (strip_bells s);
         ground = take (length (strip_bells s) - length pending) (strip_bells s)
     in (initial_parser\<lparr>pp_osc99 := m, pp_pending := pending\<rparr>, fst (remove_queries ground), fst (remove_queries ground),
         query_answers ground, False))"
  using assms by (subst scan_unfold) (simp add: out_view_def Let_def no_output_def)

lemma query_answers_append:
  "clean_cut u v \<Longrightarrow> query_answers (u @ v) = query_answers u @ query_answers v"
  by (simp add: query_answers_def remove_queries_append replicate_add)

lemma strip_bells_hd: "s \<noteq> [] \<Longrightarrow> hd s \<noteq> 7 \<Longrightarrow> strip_bells s \<noteq> [] \<and> hd (strip_bells s) = hd s"
  by (cases s) (auto simp: strip_bells_def)

text \<open>Two texts that agree from a point of ground text on scan alike up to what one has more of.\<close>

lemma scan_ground_prefix:
  assumes fa: "find_introducer (a @ z) = map_option (\<lambda>(g, i, r). (a @ g, i, r)) (find_introducer z)"
    and fb: "find_introducer (b @ z) = map_option (\<lambda>(g, i, r). (b @ g, i, r)) (find_introducer z)"
    and strip: "strip_bells a = u @ strip_bells b"
    and cut: "take_pending_suffix u = [] \<or> b @ z \<noteq> [] \<and> (hd (b @ z) = 27 \<or> hd (b @ z) = 0x9B)"
  shows "out_view (scan env now m (a @ z)) =
    prefix_view (fst (remove_queries u)) (fst (remove_queries u)) (query_answers u) (out_view (scan env now m (b @ z)))"
proof (cases "find_introducer z")
  case None
  define v where "v = strip_bells (b @ z)"
  define p where "p = take_pending_suffix v"
  have uv: "strip_bells (a @ z) = u @ v" using strip by (simp add: v_def)
  have cl: "clean_cut u v" using cut strip_bells_hd [of "b @ z"] unfolding clean_cut_def v_def by fastforce
  have pu: "take_pending_suffix (u @ v) = p" using pending_suffix_append [OF cl] by (simp add: p_def)
  obtain w where w: "v = w @ p" using pending_suffix_ends [of v] by (auto simp: ends_with_iff p_def)
  have cw: "clean_cut u w \<or> w = []" using cl w by (cases w) (auto simp: clean_cut_def)
  have ra: "remove_queries (u @ w) = (fst (remove_queries u) @ fst (remove_queries w), snd (remove_queries u) + snd (remove_queries w))"
    using cw remove_queries_append by (cases "w = []") auto
  have "find_introducer (a @ z) = None" "find_introducer (b @ z) = None" using fa fb None by simp_all
  note va = view_scan_ground [OF this(1), of env now m] and vb = view_scan_ground [OF this(2), of env now m]
  have ga: "take (length (u @ v) - length p) (u @ v) = u @ w" and gb: "take (length v - length p) v = w" using w by simp_all
  show ?thesis
    unfolding va vb uv pu Let_def ga unfolding v_def [symmetric] p_def [symmetric] gb
    by (simp add: ra prefix_view_def query_answers_def replicate_add)
next
  case (Some x)
  then obtain g i r where z: "find_introducer z = Some (g, i, r)" by (cases x) auto
  have "find_introducer (a @ z) = Some (a @ g, i, r)" "find_introducer (b @ z) = Some (b @ g, i, r)" using fa fb z by simp_all
  note va = view_scan_string [OF this(1), of env now m] and vb = view_scan_string [OF this(2), of env now m]
  define v where "v = strip_bells (b @ g)"
  have uv: "strip_bells (a @ g) = u @ v" using strip by (simp add: v_def)
  have zs: "z = g @ i @ r" using find_introducer_split [OF z] .
  have cw: "clean_cut u v \<or> v = []"
  proof (cases "b @ g = []")
    case False
    then have "hd (b @ z) = hd (b @ g)" by (simp add: zs hd_append)
    then show ?thesis using cut False strip_bells_hd [of "b @ g"] unfolding clean_cut_def v_def by fastforce
  qed (simp add: v_def strip_bells_def)
  have ra: "remove_queries (u @ v) = (fst (remove_queries u) @ fst (remove_queries v), snd (remove_queries u) + snd (remove_queries v))"
    using cw remove_queries_append by (cases "v = []") auto
  show ?thesis unfolding va vb gap_view_def uv v_def [symmetric] by (simp add: ra query_answers_def replicate_add)
qed

section \<open>Splitting a read\<close>

text \<open>The text ends in an \<open>ESC\<close> with one or more bells behind it.\<close>

definition ends_in_escaped_bell :: "js_text \<Rightarrow> bool" where
  "ends_in_escaped_bell s \<longleftrightarrow> ends_with [7] s \<and> ends_with [27] (rev (dropWhile (\<lambda>c. c = 7) (rev s)))"

text \<open>The text ends in an \<open>ESC\<close> behind the bare identifier of an OSC.\<close>

definition ends_in_bare_osc :: "js_text \<Rightarrow> bool" where
  "ends_in_bare_osc s \<longleftrightarrow>
     ends_with [27] s \<and>
     (let r = rev (dropWhile is_digit (rev (butlast s))) in ends_with [27, 93] r \<or> ends_with [0x9D] r)"

text \<open>
  A place where a read may end: not behind an \<open>ESC BEL\<close>, where the \<open>ESC\<close> alone would be held back
  for the next read; and not behind the \<open>ESC\<close> right after the digits of an OSC, which is routed before
  it is known to be empty.
\<close>

definition split_safe :: "js_text \<Rightarrow> bool" where
  "split_safe s \<longleftrightarrow> \<not> ends_in_escaped_bell s \<and> \<not> ends_in_bare_osc s"

lemma escaped_bell_suffix:
  assumes "ends_in_escaped_bell v"
  shows "ends_in_escaped_bell (u @ v)"
proof -
  let ?P = "\<lambda>c. c = (7 :: nat)"
  from assms obtain r where r: "dropWhile ?P (rev v) = 27 # r" and v: "ends_with [7] v"
    unfolding ends_in_escaped_bell_def ends_with_unit
    by (cases "dropWhile ?P (rev v)") auto
  then have "27 \<in> set (rev v)" by (metis list.set_intros(1) set_dropWhileD)
  then have "dropWhile ?P (rev v @ rev u) = dropWhile ?P (rev v) @ rev u" by (intro dropWhile_append1 [of 27]) auto
  then have "rev (dropWhile ?P (rev (u @ v))) = (u @ rev r) @ [27]" by (simp only: rev_append r) simp
  moreover have "ends_with [7] (u @ v)" using v by (auto simp: ends_with_unit)
  ultimately show ?thesis unfolding ends_in_escaped_bell_def by (simp only: ends_with_unit) simp
qed

lemma bare_osc_suffix: "ends_in_bare_osc v \<Longrightarrow> ends_in_bare_osc (u @ v)"
proof -
  assume v: "ends_in_bare_osc v"
  then have e: "ends_with [27] v" "v \<noteq> []" by (auto simp: ends_in_bare_osc_def ends_with_unit)
  define t where "t = rev (butlast v)"
  have r0: "ends_with [27, 93] (rev (dropWhile is_digit t)) \<or> ends_with [0x9D] (rev (dropWhile is_digit t))"
    using v by (auto simp: ends_in_bare_osc_def Let_def t_def)
  have "\<not> ends_with [27, 93] []" "\<not> ends_with [0x9D] []" by (simp_all add: ends_with_def)
  with r0 have ne: "dropWhile is_digit t \<noteq> []" by (metis rev.simps(1))
  then obtain c r where r: "dropWhile is_digit t = c # r" by (cases "dropWhile is_digit t") auto
  then have "c \<in> set t" "\<not> is_digit c" by (metis list.set_intros(1) set_dropWhileD) (metis dropWhile_eq_Cons_conv r)
  then have "dropWhile is_digit (t @ rev u) = dropWhile is_digit t @ rev u" by (rule dropWhile_append1)
  then have "rev (dropWhile is_digit (rev (butlast (u @ v)))) = u @ rev (dropWhile is_digit t)"
    using e(2) by (simp add: butlast_append t_def)
  moreover have "ends_with [27] (u @ v)" using e by (simp add: ends_with_unit)
  moreover have "ends_with p r \<Longrightarrow> ends_with p (u @ r)" for p r by (auto simp: ends_with_iff)
  ultimately show ?thesis using r0 by (auto simp: ends_in_bare_osc_def Let_def)
qed

lemma split_safe_suffix: "split_safe (u @ v) \<Longrightarrow> split_safe v"
  using escaped_bell_suffix [of v u] bare_osc_suffix [of v u] by (auto simp: split_safe_def)

lemma last_not_bell: "s \<noteq> [] \<Longrightarrow> last s \<noteq> 7 \<Longrightarrow> last (strip_bells s) = last s"
  by (cases s rule: rev_cases) (auto simp: strip_bells_def)

lemma escape_survives:
  assumes safe: "\<not> ends_in_escaped_bell s" and strip: "ends_with [27] (strip_bells s)"
  shows "ends_with [27] s"
proof (cases "ends_with [7] s")
  case True
  define t where "t = rev (dropWhile (\<lambda>c. c = 7) (rev s))"
  have "rev s = takeWhile (\<lambda>c. c = 7) (rev s) @ rev t" by (simp add: t_def)
  then have s: "s = t @ rev (takeWhile (\<lambda>c. c = 7) (rev s))" by (metis rev_append rev_rev_ident)
  have "filter (\<lambda>c. c \<noteq> 7) (rev (takeWhile (\<lambda>c. c = 7) (rev s))) = []"
    by (auto simp: filter_empty_conv dest: set_takeWhileD)
  then have eq: "strip_bells s = strip_bells t" using arg_cong [OF s, of strip_bells] by (simp add: strip_bells_def)
  then have ne: "t \<noteq> []" using strip by (auto simp: ends_with_unit strip_bells_def)
  then have "last t \<noteq> 7"
    unfolding t_def by (metis (mono_tags) hd_dropWhile last_rev rev_is_Nil_conv)
  then have "ends_with [27] t" using strip eq ne last_not_bell [OF ne] by (auto simp: ends_with_unit)
  then show ?thesis using safe True by (simp add: ends_in_escaped_bell_def t_def)
next
  case False
  have "s \<noteq> []" using strip by (auto simp: ends_with_unit strip_bells_def)
  then show ?thesis using False strip last_not_bell [of s] by (auto simp: ends_with_unit)
qed

lemma pending_after_escape: "take_pending_suffix (s @ [27]) = [27]"
  by (simp add: take_pending_suffix_def device_attribute_pending_suffixes_def ends_with_iff)

lemma pending_suffix_plain:
  "take_pending_suffix s = [27] \<or> find_introducer (take_pending_suffix s) = None \<and> \<not> ends_with [27] (take_pending_suffix s)"
  using pending_suffix_cases [of s]
  by (auto simp: device_attribute_pending_suffixes_def ends_with_unit is_c1_introducer_def opens_string_def)

lemma pending_suffix_hd:
  "take_pending_suffix s \<noteq> [] \<Longrightarrow> hd (take_pending_suffix s) = 27 \<or> hd (take_pending_suffix s) = 0x9B"
  using pending_suffix_cases [of s] by (auto simp: device_attribute_pending_suffixes_def)

lemma strip_bells_pending [simp]: "strip_bells (take_pending_suffix s) = take_pending_suffix s"
  using pending_suffix_cases [of s] by (auto simp: device_attribute_pending_suffixes_def strip_bells_def)

text \<open>Text that ends in ground continues from what the parser holds back of it.\<close>

lemma scan_ground_append:
  assumes none: "find_introducer w = None" and safe: "\<not> ends_in_escaped_bell w"
    and pend: "pend = take_pending_suffix (strip_bells w)" and u: "strip_bells w = u @ pend"
  shows "out_view (scan env now m (w @ y)) =
    prefix_view (fst (remove_queries u)) (fst (remove_queries u)) (query_answers u) (out_view (scan env now m (pend @ y)))"
proof (cases "ends_with [27] w")
  case True
  then obtain a where w: "w = a @ [27]" by (auto simp: ends_with_iff)
  have sw: "strip_bells w = strip_bells a @ [27]" by (simp add: w strip_bells_def)
  then have p: "pend = [27]" using pend by (simp only: pending_after_escape)
  then have ua: "u = strip_bells a" using u sw by simp
  have "find_introducer a = None"
    using find_introducer_append [of a] none w by (cases "find_introducer a") auto
  then have fa: "find_introducer (a @ 27 # y) = map_option (\<lambda>(g, i, r). (a @ g, i, r)) (find_introducer (27 # y))"
    by (rule find_introducer_skip) (simp add: opens_string_def)
  have "out_view (scan env now m (a @ 27 # y)) =
      prefix_view (fst (remove_queries u)) (fst (remove_queries u)) (query_answers u) (out_view (scan env now m ([] @ 27 # y)))"
    by (rule scan_ground_prefix [OF fa]) (auto simp: ua strip_bells_def map_option_idI split_beta)
  then show ?thesis by (simp add: w p)
next
  case False
  have "pend \<noteq> [27]"
  proof
    assume "pend = [27]"
    then have "ends_with [27] (strip_bells w)" using u by (auto simp: ends_with_iff)
    then show False using escape_survives [OF safe] False by blast
  qed
  then have fp: "find_introducer pend = None" "\<not> ends_with [27] pend" using pending_suffix_plain pend by auto
  have fa: "find_introducer (w @ y) = map_option (\<lambda>(g, i, r). (w @ g, i, r)) (find_introducer y)"
    and fb: "find_introducer (pend @ y) = map_option (\<lambda>(g, i, r). (pend @ g, i, r)) (find_introducer y)"
    by (rule find_introducer_skip; use none False fp in blast)+
  show ?thesis
  proof (rule scan_ground_prefix [OF fa fb])
    show "strip_bells w = u @ strip_bells pend" unfolding u by (simp only: pend strip_bells_pending)
    show "take_pending_suffix u = [] \<or> pend @ y \<noteq> [] \<and> (hd (pend @ y) = 27 \<or> hd (pend @ y) = 0x9B)"
    proof (cases "pend = []")
      case True
      then have "u = strip_bells w" using u by simp
      then show ?thesis using True pend by metis
    next
      case False
      then have "hd pend = 27 \<or> hd pend = 0x9B" using pending_suffix_hd pend by metis
      then show ?thesis using False by simp
    qed
  qed
qed

section \<open>Continuing a read\<close>

definition resume_scan :: "protocol_env \<Rightarrow> int \<Rightarrow> parser \<Rightarrow> js_text \<Rightarrow> parser \<times> parse_output" where
  "resume_scan env now q y =
     (case pp_forwarding q of
        None \<Rightarrow> scan env now (pp_osc99 q) (pp_pending q @ y)
      | Some (k, held) \<Rightarrow>
          (case find_string_control_end k (held @ y) of
             None \<Rightarrow> (q\<lparr>pp_forwarding := Some (k, trailing_escape (held @ y))\<rparr>,
                      no_output\<lparr>po_visible := without_escape (held @ y)\<rparr>)
           | Some (p, e, r, b) \<Rightarrow> prepend_output (p @ e) [] [] (scan env now (pp_osc99 q) r)))"

definition continued :: "protocol_env \<Rightarrow> int \<Rightarrow> parser \<times> parse_output \<Rightarrow> js_text \<Rightarrow> read_view" where
  "continued env now r y =
     (if po_threw (snd r) then out_view r
      else prefix_view (po_visible (snd r)) (po_text (snd r)) (plain_events (po_events (snd r)))
             (out_view (resume_scan env now (fst r) y)))"

lemma continued_prepend:
  "continued env now (prepend_output v t es r) y = prefix_view v t (plain_events es) (continued env now r y)"
  by (simp add: continued_def) (simp add: prepend_output_def)

lemma scan_gap:
  "find_introducer s = Some (g, i, r) \<Longrightarrow>
   scan env now m s = prepend_output (fst (remove_queries (strip_bells g))) (fst (remove_queries (strip_bells g)))
     (bell_events g @ query_answers (strip_bells g)) (scan_string env now m i r)"
  by (subst scan_unfold) (simp add: scan_string_def Let_def)

lemma gap_view_Nil [simp]: "gap_view [] r = r"
  by (simp add: gap_view_def strip_bells_def query_answers_def)

lemma introducer_last: "find_introducer s = Some (g, i, r) \<Longrightarrow> i \<noteq> [] \<and> last i \<noteq> 27"
  by (induction s arbitrary: g) (auto simp: is_c1_introducer_def opens_string_def split: if_splits)

lemma introducer_osc:
  "find_introducer s = Some (g, i, r) \<Longrightarrow> string_control_kind i = KindOsc \<Longrightarrow> i = [27, 93] \<or> i = [0x9D]"
  by (induction s arbitrary: g)
     (auto simp: string_control_kind_def Let_def is_c1_introducer_def opens_string_def split: if_splits)

lemma introducer_escape:
  "find_introducer s = Some (g, i, r) \<Longrightarrow>
   trailing_escape (i @ t) = trailing_escape t \<and> without_escape (i @ t) = i @ without_escape t"
  by (cases "t = []") (auto simp: trailing_escape_def without_escape_def ends_with_unit butlast_append dest: introducer_last)

lemma trailing_trailing: "trailing_escape (trailing_escape r @ y) = trailing_escape (r @ y)"
  and without_without: "without_escape r @ without_escape (trailing_escape r @ y) = without_escape (r @ y)"
  by (cases "y = []"; cases r rule: rev_cases;
      auto simp: trailing_escape_def without_escape_def ends_with_unit butlast_append)+

lemma close_string_append:
  assumes "find_string_control_end (string_control_kind i) r = Some (p, e, r', b)"
  shows "close_string env now m i (r @ y) p e b = close_string env now m i r p e b"
proof (cases "string_control_kind i = KindOsc")
  case True
  obtain c t where ct: "e @ r' = c # t" "string_control_end_scan KindOsc c"
    using find_end_next assms True by metis
  then have r: "r = p @ c # t" using find_end_split [OF assms] by simp
  have "osc_disposition (p @ c # t @ y) = Some Forward \<longleftrightarrow> osc_disposition (p @ c # t) = Some Forward"
    using disposition_cut [OF ct(2)] by blast
  then show ?thesis by (simp add: close_string_def r Let_def)
qed (simp add: close_string_def)

lemma not_bare:
  assumes "\<not> ends_in_bare_osc (i @ r)" and "i = [27, 93] \<or> i = [0x9D]" and "list_all is_digit ds"
  shows "r \<noteq> ds @ [27]"
proof
  assume r: "r = ds @ [27]"
  have "dropWhile is_digit (rev ds @ rev i) = dropWhile is_digit (rev i)"
    by (rule dropWhile_append2) (use assms(3) in \<open>auto simp: list_all_iff\<close>)
  then have "dropWhile is_digit (rev (i @ ds)) = rev i" using assms(2) by (auto simp: is_digit_def)
  then have "ends_in_bare_osc (i @ r)"
    using assms(2) by (auto simp: ends_in_bare_osc_def Let_def r butlast_append ends_with_unit ends_with_iff)
  then show False using assms(1) by blast
qed

lemma scan_string_forwarded:
  assumes intro: "find_introducer s = Some (g, i, r)" and safe: "split_safe (i @ r)"
    and none: "find_string_control_end (string_control_kind i) r = None"
    and fwd: "string_control_kind i \<noteq> KindOsc \<or> osc_disposition r = Some Forward"
  shows "out_view (scan_string env now m i (r @ y)) = continued env now (scan_string env now m i r) y"
proof -
  note esc = introducer_escape [OF intro]
  have fwd_y: "string_control_kind i \<noteq> KindOsc \<or> osc_disposition (r @ y) = Some Forward"
    using fwd disposition_forward_append by blast
  show ?thesis
  proof (cases "find_string_control_end (string_control_kind i) (trailing_escape r @ y)")
    case None
    then have "find_string_control_end (string_control_kind i) (r @ y) = None" using find_end_open [OF none] by simp
    then show ?thesis using none None fwd fwd_y esc [of r] esc [of "r @ y"]
      by (simp add: scan_string_def open_string_def continued_def resume_scan_def out_view_def prefix_view_def
          no_output_def Let_def trailing_trailing without_without)
  next
    case (Some x)
    then obtain p e r' b where x: "find_string_control_end (string_control_kind i) (trailing_escape r @ y) = Some (p, e, r', b)"
      by (cases x) auto
    then have whole: "find_string_control_end (string_control_kind i) (r @ y) = Some (without_escape r @ p, e, r', b)"
      using find_end_open [OF none] by simp
    have "close_string env now m i (r @ y) (without_escape r @ p) e b = (m, Some (i @ without_escape r @ p @ e, []))"
    proof (cases "string_control_kind i = KindOsc")
      case True
      have "osc_disposition (without_escape r @ p) = Some Forward"
        using fwd True safe not_bare introducer_osc [OF intro True]
        by (intro disposition_payload) (auto simp: split_safe_def)
      then show ?thesis using True fwd_y forward_not_parsed by (simp add: close_string_def Let_def)
    qed (simp add: close_string_def)
    then show ?thesis using none whole x fwd esc [of r]
      by (simp add: scan_string_def open_string_def continued_def resume_scan_def no_output_def Let_def plain_events_def)
  qed
qed

lemma scan_append:
  "split_safe w \<Longrightarrow> pp_discarding (fst (scan env now m w)) = None \<Longrightarrow>
   out_view (scan env now m (w @ y)) = continued env now (scan env now m w) y"
proof (induction "length w" arbitrary: w m rule: less_induct)
  case less
  show ?case
  proof (cases "find_introducer w")
    case None
    define t where "t = strip_bells w"
    define pend where "pend = take_pending_suffix t"
    obtain u where u: "t = u @ pend" using pending_suffix_ends [of t] by (auto simp: ends_with_iff pend_def)
    have g: "take (length t - length pend) t = u" by (simp add: u)
    have q: "fst (scan env now m w) = initial_parser\<lparr>pp_osc99 := m, pp_pending := pend\<rparr>"
      and v: "po_visible (snd (scan env now m w)) = fst (remove_queries u)" "po_text (snd (scan env now m w)) = fst (remove_queries u)"
        "plain_events (po_events (snd (scan env now m w))) = query_answers u" "\<not> po_threw (snd (scan env now m w))"
      using view_scan_ground [OF None, of env now m] g by (simp_all add: out_view_def Let_def t_def [symmetric] pend_def [symmetric])
    have "resume_scan env now (fst (scan env now m w)) y = scan env now m (pend @ y)"
      by (simp add: q resume_scan_def initial_parser_def)
    then have c: "continued env now (scan env now m w) y =
        prefix_view (fst (remove_queries u)) (fst (remove_queries u)) (query_answers u) (out_view (scan env now m (pend @ y)))"
      using v by (simp add: continued_def)
    have e: "\<not> ends_in_escaped_bell w" using less.prems(1) by (simp add: split_safe_def)
    have p: "pend = take_pending_suffix (strip_bells w)" by (simp only: pend_def t_def)
    have su: "strip_bells w = u @ pend" using u by (simp only: t_def)
    show ?thesis unfolding c by (rule scan_ground_append [OF None e p su])
  next
    case (Some x)
    then obtain g i r where w: "find_introducer w = Some (g, i, r)" by (cases x) auto
    have ws: "w = g @ i @ r" using find_introducer_split [OF w] .
    have safe: "split_safe (i @ r)" using less.prems(1) split_safe_suffix ws by blast
    have kept: "pp_discarding (fst (scan_string env now m i r)) = None"
      using less.prems(2) by (simp add: scan_gap [OF w])
    have "out_view (scan_string env now m i (r @ y)) = continued env now (scan_string env now m i r) y"
    proof (cases "find_string_control_end (string_control_kind i) r")
      case None
      show ?thesis
      proof (cases "string_control_kind i \<noteq> KindOsc \<or> osc_disposition r = Some Forward")
        case True
        then show ?thesis using scan_string_forwarded [OF w safe None] by blast
      next
        case False
        have "length (i @ r) \<le> osc_incomplete_limit"
          using kept False None by (auto simp: scan_string_def open_string_def Let_def split: if_splits)
        then have s: "scan_string env now m i r = (initial_parser\<lparr>pp_osc99 := m, pp_pending := i @ r\<rparr>, no_output)"
          using False None by (auto simp: scan_string_def open_string_def Let_def no_output_def)
        have "out_view (scan env now m (i @ r @ y)) = out_view (scan_string env now m i (r @ y))"
          using view_scan_string [OF find_introducer_head [OF w], of env now m "r @ y"] by simp
        then show ?thesis
          by (simp add: s continued_def resume_scan_def initial_parser_def no_output_def plain_events_def)
      qed
    next
      case (Some z)
      then obtain p e r' b where z: "find_string_control_end (string_control_kind i) r = Some (p, e, r', b)" by (cases z) auto
      have rs: "r = p @ e @ r'" using find_end_split [OF z] .
      have "split_safe r'" using safe split_safe_suffix [of "i @ p @ e" r'] rs by simp
      moreover have "length r' < length w" using find_introducer_shorter [OF w] find_string_control_end_shorter [OF z] by simp
      ultimately have IH: "pp_discarding (fst (scan env now m' r')) = None \<Longrightarrow>
          out_view (scan env now m' (r' @ y)) = continued env now (scan env now m' r') y" for m'
        using less.hyps by blast
      obtain m' res where c: "close_string env now m i r p e b = (m', res)" by (cases "close_string env now m i r p e b") auto
      show ?thesis
      proof (cases res)
        case None
        then show ?thesis unfolding scan_string_def find_end_append [OF z] z
          by (simp add: close_string_append [OF z] c continued_def thrown_output_def)
      next
        case (Some ve)
        obtain v es where ve: "ve = (v, es)" by (cases ve)
        have "pp_discarding (fst (scan env now m' r')) = None"
          using kept Some ve by (simp add: scan_string_def z c)
        from IH [OF this] Some ve show ?thesis unfolding scan_string_def find_end_append [OF z] z
          by (simp add: close_string_append [OF z] c continued_prepend)
      qed
    qed
    then show ?thesis
      using view_scan_string [OF find_introducer_append [OF w], of env now m y]
      by (simp add: scan_gap [OF w] continued_prepend gap_view_def)
  qed
qed

end
