(* ===== verification/Term_Parser_Correct.thy ===== *)
theory Term_Parser_Correct
  imports Term_Parser_Facts
begin

text \<open>
  The parser as a whole: reads in pieces against one read, the bounds on what it keeps between
  reads, and what its events may carry.
\<close>

section \<open>A read by the scan it comes down to\<close>

definition full_scan :: "protocol_env \<Rightarrow> int \<Rightarrow> parser \<Rightarrow> js_text \<Rightarrow> parser \<times> parse_output" where
  "full_scan env now p x =
     (case pp_discarding p of
        None \<Rightarrow> resume_scan env now p x
      | Some held \<Rightarrow>
          (case find_string_control_end KindOsc (held @ x) of
             None \<Rightarrow> (p\<lparr>pp_discarding := Some (trailing_escape (held @ x))\<rparr>, no_output)
           | Some (payload, e, rest, b) \<Rightarrow> scan env now (pp_osc99 p) rest))"

text \<open>At most one of the three kinds of kept text is there.\<close>

definition exclusive :: "parser \<Rightarrow> bool" where
  "exclusive p \<longleftrightarrow>
     (pp_forwarding p = None \<or> pp_pending p = []) \<and>
     (pp_discarding p = None \<or> pp_forwarding p = None \<and> pp_pending p = [])"

definition kept_text :: "parser \<Rightarrow> js_text" where
  "kept_text p =
     (case pp_discarding p of
        Some held \<Rightarrow> held
      | None \<Rightarrow> (case pp_forwarding p of Some (k, held) \<Rightarrow> held | None \<Rightarrow> pp_pending p))"

lemma scan_plain_text:
  assumes "\<not> needs_parse s"
  shows "scan env now m s = (initial_parser\<lparr>pp_osc99 := m\<rparr>, no_output\<lparr>po_visible := s, po_text := s\<rparr>)"
proof -
  have units: "c \<noteq> 7 \<and> c \<noteq> 27 \<and> c \<noteq> 0x9B \<and> \<not> is_c1_introducer c" if "c \<in> set s" for c
    using assms that by (auto simp: needs_parse_def list_ex_iff)
  have f: "find_introducer t = None" if "set t \<subseteq> set s" for t
    using that units by (induction t) auto
  have r: "remove_queries t = (t, 0)" if "set t \<subseteq> set s" for t
    using that units by (induction t rule: remove_queries.induct) (auto simp: starts_with_def)
  have b: "strip_bells s = s" "bell_events s = []" using units by (auto simp: strip_bells_def bell_events_def filter_id_conv)
  have "take_pending_suffix s = []"
  proof (rule ccontr)
    assume ne: "take_pending_suffix s \<noteq> []"
    then have "hd (take_pending_suffix s) \<in> set s"
      using pending_suffix_ends [of s] by (auto simp: ends_with_iff) (metis Un_iff list.set_sel(1) set_append)
    then show False using pending_suffix_hd [OF ne] units by metis
  qed
  then show ?thesis
    using f [of s] r [of s] b by (subst scan_unfold) (simp add: Let_def query_answers_def initial_parser_def no_output_def)
qed

lemma ground_parser: "pp_forwarding p = None \<Longrightarrow> pp_discarding p = None \<Longrightarrow> pp_pending p = [] \<Longrightarrow>
    initial_parser\<lparr>pp_osc99 := pp_osc99 p\<rparr> = p"
  by (simp add: initial_parser_def)

lemma plain_filter_bell [simp]: "plain_events (filter_bell_events es) = plain_events es"
proof -
  have "plain_events (keep_first_bell es) = plain_events es" by (induction es) (auto simp: plain_events_def)
  then show ?thesis by (simp add: filter_bell_events_def) (simp add: plain_events_def)
qed

text \<open>Two reads that differ in their bell events, and in everything once one of them threw.\<close>

definition same_read :: "parser \<times> parse_output \<Rightarrow> parser \<times> parse_output \<Rightarrow> bool" where
  "same_read a b \<longleftrightarrow>
     fst a = fst b \<and> po_threw (snd a) = po_threw (snd b) \<and> (po_threw (snd a) \<or> out_view a = out_view b)"

lemma same_ground:
  assumes "pp_forwarding p = None" and "pp_discarding p = None"
  shows "same_read (process_ground env now p x) (scan env now (pp_osc99 p) (pp_pending p @ x))"
proof (cases "pp_pending p = [] \<and> \<not> needs_parse x")
  case True
  then show ?thesis using assms scan_plain_text [of x env now "pp_osc99 p"] ground_parser [of p]
    by (simp add: process_ground_def same_read_def)
next
  case False
  then show ?thesis
    by (auto simp: process_ground_def same_read_def out_view_def thrown_output_def split: prod.splits)
qed

lemma same_kept:
  assumes "exclusive p" and "pp_discarding p = None"
  shows "same_read (process_kept env now p x) (resume_scan env now p x)"
proof (cases "pp_forwarding p")
  case None
  then show ?thesis using same_ground [OF None assms(2)] by (simp add: process_kept_def resume_scan_def)
next
  case (Some a)
  then obtain k h where f: "pp_forwarding p = Some (k, h)" by (cases a) auto
  then have pend: "pp_pending p = []" using assms(1) by (auto simp: exclusive_def)
  show ?thesis
  proof (cases "find_string_control_end k (h @ x)")
    case None
    then show ?thesis using f
      by (simp add: process_kept_def process_forwarded_def resume_scan_def same_read_def out_view_def no_output_def Let_def)
  next
    case (Some z)
    then obtain pl e r b where z: "find_string_control_end k (h @ x) = Some (pl, e, r, b)" by (cases z) auto
    have "same_read (process_ground env now (p\<lparr>pp_forwarding := None\<rparr>) r) (scan env now (pp_osc99 p) r)"
      using same_ground [of "p\<lparr>pp_forwarding := None\<rparr>"] assms(2) pend by simp
    then show ?thesis using f z
      by (auto simp: process_kept_def process_forwarded_def resume_scan_def same_read_def out_view_def prefix_view_def
          prepend_output_def thrown_output_def Let_def split: prod.splits)
  qed
qed

lemma same_process:
  assumes "exclusive p"
  shows "same_read (process env now p x) (full_scan env now p x)"
proof (cases "pp_discarding p")
  case None
  then show ?thesis using same_kept [OF assms None] by (simp add: process_def full_scan_def)
next
  case (Some held)
  then have k: "pp_forwarding p = None" "pp_pending p = []" using assms by (auto simp: exclusive_def)
  show ?thesis
  proof (cases "find_string_control_end KindOsc (held @ x)")
    case None
    then show ?thesis using Some by (simp add: process_def full_scan_def same_read_def)
  next
    case z: (Some z)
    then obtain pl e r b where "find_string_control_end KindOsc (held @ x) = Some (pl, e, r, b)" by (cases z) auto
    moreover have "same_read (process_kept env now (p\<lparr>pp_discarding := None\<rparr>) r) (scan env now (pp_osc99 p) r)"
      using same_kept [of "p\<lparr>pp_discarding := None\<rparr>"] k by (simp add: exclusive_def resume_scan_def)
    ultimately show ?thesis using Some by (simp add: process_def full_scan_def)
  qed
qed

section \<open>Pieces\<close>

lemma scan_state_all:
  "(pp_forwarding (fst (scan env now m s)) = None \<or> pp_pending (fst (scan env now m s)) = []) \<and>
    (pp_discarding (fst (scan env now m s)) = None \<or>
     pp_forwarding (fst (scan env now m s)) = None \<and> pp_pending (fst (scan env now m s)) = [])"
proof (induction "length s" arbitrary: s m rule: less_induct)
  case less
  show ?case
  proof (cases "find_introducer s")
    case None
    then show ?thesis by (subst (1 2 3 4 5) scan_unfold) (simp add: Let_def initial_parser_def)
  next
    case (Some x)
    then obtain g i r where s: "find_introducer s = Some (g, i, r)" by (cases x) auto
    show ?thesis
    proof (cases "find_string_control_end (string_control_kind i) r")
      case None
      then show ?thesis
        by (simp add: scan_gap [OF s] scan_string_def open_string_def initial_parser_def Let_def)
    next
      case (Some z)
      then obtain p e r' b where z: "find_string_control_end (string_control_kind i) r = Some (p, e, r', b)" by (cases z) auto
      have "length r' < length s" using find_introducer_shorter [OF s] find_string_control_end_shorter [OF z] by simp
      then show ?thesis using less.hyps [of r']
        by (simp add: scan_gap [OF s] scan_string_def z initial_parser_def split: prod.splits option.splits)
    qed
  qed
qed

lemma scan_state:
  "pp_forwarding (fst (scan env now m s)) = None \<or> pp_pending (fst (scan env now m s)) = []"
  "pp_discarding (fst (scan env now m s)) = None \<or>
     pp_forwarding (fst (scan env now m s)) = None \<and> pp_pending (fst (scan env now m s)) = []"
  using scan_state_all by blast+

lemma exclusive_scan: "exclusive (fst (scan env now m s))"
  using scan_state(1,2) by (auto simp: exclusive_def)

lemma exclusive_full_scan: "exclusive p \<Longrightarrow> exclusive (fst (full_scan env now p x))"
  using exclusive_scan
  by (auto simp: full_scan_def resume_scan_def exclusive_def split: option.splits prod.splits)

lemma exclusive_process:
  assumes "exclusive p"
  shows "exclusive (fst (process env now p x))"
  using same_process [OF assms, of env now x] exclusive_full_scan [OF assms, of env now x] by (simp add: same_read_def)

text \<open>What continues a finished read: nothing more after a throw, the next read otherwise.\<close>

definition then_read :: "protocol_env \<Rightarrow> int \<Rightarrow> parser \<times> parse_output \<Rightarrow> js_text \<Rightarrow> read_view" where
  "then_read env now r y =
     (if po_threw (snd r) then out_view r
      else prefix_view (po_visible (snd r)) (po_text (snd r)) (plain_events (po_events (snd r)))
             (out_view (full_scan env now (fst r) y)))"

lemma then_read_continued:
  "pp_discarding (fst r) = None \<Longrightarrow> then_read env now r y = continued env now r y"
  by (simp add: then_read_def continued_def full_scan_def)

lemma scan_then_read: "split_safe w \<Longrightarrow> pp_discarding (fst (scan env now m w)) = None \<Longrightarrow>
   out_view (scan env now m (w @ y)) = then_read env now (scan env now m w) y"
  using scan_append by (simp add: then_read_continued)

lemma full_scan_append:
  assumes ex: "exclusive p" and safe: "split_safe (kept_text p @ x)"
    and kept: "pp_discarding (fst (full_scan env now p x)) = None"
  shows "out_view (full_scan env now p (x @ y)) = then_read env now (full_scan env now p x) y"
proof (cases "pp_discarding p")
  case (Some held)
  show ?thesis
  proof (cases "find_string_control_end KindOsc (held @ x)")
    case None
    then show ?thesis using Some find_end_open [OF None, of y] trailing_trailing [of "held @ x" y]
      by (simp add: full_scan_def then_read_def out_view_def prefix_view_def no_output_def split: option.splits)
  next
    case z: (Some z)
    then obtain pl e r b where f: "find_string_control_end KindOsc (held @ x) = Some (pl, e, r, b)" by (cases z) auto
    then have "split_safe r" using safe find_end_split [OF f] split_safe_suffix [of "pl @ e" r] Some by (simp add: kept_text_def)
    moreover have "pp_discarding (fst (scan env now (pp_osc99 p) r)) = None" using kept Some f by (simp add: full_scan_def)
    ultimately show ?thesis using Some f find_end_append [OF f, of y] scan_then_read [of r env now "pp_osc99 p" y]
      by (simp add: full_scan_def)
  qed
next
  case disc: None
  show ?thesis
  proof (cases "pp_forwarding p")
    case None
    then show ?thesis using disc safe kept scan_then_read [of "pp_pending p @ x" env now "pp_osc99 p" y]
      by (simp add: full_scan_def resume_scan_def kept_text_def)
  next
    case (Some a)
    then obtain k h where f: "pp_forwarding p = Some (k, h)" by (cases a) auto
    show ?thesis
    proof (cases "find_string_control_end k (h @ x)")
      case None
      then show ?thesis
        using f disc find_end_open [OF None, of y] trailing_trailing [of "h @ x" y] without_without [of "h @ x" y]
        by (simp add: full_scan_def resume_scan_def then_read_def out_view_def prefix_view_def no_output_def
            prepend_output_def split: option.splits)
    next
      case z: (Some z)
      then obtain pl e r b where g: "find_string_control_end k (h @ x) = Some (pl, e, r, b)" by (cases z) auto
      then have "split_safe r" using safe find_end_split [OF g] split_safe_suffix [of "pl @ e" r] disc f by (simp add: kept_text_def)
      moreover have "pp_discarding (fst (scan env now (pp_osc99 p) r)) = None"
        using kept disc f g by (simp add: full_scan_def resume_scan_def)
      ultimately show ?thesis using disc f g find_end_append [OF g, of y] scan_then_read [of r env now "pp_osc99 p" y]
        by (simp add: full_scan_def resume_scan_def then_read_def) (simp add: prepend_output_def out_view_def prefix_view_def)
    qed
  qed
qed

text \<open>Where a sequence of reads may be cut, from the state the parser is in: at a safe place, and not
  while the parser has just given up on an OSC for its length.\<close>

fun pieces_safe :: "protocol_env \<Rightarrow> int \<Rightarrow> parser \<Rightarrow> js_text list \<Rightarrow> bool" where
  "pieces_safe env now p (x # y # ps) =
     (split_safe (kept_text p @ x) \<and> pp_discarding (fst (process env now p x)) = None \<and>
      pieces_safe env now (fst (process env now p x)) (y # ps))"
| "pieces_safe env now p _ = True"

definition pieces_view :: "parser \<times> parse_output list \<Rightarrow> read_view" where
  "pieces_view r =
     (fst r, concat (map po_visible (snd r)), concat (map po_text (snd r)),
      concat (map (\<lambda>o'. plain_events (po_events o')) (snd r)), list_ex po_threw (snd r))"

lemma process_pieces_view:
  assumes "exclusive p" and "ps \<noteq> []" and "pieces_safe env now p ps"
    and "\<not> po_threw (snd (process env now p (concat ps)))"
  shows "pieces_view (process_pieces env p (map (Pair now) ps)) = out_view (process env now p (concat ps))"
  using assms
proof (induction ps arbitrary: p)
  case (Cons x ps)
  note same = same_process [OF Cons.prems(1), of env now]
  show ?case
  proof (cases ps)
    case Nil
    then show ?thesis using Cons.prems(4)
      by (cases "process env now p x") (simp add: pieces_view_def out_view_def)
  next
    case (Cons y ys)
    define q where "q = fst (process env now p x)"
    have safe: "split_safe (kept_text p @ x)" "pieces_safe env now q ps" "pp_discarding q = None"
      using Cons.prems(3) Cons by (simp_all add: q_def)
    have qf: "fst (full_scan env now p x) = q" using same [of x] by (simp add: same_read_def q_def)
    have whole: "out_view (full_scan env now p (x @ concat ps)) = then_read env now (full_scan env now p x) (concat ps)"
      by (rule full_scan_append [OF Cons.prems(1) safe(1)]) (simp add: qf safe(3))
    have nt: "\<not> po_threw (snd (full_scan env now p (x @ concat ps)))" using Cons.prems(4) same [of "x @ concat ps"] by (simp add: same_read_def)
    have nt1: "\<not> po_threw (snd (full_scan env now p x))"
      using whole nt by (auto simp: then_read_def out_view_def split: if_splits)
    have v1: "out_view (process env now p x) = out_view (full_scan env now p x)" using same [of x] nt1 by (auto simp: same_read_def)
    have exq: "exclusive q" using exclusive_process [OF Cons.prems(1)] by (simp add: q_def)
    note sameq = same_process [OF exq, of env now "concat ps"]
    have w2: "out_view (full_scan env now p (x @ concat ps)) =
        prefix_view (po_visible (snd (full_scan env now p x))) (po_text (snd (full_scan env now p x)))
          (plain_events (po_events (snd (full_scan env now p x)))) (out_view (full_scan env now q (concat ps)))"
      using whole nt1 qf by (simp add: then_read_def)
    have nt2: "\<not> po_threw (snd (full_scan env now q (concat ps)))" using w2 nt by (simp add: out_view_def prefix_view_def)
    then have vq: "out_view (process env now q (concat ps)) = out_view (full_scan env now q (concat ps))"
      and ntq: "\<not> po_threw (snd (process env now q (concat ps)))" using sameq by (auto simp: same_read_def)
    have IH: "pieces_view (process_pieces env q (map (Pair now) ps)) = out_view (process env now q (concat ps))"
      using Cons.IH [OF exq _ safe(2) ntq] Cons by simp
    have vp: "out_view (process env now p (x @ concat ps)) = out_view (full_scan env now p (x @ concat ps))"
      using same [of "x @ concat ps"] nt by (auto simp: same_read_def)
    have first: "po_visible (snd (process env now p x)) = po_visible (snd (full_scan env now p x))"
      "po_text (snd (process env now p x)) = po_text (snd (full_scan env now p x))"
      "plain_events (po_events (snd (process env now p x))) = plain_events (po_events (snd (full_scan env now p x)))"
      "\<not> po_threw (snd (process env now p x))"
      using v1 nt1 by (auto simp: out_view_def)
    have split: "process_pieces env p (map (Pair now) (x # ps)) =
        (fst (process_pieces env q (map (Pair now) ps)), snd (process env now p x) # snd (process_pieces env q (map (Pair now) ps)))"
      by (simp add: q_def apsnd_def map_prod_def split_beta)
    have "pieces_view (process_pieces env p (map (Pair now) (x # ps))) =
        prefix_view (po_visible (snd (full_scan env now p x))) (po_text (snd (full_scan env now p x)))
          (plain_events (po_events (snd (full_scan env now p x)))) (pieces_view (process_pieces env q (map (Pair now) ps)))"
      unfolding split by (simp add: pieces_view_def prefix_view_def first)
    then show ?thesis by (simp add: IH vq vp w2)
  qed
qed simp

end
