(* ===== verification/Term_Parser_Safety.thy ===== *)
theory Term_Parser_Safety
  imports Term_Parser_Correct
begin

text \<open>
  What the parser lets out and what it keeps: every event is free of control characters and bounded
  in size, and so is the state between reads, whatever the terminal program prints.
\<close>

section \<open>Clean events\<close>

definition clean_option :: "nat \<Rightarrow> js_text option \<Rightarrow> bool" where
  "clean_option limit s = (case s of None \<Rightarrow> True | Some t \<Rightarrow> clean_text limit t)"

text \<open>A text without control characters that may be empty.\<close>

definition bounded_plain :: "nat \<Rightarrow> js_text \<Rightarrow> bool" where
  "bounded_plain limit s \<longleftrightarrow> list_all (\<lambda>c. \<not> is_control c) s \<and> length (code_points s) \<le> limit"

definition clean_cwd :: "cwd_state \<Rightarrow> bool" where
  "clean_cwd c \<longleftrightarrow>
     bounded_plain max_cwd_length (cwd_path c) \<and>
     (case cwd_uri c of None \<Rightarrow> True | Some u \<Rightarrow> bounded_plain max_cwd_length u) \<and>
     (case cwd_host c of None \<Rightarrow> True | Some h \<Rightarrow> clean_text max_cwd_length h)"

text \<open>A response is one string control: its introducer, a body without control characters, and the
  string terminator.\<close>

definition framed_response :: "js_text \<Rightarrow> bool" where
  "framed_response d \<longleftrightarrow>
     length d \<ge> 4 \<and> hd d = 27 \<and> opens_string (d ! 1) \<and> drop (length d - 2) d = [27, 92] \<and>
     list_all (\<lambda>c. \<not> is_control c) (butlast (butlast (drop 2 d)))"

definition clean_event :: "protocol_event \<Rightarrow> bool" where
  "clean_event e =
     (case e of
        PeNotification n \<Rightarrow> clean_option title_limit (an_title n) \<and> clean_option body_limit (an_body n)
      | PeProgress p \<Rightarrow> (case pu_percent p of None \<Rightarrow> True | Some v \<Rightarrow> 0 \<le> v \<and> v \<le> 100)
      | PeInherited _ \<Rightarrow> False
      | PeResponse d \<Rightarrow> framed_response d
      | PeSemantic s \<Rightarrow>
          (case s of
             EvCwd c \<Rightarrow> clean_cwd c
           | EvCommandLine l \<Rightarrow> clean_text command_line_limit l
           | EvTitle t \<Rightarrow> clean_text title_limit (tt_title t)
           | _ \<Rightarrow> True))"

text \<open>The one event that is not clean: a progress whose value is what \<open>Object.prototype\<close>'s
  \<open>constructor\<close> or \<open>toString\<close> returned, for an OSC 9;4 that names one of them as its state.\<close>

definition inherited_progress :: "protocol_event \<Rightarrow> bool" where
  "inherited_progress e =
     (case e of
        PeInherited content \<Rightarrow>
          starts_with (js ''9;4;'') content \<and>
          nth_field (js_split 59 content) 2 \<in> {Some (js ''constructor''), Some (js ''toString'')}
      | _ \<Rightarrow> False)"

definition event_ok :: "protocol_event \<Rightarrow> bool" where
  "event_ok e \<longleftrightarrow> clean_event e \<or> inherited_progress e"

definition clean_result :: "osc_result \<Rightarrow> bool" where
  "clean_result r = (case r of OscEvents es \<Rightarrow> list_all event_ok es | _ \<Rightarrow> True)"

lemma clean_result_Nil [simp]: "clean_result (OscEvents [])" "clean_result OscForward" "clean_result OscThrows"
  by (simp_all add: clean_result_def)

lemma limits: "0 < title_limit" "0 < body_limit" "0 < command_line_limit"
  by (simp_all add: title_limit_def body_limit_def command_line_limit_def)

lemma clean_sanitized: "0 < n \<Longrightarrow> clean_option n (sanitize_text s n)"
  by (auto simp: clean_option_def sanitize_clean split: option.splits)

lemma bounded_cwd_plain: "bounded_plain max_cwd_length (bounded_cwd_value s)"
  using bounded_no_control bounded_length by (auto simp: bounded_plain_def list_all_iff)

lemma clean_cwd_osc7: "cwd_from_osc7 lower dec url raw now = Some c \<Longrightarrow> clean_cwd c"
  using bounded_cwd_plain
  by (auto simp: cwd_from_osc7_def clean_cwd_def clean_text_def bounded_plain_def Let_def split: option.splits if_splits)

lemma clean_cwd_osc9: "cwd_from_osc9_9 raw now = Some c \<Longrightarrow> clean_cwd c"
  and clean_cwd_decoded: "cwd_from_decoded_path raw src now = Some c \<Longrightarrow> clean_cwd c"
  using bounded_cwd_plain
  by (auto simp: cwd_from_osc9_9_def cwd_from_decoded_path_def clean_cwd_def Let_def split: if_splits)

lemma clean_cwd_event: "(\<And>c. r = Some c \<Longrightarrow> clean_cwd c) \<Longrightarrow> clean_result (cwd_event r)"
  by (auto simp: cwd_event_def clean_result_def clean_event_def event_ok_def split: option.splits)

lemma clean_notification:
  "clean_option title_limit t \<Longrightarrow> clean_option body_limit b \<Longrightarrow> list_all event_ok (notification_event src t b)"
  by (simp add: notification_event_def clean_event_def event_ok_def)

lemma percent_range: "parse_percent raw = Some v \<Longrightarrow> 0 \<le> v \<and> v \<le> 100"
  by (auto simp: parse_percent_def split: option.splits if_splits)

lemma clean_progress: "parse_osc94 content = Progress p \<Longrightarrow> clean_event (PeProgress p)"
  unfolding parse_osc94_def osc94_lookup_def Let_def
  by (auto simp: clean_event_def event_ok_def dest: percent_range split: if_splits option.splits)

lemma inherited_value:
  assumes "parse_osc94 content = InheritedValue" and "content = js ''9;4'' \<or> starts_with (js ''9;4;'') content"
  shows "inherited_progress (PeInherited content)"
proof -
  let ?f = "nth_field (js_split 59 content) 2"
  have "osc94_lookup (case ?f of None \<Rightarrow> [] | Some s \<Rightarrow> s) (nth_field (js_split 59 content) 3) = InheritedValue"
    using assms(1) by (simp add: parse_osc94_def Let_def)
  then have f: "?f \<in> {Some (js ''constructor''), Some (js ''toString'')}"
    by (auto simp: osc94_lookup_def split: option.splits if_splits)
  have "nth_field (js_split 59 (js ''9;4'')) 2 = None" by (simp add: nth_field_def js_def)
  then have "content \<noteq> js ''9;4''" using f by auto
  then show ?thesis using assms(2) f by (simp add: inherited_progress_def)
qed

lemma clean_osc9: "clean_result (parse_osc9 now content)"
  using clean_progress [of content] inherited_value [of content]
  by (auto simp: parse_osc9_def clean_cwd_osc9 clean_notification clean_sanitized limits clean_option_def [of _ None]
      clean_result_def [of "OscEvents _"] list_all_iff [of _ "[_]"] event_ok_def [of "PeProgress _"] event_ok_def [of "PeInherited _"]
      intro!: clean_cwd_event split: progress_result.splits)

lemma clean_prompt: "clean_result (parse_prompt_boundary parts src)"
  by (auto simp: parse_prompt_boundary_def clean_result_def clean_event_def event_ok_def split: option.splits)

lemma clean_osc133: "clean_result (parse_osc133 content)"
  by (simp add: parse_osc133_def Let_def clean_prompt)

lemma clean_osc633: "clean_result (parse_osc633 now content)"
  by (auto simp: parse_osc633_def parse_osc633_property_def Let_def clean_prompt clean_cwd_decoded limits
      intro!: clean_cwd_event split: option.splits)
     (auto simp: clean_result_def clean_event_def event_ok_def limits intro: sanitize_clean)

lemma clean_title: "clean_result (parse_osc_title content src)"
  by (auto simp: parse_osc_title_def clean_result_def clean_event_def event_ok_def limits intro: sanitize_clean split: option.splits)

lemma clean_osc777: "clean_result (parse_osc777 content)"
  by (auto simp: parse_osc777_def clean_result_def Let_def clean_notification clean_sanitized limits split: prod.splits)

lemma framed_body:
  "opens_string c \<Longrightarrow> list_all (\<lambda>c. \<not> is_control c) body \<Longrightarrow> framed_response ([27, c] @ body @ [27, 92])"
  by (simp add: framed_response_def butlast_append)

lemma ascii_plain: "list_all (\<lambda>c. 32 \<le> c \<and> c \<le> 126) s \<Longrightarrow> list_all (\<lambda>c. \<not> is_control c) s"
  by (auto simp: list_all_iff is_control_def)

lemma framed_support: "framed_response (format_osc99_support_response raw)"
proof -
  have ok: "list_all (\<lambda>c. \<not> is_control c) t" if "normalize_osc99_response_id raw = Some t" for t
    using that by (auto simp: normalize_osc99_response_id_def list_all_iff split: option.splits if_splits)
  have body: "list_all (\<lambda>c. \<not> is_control c)
      (js ''99;'' @ (case normalize_osc99_response_id raw of Some i \<Rightarrow> js ''i='' @ i @ js '':p=?'' | None \<Rightarrow> js ''p=?'')
        @ [59] @ osc99_support_payload)"
    using ok by (auto simp: js_def osc99_support_payload_def is_control_def split: option.splits)
  show ?thesis
    using framed_body [of 93, OF _ body] by (simp add: format_osc99_support_response_def opens_string_def Let_def)
qed

lemma framed_color:
  assumes "format_osc_color_response code color = Some d" and "list_all is_digit code"
  shows "framed_response d"
proof -
  obtain rgb where "(if truthy color then parse_color (the color) else None) = Some rgb"
    using assms(1) by (cases "if truthy color then parse_color (the color) else None") (simp_all add: format_osc_color_response_def)
  then have d: "d = [27, 93] @ (code @ js '';rgb:'' @ hex_channel (rgba_r rgb) @ hex_channel (rgba_r rgb) @ [47]
      @ hex_channel (rgba_g rgb) @ hex_channel (rgba_g rgb) @ [47] @ hex_channel (rgba_b rgb) @ hex_channel (rgba_b rgb)) @ [27, 92]"
    using assms(1) by (simp add: format_osc_color_response_def Let_def)
  have h: "list_all (\<lambda>c. \<not> is_control c) (hex_channel v)" for v
    using hex_channel_plain [of v] by (auto simp: list_all_iff is_control_def)
  have c: "list_all (\<lambda>c. \<not> is_control c) code" using assms(2) by (auto simp: list_all_iff is_digit_def is_control_def)
  have f: "list_all (\<lambda>c. \<not> is_control c) (js '';rgb:'')" "\<not> is_control 47" by (simp_all add: js_def is_control_def)
  show ?thesis unfolding d by (rule framed_body) (simp_all add: opens_string_def h c f)
qed

lemma framed_attributes: "framed_response iterm2_device_attributes_response"
  by (simp add: iterm2_device_attributes_response_def framed_response_def js_def opens_string_def is_control_def)

lemma clean_color: "clean_result (parse_color_query env content)"
proof (cases "content \<in> set (map js [''10;?'', ''11;?'', ''12;?'']) \<and> pe_color env \<noteq> None")
  case True
  then obtain provider where p: "pe_color env = Some provider" by auto
  have digits: "list_all is_digit (take 2 content)" using True by (auto simp: js_def is_digit_def)
  define target where "target = (if take 2 content = js ''10'' then ColorForeground
    else if take 2 content = js ''11'' then ColorBackground else ColorCursor)"
  have "parse_color_query env content =
      (case format_osc_color_response (take 2 content) (provider target) of
         None \<Rightarrow> OscForward | Some data \<Rightarrow> OscEvents [PeResponse data])"
    using True by (simp add: parse_color_query_def p target_def Let_def del: list.set)
  then show ?thesis using framed_color [OF _ digits]
    by (simp add: clean_result_def [of "OscEvents [PeResponse _]"] clean_event_def event_ok_def split: option.splits)
next
  case False
  then have "parse_color_query env content = OscForward"
    by (cases "pe_color env") (simp_all add: parse_color_query_def Let_def del: list.set)
  then show ?thesis by simp
qed

section \<open>Notifications in parts\<close>

definition osc99_entry_ok :: "js_text \<times> osc99_pending \<Rightarrow> bool" where
  "osc99_entry_ok e =
     (case e of (i, p) \<Rightarrow>
        clean_text title_limit i \<and> length (code_points (o9_title p)) \<le> osc99_pending_title_limit \<and>
        length (code_points (o9_body p)) \<le> osc99_pending_body_limit)"

definition osc99_ok :: "osc99_map \<Rightarrow> bool" where
  "osc99_ok m \<longleftrightarrow> length m \<le> osc99_max_pending_ids \<and> distinct (map fst m) \<and> list_all osc99_entry_ok m"

lemma update_present: "k \<in> set (map fst m) \<Longrightarrow> map fst (AList.update k v m) = map fst m"
  by (induction m) auto

lemma update_entries: "e \<in> set (AList.update k v m) \<Longrightarrow> e = (k, v) \<or> e \<in> set m"
  by (induction m) (auto split: if_splits)

lemma osc99_ok_update:
  assumes "osc99_ok m" and "k \<in> set (map fst m)" and "osc99_entry_ok (k, v)"
  shows "osc99_ok (AList.update k v m)"
proof -
  have keys: "map fst (AList.update k v m) = map fst m" by (rule update_present [OF assms(2)])
  then have "length (AList.update k v m) = length m" by (metis length_map)
  then show ?thesis using assms keys update_entries [of _ k v m] by (auto simp: osc99_ok_def list_all_iff)
qed

lemma osc99_ok_delete: "osc99_ok m \<Longrightarrow> osc99_ok (AList.delete k m)"
  by (auto simp: osc99_ok_def AList.delete_eq list_all_iff distinct_map_filter intro: order_trans [OF length_filter_le])

lemma osc99_ok_expire: "osc99_ok m \<Longrightarrow> osc99_ok (expire_osc99_pending now m)"
  by (auto simp: osc99_ok_def expire_osc99_pending_def list_all_iff distinct_map_filter intro: order_trans [OF length_filter_le])

lemma osc99_target_ok:
  assumes "osc99_ok m" and "i = Some k" and "clean_text title_limit k" and "osc99_target i now m = (m', p)"
  shows "osc99_ok m' \<and> k \<in> set (map fst m') \<and> osc99_entry_ok (k, p)"
proof (cases "map_of m k")
  case (Some q)
  then have "(k, q) \<in> set m" by (rule map_of_SomeD)
  then show ?thesis using assms Some by (auto simp: osc99_target_def osc99_ok_def list_all_iff image_iff intro!: bexI [of _ "(k, q)"])
next
  case None
  define new :: osc99_pending where "new = \<lparr>o9_title = [], o9_body = [], o9_updated = now\<rparr>"
  define n where "n = length (m @ [(k, new)]) - osc99_max_pending_ids"
  have m': "m' = drop n (m @ [(k, new)])" and p: "p = new"
    using assms(4) None unfolding assms(2) osc99_target_def new_def n_def enforce_osc99_pending_cap_def
    by (auto simp: Let_def)
  have "n \<le> length m" by (simp add: n_def osc99_max_pending_ids_def)
  then have drop: "m' = drop n m @ [(k, new)]" by (simp add: m')
  have fresh: "k \<notin> fst ` set m" using None by (simp add: map_of_eq_None_iff)
  have entry: "osc99_entry_ok (k, new)" using assms(3) by (simp add: osc99_entry_ok_def new_def)
  have "distinct (map fst (drop n m))" using assms(1) by (simp add: osc99_ok_def drop_map [symmetric])
  moreover have "k \<notin> fst ` set (drop n m)" using fresh by (auto dest: in_set_dropD)
  moreover have "length m' \<le> osc99_max_pending_ids" by (simp add: m' n_def)
  ultimately show ?thesis using assms(1) entry
    by (auto simp: drop p osc99_ok_def list_all_iff dest: in_set_dropD)
qed

lemma osc99_extend_ok:
  "osc99_entry_ok (k, p) \<Longrightarrow> osc99_entry_ok (k, osc99_extend t payload now p)"
  by (simp add: osc99_entry_ok_def osc99_extend_def append_limited_def truncate_length)

lemma osc99_chunk_ok:
  assumes "osc99_ok m" and "clean_option title_limit i" and "osc99_chunk i d t payload now m = (m', r)"
  shows "osc99_ok m' \<and> clean_result r"
proof -
  obtain m1 p where t: "osc99_target i now m = (m1, p)" by (cases "osc99_target i now m") auto
  define target where "target = osc99_extend t payload now p"
  have r: "clean_result r" using assms(3) t
    by (auto simp: osc99_chunk_def clean_result_def Let_def clean_notification clean_sanitized limits split: if_splits)
  have "osc99_ok m'"
  proof (cases i)
    case None
    then show ?thesis using assms(1,3) t by (auto simp: osc99_chunk_def osc99_target_def Let_def split: if_splits)
  next
    case (Some k)
    have ok: "osc99_ok m1 \<and> k \<in> set (map fst m1) \<and> osc99_entry_ok (k, p)"
      using osc99_target_ok [OF assms(1) Some _ t] assms(2) Some by (simp add: clean_option_def)
    then have "osc99_ok (AList.update k target m1)" using osc99_ok_update osc99_extend_ok target_def by metis
    then show ?thesis using assms(3) t Some osc99_ok_delete
      by (auto simp: osc99_chunk_def Let_def target_def [symmetric] split: if_splits)
  qed
  then show ?thesis using r by blast
qed

lemma clean_osc99_id: "clean_option title_limit (osc99_id v)"
  by (auto simp: osc99_id_def clean_option_def sanitize_clean limits split: option.splits)

lemma osc99_ok_parse:
  assumes "osc99_ok m" and "parse_osc99 now m content = (m', r)"
  shows "osc99_ok m' \<and> clean_result r"
proof -
  define m0 where "m0 = expire_osc99_pending now m"
  have m0: "osc99_ok m0" using osc99_ok_expire [OF assms(1)] by (simp add: m0_def)
  show ?thesis
    using assms(2) m0 osc99_chunk_ok [OF m0 clean_osc99_id]
    unfolding parse_osc99_def m0_def [symmetric] Let_def
    by (auto simp: clean_result_def [of "OscEvents [PeResponse _]"] clean_event_def event_ok_def framed_support
        split: prod.splits if_splits option.splits)
qed

lemma parse_osc_ok:
  assumes "osc99_ok m" and "parse_osc env now m content = (m', r)"
  shows "osc99_ok m' \<and> clean_result r"
proof -
  have "clean_result (parse_osc7 env now content)" "clean_result (parse_osc1337 now content)"
    by (auto simp: parse_osc7_def parse_osc1337_def clean_cwd_osc7 clean_cwd_decoded intro!: clean_cwd_event)
  then show ?thesis
    using assms osc99_ok_parse [OF assms(1)] clean_osc9 clean_osc133 clean_osc633 clean_title clean_osc777
      clean_color [of env content]
    unfolding parse_osc_def by (auto split: if_splits osc_result.splits)
qed

section \<open>Reads\<close>

text \<open>What the parser keeps between reads: one of three kinds of text, bounded, and at most
  \<open>OSC99_MAX_PENDING_IDS\<close> unfinished notifications.\<close>

definition parser_bounded :: "parser \<Rightarrow> bool" where
  "parser_bounded p \<longleftrightarrow>
     exclusive p \<and> length (pp_pending p) \<le> osc_incomplete_limit \<and>
     (case pp_forwarding p of None \<Rightarrow> True | Some (k, held) \<Rightarrow> held = [] \<or> held = [27]) \<and>
     (case pp_discarding p of None \<Rightarrow> True | Some held \<Rightarrow> held = [] \<or> held = [27]) \<and>
     osc99_ok (pp_osc99 p)"

lemma trailing_escape_cases: "trailing_escape s = [] \<or> trailing_escape s = [27]"
  by (simp add: trailing_escape_def)

lemma clean_bell_events: "list_all event_ok (bell_events s)"
  by (simp add: bell_events_def clean_event_def event_ok_def terminal_bell_notification_def clean_option_def clean_text_def
      title_limit_def js_def is_control_def)

lemma clean_query_answers: "list_all event_ok (query_answers s)"
  by (simp add: query_answers_def clean_event_def event_ok_def framed_attributes list_all_iff)

lemma pending_suffix_short: "length (take_pending_suffix s) \<le> osc_incomplete_limit"
  using pending_suffix_cases [of s] by (auto simp: device_attribute_pending_suffixes_def osc_incomplete_limit_def)

lemma open_string_bounded:
  "osc99_ok m \<Longrightarrow> parser_bounded (fst (open_string m i r))"
  using trailing_escape_cases by (simp add: open_string_def parser_bounded_def exclusive_def initial_parser_def Let_def)

lemma close_string_ok:
  assumes "osc99_ok m" and "close_string env now m i r p e b = (m', res)"
  shows "osc99_ok m' \<and> (case res of None \<Rightarrow> True | Some (v, es) \<Rightarrow> list_all event_ok es)"
proof -
  obtain m2 r2 where parsed: "parse_osc env now m p = (m2, r2)" by (cases "parse_osc env now m p") auto
  show ?thesis
    using assms parse_osc_ok [OF assms(1) parsed]
    by (auto simp: close_string_def parsed Let_def clean_result_def split: if_splits osc_result.splits)
qed

lemma scan_ok:
  "osc99_ok m \<Longrightarrow> parser_bounded (fst (scan env now m s)) \<and> list_all event_ok (po_events (snd (scan env now m s)))"
proof (induction "length s" arbitrary: s m rule: less_induct)
  case less
  show ?case
  proof (cases "find_introducer s")
    case None
    then show ?thesis using less.prems pending_suffix_short clean_bell_events clean_query_answers
      by (subst (1 2) scan_unfold) (simp add: Let_def parser_bounded_def exclusive_def initial_parser_def)
  next
    case (Some x)
    then obtain g i r where s: "find_introducer s = Some (g, i, r)" by (cases x) auto
    have "parser_bounded (fst (scan_string env now m i r)) \<and> list_all event_ok (po_events (snd (scan_string env now m i r)))"
    proof (cases "find_string_control_end (string_control_kind i) r")
      case None
      then show ?thesis using open_string_bounded [OF less.prems, of i r]
        by (cases "open_string m i r") (simp add: scan_string_def no_output_def)
    next
      case (Some z)
      then obtain p e r' b where z: "find_string_control_end (string_control_kind i) r = Some (p, e, r', b)" by (cases z) auto
      obtain m' res where c: "close_string env now m i r p e b = (m', res)" by (cases "close_string env now m i r p e b") auto
      note ok = close_string_ok [OF less.prems c]
      have "length r' < length s" using find_introducer_shorter [OF s] find_string_control_end_shorter [OF z] by simp
      then have IH: "parser_bounded (fst (scan env now m' r')) \<and> list_all event_ok (po_events (snd (scan env now m' r')))"
        using less.hyps ok by blast
      show ?thesis
      proof (cases res)
        case None
        then show ?thesis using ok
          by (simp add: scan_string_def z c parser_bounded_def exclusive_def initial_parser_def thrown_output_def
              no_output_def osc_incomplete_limit_def)
      next
        case (Some ve)
        then obtain v es where "res = Some (v, es)" by (cases ve) auto
        then show ?thesis using ok IH by (simp add: scan_string_def z c) (simp add: prepend_output_def)
      qed
    qed
    then show ?thesis using clean_bell_events clean_query_answers
      by (simp add: scan_gap [OF s]) (simp add: prepend_output_def)
  qed
qed

lemma clean_filter_bells: "list_all event_ok es \<Longrightarrow> list_all event_ok (filter_bell_events es)"
proof -
  assume c: "list_all event_ok es"
  then have "list_all event_ok (keep_first_bell es)" by (induction es) (auto simp: list_all_iff)
  then show ?thesis using c by (simp add: filter_bell_events_def) (simp add: list_all_iff)
qed

lemma ground_ok:
  assumes "parser_bounded p" and "pp_forwarding p = None" and "pp_discarding p = None"
  shows "parser_bounded (fst (process_ground env now p x)) \<and>
    list_all event_ok (po_events (snd (process_ground env now p x)))"
  using assms scan_ok [of "pp_osc99 p" env now "pp_pending p @ x"] clean_filter_bells
  by (auto simp: process_ground_def parser_bounded_def [of p] thrown_output_def no_output_def split: prod.splits)

lemma kept_ok:
  assumes "parser_bounded p" and "pp_discarding p = None"
  shows "parser_bounded (fst (process_kept env now p x)) \<and> list_all event_ok (po_events (snd (process_kept env now p x)))"
proof (cases "pp_forwarding p")
  case None
  then show ?thesis using ground_ok [OF assms(1) None assms(2)] by (simp add: process_kept_def)
next
  case (Some a)
  then obtain k h where f: "pp_forwarding p = Some (k, h)" by (cases a) auto
  then have pend: "pp_pending p = []" using assms(1) by (auto simp: parser_bounded_def exclusive_def)
  have b: "parser_bounded (p\<lparr>pp_forwarding := None\<rparr>)" using assms pend by (simp add: parser_bounded_def exclusive_def)
  show ?thesis
  proof (cases "find_string_control_end k (h @ x)")
    case None
    then show ?thesis using f assms pend trailing_escape_cases
      by (simp add: process_kept_def process_forwarded_def no_output_def parser_bounded_def exclusive_def Let_def)
  next
    case (Some z)
    then obtain pl e r c where "find_string_control_end k (h @ x) = Some (pl, e, r, c)" by (cases z) auto
    then show ?thesis using f ground_ok [OF b, of env now r] assms(2)
      by (auto simp: process_kept_def process_forwarded_def thrown_output_def no_output_def Let_def split: prod.splits)
  qed
qed

lemma process_ok:
  assumes "parser_bounded p"
  shows "parser_bounded (fst (process env now p x)) \<and> list_all event_ok (po_events (snd (process env now p x)))"
proof (cases "pp_discarding p")
  case None
  then show ?thesis using kept_ok [OF assms None] by (simp add: process_def)
next
  case (Some held)
  then have pend: "pp_forwarding p = None" "pp_pending p = []" using assms by (auto simp: parser_bounded_def exclusive_def)
  have b: "parser_bounded (p\<lparr>pp_discarding := None\<rparr>)" using assms pend by (simp add: parser_bounded_def exclusive_def)
  show ?thesis
  proof (cases "find_string_control_end KindOsc (held @ x)")
    case None
    then show ?thesis using Some assms pend trailing_escape_cases [of "held @ x"]
      by (simp add: process_def Let_def no_output_def parser_bounded_def exclusive_def)
  next
    case z: (Some z)
    then obtain pl e r c where "find_string_control_end KindOsc (held @ x) = Some (pl, e, r, c)" by (cases z) auto
    then show ?thesis using Some kept_ok [OF b, of env now r] by (simp add: process_def)
  qed
qed

lemma initial_bounded: "parser_bounded initial_parser"
  by (simp add: parser_bounded_def exclusive_def initial_parser_def osc99_ok_def)

text \<open>A parser is driven by its reads.\<close>

definition parser_read :: "protocol_env \<Rightarrow> int \<times> js_text \<Rightarrow> parser \<Rightarrow> parser" where
  "parser_read env r p = fst (process env (fst r) p (snd r))"

interpretation parser_reads: event_system "parser_read env" "\<lambda>_. True" parser_bounded
  for env :: protocol_env
  by unfold_locales (simp add: parser_read_def process_ok)

lemma process_pieces_state: "fst (process_pieces env p reads) = fold (parser_read env) reads p"
  by (induction reads arbitrary: p) (auto simp: parser_read_def split: prod.splits)

lemma exclusive_history: "exclusive (fst (process_pieces env initial_parser history))"
proof -
  have "parser_bounded (fold (parser_read env) history initial_parser)"
    by (rule parser_reads.run_keeps [OF initial_bounded]) (simp add: list_all_iff)
  then show ?thesis by (simp add: process_pieces_state parser_bounded_def)
qed

lemma process_pieces_ok:
  "parser_bounded p \<Longrightarrow> list_all (\<lambda>o'. list_all event_ok (po_events o')) (snd (process_pieces env p reads))"
proof (induction reads arbitrary: p)
  case (Cons r reads)
  obtain now x where r: "r = (now, x)" by (cases r) auto
  show ?case using process_ok [OF Cons.prems, of env now x] Cons.IH
    by (cases "process env now p x") (auto simp: r)
qed simp

end
