(* ===== verification/Term_Stream.thy ===== *)
theory Term_Stream
  imports Term_Parser_Safety
begin

text \<open>
  \<open>lib/src/lib/processed-pty-stream.ts\<close>: the one parser of a terminal process and the sinks that
  share what it reads. A sink is a number; what the stream calls out with is the list of
  \<open>stream_out\<close> a step returns. The callbacks do not call back into the stream, and what a sink
  throws is caught, so neither is part of the state.
\<close>

section \<open>State\<close>

definition max_parser_input_chars :: nat where
  "max_parser_input_chars = 65536"

record pty_chunk =
  ck_data :: js_text
  ck_text :: "js_text option"

datatype stream_out =
    OutEvents "protocol_event list"
  | OutChunk pty_chunk
  | SinkChunk nat pty_chunk

text \<open>The subscriptions in the order of the set, each with its \<open>held\<close> flag.\<close>

record pty_stream =
  st_parser :: parser
  st_sinks :: "(nat \<times> bool) list"
  st_next :: nat

definition create_processed_pty_stream :: pty_stream where
  "create_processed_pty_stream = \<lparr>st_parser = initial_parser, st_sinks = [], st_next = 0\<rparr>"

definition chunk_of :: "js_text \<Rightarrow> js_text \<Rightarrow> pty_chunk" where
  "chunk_of visible t = \<lparr>ck_data = visible, ck_text = text_projection_of visible t\<rparr>"

section \<open>Operations\<close>

text \<open>\<open>boundPtyRead\<close>; its callers only pass the default limit, and zero would not advance.\<close>

function split_read :: "nat \<Rightarrow> js_text \<Rightarrow> js_text list" where
  "split_read limit s =
     (if s = [] \<or> limit = 0 then []
      else let n = min limit (length s);
               n' = (if n < length s \<and> 1 < n \<and> is_high (s ! (n - 1)) then n - 1 else n)
           in take n' s # split_read limit (drop n' s))"
  by pat_completeness auto
termination
  by (relation "measure (\<lambda>(limit, s). length s)") (auto simp: Let_def split: if_splits)

declare split_read.simps [simp del]

definition bound_pty_read :: "js_text \<Rightarrow> js_text list" where
  "bound_pty_read raw = (if length raw \<le> max_parser_input_chars then [raw] else split_read max_parser_input_chars raw)"

definition deliver_sink :: "parse_output \<Rightarrow> nat \<times> bool \<Rightarrow> (nat \<times> bool) \<times> stream_out list" where
  "deliver_sink out sub =
     (case sub of (i, held) \<Rightarrow>
        if \<not> held then
          (sub, if po_visible out = [] then [] else [SinkChunk i (chunk_of (po_visible out) (po_text out))])
        else case po_resumed out of
               None \<Rightarrow> (sub, [])
             | Some n \<Rightarrow>
                 (let ground = drop n (po_visible out)
                  in ((i, False), if ground = [] then [] else [SinkChunk i (chunk_of ground (po_text out))])))"

text \<open>\<open>deliver\<close>: the state, the calls, and whether the parser threw.\<close>

definition deliver :: "protocol_env \<Rightarrow> int \<Rightarrow> js_text \<Rightarrow> pty_stream \<Rightarrow> pty_stream \<times> stream_out list \<times> bool" where
  "deliver env now piece s =
     (let (p, out) = process env now (st_parser s) piece
      in if po_threw out then (s\<lparr>st_parser := p\<rparr>, [], True)
         else (s\<lparr>st_parser := p, st_sinks := map (fst \<circ> deliver_sink out) (st_sinks s)\<rparr>,
               (if po_events out = [] then [] else [OutEvents (po_events out)]) @
               (if po_visible out = [] then [] else [OutChunk (chunk_of (po_visible out) (po_text out))]) @
               concat (map (snd \<circ> deliver_sink out) (st_sinks s)),
               False))"

fun deliver_pieces :: "protocol_env \<Rightarrow> (int \<times> js_text) list \<Rightarrow> pty_stream \<Rightarrow> pty_stream \<times> stream_out list \<times> bool" where
  "deliver_pieces env [] s = (s, [], False)"
| "deliver_pieces env ((now, x) # xs) s =
     (case deliver env now x s of
        (s', outs, True) \<Rightarrow> (s', outs, True)
      | (s', outs, False) \<Rightarrow>
          (case deliver_pieces env xs s' of (s'', outs', b) \<Rightarrow> (s'', outs @ outs', b)))"

definition stream_write :: "protocol_env \<Rightarrow> int \<Rightarrow> js_text \<Rightarrow> pty_stream \<Rightarrow> pty_stream \<times> stream_out list \<times> bool" where
  "stream_write env now raw s = deliver_pieces env (map (Pair now) (bound_pty_read raw)) s"

definition is_forwarding_string :: "parser \<Rightarrow> bool" where
  "is_forwarding_string p \<longleftrightarrow> pp_forwarding p \<noteq> None"

definition stream_subscribe :: "pty_stream \<Rightarrow> pty_stream \<times> nat" where
  "stream_subscribe s =
     (s\<lparr>st_sinks := st_sinks s @ [(st_next s, is_forwarding_string (st_parser s))], st_next := st_next s + 1\<rparr>, st_next s)"

definition stream_unsubscribe :: "nat \<Rightarrow> pty_stream \<Rightarrow> pty_stream" where
  "stream_unsubscribe i s = s\<lparr>st_sinks := filter (\<lambda>(j, h). j \<noteq> i) (st_sinks s)\<rparr>"

definition has_sinks :: "pty_stream \<Rightarrow> bool" where
  "has_sinks s \<longleftrightarrow> st_sinks s \<noteq> []"

section \<open>Splitting a read\<close>

lemma split_read_concat: "0 < limit \<Longrightarrow> concat (split_read limit s) = s"
  by (induction limit s rule: split_read.induct) (subst split_read.simps, auto simp: Let_def)

lemma split_read_pieces:
  "list_all (\<lambda>p. p \<noteq> [] \<and> length p \<le> limit) (split_read limit s)"
proof (induction limit s rule: split_read.induct)
  case (1 limit s)
  then show ?case by (subst split_read.simps) (auto simp: Let_def)
qed

fun keeps_pairs :: "js_text list \<Rightarrow> bool" where
  "keeps_pairs (p # q # ps) = (\<not> (is_high (last p) \<and> is_low (hd q)) \<and> keeps_pairs (q # ps))"
| "keeps_pairs _ = True"

lemma split_read_Cons: "split_read limit s = p # ps \<Longrightarrow> s \<noteq> [] \<and> hd p = hd s"
  by (subst (asm) split_read.simps) (auto simp: Let_def hd_take split: if_splits)

lemma split_read_pairs: "1 < limit \<Longrightarrow> keeps_pairs (split_read limit s)"
proof (induction limit s rule: split_read.induct)
  case (1 limit s)
  show ?case
  proof (cases "s = []")
    case True
    then show ?thesis by (simp add: split_read.simps)
  next
    case False
    define n where "n = min limit (length s)"
    define n' where "n' = (if n < length s \<and> 1 < n \<and> is_high (s ! (n - 1)) then n - 1 else n)"
    have n: "0 < n" "n \<le> length s" "0 < n'" "n' \<le> n" using False 1(2) by (auto simp: n_def n'_def)
    have step: "split_read limit s = take n' s # split_read limit (drop n' s)"
      unfolding n'_def n_def split_read.simps [of limit s] Let_def using False 1(2) by (simp only: if_False refl) simp
    have IH: "keeps_pairs (split_read limit (drop n' s))" using 1 False n_def n'_def by auto
    show ?thesis
    proof (cases "split_read limit (drop n' s)")
      case (Cons q ps)
      have q: "drop n' s \<noteq> []" "hd q = s ! n'" using split_read_Cons [OF Cons] by (auto simp: hd_drop_conv_nth)
      have l: "last (take n' s) = s ! (n' - 1)" using n q by (subst last_conv_nth) (auto simp: min_def)
      have "\<not> (is_high (last (take n' s)) \<and> is_low (hd q))"
      proof (cases "n' = n")
        case True
        then have "n < length s" using q by simp
        then have "\<not> is_high (s ! (n - 1))" using True n 1(2) by (auto simp: n'_def n_def split: if_splits)
        then show ?thesis using l True by simp
      next
        case False
        then have "is_high (s ! n')" by (auto simp: n'_def split: if_splits)
        then show ?thesis using q by (auto simp: is_high_def is_low_def)
      qed
      then show ?thesis using IH Cons by (simp add: step)
    qed (simp add: step)
  qed
qed

lemma bound_pty_read_splits:
  "concat (bound_pty_read raw) = raw \<and> list_all (\<lambda>p. length p \<le> max_parser_input_chars) (bound_pty_read raw) \<and>
   keeps_pairs (bound_pty_read raw)"
  using split_read_concat [of max_parser_input_chars raw] split_read_pieces [of max_parser_input_chars raw]
    split_read_pairs [of max_parser_input_chars raw]
  by (auto simp: bound_pty_read_def max_parser_input_chars_def list_all_iff)

section \<open>Late sinks\<close>

definition sink_data :: "nat \<Rightarrow> stream_out list \<Rightarrow> js_text" where
  "sink_data i outs = concat (map (\<lambda>o'. case o' of SinkChunk j c \<Rightarrow> if j = i then ck_data c else [] | _ \<Rightarrow> []) outs)"

definition owner_data :: "stream_out list \<Rightarrow> js_text" where
  "owner_data outs = concat (map (\<lambda>o'. case o' of OutChunk c \<Rightarrow> ck_data c | _ \<Rightarrow> []) outs)"

lemma sink_data_append [simp]: "sink_data i (x @ y) = sink_data i x @ sink_data i y"
  and owner_data_append [simp]: "owner_data (x @ y) = owner_data x @ owner_data y"
  by (simp_all add: sink_data_def owner_data_def)

definition sink_share :: "parse_output \<Rightarrow> bool \<Rightarrow> js_text" where
  "sink_share out held =
     (if \<not> held then po_visible out
      else case po_resumed out of None \<Rightarrow> [] | Some n \<Rightarrow> drop n (po_visible out))"

lemma deliver_sink_data:
  "sink_data i (snd (deliver_sink out (j, held))) = (if j = i then sink_share out held else [])"
  "owner_data (snd (deliver_sink out (j, held))) = []"
  by (auto simp: deliver_sink_def sink_data_def owner_data_def sink_share_def chunk_of_def Let_def split: option.splits)

lemma deliver_sink_id: "fst (fst (deliver_sink out sub)) = fst sub"
  by (cases sub) (auto simp: deliver_sink_def Let_def split: option.splits)

text \<open>A sink that waits is released by the first read that ends what it waits for.\<close>

definition still_held :: "parse_output \<Rightarrow> bool \<Rightarrow> bool" where
  "still_held out held \<longleftrightarrow> held \<and> po_resumed out = None"

lemma deliver_sink_held: "snd (fst (deliver_sink out sub)) = still_held out (snd sub)"
  by (cases sub) (auto simp: deliver_sink_def still_held_def Let_def split: option.splits)

lemma sinks_data:
  assumes "distinct (map fst subs)" and "(i, held) \<in> set subs"
  shows "sink_data i (concat (map (snd \<circ> deliver_sink out) subs)) = sink_share out held"
  using assms
proof (induction subs)
  case (Cons sub subs)
  obtain j h where sub: "sub = (j, h)" by (cases sub) auto
  have other: "sink_data i (concat (map (snd \<circ> deliver_sink out) xs)) = []" if "i \<notin> fst ` set xs" for xs
    using that by (induction xs) (auto simp: deliver_sink_data sink_data_def [of i "[]"])
  show ?case
  proof (cases "j = i")
    case True
    then have "h = held" using Cons.prems sub by (auto simp: image_iff)
    then show ?thesis using Cons.prems(1) sub True other [of subs] by (auto simp: deliver_sink_data comp_def)
  next
    case False
    then show ?thesis using Cons sub by (simp add: deliver_sink_data)
  qed
qed simp

lemma sinks_owner: "owner_data (concat (map (snd \<circ> deliver_sink out) subs)) = []"
proof (induction subs)
  case (Cons sub subs)
  then show ?case by (cases sub) (simp add: deliver_sink_data)
qed (simp add: owner_data_def)

definition stream_ok :: "pty_stream \<Rightarrow> bool" where
  "stream_ok s \<longleftrightarrow>
     parser_bounded (st_parser s) \<and> distinct (map fst (st_sinks s)) \<and> list_all (\<lambda>sub. fst sub < st_next s) (st_sinks s)"

lemma deliver_step:
  assumes "deliver env now x s = (s', outs, False)" and "stream_ok s" and "(i, held) \<in> set (st_sinks s)"
  shows "st_parser s' = fst (process env now (st_parser s) x)"
    and "owner_data outs = po_visible (snd (process env now (st_parser s) x))"
    and "sink_data i outs = sink_share (snd (process env now (st_parser s) x)) held"
    and "(i, still_held (snd (process env now (st_parser s) x)) held) \<in> set (st_sinks s')"
    and "stream_ok s'"
    and "\<not> po_threw (snd (process env now (st_parser s) x))"
proof -
  obtain p out where pr: "process env now (st_parser s) x = (p, out)" by (cases "process env now (st_parser s) x") auto
  have nt: "\<not> po_threw out" using assms(1) by (auto simp: deliver_def pr split: if_splits)
  have s': "s' = s\<lparr>st_parser := p, st_sinks := map (fst \<circ> deliver_sink out) (st_sinks s)\<rparr>"
    and outs: "outs = (if po_events out = [] then [] else [OutEvents (po_events out)]) @
      (if po_visible out = [] then [] else [OutChunk (chunk_of (po_visible out) (po_text out))]) @
      concat (map (snd \<circ> deliver_sink out) (st_sinks s))"
    using assms(1) nt by (simp_all add: deliver_def pr)
  show "st_parser s' = fst (process env now (st_parser s) x)" by (simp add: s' pr)
  show "owner_data outs = po_visible (snd (process env now (st_parser s) x))"
    using sinks_owner by (simp add: outs pr) (simp add: owner_data_def chunk_of_def)
  have "sink_data i (concat (map (snd \<circ> deliver_sink out) (st_sinks s))) = sink_share out held"
    using sinks_data assms(2,3) by (simp add: stream_ok_def)
  then show "sink_data i outs = sink_share (snd (process env now (st_parser s) x)) held"
    by (simp add: outs pr) (simp add: sink_data_def)
  have "fst (deliver_sink out (i, held)) = (i, still_held out held)"
    using deliver_sink_id [of out "(i, held)"] deliver_sink_held [of out "(i, held)"] by (cases "fst (deliver_sink out (i, held))") simp
  then show "(i, still_held (snd (process env now (st_parser s) x)) held) \<in> set (st_sinks s')"
    using assms(3) by (force simp: s' pr)
  have "map fst (st_sinks s') = map fst (st_sinks s)" by (simp add: s' deliver_sink_id comp_def)
  then show "stream_ok s'"
    using assms(2) process_ok [of "st_parser s" env now x]
    by (auto simp: stream_ok_def s' pr list_all_iff deliver_sink_id simp del: map_map)
  show "\<not> po_threw (snd (process env now (st_parser s) x))" using nt by (simp add: pr)
qed

lemma deliver_pieces_Cons:
  assumes "deliver_pieces env ((now, x) # xs) s = (s', outs, False)"
  obtains s1 o1 o2 where "deliver env now x s = (s1, o1, False)" "deliver_pieces env xs s1 = (s', o2, False)" "outs = o1 @ o2"
proof -
  obtain s1 o1 b1 where d: "deliver env now x s = (s1, o1, b1)" by (metis prod_cases3)
  have b1: "\<not> b1" using assms by (cases b1) (auto simp: d)
  obtain s2 o2 b2 where r: "deliver_pieces env xs s1 = (s2, o2, b2)" by (metis prod_cases3)
  show thesis using that [of s1 o1 o2] assms d b1 r by auto
qed

lemma free_sink_sees_all:
  assumes "deliver_pieces env xs s = (s', outs, False)" and "stream_ok s" and "(i, False) \<in> set (st_sinks s)"
  shows "sink_data i outs = owner_data outs"
  using assms
proof (induction xs arbitrary: s outs)
  case (Cons nx xs)
  obtain now x where nx: "nx = (now, x)" by (cases nx) auto
  obtain s1 o1 o2 where d: "deliver env now x s = (s1, o1, False)" "deliver_pieces env xs s1 = (s', o2, False)"
    and outs: "outs = o1 @ o2" using deliver_pieces_Cons [OF Cons.prems(1) [unfolded nx]] .
  note step = deliver_step [OF d(1) Cons.prems(2,3)]
  have "sink_data i o2 = owner_data o2"
    using Cons.IH [OF d(2) step(5)] step(4) by (simp add: still_held_def)
  then show ?case using step(2,3) by (simp add: outs sink_share_def)
qed (simp add: sink_data_def owner_data_def)

lemma forwarding_read:
  assumes "exclusive p" and "pp_forwarding p = Some (k, h)"
  shows "find_string_control_end k (h @ x) = None \<Longrightarrow>
      process env now p x = (p\<lparr>pp_forwarding := Some (k, trailing_escape (h @ x))\<rparr>,
        no_output\<lparr>po_visible := without_escape (h @ x), po_resumed := None\<rparr>)"
    and "find_string_control_end k (h @ x) = Some (pl, e, r, b) \<Longrightarrow> \<not> po_threw (snd (process env now p x)) \<Longrightarrow>
      po_resumed (snd (process env now p x)) = Some (length (pl @ e)) \<and>
      (\<exists>v. po_visible (snd (process env now p x)) = pl @ e @ v)"
proof -
  have "pp_discarding p = None" using assms by (auto simp: exclusive_def)
  then have pr: "process env now p x = process_forwarded env now p k h x"
    using assms(2) by (simp add: process_def process_kept_def)
  show "find_string_control_end k (h @ x) = None \<Longrightarrow>
      process env now p x = (p\<lparr>pp_forwarding := Some (k, trailing_escape (h @ x))\<rparr>,
        no_output\<lparr>po_visible := without_escape (h @ x), po_resumed := None\<rparr>)"
    by (simp add: pr process_forwarded_def Let_def)
  show "find_string_control_end k (h @ x) = Some (pl, e, r, b) \<Longrightarrow> \<not> po_threw (snd (process env now p x)) \<Longrightarrow>
      po_resumed (snd (process env now p x)) = Some (length (pl @ e)) \<and>
      (\<exists>v. po_visible (snd (process env now p x)) = pl @ e @ v)"
    by (auto simp: pr process_forwarded_def thrown_output_def Let_def split: prod.splits if_splits)
qed

text \<open>What a sink misses that joins inside a string control: up to the end of that string.\<close>

definition string_rest :: "parser \<Rightarrow> js_text \<Rightarrow> js_text" where
  "string_rest p input =
     (case pp_forwarding p of
        None \<Rightarrow> []
      | Some (k, held) \<Rightarrow>
          (case find_string_control_end k (held @ input) of
             None \<Rightarrow> without_escape (held @ input)
           | Some (payload, e, rest, b) \<Rightarrow> payload @ e))"

lemma held_sink_misses_string:
  assumes "deliver_pieces env xs s = (s', outs, False)" and "stream_ok s"
    and "(i, is_forwarding_string (st_parser s)) \<in> set (st_sinks s)"
  shows "owner_data outs = string_rest (st_parser s) (concat (map snd xs)) @ sink_data i outs"
  using assms
proof (induction xs arbitrary: s outs)
  case Nil
  have "string_rest (st_parser s) [] = []"
    using Nil(2) by (auto simp: stream_ok_def parser_bounded_def string_rest_def without_escape_def ends_with_unit
        string_control_end_scan_def split: option.splits)
  then show ?case using Nil(1) by (simp add: owner_data_def sink_data_def)
next
  case (Cons nx xs)
  obtain now x where nx: "nx = (now, x)" by (cases nx) auto
  show ?case
  proof (cases "pp_forwarding (st_parser s)")
    case None
    then show ?thesis using free_sink_sees_all [OF Cons.prems(1,2)] Cons.prems(3)
      by (simp add: string_rest_def is_forwarding_string_def)
  next
    case (Some a)
    then obtain k h where f: "pp_forwarding (st_parser s) = Some (k, h)" by (cases a) auto
    have ex: "exclusive (st_parser s)" using Cons.prems(2) by (simp add: stream_ok_def parser_bounded_def)
    obtain s1 o1 o2 where d: "deliver env now x s = (s1, o1, False)" "deliver_pieces env xs s1 = (s', o2, False)"
      and outs: "outs = o1 @ o2" using deliver_pieces_Cons [OF Cons.prems(1) [unfolded nx]] .
    have held: "(i, True) \<in> set (st_sinks s)" using Cons.prems(3) f by (simp add: is_forwarding_string_def)
    note step = deliver_step [OF d(1) Cons.prems(2) held]
    show ?thesis
    proof (cases "find_string_control_end k (h @ x)")
      case None
      note pr = forwarding_read(1) [OF ex f None, of env now]
      have p1: "st_parser s1 = (st_parser s)\<lparr>pp_forwarding := Some (k, trailing_escape (h @ x))\<rparr>" using step(1) pr by simp
      have o1: "owner_data o1 = without_escape (h @ x)" "sink_data i o1 = []"
        using step(2,3) pr by (simp_all add: sink_share_def)
      have "(i, True) \<in> set (st_sinks s1)" using step(4) pr by (simp add: still_held_def)
      then have IH: "owner_data o2 = string_rest (st_parser s1) (concat (map snd xs)) @ sink_data i o2"
        using Cons.IH [OF d(2) step(5)] p1 by (simp add: is_forwarding_string_def)
      have "string_rest (st_parser s) (concat (map snd (nx # xs))) = without_escape (h @ x) @ string_rest (st_parser s1) (concat (map snd xs))"
        using find_end_open [OF None, of "concat (map snd xs)"] without_without [of "h @ x" "concat (map snd xs)"]
        by (simp add: string_rest_def f p1 nx split: option.splits)
      then show ?thesis using IH o1 by (simp add: outs)
    next
      case (Some z)
      then obtain pl e r b where z: "find_string_control_end k (h @ x) = Some (pl, e, r, b)" by (cases z) auto
      obtain v where v: "po_resumed (snd (process env now (st_parser s) x)) = Some (length (pl @ e))"
        "po_visible (snd (process env now (st_parser s) x)) = pl @ e @ v"
        using forwarding_read(2) [OF ex f z step(6)] by blast
      have "(i, False) \<in> set (st_sinks s1)" using step(4) v by (simp add: still_held_def)
      then have "sink_data i o2 = owner_data o2" by (rule free_sink_sees_all [OF d(2) step(5)])
      moreover have "owner_data o1 = pl @ e @ v" "sink_data i o1 = v" using step(2,3) v by (simp_all add: sink_share_def)
      moreover have "string_rest (st_parser s) (concat (map snd (nx # xs))) = pl @ e"
        using find_end_append [OF z, of "concat (map snd xs)"] by (simp add: string_rest_def f nx)
      ultimately show ?thesis by (simp add: outs)
    qed
  qed
qed

section \<open>Runs of a stream\<close>

datatype stream_event = StreamWrite int js_text | StreamSubscribe | StreamUnsubscribe nat

fun stream_step :: "protocol_env \<Rightarrow> stream_event \<Rightarrow> pty_stream \<Rightarrow> pty_stream" where
  "stream_step env (StreamWrite now raw) s = fst (stream_write env now raw s)"
| "stream_step env StreamSubscribe s = fst (stream_subscribe s)"
| "stream_step env (StreamUnsubscribe i) s = stream_unsubscribe i s"

lemma deliver_ok:
  assumes "stream_ok s"
  shows "stream_ok (fst (deliver env now x s))"
proof -
  obtain p out where pr: "process env now (st_parser s) x = (p, out)" by (cases "process env now (st_parser s) x") auto
  have "parser_bounded p" using assms process_ok [of "st_parser s" env now x] by (simp add: stream_ok_def pr)
  moreover have "map fst (map (fst \<circ> deliver_sink out) (st_sinks s)) = map fst (st_sinks s)"
    by (simp add: deliver_sink_id comp_def)
  ultimately show ?thesis using assms
    by (auto simp: deliver_def pr stream_ok_def list_all_iff deliver_sink_id simp del: map_map)
qed

lemma deliver_pieces_ok: "stream_ok s \<Longrightarrow> stream_ok (fst (deliver_pieces env xs s))"
proof (induction xs arbitrary: s)
  case (Cons nx xs)
  obtain now x where nx: "nx = (now, x)" by (cases nx) auto
  obtain s1 o1 b where d: "deliver env now x s = (s1, o1, b)" by (metis prod_cases3)
  have "stream_ok s1" using deliver_ok [OF Cons.prems, of env now x] by (simp add: d)
  then show ?case using Cons.IH [of s1] by (cases b) (simp_all add: nx d split_beta)
qed simp

lemma subscribe_ok: "stream_ok s \<Longrightarrow> stream_ok (fst (stream_subscribe s))"
  by (auto simp: stream_ok_def stream_subscribe_def list_all_iff less_Suc_eq)

lemma stream_step_ok: "stream_ok s \<Longrightarrow> stream_ok (stream_step env e s)"
proof (cases e)
  case (StreamUnsubscribe i)
  then show "stream_ok s \<Longrightarrow> stream_ok (stream_step env e s)"
    by (auto simp: stream_ok_def stream_unsubscribe_def list_all_iff distinct_map_filter)
qed (simp_all add: subscribe_ok stream_write_def deliver_pieces_ok)

interpretation stream_events: event_system "stream_step env" "\<lambda>_. True" stream_ok
  for env :: protocol_env
  by unfold_locales (rule stream_step_ok)

lemma created_ok: "stream_ok create_processed_pty_stream"
  by (simp add: stream_ok_def create_processed_pty_stream_def initial_bounded)

lemma stream_run_ok: "stream_ok (fold (stream_step env) es create_processed_pty_stream)"
  by (rule stream_events.run_keeps [OF created_ok]) (simp add: list_all_iff)

text \<open>Several writes, up to the first that throws.\<close>

fun stream_writes :: "protocol_env \<Rightarrow> (int \<times> js_text) list \<Rightarrow> pty_stream \<Rightarrow> pty_stream \<times> stream_out list \<times> bool" where
  "stream_writes env [] s = (s, [], False)"
| "stream_writes env ((now, raw) # ws) s =
     (case stream_write env now raw s of
        (s', outs, True) \<Rightarrow> (s', outs, True)
      | (s', outs, False) \<Rightarrow>
          (case stream_writes env ws s' of (s'', outs', b) \<Rightarrow> (s'', outs @ outs', b)))"

lemma deliver_pieces_append:
  "deliver_pieces env xs s = (s1, o1, False) \<Longrightarrow> deliver_pieces env ys s1 = (s2, o2, b) \<Longrightarrow>
   deliver_pieces env (xs @ ys) s = (s2, o1 @ o2, b)"
proof (induction xs arbitrary: s o1)
  case (Cons nx xs)
  obtain now x where nx: "nx = (now, x)" by (cases nx) auto
  obtain s' oa ob where d: "deliver env now x s = (s', oa, False)" "deliver_pieces env xs s' = (s1, ob, False)"
    and o1: "o1 = oa @ ob" using deliver_pieces_Cons [OF Cons.prems(1) [unfolded nx]] .
  show ?case using Cons.IH [OF d(2) Cons.prems(2)] d(1) by (simp add: nx o1)
qed simp

lemma stream_writes_pieces:
  "stream_writes env ws s = (s', outs, False) \<Longrightarrow>
   \<exists>xs. deliver_pieces env xs s = (s', outs, False) \<and> concat (map snd xs) = concat (map snd ws)"
proof (induction ws arbitrary: s outs)
  case Nil
  then show ?case by (intro exI [of _ "[]"]) simp
next
  case (Cons w ws)
  obtain now raw where w: "w = (now, raw)" by (cases w) auto
  obtain s1 o1 b1 where d: "stream_write env now raw s = (s1, o1, b1)" by (metis prod_cases3)
  have b1: "\<not> b1" using Cons.prems by (cases b1) (auto simp: w d)
  obtain s2 o2 b2 where r: "stream_writes env ws s1 = (s2, o2, b2)" by (metis prod_cases3)
  have e: "s2 = s'" "outs = o1 @ o2" "\<not> b2" using Cons.prems b1 by (auto simp: w d r)
  obtain xs where xs: "deliver_pieces env xs s1 = (s', o2, False)" "concat (map snd xs) = concat (map snd ws)"
    using Cons.IH [of s1 o2] r e by auto
  have "deliver_pieces env (map (Pair now) (bound_pty_read raw)) s = (s1, o1, False)"
    using d b1 by (simp add: stream_write_def)
  then have "deliver_pieces env (map (Pair now) (bound_pty_read raw) @ xs) s = (s', outs, False)"
    using deliver_pieces_append xs(1) e(2) by blast
  moreover have "concat (map snd (map (Pair now) (bound_pty_read raw) @ xs)) = concat (map snd (w # ws))"
    using bound_pty_read_splits [of raw] xs(2) by (simp add: w comp_def)
  ultimately show ?case by blast
qed

lemma subscribe_sink:
  assumes "stream_subscribe s = (s1, i)" and "stream_ok s"
  shows "(i, is_forwarding_string (st_parser s1)) \<in> set (st_sinks s1) \<and> stream_ok s1 \<and> st_parser s1 = st_parser s"
  using subscribe_ok [OF assms(2)] assms(1) by (auto simp: stream_subscribe_def)

end
