(* ===== verification/Term_Parser_Claims.thy ===== *)
theory Term_Parser_Claims
  imports Term_Stream
begin

text \<open>
  What the terminal protocol boundary promises: one read or many, clean events, bounded state, no
  trace of a consumed sequence, and sinks that start in ground text. The last section evaluates the
  inputs on which the code does something else than its documentation says.
\<close>

section \<open>Evaluation\<close>

text \<open>Definitions that are unfolded on literal units and texts only, so that a read of a literal
  text is computed by rewriting.\<close>

lemmas unit_eval =
  is_ws_def [of "numeral n" for n] is_control_def [of "numeral n" for n] is_digit_def [of "numeral n" for n]
  is_c1_introducer_def [of "numeral n" for n] opens_string_def [of "numeral n" for n]
  string_control_end_scan_def [of _ "numeral n" for n] is_hex_digit_def [of "numeral n" for n]

lemmas text_eval =
  js_def [of "c # s" for c s] starts_with_def [of "c # s" "d # t" for c s d t] starts_with_def [of "c # s" "[]" for c s]
  ends_with_def [of "c # s" "d # t" for c s d t] ends_with_def [of "c # s" "[]" for c s]
  js_trim_def [of "c # s" for c s] trim_start_def [of "c # s" for c s] trim_end_def [of "c # s" for c s]
  truncate_text_def [of "c # s" for c s] title_limit_def nth_field_def

lemmas read_eval =
  process_def process_kept_def process_ground_def process_forwarded_def initial_parser_def no_output_def thrown_output_def
  scan_unfold needs_parse_def string_control_kind_def open_string_def close_string_def prepend_output_def
  strip_bells_def bell_events_def query_answers_def take_pending_suffix_def device_attribute_pending_suffixes_def
  trailing_escape_def without_escape_def osc_incomplete_limit_def filter_bell_events_def is_richer_event_def
  is_bell_event_def osc_disposition_def osc_consumed_ids_def has_code_def parse_osc_def parse_color_query_def
  is_known_unsupported_iterm2_osc_def parse_osc_title_def sanitize_text_def parse_osc133_def parse_prompt_boundary_def Let_def

section \<open>A program's output\<close>

definition sample_env :: protocol_env where
  "sample_env = \<lparr>pe_lower = js_lower, pe_decode_uri = Some, pe_parse_url = (\<lambda>_. None), pe_color = None\<rparr>"

text \<open>A title and a sixel image, cut inside each of them.\<close>

definition sample_pieces :: "js_text list" where
  "sample_pieces = [[97, 27], [93, 48, 59, 104], [7, 98, 27, 80, 113], [63, 27], [92, 99]]"

definition waiting_for :: "js_text \<Rightarrow> parser" where
  "waiting_for s = initial_parser\<lparr>pp_pending := s\<rparr>"

definition streaming_sixel :: "js_text \<Rightarrow> parser" where
  "streaming_sixel held = initial_parser\<lparr>pp_forwarding := Some (KindOther, held)\<rparr>"

lemma sample_steps:
  "fst (process env now initial_parser [97, 27]) = waiting_for [27]"
  "fst (process env now (waiting_for [27]) [93, 48, 59, 104]) = waiting_for [27, 93, 48, 59, 104]"
  "fst (process env now (waiting_for [27, 93, 48, 59, 104]) [7, 98, 27, 80, 113]) = streaming_sixel []"
  "fst (process env now (streaming_sixel []) [63, 27]) = streaming_sixel [27]"
  by (simp_all add: waiting_for_def streaming_sixel_def unit_eval text_eval read_eval)

lemma sample_kept:
  "kept_text initial_parser = []" "kept_text (waiting_for s) = s" "kept_text (streaming_sixel s) = s"
  by (simp_all add: kept_text_def waiting_for_def streaming_sixel_def initial_parser_def)

lemma sample_keeps: "pp_discarding (waiting_for s) = None" "pp_discarding (streaming_sixel s) = None"
  by (simp_all add: waiting_for_def streaming_sixel_def initial_parser_def)

lemma sample_safe: "pieces_safe env now initial_parser sample_pieces"
  by (simp add: sample_pieces_def sample_steps sample_kept sample_keeps split_safe_def ends_in_bare_osc_def ends_in_escaped_bell_def
      unit_eval text_eval)

lemma scan_closed_string:
  assumes "find_introducer s = Some (g, i, r)" and "find_string_control_end (string_control_kind i) r = Some (p, e, r', b)"
    and "close_string env now m i r p e b = (m', Some (v, es))"
  shows "po_threw (snd (scan env now m s)) = po_threw (snd (scan env now m' r'))"
    and "po_visible (snd (scan env now m s)) = fst (remove_queries (strip_bells g)) @ v @ po_visible (snd (scan env now m' r'))"
  by (simp_all add: scan_gap [OF assms(1)] scan_string_def assms(2,3)) (simp_all add: prepend_output_def)

lemma threw_scan: "po_threw (snd (process env now initial_parser s)) = po_threw (snd (scan env now [] s))"
  using same_ground [of initial_parser env now s]
  by (simp add: same_read_def process_def process_kept_def initial_parser_def)

lemma sample_returns: "\<not> po_threw (snd (process env now initial_parser (concat sample_pieces)))"
proof -
  let ?rest = "[98, 27, 80, 113, 63, 27, 92, 99]"
  have all: "concat sample_pieces = [97, 27, 93, 48, 59, 104, 7] @ ?rest" by (simp add: sample_pieces_def)
  have i: "find_introducer ([97, 27, 93, 48, 59, 104, 7] @ ?rest) = Some ([97], [27, 93], [48, 59, 104, 7] @ ?rest)"
    by (simp add: unit_eval)
  have e: "find_string_control_end (string_control_kind [27, 93]) ([48, 59, 104, 7] @ ?rest) = Some ([48, 59, 104], [7], ?rest, False)"
    by (simp add: string_control_kind_def unit_eval)
  have "parse_osc env now [] [48, 59, 104] = ([], OscEvents [PeSemantic (EvTitle \<lparr>tt_title = [104], tt_source = TOsc0, tt_updated = 0\<rparr>)])"
    by (simp add: unit_eval text_eval read_eval)
  then have "close_string env now [] [27, 93] ([48, 59, 104, 7] @ ?rest) [48, 59, 104] [7] False =
      ([], Some ([], [PeSemantic (EvTitle \<lparr>tt_title = [104], tt_source = TOsc0, tt_updated = 0\<rparr>)]))"
    by (simp add: close_string_def string_control_kind_def)
  note skip = scan_closed_string(1) [OF i e this]
  have "\<not> po_threw (snd (scan env now [] ?rest))" by (simp add: unit_eval text_eval read_eval)
  then show ?thesis unfolding threw_scan all skip .
qed

section \<open>Reads\<close>

text \<open>C4: Whatever a parser has read before, reading more terminal output in pieces comes to the same
  as reading it at once, with one clock reading for all of it and provided the read at once does
  not throw: the same visible output, text output, events other than bells (which are reported
  once a read) and parser state. The pieces may end anywhere but in three places, counting what
  is held back from earlier pieces: right behind an ESC and one or more BELs; right behind an OSC
  introducer, digits or none, and an ESC; and inside an OSC that the parser is discarding, which
  it does once more than 16,384 units of an unfinished OSC would have to be held back.\<close>

theorem reads_ignore_boundaries:
  assumes "p = fst (process_pieces env initial_parser history)"
    and "pieces \<noteq> []" and "pieces_safe env now p pieces"
    and "\<not> po_threw (snd (process env now p (concat pieces)))"
  shows "pieces_view (process_pieces env p (map (Pair now) pieces)) = out_view (process env now p (concat pieces))"
  using assms(2-4) exclusive_history by (intro process_pieces_view) (simp_all add: assms(1))

theorem reads_ignore_boundaries_witness:
  "pieces_view (process_pieces sample_env initial_parser (map (Pair 5) sample_pieces)) =
     out_view (process sample_env 5 initial_parser (concat sample_pieces))"
  by (rule reads_ignore_boundaries [OF _ _ sample_safe sample_returns, where history = "[]"])
     (simp_all add: sample_pieces_def)

text \<open>C5: Every event of every read is clean: titles, notifications, command lines and working
  directories have no control character and at most their limit of code points, a progress is a
  percentage or none, and what is written back to the program is one string control with its
  terminator and no control character inside. The one exception is a progress event whose value
  is not a percentage: the one an OSC 9;4 brings whose state is spelled constructor or toString,
  members of Object.prototype that the lookup of the state finds and calls.\<close>

theorem events_are_clean:
  "list_all (\<lambda>o'. list_all (\<lambda>e. clean_event e \<or> inherited_progress e) (po_events o'))
     (snd (process_pieces env initial_parser reads))"
  using process_pieces_ok [OF initial_bounded] unfolding event_ok_def [abs_def] .

text \<open>C11: Between reads the parser keeps at most one of three things, each bounded: an unfinished
  sequence of at most 16,384 units, or the ESC a forwarded or a discarded string ended in; and
  at most 64 unfinished notifications of bounded size.\<close>

theorem parser_stays_bounded:
  "parser_bounded (fst (process_pieces env initial_parser reads))"
  unfolding process_pieces_state by (rule parser_reads.run_keeps [OF initial_bounded]) (simp add: list_all_iff)

section \<open>Exceptions\<close>

lemma cwd_event_returns [simp]: "cwd_event c \<noteq> OscThrows" "cwd_event c \<noteq> OscForward"
  by (simp_all add: cwd_event_def)

lemma parts_return:
  "parse_osc7 env now content \<noteq> OscThrows" "parse_osc133 content \<noteq> OscThrows" "parse_osc633 now content \<noteq> OscThrows"
  "parse_osc1337 now content \<noteq> OscThrows" "parse_osc_title content src \<noteq> OscThrows" "parse_osc777 content \<noteq> OscThrows"
  "parse_color_query env content \<noteq> OscThrows" "snd (parse_osc99 now m content) \<noteq> OscThrows"
  by (auto simp: parse_osc7_def parse_osc133_def parse_osc633_def parse_osc633_property_def parse_osc1337_def parse_osc_title_def
      parse_osc777_def parse_color_query_def parse_osc99_def osc99_chunk_def parse_prompt_boundary_def Let_def
      split: option.splits prod.splits)

lemma parts_consume:
  "parse_osc7 env now content \<noteq> OscForward" "parse_osc9 now content \<noteq> OscForward" "parse_osc133 content \<noteq> OscForward"
  "parse_osc633 now content \<noteq> OscForward" "parse_osc_title content src \<noteq> OscForward" "parse_osc777 content \<noteq> OscForward"
  "snd (parse_osc99 now m content) \<noteq> OscForward"
  by (auto simp: parse_osc7_def parse_osc9_def parse_osc133_def parse_osc633_def parse_osc633_property_def parse_osc_title_def
      parse_osc777_def parse_osc99_def osc99_chunk_def parse_prompt_boundary_def Let_def
      split: option.splits prod.splits progress_result.splits)

lemma starts_with_rest: "starts_with p s \<Longrightarrow> \<exists>r. s = p @ r"
  unfolding starts_with_def by (metis append_take_drop_id)

lemma nine_four:
  "starts_with (js ''9;4;'') content \<Longrightarrow>
   starts_with (js ''9;'') content \<and> \<not> starts_with (js ''9;9;'') content \<and> has_code ''9'' content \<and> \<not> has_code ''7'' content"
  by (drule starts_with_rest) (auto simp: starts_with_def has_code_def js_def)

lemma osc94_throws: "osc94_lookup state raw = InheritedThrow \<longleftrightarrow> state \<in> set object_prototype_throws"
proof (cases "state \<in> set object_prototype_throws")
  case True
  have names: "list_all (\<lambda>s. s \<noteq> [] \<and> hd s > 57) object_prototype_throws"
    by (simp add: object_prototype_throws_def js_def)
  then have "state \<noteq> []" "hd state > 57" using True by (auto simp: list_all_iff)
  then have "state \<noteq> js ''0''" "state \<noteq> js ''1''" "state \<noteq> js ''2''" "state \<noteq> js ''3''" "state \<noteq> js ''4''"
    by (auto simp: js_def)
  then show ?thesis using True \<open>state \<noteq> []\<close> by (simp add: osc94_lookup_def)
next
  case False
  then show ?thesis by (simp add: osc94_lookup_def split: option.splits)
qed

lemma osc9_throws:
  "parse_osc9 now content = OscThrows \<longleftrightarrow>
   starts_with (js ''9;4;'') content \<and> nth_field (js_split 59 content) 2 \<in> Some ` set object_prototype_throws"
proof -
  have bare: "nth_field (js_split 59 (js ''9;4'')) 2 = None" by (simp add: nth_field_def js_def)
  have empty: "[] \<notin> set object_prototype_throws" by (simp add: object_prototype_throws_def js_def)
  have "parse_osc94 content = InheritedThrow \<longleftrightarrow> nth_field (js_split 59 content) 2 \<in> Some ` set object_prototype_throws"
    using empty by (auto simp: parse_osc94_def Let_def osc94_throws split: option.splits)
  then show ?thesis using nine_four bare
    by (auto simp: parse_osc9_def split: progress_result.splits)
qed

text \<open>The reader of an OSC throws for one reason only: an OSC 9;4 whose state names a member of
  \<open>Object.prototype\<close> that cannot be called without a receiver.\<close>

lemma only_inherited_names_throw:
  "snd (parse_osc env now m content) = OscThrows \<longleftrightarrow>
   starts_with (js ''9;4;'') content \<and> nth_field (js_split 59 content) 2 \<in> Some ` set object_prototype_throws"
proof -
  have "snd (parse_osc env now m content) = OscThrows \<longleftrightarrow>
      \<not> has_code ''7'' content \<and> has_code ''9'' content \<and> parse_osc9 now content = OscThrows"
    by (simp add: parse_osc_def parts_return split: osc_result.splits)
  then show ?thesis using nine_four osc9_throws by blast
qed

section \<open>Consumed sequences\<close>

definition never_forwarded :: "string list" where
  "never_forwarded = [''0'', ''2'', ''7'', ''9'', ''50'', ''52'', ''99'', ''133'', ''633'', ''777'']"

lemma has_code_unique:
  assumes "has_code c content" and "59 \<notin> set (js c)"
  shows "takeWhile (\<lambda>x. x \<noteq> 59) content = js c"
proof -
  from assms(1) consider "content = js c" | r where "content = js c @ 59 # r"
    unfolding has_code_def starts_with_def by (metis append_Cons append_Nil append_assoc append_take_drop_id)
  then show ?thesis
  proof cases
    case 1
    have "takeWhile (\<lambda>x. x \<noteq> 59) (js c) = js c" using assms(2) by (subst takeWhile_eq_all_conv) auto
    then show ?thesis using 1 by simp
  next
    case 2
    have "takeWhile (\<lambda>x. x \<noteq> 59) (js c @ 59 # r) = js c"
      using assms(2) by (subst takeWhile_append2) auto
    then show ?thesis using 2 by simp
  qed
qed

lemma never_forwarded_parsed:
  assumes "list_ex (\<lambda>code. has_code code content) never_forwarded"
  shows "snd (parse_osc env now m content) \<noteq> OscForward"
proof -
  have n1337: "\<not> has_code ''1337'' content"
  proof
    assume h: "has_code ''1337'' content"
    have "takeWhile (\<lambda>x. x \<noteq> 59) content = js ''1337''" by (rule has_code_unique [OF h]) (simp add: js_def)
    moreover obtain c where c: "c \<in> set never_forwarded" "has_code c content" using assms by (auto simp: list_ex_iff)
    moreover have "takeWhile (\<lambda>x. x \<noteq> 59) content = js c"
      by (rule has_code_unique [OF c(2)]) (use c(1) in \<open>auto simp: never_forwarded_def js_def\<close>)
    ultimately show False by (auto simp: never_forwarded_def js_def)
  qed
  show ?thesis
    using assms n1337
    by (auto simp: parse_osc_def never_forwarded_def is_known_unsupported_iterm2_osc_def parts_consume split: osc_result.splits)
qed

lemma find_end_payload:
  assumes "list_all (\<lambda>c. \<not> string_control_end_scan KindOsc c) payload"
    and "e = [7] \<or> e = [27, 92] \<or> e = [0x9C]"
  shows "find_string_control_end KindOsc (payload @ e @ y) = Some (payload, e, y, False)"
  using assms(1)
proof (induction payload)
  case Nil
  then show ?case using assms(2) by (auto simp: string_control_end_scan_def)
qed simp

lemma ground_read:
  "same_read (process env now (initial_parser\<lparr>pp_osc99 := m\<rparr>) s) (scan env now m s)"
  "po_threw (snd (process env now (initial_parser\<lparr>pp_osc99 := m\<rparr>) s)) \<Longrightarrow>
   po_visible (snd (process env now (initial_parser\<lparr>pp_osc99 := m\<rparr>) s)) = []"
  using same_ground [of "initial_parser\<lparr>pp_osc99 := m\<rparr>" env now s]
  by (auto simp: process_def process_kept_def process_ground_def initial_parser_def thrown_output_def no_output_def
      split: prod.splits if_splits)

lemma ground_read_view:
  "po_threw (snd (process env now (initial_parser\<lparr>pp_osc99 := m\<rparr>) s)) = po_threw (snd (scan env now m s))"
  "po_visible (snd (process env now (initial_parser\<lparr>pp_osc99 := m\<rparr>) s)) =
     (if po_threw (snd (scan env now m s)) then [] else po_visible (snd (scan env now m s)))"
  using ground_read [of env now m s] by (auto simp: same_read_def out_view_def)

lemma owned_osc_closes:
  assumes kind: "string_control_kind i = KindOsc" and owned: "list_ex (\<lambda>code. has_code code payload) never_forwarded"
  shows "close_string env now m i r payload e False =
    (fst (parse_osc env now m payload),
     case snd (parse_osc env now m payload) of OscEvents es \<Rightarrow> Some ([], es) | _ \<Rightarrow> None)"
  using never_forwarded_parsed [OF owned, of env now m] kind
  by (cases "parse_osc env now m payload") (auto simp: close_string_def split: osc_result.splits)

text \<open>C6: A complete OSC that the boundary owns leaves nothing in the visible output, wherever it
  stands in ground text, whatever it carries and whatever notifications the parser is collecting
  in parts: what is shown is the text in front of it, less bells and queries, and what the rest of
  the read shows. A clipboard write, OSC 52, is one of them. The read throws exactly when the OSC
  itself makes the code throw or the rest of the read does, and then it shows nothing at all.\<close>

theorem consumed_osc_leaves_no_trace:
  assumes ground: "find_introducer g = None" "\<not> ends_with [27] g"
    and frame: "i = [27, 93] \<or> i = [0x9D]" "e = [7] \<or> e = [27, 92] \<or> e = [0x9C]"
    and payload: "list_all (\<lambda>c. \<not> string_control_end_scan KindOsc c) payload"
    and owned: "list_ex (\<lambda>code. has_code code payload) never_forwarded"
  shows "let whole = snd (process env now (initial_parser\<lparr>pp_osc99 := m\<rparr>) (g @ i @ payload @ e @ y));
             rest = snd (process env now (initial_parser\<lparr>pp_osc99 := fst (parse_osc env now m payload)\<rparr>) y)
    in po_threw whole = (snd (parse_osc env now m payload) = OscThrows \<or> po_threw rest) \<and>
       po_visible whole = (if po_threw whole then [] else fst (remove_queries (strip_bells g)) @ po_visible rest)"
proof -
  let ?m = "fst (parse_osc env now m payload)" and ?s = "g @ i @ payload @ e @ y"
  have kind: "string_control_kind i = KindOsc" using frame(1) by (auto simp: string_control_kind_def)
  have head: "find_introducer (i @ t) = Some ([], i, t)" for t
    using frame(1) by (auto simp: is_c1_introducer_def opens_string_def)
  have fi: "find_introducer ?s = Some (g, i, payload @ e @ y)"
    using find_introducer_skip [OF ground(1)] ground(2) by (simp add: head)
  have fe: "find_string_control_end (string_control_kind i) (payload @ e @ y) = Some (payload, e, y, False)"
    unfolding kind by (rule find_end_payload [OF payload frame(2)])
  note c = owned_osc_closes [OF kind owned, of env now m "payload @ e @ y" e]
  show ?thesis
  proof (cases "snd (parse_osc env now m payload)")
    case (OscEvents es)
    then have "close_string env now m i (payload @ e @ y) payload e False = (?m, Some ([], es))" using c by simp
    note step = scan_closed_string [OF fi fe this]
    show ?thesis by (simp add: Let_def ground_read_view step OscEvents)
  next
    case OscThrows
    then have "po_threw (snd (scan env now m ?s))"
      using c by (simp add: scan_gap [OF fi] scan_string_def fe thrown_output_def)
    then show ?thesis by (simp add: Let_def ground_read_view OscThrows)
  qed (use never_forwarded_parsed [OF owned] in blast)
qed

theorem consumed_osc_leaves_no_trace_witness:
  "let whole = snd (process sample_env 0 (initial_parser\<lparr>pp_osc99 := []\<rparr>) ([97] @ [27, 93] @ [53, 50, 59, 99] @ [7] @ [98]))
   in po_threw whole = False \<and> po_visible whole = [97, 98]"
proof -
  have rest: "process sample_env 0 (initial_parser\<lparr>pp_osc99 := fst (parse_osc sample_env 0 [] [53, 50, 59, 99])\<rparr>) [98] =
      (initial_parser, no_output\<lparr>po_visible := [98], po_text := [98]\<rparr>)"
    by (simp add: unit_eval text_eval read_eval)
  have parsed: "snd (parse_osc sample_env 0 [] [53, 50, 59, 99]) \<noteq> OscThrows" by (simp add: unit_eval text_eval read_eval)
  have "list_all (\<lambda>c. \<not> string_control_end_scan KindOsc c) [53, 50, 59, 99]" by (simp add: unit_eval)
  moreover have "list_ex (\<lambda>code. has_code code [53, 50, 59, 99]) never_forwarded"
    by (simp add: never_forwarded_def has_code_def starts_with_def js_def)
  moreover have "find_introducer [97] = None" "\<not> ends_with [27] [97]" by (simp_all add: unit_eval ends_with_def)
  ultimately have "let whole = snd (process sample_env 0 (initial_parser\<lparr>pp_osc99 := []\<rparr>) ([97] @ [27, 93] @ [53, 50, 59, 99] @ [7] @ [98]));
      rest = snd (process sample_env 0 (initial_parser\<lparr>pp_osc99 := fst (parse_osc sample_env 0 [] [53, 50, 59, 99])\<rparr>) [98])
    in po_threw whole = (snd (parse_osc sample_env 0 [] [53, 50, 59, 99]) = OscThrows \<or> po_threw rest) \<and>
       po_visible whole = (if po_threw whole then [] else fst (remove_queries (strip_bells [97])) @ po_visible rest)"
    by (intro consumed_osc_leaves_no_trace) simp_all
  then show ?thesis using parsed unfolding Let_def rest by (simp add: strip_bells_def no_output_def text_eval)
qed

section \<open>Sinks\<close>

text \<open>C7: A sink that subscribes to a stream at any moment gets exactly what the owner gets from then
  on, less what is left of the string control that is being forwarded at that moment.\<close>

theorem late_sink_starts_at_ground:
  assumes s: "s = fold (stream_step env) es create_processed_pty_stream"
    and sub: "stream_subscribe s = (s1, i)" and w: "stream_writes env ws s1 = (s2, outs, False)"
  shows "owner_data outs = string_rest (st_parser s) (concat (map snd ws)) @ sink_data i outs"
proof -
  have ok: "stream_ok s" unfolding s by (rule stream_run_ok)
  note held = subscribe_sink [OF sub ok]
  obtain xs where xs: "deliver_pieces env xs s1 = (s2, outs, False)" "concat (map snd xs) = concat (map snd ws)"
    using stream_writes_pieces [OF w] by blast
  have "owner_data outs = string_rest (st_parser s1) (concat (map snd xs)) @ sink_data i outs"
    using held_sink_misses_string [OF xs(1)] held by blast
  then show ?thesis using held xs(2) by simp
qed

definition sixel_stream :: "protocol_env \<Rightarrow> pty_stream" where
  "sixel_stream env = fold (stream_step env) [StreamWrite 0 [27, 80, 113]] create_processed_pty_stream"

lemma sixel_stream_state: "sixel_stream env = create_processed_pty_stream\<lparr>st_parser := streaming_sixel []\<rparr>"
  by (simp add: sixel_stream_def create_processed_pty_stream_def stream_write_def bound_pty_read_def max_parser_input_chars_def
      deliver_def streaming_sixel_def unit_eval text_eval read_eval)

lemma sixel_reads:
  "process env now (streaming_sixel []) [63, 27] = (streaming_sixel [27], no_output\<lparr>po_visible := [63], po_resumed := None\<rparr>)"
  "process env now (streaming_sixel [27]) [92, 99] =
     (initial_parser, no_output\<lparr>po_visible := [27, 92, 99], po_text := [99], po_resumed := Some 2\<rparr>)"
  by (simp_all add: streaming_sixel_def unit_eval text_eval read_eval)

definition late_outs :: "stream_out list" where
  "late_outs = [OutChunk (chunk_of [63] []), OutChunk (chunk_of [27, 92, 99] [99]), SinkChunk 0 (chunk_of [99] [99])]"

definition held_stream :: "parser \<Rightarrow> bool \<Rightarrow> pty_stream" where
  "held_stream p held = \<lparr>st_parser = p, st_sinks = [(0, held)], st_next = 1\<rparr>"

lemma late_steps:
  "fst (stream_subscribe (sixel_stream env)) = held_stream (streaming_sixel []) True"
  "deliver env now [63, 27] (held_stream (streaming_sixel []) True) =
     (held_stream (streaming_sixel [27]) True, [OutChunk (chunk_of [63] [])], False)"
  "deliver env now [92, 99] (held_stream (streaming_sixel [27]) True) =
     (held_stream initial_parser False, [OutChunk (chunk_of [27, 92, 99] [99]), SinkChunk 0 (chunk_of [99] [99])], False)"
  by (simp_all add: held_stream_def deliver_def deliver_sink_def sixel_reads no_output_def Let_def)
     (simp add: sixel_stream_state stream_subscribe_def create_processed_pty_stream_def is_forwarding_string_def streaming_sixel_def)

lemma late_writes:
  "stream_writes env [(1, [63, 27]), (2, [92, 99])] (fst (stream_subscribe (sixel_stream env))) =
     (held_stream initial_parser False, late_outs, False)"
  by (simp add: late_steps stream_write_def bound_pty_read_def max_parser_input_chars_def late_outs_def)

theorem late_sink_starts_at_ground_witness:
  "owner_data late_outs = string_rest (st_parser (sixel_stream sample_env)) [63, 27, 92, 99] @ sink_data 0 late_outs"
  using late_sink_starts_at_ground [OF sixel_stream_def surjective_pairing late_writes, of sample_env]
  by (simp add: stream_subscribe_def sixel_stream_state create_processed_pty_stream_def)

section \<open>Text\<close>

text \<open>C13: The stream filter, which jumps from introducer to introducer, is the automaton that reads
  one unit at a time; so what it lets through does not depend on where the stream was cut.\<close>

theorem text_filter_is_unit_automaton:
  "filter_pieces InGround pieces = run_units InGround (concat pieces)"
  by (rule filter_pieces_units)

section \<open>Where the code and its documentation part\<close>

text \<open>Ground text is put together again after the bells are taken out of it, and is not scanned
  again: an \<open>ESC BEL\<close> hides a clipboard write from the parser and hands it to the renderer.\<close>

lemma escaped_bell_releases_clipboard_write:
  "po_visible (snd (process env now initial_parser [27, 7, 93, 53, 50, 59, 99, 27, 92])) = [27, 93, 53, 50, 59, 99, 27, 92]"
  by (simp add: unit_eval text_eval read_eval)

text \<open>An OSC without a payload is consumed in one read and forwarded if the read ends in its \<open>ESC\<close>.\<close>

lemma bare_osc_depends_on_the_split:
  "po_visible (snd (process env now initial_parser [27, 93, 49, 51, 51, 27, 92])) = [] \<and>
   concat (map po_visible (snd (process_pieces env initial_parser [(now, [27, 93, 49, 51, 51, 27]), (now, [92])]))) =
     [27, 93, 49, 51, 51, 27, 92]"
  by (simp add: unit_eval text_eval read_eval)

text \<open>\<open>ESC ] 9 ; 4 ; valueOf BEL\<close> makes the read throw.\<close>

lemma inherited_name_throws:
  "snd (parse_osc env now m (js ''9;4;valueOf'')) = OscThrows"
proof -
  have "js_split 59 (js ''9;4;valueOf'') = [js ''9'', js ''4'', js ''valueOf'']" by (simp add: js_def)
  moreover have "starts_with (js ''9;4;'') (js ''9;4;valueOf'')" by (simp add: js_def starts_with_def)
  moreover have "js ''valueOf'' \<in> set object_prototype_throws" by (simp add: object_prototype_throws_def)
  moreover have "has_code ''9'' (js ''9;4;valueOf'')" "\<not> has_code ''7'' (js ''9;4;valueOf'')"
    "starts_with (js ''9;'') (js ''9;4;valueOf'')" "\<not> starts_with (js ''9;9;'') (js ''9;4;valueOf'')"
    by (simp_all add: has_code_def js_def starts_with_def)
  ultimately show ?thesis by (simp add: parse_osc_def osc9_throws nth_field_def)
qed

text \<open>\<open>ESC ] 9 ; 4 ; toString BEL\<close> is a progress event that carries no progress.\<close>

lemma inherited_name_is_a_progress:
  "snd (parse_osc env now m (js ''9;4;toString'')) = OscEvents [PeInherited (js ''9;4;toString'')]"
proof -
  have "js_split 59 (js ''9;4;toString'') = [js ''9'', js ''4'', js ''toString'']" by (simp add: js_def)
  then have "parse_osc94 (js ''9;4;toString'') = InheritedValue"
    by (simp add: parse_osc94_def nth_field_def osc94_lookup_def object_prototype_throws_def js_def)
  moreover have "starts_with (js ''9;4;'') (js ''9;4;toString'')" by (simp add: js_def starts_with_def)
  moreover from nine_four [OF this] have "has_code ''9'' (js ''9;4;toString'')" "\<not> has_code ''7'' (js ''9;4;toString'')"
    "starts_with (js ''9;'') (js ''9;4;toString'')" "\<not> starts_with (js ''9;9;'') (js ''9;4;toString'')" by blast+
  ultimately show ?thesis by (simp add: parse_osc_def parse_osc9_def)
qed

end
