(* ===== verification/Alert_Frames.thy ===== *)
theory Alert_Frames
  imports Alert_Manager
begin

text \<open>
  What the operations of the alert manager leave alone: the lookup of an entry after each
  update, and the parts of the state (awaits, settings, entries of other Sessions) that an
  operation does not touch. The later theories compose these facts.
\<close>

section \<open>Lookup\<close>

lemma entry_of_set [simp]: "entry_of (set_entry i e m) j = (if j = i then Some e else entry_of m j)"
  by (simp add: entry_of_def set_entry_def update_conv')

lemma entry_of_notify [simp]: "entry_of (notify i m) j = entry_of m j"
  by (simp add: notify_def entry_of_def Let_def)

lemma entry_of_with [simp]: "entry_of (with_entry i f m) j = (if j = i then map_option f (entry_of m i) else entry_of m j)"
  by (auto simp: with_entry_def split: option.splits)

lemma entry_of_create [simp]:
  "entry_of (get_or_create_entry i m) j =
   (if j = i \<and> entry_of m i = None then Some new_entry else entry_of m j)"
  by (auto simp: get_or_create_entry_def)

lemma entry_of_with_detector [simp]:
  "entry_of (with_detector i f m) j =
   (if j = i then map_option (\<lambda>e. e\<lparr>ae_detector := f (ae_detector e)\<rparr>) (entry_of m i) else entry_of m j)"
  by (auto simp: with_detector_def Let_def split: option.splits)

lemma entry_of_await_fields [simp]:
  "entry_of (m\<lparr>am_awaits := x\<rparr>) j = entry_of m j" "entry_of (m\<lparr>am_outcomes := y\<rparr>) j = entry_of m j"
  "entry_of (m\<lparr>am_removed := s\<rparr>) j = entry_of m j" "entry_of (m\<lparr>am_helpers := s\<rparr>) j = entry_of m j"
  "entry_of (m\<lparr>am_attention := a\<rparr>) j = entry_of m j" "entry_of (m\<lparr>am_attention_timer := t\<rparr>) j = entry_of m j"
  "entry_of (m\<lparr>am_inactivity := k\<rparr>) j = entry_of m j" "entry_of (m\<lparr>am_defer := b\<rparr>) j = entry_of m j"
  "entry_of (m\<lparr>am_watched := w\<rparr>) j = entry_of m j" "entry_of (m\<lparr>am_next_waiter := n\<rparr>) j = entry_of m j"
  by (auto simp: entry_of_def)

lemma entry_of_drop [simp]: "entry_of (drop_waiter i w m) j = entry_of m j"
  by (simp add: drop_waiter_def Let_def)

lemma entry_of_settle [simp]: "entry_of (settle_waiter i w out m) j = entry_of m j"
  by (simp add: settle_waiter_def Let_def)

lemma entry_of_offer [simp]: "entry_of (fst (offer_waiters now i ev ws m)) j = entry_of m j"
  by (induction now i ev ws m rule: offer_waiters.induct) (auto split: option.splits)

lemma entry_of_settle_all [simp]: "entry_of (settle_all now i how ws m) j = entry_of m j"
  by (induction now i how ws m rule: settle_all.induct) auto

lemma entry_of_settle_waiters [simp]: "entry_of (settle_waiters now i how m) j = entry_of m j"
  by (simp add: settle_waiters_def)

lemma entry_of_map_waiters [simp]: "entry_of (map_waiters i f m) j = entry_of m j"
  by (simp add: map_waiters_def)

lemma entry_of_add_waiter [simp]: "entry_of (add_waiter i w m) j = entry_of m j"
  by (simp add: add_waiter_def)

section \<open>The part of the state that belongs to awaits\<close>

definition await_part :: "alert_manager \<Rightarrow> (session_id \<times> await_waiter list) list \<times> (nat \<times> await_outcome) list \<times> nat" where
  "await_part m = (am_awaits m, am_outcomes m, am_next_waiter m)"

text \<open>The rest of the state that is not entries, awaits or what listeners were told.\<close>

definition settings_part :: "alert_manager \<Rightarrow> session_id set \<times> js_text list \<times> int \<times> bool" where
  "settings_part m = (am_helpers m, am_watched m, am_inactivity m, am_defer m)"

lemma parts_notify [simp]:
  "await_part (notify i m) = await_part m" "settings_part (notify i m) = settings_part m"
  "am_removed (notify i m) = am_removed m" "am_attention (notify i m) = am_attention m"
  "am_attention_timer (notify i m) = am_attention_timer m"
  by (auto simp: notify_def Let_def await_part_def settings_part_def)

lemma parts_set_entry [simp]:
  "await_part (set_entry i e m) = await_part m" "settings_part (set_entry i e m) = settings_part m"
  "am_removed (set_entry i e m) = am_removed m" "am_attention (set_entry i e m) = am_attention m"
  "am_attention_timer (set_entry i e m) = am_attention_timer m"
  by (auto simp: set_entry_def await_part_def settings_part_def)

lemma parts_with_entry [simp]:
  "await_part (with_entry i f m) = await_part m" "settings_part (with_entry i f m) = settings_part m"
  "am_removed (with_entry i f m) = am_removed m" "am_attention (with_entry i f m) = am_attention m"
  "am_attention_timer (with_entry i f m) = am_attention_timer m"
  by (auto simp: with_entry_def split: option.splits)

lemma parts_create [simp]:
  "await_part (get_or_create_entry i m) = await_part m" "settings_part (get_or_create_entry i m) = settings_part m"
  "am_removed (get_or_create_entry i m) = am_removed m" "am_attention (get_or_create_entry i m) = am_attention m"
  "am_attention_timer (get_or_create_entry i m) = am_attention_timer m"
  by (auto simp: get_or_create_entry_def)

lemma parts_with_detector [simp]:
  "await_part (with_detector i g m) = await_part m" "settings_part (with_detector i g m) = settings_part m"
  "am_removed (with_detector i g m) = am_removed m" "am_attention (with_detector i g m) = am_attention m"
  "am_attention_timer (with_detector i g m) = am_attention_timer m"
  by (auto simp: with_detector_def Let_def split: option.splits)

lemma parts_release [simp]:
  "await_part (fst (release_ring i k m)) = await_part m" "settings_part (fst (release_ring i k m)) = settings_part m"
  "am_removed (fst (release_ring i k m)) = am_removed m" "am_attention (fst (release_ring i k m)) = am_attention m"
  "am_attention_timer (fst (release_ring i k m)) = am_attention_timer m"
  by (auto simp: release_ring_def split: option.splits ring_track.splits)

lemma parts_clear_all [simp]:
  "await_part (fst (clear_all_rings_if_active i m)) = await_part m"
  "settings_part (fst (clear_all_rings_if_active i m)) = settings_part m"
  "am_removed (fst (clear_all_rings_if_active i m)) = am_removed m"
  "am_attention (fst (clear_all_rings_if_active i m)) = am_attention m"
  "am_attention_timer (fst (clear_all_rings_if_active i m)) = am_attention_timer m"
  by (auto simp: clear_all_rings_if_active_def Let_def case_prod_unfold)

lemma parts_flush [simp]:
  "await_part (flush_deferred i m) = await_part m" "settings_part (flush_deferred i m) = settings_part m"
  "am_removed (flush_deferred i m) = am_removed m" "am_attention (flush_deferred i m) = am_attention m"
  "am_attention_timer (flush_deferred i m) = am_attention_timer m"
  by (auto simp: flush_deferred_def Let_def split: option.splits)

lemma parts_defer [simp]:
  "await_part (defer_or_deliver now i n m) = await_part m"
  "settings_part (defer_or_deliver now i n m) = settings_part m"
  "am_removed (defer_or_deliver now i n m) = am_removed m"
  "am_attention (defer_or_deliver now i n m) = am_attention m"
  "am_attention_timer (defer_or_deliver now i n m) = am_attention_timer m"
  by (auto simp: defer_or_deliver_def Let_def split: option.splits)

lemma parts_arm [simp]:
  "await_part (arm_and_notify i m) = await_part m" "settings_part (arm_and_notify i m) = settings_part m"
  "am_removed (arm_and_notify i m) = am_removed m" "am_attention (arm_and_notify i m) = am_attention m"
  "am_attention_timer (arm_and_notify i m) = am_attention_timer m"
  by (auto simp: arm_and_notify_def arm_command_exit_def Let_def split: option.splits)

text \<open>Settling changes the awaits, never the settings.\<close>

lemma parts_settle [simp]:
  "settings_part (settle_waiter i w out m) = settings_part m"
  "am_removed (settle_waiter i w out m) = am_removed m" "am_attention (settle_waiter i w out m) = am_attention m"
  "am_attention_timer (settle_waiter i w out m) = am_attention_timer m"
  by (auto simp: settle_waiter_def drop_waiter_def Let_def settings_part_def [of "_\<lparr>am_outcomes := _\<rparr>"])
     (auto simp: settings_part_def)

lemma parts_offer [simp]:
  "settings_part (fst (offer_waiters now i ev ws m)) = settings_part m"
  "am_removed (fst (offer_waiters now i ev ws m)) = am_removed m"
  "am_attention (fst (offer_waiters now i ev ws m)) = am_attention m"
  "am_attention_timer (fst (offer_waiters now i ev ws m)) = am_attention_timer m"
  by (induction now i ev ws m rule: offer_waiters.induct; auto split: option.splits)+

lemma parts_dispatch [simp]:
  "settings_part (fst (dispatch_completion now i ev m)) = settings_part m"
  "am_removed (fst (dispatch_completion now i ev m)) = am_removed m"
  "am_attention (fst (dispatch_completion now i ev m)) = am_attention m"
  "am_attention_timer (fst (dispatch_completion now i ev m)) = am_attention_timer m"
  by (auto simp: dispatch_completion_def Let_def case_prod_unfold split: option.splits completion_event.splits)

lemma settings_fields:
  "settings_part m = settings_part m' \<Longrightarrow> am_helpers m = am_helpers m' \<and> am_watched m = am_watched m' \<and>
   am_inactivity m = am_inactivity m' \<and> am_defer m = am_defer m'"
  by (simp add: settings_part_def)

end
