(* ===== verification/Alert_Rings.thy ===== *)
theory Alert_Rings
  imports Alert_Frames
begin

text \<open>
  When the alert manager rings: the verdict on a completion event as an abstract rule, that the
  dispatch implements it, and what attention, dismissal, deferral and restore do to rings.
\<close>

section \<open>The verdict\<close>

datatype verdict = Claimed | Ignored | RingNow | Deferred

definition claimed_by_await :: "alert_manager \<Rightarrow> session_id \<Rightarrow> completion_event \<Rightarrow> bool" where
  "claimed_by_await m i ev \<longleftrightarrow> (\<exists>w \<in> set (waiters_of m i). await_cause_for (aw_until w) ev \<noteq> None)"

definition verdict_on :: "alert_manager \<Rightarrow> session_id \<Rightarrow> alert_entry \<Rightarrow> completion_event \<Rightarrow> verdict" where
  "verdict_on m i e ev =
     (if claimed_by_await m i ev then Claimed
      else if has_attention m i then Ignored
      else case ev of
             Settled \<Rightarrow> if is_watching m e then RingNow else Ignored
           | CommandFinished display argv0 exit_code ran_ms armed \<Rightarrow>
               if armed \<and> am_inactivity m \<le> ran_ms then RingNow else Ignored
           | NotificationEvent n \<Rightarrow>
               if am_defer m \<and> \<not> has_active_ring e \<and>
                  (ae_deferred e \<noteq> None \<or> is_confirmed_busy (ae_detector e))
               then Deferred else RingNow)"

text \<open>What a completion does to the entry of its Session.\<close>

definition completed_entry :: "int \<Rightarrow> alert_manager \<Rightarrow> session_id \<Rightarrow> completion_event \<Rightarrow> alert_entry \<Rightarrow> alert_entry" where
  "completed_entry now m i ev e =
     (case verdict_on m i e ev of
        Claimed \<Rightarrow> e
      | Ignored \<Rightarrow> e
      | RingNow \<Rightarrow>
          (case ev of
             Settled \<Rightarrow> apply_watching_ringing e
           | CommandFinished display argv0 exit_code ran_ms armed \<Rightarrow>
               (case ae_deferred e of
                  None \<Rightarrow> apply_command_exit_ringing display exit_code e
                | Some n \<Rightarrow> apply_protocol_ringing n
                     (clear_deferred (apply_command_exit_ringing display exit_code e)))
           | NotificationEvent n \<Rightarrow> apply_protocol_ringing n (clear_deferred e))
      | Deferred \<Rightarrow>
          (case ev of
             NotificationEvent n \<Rightarrow> schedule_deferred now (e\<lparr>ae_deferred := Some n\<rparr>)
           | _ \<Rightarrow> e))"

lemma offer_claimed_iff:
  "snd (offer_waiters now i ev ws m) \<longleftrightarrow> (\<exists>w \<in> set ws. await_cause_for (aw_until w) ev \<noteq> None)"
  by (induction now i ev ws m rule: offer_waiters.induct) (auto split: option.splits)

lemma offer_unclaimed: "\<not> snd (offer_waiters now i ev ws m) \<Longrightarrow> fst (offer_waiters now i ev ws m) = m"
  by (induction now i ev ws m rule: offer_waiters.induct) (auto split: option.splits)

lemma offer_unclaimed_pair:
  "\<not> claimed_by_await m i ev \<Longrightarrow> offer_waiters now i ev (waiters_of m i) m = (m, False)"
  using offer_claimed_iff [of now i ev "waiters_of m i" m] offer_unclaimed [of now i ev "waiters_of m i" m]
  by (auto simp: claimed_by_await_def prod_eq_iff)

lemma offer_claimed_pair:
  "claimed_by_await m i ev \<Longrightarrow>
   offer_waiters now i ev (waiters_of m i) m = (fst (offer_waiters now i ev (waiters_of m i) m), True)"
  using offer_claimed_iff [of now i ev "waiters_of m i" m]
  by (auto simp: claimed_by_await_def prod_eq_iff)

lemma dispatch_claimed: "claimed_by_await m i ev \<Longrightarrow>
   dispatch_completion now i ev m = (fst (offer_waiters now i ev (waiters_of m i) m), True)"
  unfolding dispatch_completion_def by (subst offer_claimed_pair) auto

lemma dispatch_claimed_iff: "snd (dispatch_completion now i ev m) \<longleftrightarrow> claimed_by_await m i ev"
proof (cases "claimed_by_await m i ev")
  case False
  then show ?thesis unfolding dispatch_completion_def offer_unclaimed_pair [OF False]
    by (auto simp: Let_def split: option.splits completion_event.splits)
qed (simp add: dispatch_claimed)

text \<open>The deferred notification joins the ring of a finished command at once.\<close>

lemma entry_of_flush:
  "entry_of (flush_deferred i m) j =
   (if j = i
    then map_option (\<lambda>e. case ae_deferred e of
                           None \<Rightarrow> e
                         | Some n \<Rightarrow> if has_attention m i then clear_deferred e
                                     else apply_protocol_ringing n (clear_deferred e)) (entry_of m i)
    else entry_of m j)"
  by (auto simp: flush_deferred_def has_attention_def Let_def split: option.splits)

lemma entry_of_defer_or_deliver:
  "entry_of m i = Some e \<Longrightarrow>
   entry_of (defer_or_deliver now i n m) j =
   (if j = i
    then Some (if am_defer m \<and> \<not> has_active_ring e \<and> (ae_deferred e \<noteq> None \<or> is_confirmed_busy (ae_detector e))
               then schedule_deferred now (e\<lparr>ae_deferred := Some n\<rparr>)
               else apply_protocol_ringing n (clear_deferred e))
    else entry_of m j)"
  by (auto simp: defer_or_deliver_def)

lemma deferred_after_exit_ring [simp]: "ae_deferred (apply_command_exit_ringing d x e) = ae_deferred e"
  by (simp add: apply_command_exit_ringing_def latch_ring_def Let_def)

lemma dispatch_entry:
  assumes e: "entry_of m i = Some e"
  shows "entry_of (fst (dispatch_completion now i ev m)) i = Some (completed_entry now m i ev e)"
proof (cases "claimed_by_await m i ev")
  case True
  with e show ?thesis by (simp add: dispatch_claimed completed_entry_def verdict_on_def)
next
  case False
  note unclaimed = offer_unclaimed_pair [OF False, of now]
  show ?thesis
  proof (cases ev)
    case Settled
    with False e unclaimed show ?thesis
      by (auto simp: dispatch_completion_def completed_entry_def verdict_on_def)
  next
    case (CommandFinished d a x r armed)
    with False e unclaimed show ?thesis
      by (cases "ae_deferred e")
         (auto simp: dispatch_completion_def completed_entry_def verdict_on_def entry_of_flush
            has_attention_def Let_def)
  next
    case (NotificationEvent n)
    with False e unclaimed show ?thesis
      by (auto simp: dispatch_completion_def completed_entry_def verdict_on_def
          entry_of_defer_or_deliver [OF e])
  qed
qed

lemma dispatch_other: "j \<noteq> i \<Longrightarrow> entry_of (fst (dispatch_completion now i ev m)) j = entry_of m j"
proof (cases "claimed_by_await m i ev")
  case True
  then show ?thesis by (simp add: dispatch_claimed)
next
  case False
  assume "j \<noteq> i"
  then show ?thesis
    unfolding dispatch_completion_def offer_unclaimed_pair [OF False]
    by (auto simp: entry_of_flush defer_or_deliver_def Let_def split: option.splits completion_event.splits)
qed

section \<open>Ringing\<close>

lemma ring_updates [simp]:
  "has_active_ring (apply_protocol_ringing n e)"
  "has_active_ring (apply_command_exit_ringing d x e)"
  by (auto simp: has_active_ring_def apply_protocol_ringing_def apply_command_exit_ringing_def Let_def)

lemma watching_ring: "is_watching m e \<Longrightarrow> has_active_ring (apply_watching_ringing e)"
  by (auto simp: has_active_ring_def apply_watching_ringing_def is_watching_def split: option.splits)

lemma clear_deferred_ring [simp]:
  "has_active_ring (clear_deferred e) = has_active_ring e" "ae_ring_seq (clear_deferred e) = ae_ring_seq e"
  "ae_protocol (clear_deferred e) = ae_protocol e" "ae_exit (clear_deferred e) = ae_exit e"
  "ae_watching_ring (clear_deferred e) = ae_watching_ring e" "ae_todo (clear_deferred e) = ae_todo e"
  "ae_detector (clear_deferred e) = ae_detector e"
  by (auto simp: clear_deferred_def has_active_ring_def)

text \<open>A ringing verdict raises the alarm, and TODO unless a settle raised it; the others do not.\<close>

lemma verdict_rings:
  assumes "verdict_on m i e ev = RingNow"
  shows "has_active_ring (completed_entry now m i ev e)"
proof (cases ev)
  case Settled
  with assms have "is_watching m e" by (auto simp: verdict_on_def split: if_splits)
  with assms Settled show ?thesis using watching_ring by (simp add: completed_entry_def)
qed (use assms in \<open>auto simp: completed_entry_def split: option.splits\<close>)

lemma verdict_silent:
  assumes "verdict_on m i e ev \<noteq> RingNow"
  shows "ae_ring_seq (completed_entry now m i ev e) = ae_ring_seq e"
    and "has_active_ring (completed_entry now m i ev e) = has_active_ring e"
    and "ae_todo (completed_entry now m i ev e) = ae_todo e"
    and "ae_notification (completed_entry now m i ev e) = ae_notification e"
  using assms
  by (cases "verdict_on m i e ev";
      auto simp: completed_entry_def schedule_deferred_def has_active_ring_def split: completion_event.splits)+

lemma verdict_attended: "has_attention m i \<Longrightarrow> verdict_on m i e ev \<noteq> RingNow"
  by (auto simp: verdict_on_def)

text \<open>A ring counts once: the counter grows exactly when its track was silent.\<close>

lemma ring_seq_apply:
  "ae_ring_seq (apply_protocol_ringing n e) = (if ae_protocol e = ProtoRinging then ae_ring_seq e else Suc (ae_ring_seq e))"
  "ae_ring_seq (apply_command_exit_ringing d x e) = (if ae_exit e = ExitRinging then ae_ring_seq e else Suc (ae_ring_seq e))"
  "ae_ring_seq (apply_watching_ringing e) = (if ae_watching_ring e \<noteq> None then ae_ring_seq e else Suc (ae_ring_seq e))"
  by (auto simp: apply_protocol_ringing_def apply_command_exit_ringing_def apply_watching_ringing_def
      latch_ring_def Let_def)

lemma ring_seq_completed: "ae_ring_seq e \<le> ae_ring_seq (completed_entry now m i ev e)"
  by (auto simp: completed_entry_def ring_seq_apply schedule_deferred_def
      split: verdict.splits completion_event.splits option.splits)

section \<open>Releasing rings\<close>

definition silenced :: "alert_entry \<Rightarrow> alert_entry" where
  "silenced e =
     (let e1 = clear_deferred e;
          e2 = (if ae_protocol e = ProtoRinging then e1\<lparr>ae_protocol := ProtoIdle, ae_progress := None\<rparr> else e1);
          e3 = (if ae_exit e = ExitRinging then e2\<lparr>ae_exit := ExitIdle\<rparr> else e2)
      in if ae_watching_ring e \<noteq> None
         then e3\<lparr>ae_watching_ring := None, ae_output_since_ring := False,
                 ae_detector := det_reset (ae_detector e)\<rparr>
         else e3)"

lemma release_ring_entry:
  "entry_of (fst (release_ring i k m)) j =
   (if j = i
    then map_option (\<lambda>e.
           case k of
             TrackProtocol \<Rightarrow> if ae_protocol e = ProtoRinging then e\<lparr>ae_protocol := ProtoIdle, ae_progress := None\<rparr> else e
           | TrackCommandExit \<Rightarrow> if ae_exit e = ExitRinging then e\<lparr>ae_exit := ExitIdle\<rparr> else e
           | TrackWatching \<Rightarrow>
               if ae_watching_ring e \<noteq> None
               then e\<lparr>ae_watching_ring := None, ae_output_since_ring := False, ae_detector := det_reset (ae_detector e)\<rparr>
               else e) (entry_of m i)
    else entry_of m j)"
  by (cases "entry_of m i"; cases k) (auto simp: release_ring_def)

lemma release_ring_result:
  "snd (release_ring i k m) \<longleftrightarrow>
   (case entry_of m i of None \<Rightarrow> False
    | Some e \<Rightarrow> (case k of TrackProtocol \<Rightarrow> ae_protocol e = ProtoRinging
                 | TrackCommandExit \<Rightarrow> ae_exit e = ExitRinging
                 | TrackWatching \<Rightarrow> ae_watching_ring e \<noteq> None))"
  by (auto simp: release_ring_def split: option.splits ring_track.splits)

lemma clear_all_entry:
  "entry_of (fst (clear_all_rings_if_active i m)) j =
   (if j = i then map_option silenced (entry_of m i) else entry_of m j)"
  by (cases "entry_of m i")
     (auto simp: clear_all_rings_if_active_def release_ring_entry silenced_def Let_def case_prod_unfold)

lemma clear_all_result:
  "snd (clear_all_rings_if_active i m) \<longleftrightarrow> (\<exists>e. entry_of m i = Some e \<and> has_active_ring e)"
  by (cases "entry_of m i")
     (auto simp: clear_all_rings_if_active_def release_ring_entry release_ring_result has_active_ring_def
        Let_def case_prod_unfold)

lemma silenced_fields [simp]:
  "\<not> has_active_ring (silenced e)" "ae_deferred (silenced e) = None" "ae_deferred_timer (silenced e) = None"
  "ae_ring_seq (silenced e) = ae_ring_seq e" "ae_todo (silenced e) = ae_todo e"
  "ae_notification (silenced e) = ae_notification e" "ae_watch (silenced e) = ae_watch e"
  "ae_dismissed_ring (silenced e) = ae_dismissed_ring e"
  by (auto simp: silenced_def clear_deferred_def has_active_ring_def Let_def)

end
