(* ===== verification/Alert_Awaits.thy ===== *)
theory Alert_Awaits
  imports Alert_Rings
begin

text \<open>
  Awaits: every parked await has a number of its own and a pending time-out within the cap, it is
  settled at most once, and a Session that ends leaves none behind.
\<close>

section \<open>The invariant\<close>

definition bounded_waiter :: "await_waiter \<Rightarrow> bool" where
  "bounded_waiter w \<longleftrightarrow> (\<exists>d. aw_timeout w = Some d \<and> d \<le> aw_started w + max_await_timeout_ms)"

definition await_inv :: "alert_manager \<Rightarrow> bool" where
  "await_inv m \<longleftrightarrow>
     (\<forall>i. distinct (map aw_id (waiters_of m i))) \<and>
     (\<forall>i j w. i \<noteq> j \<longrightarrow> w \<in> aw_id ` set (waiters_of m i) \<longrightarrow> w \<notin> aw_id ` set (waiters_of m j)) \<and>
     (\<forall>i. \<forall>w \<in> set (waiters_of m i).
        aw_id w < am_next_waiter m \<and> aw_id w \<notin> fst ` set (am_outcomes m) \<and> bounded_waiter w) \<and>
     distinct (map fst (am_outcomes m)) \<and>
     (\<forall>w \<in> fst ` set (am_outcomes m). w < am_next_waiter m)"

lemma await_part_fields:
  "await_part m' = await_part m \<Longrightarrow>
   waiters_of m' = waiters_of m \<and> am_outcomes m' = am_outcomes m \<and> am_next_waiter m' = am_next_waiter m"
  by (auto simp: await_part_def waiters_of_def fun_eq_iff)

lemma await_inv_cong: "await_part m' = await_part m \<Longrightarrow> await_inv m' = await_inv m"
  by (drule await_part_fields) (simp add: await_inv_def)

lemma await_inv_new: "await_inv new_manager"
  by (simp add: await_inv_def new_manager_def waiters_of_def)

section \<open>Waiters of a Session\<close>

lemma waiters_notify [simp]: "waiters_of (notify i m) j = waiters_of m j"
  using await_part_fields [OF parts_notify(1)] by metis

lemma waiters_outcomes [simp]: "waiters_of (m\<lparr>am_outcomes := x\<rparr>) j = waiters_of m j"
  by (simp add: waiters_of_def)

lemma waiters_drop [simp]:
  "waiters_of (drop_waiter i w m) j =
   (if j = i then filter (\<lambda>x. aw_id x \<noteq> w) (waiters_of m i) else waiters_of m j)"
  by (auto simp: drop_waiter_def Let_def waiters_of_def [of "_\<lparr>am_awaits := _\<rparr>"] update_conv' delete_conv'
      fun_upd_def) (auto simp: waiters_of_def)

lemma waiters_settle:
  "waiters_of (settle_waiter i w out m) j =
   (if j = i then filter (\<lambda>x. aw_id x \<noteq> w) (waiters_of m i) else waiters_of m j)"
proof (cases "w \<in> aw_id ` set (waiters_of m i)")
  case False
  then have "filter (\<lambda>x. aw_id x \<noteq> w) (waiters_of m i) = waiters_of m i"
    by (auto simp: filter_id_conv)
  with False show ?thesis by (simp add: settle_waiter_def)
qed (simp add: settle_waiter_def Let_def)

lemma next_notify [simp]: "am_next_waiter (notify i m) = am_next_waiter m" "am_outcomes (notify i m) = am_outcomes m"
  using await_part_fields [OF parts_notify(1)] by auto

lemma next_drop [simp]: "am_next_waiter (drop_waiter i w m) = am_next_waiter m" "am_outcomes (drop_waiter i w m) = am_outcomes m"
  by (auto simp: drop_waiter_def Let_def)

lemma settle_fields [simp]:
  "am_next_waiter (settle_waiter i w out m) = am_next_waiter m"
  "am_outcomes (settle_waiter i w out m) =
     am_outcomes m @ (if w \<in> aw_id ` set (waiters_of m i) then [(w, out)] else [])"
  by (auto simp: settle_waiter_def Let_def)

lemma waiters_map:
  "waiters_of (map_waiters i f m) j = (if j = i then map f (waiters_of m i) else waiters_of m j)"
  by (auto simp: map_waiters_def waiters_of_def [of "_\<lparr>am_awaits := _\<rparr>"] update_conv')
     (auto simp: waiters_of_def)

lemma map_waiters_fields [simp]:
  "am_next_waiter (map_waiters i f m) = am_next_waiter m" "am_outcomes (map_waiters i f m) = am_outcomes m"
  by (auto simp: map_waiters_def)

lemma waiters_add:
  "waiters_of (add_waiter i w m) j = (if j = i then waiters_of m i @ [w] else waiters_of m j)"
  by (auto simp: add_waiter_def waiters_of_def [of "_\<lparr>am_awaits := _\<rparr>"] update_conv')
     (auto simp: waiters_of_def)

section \<open>Preservation\<close>

lemma await_inv_settle: "await_inv m \<Longrightarrow> await_inv (settle_waiter i w out m)"
proof -
  assume inv: "await_inv m"
  show ?thesis
  proof (cases "w \<in> aw_id ` set (waiters_of m i)")
    case False
    then have "settle_waiter i w out m = m" by (simp add: settle_waiter_def)
    with inv show ?thesis by simp
  next
    case True
    then obtain x where x: "x \<in> set (waiters_of m i)" "aw_id x = w" by auto
    have w: "w < am_next_waiter m" "w \<notin> fst ` set (am_outcomes m)" using inv x unfolding await_inv_def by blast+
    have other: "w \<notin> aw_id ` set (waiters_of m j)" if "j \<noteq> i" for j
      using inv True that unfolding await_inv_def by metis
    have sub: "set (waiters_of (settle_waiter i w out m) j) \<subseteq> set (waiters_of m j)" for j
      by (auto simp: waiters_settle)
    have gone: "w \<notin> aw_id ` set (waiters_of (settle_waiter i w out m) j)" for j
      using other by (auto simp: waiters_settle)
    have "distinct (map aw_id (waiters_of (settle_waiter i w out m) j))" for j
      using inv by (auto simp: waiters_settle await_inv_def distinct_map_filter)
    moreover have "u \<notin> aw_id ` set (waiters_of (settle_waiter i w out m) k)"
      if "j \<noteq> k" "u \<in> aw_id ` set (waiters_of (settle_waiter i w out m) j)" for j k u
      using inv that sub unfolding await_inv_def by (metis (no_types, lifting) image_mono subsetD)
    moreover have "aw_id u < am_next_waiter m \<and> aw_id u \<notin> fst ` set (am_outcomes m) \<and> bounded_waiter u \<and> aw_id u \<noteq> w"
      if "u \<in> set (waiters_of (settle_waiter i w out m) j)" for j u
      using inv that sub gone unfolding await_inv_def by (metis image_eqI subsetD)
    moreover have "distinct (map fst (am_outcomes m))" "\<forall>v \<in> fst ` set (am_outcomes m). v < am_next_waiter m"
      using inv by (auto simp: await_inv_def)
    ultimately show ?thesis
      unfolding await_inv_def using True w by (simp del: image_iff)
  qed
qed

lemma await_inv_map:
  assumes "await_inv m" and "\<And>w. aw_id (f w) = aw_id w \<and> aw_timeout (f w) = aw_timeout w \<and> aw_started (f w) = aw_started w"
  shows "await_inv (map_waiters i f m)"
proof -
  have ids: "map aw_id (waiters_of (map_waiters i f m) j) = map aw_id (waiters_of m j)" for j
    using assms(2) by (simp add: waiters_map comp_def)
  then have sets: "aw_id ` set (waiters_of (map_waiters i f m) j) = aw_id ` set (waiters_of m j)" for j
    by (metis image_set)
  have "\<forall>u \<in> set (waiters_of (map_waiters i f m) j).
      aw_id u < am_next_waiter m \<and> aw_id u \<notin> fst ` set (am_outcomes m) \<and> bounded_waiter u" for j
    using assms by (auto simp: waiters_map await_inv_def bounded_waiter_def)
  with assms(1) show ?thesis by (simp add: await_inv_def ids sets)
qed

lemma await_inv_add:
  assumes inv: "await_inv m" and w: "aw_id w = am_next_waiter m" "bounded_waiter w"
  shows "await_inv (add_waiter i w (m\<lparr>am_next_waiter := Suc (am_next_waiter m)\<rparr>))"
proof -
  let ?m = "add_waiter i w (m\<lparr>am_next_waiter := Suc (am_next_waiter m)\<rparr>)"
  have ws: "waiters_of ?m j = (if j = i then waiters_of m i @ [w] else waiters_of m j)" for j
    by (simp add: waiters_add) (simp add: waiters_of_def)
  have f: "am_next_waiter ?m = Suc (am_next_waiter m)" "am_outcomes ?m = am_outcomes m"
    by (auto simp: add_waiter_def)
  have old: "aw_id u < am_next_waiter m" if "u \<in> set (waiters_of m j)" for u j
    using inv that by (auto simp: await_inv_def)
  have fresh: "am_next_waiter m \<notin> fst ` set (am_outcomes m)" using inv by (auto simp: await_inv_def)
  have unused: "am_next_waiter m \<notin> aw_id ` set (waiters_of m j)" for j
    using old [of _ j] by (metis imageE less_irrefl)
  then have "distinct (map aw_id (waiters_of ?m j))" for j
    using inv w(1) by (simp add: ws await_inv_def)
  moreover have "u \<notin> aw_id ` set (waiters_of ?m k)"
    if jk: "j \<noteq> k" and u: "u \<in> aw_id ` set (waiters_of ?m j)" for j k u
  proof -
    have "v \<notin> aw_id ` set (waiters_of m k)" if "v \<in> aw_id ` set (waiters_of m j)" for v
      using inv that jk by (simp add: await_inv_def)
    with u jk unused [of j] unused [of k] w(1) show ?thesis by (auto simp: ws split: if_splits) (metis image_eqI)+
  qed
  moreover have "aw_id u < Suc (am_next_waiter m) \<and> aw_id u \<notin> fst ` set (am_outcomes m) \<and> bounded_waiter u"
    if "u \<in> set (waiters_of ?m j)" for j u
  proof (cases "u \<in> set (waiters_of m j)")
    case True
    then have "aw_id u < am_next_waiter m \<and> aw_id u \<notin> fst ` set (am_outcomes m) \<and> bounded_waiter u"
      using inv by (simp only: await_inv_def) blast
    then show ?thesis by simp
  next
    case False
    with that have "u = w" by (auto simp: ws split: if_splits)
    with w fresh show ?thesis by simp
  qed
  moreover have "distinct (map fst (am_outcomes m))" "\<forall>v \<in> fst ` set (am_outcomes m). v < Suc (am_next_waiter m)"
    using inv by (auto simp: await_inv_def less_Suc_eq)
  ultimately show ?thesis unfolding await_inv_def f by blast
qed

lemma await_inv_offer: "await_inv m \<Longrightarrow> await_inv (fst (offer_waiters now i ev ws m))"
  by (induction now i ev ws m rule: offer_waiters.induct) (auto simp: await_inv_settle split: option.splits)

lemma await_inv_settle_all: "await_inv m \<Longrightarrow> await_inv (settle_all now i how ws m)"
  by (induction now i how ws m rule: settle_all.induct) (auto simp: await_inv_settle)

lemma await_inv_settle_waiters: "await_inv m \<Longrightarrow> await_inv (settle_waiters now i how m)"
  by (simp add: settle_waiters_def await_inv_settle_all)

lemma await_inv_dispatch: "await_inv m \<Longrightarrow> await_inv (fst (dispatch_completion now i ev m))"
proof -
  assume "await_inv m"
  then have 1: "await_inv (fst (offer_waiters now i ev (waiters_of m i) m))" by (rule await_inv_offer)
  have "await_part (fst (dispatch_completion now i ev m)) = await_part (fst (offer_waiters now i ev (waiters_of m i) m))"
    by (auto simp: dispatch_completion_def Let_def case_prod_unfold split: option.splits completion_event.splits)
  with 1 show ?thesis using await_inv_cong by blast
qed

section \<open>Every event keeps the invariant\<close>

lemma await_inv_part: "await_inv m \<Longrightarrow> await_part m' = await_part m \<Longrightarrow> await_inv m'"
  using await_inv_cong by blast

lemma await_inv_notify [simp]: "await_inv (notify i m) = await_inv m"
  by (rule await_inv_cong) simp

lemma await_inv_set_entry [simp]: "await_inv (set_entry i e m) = await_inv m"
  by (rule await_inv_cong) simp

lemma await_inv_with_entry [simp]: "await_inv (with_entry i f m) = await_inv m"
  by (rule await_inv_cong) simp

lemma await_inv_with_detector [simp]: "await_inv (with_detector i f m) = await_inv m"
  by (rule await_inv_cong) simp

lemma await_inv_flush [simp]: "await_inv (flush_deferred i m) = await_inv m"
  by (rule await_inv_cong) simp

lemma await_inv_create [simp]: "await_inv (get_or_create_entry i m) = await_inv m"
  by (rule await_inv_cong) simp

lemma await_part_settings [simp]:
  "await_part (m\<lparr>am_removed := s\<rparr>) = await_part m" "await_part (m\<lparr>am_helpers := s\<rparr>) = await_part m"
  "await_part (m\<lparr>am_attention := a\<rparr>) = await_part m" "await_part (m\<lparr>am_attention_timer := t\<rparr>) = await_part m"
  "await_part (m\<lparr>am_inactivity := k\<rparr>) = await_part m" "await_part (m\<lparr>am_defer := b\<rparr>) = await_part m"
  "await_part (m\<lparr>am_watched := w\<rparr>) = await_part m" "await_part (m\<lparr>am_entries := es\<rparr>) = await_part m"
  by (auto simp: await_part_def)

lemma await_inv_reported [simp]: "await_inv (reported_entry i m) = await_inv m"
  by (rule await_inv_cong) (simp add: reported_entry_def)

lemma await_inv_map_start: "await_inv m \<Longrightarrow> await_inv (map_waiters i waiter_on_command_start m)"
  by (rule await_inv_map) (auto simp: waiter_on_command_start_def)

lemma await_inv_map_output: "await_inv m \<Longrightarrow> await_inv (map_waiters i waiter_on_output m)"
  by (rule await_inv_map) (auto simp: waiter_on_output_def)

lemma await_inv_start_watch: "await_inv m \<Longrightarrow> await_inv (start_command_exit_watch now i cs m)"
  by (cases "entry_of m i") (simp_all add: start_command_exit_watch_def Let_def await_inv_map_start)

lemma await_inv_finish_watch: "await_inv m \<Longrightarrow> await_inv (fst (finish_command_exit_watch now i x m))"
  by (auto simp: finish_command_exit_watch_def Let_def intro!: await_inv_dispatch split: option.splits)

lemma await_inv_semantic_event:
  "await_inv (fst mc) \<Longrightarrow> await_inv (fst (apply_semantic_event now i ev mc))"
  using await_inv_start_watch await_inv_finish_watch
  by (cases mc) (auto simp: apply_semantic_event_def Let_def case_prod_unfold split: option.splits semantic_event.splits)

lemma await_inv_semantic_events:
  "await_inv (fst mc) \<Longrightarrow> await_inv (fst (fold (apply_semantic_event now i) evs mc))"
  by (induction evs arbitrary: mc) (auto simp: await_inv_semantic_event)

lemma await_inv_progress_cycle: "await_inv m \<Longrightarrow> await_inv (finish_protocol_progress_cycle now i t p m)"
  by (auto simp: finish_protocol_progress_cycle_def Let_def case_prod_unfold intro!: await_inv_dispatch)

lemma await_inv_progress: "await_inv m \<Longrightarrow> await_inv (update_protocol_progress now i p m)"
  using await_inv_progress_cycle [of "reported_entry i m"]
  by (auto simp: update_protocol_progress_def complete_protocol_progress_def Let_def split: option.splits)

lemma await_part_set_attention [simp]: "await_part (set_attention now i m) = await_part m"
  by (auto simp: set_attention_def Let_def split: option.splits)

lemma await_part_attend [simp]: "await_part (attend now i m) = await_part m"
  by (auto simp: attend_def Let_def case_prod_unfold)

lemma await_part_clear_attention [simp]: "await_part (clear_attention i m) = await_part m"
  by (auto simp: clear_attention_def Let_def split: option.splits)

lemma await_part_inactivity [simp]: "await_part (set_inactivity_timeout_ms now ms m) = await_part m"
  by (auto simp: set_inactivity_timeout_ms_def Let_def split: option.splits)

lemma await_part_fold: "(\<And>i m. await_part (f i m) = await_part m) \<Longrightarrow> await_part (fold f is m) = await_part m"
  by (induction "is" arbitrary: m) auto

lemma await_part_defer_setting [simp]: "await_part (set_defer_alerts_until_quiet b m) = await_part m"
  by (simp add: set_defer_alerts_until_quiet_def Let_def await_part_fold)

lemma await_part_silence [simp]: "await_part (silence_dropped_rule i m) = await_part m"
  by (simp add: silence_dropped_rule_def)

lemma await_part_watched [simp]: "await_part (set_watched_commands names m) = await_part m"
  by (simp add: set_watched_commands_def Let_def await_part_fold)

lemma await_part_watch_one [simp]: "await_part (set_command_watched name w m) = await_part m"
  by (simp add: set_command_watched_def Let_def)

lemma await_part_controls [simp]:
  "await_part (dismiss_alert i m) = await_part m" "await_part (toggle_todo i m) = await_part m"
  "await_part (mark_todo i m) = await_part m" "await_part (clear_todo i m) = await_part m"
  "await_part (seed i t n m) = await_part m"
  by (auto simp: dismiss_alert_def toggle_todo_def mark_todo_def clear_todo_def seed_def Let_def case_prod_unfold)

lemma await_part_timers [simp]:
  "await_part (fire_deferred now i m) = await_part m" "await_part (fire_attention now m) = await_part m"
  by (auto simp: fire_deferred_def fire_attention_def Let_def split: option.splits)

lemma await_inv_on_data: "await_inv m \<Longrightarrow> await_inv (on_data now i m)"
  by (auto simp: on_data_def stream_entry_def Let_def case_prod_unfold await_inv_map_output)

lemma await_part_on_resize [simp]: "await_part (on_resize now i m) = await_part m"
  by (auto simp: on_resize_def stream_entry_def Let_def)

lemma await_inv_on_exit: "await_inv m \<Longrightarrow> await_inv (on_exit now i x m)"
  by (auto simp: on_exit_def Let_def case_prod_unfold intro!: await_inv_settle_waiters await_inv_finish_watch)

lemma await_inv_consume [simp]: "await_inv (fst (consume_awaitable_ring i u m)) = await_inv m"
  by (rule await_inv_cong) (auto simp: consume_awaitable_ring_def split: option.splits)

lemma await_inv_await: "await_inv m \<Longrightarrow> await_inv (fst (await_completion now i u ms m))"
  by (auto simp: await_completion_def Let_def case_prod_unfold bounded_waiter_def
      intro!: await_inv_add split: option.splits)

lemma await_inv_cancel: "await_inv m \<Longrightarrow> await_inv (cancel_await now i w m)"
  by (auto simp: cancel_await_def await_inv_settle split: option.splits)

lemma await_inv_remove: "await_inv m \<Longrightarrow> await_inv (remove_session now i m)"
proof -
  assume inv: "await_inv m"
  let ?m = "m\<lparr>am_helpers := am_helpers m - {i}, am_removed := insert i (am_removed m)\<rparr>"
  have 1: "await_inv (settle_waiters now i AwaitDied ?m)"
    by (intro await_inv_settle_waiters await_inv_part [OF inv]) simp
  then show ?thesis
    by (auto simp: remove_session_def Let_def intro!: await_inv_part [OF 1])
qed

lemma await_inv_dispose: "await_inv m \<Longrightarrow> await_inv (dispose now m)"
proof -
  assume inv: "await_inv m"
  have "await_inv (fold (\<lambda>i. settle_waiters now i AwaitCancelled) is m)" for "is"
    using inv by (induction "is" arbitrary: m) (auto simp: await_inv_settle_waiters)
  then show ?thesis by (simp add: dispose_def await_inv_def waiters_of_def)
qed

lemma await_inv_fire_detector: "await_inv m \<Longrightarrow> await_inv (fire_detector now i k m)"
  by (auto simp: fire_detector_def on_settled_def await_inv_dispatch split: option.splits)

lemma await_inv_waiter_timers:
  "await_inv m \<Longrightarrow> await_inv (fire_grace now i w m)" "await_inv m \<Longrightarrow> await_inv (fire_timeout now i w m)"
  by (auto simp: fire_grace_def fire_timeout_def await_inv_settle split: option.splits)

lemma await_inv_step: "await_inv m \<Longrightarrow> await_inv (alert_step ev m)"
proof (induction ev m rule: alert_step.induct)
  case (4 now i evs m)
  then show ?case
    using await_inv_semantic_events [of "(reported_entry i m, False)"]
    by (auto simp: apply_terminal_semantic_events_def Let_def case_prod_unfold)
next
  case (5 now i n m)
  then show ?case
    by (auto simp: notify_from_protocol_def Let_def await_inv_dispatch split: option.splits)
qed (auto simp: await_inv_on_data await_inv_on_exit await_inv_progress await_inv_await await_inv_cancel
    await_inv_remove await_inv_dispose await_inv_fire_detector await_inv_waiter_timers set_helper_def
    intro: await_inv_part)

interpretation awaits: event_system alert_step "\<lambda>_. True" await_inv
  by unfold_locales (simp add: await_inv_step)

section \<open>Endings\<close>

lemma settle_all_waiters:
  "waiters_of (settle_all now i how ws m) j =
   (if j = i then filter (\<lambda>x. aw_id x \<notin> aw_id ` set ws) (waiters_of m i) else waiters_of m j)"
  by (induction now i how ws m rule: settle_all.induct) (auto simp: waiters_settle intro!: filter_cong)

lemma settle_waiters_none: "waiters_of (settle_waiters now i how m) i = []"
  by (simp add: settle_waiters_def settle_all_waiters filter_empty_conv)

lemma outcomes_grow: "set (am_outcomes m) \<subseteq> set (am_outcomes (settle_all now i how ws m))"
  by (induction now i how ws m rule: settle_all.induct) (auto split: if_splits)

lemma settled_outcomes:
  "w \<in> set ws \<Longrightarrow> set ws \<subseteq> set (waiters_of m i) \<Longrightarrow> distinct (map aw_id ws) \<Longrightarrow>
   (aw_id w, how (now - aw_started w)) \<in> set (am_outcomes (settle_all now i how ws m))"
proof (induction ws arbitrary: m)
  case (Cons x ws)
  let ?m = "settle_waiter i (aw_id x) (how (now - aw_started x)) m"
  show ?case
  proof (cases "w = x")
    case True
    have "(aw_id x, how (now - aw_started x)) \<in> set (am_outcomes ?m)" using Cons.prems by auto
    with outcomes_grow [of ?m now i how ws] True show ?thesis by auto
  next
    case False
    have "aw_id y \<noteq> aw_id x" if "y \<in> set ws" for y using Cons.prems(3) that by (metis distinct.simps(2) image_eqI list.simps(9) set_map)
    then have "set ws \<subseteq> set (waiters_of ?m i)" using Cons.prems by (auto simp: waiters_settle)
    with False Cons.prems Cons.IH [of ?m] show ?thesis by simp
  qed
qed simp

lemma died_on_exit:
  assumes inv: "await_inv m" and mem: "w \<in> set (waiters_of m i)"
  shows "waiters_of (settle_waiters now i how m) i = []"
    and "(aw_id w, how (now - aw_started w)) \<in> set (am_outcomes (settle_waiters now i how m))"
  using settle_waiters_none settled_outcomes [OF mem] inv by (auto simp: settle_waiters_def await_inv_def)

end
