(* ===== verification/Alert_Correct.thy ===== *)
theory Alert_Correct
  imports Alert_Awaits
begin

text \<open>
  What holds of the alert manager over whole histories: every entry keeps a sound detector and a
  timer for a deferred notification, the ring counter of a live Session never decreases, helper
  and removed Sessions stay silent, and listeners are told of changes only.
\<close>

section \<open>How entries evolve\<close>

definition deferred_ok :: "alert_entry \<Rightarrow> bool" where
  "deferred_ok e \<longleftrightarrow> (ae_deferred e = None \<longleftrightarrow> ae_deferred_timer e = None)"

definition entry_ok :: "alert_entry \<Rightarrow> bool" where
  "entry_ok e \<longleftrightarrow> det_inv (ae_detector e) \<and> \<not> det_disposed (ae_detector e) \<and> deferred_ok e"

definition entries_ok :: "alert_manager \<Rightarrow> bool" where
  "entries_ok m \<longleftrightarrow> (\<forall>i e. entry_of m i = Some e \<longrightarrow> entry_ok e)"

text \<open>Entries stay sound, no entry disappears and no ring counter decreases.\<close>

definition evolves :: "alert_manager \<Rightarrow> alert_manager \<Rightarrow> bool" where
  "evolves m m' \<longleftrightarrow> (entries_ok m \<longrightarrow> entries_ok m') \<and>
     (\<forall>i e. entry_of m i = Some e \<longrightarrow>
        (\<exists>e'. entry_of m' i = Some e' \<and> ae_ring_seq e \<le> ae_ring_seq e'))"

named_theorems evolve_intros \<open>operations under which the entries evolve\<close>

definition entry_step :: "(alert_entry \<Rightarrow> alert_entry) \<Rightarrow> bool" where
  "entry_step f \<longleftrightarrow> (\<forall>e. ae_ring_seq e \<le> ae_ring_seq (f e) \<and> (entry_ok e \<longrightarrow> entry_ok (f e)))"

lemma evolves_trans: "evolves m m' \<Longrightarrow> evolves m' m'' \<Longrightarrow> evolves m m''"
  unfolding evolves_def by (meson le_trans)

lemma evolves_same: "(\<And>j. entry_of m' j = entry_of m j) \<Longrightarrow> evolves m m'"
  by (auto simp: evolves_def entries_ok_def)

lemma evolves_refl [simp]: "evolves m m"
  by (rule evolves_same) simp

lemma evolves_upd:
  assumes "\<And>j. entry_of m' j = (if j = i then map_option f (entry_of m i) else entry_of m j)"
    and "\<And>e. entry_of m i = Some e \<Longrightarrow> ae_ring_seq e \<le> ae_ring_seq (f e) \<and> (entry_ok e \<longrightarrow> entry_ok (f e))"
  shows "evolves m m'"
  unfolding evolves_def entries_ok_def
proof (intro conjI impI allI)
  fix j e assume ok: "\<forall>i e. entry_of m i = Some e \<longrightarrow> entry_ok e" and e: "entry_of m' j = Some e"
  then show "entry_ok e" using assms by (cases "j = i") auto
next
  fix j e assume "entry_of m j = Some e"
  then show "\<exists>e'. entry_of m' j = Some e' \<and> ae_ring_seq e \<le> ae_ring_seq e'"
    using assms by (cases "j = i") auto
qed

lemma new_entry_ok: "entry_ok new_entry"
  by (simp add: entry_ok_def new_entry_def deferred_ok_def new_detector_inv) (simp add: new_detector_def)

lemma evolves_create [evolve_intros]: "evolves m (get_or_create_entry i m)"
  by (auto simp: evolves_def entries_ok_def new_entry_ok)

lemma evolves_reported [evolve_intros]: "evolves m (reported_entry i m)"
  unfolding reported_entry_def by (rule evolves_trans [OF evolves_same evolves_create]) simp

lemma evolves_with: "entry_step f \<Longrightarrow> evolves m (with_entry i f m)"
  by (rule evolves_upd [where i = i and f = f]) (auto simp: entry_step_def)

lemma evolves_set: "entry_of m i = Some e \<Longrightarrow> ae_ring_seq e \<le> ae_ring_seq e' \<Longrightarrow> (entry_ok e \<Longrightarrow> entry_ok e') \<Longrightarrow>
   evolves m (set_entry i e' m)"
  by (rule evolves_upd [where i = i and f = "\<lambda>_. e'"]) auto

lemma evolves_notify [evolve_intros]: "evolves m (notify i m)"
  by (rule evolves_same) simp

section \<open>Detector operations\<close>

lemma disposed_detector_ops [simp]:
  "det_disposed (det_reset d) = det_disposed d" "det_disposed (det_on_data now d) = det_disposed d"
  "det_disposed (det_on_resize now d) = det_disposed d" "det_disposed (det_fire k now d) = det_disposed d"
  "det_disposed (det_settle_begin d) = det_disposed d" "det_disposed (det_settle_end d) = det_disposed d"
  by (auto simp: det_reset_def det_on_data_def det_on_resize_def det_fire_def fire_busy_candidate_def
      fire_busy_confirm_def fire_might_need_def fire_resize_def det_settle_begin_def det_settle_end_def
      detector_defs Let_def split: option.splits quiesce_status.splits detector_timer.splits)

lemma evolves_detector:
  assumes "\<And>d. det_inv d \<Longrightarrow> det_inv (g d)" and "\<And>d. det_disposed (g d) = det_disposed d"
  shows "evolves m (with_detector i g m)"
  by (rule evolves_upd [where i = i and f = "\<lambda>e. e\<lparr>ae_detector := g (ae_detector e)\<rparr>"])
     (use assms in \<open>auto simp: entry_ok_def deferred_ok_def\<close>)

lemma evolves_detector_ops [evolve_intros]:
  "evolves m (with_detector i det_reset m)" "evolves m (with_detector i (det_on_data now) m)"
  "evolves m (with_detector i (det_on_resize now) m)" "evolves m (with_detector i (det_fire k now) m)"
  by (auto intro!: evolves_detector det_reset_inv det_on_data_inv det_on_resize_inv det_fire_inv)

section \<open>Completions and rings\<close>

lemma entry_ok_fields: "ae_detector e' = ae_detector e \<Longrightarrow> deferred_ok e' \<Longrightarrow> entry_ok e \<Longrightarrow> entry_ok e'"
  by (simp add: entry_ok_def)

lemma ring_update_fields [simp]:
  "ae_detector (apply_protocol_ringing n e) = ae_detector e" "ae_detector (apply_command_exit_ringing d x e) = ae_detector e"
  "ae_detector (apply_watching_ringing e) = ae_detector e" "ae_detector (schedule_deferred now e) = ae_detector e"
  "ae_deferred (apply_protocol_ringing n e) = ae_deferred e" "ae_deferred (apply_watching_ringing e) = ae_deferred e"
  "ae_deferred_timer (apply_protocol_ringing n e) = ae_deferred_timer e"
  "ae_deferred_timer (apply_command_exit_ringing d x e) = ae_deferred_timer e"
  "ae_deferred_timer (apply_watching_ringing e) = ae_deferred_timer e"
  "ae_deferred (clear_deferred e) = None" "ae_deferred_timer (clear_deferred e) = None"
  "ae_deferred (schedule_deferred now e) = ae_deferred e" "ae_deferred_timer (schedule_deferred now e) \<noteq> None"
  "ae_ring_seq (schedule_deferred now e) = ae_ring_seq e"
  by (auto simp: apply_protocol_ringing_def apply_command_exit_ringing_def apply_watching_ringing_def
      latch_ring_def clear_deferred_def schedule_deferred_def Let_def)

lemma completed_fields:
  "ae_detector (completed_entry now m i ev e) = ae_detector e"
  "deferred_ok e \<Longrightarrow> deferred_ok (completed_entry now m i ev e)"
  by (auto simp: completed_entry_def deferred_ok_def split: verdict.splits completion_event.splits option.splits)

lemma dispatch_entries:
  "entry_of (fst (dispatch_completion now i ev m)) j =
   (if j = i then map_option (completed_entry now m i ev) (entry_of m i) else entry_of m j)"
proof (cases "j = i")
  case True
  show ?thesis
  proof (cases "entry_of m i")
    case None
    then have "entry_of (fst (dispatch_completion now i ev m)) i = None"
      by (auto simp: dispatch_completion_def Let_def case_prod_unfold)
    with None True show ?thesis by simp
  next
    case (Some e)
    with True show ?thesis by (simp add: dispatch_entry)
  qed
qed (simp add: dispatch_other)

lemma evolves_dispatch [evolve_intros]: "evolves m (fst (dispatch_completion now i ev m))"
  by (rule evolves_upd [OF dispatch_entries])
     (auto simp: ring_seq_completed completed_fields intro: entry_ok_fields simp: entry_ok_def)

definition flushed_entry :: "alert_manager \<Rightarrow> session_id \<Rightarrow> alert_entry \<Rightarrow> alert_entry" where
  "flushed_entry m i e =
     (case ae_deferred e of
        None \<Rightarrow> e
      | Some n \<Rightarrow> if has_attention m i then clear_deferred e else apply_protocol_ringing n (clear_deferred e))"

lemma flush_entries:
  "entry_of (flush_deferred i m) j =
   (if j = i then map_option (flushed_entry m i) (entry_of m i) else entry_of m j)"
  unfolding flushed_entry_def by (rule entry_of_flush)

lemma flushed_fields:
  "ae_detector (flushed_entry m i e) = ae_detector e" "deferred_ok e \<Longrightarrow> deferred_ok (flushed_entry m i e)"
  "ae_ring_seq e \<le> ae_ring_seq (flushed_entry m i e)" "ae_deferred (flushed_entry m i e) = None"
  by (auto simp: flushed_entry_def deferred_ok_def ring_seq_apply split: option.splits)

lemma evolves_flush [evolve_intros]: "evolves m (flush_deferred i m)"
  by (rule evolves_upd [OF flush_entries]) (auto simp: flushed_fields entry_ok_def)

lemma evolves_release [evolve_intros]: "evolves m (fst (release_ring i k m))"
  by (rule evolves_upd [OF release_ring_entry])
     (auto simp: entry_ok_def deferred_ok_def det_reset_inv split: ring_track.splits)

lemma silenced_detector: "ae_detector (silenced e) = ae_detector e \<or> ae_detector (silenced e) = det_reset (ae_detector e)"
  by (auto simp: silenced_def Let_def)

lemma evolves_clear_all [evolve_intros]: "evolves m (fst (clear_all_rings_if_active i m))"
proof (rule evolves_upd [OF clear_all_entry])
  fix e
  show "ae_ring_seq e \<le> ae_ring_seq (silenced e) \<and> (entry_ok e \<longrightarrow> entry_ok (silenced e))"
    using silenced_detector [of e] by (auto simp: entry_ok_def deferred_ok_def det_reset_inv)
qed

lemma evolves_start [evolve_intros]: "evolves m (start_command_exit_watch now i cs m)"
proof (cases "entry_of m i")
  case (Some e)
  let ?f = "\<lambda>e. e\<lparr>ae_pending := None,
       ae_exit := (if ae_exit e \<noteq> ExitRinging then ExitIdle else ae_exit e),
       ae_watch := ae_watch (the (entry_of (start_command_exit_watch now i cs m) i)),
       ae_detector := det_reset (ae_detector e)\<rparr>"
  have "entry_of (start_command_exit_watch now i cs m) j = (if j = i then map_option ?f (entry_of m i) else entry_of m j)" for j
    using Some by (auto simp: start_command_exit_watch_def Let_def)
  then show ?thesis
    by (rule evolves_upd) (auto simp: entry_ok_def deferred_ok_def det_reset_inv)
qed (simp add: start_command_exit_watch_def)

lemma evolves_finish [evolve_intros]: "evolves m (fst (finish_command_exit_watch now i x m))"
proof (cases "entry_of m i")
  case (Some e)
  define m1 where "m1 = set_entry i (e\<lparr>ae_watch := None, ae_pending := None,
       ae_exit := (if ae_exit e \<noteq> ExitRinging then ExitIdle else ae_exit e)\<rparr>) m"
  have 1: "evolves m m1"
    unfolding m1_def using Some by (rule evolves_set) (auto simp: entry_ok_def deferred_ok_def)
  have "evolves m1 (fst (finish_command_exit_watch now i x m))"
    using Some by (cases "ae_watch e")
      (auto simp: finish_command_exit_watch_def Let_def m1_def [symmetric] intro: evolve_intros evolves_trans)
  with 1 show ?thesis by (rule evolves_trans)
qed (simp add: finish_command_exit_watch_def)

lemma evolves_semantic_event: "evolves (fst mc) (fst (apply_semantic_event now i ev mc))"
proof (cases mc)
  case (Pair m c)
  show ?thesis
  proof (cases "entry_of m i")
    case (Some e)
    have "evolves m (set_entry i (e\<lparr>ae_pending := p\<rparr>) m)" for p
      using Some by (rule evolves_set) (auto simp: entry_ok_def deferred_ok_def)
    with Some show ?thesis
      by (auto simp: Pair apply_semantic_event_def Let_def case_prod_unfold intro: evolve_intros
          split: semantic_event.splits)
  qed (simp add: Pair apply_semantic_event_def)
qed

lemma evolves_semantic_events: "evolves (fst mc) (fst (fold (apply_semantic_event now i) evs mc))"
proof (induction evs arbitrary: mc)
  case (Cons ev evs)
  from evolves_trans [OF evolves_semantic_event [of mc now i ev] Cons.IH] show ?case by simp
qed simp

lemma evolves_progress_cycle: "evolves m (finish_protocol_progress_cycle now i t p m)"
proof -
  let ?f = "\<lambda>e. e\<lparr>ae_progress := None, ae_protocol := (if ae_protocol e = ProtoBusy then ProtoIdle else ae_protocol e)\<rparr>"
  have "evolves m (with_entry i ?f m)"
    by (rule evolves_with) (auto simp: entry_step_def entry_ok_def deferred_ok_def)
  then have d: "evolves m (fst (dispatch_completion now i ev (with_entry i ?f m)))" for ev
    by (rule evolves_trans) (rule evolves_dispatch)
  then show ?thesis
    by (auto simp: finish_protocol_progress_cycle_def Let_def case_prod_unfold
        intro: evolves_trans [OF d evolves_notify])
qed

lemma evolves_progress: "evolves m (update_protocol_progress now i p m)"
proof -
  have set: "evolves m (notify i (set_entry i (e\<lparr>ae_progress := q, ae_protocol := s\<rparr>) (reported_entry i m)))"
    if "entry_of (reported_entry i m) i = Some e" for e q s
    by (rule evolves_trans [OF evolves_reported [of m i] evolves_trans [OF evolves_set [OF that] evolves_notify]])
       (auto simp: entry_ok_def deferred_ok_def)
  have cyc: "evolves m (finish_protocol_progress_cycle now i t q (reported_entry i m))" for t q
    by (rule evolves_trans [OF evolves_reported evolves_progress_cycle])
  show ?thesis
    using set cyc evolves_reported
    by (auto simp: update_protocol_progress_def complete_protocol_progress_def Let_def split: option.splits)
qed

lemma evolves_arm [evolve_intros]: "evolves m (arm_and_notify i m)"
proof -
  have "evolves m (fst (arm_command_exit i m))"
    by (auto simp: arm_command_exit_def entry_ok_def deferred_ok_def intro!: evolves_set split: option.splits)
  then show ?thesis
    by (auto simp: arm_and_notify_def Let_def case_prod_unfold intro: evolves_trans [OF _ evolves_notify])
qed

lemma evolves_set_attention [evolve_intros]: "evolves m (set_attention now i m)"
proof -
  have "evolves m (case am_attention m of None \<Rightarrow> m
      | Some prev \<Rightarrow> if prev \<noteq> '''' \<and> prev \<noteq> i then arm_and_notify prev m else m)"
    by (auto intro: evolve_intros split: option.splits)
  then show ?thesis unfolding set_attention_def Let_def by (rule evolves_trans) (rule evolves_same, simp)
qed

lemma evolves_fold: "(\<And>i m. evolves m (f i m)) \<Longrightarrow> evolves m (fold f is m)"
  by (induction "is" arbitrary: m) (auto intro: evolves_trans)

section \<open>The remaining operations\<close>

lemma evolves_if:
  "(b \<Longrightarrow> evolves m x) \<Longrightarrow> (\<not> b \<Longrightarrow> evolves m y) \<Longrightarrow> evolves m (if b then x else y)"
  by simp

lemma entry_step_flags:
  assumes "\<And>e. ae_ring_seq (f e) = ae_ring_seq e \<and> ae_detector (f e) = ae_detector e \<and>
      ae_deferred (f e) = ae_deferred e \<and> ae_deferred_timer (f e) = ae_deferred_timer e"
  shows "entry_step f"
  using assms by (auto simp: entry_step_def entry_ok_def deferred_ok_def)

lemma evolves_attend [evolve_intros]: "evolves m (attend now i m)"
proof -
  let ?m1 = "set_attention now i (get_or_create_entry i m)"
  let ?m2 = "fst (clear_all_rings_if_active i ?m1)"
  have "evolves m ?m2"
    by (rule evolves_trans [OF evolves_create evolves_trans [OF evolves_set_attention evolves_clear_all]])
  moreover have "evolves ?m2 (with_entry i (\<lambda>e. e\<lparr>ae_dismissed_ring := True, ae_todo := True\<rparr>) ?m2)"
    by (rule evolves_with, rule entry_step_flags) auto
  ultimately have m3: "evolves m (if d then with_entry i (\<lambda>e. e\<lparr>ae_dismissed_ring := True, ae_todo := True\<rparr>) ?m2 else ?m2)" for d
    using evolves_trans by auto
  have seen: "evolves m' (with_entry i (mark_command_exit_seen now) m')" for m'
    by (rule evolves_with, rule entry_step_flags) (auto simp: mark_command_exit_seen_def split: option.splits)
  show ?thesis
    unfolding attend_def Let_def case_prod_unfold
    using evolves_trans [OF m3 evolves_trans [OF seen evolves_notify]] by simp
qed

lemma evolves_clear_attention [evolve_intros]: "evolves m (clear_attention i m)"
proof -
  have "evolves m (m\<lparr>am_attention := None, am_attention_timer := None\<rparr>)" by (rule evolves_same) simp
  then show ?thesis
    by (auto simp: clear_attention_def Let_def intro: evolves_trans [OF _ evolves_arm] split: option.splits)
qed

lemma evolves_inactivity [evolve_intros]: "evolves m (set_inactivity_timeout_ms now ms m)"
proof -
  have "evolves m (m\<lparr>am_inactivity := ms\<rparr>)" by (rule evolves_same) simp
  then show ?thesis
    by (auto simp: set_inactivity_timeout_ms_def Let_def intro: evolves_trans [OF _ evolves_set_attention]
        split: option.splits)
qed

lemma evolves_defer_setting [evolve_intros]: "evolves m (set_defer_alerts_until_quiet b m)"
proof -
  have "evolves m (m\<lparr>am_defer := b\<rparr>)" by (rule evolves_same) simp
  moreover have "evolves m' (fold flush_deferred is m')" for "is" m' by (rule evolves_fold) (rule evolves_flush)
  ultimately show ?thesis
    by (auto simp: set_defer_alerts_until_quiet_def Let_def intro: evolves_trans)
qed

lemma evolves_silence [evolve_intros]: "evolves m (silence_dropped_rule i m)"
  unfolding silence_dropped_rule_def
  by (rule evolves_trans [OF evolves_with evolves_notify], rule entry_step_flags) (auto split: option.splits)

lemma evolves_watched [evolve_intros]: "evolves m (set_watched_commands names m)"
proof -
  have "evolves m (m\<lparr>am_watched := ws\<rparr>)" for ws by (rule evolves_same) simp
  moreover have "evolves m' (fold silence_dropped_rule is m')" for "is" m' by (rule evolves_fold) (rule evolves_silence)
  ultimately show ?thesis by (auto simp: set_watched_commands_def Let_def intro: evolves_trans)
qed

lemma evolves_watch_one [evolve_intros]: "evolves m (set_command_watched name w m)"
  by (auto simp: set_command_watched_def Let_def intro: evolve_intros)

lemma evolves_stream: "evolves m (fst (stream_entry i m))"
  by (auto simp: stream_entry_def intro: evolve_intros)

lemma evolves_on_data [evolve_intros]: "evolves m (on_data now i m)"
proof -
  let ?f = "\<lambda>e. if ae_watching_ring e \<noteq> None then e\<lparr>ae_output_since_ring := True\<rparr> else e"
  have "evolves m (with_detector i (det_on_data now) (fst (stream_entry i m)))"
    by (rule evolves_trans [OF evolves_stream]) (rule evolve_intros)
  moreover have "evolves m' (with_entry i ?f m')" for m' by (rule evolves_with, rule entry_step_flags) auto
  ultimately have "evolves m (with_entry i ?f (with_detector i (det_on_data now) (fst (stream_entry i m))))"
    by (rule evolves_trans)
  then have "evolves m (map_waiters i waiter_on_output
      (with_entry i ?f (with_detector i (det_on_data now) (fst (stream_entry i m)))))"
    by (rule evolves_trans) (rule evolves_same, simp)
  with evolves_stream [of m i] show ?thesis by (simp add: on_data_def Let_def case_prod_unfold)
qed

lemma evolves_on_resize [evolve_intros]: "evolves m (on_resize now i m)"
proof -
  have "evolves m (with_detector i (det_on_resize now) (fst (stream_entry i m)))"
    by (rule evolves_trans [OF evolves_stream]) (rule evolve_intros)
  with evolves_stream [of m i] show ?thesis by (simp add: on_resize_def Let_def case_prod_unfold)
qed

lemma evolves_on_exit [evolve_intros]: "evolves m (on_exit now i x m)"
proof -
  have f: "evolves m (fst (finish_command_exit_watch now i x m))" by (rule evolve_intros)
  have "evolves m' (settle_waiters now i AwaitDied m')" for m' by (rule evolves_same) simp
  then show ?thesis
    by (auto simp: on_exit_def Let_def case_prod_unfold intro: evolves_trans evolves_trans [OF f evolves_notify] f)
qed

lemma evolves_consume: "evolves m (fst (consume_awaitable_ring i u m))"
  by (auto simp: consume_awaitable_ring_def intro: evolve_intros split: option.splits)

lemma evolves_await [evolve_intros]: "evolves m (fst (await_completion now i u ms m))"
proof -
  have c: "evolves m (fst (consume_awaitable_ring i u (get_or_create_entry i m)))"
    by (rule evolves_trans [OF evolves_create evolves_consume])
  have a: "evolves m' (add_waiter i w (m'\<lparr>am_next_waiter := k\<rparr>))" for m' w k by (rule evolves_same) simp
  show ?thesis
    by (auto simp: await_completion_def Let_def case_prod_unfold
        intro: evolves_trans [OF c evolves_notify] evolves_trans [OF c evolves_trans [OF a evolves_notify]]
        split: option.splits)
qed

lemma evolves_settle [evolve_intros]: "evolves m (settle_waiter i w out m)"
  by (rule evolves_same) simp

lemma evolves_waiter_events [evolve_intros]:
  "evolves m (cancel_await now i w m)" "evolves m (fire_grace now i w m)" "evolves m (fire_timeout now i w m)"
  by (auto simp: cancel_await_def fire_grace_def fire_timeout_def intro: evolve_intros split: option.splits)

lemma evolves_dismiss [evolve_intros]: "evolves m (dismiss_alert i m)"
proof -
  let ?m1 = "fst (clear_all_rings_if_active i m)"
  have "evolves m (with_entry i (\<lambda>e. e\<lparr>ae_todo := (ae_todo e \<or> d), ae_dismissed_ring := False\<rparr>) ?m1)" for d
    by (rule evolves_trans [OF evolves_clear_all evolves_with], rule entry_step_flags) auto
  note w = this
  show ?thesis
    unfolding dismiss_alert_def Let_def case_prod_unfold
    by (intro evolves_if evolves_refl evolves_trans [OF w evolves_notify] w)
qed

lemma evolves_todo [evolve_intros]:
  "evolves m (toggle_todo i m)" "evolves m (mark_todo i m)" "evolves m (clear_todo i m)"
proof -
  have w: "evolves m (with_entry i f (get_or_create_entry i m))"
    if "\<And>e. ae_ring_seq (f e) = ae_ring_seq e \<and> ae_detector (f e) = ae_detector e \<and>
      ae_deferred (f e) = ae_deferred e \<and> ae_deferred_timer (f e) = ae_deferred_timer e" for f
    by (rule evolves_trans [OF evolves_create evolves_with]) (rule entry_step_flags, rule that)
  have c: "evolves m (notify i (fst (clear_all_rings_if_active i m')))" if "evolves m m'" for m'
    by (rule evolves_trans [OF that evolves_trans [OF evolves_clear_all evolves_notify]])
  show "evolves m (toggle_todo i m)" "evolves m (clear_todo i m)"
    by (auto simp: toggle_todo_def clear_todo_def Let_def intro!: c w)
  let ?m1 = "fst (clear_all_rings_if_active i (get_or_create_entry i m))"
  have m1: "evolves m ?m1" by (rule evolves_trans [OF evolves_create evolves_clear_all])
  have "evolves ?m1 (with_entry i (\<lambda>e. e\<lparr>ae_todo := True\<rparr>) ?m1)"
    by (rule evolves_with, rule entry_step_flags) auto
  then have "evolves m (notify i (with_entry i (\<lambda>e. e\<lparr>ae_todo := True\<rparr>) ?m1))"
    using m1 evolves_trans evolves_notify by blast
  with m1 show "evolves m (mark_todo i m)" by (auto simp: mark_todo_def Let_def case_prod_unfold)
qed

lemma evolves_seed [evolve_intros]: "evolves m (seed i todo n m)"
proof -
  have "evolves m' (with_entry i (\<lambda>e. clear_deferred (e\<lparr>ae_todo := todo,
        ae_notification := (if todo then normalize_activity_notification n else None),
        ae_watching_ring := None, ae_output_since_ring := False, ae_protocol := ProtoIdle,
        ae_progress := None, ae_exit := ExitIdle, ae_watch := None, ae_pending := None\<rparr>)) m')" for m'
    by (rule evolves_with) (auto simp: entry_step_def entry_ok_def deferred_ok_def)
  from evolves_trans [OF evolves_create evolves_trans [OF this evolves_trans [OF evolves_detector_ops(1) evolves_notify]]]
  show ?thesis by (simp add: seed_def Let_def)
qed

lemma attention_set_entry: "has_attention (set_entry i e m) j = has_attention m j"
  by (simp add: has_attention_def)

lemma evolves_fire_deferred [evolve_intros]: "evolves m (fire_deferred now i m)"
proof (cases "entry_of m i")
  case (Some e)
  have "entry_of (fire_deferred now i m) j =
      (if j = i then map_option (\<lambda>e. if \<not> due now (ae_deferred_timer e) then e
         else if quiet_at now (ae_detector e) > now then schedule_deferred now (e\<lparr>ae_deferred_timer := None\<rparr>)
         else flushed_entry m i (e\<lparr>ae_deferred_timer := None\<rparr>)) (entry_of m i) else entry_of m j)" for j
    using Some by (auto simp: fire_deferred_def Let_def flush_entries flushed_entry_def attention_set_entry
        split: option.splits)
  then show ?thesis
  proof (rule evolves_upd)
    fix e
    have "due now (ae_deferred_timer e) \<Longrightarrow> entry_ok e \<Longrightarrow> ae_deferred e \<noteq> None"
      by (auto simp: due_def entry_ok_def deferred_ok_def split: option.splits)
    then show "ae_ring_seq e \<le> ae_ring_seq (if \<not> due now (ae_deferred_timer e) then e
         else if quiet_at now (ae_detector e) > now then schedule_deferred now (e\<lparr>ae_deferred_timer := None\<rparr>)
         else flushed_entry m i (e\<lparr>ae_deferred_timer := None\<rparr>)) \<and>
      (entry_ok e \<longrightarrow> entry_ok (if \<not> due now (ae_deferred_timer e) then e
         else if quiet_at now (ae_detector e) > now then schedule_deferred now (e\<lparr>ae_deferred_timer := None\<rparr>)
         else flushed_entry m i (e\<lparr>ae_deferred_timer := None\<rparr>)))"
      by (auto simp: entry_ok_def deferred_ok_def flushed_entry_def ring_seq_apply split: option.splits)
  qed
qed (simp add: fire_deferred_def)

lemma evolves_fire_attention [evolve_intros]: "evolves m (fire_attention now m)"
proof -
  have "evolves m (m\<lparr>am_attention := None\<rparr>)" by (rule evolves_same) simp
  then have "evolves m (arm_and_notify i (m\<lparr>am_attention := None\<rparr>))" for i by (rule evolves_trans) (rule evolves_arm)
  then have "evolves m (if b then arm_and_notify i (m\<lparr>am_attention := None\<rparr>) else m)" for b i by simp
  then have "evolves m ((if b then arm_and_notify i (m\<lparr>am_attention := None\<rparr>) else m)\<lparr>am_attention_timer := None\<rparr>)" for b i
    by (rule evolves_trans) (rule evolves_same, simp)
  then show ?thesis by (auto simp: fire_attention_def Let_def split: option.splits)
qed

text \<open>The settle: the owner acts between the halves of the detector's step, on other fields only.\<close>

lemma evolves_fire_detector [evolve_intros]: "evolves m (fire_detector now i k m)"
proof (cases "entry_of m i")
  case (Some e)
  show ?thesis
  proof (cases "due now (timer_of k (ae_detector e)) \<and> k = SettledTimer \<and> det_settles (ae_detector e)")
    case False
    with Some show ?thesis by (auto simp: fire_detector_def intro: evolve_intros)
  next
    case True
    let ?m1 = "with_detector i det_settle_begin m"
    let ?F = "\<lambda>e. flushed_entry (fst (dispatch_completion now i Settled ?m1)) i (completed_entry now ?m1 i Settled e)"
    let ?g = "\<lambda>e. (?F (e\<lparr>ae_detector := det_settle_begin (ae_detector e)\<rparr>))
        \<lparr>ae_detector := det_settle_end (det_settle_begin (ae_detector e))\<rparr>"
    have "entry_of (fire_detector now i k m) j = (if j = i then map_option ?g (entry_of m i) else entry_of m j)" for j
      using Some True by (auto simp: fire_detector_def on_settled_def flush_entries dispatch_entries
          flushed_fields(1) completed_fields(1))
    then show ?thesis
    proof (rule evolves_upd)
      fix e' assume e': "entry_of m i = Some e'"
      with Some True have settled: "settled_timer (ae_detector e') \<noteq> None"
        by (auto simp: due_def split: option.splits)
      have "ae_ring_seq e' \<le> ae_ring_seq (?g e')"
        using ring_seq_completed flushed_fields(3) by (simp add: le_trans) (metis (no_types, lifting) alert_entry.select_convs(4) alert_entry.surjective alert_entry.update_convs(1) le_trans)
      moreover have "deferred_ok (?g e')" if "deferred_ok e'"
        using completed_fields(2) [of "e'\<lparr>ae_detector := det_settle_begin (ae_detector e')\<rparr>" now ?m1 i Settled] that
          flushed_fields(2) by (simp add: deferred_ok_def)
      ultimately show "ae_ring_seq e' \<le> ae_ring_seq (?g e') \<and> (entry_ok e' \<longrightarrow> entry_ok (?g e'))"
        using settled det_settle_inv by (auto simp: entry_ok_def)
    qed
  qed
qed (simp add: fire_detector_def)

end
