(* ===== verification/Alert_Steps.thy ===== *)
theory Alert_Steps
  imports Alert_Correct
begin

text \<open>
  The alert manager as a whole: every event keeps its entries sound, no event lowers a ring
  counter, removed and helper sessions stay silent, and each control of the user has its effect.
\<close>

section \<open>Soundness of the entries along a run\<close>

lemma evolves_semantic [evolve_intros]: "evolves m (apply_terminal_semantic_events now i evs m)"
proof -
  have "evolves m (fst (fold (apply_semantic_event now i) evs (reported_entry i m, False)))"
    using evolves_trans [OF evolves_reported [of m i]] evolves_semantic_events [of "(reported_entry i m, False)"] by simp
  then show ?thesis
    by (auto simp: apply_terminal_semantic_events_def Let_def case_prod_unfold
        intro: evolves_trans [OF _ evolves_notify])
qed

lemma evolves_notify_protocol [evolve_intros]: "evolves m (notify_from_protocol now i n m)"
  by (auto simp: notify_from_protocol_def Let_def split: option.splits
      intro!: evolves_trans [OF evolves_reported evolves_dispatch] evolves_trans [OF _ evolves_notify] evolves_reported)

lemma evolves_helper [evolve_intros]: "evolves m (set_helper i h m)"
  by (rule evolves_same) (simp add: set_helper_def entry_of_def)

lemma evolves_cancel [evolve_intros]: "evolves m (cancel_await now i w m)"
  by (auto simp: cancel_await_def intro: evolve_intros split: option.splits)

lemma evolves_step:
  assumes "\<And>i. e \<noteq> ARemove i" and "e \<noteq> ADispose"
  shows "evolves m (alert_step (now, e) m)"
  using assms by (cases e) (auto intro: evolve_intros evolves_progress)

lemma entry_of_remove: "entry_of (remove_session now i m) j = (if j = i then None else entry_of m j)"
proof -
  have del: "map_of (AList.delete i xs) j = (if j = i then None else map_of xs j)" for xs :: "('a \<times> 'b) list" and i j
    by (simp add: delete_conv')
  let ?m = "settle_waiters now i AwaitDied (m\<lparr>am_helpers := am_helpers m - {i}, am_removed := insert i (am_removed m)\<rparr>)"
  have m: "entry_of ?m k = entry_of m k" for k by simp
  show ?thesis
  proof (cases "entry_of m i")
    case None
    then show ?thesis using m by (auto simp: remove_session_def Let_def)
  next
    case (Some e)
    have "entry_of (?m\<lparr>am_entries := AList.delete i (am_entries ?m)\<rparr>) j = (if j = i then None else entry_of m j)"
      using m [of j] by (simp add: entry_of_def del)
    with Some m [of i] show ?thesis by (cases "j = i") (auto simp: remove_session_def Let_def)
  qed
qed

lemma entry_of_dispose: "entry_of (dispose now m) j = None"
  by (simp add: dispose_def entry_of_def)

lemma entries_ok_step: "entries_ok m \<Longrightarrow> entries_ok (alert_step (now, e) m)"
proof -
  assume ok: "entries_ok m"
  consider i where "e = ARemove i" | "e = ADispose" | "\<And>i. e \<noteq> ARemove i" "e \<noteq> ADispose" by blast
  then show ?thesis
  proof cases
    case 3
    then show ?thesis using evolves_step [of e m now] ok by (simp add: evolves_def)
  qed (use ok in \<open>auto simp: entries_ok_def entry_of_remove entry_of_dispose\<close>)
qed

interpretation entries: event_system alert_step "\<lambda>_. True" entries_ok
  by unfold_locales (auto simp: entries_ok_step simp del: alert_step.simps)

section \<open>The ring counter\<close>

definition ring_seq :: "session_id \<Rightarrow> alert_manager \<Rightarrow> nat" where
  "ring_seq i m = (case entry_of m i of None \<Rightarrow> 0 | Some e \<Rightarrow> ae_ring_seq e)"

definition keeps_session :: "session_id \<Rightarrow> int \<times> alert_event \<Rightarrow> bool" where
  "keeps_session i te \<longleftrightarrow> snd te \<noteq> ARemove i \<and> snd te \<noteq> ADispose"

lemma ring_seq_step: "keeps_session i te \<Longrightarrow> ring_seq i m \<le> ring_seq i (alert_step te m)"
proof -
  assume keep: "keeps_session i te"
  obtain now e where te: "te = (now, e)" by (cases te)
  show ?thesis
  proof (cases "\<exists>j. e = ARemove j")
    case True
    with keep te show ?thesis by (auto simp: ring_seq_def entry_of_remove keeps_session_def split: option.splits)
  next
    case False
    with keep te have "evolves m (alert_step te m)" using evolves_step [of e m now] by (auto simp: keeps_session_def)
    then show ?thesis by (cases "entry_of m i") (fastforce simp: ring_seq_def evolves_def)+
  qed
qed

interpretation ring_counter: monotone_events alert_step "keeps_session i" "\<lambda>_. True" "ring_seq i" for i
  by unfold_locales (auto simp: ring_seq_step simp del: alert_step.simps)

section \<open>Sessions that stay silent\<close>

text \<open>The session an event is about, for the events that report on a session or control its alerts.\<close>

fun reports_on :: "alert_event \<Rightarrow> session_id option" where
  "reports_on (AData i) = Some i"
| "reports_on (AExit i c) = Some i"
| "reports_on (AResize i) = Some i"
| "reports_on (ASemantic i evs) = Some i"
| "reports_on (ANotify i n) = Some i"
| "reports_on (AProgress i p) = Some i"
| "reports_on (AAttend i) = Some i"
| "reports_on (AToggleTodo i) = Some i"
| "reports_on (AMarkTodo i) = Some i"
| "reports_on (AClearTodo i) = Some i"
| "reports_on (AAwait i u ms) = Some i"
| "reports_on (ASeed i todo n) = Some i"
| "reports_on (AClearAttention (Some i)) = Some i"
| "reports_on _ = None"

lemma helper_ignored: "reports_on e = Some i \<Longrightarrow> i \<in> am_helpers m \<Longrightarrow> alert_step (now, e) m = m"
  by (cases e rule: reports_on.cases)
     (auto simp: on_data_def on_exit_def on_resize_def apply_terminal_semantic_events_def notify_from_protocol_def
       update_protocol_progress_def attend_def toggle_todo_def mark_todo_def clear_todo_def await_completion_def
       seed_def clear_attention_def)

text \<open>Output and resizes that arrive late cannot bring a removed session back; an await on it is over.\<close>

lemma removed_stays_removed:
  assumes "i \<in> am_removed m" and "entry_of m i = None"
  shows "entry_of (alert_step (now, AData i) m) i = None"
    and "entry_of (alert_step (now, AResize i) m) i = None"
    and "i \<notin> am_helpers m \<Longrightarrow> 0 < ms \<Longrightarrow> ms \<le> max_await_timeout_ms \<Longrightarrow>
      await_completion now i u ms m = (m, Inl (AwaitDied 0))"
  using assms by (auto simp: on_data_def on_resize_def stream_entry_def await_completion_def)

section \<open>Controls\<close>

lemma entry_of_set_attention: "entry_of (set_attention now i m) i = entry_of m i"
  by (auto simp: set_attention_def arm_and_notify_def arm_command_exit_def Let_def split: option.splits)

lemma seen_fields [simp]:
  "has_active_ring (mark_command_exit_seen now e) = has_active_ring e"
  "ae_deferred (mark_command_exit_seen now e) = ae_deferred e"
  "ae_todo (mark_command_exit_seen now e) = ae_todo e"
  by (auto simp: mark_command_exit_seen_def has_active_ring_def split: option.splits)

lemma attend_effect:
  assumes "i \<notin> am_helpers m"
  shows "\<exists>e. entry_of (attend now i m) i = Some e \<and> \<not> has_active_ring e \<and> ae_deferred e = None \<and>
      (ae_todo e \<longleftrightarrow> (\<exists>e0. entry_of m i = Some e0 \<and> (ae_todo e0 \<or> has_active_ring e0)))"
    and "am_attention (attend now i m) = Some i"
    and "am_attention_timer (attend now i m) = Some (now + am_inactivity m, i)"
proof -
  let ?m1 = "set_attention now i (get_or_create_entry i m)"
  have 1: "entry_of ?m1 i = (if entry_of m i = None then Some new_entry else entry_of m i)"
    by (simp add: entry_of_set_attention)
  show "\<exists>e. entry_of (attend now i m) i = Some e \<and> \<not> has_active_ring e \<and> ae_deferred e = None \<and>
      (ae_todo e \<longleftrightarrow> (\<exists>e0. entry_of m i = Some e0 \<and> (ae_todo e0 \<or> has_active_ring e0)))"
  proof -
    let ?f = "\<lambda>e. e\<lparr>ae_dismissed_ring := True, ae_todo := True\<rparr>"
    have rung: "has_active_ring (?f x) = has_active_ring x" for x by (simp add: has_active_ring_def)
    have fresh: "\<not> has_active_ring new_entry" "\<not> ae_todo new_entry" by (simp_all add: new_entry_def has_active_ring_def)
    obtain e0 where e0: "entry_of ?m1 i = Some e0" and old: "entry_of m i = Some e0 \<or> entry_of m i = None \<and> e0 = new_entry"
      using 1 by (cases "entry_of m i") auto
    have "entry_of (attend now i m) i =
        Some (mark_command_exit_seen now (if has_active_ring e0 then ?f (silenced e0) else silenced e0))"
      using assms e0 by (simp add: attend_def Let_def case_prod_unfold clear_all_entry clear_all_result)
    moreover have "(ae_todo e0 \<or> has_active_ring e0) \<longleftrightarrow>
        (\<exists>e0. entry_of m i = Some e0 \<and> (ae_todo e0 \<or> has_active_ring e0))"
      using old fresh by (elim disjE conjE) simp_all
    ultimately show ?thesis using rung by (cases "has_active_ring e0") simp_all
  qed
  have am: "am_inactivity (arm_and_notify j m') = am_inactivity m'" for j m'
    using parts_arm(2) settings_fields by blast
  have c: "am_inactivity (get_or_create_entry i m) = am_inactivity m"
    using parts_create(2) settings_fields by blast
  show "am_attention (attend now i m) = Some i" "am_attention_timer (attend now i m) = Some (now + am_inactivity m, i)"
    using assms by (auto simp: attend_def Let_def case_prod_unfold set_attention_def am c split: option.splits)
qed

lemma dismiss_effect:
  assumes "entry_of m i = Some e"
  shows "\<exists>e'. entry_of (dismiss_alert i m) i = Some e' \<and> \<not> has_active_ring e' \<and> \<not> ae_dismissed_ring e' \<and>
      ae_deferred e' = None \<and> ae_todo e' = (ae_todo e \<or> has_active_ring e) \<and> ae_notification e' = ae_notification e"
proof -
  let ?e = "(silenced e)\<lparr>ae_todo := ae_todo (silenced e) \<or> has_active_ring e, ae_dismissed_ring := False\<rparr>"
  have "has_active_ring ?e = has_active_ring (silenced e)" by (simp add: has_active_ring_def)
  moreover have "entry_of (dismiss_alert i m) i = Some ?e"
    using assms by (simp add: dismiss_alert_def Let_def case_prod_unfold clear_all_entry clear_all_result)
  ultimately show ?thesis by simp
qed

text \<open>A removal settles what is parked on the session.\<close>

lemma remove_answers:
  assumes inv: "await_inv m" and w: "w \<in> set (waiters_of m i)"
  shows "waiters_of (remove_session now i m) i = []"
    and "(aw_id w, AwaitDied (now - aw_started w)) \<in> set (am_outcomes (remove_session now i m))"
proof -
  let ?m1 = "m\<lparr>am_helpers := am_helpers m - {i}, am_removed := insert i (am_removed m)\<rparr>"
  have part: "await_part (remove_session now i m) = await_part (settle_waiters now i AwaitDied ?m1)"
    by (auto simp: remove_session_def Let_def await_part_def [of "_\<lparr>am_entries := _\<rparr>"]
        await_part_def [of "_\<lparr>am_attention_timer := _\<rparr>"] await_part_def [of "settle_waiters _ _ _ _"])
  have "await_part ?m1 = await_part m" by (simp add: await_part_def)
  with inv w have "await_inv ?m1" "w \<in> set (waiters_of ?m1 i)"
    using await_part_fields [of ?m1 m] await_inv_part by auto
  from died_on_exit [OF this] await_part_fields [OF part]
  show "waiters_of (remove_session now i m) i = []"
    "(aw_id w, AwaitDied (now - aw_started w)) \<in> set (am_outcomes (remove_session now i m))" by auto
qed

end
