(* ===== verification/Alert_Claims.thy ===== *)
theory Alert_Claims
  imports Alert_Steps
begin

text \<open>
  What the activity tracking of Dormouse promises: the quiet detector of a session, and the alert
  manager that turns its settles, the shell's command ends and the terminal's notifications into
  rings and into answers for the programs that await them.
\<close>

section \<open>The quiet detector\<close>

text \<open>Whatever output, resizes, resets and timer firings a detector sees, in any order, its
  timers agree with its status: the confirmation, silence and settle timers run exactly in
  the states that wait for them, and a disposed detector holds no timer.\<close>

lemma detector_timers_match_status:
  "det_inv (fold det_step es new_detector)"
proof -
  have "det_inv new_detector" by (simp add: det_inv_def new_detector_def)
  moreover have "list_all (\<lambda>_. True) es" by (simp add: list_all_iff)
  ultimately show ?thesis by (rule detector_events.run_keeps)
qed

text \<open>C24: A detector changes its status only along the transitions of its state machine, and
  becomes busy only on output, and only out of a state that was already waiting for more.\<close>

theorem detector_follows_state_machine:
  "(det_status (det_step e d) \<noteq> det_status d \<longrightarrow>
      (det_status d, det_status (det_step e d)) \<in> allowed_transitions) \<and>
   (det_status d \<noteq> Busy \<longrightarrow> det_status (det_step e d) = Busy \<longrightarrow>
      (\<exists>now. e = DetData now \<and> (det_status d = MightBeBusy \<or> det_status d = MightNeedAttention)))"
  using det_step_transition busy_needs_output by blast

definition busy_detector :: detector where
  "busy_detector = fold det_step [DetData 0, DetData 1600, DetData 1700] new_detector"

theorem detector_follows_state_machine_witness:
  "det_status busy_detector = Busy \<and>
   (Busy, det_status (det_step (DetFire MightNeedTimer 99999) busy_detector)) \<in> allowed_transitions"
proof -
  have "det_status busy_detector = Busy" by code_simp
  moreover have "det_status (det_step (DetFire MightNeedTimer 99999) busy_detector) = MightNeedAttention" by code_simp
  ultimately show ?thesis
    using detector_follows_state_machine [of "DetFire MightNeedTimer 99999" busy_detector] by simp
qed

text \<open>A busy session that prints nothing more settles: when its silence timer and then its
  settle timer fire, the settle is announced and the detector starts over, and that is never
  before the pane has been quiet for the whole window.\<close>

lemma busy_session_settles:
  assumes "det_inv d" and "det_status d = Busy" and "\<not> det_disposed d"
    and "might_need_timer d = Some silence_due" and "silence_due \<le> t1" and "t1 + t_settled_confirm \<le> t2"
  shows "det_settles (det_fire MightNeedTimer t1 d) \<and>
    quiet_at t2 (det_fire MightNeedTimer t1 d) \<le> t2 \<and>
    det_status (det_fire SettledTimer t2 (det_fire MightNeedTimer t1 d)) = NothingToShow"
proof -
  have "det_inv (det_fire MightNeedTimer t1 d)" using assms(1) by (rule det_fire_inv)
  with busy_settles [OF assms] assms(6) show ?thesis using settle_not_early by blast
qed

section \<open>Completions\<close>

text \<open>C15: A completion rings exactly when its verdict says so: it is not claimed by an await, the
  session does not have the user's attention, and (for a settle) its command is watched, (for
  a command end) it was armed and ran long enough, (for a notification) it is not deferred.
  Anything else leaves rings, ring counter, TODO and notification as they were.\<close>

theorem completion_follows_verdict:
  assumes "entry_of m i = Some e"
  shows "\<exists>e'. entry_of (fst (dispatch_completion now i ev m)) i = Some e' \<and>
    has_active_ring e' = (has_active_ring e \<or> verdict_on m i e ev = RingNow) \<and>
    (verdict_on m i e ev \<noteq> RingNow \<longrightarrow>
       ae_ring_seq e' = ae_ring_seq e \<and> ae_todo e' = ae_todo e \<and> ae_notification e' = ae_notification e)"
proof (intro exI conjI)
  show "entry_of (fst (dispatch_completion now i ev m)) i = Some (completed_entry now m i ev e)"
    using assms by (rule dispatch_entry)
  show "has_active_ring (completed_entry now m i ev e) = (has_active_ring e \<or> verdict_on m i e ev = RingNow)"
    using verdict_rings [of m i e ev now] verdict_silent(2) [of m i e ev now] by blast
qed (use verdict_silent in auto)

definition claude_run :: alert_entry where
  "claude_run = new_entry\<lparr>ae_watch := Some \<lparr>cw_display = js ''claude'', cw_argv0 = Some (js ''claude''),
     cw_source = Osc633E, cw_started = 1, cw_seen = None\<rparr>\<rparr>"

definition watched_manager :: alert_manager where
  "watched_manager = new_manager\<lparr>am_entries := [(''p'', claude_run)], am_watched := [js ''claude'']\<rparr>"

lemma watched_manager_simps [simp]:
  "entry_of watched_manager ''p'' = Some claude_run" "am_helpers watched_manager = {}"
  "waiters_of watched_manager ''p'' = []" "is_watching watched_manager claude_run"
  "has_attention watched_manager ''p'' = False"
  by (simp_all add: watched_manager_def claude_run_def entry_of_def new_manager_def waiters_of_def is_watching_def
      has_attention_def)

theorem completion_follows_verdict_witness:
  "\<exists>e'. entry_of (fst (dispatch_completion 9 ''p'' Settled watched_manager)) ''p'' = Some e' \<and> has_active_ring e'"
proof -
  have "verdict_on watched_manager ''p'' claude_run Settled = RingNow"
    by (simp add: verdict_on_def claimed_by_await_def)
  with completion_follows_verdict [of watched_manager "''p''" claude_run 9 Settled] show ?thesis by auto
qed

section \<open>Runs of the manager\<close>

lemma any_events [simp]: "list_all (\<lambda>_. True) es"
  by (simp add: list_all_iff)

lemma awaits_run: "await_inv (fold alert_step es new_manager)"
  by (rule awaits.run_keeps) (simp_all add: await_inv_def new_manager_def waiters_of_def)

lemma entries_run: "entries_ok (fold alert_step es new_manager)"
  by (rule entries.run_keeps) (simp_all add: entries_ok_def new_manager_def entry_of_def)

text \<open>C14: Along every run of the manager, each await is answered at most once, an answered await is
  no longer parked, every parked await is parked on one session only and has a deadline
  within the maximum.\<close>

theorem awaits_answered_at_most_once:
  "await_inv (fold alert_step es new_manager)"
  by (rule awaits_run)

text \<open>C25: Removing a session answers every await still parked on it, with the outcome that the
  session died and the time waited, and leaves no entry and no await behind.\<close>

theorem removal_answers_awaits:
  assumes "await_inv m" and "w \<in> set (waiters_of m i)"
  shows "(aw_id w, AwaitDied (now - aw_started w)) \<in> set (am_outcomes (remove_session now i m)) \<and>
    waiters_of (remove_session now i m) i = [] \<and> entry_of (remove_session now i m) i = None"
  using remove_answers [OF assms] entry_of_remove [of now i m i] by simp

theorem removal_answers_awaits_witness:
  "let m = fold alert_step [(0, AAwait ''p'' UntilExit 5000)] new_manager
   in waiters_of (remove_session 7 ''p'' m) ''p'' = [] \<and> (0, AwaitDied 7) \<in> set (am_outcomes (remove_session 7 ''p'' m))"
proof -
  let ?m = "fold alert_step [(0, AAwait ''p'' UntilExit 5000)] new_manager"
  have "await_inv ?m" by (rule awaits_run)
  moreover have "\<exists>w \<in> set (waiters_of ?m ''p''). aw_id w = 0 \<and> aw_started w = 0" by code_simp
  ultimately show ?thesis using removal_answers_awaits [of ?m _ "''p''" 7] by (fastforce simp: Let_def)
qed

text \<open>Along every run, each session entry is sound: its detector's timers match its status, the
  detector is alive, and a notification is deferred exactly when a timer will deliver it.\<close>

lemma entries_stay_sound:
  "entries_ok (fold alert_step es new_manager)"
  by (rule entries_run)

text \<open>The ring counter of a session never decreases while the session lives, whatever events
  the manager handles, so a subscriber can tell a new ring from one it has seen.\<close>

lemma ring_counter_never_decreases:
  assumes "list_all (keeps_session i) es"
  shows "ring_seq i m \<le> ring_seq i (fold alert_step es m)"
  using ring_counter.run_grows [OF TrueI assms] .

text \<open>A helper session is invisible to the manager: no output, exit, notification, progress,
  control or await about it changes anything.\<close>

lemma helper_sessions_are_ignored:
  assumes "reports_on e = Some i" and "i \<in> am_helpers m"
  shows "alert_step (now, e) m = m"
  using assms by (rule helper_ignored)



text \<open>Attending a session releases every ring it has and its deferred notification, keeps a TODO
  where a ring was released or one was set, and starts the attention window afresh.\<close>

lemma attention_releases_rings:
  assumes "i \<notin> am_helpers m"
  shows "(\<exists>e. entry_of (attend now i m) i = Some e \<and> \<not> has_active_ring e \<and> ae_deferred e = None \<and>
      ae_todo e = (\<exists>e0. entry_of m i = Some e0 \<and> (ae_todo e0 \<or> has_active_ring e0))) \<and>
    am_attention (attend now i m) = Some i \<and>
    am_attention_timer (attend now i m) = Some (now + am_inactivity m, i)"
  using attend_effect [OF assms] by blast

text \<open>Dismissing an alert releases the rings and the deferred notification of the session, turns
  a released ring into a TODO and keeps the notification's text.\<close>

lemma dismissal_keeps_todo:
  assumes "entry_of m i = Some e"
  shows "\<exists>e'. entry_of (dismiss_alert i m) i = Some e' \<and> \<not> has_active_ring e' \<and> ae_deferred e' = None \<and>
    \<not> ae_dismissed_ring e' \<and> ae_todo e' = (ae_todo e \<or> has_active_ring e) \<and> ae_notification e' = ae_notification e"
  using dismiss_effect [OF assms] by blast

end
