(* ===== verification/Sec_Noise.thy ===== *)
theory Sec_Noise
  imports Sec_Utf8
begin

text \<open>
  The Noise IK handshake and its cipher states (\<open>remote-lib-common/src/security/noise.ts\<close>).

  The primitives are not code of the repository: ChaCha20-Poly1305 comes from \<open>@noble/ciphers\<close>,
  X25519, SHA-256 and HMAC from WebCrypto. They are the fields of \<open>noise_crypto\<close>, an argument of
  every definition that uses them. Keys the runtime generates are arguments too. A method of a
  class with private state is a function of that state: it returns the state it leaves, also
  when it throws, and either the error's text or its value.
\<close>

section \<open>Primitives\<close>

record 'k noise_crypto =
  nc_sha256 :: "bytes \<Rightarrow> bytes"
  nc_hmac :: "bytes \<Rightarrow> bytes \<Rightarrow> bytes"
  nc_seal :: "bytes \<Rightarrow> bytes \<Rightarrow> bytes \<Rightarrow> bytes \<Rightarrow> bytes"
  nc_open :: "bytes \<Rightarrow> bytes \<Rightarrow> bytes \<Rightarrow> bytes \<Rightarrow> bytes option"
  nc_derive :: "'k \<Rightarrow> bytes \<Rightarrow> bytes option"

definition noise_max_message_length :: nat where "noise_max_message_length = 65535"
definition noise_key_length :: nat where "noise_key_length = 32"
definition noise_tag_length :: nat where "noise_tag_length = 16"
definition message_1_overhead :: nat where "message_1_overhead = noise_key_length * 2 + noise_tag_length * 2"
definition message_2_overhead :: nat where "message_2_overhead = noise_key_length + noise_tag_length"
definition reserved_nonce :: nat where "reserved_nonce = 2 ^ 64 - 1"

lemmas noise_sizes = noise_max_message_length_def noise_key_length_def noise_tag_length_def
  message_1_overhead_def message_2_overhead_def

record 'k noise_key_pair =
  kp_private :: 'k
  kp_public :: bytes

section \<open>Methods that may throw\<close>

type_synonym ('s, 'a) throwing = "'s \<Rightarrow> 's \<times> (string + 'a)"

definition m_return :: "'a \<Rightarrow> ('s, 'a) throwing" where
  "m_return a = (\<lambda>s. (s, Inr a))"

definition m_throw :: "string \<Rightarrow> ('s, 'a) throwing" where
  "m_throw e = (\<lambda>s. (s, Inl e))"

definition m_bind :: "('s, 'a) throwing \<Rightarrow> ('a \<Rightarrow> ('s, 'b) throwing) \<Rightarrow> ('s, 'b) throwing" where
  "m_bind m f = (\<lambda>s. case m s of (s', Inl e) \<Rightarrow> (s', Inl e) | (s', Inr a) \<Rightarrow> f a s')"

definition m_lift :: "string + 'a \<Rightarrow> ('s, 'a) throwing" where
  "m_lift r = (\<lambda>s. (s, r))"

definition m_require :: "bool \<Rightarrow> string \<Rightarrow> ('s, unit) throwing" where
  "m_require b e = (\<lambda>s. (s, if b then Inr () else Inl e))"

lemmas method_defs = m_return_def m_throw_def m_bind_def m_lift_def m_require_def

section \<open>Cipher states\<close>

record cipher =
  cs_key :: "bytes option"
  cs_n :: nat

definition noise_nonce_bytes :: "nat \<Rightarrow> string + bytes" where
  "noise_nonce_bytes n =
     (if reserved_nonce \<le> n then Inl ''nonce counter exhausted''
      else Inr (replicate 4 0 @ map (\<lambda>k. of_nat (n div 256 ^ k)) [0..<8]))"

definition new_cipher :: "bytes \<Rightarrow> string + cipher" where
  "new_cipher key =
     (if length key \<noteq> noise_key_length then Inl ''ChaChaPoly key must be 32 bytes''
      else Inr \<lparr>cs_key = Some key, cs_n = 0\<rparr>)"

definition empty_cipher :: cipher where
  "empty_cipher = \<lparr>cs_key = None, cs_n = 0\<rparr>"

definition require_max_message_length :: "nat \<Rightarrow> ('s, unit) throwing" where
  "require_max_message_length n =
     m_require (n \<le> noise_max_message_length) ''message exceeds the Noise maximum''"

definition encrypt_with_ad :: "'k noise_crypto \<Rightarrow> bytes \<Rightarrow> bytes \<Rightarrow> (cipher, bytes) throwing" where
  "encrypt_with_ad c ad plaintext =
     (\<lambda>cs. m_bind (require_max_message_length
              (length plaintext + (if cs_key cs = None then 0 else noise_tag_length)))
        (\<lambda>_. case cs_key cs of
                None \<Rightarrow> m_return plaintext
              | Some key \<Rightarrow>
                  m_bind (m_lift (noise_nonce_bytes (cs_n cs)))
                    (\<lambda>nonce cs'. (cs'\<lparr>cs_n := cs_n cs' + 1\<rparr>, Inr (nc_seal c key nonce ad plaintext)))) cs)"

definition decrypt_with_ad :: "'k noise_crypto \<Rightarrow> bytes \<Rightarrow> bytes \<Rightarrow> (cipher, bytes) throwing" where
  "decrypt_with_ad c ad ciphertext =
     (\<lambda>cs. m_bind (require_max_message_length (length ciphertext))
        (\<lambda>_. case cs_key cs of
                None \<Rightarrow> m_return ciphertext
              | Some key \<Rightarrow>
                  m_bind (m_lift (noise_nonce_bytes (cs_n cs)))
                    (\<lambda>nonce cs'. case nc_open c key nonce ad ciphertext of
                        None \<Rightarrow> (cs', Inl ''ChaChaPoly authentication failed'')
                      | Some plaintext \<Rightarrow> (cs'\<lparr>cs_n := cs_n cs' + 1\<rparr>, Inr plaintext))) cs)"

section \<open>The symmetric state\<close>

record symmetric =
  sy_chaining_key :: bytes
  sy_hash :: bytes
  sy_cipher :: cipher

definition noise_hkdf :: "'k noise_crypto \<Rightarrow> bytes \<Rightarrow> bytes \<Rightarrow> bytes \<times> bytes" where
  "noise_hkdf c chaining_key input =
     (let temp_key = nc_hmac c chaining_key input;
          output1 = nc_hmac c temp_key [0x01]
      in (output1, nc_hmac c temp_key (concat_bytes [output1, [0x02]])))"

definition noise_protocol_name :: js_text where
  "noise_protocol_name = js ''Noise_IK_25519_ChaChaPoly_SHA256''"

definition sy_initialize :: "string + symmetric" where
  "sy_initialize =
     (let name = utf8_encode noise_protocol_name
      in if length name > noise_key_length then Inl ''protocol name exceeds HASHLEN''
         else let hash = name @ replicate (noise_key_length - length name) 0
              in Inr \<lparr>sy_chaining_key = hash, sy_hash = hash, sy_cipher = empty_cipher\<rparr>)"

definition mix_hash :: "'k noise_crypto \<Rightarrow> bytes \<Rightarrow> symmetric \<Rightarrow> symmetric" where
  "mix_hash c d s = s\<lparr>sy_hash := nc_sha256 c (concat_bytes [sy_hash s, d])\<rparr>"

definition mix_key :: "'k noise_crypto \<Rightarrow> bytes \<Rightarrow> (symmetric, unit) throwing" where
  "mix_key c input =
     (\<lambda>s. let (ck, temporary_key) = noise_hkdf c (sy_chaining_key s) input;
              s1 = s\<lparr>sy_chaining_key := ck\<rparr>
          in case new_cipher temporary_key of
               Inl e \<Rightarrow> (s1, Inl e)
             | Inr cs \<Rightarrow> (s1\<lparr>sy_cipher := cs\<rparr>, Inr ()))"

definition encrypt_and_hash :: "'k noise_crypto \<Rightarrow> bytes \<Rightarrow> (symmetric, bytes) throwing" where
  "encrypt_and_hash c plaintext =
     (\<lambda>s. case encrypt_with_ad c (sy_hash s) plaintext (sy_cipher s) of
            (cs, Inl e) \<Rightarrow> (s\<lparr>sy_cipher := cs\<rparr>, Inl e)
          | (cs, Inr ciphertext) \<Rightarrow> (mix_hash c ciphertext (s\<lparr>sy_cipher := cs\<rparr>), Inr ciphertext))"

definition decrypt_and_hash :: "'k noise_crypto \<Rightarrow> bytes \<Rightarrow> (symmetric, bytes) throwing" where
  "decrypt_and_hash c ciphertext =
     (\<lambda>s. case decrypt_with_ad c (sy_hash s) ciphertext (sy_cipher s) of
            (cs, Inl e) \<Rightarrow> (s\<lparr>sy_cipher := cs\<rparr>, Inl e)
          | (cs, Inr plaintext) \<Rightarrow> (mix_hash c ciphertext (s\<lparr>sy_cipher := cs\<rparr>), Inr plaintext))"

record noise_session =
  ns_send :: cipher
  ns_receive :: cipher
  ns_handshake_hash :: bytes

definition sy_split :: "'k noise_crypto \<Rightarrow> bool \<Rightarrow> symmetric \<Rightarrow> string + noise_session" where
  "sy_split c initiator s =
     (let (k1, k2) = noise_hkdf c (sy_chaining_key s) []
      in case new_cipher (if initiator then k1 else k2) of
           Inl e \<Rightarrow> Inl e
         | Inr send \<Rightarrow>
             (case new_cipher (if initiator then k2 else k1) of
                Inl e \<Rightarrow> Inl e
              | Inr receive \<Rightarrow> Inr \<lparr>ns_send = send, ns_receive = receive, ns_handshake_hash = sy_hash s\<rparr>))"

section \<open>Key agreement\<close>

definition x25519_agree :: "'k noise_crypto \<Rightarrow> 'k \<Rightarrow> bytes \<Rightarrow> string + bytes" where
  "x25519_agree c private public =
     (if length public \<noteq> noise_key_length then Inl ''X25519 public key must be 32 bytes''
      else case nc_derive c private public of
             None \<Rightarrow> Inl ''X25519 agreement failed''
           | Some shared \<Rightarrow>
               if length shared \<noteq> noise_key_length \<or> constant_time_equal shared (replicate noise_key_length 0)
               then Inl ''X25519 agreement failed'' else Inr shared)"

section \<open>The handshake\<close>

record 'k handshake =
  hs_initiator :: bool
  hs_symmetric :: symmetric
  hs_static :: "'k noise_key_pair"
  hs_ephemeral :: "'k noise_key_pair option"
  hs_remote_static :: "bytes option"
  hs_remote_ephemeral :: "bytes option"
  hs_first_done :: bool
  hs_failed :: bool
  hs_in_flight :: bool
  hs_session :: "noise_session option"

definition require_key :: "bytes \<Rightarrow> string \<Rightarrow> ('s, unit) throwing" where
  "require_key key what = m_require (length key = noise_key_length) (what @ '' must be 32 bytes'')"

definition start_handshake ::
    "'k noise_crypto \<Rightarrow> bytes \<Rightarrow> 'k noise_key_pair \<Rightarrow> 'k noise_key_pair option \<Rightarrow> bytes option \<Rightarrow> string + 'k handshake" where
  "start_handshake c prologue static ephemeral remote_static =
     (if length (kp_public static) \<noteq> noise_key_length then Inl ''local static public key must be 32 bytes''
      else if (case ephemeral of None \<Rightarrow> False | Some e \<Rightarrow> length (kp_public e) \<noteq> noise_key_length)
      then Inl ''ephemeral public key must be 32 bytes''
      else if (case remote_static of None \<Rightarrow> False | Some r \<Rightarrow> length r \<noteq> noise_key_length)
      then Inl ''remote static public key must be 32 bytes''
      else case sy_initialize of
             Inl e \<Rightarrow> Inl e
           | Inr s0 \<Rightarrow>
               let s = mix_hash c (case remote_static of None \<Rightarrow> kp_public static | Some r \<Rightarrow> r) (mix_hash c prologue s0)
               in Inr \<lparr>hs_initiator = (remote_static \<noteq> None), hs_symmetric = s, hs_static = static,
                       hs_ephemeral = ephemeral, hs_remote_static = remote_static, hs_remote_ephemeral = None,
                       hs_first_done = False, hs_failed = False, hs_in_flight = False, hs_session = None\<rparr>)"

definition on_symmetric :: "(symmetric, 'a) throwing \<Rightarrow> ('k handshake, 'a) throwing" where
  "on_symmetric m = (\<lambda>h. case m (hs_symmetric h) of (s, r) \<Rightarrow> (h\<lparr>hs_symmetric := s\<rparr>, r))"

definition hs_mix_hash :: "'k noise_crypto \<Rightarrow> bytes \<Rightarrow> ('k handshake, unit) throwing" where
  "hs_mix_hash c d = (\<lambda>h. (h\<lparr>hs_symmetric := mix_hash c d (hs_symmetric h)\<rparr>, Inr ()))"

definition hs_mix_dh :: "'k noise_crypto \<Rightarrow> 'k \<Rightarrow> bytes \<Rightarrow> ('k handshake, unit) throwing" where
  "hs_mix_dh c private public =
     m_bind (m_lift (x25519_agree c private public)) (\<lambda>shared. on_symmetric (mix_key c shared))"

text \<open>The fresh ephemeral key pair is what \<open>generateNoiseKeyPair\<close> would return; one set at the start wins.\<close>

definition use_ephemeral :: "'k noise_key_pair \<Rightarrow> ('k handshake, 'k noise_key_pair) throwing" where
  "use_ephemeral fresh =
     (\<lambda>h. case hs_ephemeral h of
            Some e \<Rightarrow> (h, Inr e)
          | None \<Rightarrow> (h\<lparr>hs_ephemeral := Some fresh\<rparr>, Inr fresh))"

definition require_message_length :: "nat \<Rightarrow> bool \<Rightarrow> ('s, unit) throwing" where
  "require_message_length n first =
     m_bind (m_require ((if first then message_1_overhead else message_2_overhead) \<le> n)
               (if first then ''handshake message 1 is too short'' else ''handshake message 2 is too short''))
       (\<lambda>_. require_max_message_length n)"

definition hs_split :: "'k noise_crypto \<Rightarrow> ('k handshake, unit) throwing" where
  "hs_split c =
     (\<lambda>h. case sy_split c (hs_initiator h) (hs_symmetric h) of
            Inl e \<Rightarrow> (h, Inl e)
          | Inr session \<Rightarrow> (h\<lparr>hs_session := Some session\<rparr>, Inr ()))"

definition known :: "bytes option \<Rightarrow> bytes" where
  "known k = (case k of None \<Rightarrow> [] | Some b \<Rightarrow> b)"

definition write_message_1 :: "'k noise_crypto \<Rightarrow> 'k noise_key_pair \<Rightarrow> bytes \<Rightarrow> ('k handshake, bytes) throwing" where
  "write_message_1 c fresh payload =
     m_bind (require_message_length (message_1_overhead + length payload) True) (\<lambda>_.
     m_bind (use_ephemeral fresh) (\<lambda>e.
     m_bind (hs_mix_hash c (kp_public e)) (\<lambda>_.
     m_bind (\<lambda>h. hs_mix_dh c (kp_private e) (known (hs_remote_static h)) h) (\<lambda>_.
     m_bind (\<lambda>h. on_symmetric (encrypt_and_hash c (kp_public (hs_static h))) h) (\<lambda>encrypted_static.
     m_bind (\<lambda>h. hs_mix_dh c (kp_private (hs_static h)) (known (hs_remote_static h)) h) (\<lambda>_.
     m_bind (on_symmetric (encrypt_and_hash c payload)) (\<lambda>encrypted_payload h.
       (h\<lparr>hs_first_done := True\<rparr>, Inr (concat_bytes [kp_public e, encrypted_static, encrypted_payload])))))))))"

definition read_message_1 :: "'k noise_crypto \<Rightarrow> bytes \<Rightarrow> ('k handshake, bytes) throwing" where
  "read_message_1 c message =
     (let static_end = message_1_overhead - noise_tag_length;
          remote_ephemeral = take noise_key_length message
      in
     m_bind (require_message_length (length message) True) (\<lambda>_.
     m_bind (\<lambda>h. (h\<lparr>hs_remote_ephemeral := Some remote_ephemeral\<rparr>, Inr ())) (\<lambda>_.
     m_bind (hs_mix_hash c remote_ephemeral) (\<lambda>_.
     m_bind (\<lambda>h. hs_mix_dh c (kp_private (hs_static h)) remote_ephemeral h) (\<lambda>_.
     m_bind (on_symmetric (decrypt_and_hash c (drop noise_key_length (take static_end message)))) (\<lambda>remote_static.
     m_bind (require_key remote_static ''remote static public key'') (\<lambda>_.
     m_bind (\<lambda>h. (h\<lparr>hs_remote_static := Some remote_static\<rparr>, Inr ())) (\<lambda>_.
     m_bind (\<lambda>h. hs_mix_dh c (kp_private (hs_static h)) remote_static h) (\<lambda>_.
     m_bind (on_symmetric (decrypt_and_hash c (drop static_end message))) (\<lambda>payload h.
       (h\<lparr>hs_first_done := True\<rparr>, Inr payload)))))))))))"

definition write_message_2 :: "'k noise_crypto \<Rightarrow> 'k noise_key_pair \<Rightarrow> bytes \<Rightarrow> ('k handshake, bytes) throwing" where
  "write_message_2 c fresh payload =
     m_bind (require_message_length (message_2_overhead + length payload) False) (\<lambda>_.
     m_bind (use_ephemeral fresh) (\<lambda>e.
     m_bind (hs_mix_hash c (kp_public e)) (\<lambda>_.
     m_bind (\<lambda>h. hs_mix_dh c (kp_private e) (known (hs_remote_ephemeral h)) h) (\<lambda>_.
     m_bind (\<lambda>h. hs_mix_dh c (kp_private e) (known (hs_remote_static h)) h) (\<lambda>_.
     m_bind (on_symmetric (encrypt_and_hash c payload)) (\<lambda>encrypted_payload.
     m_bind (hs_split c) (\<lambda>_.
       m_return (concat_bytes [kp_public e, encrypted_payload]))))))))"

definition read_message_2 :: "'k noise_crypto \<Rightarrow> bytes \<Rightarrow> ('k handshake, bytes) throwing" where
  "read_message_2 c message =
     (let remote_ephemeral = take noise_key_length message
      in
     m_bind (require_message_length (length message) False) (\<lambda>_.
     m_bind (hs_mix_hash c remote_ephemeral) (\<lambda>_.
     m_bind (\<lambda>h. case hs_ephemeral h of
                    None \<Rightarrow> (h, Inl ''handshake failed'')
                  | Some e \<Rightarrow> hs_mix_dh c (kp_private e) remote_ephemeral h) (\<lambda>_.
     m_bind (\<lambda>h. hs_mix_dh c (kp_private (hs_static h)) remote_ephemeral h) (\<lambda>_.
     m_bind (on_symmetric (decrypt_and_hash c (drop noise_key_length message))) (\<lambda>payload.
     m_bind (hs_split c) (\<lambda>_. m_return payload)))))))"

text \<open>
  One step: what is checked before it runs, and what its end records. Overlapping calls are
  calls that start while \<open>hs_in_flight\<close> is set.
\<close>

definition hs_enter :: "('k handshake, unit) throwing" where
  "hs_enter =
     (\<lambda>h. if hs_failed h then (h, Inl ''handshake already failed'')
          else if hs_session h \<noteq> None then (h, Inl ''handshake already complete'')
          else if hs_in_flight h then (h\<lparr>hs_failed := True\<rparr>, Inl ''handshake step is already in flight'')
          else (h\<lparr>hs_in_flight := True\<rparr>, Inr ()))"

definition hs_leave :: "'k handshake \<times> (string + 'a) \<Rightarrow> 'k handshake \<times> (string + 'a)" where
  "hs_leave hr =
     (case hr of
        (h, Inl e) \<Rightarrow> (h\<lparr>hs_failed := True, hs_in_flight := False\<rparr>, Inl e)
      | (h, Inr a) \<Rightarrow> (h\<lparr>hs_in_flight := False\<rparr>, Inr a))"

definition hs_step :: "('k handshake, 'a) throwing \<Rightarrow> ('k handshake, 'a) throwing" where
  "hs_step run =
     (\<lambda>h. case hs_enter h of
            (h', Inl e) \<Rightarrow> (h', Inl e)
          | (h', Inr _) \<Rightarrow> hs_leave (run h'))"

definition write_message :: "'k noise_crypto \<Rightarrow> 'k noise_key_pair \<Rightarrow> bytes \<Rightarrow> ('k handshake, bytes) throwing" where
  "write_message c fresh payload =
     hs_step (\<lambda>h.
       if hs_initiator h
       then (if hs_first_done h then (h, Inl ''the initiator writes only message 1'') else write_message_1 c fresh payload h)
       else (if \<not> hs_first_done h then (h, Inl ''the responder writes only message 2'') else write_message_2 c fresh payload h))"

definition read_message :: "'k noise_crypto \<Rightarrow> bytes \<Rightarrow> ('k handshake, bytes) throwing" where
  "read_message c message =
     hs_step (\<lambda>h.
       if \<not> hs_initiator h
       then (if hs_first_done h then (h, Inl ''the responder reads only message 1'') else read_message_1 c message h)
       else (if \<not> hs_first_done h then (h, Inl ''the initiator reads only message 2'') else read_message_2 c message h))"

definition create_noise_initiator ::
    "'k noise_crypto \<Rightarrow> bytes \<Rightarrow> 'k noise_key_pair \<Rightarrow> 'k noise_key_pair option \<Rightarrow> bytes \<Rightarrow> string + 'k handshake" where
  "create_noise_initiator c prologue static ephemeral remote_static =
     (if length remote_static \<noteq> noise_key_length then Inl ''remote static public key must be 32 bytes''
      else start_handshake c prologue static ephemeral (Some (take noise_key_length remote_static)))"

definition create_noise_responder ::
    "'k noise_crypto \<Rightarrow> bytes \<Rightarrow> 'k noise_key_pair \<Rightarrow> 'k noise_key_pair option \<Rightarrow> string + 'k handshake" where
  "create_noise_responder c prologue static ephemeral = start_handshake c prologue static ephemeral None"

section \<open>Stored keys\<close>

definition is_noise_public_key :: "js_text \<Rightarrow> bool" where
  "is_noise_public_key s = is_exact_base64_url s (base64_url_length noise_key_length)"

definition is_noise_static_material :: "js_text \<Rightarrow> js_text \<Rightarrow> bool" where
  "is_noise_static_material public_key private_pkcs8 =
     (case from_base64_url private_pkcs8 of
        None \<Rightarrow> False
      | Some p \<Rightarrow>
          (case from_base64_url public_key of
             None \<Rightarrow> False
           | Some k \<Rightarrow> length k = noise_key_length \<and> 48 \<le> length p \<and> length p \<le> 128))"

end
