(* ===== verification/Sec_Framing.thy ===== *)
theory Sec_Framing
  imports Sec_Noise
begin

text \<open>
  What rides inside a Noise transport message (\<open>remote-lib-common/src/security/noise-transport.ts\<close>):
  the prologues, the one encoder and decoder of transport plaintexts, the chunking of application
  messages, the reassembly buffer and the session whose first failure is permanent.

  A control message is a value of a type parameter; \<open>JSON.stringify\<close> and \<open>JSON.parse\<close> of that type
  are the fields of \<open>json_codec\<close>, where \<open>jc_parse\<close> is \<open>None\<close> for a text that is not JSON or whose
  value is not a plain object.
\<close>

section \<open>Prologues\<close>

definition e2e_prologue_domain :: js_text where
  "e2e_prologue_domain = js ''dormouse/e2e/v1''"

definition e2e_prologue :: "js_text \<Rightarrow> js_text \<Rightarrow> js_text list \<Rightarrow> bytes" where
  "e2e_prologue kind burrow_id extra =
     length_prefixed_concat ([utf8_encode e2e_prologue_domain, utf8_encode kind, utf8_encode burrow_id] @ map utf8_encode extra)"

definition e2e_connection_prologue :: "js_text \<Rightarrow> js_text \<Rightarrow> bytes" where
  "e2e_connection_prologue burrow_id connection_id = e2e_prologue (js ''connection'') burrow_id [connection_id]"

definition e2e_pairing_prologue :: "js_text \<Rightarrow> js_text list \<Rightarrow> bytes" where
  "e2e_pairing_prologue burrow_id invitation_fields = e2e_prologue (js ''pairing'') burrow_id invitation_fields"

section \<open>Transport plaintexts\<close>

definition transport_kind_keepalive :: "8 word" where "transport_kind_keepalive = 0x00"
definition transport_kind_stream :: "8 word" where "transport_kind_stream = 0x01"
definition transport_kind_control :: "8 word" where "transport_kind_control = 0x02"
definition keepalive_body_size :: nat where "keepalive_body_size = 32"
definition control_payload_size :: nat where "control_payload_size = 4096"
definition app_length_prefix_size :: nat where "app_length_prefix_size = 4"
definition max_app_message_length :: nat where "max_app_message_length = 1024 * 1024"
definition max_stream_body_length :: nat where
  "max_stream_body_length = noise_max_message_length - noise_tag_length - 1"

record 'v json_codec =
  jc_stringify :: "'v \<Rightarrow> js_text"
  jc_parse :: "js_text \<Rightarrow> 'v option"

datatype 'v transport_plaintext = PlainKeepalive | PlainControl 'v | PlainStream bytes

definition encode_control_body :: "'v json_codec \<Rightarrow> 'v \<Rightarrow> string + bytes" where
  "encode_control_body j v =
     (let json = utf8_encode (jc_stringify j v)
      in if length json > control_payload_size
         then Inl ''control message exceeds the control payload size''
         else Inr (json @ replicate (control_payload_size - length json) 0))"

definition encode_transport_plaintext :: "'v json_codec \<Rightarrow> 'v transport_plaintext \<Rightarrow> string + bytes" where
  "encode_transport_plaintext j frame =
     (case frame of
        PlainKeepalive \<Rightarrow> Inr (concat_bytes [[transport_kind_keepalive], replicate keepalive_body_size 0])
      | PlainControl v \<Rightarrow>
          (case encode_control_body j v of
             Inl e \<Rightarrow> Inl e
           | Inr body \<Rightarrow> Inr (concat_bytes [[transport_kind_control], body]))
      | PlainStream body \<Rightarrow>
          if length body > max_stream_body_length then Inl ''stream body exceeds one Noise message''
          else Inr (concat_bytes [[transport_kind_stream], body]))"

definition decode_control_body :: "'v json_codec \<Rightarrow> bytes \<Rightarrow> string + 'v" where
  "decode_control_body j body =
     (if length body \<noteq> control_payload_size then Inl ''control body is not the control payload size''
      else case utf8_decode (rev (dropWhile (\<lambda>b. b = 0) (rev body))) of
             None \<Rightarrow> Inl ''control message is not JSON''
           | Some text \<Rightarrow>
               (case jc_parse j text of
                  None \<Rightarrow> Inl ''control message is not JSON or not an object''
                | Some v \<Rightarrow> Inr v))"

definition decode_transport_plaintext :: "'v json_codec \<Rightarrow> bytes \<Rightarrow> string + 'v transport_plaintext" where
  "decode_transport_plaintext j plaintext =
     (case plaintext of
        [] \<Rightarrow> Inl ''transport plaintext is empty''
      | kind # body \<Rightarrow>
          if kind = transport_kind_keepalive
          then (if length body \<noteq> keepalive_body_size then Inl ''keepalive body must be 32 bytes''
                else if list_ex (\<lambda>b. b \<noteq> 0) body then Inl ''keepalive body must be zero''
                else Inr PlainKeepalive)
          else if kind = transport_kind_stream
          then (if length body > max_stream_body_length then Inl ''stream body exceeds one Noise message''
                else Inr (PlainStream body))
          else if kind = transport_kind_control
          then (case decode_control_body j body of Inl e \<Rightarrow> Inl e | Inr v \<Rightarrow> Inr (PlainControl v))
          else Inl ''unknown transport kind'')"

section \<open>Chunks\<close>

text \<open>The loop over offsets, in steps of one maximal body.\<close>

function chunk_bodies :: "bytes \<Rightarrow> bytes list" where
  "chunk_bodies framed =
     (if framed = [] then []
      else take max_stream_body_length framed # chunk_bodies (drop max_stream_body_length framed))"
  by pat_completeness auto
termination
  by (relation "measure length") (auto simp: max_stream_body_length_def noise_max_message_length_def noise_tag_length_def)

declare chunk_bodies.simps [simp del]

definition chunk_app_message :: "bytes \<Rightarrow> string + bytes list" where
  "chunk_app_message message =
     (if length message > max_app_message_length then Inl ''application message exceeds the 1 MiB cap''
      else Inr (chunk_bodies (write_uint32_be (length message) @ message)))"

section \<open>Reassembly\<close>

definition retained_buffer_capacity :: nat where
  "retained_buffer_capacity = max_stream_body_length + app_length_prefix_size"
definition max_buffer_capacity :: nat where
  "max_buffer_capacity = app_length_prefix_size + max_app_message_length + max_stream_body_length"
definition initial_buffer_capacity :: nat where "initial_buffer_capacity = 1024"

record reassembler =
  ra_buffer :: bytes
  ra_start :: nat
  ra_end :: nat
  ra_failed :: bool

definition new_reassembler :: reassembler where
  "new_reassembler = \<lparr>ra_buffer = [], ra_start = 0, ra_end = 0, ra_failed = False\<rparr>"

definition ra_queued :: "reassembler \<Rightarrow> nat" where
  "ra_queued r = ra_end r - ra_start r"

text \<open>\<open>subarray\<close>, and \<open>set\<close> at an offset that leaves room for what is written.\<close>

definition sub_bytes :: "bytes \<Rightarrow> nat \<Rightarrow> nat \<Rightarrow> bytes" where
  "sub_bytes bs from until = take (until - from) (drop from bs)"

definition overwrite :: "bytes \<Rightarrow> nat \<Rightarrow> bytes \<Rightarrow> bytes" where
  "overwrite buf at_offset bs = take at_offset buf @ bs @ drop (at_offset + length bs) buf"

definition ra_make_room :: "nat \<Rightarrow> reassembler \<Rightarrow> reassembler" where
  "ra_make_room n r =
     (if ra_end r + n > length (ra_buffer r)
      then (let live = ra_queued r;
                needed = live + n;
                window = sub_bytes (ra_buffer r) (ra_start r) (ra_end r)
            in r\<lparr>ra_buffer :=
                   (if needed \<le> length (ra_buffer r) then overwrite (ra_buffer r) 0 window
                    else overwrite (replicate (min max_buffer_capacity
                            (max needed (max (length (ra_buffer r) * 2) initial_buffer_capacity))) 0) 0 window),
                 ra_start := 0, ra_end := live\<rparr>)
      else r)"

definition ra_append :: "bytes \<Rightarrow> reassembler \<Rightarrow> reassembler" where
  "ra_append body r =
     (let r1 = ra_make_room (length body) r
      in r1\<lparr>ra_buffer := overwrite (ra_buffer r1) (ra_end r1) body, ra_end := ra_end r1 + length body\<rparr>)"

definition ra_fail :: "reassembler \<Rightarrow> reassembler" where
  "ra_fail r = r\<lparr>ra_failed := True, ra_buffer := [], ra_start := 0, ra_end := 0\<rparr>"

definition ra_drain :: "reassembler \<Rightarrow> reassembler" where
  "ra_drain r =
     r\<lparr>ra_start := 0, ra_end := 0,
       ra_buffer := (if length (ra_buffer r) > retained_buffer_capacity then [] else ra_buffer r)\<rparr>"

text \<open>The loop of \<open>push\<close>. The prefix is read inside the buffer, so the read never fails.\<close>

function ra_messages :: "reassembler \<Rightarrow> bytes list \<Rightarrow> reassembler \<times> (string + bytes list)" where
  "ra_messages r acc =
     (if ra_queued r < app_length_prefix_size then (r, Inr acc)
      else case read_uint32_be (ra_buffer r) (ra_start r) of
             None \<Rightarrow> (r, Inr acc)
           | Some n \<Rightarrow>
               if n > max_app_message_length
               then (ra_fail r, Inl ''application message exceeds the 1 MiB cap'')
               else if ra_queued r < app_length_prefix_size + n then (r, Inr acc)
               else (let from = ra_start r + app_length_prefix_size
                     in ra_messages (r\<lparr>ra_start := from + n\<rparr>) (acc @ [sub_bytes (ra_buffer r) from (from + n)])))"
  by pat_completeness auto
termination
  by (relation "measure (\<lambda>(r, acc). ra_queued r)") (auto simp: ra_queued_def app_length_prefix_size_def)

declare ra_messages.simps [simp del]

definition ra_push :: "bytes \<Rightarrow> reassembler \<Rightarrow> reassembler \<times> (string + bytes list)" where
  "ra_push body r =
     (if ra_failed r then (r, Inl ''reassembly already failed'')
      else if length body > max_stream_body_length then (ra_fail r, Inl ''stream body exceeds one Noise message'')
      else case ra_messages (if body \<noteq> [] then ra_append body r else r) [] of
             (r', Inl e) \<Rightarrow> (r', Inl e)
           | (r', Inr messages) \<Rightarrow> (if ra_start r' = ra_end r' then ra_drain r' else r', Inr messages))"

section \<open>The session\<close>

record transport_session =
  ts_send :: cipher
  ts_receive :: cipher
  ts_handshake_hash :: bytes
  ts_reassembler :: reassembler
  ts_poison :: "string option"

definition new_transport_session :: "noise_session \<Rightarrow> transport_session" where
  "new_transport_session s =
     \<lparr>ts_send = ns_send s, ts_receive = ns_receive s, ts_handshake_hash = ns_handshake_hash s,
      ts_reassembler = new_reassembler, ts_poison = None\<rparr>"

datatype 'v transport_receipt = GotKeepalive | GotControl 'v | GotApp "bytes list"

definition require_live :: "(transport_session, unit) throwing" where
  "require_live =
     (\<lambda>s. case ts_poison s of None \<Rightarrow> (s, Inr ()) | Some why \<Rightarrow> (s, Inl (''session is destroyed: '' @ why)))"

definition guarded :: "(transport_session, 'a) throwing \<Rightarrow> (transport_session, 'a) throwing" where
  "guarded run =
     m_bind require_live
       (\<lambda>_ s. case run s of
                (s', Inl e) \<Rightarrow> (s'\<lparr>ts_poison := Some e\<rparr>, Inl e)
              | (s', Inr a) \<Rightarrow> (s', Inr a))"

definition ts_seal :: "'k noise_crypto \<Rightarrow> bytes \<Rightarrow> (transport_session, bytes) throwing" where
  "ts_seal c plaintext =
     (\<lambda>s. case encrypt_with_ad c [] plaintext (ts_send s) of (cs, r) \<Rightarrow> (s\<lparr>ts_send := cs\<rparr>, r))"

definition ts_encrypt :: "'k noise_crypto \<Rightarrow> 'v json_codec \<Rightarrow> 'v transport_plaintext \<Rightarrow> (transport_session, bytes) throwing" where
  "ts_encrypt c j frame = m_bind (m_lift (encode_transport_plaintext j frame)) (ts_seal c)"

fun ts_encrypt_all :: "'k noise_crypto \<Rightarrow> 'v json_codec \<Rightarrow> bytes list \<Rightarrow> (transport_session, bytes list) throwing" where
  "ts_encrypt_all c j [] = m_return []"
| "ts_encrypt_all c j (body # bodies) =
     m_bind (ts_encrypt c j (PlainStream body)) (\<lambda>x.
     m_bind (ts_encrypt_all c j bodies) (\<lambda>xs. m_return (x # xs)))"

definition send_keepalive :: "'k noise_crypto \<Rightarrow> 'v json_codec \<Rightarrow> (transport_session, bytes) throwing" where
  "send_keepalive c j = guarded (ts_encrypt c j PlainKeepalive)"

definition send_control :: "'k noise_crypto \<Rightarrow> 'v json_codec \<Rightarrow> 'v \<Rightarrow> (transport_session, bytes) throwing" where
  "send_control c j v =
     m_bind require_live (\<lambda>_.
     m_bind (m_lift (encode_transport_plaintext j (PlainControl v))) (\<lambda>plaintext.
       guarded (ts_seal c plaintext)))"

definition send_app :: "'k noise_crypto \<Rightarrow> 'v json_codec \<Rightarrow> bytes \<Rightarrow> (transport_session, bytes list) throwing" where
  "send_app c j message =
     m_bind require_live (\<lambda>_.
     m_bind (m_lift (chunk_app_message message)) (\<lambda>bodies.
       guarded (ts_encrypt_all c j bodies)))"

definition ts_open :: "'k noise_crypto \<Rightarrow> bytes \<Rightarrow> (transport_session, bytes) throwing" where
  "ts_open c ciphertext =
     (\<lambda>s. case decrypt_with_ad c [] ciphertext (ts_receive s) of (cs, r) \<Rightarrow> (s\<lparr>ts_receive := cs\<rparr>, r))"

definition receive :: "'k noise_crypto \<Rightarrow> 'v json_codec \<Rightarrow> bytes \<Rightarrow> (transport_session, 'v transport_receipt) throwing" where
  "receive c j ciphertext =
     guarded (m_bind (ts_open c ciphertext) (\<lambda>plaintext.
       m_bind (m_lift (decode_transport_plaintext j plaintext)) (\<lambda>frame s.
         case frame of
           PlainKeepalive \<Rightarrow> (s, Inr GotKeepalive)
         | PlainControl v \<Rightarrow> (s, Inr (GotControl v))
         | PlainStream body \<Rightarrow>
             (case ra_push body (ts_reassembler s) of
                (ra, Inl e) \<Rightarrow> (s\<lparr>ts_reassembler := ra\<rparr>, Inl e)
              | (ra, Inr messages) \<Rightarrow> (s\<lparr>ts_reassembler := ra\<rparr>, Inr (GotApp messages))))))"

end
