(* ===== verification/Sec_Noise_Facts.thy ===== *)
theory Sec_Noise_Facts
  imports Sec_Noise
begin

text \<open>
  The IK handshake does what it is for: two parties that run it with the same prologue and with
  the key the initiator expects end with the same transcript hash and with crossed cipher
  states, and read the payloads they wrote. \<open>sound_crypto\<close> and \<open>agreed\<close> state what the primitives
  document: sealing opens, lengths are those of the standards, and X25519 gives both sides one secret.
\<close>

definition sound_crypto :: "'k noise_crypto \<Rightarrow> bool" where
  "sound_crypto c \<longleftrightarrow>
     (\<forall>k n ad p. nc_open c k n ad (nc_seal c k n ad p) = Some p) \<and>
     (\<forall>k n ad p. length (nc_seal c k n ad p) = length p + noise_tag_length) \<and>
     (\<forall>k d. length (nc_hmac c k d) = noise_key_length)"

definition agreed :: "'k noise_crypto \<Rightarrow> 'k noise_key_pair \<Rightarrow> 'k noise_key_pair \<Rightarrow> bytes \<Rightarrow> bool" where
  "agreed c a b shared \<longleftrightarrow>
     x25519_agree c (kp_private a) (kp_public b) = Inr shared \<and>
     x25519_agree c (kp_private b) (kp_public a) = Inr shared"

section \<open>The effect of each symmetric operation\<close>

definition keyed :: "'k noise_crypto \<Rightarrow> bytes \<Rightarrow> symmetric \<Rightarrow> symmetric" where
  "keyed c input s =
     s\<lparr>sy_chaining_key := fst (noise_hkdf c (sy_chaining_key s) input),
       sy_cipher := \<lparr>cs_key = Some (snd (noise_hkdf c (sy_chaining_key s) input)), cs_n = 0\<rparr>\<rparr>"

definition cipher_nonce :: "nat \<Rightarrow> bytes" where
  "cipher_nonce n = replicate 4 0 @ map (\<lambda>k. of_nat (n div 256 ^ k)) [0..<8]"

definition boxed :: "'k noise_crypto \<Rightarrow> bytes \<Rightarrow> symmetric \<Rightarrow> bytes" where
  "boxed c p s = nc_seal c (known (cs_key (sy_cipher s))) (cipher_nonce (cs_n (sy_cipher s))) (sy_hash s) p"

definition after_box :: "'k noise_crypto \<Rightarrow> bytes \<Rightarrow> symmetric \<Rightarrow> symmetric" where
  "after_box c p s = mix_hash c (boxed c p s) (s\<lparr>sy_cipher := (sy_cipher s)\<lparr>cs_n := cs_n (sy_cipher s) + 1\<rparr>\<rparr>)"

definition fresh_cipher :: "symmetric \<Rightarrow> bool" where
  "fresh_cipher s \<longleftrightarrow> cs_key (sy_cipher s) \<noteq> None \<and> cs_n (sy_cipher s) = 0"

lemma fresh_keyed [simp]: "fresh_cipher (keyed c i s)"
  by (simp add: fresh_cipher_def keyed_def)

lemma hkdf_lengths:
  "sound_crypto c \<Longrightarrow> length (fst (noise_hkdf c ck i)) = noise_key_length \<and> length (snd (noise_hkdf c ck i)) = noise_key_length"
  by (simp add: sound_crypto_def noise_hkdf_def Let_def)

lemma mix_key_keyed: "sound_crypto c \<Longrightarrow> mix_key c i s = (keyed c i s, Inr ())"
  using hkdf_lengths [of c "sy_chaining_key s" i]
  by (simp add: mix_key_def keyed_def new_cipher_def case_prod_unfold Let_def)

lemma hs_mix_dh_keyed:
  "sound_crypto c \<Longrightarrow> x25519_agree c k p = Inr shared \<Longrightarrow>
   hs_mix_dh c k p h = (h\<lparr>hs_symmetric := keyed c shared (hs_symmetric h)\<rparr>, Inr ())"
  by (simp add: hs_mix_dh_def method_defs on_symmetric_def mix_key_keyed)

lemma box_opens:
  assumes "sound_crypto c" and "fresh_cipher s" and "length p + noise_tag_length \<le> noise_max_message_length"
  shows "encrypt_and_hash c p s = (after_box c p s, Inr (boxed c p s))"
    and "decrypt_and_hash c (boxed c p s) s = (after_box c p s, Inr p)"
    and "length (boxed c p s) = length p + noise_tag_length"
  using assms
  by (auto simp: encrypt_and_hash_def decrypt_and_hash_def encrypt_with_ad_def decrypt_with_ad_def method_defs
      require_max_message_length_def fresh_cipher_def noise_nonce_bytes_def reserved_nonce_def
      after_box_def boxed_def sound_crypto_def known_def cipher_nonce_def)

section \<open>Message 1\<close>

text \<open>The symmetric states both sides go through.\<close>

definition sym_es :: "'k noise_crypto \<Rightarrow> bytes \<Rightarrow> bytes \<Rightarrow> symmetric \<Rightarrow> symmetric" where
  "sym_es c e es s = keyed c es (mix_hash c e s)"

definition sym_ss :: "'k noise_crypto \<Rightarrow> bytes \<Rightarrow> bytes \<Rightarrow> bytes \<Rightarrow> bytes \<Rightarrow> symmetric \<Rightarrow> symmetric" where
  "sym_ss c e es static ss s = keyed c ss (after_box c static (sym_es c e es s))"

lemma message_1_written:
  assumes c: "sound_crypto c" and keys: "length (kp_public (hs_static h)) = noise_key_length"
    and e: "hs_ephemeral h = Some e \<or> hs_ephemeral h = None \<and> e = fresh"
    and rs: "hs_remote_static h = Some rs"
    and es: "x25519_agree c (kp_private e) rs = Inr es"
    and ss: "x25519_agree c (kp_private (hs_static h)) rs = Inr ss"
    and len: "message_1_overhead + length payload \<le> noise_max_message_length"
  shows "write_message_1 c fresh payload h =
     (h\<lparr>hs_symmetric := after_box c payload (sym_ss c (kp_public e) es (kp_public (hs_static h)) ss (hs_symmetric h)),
        hs_ephemeral := Some e, hs_first_done := True\<rparr>,
      Inr (kp_public e @ boxed c (kp_public (hs_static h)) (sym_es c (kp_public e) es (hs_symmetric h)) @
           boxed c payload (sym_ss c (kp_public e) es (kp_public (hs_static h)) ss (hs_symmetric h))))"
proof -
  have use: "use_ephemeral fresh h = (h\<lparr>hs_ephemeral := Some e\<rparr>, Inr e)"
    using e by (auto simp: use_ephemeral_def)
  have "length (kp_public (hs_static h)) + noise_tag_length \<le> noise_max_message_length"
    "length payload + noise_tag_length \<le> noise_max_message_length"
    using keys len by (auto simp: noise_sizes)
  note box = box_opens(1) [OF c _ this(1)] box_opens(1) [OF c _ this(2)]
  show ?thesis
    unfolding write_message_1_def
    using len use rs hs_mix_dh_keyed [OF c es] hs_mix_dh_keyed [OF c ss]
    by (simp add: method_defs require_message_length_def require_max_message_length_def noise_sizes
        hs_mix_hash_def on_symmetric_def known_def box [unfolded noise_sizes] sym_es_def sym_ss_def concat_bytes_def)
qed

lemma message_1_read:
  assumes c: "sound_crypto c" and eph: "length ek = noise_key_length" and sk: "length static = noise_key_length"
    and es: "x25519_agree c (kp_private (hs_static h)) ek = Inr es"
    and ss: "x25519_agree c (kp_private (hs_static h)) static = Inr ss"
    and len: "message_1_overhead + length payload \<le> noise_max_message_length"
    and msg: "message = ek @ boxed c static (sym_es c ek es (hs_symmetric h)) @
      boxed c payload (sym_ss c ek es static ss (hs_symmetric h))"
  shows "read_message_1 c message h =
     (h\<lparr>hs_symmetric := after_box c payload (sym_ss c ek es static ss (hs_symmetric h)),
        hs_remote_ephemeral := Some ek, hs_remote_static := Some static, hs_first_done := True\<rparr>, Inr payload)"
proof -
  have "length static + noise_tag_length \<le> noise_max_message_length"
    "length payload + noise_tag_length \<le> noise_max_message_length"
    using sk len by (auto simp: noise_sizes)
  note box = box_opens(2) [OF c _ this(1)] box_opens(2) [OF c _ this(2)]
  have fresh: "fresh_cipher (sym_es c ek es x)" "fresh_cipher (sym_ss c ek es static ss x)" for x
    by (simp_all add: sym_es_def sym_ss_def)
  let ?b1 = "boxed c static (sym_es c ek es (hs_symmetric h))"
  let ?b2 = "boxed c payload (sym_ss c ek es static ss (hs_symmetric h))"
  have b1: "length ?b1 = 48" using box_opens(3) [OF c fresh(1)] sk by (simp add: noise_sizes)
  have b2: "length ?b2 = length payload + 16"
    using box_opens(3) [OF c fresh(2)] len by (simp add: noise_sizes)
  have parts: "take 32 message = ek" "drop 32 (take 80 message) = ?b1" "drop 80 message = ?b2"
    "length message = 96 + length payload"
    using eph b1 b2 by (auto simp: msg noise_sizes)
  show ?thesis
    unfolding read_message_1_def Let_def
    using len sk parts hs_mix_dh_keyed [OF c es] hs_mix_dh_keyed [OF c ss]
      box(1) [OF fresh(1), of "hs_symmetric h"] box(2) [OF fresh(2), of "hs_symmetric h"]
    by (simp add: method_defs require_message_length_def require_max_message_length_def noise_sizes require_key_def
        hs_mix_hash_def on_symmetric_def sym_es_def sym_ss_def)
qed

section \<open>Message 2\<close>

definition sym_se :: "'k noise_crypto \<Rightarrow> bytes \<Rightarrow> bytes \<Rightarrow> bytes \<Rightarrow> symmetric \<Rightarrow> symmetric" where
  "sym_se c e ee se s = keyed c se (keyed c ee (mix_hash c e s))"

definition split_of :: "'k noise_crypto \<Rightarrow> bool \<Rightarrow> symmetric \<Rightarrow> noise_session" where
  "split_of c initiator s =
     (let (k1, k2) = noise_hkdf c (sy_chaining_key s) []
      in \<lparr>ns_send = \<lparr>cs_key = Some (if initiator then k1 else k2), cs_n = 0\<rparr>,
          ns_receive = \<lparr>cs_key = Some (if initiator then k2 else k1), cs_n = 0\<rparr>,
          ns_handshake_hash = sy_hash s\<rparr>)"

lemma hs_split_eq: "sound_crypto c \<Longrightarrow>
   hs_split c h = (h\<lparr>hs_session := Some (split_of c (hs_initiator h) (hs_symmetric h))\<rparr>, Inr ())"
  using hkdf_lengths [of c "sy_chaining_key (hs_symmetric h)" "[]"]
  by (simp add: hs_split_def sy_split_def new_cipher_def split_of_def case_prod_unfold Let_def)

lemma message_2_written:
  assumes c: "sound_crypto c"
    and e: "hs_ephemeral h = Some e \<or> hs_ephemeral h = None \<and> e = fresh"
    and re: "hs_remote_ephemeral h = Some re" and rs: "hs_remote_static h = Some rs"
    and ee: "x25519_agree c (kp_private e) re = Inr ee" and se: "x25519_agree c (kp_private e) rs = Inr se"
    and len: "message_2_overhead + length payload \<le> noise_max_message_length"
  shows "write_message_2 c fresh payload h =
     (h\<lparr>hs_symmetric := after_box c payload (sym_se c (kp_public e) ee se (hs_symmetric h)),
        hs_ephemeral := Some e,
        hs_session := Some (split_of c (hs_initiator h) (after_box c payload (sym_se c (kp_public e) ee se (hs_symmetric h))))\<rparr>,
      Inr (kp_public e @ boxed c payload (sym_se c (kp_public e) ee se (hs_symmetric h))))"
proof -
  have use: "use_ephemeral fresh h = (h\<lparr>hs_ephemeral := Some e\<rparr>, Inr e)"
    using e by (auto simp: use_ephemeral_def)
  have "length payload + noise_tag_length \<le> noise_max_message_length" using len by (auto simp: noise_sizes)
  note box = box_opens(1) [OF c _ this]
  show ?thesis
    unfolding write_message_2_def
    using len use re rs hs_mix_dh_keyed [OF c ee] hs_mix_dh_keyed [OF c se]
    by (simp add: method_defs require_message_length_def require_max_message_length_def noise_sizes
        hs_mix_hash_def on_symmetric_def known_def box [unfolded noise_sizes] sym_se_def concat_bytes_def hs_split_eq [OF c])
qed

lemma message_2_read:
  assumes c: "sound_crypto c" and eph: "length ek = noise_key_length"
    and e: "hs_ephemeral h = Some e"
    and ee: "x25519_agree c (kp_private e) ek = Inr ee"
    and se: "x25519_agree c (kp_private (hs_static h)) ek = Inr se"
    and len: "message_2_overhead + length payload \<le> noise_max_message_length"
    and msg: "message = ek @ boxed c payload (sym_se c ek ee se (hs_symmetric h))"
  shows "read_message_2 c message h =
     (h\<lparr>hs_symmetric := after_box c payload (sym_se c ek ee se (hs_symmetric h)),
        hs_session := Some (split_of c (hs_initiator h) (after_box c payload (sym_se c ek ee se (hs_symmetric h))))\<rparr>,
      Inr payload)"
proof -
  have small: "length payload + noise_tag_length \<le> noise_max_message_length" using len by (auto simp: noise_sizes)
  have fresh: "fresh_cipher (sym_se c ek ee se x)" for x by (simp add: sym_se_def)
  note box = box_opens(2) [OF c fresh small, of "hs_symmetric h"]
  let ?b = "boxed c payload (sym_se c ek ee se (hs_symmetric h))"
  have "length ?b = length payload + 16" using box_opens(3) [OF c fresh small] by (simp add: noise_sizes)
  then have parts: "take 32 message = ek" "drop 32 message = ?b" "length message = 48 + length payload"
    using eph by (auto simp: msg noise_sizes)
  show ?thesis
    unfolding read_message_2_def Let_def
    using len parts e hs_mix_dh_keyed [OF c ee] hs_mix_dh_keyed [OF c se] box
    by (simp add: method_defs require_message_length_def require_max_message_length_def noise_sizes
        hs_mix_hash_def on_symmetric_def sym_se_def hs_split_eq [OF c])
qed

section \<open>The two parties agree\<close>

text \<open>What an established pair of sessions is: one transcript hash, and each side receives with the
  cipher state the other sends with, keyed and not yet used.\<close>

definition paired :: "noise_session \<Rightarrow> noise_session \<Rightarrow> bool" where
  "paired a b \<longleftrightarrow>
     ns_send a = ns_receive b \<and> ns_receive a = ns_send b \<and> ns_handshake_hash a = ns_handshake_hash b \<and>
     cs_key (ns_send a) \<noteq> None \<and> cs_key (ns_send b) \<noteq> None \<and> cs_n (ns_send a) = 0 \<and> cs_n (ns_send b) = 0"

lemma split_paired: "paired (split_of c True s) (split_of c False s)"
  by (simp add: paired_def split_of_def case_prod_unfold Let_def)

lemma name_fits: "\<exists>s. sy_initialize = Inr s"
proof -
  have "list_all (\<lambda>c. c < 128) noise_protocol_name" "length noise_protocol_name = 32"
    by (simp_all add: noise_protocol_name_def js_def)
  then have "length (utf8_encode noise_protocol_name) \<le> noise_key_length"
    by (simp add: utf8_ascii noise_key_length_def)
  then show ?thesis by (simp add: sy_initialize_def Let_def)
qed

lemma hs_step_runs:
  "hs_failed h = False \<Longrightarrow> hs_session h = None \<Longrightarrow> hs_in_flight h = False \<Longrightarrow>
   hs_step run h = hs_leave (run (h\<lparr>hs_in_flight := True\<rparr>))"
  by (simp add: hs_step_def hs_enter_def)

lemma handshake_agrees:
  assumes c: "sound_crypto c"
    and keys: "length (kp_public a) = noise_key_length" "length (kp_public b) = noise_key_length"
      "length (kp_public ea) = noise_key_length" "length (kp_public eb) = noise_key_length"
    and dh: "agreed c ea b es" "agreed c a b ss" "agreed c ea eb ee" "agreed c a eb se"
    and len: "message_1_overhead + length p1 \<le> noise_max_message_length"
      "message_2_overhead + length p2 \<le> noise_max_message_length"
    and i0: "create_noise_initiator c prologue a None (kp_public b) = Inr i0"
    and r0: "create_noise_responder c prologue b None = Inr r0"
  obtains i1 m1 r1 r2 m2 i2 si sr where
    "write_message c ea p1 i0 = (i1, Inr m1)" "read_message c m1 r0 = (r1, Inr p1)"
    "hs_remote_static r1 = Some (kp_public a)"
    "write_message c eb p2 r1 = (r2, Inr m2)" "read_message c m2 i1 = (i2, Inr p2)"
    "hs_session i2 = Some si" "hs_session r2 = Some sr" "paired si sr" "hs_remote_static r2 = Some (kp_public a)"
proof -
  obtain s0 where s0: "sy_initialize = Inr s0" using name_fits by blast
  let ?s = "mix_hash c (kp_public b) (mix_hash c prologue s0)"
  have i: "i0 = \<lparr>hs_initiator = True, hs_symmetric = ?s, hs_static = a, hs_ephemeral = None,
      hs_remote_static = Some (kp_public b), hs_remote_ephemeral = None, hs_first_done = False,
      hs_failed = False, hs_in_flight = False, hs_session = None\<rparr>"
    using i0 keys by (simp add: s0 create_noise_initiator_def start_handshake_def Let_def)
  have r: "r0 = \<lparr>hs_initiator = False, hs_symmetric = ?s, hs_static = b, hs_ephemeral = None,
      hs_remote_static = None, hs_remote_ephemeral = None, hs_first_done = False,
      hs_failed = False, hs_in_flight = False, hs_session = None\<rparr>"
    using r0 keys by (simp add: s0 create_noise_responder_def start_handshake_def Let_def)
  note agree = dh [unfolded agreed_def]
  let ?s1 = "after_box c p1 (sym_ss c (kp_public ea) es (kp_public a) ss ?s)"
  let ?m1 = "kp_public ea @ boxed c (kp_public a) (sym_es c (kp_public ea) es ?s) @
      boxed c p1 (sym_ss c (kp_public ea) es (kp_public a) ss ?s)"
  let ?i1 = "i0\<lparr>hs_symmetric := ?s1, hs_ephemeral := Some ea, hs_first_done := True\<rparr>"
  let ?r1 = "r0\<lparr>hs_symmetric := ?s1, hs_remote_ephemeral := Some (kp_public ea),
      hs_remote_static := Some (kp_public a), hs_first_done := True\<rparr>"
  have w1: "write_message c ea p1 i0 = (?i1, Inr ?m1)"
    unfolding write_message_def
    using message_1_written [OF c, of "i0\<lparr>hs_in_flight := True\<rparr>" ea ea "kp_public b" es ss p1] keys agree len
    by (simp add: hs_step_runs i hs_leave_def)
  have rd1: "read_message c ?m1 r0 = (?r1, Inr p1)"
    unfolding read_message_def
    using message_1_read [OF c keys(3) keys(1), of "r0\<lparr>hs_in_flight := True\<rparr>" es ss p1 ?m1] agree len
    by (simp add: hs_step_runs r hs_leave_def)
  let ?s2 = "after_box c p2 (sym_se c (kp_public eb) ee se ?s1)"
  let ?m2 = "kp_public eb @ boxed c p2 (sym_se c (kp_public eb) ee se ?s1)"
  have w2: "write_message c eb p2 ?r1 = (?r1\<lparr>hs_symmetric := ?s2, hs_ephemeral := Some eb,
      hs_session := Some (split_of c False ?s2)\<rparr>, Inr ?m2)"
    unfolding write_message_def
    using message_2_written [OF c, of "?r1\<lparr>hs_in_flight := True\<rparr>" eb eb "kp_public ea" "kp_public a" ee se p2] agree len
    by (simp add: hs_step_runs r hs_leave_def)
  have rd2: "read_message c ?m2 ?i1 = (?i1\<lparr>hs_symmetric := ?s2, hs_session := Some (split_of c True ?s2)\<rparr>, Inr p2)"
    unfolding read_message_def
    using message_2_read [OF c keys(4), of "?i1\<lparr>hs_in_flight := True\<rparr>" ea ee se p2 ?m2] agree len
    by (simp add: hs_step_runs i hs_leave_def)
  show thesis
    by (rule that [OF w1 rd1 _ w2 rd2 _ _ split_paired [of c ?s2]]) simp_all
qed

text \<open>The whole exchange: the initiator knows the responder's static key, each side writes one payload,
  and what remains are both ends and the two payloads as they were read.\<close>

definition run_handshake ::
    "'k noise_crypto \<Rightarrow> bytes \<Rightarrow> 'k noise_key_pair \<Rightarrow> 'k noise_key_pair \<Rightarrow> 'k noise_key_pair \<Rightarrow> 'k noise_key_pair \<Rightarrow>
     bytes \<Rightarrow> bytes \<Rightarrow> string + 'k handshake \<times> 'k handshake \<times> bytes \<times> bytes" where
  "run_handshake c prologue a b ea eb p1 p2 =
     (case create_noise_initiator c prologue a None (kp_public b) of Inl e \<Rightarrow> Inl e | Inr i0 \<Rightarrow>
      case create_noise_responder c prologue b None of Inl e \<Rightarrow> Inl e | Inr r0 \<Rightarrow>
      case write_message c ea p1 i0 of (_, Inl e) \<Rightarrow> Inl e | (i1, Inr m1) \<Rightarrow>
      case read_message c m1 r0 of (_, Inl e) \<Rightarrow> Inl e | (r1, Inr got1) \<Rightarrow>
      case write_message c eb p2 r1 of (_, Inl e) \<Rightarrow> Inl e | (r2, Inr m2) \<Rightarrow>
      case read_message c m2 i1 of (_, Inl e) \<Rightarrow> Inl e | (i2, Inr got2) \<Rightarrow> Inr (i2, r2, got1, got2))"

lemma handshake_created:
  assumes "length (kp_public a) = noise_key_length" and "length (kp_public b) = noise_key_length"
  shows "\<exists>i0 r0. create_noise_initiator c prologue a None (kp_public b) = Inr i0 \<and> create_noise_responder c prologue b None = Inr r0"
proof -
  obtain s0 where s0: "sy_initialize = Inr s0" using name_fits by blast
  show ?thesis
    using assms by (simp add: s0 create_noise_initiator_def create_noise_responder_def start_handshake_def Let_def)
qed

lemma handshake_paired:
  assumes "sound_crypto c"
    and "length (kp_public a) = noise_key_length" "length (kp_public b) = noise_key_length"
      "length (kp_public ea) = noise_key_length" "length (kp_public eb) = noise_key_length"
    and "agreed c ea b es" "agreed c a b ss" "agreed c ea eb ee" "agreed c a eb se"
    and "message_1_overhead + length p1 \<le> noise_max_message_length"
      "message_2_overhead + length p2 \<le> noise_max_message_length"
  shows "\<exists>i r si sr. run_handshake c prologue a b ea eb p1 p2 = Inr (i, r, p1, p2) \<and>
    hs_session i = Some si \<and> hs_session r = Some sr \<and> paired si sr \<and> hs_remote_static r = Some (kp_public a)"
proof -
  obtain i0 r0 where created: "create_noise_initiator c prologue a None (kp_public b) = Inr i0"
      "create_noise_responder c prologue b None = Inr r0"
    using handshake_created [OF assms(2,3), of c prologue] by auto
  show ?thesis
    by (rule handshake_agrees [OF assms created]) (auto simp: run_handshake_def created)
qed

text \<open>A failed handshake refuses every later step, and an overlapping call fails it.\<close>

lemma failed_is_final:
  "hs_failed h \<Longrightarrow> write_message c e p h = (h, Inl ''handshake already failed'')"
  "hs_failed h \<Longrightarrow> read_message c m h = (h, Inl ''handshake already failed'')"
  by (simp_all add: write_message_def read_message_def hs_step_def hs_enter_def)

lemma failure_is_recorded:
  "snd (write_message c e p h) = Inl msg \<Longrightarrow> hs_session h = None \<Longrightarrow> hs_failed (fst (write_message c e p h))"
  "snd (read_message c m h) = Inl msg \<Longrightarrow> hs_session h = None \<Longrightarrow> hs_failed (fst (read_message c m h))"
  by (auto simp: write_message_def read_message_def hs_step_def hs_enter_def hs_leave_def
      split: prod.splits sum.splits if_splits)

text \<open>
  An overlapping call only marks the handshake failed. The step that was in flight runs on: it still writes its
  message and leaves a session, which the \<open>session\<close> getter hands out.
\<close>

lemma overlapped_step_completes:
  assumes "sound_crypto c" and "hs_ephemeral h = None"
    and "hs_remote_ephemeral h = Some re" and "hs_remote_static h = Some rs"
    and "x25519_agree c (kp_private e) re = Inr ee" and "x25519_agree c (kp_private e) rs = Inr se"
    and "message_2_overhead + length payload \<le> noise_max_message_length" and "hs_failed h"
  shows "\<exists>h' m. hs_leave (write_message_2 c e payload h) = (h', Inr m) \<and> hs_failed h' \<and> hs_session h' \<noteq> None"
  using message_2_written [OF assms(1) disjI2 assms(3-7)] assms(2,8) by (simp add: hs_leave_def)

end
