(* ===== verification/Sec_Framing_Facts.thy ===== *)
theory Sec_Framing_Facts
  imports Sec_Framing Sec_Noise_Facts
begin

text \<open>
  The framing layer against its specification: the byte stream a sender's bodies make up is parsed
  by \<open>parse_stream\<close>, a function of the bytes alone, and the reassembly buffer computes it whatever the
  bodies' boundaries, inside its capacity. On top of it, a live pair of sessions delivers
  each message the sender accepts, once and in order.
\<close>

lemmas framing_sizes = max_app_message_length_def app_length_prefix_size_def max_stream_body_length_def
  noise_max_message_length_def noise_tag_length_def

lemma chunk_positive: "0 < max_stream_body_length"
  by (simp add: framing_sizes)

section \<open>The stream's specification\<close>

function parse_stream :: "bytes \<Rightarrow> string + bytes list \<times> bytes" where
  "parse_stream q =
     (case read_uint32_be q 0 of
        None \<Rightarrow> Inr ([], q)
      | Some n \<Rightarrow>
          if n > max_app_message_length then Inl ''application message exceeds the 1 MiB cap''
          else if length q < app_length_prefix_size + n then Inr ([], q)
          else case parse_stream (drop (app_length_prefix_size + n) q) of
                 Inl e \<Rightarrow> Inl e
               | Inr (messages, rest) \<Rightarrow> Inr (take n (drop app_length_prefix_size q) # messages, rest))"
  by pat_completeness auto
termination
  by (relation "measure length") (auto simp: app_length_prefix_size_def)

declare parse_stream.simps [simp del]

definition framed :: "bytes \<Rightarrow> bytes" where
  "framed message = write_uint32_be (length message) @ message"

lemma read_append: "read_uint32_be q 0 = Some n \<Longrightarrow> read_uint32_be (q @ b) 0 = Some n"
  by (auto simp: read_uint32_be_def uint32_size_def nth_append split: if_splits)

lemma parse_append:
  "parse_stream q = Inr (messages, rest) \<Longrightarrow>
   parse_stream (q @ b) =
     (case parse_stream (rest @ b) of Inl e \<Rightarrow> Inl e | Inr (ms2, rest') \<Rightarrow> Inr (messages @ ms2, rest'))"
proof (induction q arbitrary: messages rest rule: parse_stream.induct)
  case (1 q)
  show ?case
  proof (cases "read_uint32_be q 0")
    case None
    then show ?thesis using 1(2) by (auto simp: parse_stream.simps [of q] split: sum.splits)
  next
    case (Some n)
    show ?thesis
    proof (cases "length q < app_length_prefix_size + n")
      case True
      then show ?thesis using 1(2) Some
        by (auto simp: parse_stream.simps [of q] split: sum.splits if_splits)
    next
      case False
      then have small: "\<not> n > max_app_message_length" using 1(2) Some by (auto simp: parse_stream.simps [of q])
      obtain ms where ms: "parse_stream (drop (app_length_prefix_size + n) q) = Inr (ms, rest)"
        "messages = take n (drop app_length_prefix_size q) # ms"
        using 1(2) Some False small by (auto simp: parse_stream.simps [of q] split: sum.splits)
      show ?thesis
        using 1(1) [OF Some small False ms(1)] read_append [OF Some, of b] False small ms
        by (auto simp: parse_stream.simps [of "q @ b"] split: sum.splits)
    qed
  qed
qed

lemma parse_stuck: "parse_stream q = Inl e \<Longrightarrow> parse_stream (q @ b) = Inl e"
proof (induction q rule: parse_stream.induct)
  case (1 q)
  then obtain n where n: "read_uint32_be q 0 = Some n"
    by (auto simp: parse_stream.simps [of q] split: option.splits)
  show ?case
  proof (cases "n > max_app_message_length")
    case True
    then show ?thesis using 1(2) n read_append [OF n, of b]
      by (simp add: parse_stream.simps [of q] parse_stream.simps [of "q @ b"])
  next
    case False
    then have long: "\<not> length q < app_length_prefix_size + n"
      and rest: "parse_stream (drop (app_length_prefix_size + n) q) = Inl e"
      using 1(2) n by (auto simp: parse_stream.simps [of q] split: sum.splits if_splits)
    then show ?thesis using 1(1) [OF n False long rest] n read_append [OF n, of b] False
      by (simp add: parse_stream.simps [of "q @ b"])
  qed
qed

lemma parse_framed:
  assumes "length m \<le> max_app_message_length"
  shows "parse_stream (framed m @ rest) =
    (case parse_stream rest of Inl e \<Rightarrow> Inl e | Inr (messages, rest') \<Rightarrow> Inr (m # messages, rest'))"
proof -
  have "read_uint32_be (write_uint32_be (length m) @ m @ rest) 0 = Some (length m)"
    using assms by (intro read_written) (simp add: framing_sizes)
  then show ?thesis
    using assms unfolding framed_def append_assoc by (subst parse_stream.simps) (simp add: app_length_prefix_size_def split: sum.splits)
qed

lemma parse_frames:
  "list_all (\<lambda>m. length m \<le> max_app_message_length) ms \<Longrightarrow>
   parse_stream (concat (map framed ms)) = Inr (ms, [])"
  by (induction ms) (simp_all add: parse_framed parse_stream.simps [of "[]"] read_uint32_be_def uint32_size_def)

definition incomplete :: "bytes \<Rightarrow> bool" where
  "incomplete q \<longleftrightarrow> parse_stream q = Inr ([], q)"

lemma parse_rest: "parse_stream q = Inr (ms, rest) \<Longrightarrow> incomplete rest \<and> (\<exists>p. q = p @ rest)"
proof (induction q arbitrary: ms rest rule: parse_stream.induct)
  case (1 q)
  show ?case
  proof (cases "read_uint32_be q 0")
    case None
    then have "parse_stream q = Inr ([], q)" by (simp add: parse_stream.simps [of q])
    then show ?thesis using 1(2) by (auto simp: incomplete_def)
  next
    case (Some n)
    show ?thesis
    proof (cases "length q < app_length_prefix_size + n")
      case True
      then have "parse_stream q = Inr ([], q)" using 1(2) Some by (auto simp: parse_stream.simps [of q] split: if_splits)
      then show ?thesis using 1(2) by (auto simp: incomplete_def)
    next
      case False
      then have small: "\<not> n > max_app_message_length" using 1(2) Some by (auto simp: parse_stream.simps [of q])
      obtain ms' where ms: "parse_stream (drop (app_length_prefix_size + n) q) = Inr (ms', rest)"
        using 1(2) Some False small by (auto simp: parse_stream.simps [of q] split: sum.splits)
      then show ?thesis
        using 1(1) [OF Some small False ms]
        by (metis append_assoc append_take_drop_id)
    qed
  qed
qed

lemma incomplete_length: "incomplete q \<Longrightarrow> length q < app_length_prefix_size + max_app_message_length"
  by (auto simp: incomplete_def parse_stream.simps [of q] read_uint32_be_def uint32_size_def
      app_length_prefix_size_def split: if_splits sum.splits)

lemma incomplete_nil: "incomplete []"
  by (simp add: incomplete_def parse_stream.simps [of "[]"] read_uint32_be_def uint32_size_def)

section \<open>The chunks of a message\<close>

lemma chunks_of: "concat (chunk_bodies bs) = bs \<and> list_all (\<lambda>b. b \<noteq> [] \<and> length b \<le> max_stream_body_length) (chunk_bodies bs)"
proof (induction bs rule: chunk_bodies.induct)
  case (1 bs)
  then show ?case using chunk_positive by (subst (1 2) chunk_bodies.simps) (cases "bs = []"; simp)
qed

lemma chunk_count: "length (chunk_bodies bs) * max_stream_body_length < length bs + max_stream_body_length"
proof (induction bs rule: chunk_bodies.induct)
  case (1 bs)
  show ?case
  proof (cases "length bs \<le> max_stream_body_length")
    case True
    then show ?thesis using chunk_positive by (subst chunk_bodies.simps) (auto simp: chunk_bodies.simps [of "[]"])
  next
    case False
    then show ?thesis using 1 by (subst chunk_bodies.simps) auto
  qed
qed

section \<open>The buffer\<close>

text \<open>\<open>pending\<close> is the live window. A reassembler is well formed when the window lies inside a buffer
  that respects the capacity bound and holds no complete message.\<close>

definition pending :: "reassembler \<Rightarrow> bytes" where
  "pending r = sub_bytes (ra_buffer r) (ra_start r) (ra_end r)"

definition windowed :: "reassembler \<Rightarrow> bool" where
  "windowed r \<longleftrightarrow> ra_start r \<le> ra_end r \<and> ra_end r \<le> length (ra_buffer r) \<and> length (ra_buffer r) \<le> max_buffer_capacity"

definition reassembler_ok :: "reassembler \<Rightarrow> bool" where
  "reassembler_ok r \<longleftrightarrow> \<not> ra_failed r \<and> windowed r \<and> incomplete (pending r)"

lemma length_pending: "windowed r \<Longrightarrow> length (pending r) = ra_queued r"
  by (auto simp: pending_def sub_bytes_def windowed_def ra_queued_def)

lemma room_made:
  assumes "windowed r" and "length (pending r) + n \<le> max_buffer_capacity"
  shows "windowed (ra_make_room n r)" and "pending (ra_make_room n r) = pending r"
    and "ra_end (ra_make_room n r) + n \<le> length (ra_buffer (ra_make_room n r))"
    and "ra_failed (ra_make_room n r) = ra_failed r"
proof -
  have live: "length (sub_bytes (ra_buffer r) (ra_start r) (ra_end r)) = ra_queued r" "pending r = sub_bytes (ra_buffer r) (ra_start r) (ra_end r)"
    using length_pending [OF assms(1)] by (simp_all add: pending_def)
  have moved: "sub_bytes (overwrite buf 0 w) 0 (length w) = w" "length w \<le> length buf \<Longrightarrow> length (overwrite buf 0 w) = length buf" for buf w
    by (simp_all add: sub_bytes_def overwrite_def)
  let ?c = "min max_buffer_capacity (max (ra_queued r + n) (max (length (ra_buffer r) * 2) initial_buffer_capacity))"
  have c: "ra_queued r + n \<le> ?c" "?c \<le> max_buffer_capacity" using assms live by simp_all
  consider "ra_end r + n \<le> length (ra_buffer r)"
    | "\<not> ra_end r + n \<le> length (ra_buffer r)" "ra_queued r + n \<le> length (ra_buffer r)"
    | "\<not> ra_end r + n \<le> length (ra_buffer r)" "\<not> ra_queued r + n \<le> length (ra_buffer r)" by blast
  then have "windowed (ra_make_room n r) \<and> pending (ra_make_room n r) = pending r \<and>
    ra_end (ra_make_room n r) + n \<le> length (ra_buffer (ra_make_room n r)) \<and> ra_failed (ra_make_room n r) = ra_failed r"
  proof cases
    case 1
    then show ?thesis using assms by (simp add: ra_make_room_def)
  next
    case 2
    then have "length (pending r) \<le> length (ra_buffer r)" using live by simp
    then show ?thesis using 2 assms(1) live moved(1) [of "ra_buffer r" "pending r"] moved(2) [of "pending r" "ra_buffer r"]
      by (simp add: ra_make_room_def Let_def windowed_def pending_def)
  next
    case 3
    have "length (pending r) \<le> length (replicate ?c (0 :: 8 word))" using live c by simp
    then show ?thesis using 3 c live moved(1) [of "replicate ?c 0" "pending r"] moved(2) [of "pending r" "replicate ?c 0"]
      by (simp add: ra_make_room_def Let_def windowed_def pending_def)
  qed
  then show "windowed (ra_make_room n r)" and "pending (ra_make_room n r) = pending r"
    and "ra_end (ra_make_room n r) + n \<le> length (ra_buffer (ra_make_room n r))"
    and "ra_failed (ra_make_room n r) = ra_failed r" by simp_all
qed

lemma window_written:
  "start \<le> finish \<Longrightarrow> finish + length body \<le> length buf \<Longrightarrow>
   sub_bytes (overwrite buf finish body) start (finish + length body) = sub_bytes buf start finish @ body"
  by (simp add: sub_bytes_def overwrite_def min_absorb1 drop_take)

lemma appended:
  assumes "windowed r" and "length (pending r) + length body \<le> max_buffer_capacity"
  shows "windowed (ra_append body r)" and "pending (ra_append body r) = pending r @ body"
    and "ra_failed (ra_append body r) = ra_failed r"
  using room_made [OF assms] window_written
  by (simp_all add: ra_append_def windowed_def pending_def Let_def) (simp add: overwrite_def)

lemma window_read:
  assumes "windowed r"
  shows "ra_queued r < app_length_prefix_size \<Longrightarrow> read_uint32_be (pending r) 0 = None"
    and "\<not> ra_queued r < app_length_prefix_size \<Longrightarrow>
      read_uint32_be (ra_buffer r) (ra_start r) = read_uint32_be (pending r) 0 \<and> read_uint32_be (pending r) 0 \<noteq> None"
  using assms length_pending [OF assms]
  by (auto simp: read_uint32_be_def uint32_size_def app_length_prefix_size_def pending_def sub_bytes_def
      windowed_def ra_queued_def)

lemma window_advanced:
  assumes "windowed r" and "k \<le> ra_queued r"
  shows "windowed (r\<lparr>ra_start := ra_start r + k\<rparr>)" and "pending (r\<lparr>ra_start := ra_start r + k\<rparr>) = drop k (pending r)"
    and "sub_bytes (ra_buffer r) (ra_start r + j) (ra_start r + k) = take (k - j) (drop j (pending r))"
  using assms by (auto simp: windowed_def pending_def sub_bytes_def ra_queued_def drop_take add.commute)

lemma messages_spec:
  "windowed r \<Longrightarrow>
   ra_messages r acc =
     (case parse_stream (pending r) of
        Inl e \<Rightarrow> (ra_fail r, Inl e)
      | Inr (ms, rest) \<Rightarrow> (r\<lparr>ra_start := ra_end r - length rest\<rparr>, Inr (acc @ ms)))"
proof (induction r acc rule: ra_messages.induct)
  case (1 r acc)
  note len = length_pending [OF 1(2)]
  have stay: "r\<lparr>ra_start := ra_end r - length (pending r)\<rparr> = r"
    using 1(2) len by (simp add: windowed_def ra_queued_def)
  show ?case
  proof (cases "ra_queued r < app_length_prefix_size")
    case True
    then have "parse_stream (pending r) = Inr ([], pending r)"
      using window_read(1) [OF 1(2)] by (simp add: parse_stream.simps [of "pending r"])
    then show ?thesis using True stay by (subst ra_messages.simps) simp
  next
    case False
    then obtain n where n: "read_uint32_be (pending r) 0 = Some n" "read_uint32_be (ra_buffer r) (ra_start r) = Some n"
      using window_read(2) [OF 1(2)] by auto
    consider "n > max_app_message_length" | "n \<le> max_app_message_length" "ra_queued r < app_length_prefix_size + n"
      | "n \<le> max_app_message_length" "app_length_prefix_size + n \<le> ra_queued r" by linarith
    then show ?thesis
    proof cases
      case 1
      then have "parse_stream (pending r) = Inl ''application message exceeds the 1 MiB cap''"
        using n by (simp add: parse_stream.simps [of "pending r"])
      then show ?thesis using False n 1 by (subst ra_messages.simps) simp
    next
      case 2
      then have "parse_stream (pending r) = Inr ([], pending r)"
        using n len by (simp add: parse_stream.simps [of "pending r"])
      then show ?thesis using False n 2 stay by (subst ra_messages.simps) simp
    next
      case 3
      let ?r = "r\<lparr>ra_start := ra_start r + (app_length_prefix_size + n)\<rparr>"
      note adv = window_advanced [OF \<open>windowed r\<close> 3(2)]
      have fail: "ra_fail ?r = ra_fail r" by (simp add: ra_fail_def)
      have shape: "ra_messages r acc = ra_messages ?r (acc @ [take n (drop app_length_prefix_size (pending r))])"
        using False n 3 adv(3) [of app_length_prefix_size]
        by (subst ra_messages.simps) (simp add: Let_def add.assoc)
      have "ra_messages ?r (acc @ [take n (drop app_length_prefix_size (pending r))]) =
          (case parse_stream (pending ?r) of
             Inl e \<Rightarrow> (ra_fail ?r, Inl e)
           | Inr (ms, rest) \<Rightarrow> (?r\<lparr>ra_start := ra_end ?r - length rest\<rparr>,
               Inr ((acc @ [take n (drop app_length_prefix_size (pending r))]) @ ms)))"
        using "1.IH" [OF False n(2) _ _ refl, unfolded add.assoc adv(3) add_diff_cancel_left'] 3 adv(1) by simp
      moreover have "parse_stream (pending r) = (case parse_stream (pending ?r) of
            Inl e \<Rightarrow> Inl e | Inr (ms, rest) \<Rightarrow> Inr (take n (drop app_length_prefix_size (pending r)) # ms, rest))"
        using n 3 len adv(2) by (simp add: parse_stream.simps [of "pending r"])
      ultimately show ?thesis unfolding shape fail by (auto split: sum.splits)
    qed
  qed
qed

lemma push_refines:
  assumes ok: "reassembler_ok r" and body: "length body \<le> max_stream_body_length"
  shows "case parse_stream (pending r @ body) of
       Inl e \<Rightarrow> \<exists>r'. ra_push body r = (r', Inl e) \<and> ra_failed r' \<and> ra_buffer r' = []
     | Inr (ms, rest) \<Rightarrow> \<exists>r'. ra_push body r = (r', Inr ms) \<and> reassembler_ok r' \<and> pending r' = rest"
proof -
  have win: "windowed r" and live: "\<not> ra_failed r" and inc: "incomplete (pending r)"
    using ok by (auto simp: reassembler_ok_def)
  let ?r = "if body \<noteq> [] then ra_append body r else r"
  have fits: "length (pending r) + length body \<le> max_buffer_capacity"
    using incomplete_length [OF inc] body by (simp add: max_buffer_capacity_def)
  have r: "windowed ?r" "pending ?r = pending r @ body" "\<not> ra_failed ?r"
    using appended [OF win fits] win live by auto
  note msgs = messages_spec [OF r(1), of "[]", unfolded r(2)]
  have start: "ra_push body r = (case ra_messages ?r [] of
             (r', Inl e) \<Rightarrow> (r', Inl e)
           | (r', Inr messages) \<Rightarrow> (if ra_start r' = ra_end r' then ra_drain r' else r', Inr messages))"
    using live body by (simp add: ra_push_def)
  show ?thesis
  proof (cases "parse_stream (pending r @ body)")
    case (Inl e)
    then show ?thesis using msgs by (simp add: start ra_fail_def)
  next
    case (Inr p)
    then obtain ms rest where p: "parse_stream (pending r @ body) = Inr (ms, rest)" by (cases p) auto
    let ?e = "?r\<lparr>ra_start := ra_end ?r - length rest\<rparr>"
    obtain q where q: "pending ?r = q @ rest" and inc': "incomplete rest" using parse_rest [OF p] r(2) by auto
    have queued: "ra_queued ?r = length q + length rest" using length_pending [OF r(1)] q by simp
    then have "ra_end ?r - length rest = ra_start ?r + length q" using r(1) by (auto simp: ra_queued_def windowed_def)
    then have e: "windowed ?e" "pending ?e = rest" using window_advanced(1,2) [OF r(1), of "length q"] queued q by auto
    show ?thesis
    proof (cases "ra_start ?e = ra_end ?e")
      case True
      then have "rest = []" using e(2) by (simp add: pending_def sub_bytes_def)
      then show ?thesis using p msgs True e r(3) incomplete_nil
        by (auto simp: start ra_drain_def reassembler_ok_def windowed_def pending_def sub_bytes_def)
    next
      case False
      then show ?thesis using p msgs e r(3) inc' by (simp add: start reassembler_ok_def)
    qed
  qed
qed

section \<open>A receiver of a byte stream\<close>

text \<open>What a client needs of a receiver: a push of one body computes the parse of what is pending with
  the body behind it. The client's lemma is about any sequence of bodies.\<close>

fun pushes :: "(bytes \<Rightarrow> 's \<Rightarrow> 's \<times> ('e + 'm list)) \<Rightarrow> bytes list \<Rightarrow> 's \<Rightarrow> 's \<times> ('e + 'm list)" where
  "pushes push [] s = (s, Inr [])"
| "pushes push (b # bs) s =
     (case push b s of
        (s', Inl e) \<Rightarrow> (s', Inl e)
      | (s', Inr ms) \<Rightarrow> (case pushes push bs s' of (s'', Inl e) \<Rightarrow> (s'', Inl e) | (s'', Inr ms') \<Rightarrow> (s'', Inr (ms @ ms'))))"

locale stream_receiver =
  fixes push :: "bytes \<Rightarrow> 's \<Rightarrow> 's \<times> ('e + 'm list)"
    and good :: "'s \<Rightarrow> bool" and held :: "'s \<Rightarrow> bytes" and limit :: nat
    and parse :: "bytes \<Rightarrow> 'e + 'm list \<times> bytes"
  assumes parse_more: "parse q = Inr (ms, rest) \<Longrightarrow>
      parse (q @ b) = (case parse (rest @ b) of Inl e \<Rightarrow> Inl e | Inr (ms', rest') \<Rightarrow> Inr (ms @ ms', rest'))"
    and parse_stuck: "parse q = Inl e \<Longrightarrow> parse (q @ b) = Inl e"
    and held_incomplete: "good s \<Longrightarrow> parse (held s) = Inr ([], held s)"
    and push_parses: "good s \<Longrightarrow> length b \<le> limit \<Longrightarrow> parse (held s @ b) = Inr (ms, rest) \<Longrightarrow>
      \<exists>s'. push b s = (s', Inr ms) \<and> good s' \<and> held s' = rest"
    and push_fails: "good s \<Longrightarrow> length b \<le> limit \<Longrightarrow> parse (held s @ b) = Inl e \<Longrightarrow> \<exists>s'. push b s = (s', Inl e)"
begin

lemma pushes_parse:
  assumes "good s" and "list_all (\<lambda>b. length b \<le> limit) bs"
  shows "case parse (held s @ concat bs) of
      Inl e \<Rightarrow> \<exists>s'. pushes push bs s = (s', Inl e)
    | Inr (ms, rest) \<Rightarrow> \<exists>s'. pushes push bs s = (s', Inr ms) \<and> good s' \<and> held s' = rest"
  using assms
proof (induction bs arbitrary: s)
  case Nil
  then show ?case using held_incomplete by simp
next
  case (Cons b bs)
  show ?case
  proof (cases "parse (held s @ b)")
    case (Inl e)
    then show ?thesis using push_fails [OF _ _ Inl] Cons.prems parse_stuck [OF Inl, of "concat bs"] by fastforce
  next
    case (Inr p)
    then obtain ms rest where p: "parse (held s @ b) = Inr (ms, rest)" by (cases p) auto
    obtain s' where s': "push b s = (s', Inr ms)" "good s'" "held s' = rest"
      using push_parses [OF _ _ p] Cons.prems by auto
    show ?thesis using Cons.IH [OF s'(2)] Cons.prems parse_more [OF p, of "concat bs"] s'
      by (fastforce split: sum.splits)
  qed
qed

end

interpretation reassembly: stream_receiver ra_push reassembler_ok pending max_stream_body_length parse_stream
proof
  show "parse_stream (q @ b) = (case parse_stream (rest @ b) of Inl e \<Rightarrow> Inl e | Inr (ms', rest') \<Rightarrow> Inr (ms @ ms', rest'))"
    if "parse_stream q = Inr (ms, rest)" for q ms rest b
    using that by (rule parse_append)
  show "parse_stream (q @ b) = Inl e" if "parse_stream q = Inl e" for q e b
    using that by (rule parse_stuck)
  show "parse_stream (pending s) = Inr ([], pending s)" if "reassembler_ok s" for s
    using that by (simp add: reassembler_ok_def incomplete_def)
  show "\<exists>s'. ra_push b s = (s', Inr ms) \<and> reassembler_ok s' \<and> pending s' = rest"
    if "reassembler_ok s" "length b \<le> max_stream_body_length" "parse_stream (pending s @ b) = Inr (ms, rest)" for s b ms rest
    using push_refines [OF that(1,2)] that(3) by simp
  show "\<exists>s'. ra_push b s = (s', Inl e)"
    if "reassembler_ok s" "length b \<le> max_stream_body_length" "parse_stream (pending s @ b) = Inl e" for s b e
    using push_refines [OF that(1,2)] that(3) by auto
qed

lemma new_reassembler_ok [simp]: "reassembler_ok new_reassembler" "pending new_reassembler = []"
  using incomplete_nil
  by (simp_all add: reassembler_ok_def new_reassembler_def windowed_def pending_def sub_bytes_def)

section \<open>Delivery over a pair of sessions\<close>

abbreviation bump :: "nat \<Rightarrow> cipher \<Rightarrow> cipher" where
  "bump k cs \<equiv> cs\<lparr>cs_n := cs_n cs + k\<rparr>"

definition ts_box :: "'k noise_crypto \<Rightarrow> cipher \<Rightarrow> bytes \<Rightarrow> bytes" where
  "ts_box c cs p = nc_seal c (known (cs_key cs)) (cipher_nonce (cs_n cs)) [] p"

lemma sealed_opens:
  assumes "sound_crypto c" and "cs_key cs \<noteq> None" and "cs_n cs < reserved_nonce"
    and "length p + noise_tag_length \<le> noise_max_message_length"
  shows "encrypt_with_ad c [] p cs = (bump 1 cs, Inr (ts_box c cs p))"
    and "decrypt_with_ad c [] (ts_box c cs p) cs = (bump 1 cs, Inr p)"
  using assms
  by (auto simp: encrypt_with_ad_def decrypt_with_ad_def method_defs require_max_message_length_def
      noise_nonce_bytes_def sound_crypto_def known_def cipher_nonce_def ts_box_def)

fun receive_all :: "'k noise_crypto \<Rightarrow> 'v json_codec \<Rightarrow> bytes list \<Rightarrow> (transport_session, 'v transport_receipt list) throwing" where
  "receive_all c j [] = m_return []"
| "receive_all c j (x # xs) = m_bind (receive c j x) (\<lambda>r. m_bind (receive_all c j xs) (\<lambda>rs. m_return (r # rs)))"

definition app_messages :: "'v transport_receipt list \<Rightarrow> bytes list" where
  "app_messages receipts = concat (map (\<lambda>r. case r of GotApp ms \<Rightarrow> ms | _ \<Rightarrow> []) receipts)"

lemma body_delivered:
  assumes c: "sound_crypto c" and key: "cs_key (ts_send s) \<noteq> None" "cs_n (ts_send s) < reserved_nonce"
    and same: "ts_receive t = ts_send s" and live: "ts_poison t = None"
    and body: "length b \<le> max_stream_body_length" and push: "ra_push b (ts_reassembler t) = (ra, Inr ms)"
  shows "ts_encrypt c j (PlainStream b) s = (s\<lparr>ts_send := bump 1 (ts_send s)\<rparr>, Inr (ts_box c (ts_send s) (transport_kind_stream # b)))"
    and "receive c j (ts_box c (ts_send s) (transport_kind_stream # b)) t =
      (t\<lparr>ts_receive := bump 1 (ts_send s), ts_reassembler := ra\<rparr>, Inr (GotApp ms))"
proof -
  have "length (transport_kind_stream # b) + noise_tag_length \<le> noise_max_message_length"
    using body by (simp add: framing_sizes)
  note box = sealed_opens [OF c key this]
  show "ts_encrypt c j (PlainStream b) s = (s\<lparr>ts_send := bump 1 (ts_send s)\<rparr>, Inr (ts_box c (ts_send s) (transport_kind_stream # b)))"
    using box(1) body by (simp add: ts_encrypt_def encode_transport_plaintext_def concat_bytes_def method_defs ts_seal_def)
  have "transport_kind_stream \<noteq> transport_kind_keepalive" by (simp add: transport_kind_stream_def transport_kind_keepalive_def)
  then show "receive c j (ts_box c (ts_send s) (transport_kind_stream # b)) t =
      (t\<lparr>ts_receive := bump 1 (ts_send s), ts_reassembler := ra\<rparr>, Inr (GotApp ms))"
    using box(2) body push live same
    by (simp add: receive_def guarded_def require_live_def method_defs ts_open_def decode_transport_plaintext_def)
qed

lemma bodies_delivered:
  assumes "sound_crypto c" and "cs_key (ts_send s) \<noteq> None" and "cs_n (ts_send s) + length bs \<le> reserved_nonce"
    and "ts_receive t = ts_send s" and "ts_poison t = None"
    and "list_all (\<lambda>b. length b \<le> max_stream_body_length) bs" and "pushes ra_push bs (ts_reassembler t) = (ra, Inr ms)"
  shows "\<exists>cts receipts. ts_encrypt_all c j bs s = (s\<lparr>ts_send := bump (length bs) (ts_send s)\<rparr>, Inr cts) \<and>
    receive_all c j cts t = (t\<lparr>ts_receive := bump (length bs) (ts_send s), ts_reassembler := ra\<rparr>, Inr receipts) \<and>
    app_messages receipts = ms"
  using assms
proof (induction bs arbitrary: s t ms)
  case Nil
  then show ?case by (auto simp: method_defs app_messages_def)
next
  case (Cons b bs)
  obtain ra1 ms1 ms2 where push: "ra_push b (ts_reassembler t) = (ra1, Inr ms1)"
    "pushes ra_push bs ra1 = (ra, Inr ms2)" "ms = ms1 @ ms2"
    using Cons.prems by (auto split: prod.splits sum.splits)
  have first: "cs_n (ts_send s) < reserved_nonce" "length b \<le> max_stream_body_length" using Cons.prems by auto
  note one = body_delivered [OF Cons.prems(1,2) first(1) Cons.prems(4,5) first(2) push(1), of j]
  let ?s = "s\<lparr>ts_send := bump 1 (ts_send s)\<rparr>"
  let ?t = "t\<lparr>ts_receive := bump 1 (ts_send s), ts_reassembler := ra1\<rparr>"
  obtain cts receipts where rest: "ts_encrypt_all c j bs ?s = (?s\<lparr>ts_send := bump (length bs) (ts_send ?s)\<rparr>, Inr cts)"
    "receive_all c j cts ?t = (?t\<lparr>ts_receive := bump (length bs) (ts_send ?s), ts_reassembler := ra\<rparr>, Inr receipts)"
    "app_messages receipts = ms2"
    using Cons.IH [of ?s ?t ms2] Cons.prems push by auto
  show ?case
    by (rule exI [of _ "ts_box c (ts_send s) (transport_kind_stream # b) # cts"], rule exI [of _ "GotApp ms1 # receipts"])
      (use one rest push(3) in \<open>simp add: method_defs app_messages_def\<close>)
qed

text \<open>A pair that can carry messages one way, and what carries several of them.\<close>

definition joined :: "transport_session \<Rightarrow> transport_session \<Rightarrow> bool" where
  "joined s t \<longleftrightarrow> ts_poison s = None \<and> ts_poison t = None \<and> cs_key (ts_send s) \<noteq> None \<and>
     ts_receive t = ts_send s \<and> reassembler_ok (ts_reassembler t) \<and> pending (ts_reassembler t) = []"

fun send_all :: "'k noise_crypto \<Rightarrow> 'v json_codec \<Rightarrow> bytes list \<Rightarrow> (transport_session, bytes list) throwing" where
  "send_all c j [] = m_return []"
| "send_all c j (m # ms) = m_bind (send_app c j m) (\<lambda>xs. m_bind (send_all c j ms) (\<lambda>ys. m_return (xs @ ys)))"

lemma receive_all_append:
  "receive_all c j xs t = (t1, Inr rs) \<Longrightarrow> receive_all c j ys t1 = (t2, Inr rs') \<Longrightarrow>
   receive_all c j (xs @ ys) t = (t2, Inr (rs @ rs'))"
  by (induction xs arbitrary: t rs) (auto simp: method_defs split: prod.splits sum.splits)

lemma app_messages_append: "app_messages (rs @ rs') = app_messages rs @ app_messages rs'"
  by (simp add: app_messages_def)

lemma chunks_per_message: "length m \<le> max_app_message_length \<Longrightarrow> length (chunk_bodies (framed m)) \<le> 17"
  using chunk_count [of "framed m"] by (simp add: framed_def framing_sizes)

lemma message_delivered:
  assumes c: "sound_crypto c" and j: "joined s t" and m: "length m \<le> max_app_message_length"
    and room: "cs_n (ts_send s) + 17 \<le> reserved_nonce"
  shows "\<exists>s' t' cts receipts. send_app c j' m s = (s', Inr cts) \<and> receive_all c j' cts t = (t', Inr receipts) \<and>
    app_messages receipts = [m] \<and> joined s' t' \<and> cs_n (ts_send s') \<le> cs_n (ts_send s) + 17"
proof -
  let ?bs = "chunk_bodies (framed m)"
  have n: "length ?bs \<le> 17" by (rule chunks_per_message [OF m])
  have sizes: "list_all (\<lambda>b. length b \<le> max_stream_body_length) ?bs" and all: "concat ?bs = framed m"
    using chunks_of [of "framed m"] by (auto simp: list_all_iff)
  have "parse_stream (pending (ts_reassembler t) @ concat ?bs) = Inr ([m], [])"
    using j m parse_frames [of "[m]"] all by (simp add: joined_def)
  then obtain ra where ra: "pushes ra_push ?bs (ts_reassembler t) = (ra, Inr [m])" "reassembler_ok ra" "pending ra = []"
    using reassembly.pushes_parse [OF _ sizes, of "ts_reassembler t"] j by (auto simp: joined_def)
  obtain cts receipts where
    run: "ts_encrypt_all c j' ?bs s = (s\<lparr>ts_send := bump (length ?bs) (ts_send s)\<rparr>, Inr cts)"
      "receive_all c j' cts t = (t\<lparr>ts_receive := bump (length ?bs) (ts_send s), ts_reassembler := ra\<rparr>, Inr receipts)"
      "app_messages receipts = [m]"
    using bodies_delivered [OF c _ _ _ _ sizes ra(1), of s j'] j room n by (auto simp: joined_def)
  have "send_app c j' m s = (s\<lparr>ts_send := bump (length ?bs) (ts_send s)\<rparr>, Inr cts)"
    using j m run(1)
    by (simp add: send_app_def method_defs require_live_def chunk_app_message_def guarded_def joined_def framed_def)
  then show ?thesis using run(2,3) n ra(2,3) j
    by (auto simp: joined_def intro!: exI [of _ cts] exI [of _ receipts])
qed

lemma messages_delivered:
  assumes "sound_crypto c" and "joined s t" and "list_all (\<lambda>m. length m \<le> max_app_message_length) ms"
    and "cs_n (ts_send s) + 17 * length ms \<le> reserved_nonce"
  shows "\<exists>s' t' cts receipts. send_all c j ms s = (s', Inr cts) \<and> receive_all c j cts t = (t', Inr receipts) \<and>
    app_messages receipts = ms \<and> joined s' t'"
  using assms
proof (induction ms arbitrary: s t)
  case Nil
  then show ?case by (auto simp: method_defs app_messages_def)
next
  case (Cons m ms)
  obtain s1 t1 cts1 rs1 where one: "send_app c j m s = (s1, Inr cts1)" "receive_all c j cts1 t = (t1, Inr rs1)"
    "app_messages rs1 = [m]" "joined s1 t1" "cs_n (ts_send s1) \<le> cs_n (ts_send s) + 17"
    using message_delivered [of c s t m j] Cons.prems by auto
  obtain s2 t2 cts2 rs2 where rest: "send_all c j ms s1 = (s2, Inr cts2)" "receive_all c j cts2 t1 = (t2, Inr rs2)"
    "app_messages rs2 = ms" "joined s2 t2"
    using Cons.IH [of s1 t1] Cons.prems one(4,5) by auto
  show ?case
    using one rest receive_all_append [OF one(2) rest(2)]
    by (intro exI [of _ s2] exI [of _ t2] exI [of _ "cts1 @ cts2"] exI [of _ "rs1 @ rs2"])
      (simp add: method_defs app_messages_append)
qed

text \<open>Both directions of an established pair of sessions are joined.\<close>

lemma paired_joined:
  "paired a b \<Longrightarrow> joined (new_transport_session a) (new_transport_session b) \<and>
     joined (new_transport_session b) (new_transport_session a) \<and>
     cs_n (ts_send (new_transport_session a)) = 0 \<and> cs_n (ts_send (new_transport_session b)) = 0"
  by (auto simp: paired_def joined_def new_transport_session_def)

section \<open>Every session stays inside its memory bound\<close>

inductive session_step :: "'k noise_crypto \<Rightarrow> 'v json_codec \<Rightarrow> transport_session \<Rightarrow> transport_session \<Rightarrow> bool"
  for c :: "'k noise_crypto" and j :: "'v json_codec" where
  keepalive_sent: "session_step c j s (fst (send_keepalive c j s))"
| control_sent: "session_step c j s (fst (send_control c j v s))"
| app_sent: "session_step c j s (fst (send_app c j m s))"
| received: "session_step c j s (fst (receive c j x s))"

inductive_cases session_stepE: "session_step c j s s'"

definition reassembler_safe :: "reassembler \<Rightarrow> bool" where
  "reassembler_safe r \<longleftrightarrow> reassembler_ok r \<or> (ra_failed r \<and> ra_buffer r = [])"

definition session_safe :: "transport_session \<Rightarrow> bool" where
  "session_safe s \<longleftrightarrow> reassembler_safe (ts_reassembler s) \<and> (ts_poison s = None \<longrightarrow> reassembler_ok (ts_reassembler s))"

lemma safe_bounded: "reassembler_safe r \<Longrightarrow> length (ra_buffer r) \<le> max_buffer_capacity"
  by (auto simp: reassembler_safe_def reassembler_ok_def windowed_def)

lemma sends_keep_reassembler:
  "ts_reassembler (fst (ts_seal c p s)) = ts_reassembler s"
  "ts_reassembler (fst (ts_encrypt c j f s)) = ts_reassembler s"
  "ts_poison (fst (ts_seal c p s)) = ts_poison s"
  "ts_poison (fst (ts_encrypt c j f s)) = ts_poison s"
  by (auto simp: ts_encrypt_def ts_seal_def method_defs split: prod.splits sum.splits)

lemma bodies_keep_reassembler:
  "ts_reassembler (fst (ts_encrypt_all c j bs s)) = ts_reassembler s \<and> ts_poison (fst (ts_encrypt_all c j bs s)) = ts_poison s"
proof (induction bs arbitrary: s)
  case (Cons b bs)
  then show ?case using sends_keep_reassembler(2,4) [of c j "PlainStream b" s]
    by (auto simp: method_defs split: prod.splits sum.splits) (metis fst_conv)+
qed (simp add: method_defs)

lemma guarded_safe:
  assumes "session_safe s"
    and "\<And>s' r. run s = (s', r) \<Longrightarrow> reassembler_safe (ts_reassembler s') \<and> ts_poison s' = ts_poison s \<and>
      ((\<exists>a. r = Inr a) \<longrightarrow> reassembler_ok (ts_reassembler s) \<longrightarrow> reassembler_ok (ts_reassembler s'))"
  shows "session_safe (fst (guarded run s))"
  using assms by (auto simp: guarded_def require_live_def method_defs session_safe_def split: option.splits prod.splits sum.splits)

lemma push_safe:
  assumes "reassembler_ok r" and "ra_push b r = (r', res)"
  shows "reassembler_safe r'" and "res = Inr ms \<Longrightarrow> reassembler_ok r'"
proof -
  have "(\<exists>e. res = Inl e) \<and> ra_failed r' \<and> ra_buffer r' = [] \<or> (\<exists>ms. res = Inr ms) \<and> reassembler_ok r'"
  proof (cases "length b \<le> max_stream_body_length")
    case True
    show ?thesis using push_refines [OF assms(1) True] assms(2)
      by (auto split: sum.splits prod.splits)
  next
    case False
    then show ?thesis using assms by (auto simp: ra_push_def reassembler_ok_def ra_fail_def)
  qed
  then show "reassembler_safe r'" and "res = Inr ms \<Longrightarrow> reassembler_ok r'"
    by (auto simp: reassembler_safe_def)
qed

lemma step_safe: "session_step c j s s' \<Longrightarrow> session_safe s \<Longrightarrow> session_safe s'"
proof (induction rule: session_step.induct)
  case (keepalive_sent s)
  show ?case unfolding send_keepalive_def
    using keepalive_sent sends_keep_reassembler(2,4) [of c j PlainKeepalive s]
    by (intro guarded_safe) (auto simp: session_safe_def)
next
  case (control_sent s v)
  have "session_safe (fst (guarded (ts_seal c p) s))" for p
    using control_sent sends_keep_reassembler(1,3) [of c p s] by (intro guarded_safe) (auto simp: session_safe_def)
  then show ?case using control_sent
    by (auto simp: send_control_def method_defs require_live_def split: option.splits sum.splits)
next
  case (app_sent s m)
  have "session_safe (fst (guarded (ts_encrypt_all c j bs) s))" for bs
    using app_sent bodies_keep_reassembler [of c j bs s] by (intro guarded_safe) (auto simp: session_safe_def)
  then show ?case using app_sent
    by (auto simp: send_app_def method_defs require_live_def split: option.splits sum.splits)
next
  case (received s x)
  show ?case
  proof (cases "ts_poison s")
    case (Some why)
    then show ?thesis using received by (simp add: receive_def guarded_def require_live_def method_defs)
  next
    case None
    then have ok: "reassembler_ok (ts_reassembler s)" using received by (simp add: session_safe_def)
    show ?thesis unfolding receive_def
      using received push_safe [OF ok]
      by (intro guarded_safe)
        (auto simp: method_defs ts_open_def session_safe_def split: prod.splits sum.splits transport_plaintext.splits)
  qed
qed

lemma reachable_safe:
  "(session_step c j)\<^sup>*\<^sup>* (new_transport_session ns) s \<Longrightarrow> session_safe s"
proof (induction rule: rtranclp_induct)
  case base
  show ?case by (simp add: session_safe_def reassembler_safe_def new_transport_session_def)
qed (rule step_safe)

section \<open>Failures of a session\<close>

lemma poisoned_refuses:
  assumes "ts_poison s = Some why"
  shows "send_keepalive c j s = (s, Inl (''session is destroyed: '' @ why))"
    and "send_control c j v s = (s, Inl (''session is destroyed: '' @ why))"
    and "send_app c j m s = (s, Inl (''session is destroyed: '' @ why))"
    and "receive c j x s = (s, Inl (''session is destroyed: '' @ why))"
  using assms by (simp_all add: send_keepalive_def send_control_def send_app_def receive_def guarded_def
      require_live_def method_defs)

lemma poison_stays: "session_step c j s s' \<Longrightarrow> ts_poison s = Some why \<Longrightarrow> s' = s"
  by (erule session_stepE) (simp_all add: poisoned_refuses)

lemma failed_receive_poisons:
  "ts_poison s = None \<Longrightarrow> receive c j x s = (s', Inl e) \<Longrightarrow> ts_poison s' = Some e"
  by (auto simp: receive_def guarded_def require_live_def method_defs split: prod.splits sum.splits)

section \<open>Plaintexts\<close>

definition codec_ok :: "'v json_codec \<Rightarrow> bool" where
  "codec_ok j \<longleftrightarrow> (\<forall>v. jc_parse j (jc_stringify j v) = Some v \<and> well_formed (jc_stringify j v) \<and>
     (\<exists>s. jc_stringify j v = s @ [125]))"

lemma scalars_snoc: "\<not> is_low c \<Longrightarrow> scalars (s @ [c]) = scalars s @ [scalar_of_unit c]"
  by (induction s rule: scalars.induct) auto

lemma object_bytes: "\<exists>bs. utf8_encode (s @ [125]) = bs @ [125]"
  by (simp add: utf8_encode_def scalars_snoc is_low_def scalar_of_unit_def is_high_def utf8_scalar_def byte_def)

lemma plaintext_round_trip:
  assumes j: "codec_ok j" and enc: "encode_transport_plaintext j frame = Inr bs"
  shows "decode_transport_plaintext j bs = Inr frame"
proof (cases frame)
  case PlainKeepalive
  then show ?thesis using enc
    by (auto simp: encode_transport_plaintext_def decode_transport_plaintext_def concat_bytes_def list_ex_iff)
next
  case (PlainStream body)
  then show ?thesis using enc
    by (auto simp: encode_transport_plaintext_def decode_transport_plaintext_def concat_bytes_def
        transport_kind_stream_def transport_kind_keepalive_def split: if_splits)
next
  case (PlainControl v)
  let ?json = "utf8_encode (jc_stringify j v)"
  have bs: "bs = transport_kind_control # ?json @ replicate (control_payload_size - length ?json) 0"
    and small: "length ?json \<le> control_payload_size"
    using enc PlainControl
    by (auto simp: encode_transport_plaintext_def encode_control_body_def concat_bytes_def Let_def split: if_splits)
  obtain s where s: "jc_stringify j v = s @ [125]" using j by (auto simp: codec_ok_def)
  obtain js where js: "?json = js @ [125]" using object_bytes [of s] s by auto
  have strip: "rev (dropWhile (\<lambda>b. b = 0) (rev (?json @ replicate n 0))) = ?json" for n
  proof -
    have "dropWhile (\<lambda>b. b = (0 :: 8 word)) (replicate n 0 @ 125 # rev js) = 125 # rev js" by (induction n) auto
    then show ?thesis by (simp add: js)
  qed
  have "utf8_decode ?json = Some (jc_stringify j v)" using j utf8_round_trip by (auto simp: codec_ok_def)
  then have "decode_control_body j (?json @ replicate (control_payload_size - length ?json) 0) = Inr v"
    using j small unfolding decode_control_body_def strip by (simp add: codec_ok_def)
  then show ?thesis
    by (simp add: bs PlainControl decode_transport_plaintext_def transport_kind_control_def transport_kind_stream_def
        transport_kind_keepalive_def)
qed

section \<open>Prologues\<close>

lemma prologue_inj:
  assumes "list_all (\<lambda>s. well_formed s \<and> length (utf8_encode s) < 2 ^ 32) (kind # burrow # extra)"
    and "list_all (\<lambda>s. well_formed s \<and> length (utf8_encode s) < 2 ^ 32) (kind' # burrow' # extra')"
    and "e2e_prologue kind burrow extra = e2e_prologue kind' burrow' extra'"
  shows "kind = kind' \<and> burrow = burrow' \<and> extra = extra'"
proof -
  have inj: "map utf8_encode xs = map utf8_encode ys \<Longrightarrow> list_all well_formed xs \<Longrightarrow> list_all well_formed ys \<Longrightarrow> xs = ys" for xs ys
    by (induction xs ys rule: list_induct2') (auto dest: utf8_encode_inj)
  have dom: "length (utf8_encode e2e_prologue_domain) < 2 ^ 32"
    by (subst utf8_ascii) (simp_all add: e2e_prologue_domain_def js_def)
  have "map utf8_encode ([e2e_prologue_domain, kind, burrow] @ extra) = map utf8_encode ([e2e_prologue_domain, kind', burrow'] @ extra')"
    using assms dom by (intro length_prefixed_inj) (auto simp: e2e_prologue_def list_all_iff)
  then have "map utf8_encode (kind # burrow # extra) = map utf8_encode (kind' # burrow' # extra')" by simp
  from inj [OF this] show ?thesis using assms(1,2) by (auto simp: list_all_iff)
qed

end
