(* ===== verification/Sec_Guards.thy ===== *)
theory Sec_Guards
  imports Sec_Noise "HOL-Library.AList"
begin

text \<open>
  Three stateful guards of the remote protocol: the token bucket (\<open>token-bucket.ts\<close>), the
  single-use challenges (\<open>challenge.ts\<close>) and the access list of a Burrow (\<open>acl.ts\<close>), all in
  \<open>remote-lib-common/src/security/\<close>. A clock is read once per call; the reading is an argument. Times are
  integers of milliseconds, as the callers supply them.
\<close>

section \<open>The token bucket\<close>

record bucket =
  tb_capacity :: int
  tb_interval :: int
  tb_tokens :: int
  tb_last :: int

definition max_safe_integer :: int where
  "max_safe_integer = 2 ^ 53 - 1"

definition new_bucket :: "int \<Rightarrow> int \<Rightarrow> int \<Rightarrow> string + bucket" where
  "new_bucket capacity interval now =
     (if \<not> (1 \<le> capacity \<and> capacity \<le> max_safe_integer)
      then Inl ''token bucket capacity must be a positive safe integer''
      else if \<not> (1 \<le> interval \<and> interval \<le> max_safe_integer)
      then Inl ''token bucket refill interval must be a positive safe integer''
      else Inr \<lparr>tb_capacity = capacity, tb_interval = interval, tb_tokens = capacity, tb_last = now\<rparr>)"

text \<open>\<open>None\<close> is the \<open>null\<close> of a spent token, \<open>Some w\<close> the wait until the next one.\<close>

definition bucket_take :: "int \<Rightarrow> bucket \<Rightarrow> bucket \<times> int option" where
  "bucket_take now b =
     (let elapsed = max 0 (now - tb_last b);
          refill = elapsed div tb_interval b;
          b1 = (if refill > 0
                then b\<lparr>tb_tokens := min (tb_capacity b) (tb_tokens b + refill),
                       tb_last := tb_last b + refill * tb_interval b\<rparr>
                else b)
      in if tb_tokens b1 > 0 then (b1\<lparr>tb_tokens := tb_tokens b1 - 1\<rparr>, None)
         else (b1, Some (max 1 (tb_interval b - elapsed))))"

section \<open>Challenges\<close>

definition challenge_byte_length :: nat where "challenge_byte_length = 32"
definition default_challenge_ttl_ms :: int where "default_challenge_ttl_ms = 2 * 60 * 1000"

text \<open>\<open>ci_pending\<close> is the map in insertion order: setting a key it has keeps the key's place.
  No \<open>ci_max_pending\<close> is no ceiling.\<close>

record challenge_issuer =
  ci_pending :: "(js_text \<times> int) list"
  ci_ttl :: int
  ci_max_pending :: "nat option"

record issued_challenge =
  ic_challenge :: js_text
  ic_issued_at :: int
  ic_expires_at :: int

definition new_issuer :: "int option \<Rightarrow> nat option \<Rightarrow> challenge_issuer" where
  "new_issuer ttl limit =
     \<lparr>ci_pending = [], ci_ttl = (case ttl of None \<Rightarrow> default_challenge_ttl_ms | Some t \<Rightarrow> t),
      ci_max_pending = limit\<rparr>"

fun sweep_expired_prefix :: "int \<Rightarrow> (js_text \<times> int) list \<Rightarrow> (js_text \<times> int) list" where
  "sweep_expired_prefix now [] = []"
| "sweep_expired_prefix now ((handle, expires) # rest) =
     (if now < expires then (handle, expires) # rest else sweep_expired_prefix now rest)"

fun evict_oldest :: "nat \<Rightarrow> (js_text \<times> int) list \<Rightarrow> (js_text \<times> int) list" where
  "evict_oldest limit [] = []"
| "evict_oldest limit (entry # rest) =
     (if limit \<le> length (entry # rest) then evict_oldest limit rest else entry # rest)"

text \<open>The three readings of the clock are those of the sweep, of the issue and of \<open>consume\<close>.\<close>

definition issue_challenge :: "int \<Rightarrow> int \<Rightarrow> bytes \<Rightarrow> challenge_issuer \<Rightarrow> challenge_issuer \<times> issued_challenge" where
  "issue_challenge swept_at issued_at random ci =
     (let swept = sweep_expired_prefix swept_at (ci_pending ci);
          kept = (case ci_max_pending ci of None \<Rightarrow> swept | Some limit \<Rightarrow> evict_oldest limit swept);
          handle = to_base64_url random;
          expires = issued_at + ci_ttl ci
      in (ci\<lparr>ci_pending := AList.update handle expires kept\<rparr>,
          \<lparr>ic_challenge = handle, ic_issued_at = issued_at, ic_expires_at = expires\<rparr>))"

definition consume_challenge :: "int \<Rightarrow> js_text \<Rightarrow> challenge_issuer \<Rightarrow> challenge_issuer \<times> bool" where
  "consume_challenge now handle ci =
     (case map_of (ci_pending ci) handle of
        None \<Rightarrow> (ci, False)
      | Some expires \<Rightarrow> (ci\<lparr>ci_pending := AList.delete handle (ci_pending ci)\<rparr>, now < expires))"

definition pending_count :: "challenge_issuer \<Rightarrow> nat" where
  "pending_count ci = length (ci_pending ci)"

section \<open>The access list\<close>

record approved_client =
  ac_account :: js_text
  ac_credential :: js_text
  ac_key_hash :: js_text
  ac_static :: js_text
  ac_delivery :: js_text
  ac_approved_by :: js_text
  ac_label :: js_text

record acl_record =
  ar_client :: approved_client
  ar_burrow :: js_text
  ar_approved_at :: int
  ar_revoked_at :: "int option"

record burrow_acl =
  acl_burrow :: js_text
  acl_records :: "acl_record list"

definition client_static_public_key_length :: nat where
  "client_static_public_key_length = base64_url_length noise_key_length"
definition delivery_id_byte_length :: nat where "delivery_id_byte_length = 32"
definition delivery_id_length :: nat where "delivery_id_length = base64_url_length delivery_id_byte_length"

text \<open>What is left to check of a stored record once its fields have their types.\<close>

definition is_burrow_acl_record :: "acl_record \<Rightarrow> bool" where
  "is_burrow_acl_record r \<longleftrightarrow>
     is_exact_base64_url (ac_static (ar_client r)) client_static_public_key_length \<and>
     is_exact_base64_url (ac_delivery (ar_client r)) delivery_id_length"

definition new_acl :: "js_text \<Rightarrow> burrow_acl" where
  "new_acl burrow = \<lparr>acl_burrow = burrow, acl_records = []\<rparr>"

definition acl_from_records :: "js_text \<Rightarrow> acl_record list \<Rightarrow> js_text + burrow_acl" where
  "acl_from_records burrow records =
     (case List.find (\<lambda>r. ar_burrow r \<noteq> burrow) records of
        Some r \<Rightarrow> Inl (js ''ACL record for burrow '' @ ar_burrow r @ js '' cannot be loaded into '' @ burrow)
      | None \<Rightarrow> Inr \<lparr>acl_burrow = burrow, acl_records = records\<rparr>)"

definition ar_active :: "acl_record \<Rightarrow> bool" where
  "ar_active r \<longleftrightarrow> ar_revoked_at r = None"

definition active_for :: "js_text \<Rightarrow> js_text \<Rightarrow> acl_record \<Rightarrow> bool" where
  "active_for credential static r \<longleftrightarrow>
     ar_active r \<and> ac_credential (ar_client r) = credential \<and> ac_static (ar_client r) = static"

definition acl_find :: "js_text \<Rightarrow> js_text \<Rightarrow> burrow_acl \<Rightarrow> acl_record option" where
  "acl_find credential static acl = List.find (active_for credential static) (acl_records acl)"

text \<open>The found object is the stored one, so writing its \<open>revokedAt\<close> writes the first match.\<close>

fun update_first :: "('a \<Rightarrow> bool) \<Rightarrow> ('a \<Rightarrow> 'a) \<Rightarrow> 'a list \<Rightarrow> 'a list" where
  "update_first P f [] = []"
| "update_first P f (x # xs) = (if P x then f x # xs else x # update_first P f xs)"

definition acl_approve :: "int \<Rightarrow> approved_client \<Rightarrow> burrow_acl \<Rightarrow> burrow_acl \<times> acl_record" where
  "acl_approve now client acl =
     (let rs = update_first (active_for (ac_credential client) (ac_static client))
                 (\<lambda>r. r\<lparr>ar_revoked_at := Some now\<rparr>) (acl_records acl);
          fresh = \<lparr>ar_client = client, ar_burrow = acl_burrow acl, ar_approved_at = now, ar_revoked_at = None\<rparr>
      in (acl\<lparr>acl_records := rs @ [fresh]\<rparr>, fresh))"

definition active_records :: "burrow_acl \<Rightarrow> acl_record list" where
  "active_records acl = filter ar_active (acl_records acl)"

definition has_active_passkey :: "js_text \<Rightarrow> burrow_acl \<Rightarrow> bool" where
  "has_active_passkey credential acl \<longleftrightarrow>
     list_ex (\<lambda>r. ar_active r \<and> ac_credential (ar_client r) = credential) (acl_records acl)"

definition has_active_client :: "js_text \<Rightarrow> burrow_acl \<Rightarrow> bool" where
  "has_active_client static acl \<longleftrightarrow>
     list_ex (\<lambda>r. ar_active r \<and> ac_static (ar_client r) = static) (acl_records acl)"

datatype acl_miss = PasskeyNotPaired | ClientNotPaired | PairingMismatch

definition acl_authorize :: "js_text \<Rightarrow> js_text \<Rightarrow> burrow_acl \<Rightarrow> acl_miss list + acl_record" where
  "acl_authorize credential static acl =
     (case acl_find credential static acl of
        Some r \<Rightarrow> Inr r
      | None \<Rightarrow>
          let passkey = has_active_passkey credential acl;
              client = has_active_client static acl
          in Inl ((if \<not> passkey then [PasskeyNotPaired] else []) @
                  (if \<not> client then [ClientNotPaired] else []) @
                  (if passkey \<and> client then [PairingMismatch] else [])))"

definition revoke_matching :: "int \<Rightarrow> (acl_record \<Rightarrow> bool) \<Rightarrow> burrow_acl \<Rightarrow> burrow_acl \<times> nat" where
  "revoke_matching now matches acl =
     (let hit = (\<lambda>r. ar_active r \<and> matches r)
      in (acl\<lparr>acl_records := map (\<lambda>r. if hit r then r\<lparr>ar_revoked_at := Some now\<rparr> else r) (acl_records acl)\<rparr>,
          length (filter hit (acl_records acl))))"

definition revoke_client :: "int \<Rightarrow> js_text \<Rightarrow> burrow_acl \<Rightarrow> burrow_acl \<times> nat" where
  "revoke_client now static = revoke_matching now (\<lambda>r. ac_static (ar_client r) = static)"

definition revoke_passkey :: "int \<Rightarrow> js_text \<Rightarrow> burrow_acl \<Rightarrow> burrow_acl \<times> nat" where
  "revoke_passkey now credential = revoke_matching now (\<lambda>r. ac_credential (ar_client r) = credential)"

end
