(* ===== verification/Sec_Guards_Facts.thy ===== *)
theory Sec_Guards_Facts
  imports Sec_Guards
begin

text \<open>
  What the guards promise over any sequence of calls: a bucket never grants above its rate and
  its refusals name the exact wait; a challenge is redeemed at most once per issue and
  only before its expiry; a client is authorized exactly when the last event about its pair of
  identities is an approval.
\<close>

section \<open>The bucket's rate\<close>

definition bucket_ok :: "bucket \<Rightarrow> bool" where
  "bucket_ok b \<longleftrightarrow> 1 \<le> tb_interval b \<and> 0 \<le> tb_tokens b \<and> tb_tokens b \<le> tb_capacity b \<and> 1 \<le> tb_capacity b"

fun grants :: "int list \<Rightarrow> bucket \<Rightarrow> bucket \<times> nat" where
  "grants [] b = (b, 0)"
| "grants (t # ts) b =
     (let (b1, r) = bucket_take t b; (b2, n) = grants ts b1
      in (b2, (if r = None then 1 else 0) + n))"

lemma new_bucket_ok: "new_bucket capacity interval now = Inr b \<Longrightarrow>
   bucket_ok b \<and> tb_tokens b = capacity \<and> tb_last b = now \<and> tb_interval b = interval"
  by (auto simp: new_bucket_def bucket_ok_def split: if_splits)

lemma take_ok: "bucket_ok b \<Longrightarrow> bucket_ok (fst (bucket_take t b))"
  by (auto simp: bucket_take_def bucket_ok_def Let_def)

text \<open>\<open>allowance\<close> is what can still be granted up to a time: the tokens held and the whole intervals to come.\<close>

definition allowance :: "int \<Rightarrow> bucket \<Rightarrow> int" where
  "allowance until b = tb_tokens b + (until - tb_last b) div tb_interval b"

lemma take_allowance:
  assumes ok: "bucket_ok b" and t: "t \<le> until" and last: "tb_last b \<le> until"
  shows "allowance until (fst (bucket_take t b)) + (if snd (bucket_take t b) = None then 1 else 0) \<le> allowance until b"
    and "tb_last (fst (bucket_take t b)) \<le> until"
proof -
  let ?k = "max 0 (t - tb_last b) div tb_interval b"
  have i: "1 \<le> tb_interval b" using ok by (simp add: bucket_ok_def)
  have "?k * tb_interval b \<le> max 0 (t - tb_last b)"
    using i unfolding minus_mod_eq_div_mult [symmetric] by simp
  then have k: "?k * tb_interval b \<le> until - tb_last b" using t last by linarith
  have "(until - (tb_last b + ?k * tb_interval b)) div tb_interval b = (until - tb_last b) div tb_interval b - ?k"
    using i div_mult_self1 [of "tb_interval b" "until - tb_last b - ?k * tb_interval b" ?k] by (simp add: algebra_simps)
  then show "allowance until (fst (bucket_take t b)) + (if snd (bucket_take t b) = None then 1 else 0) \<le> allowance until b"
    by (auto simp: bucket_take_def allowance_def Let_def)
  show "tb_last (fst (bucket_take t b)) \<le> until"
    using k last by (auto simp: bucket_take_def Let_def)
qed

lemma grants_bounded:
  "bucket_ok b \<Longrightarrow> list_all (\<lambda>t. t \<le> until) ts \<Longrightarrow> tb_last b \<le> until \<Longrightarrow> int (snd (grants ts b)) \<le> allowance until b"
proof (induction ts arbitrary: b)
  case Nil
  then show ?case by (auto simp: allowance_def bucket_ok_def pos_imp_zdiv_nonneg_iff intro!: add_nonneg_nonneg)
next
  case (Cons t ts)
  have ok: "bucket_ok (fst (bucket_take t b))" using Cons.prems(1) by (rule take_ok)
  have t: "t \<le> until" using Cons.prems(2) by simp
  note a = take_allowance [OF Cons.prems(1) t Cons.prems(3)]
  have "int (snd (grants ts (fst (bucket_take t b)))) \<le> allowance until (fst (bucket_take t b))"
    using Cons.IH [OF ok _ a(2)] Cons.prems(2) by simp
  then show ?case using a(1) by (auto simp: case_prod_unfold Let_def split: if_splits)
qed

lemma refusal_exact:
  assumes ok: "bucket_ok b" and past: "tb_last b \<le> now" and refused: "bucket_take now b = (b', Some w)"
  shows "0 < w" and "now \<le> t \<Longrightarrow> snd (bucket_take t b') = None \<longleftrightarrow> now + w \<le> t"
proof -
  have i: "1 \<le> tb_interval b" using ok by (simp add: bucket_ok_def)
  have zero: "\<not> (now - tb_last b) div tb_interval b > 0" "tb_tokens b = 0" "b' = b" "w = max 1 (tb_interval b - (now - tb_last b))"
    using refused ok past by (auto simp: bucket_take_def bucket_ok_def Let_def split: if_splits)
  then have "now - tb_last b < tb_interval b" using i past
    by (metis diff_ge_0_iff_ge div_pos_pos_trivial pos_imp_zdiv_pos_iff zero_less_one less_le_trans not_less)
  then have w: "now + w = tb_last b + tb_interval b" "0 < w" using zero(4) by auto
  show "0 < w" by (rule w(2))
  show "snd (bucket_take t b') = None \<longleftrightarrow> now + w \<le> t" if "now \<le> t"
  proof -
    have "(t - tb_last b) div tb_interval b > 0 \<longleftrightarrow> tb_interval b \<le> t - tb_last b"
      using i by (simp add: pos_imp_zdiv_pos_iff)
    then show ?thesis using that past zero(2) w(1) ok unfolding zero(3)
      by (auto simp: bucket_take_def Let_def bucket_ok_def)
  qed
qed

section \<open>A challenge is redeemed at most once\<close>

datatype challenge_event =
  Issued int int bytes
| Consumed int js_text

fun challenge_step :: "challenge_event \<Rightarrow> challenge_issuer \<Rightarrow> challenge_issuer \<times> bool" where
  "challenge_step (Issued swept at_time random) ci = (fst (issue_challenge swept at_time random ci), False)"
| "challenge_step (Consumed now handle) ci = consume_challenge now handle ci"

fun challenge_run :: "challenge_event list \<Rightarrow> challenge_issuer \<Rightarrow> challenge_issuer" where
  "challenge_run [] ci = ci"
| "challenge_run (e # es) ci = challenge_run es (fst (challenge_step e ci))"

fun redeemed :: "js_text \<Rightarrow> challenge_event list \<Rightarrow> challenge_issuer \<Rightarrow> nat" where
  "redeemed handle [] ci = 0"
| "redeemed handle (e # es) ci =
     (if (\<exists>now. e = Consumed now handle) \<and> snd (challenge_step e ci) then 1 else 0) +
     redeemed handle es (fst (challenge_step e ci))"

definition issues_of :: "js_text \<Rightarrow> challenge_event list \<Rightarrow> nat" where
  "issues_of handle es = length (filter (\<lambda>e. case e of Issued _ _ random \<Rightarrow> to_base64_url random = handle | _ \<Rightarrow> False) es)"

lemma sweep_suffix: "\<exists>p. xs = p @ sweep_expired_prefix now xs"
  by (induction now xs rule: sweep_expired_prefix.induct) (auto simp: Cons_eq_append_conv)

lemma evict_suffix: "\<exists>p. xs = p @ evict_oldest limit xs"
  by (induction limit xs rule: evict_oldest.induct) (auto simp: Cons_eq_append_conv)

lemma evict_length: "length (evict_oldest limit xs) \<le> limit - 1 \<or> evict_oldest limit xs = []"
  by (induction limit xs rule: evict_oldest.induct) auto

definition kept_entries :: "int \<Rightarrow> challenge_issuer \<Rightarrow> (js_text \<times> int) list" where
  "kept_entries now ci = (case ci_max_pending ci of
     None \<Rightarrow> sweep_expired_prefix now (ci_pending ci)
   | Some limit \<Rightarrow> evict_oldest limit (sweep_expired_prefix now (ci_pending ci)))"

lemma kept_suffix: "\<exists>p. ci_pending ci = p @ kept_entries now ci"
  using sweep_suffix [of "ci_pending ci" now] evict_suffix [of "sweep_expired_prefix now (ci_pending ci)"]
  by (auto simp: kept_entries_def split: option.split) (metis append.assoc)

lemma issue_pending: "ci_pending (fst (issue_challenge swept at_time random ci)) =
    AList.update (to_base64_url random) (at_time + ci_ttl ci) (kept_entries swept ci)"
  by (simp add: issue_challenge_def kept_entries_def Let_def)

lemma kept_keys: "set (map fst (kept_entries now ci)) \<subseteq> set (map fst (ci_pending ci))"
  "distinct (map fst (ci_pending ci)) \<Longrightarrow> distinct (map fst (kept_entries now ci))"
  using kept_suffix [of ci now] by (metis map_append set_append Un_upper2, metis distinct_append map_append)

lemma step_distinct:
  "distinct (map fst (ci_pending ci)) \<Longrightarrow> distinct (map fst (ci_pending (fst (challenge_step e ci))))"
proof (cases e)
  case (Issued s t r)
  then show "distinct (map fst (ci_pending ci)) \<Longrightarrow> ?thesis"
    using kept_keys(2) by (simp add: issue_pending AList.distinct_update)
next
  case (Consumed now handle)
  then show "distinct (map fst (ci_pending ci)) \<Longrightarrow> ?thesis"
    by (auto simp: consume_challenge_def AList.distinct_delete split: option.split)
qed

lemma redeemed_le:
  "distinct (map fst (ci_pending ci)) \<Longrightarrow>
   redeemed handle es ci \<le> issues_of handle es + (if handle \<in> set (map fst (ci_pending ci)) then 1 else 0)"
proof (induction es arbitrary: ci)
  case (Cons e es)
  let ?ci = "fst (challenge_step e ci)"
  have ih: "redeemed handle es ?ci \<le> issues_of handle es + (if handle \<in> set (map fst (ci_pending ?ci)) then 1 else 0)"
    by (rule Cons.IH [OF step_distinct [OF Cons.prems]])
  show ?case
  proof (cases e)
    case (Issued s t r)
    have "set (map fst (ci_pending ?ci)) \<subseteq> insert (to_base64_url r) (set (map fst (ci_pending ci)))"
      using kept_keys(1) [of s ci] by (auto simp: Issued issue_pending AList.dom_update)
    then show ?thesis using ih Issued by (auto simp: issues_of_def split: if_splits)
  next
    case (Consumed now h)
    show ?thesis
    proof (cases "map_of (ci_pending ci) h")
      case None
      then show ?thesis using ih Consumed by (simp add: consume_challenge_def issues_of_def)
    next
      case (Some t)
      then have "h \<in> set (map fst (ci_pending ci))" using map_of_SomeD by force
      moreover have "set (map fst (ci_pending ?ci)) = set (map fst (ci_pending ci)) - {h}"
        using Some Consumed by (simp add: consume_challenge_def AList.delete_keys)
      ultimately show ?thesis using ih Consumed Some
        by (auto simp: consume_challenge_def issues_of_def split: if_splits)
    qed
  qed
qed simp

lemma run_pending:
  "(handle, t) \<in> set (ci_pending (challenge_run es ci)) \<Longrightarrow>
   (handle, t) \<in> set (ci_pending ci) \<or>
   list_ex (\<lambda>e. \<exists>swept at_time random. e = Issued swept at_time random \<and> to_base64_url random = handle \<and> t = at_time + ci_ttl ci) es"
proof (induction es arbitrary: ci)
  case (Cons e es)
  have ttl: "ci_ttl (fst (challenge_step e ci)) = ci_ttl ci"
    by (cases e) (auto simp: issue_challenge_def consume_challenge_def Let_def split: option.split)
  have "(handle, t) \<in> set (ci_pending ci) \<or>
      (\<exists>swept at_time random. e = Issued swept at_time random \<and> to_base64_url random = handle \<and> t = at_time + ci_ttl ci)"
    if "(handle, t) \<in> set (ci_pending (fst (challenge_step e ci)))"
  proof (cases e)
    case (Issued s a r)
    have sub: "set (kept_entries s ci) \<subseteq> set (ci_pending ci)"
      using kept_suffix [of ci s] by (metis set_append Un_upper2)
    have "set (AList.update k v al) \<subseteq> insert (k, v) (set al)" for k :: js_text and v :: int and al
      by (induction al) auto
    then show ?thesis using that sub by (fastforce simp: Issued issue_pending)
  next
    case (Consumed now h)
    then show ?thesis using that
      by (auto simp: consume_challenge_def AList.delete_eq split: option.splits)
  qed
  then show ?case using Cons.IH [of "fst (challenge_step e ci)"] Cons.prems by (auto simp: ttl)
qed simp

lemma run_distinct: "distinct (map fst (ci_pending ci)) \<Longrightarrow> distinct (map fst (ci_pending (challenge_run es ci)))"
  by (induction es arbitrary: ci) (auto intro: step_distinct)

lemma step_limit:
  assumes "ci_max_pending ci = Some limit" and "length (ci_pending ci) \<le> max 1 limit"
  shows "length (ci_pending (fst (challenge_step e ci))) \<le> max 1 limit" and "ci_max_pending (fst (challenge_step e ci)) = Some limit"
proof -
  have up: "length (AList.update k v al) \<le> Suc (length al)" for k :: js_text and v :: int and al
    by (induction al) auto
  have "length (kept_entries s ci) \<le> limit - 1 \<or> kept_entries s ci = []" for s
    using assms(1) evict_length by (simp add: kept_entries_def)
  moreover have suc_le: "Suc n \<le> max 1 limit" if "n \<le> limit - 1" for n using that by (cases limit) auto
  ultimately have room: "Suc (length (kept_entries s ci)) \<le> max 1 limit" for s
    by (metis le0 list.size(3))
  show "length (ci_pending (fst (challenge_step e ci))) \<le> max 1 limit"
  proof (cases e)
    case (Issued s t r)
    then show ?thesis using le_trans [OF up room] by (simp add: issue_pending)
  next
    case (Consumed now handle)
    have "length (AList.delete handle (ci_pending ci)) \<le> length (ci_pending ci)" by (rule length_delete_le)
    then show ?thesis using assms(2) Consumed by (auto simp: consume_challenge_def split: option.splits)
  qed
  show "ci_max_pending (fst (challenge_step e ci)) = Some limit"
    using assms(1) by (cases e) (auto simp: issue_challenge_def consume_challenge_def Let_def split: option.splits)
qed

lemma run_limit:
  "ci_max_pending ci = Some limit \<Longrightarrow> length (ci_pending ci) \<le> max 1 limit \<Longrightarrow>
   pending_count (challenge_run es ci) \<le> max 1 limit"
proof (induction es arbitrary: ci)
  case (Cons e es)
  show ?case using Cons.IH [OF step_limit(2,1)] Cons.prems by simp
qed (simp add: pending_count_def)

section \<open>Authorization follows the last event about a pair\<close>

datatype acl_event =
  Approved int approved_client
| ClientRevoked int js_text
| PasskeyRevoked int js_text

text \<open>The specification, over the events with the latest first.\<close>

fun entitled :: "js_text \<Rightarrow> js_text \<Rightarrow> acl_event list \<Rightarrow> bool" where
  "entitled credential static [] = False"
| "entitled credential static (Approved _ c # es) =
     (if ac_credential c = credential \<and> ac_static c = static then True else entitled credential static es)"
| "entitled credential static (ClientRevoked _ k # es) =
     (if k = static then False else entitled credential static es)"
| "entitled credential static (PasskeyRevoked _ k # es) =
     (if k = credential then False else entitled credential static es)"

locale access_list =
  fixes empty :: 's and good :: "'s \<Rightarrow> bool"
    and permits :: "js_text \<Rightarrow> js_text \<Rightarrow> 's \<Rightarrow> bool"
    and approve :: "int \<Rightarrow> approved_client \<Rightarrow> 's \<Rightarrow> 's"
    and drop_client :: "int \<Rightarrow> js_text \<Rightarrow> 's \<Rightarrow> 's"
    and drop_passkey :: "int \<Rightarrow> js_text \<Rightarrow> 's \<Rightarrow> 's"
  assumes good_empty: "good empty" and none_permitted: "\<not> permits credential static empty"
    and good_approve: "good a \<Longrightarrow> good (approve now c a)"
    and good_drop: "good a \<Longrightarrow> good (drop_client now k a)" "good a \<Longrightarrow> good (drop_passkey now k a)"
    and permits_approve: "good a \<Longrightarrow> permits credential static (approve now c a) \<longleftrightarrow>
      ac_credential c = credential \<and> ac_static c = static \<or> permits credential static a"
    and permits_drop_client: "good a \<Longrightarrow> permits credential static (drop_client now k a) \<longleftrightarrow> k \<noteq> static \<and> permits credential static a"
    and permits_drop_passkey: "good a \<Longrightarrow> permits credential static (drop_passkey now k a) \<longleftrightarrow> k \<noteq> credential \<and> permits credential static a"
begin

fun after_events :: "acl_event list \<Rightarrow> 's" where
  "after_events [] = empty"
| "after_events (Approved now c # es) = approve now c (after_events es)"
| "after_events (ClientRevoked now k # es) = drop_client now k (after_events es)"
| "after_events (PasskeyRevoked now k # es) = drop_passkey now k (after_events es)"

lemma permits_iff_entitled:
  "good (after_events es) \<and> (permits credential static (after_events es) \<longleftrightarrow> entitled credential static es)"
  by (induction es rule: after_events.induct)
    (auto simp: good_empty none_permitted good_approve good_drop permits_approve permits_drop_client permits_drop_passkey)

end

text \<open>At most one active record for each pair of identities.\<close>

definition pair_of :: "acl_record \<Rightarrow> js_text \<times> js_text" where
  "pair_of r = (ac_credential (ar_client r), ac_static (ar_client r))"

definition acl_ok :: "burrow_acl \<Rightarrow> bool" where
  "acl_ok acl \<longleftrightarrow> distinct (map pair_of (active_records acl))"

definition acl_permits :: "js_text \<Rightarrow> js_text \<Rightarrow> burrow_acl \<Rightarrow> bool" where
  "acl_permits credential static acl \<longleftrightarrow> (\<exists>r. acl_authorize credential static acl = Inr r)"

lemma find_active: "List.find (active_for c k) rs = None \<longleftrightarrow> (c, k) \<notin> pair_of ` set (filter ar_active rs)"
  by (induction rs) (auto simp: active_for_def pair_of_def)

lemma permits_pairs: "acl_permits c k acl \<longleftrightarrow> (c, k) \<in> pair_of ` set (active_records acl)"
  using find_active [of c k "acl_records acl"]
  by (auto simp: acl_permits_def acl_authorize_def acl_find_def active_records_def Let_def split: option.splits)

lemma superseded:
  "distinct (map pair_of (filter ar_active rs)) \<Longrightarrow>
   map pair_of (filter ar_active (update_first (active_for c k) (\<lambda>r. r\<lparr>ar_revoked_at := Some now\<rparr>) rs)) =
   removeAll (c, k) (map pair_of (filter ar_active rs))"
proof (induction rs)
  case (Cons r rs)
  show ?case
  proof (cases "active_for c k r")
    case True
    then have "pair_of r = (c, k)" "ar_active r" by (auto simp: active_for_def pair_of_def)
    then show ?thesis using True Cons.prems by (simp add: ar_active_def [of "r\<lparr>ar_revoked_at := Some now\<rparr>"] removeAll_id)
  next
    case False
    then have "ar_active r \<Longrightarrow> pair_of r \<noteq> (c, k)" by (auto simp: active_for_def pair_of_def)
    then show ?thesis using False Cons by (auto split: if_splits)
  qed
qed simp

lemma approved_pairs:
  "acl_ok acl \<Longrightarrow> map pair_of (active_records (fst (acl_approve now c acl))) =
   removeAll (ac_credential c, ac_static c) (map pair_of (active_records acl)) @ [(ac_credential c, ac_static c)]"
  by (simp add: acl_ok_def acl_approve_def active_records_def Let_def superseded ar_active_def [of "\<lparr>ar_client = _, ar_burrow = _, ar_approved_at = _, ar_revoked_at = _\<rparr>"] pair_of_def [of "\<lparr>ar_client = _, ar_burrow = _, ar_approved_at = _, ar_revoked_at = _\<rparr>"])

lemma revoked_active:
  "active_records (fst (revoke_matching now P acl)) = filter (\<lambda>r. \<not> P r) (active_records acl)"
proof -
  have "filter ar_active (map (\<lambda>r. if ar_active r \<and> P r then r\<lparr>ar_revoked_at := Some now\<rparr> else r) rs) =
      filter (\<lambda>r. \<not> P r) (filter ar_active rs)" for rs
    by (induction rs) (auto simp: ar_active_def)
  then show ?thesis by (simp add: revoke_matching_def active_records_def Let_def)
qed

interpretation burrow_list: access_list "new_acl burrow" acl_ok acl_permits
  "\<lambda>now c acl. fst (acl_approve now c acl)" "\<lambda>now k acl. fst (revoke_client now k acl)"
  "\<lambda>now k acl. fst (revoke_passkey now k acl)"
proof
  show "acl_ok (new_acl burrow)" by (simp add: acl_ok_def new_acl_def active_records_def)
  show "\<not> acl_permits c k (new_acl burrow)" for c k by (simp add: permits_pairs new_acl_def active_records_def)
  show "acl_ok (fst (acl_approve now c a))" if "acl_ok a" for now c a
    using that approved_pairs [OF that] by (simp add: acl_ok_def distinct_removeAll)
  show "acl_ok (fst (revoke_client now k a))" "acl_ok (fst (revoke_passkey now k a))" if "acl_ok a" for now k a
    using that by (simp_all add: acl_ok_def revoke_client_def revoke_passkey_def revoked_active distinct_map_filter)
  show "acl_permits c k (fst (acl_approve now cl a)) \<longleftrightarrow> ac_credential cl = c \<and> ac_static cl = k \<or> acl_permits c k a"
    if "acl_ok a" for a now cl c k
    using arg_cong [OF approved_pairs [OF that, of now cl], of set] unfolding permits_pairs by auto
  show "acl_permits c s (fst (revoke_client now k a)) \<longleftrightarrow> k \<noteq> s \<and> acl_permits c s a" if "acl_ok a" for a now k c s
    unfolding permits_pairs revoke_client_def revoked_active by (auto simp: pair_of_def)
  show "acl_permits c s (fst (revoke_passkey now k a)) \<longleftrightarrow> k \<noteq> c \<and> acl_permits c s a" if "acl_ok a" for a now k c s
    unfolding permits_pairs revoke_passkey_def revoked_active by (auto simp: pair_of_def)
qed

text \<open>The list after a history, the latest event first.\<close>

fun acl_after :: "js_text \<Rightarrow> acl_event list \<Rightarrow> burrow_acl" where
  "acl_after burrow [] = new_acl burrow"
| "acl_after burrow (Approved now c # es) = fst (acl_approve now c (acl_after burrow es))"
| "acl_after burrow (ClientRevoked now k # es) = fst (revoke_client now k (acl_after burrow es))"
| "acl_after burrow (PasskeyRevoked now k # es) = fst (revoke_passkey now k (acl_after burrow es))"

lemma acl_after_events: "acl_after burrow es = burrow_list.after_events burrow es"
  by (induction burrow es rule: acl_after.induct) simp_all

end
