(* ===== verification/Sec_Der.thy ===== *)
theory Sec_Der
  imports Sec_Noise
begin

text \<open>
  ECDSA signatures between DER and raw form (\<open>remote-lib-common/src/security/ecdsa.ts\<close>), and
  that the two conversions are inverse on P-256 signatures.
\<close>

definition p256_coordinate_length :: nat where "p256_coordinate_length = 32"

text \<open>Leading zero bytes are skipped up to the last byte.\<close>

fun der_trim :: "bytes \<Rightarrow> bytes" where
  "der_trim (a # b # r) = (if a = 0 then der_trim (b # r) else a # b # r)"
| "der_trim bs = bs"

definition der_integer :: "bytes \<Rightarrow> bytes" where
  "der_integer v =
     (let trimmed = der_trim v;
          pad = (if trimmed \<noteq> [] \<and> hd trimmed AND 0x80 \<noteq> 0 then [0] else [])
      in [0x02, of_nat (length pad + length trimmed)] @ pad @ trimmed)"

definition ecdsa_raw_to_der :: "bytes \<Rightarrow> string + bytes" where
  "ecdsa_raw_to_der raw =
     (if raw = [] \<or> length raw mod 2 \<noteq> 0 then Inl ''invalid raw ECDSA signature length''
      else (let half = length raw div 2;
                body = der_integer (take half raw) @ der_integer (drop half raw)
            in if length body > 127 then Inl ''ECDSA signature too large for short-form DER''
               else Inr ([0x30, of_nat (length body)] @ body)))"

text \<open>One INTEGER at an offset, right-aligned in \<open>width\<close> zero bytes, and the offset behind it.\<close>

definition read_der_integer :: "bytes \<Rightarrow> nat \<Rightarrow> nat \<Rightarrow> string + bytes \<times> nat" where
  "read_der_integer der offset width =
     (if offset + 2 > length der \<or> der ! offset \<noteq> 0x02 then Inl ''invalid DER: expected INTEGER''
      else (let n = unat (der ! (offset + 1)); start = offset + 2
            in if n = 0 \<or> n > 0x80 then Inl ''invalid DER: bad INTEGER length''
               else if start + n > length der then Inl ''invalid DER: truncated INTEGER''
               else (let value = der_trim (take n (drop start der))
                     in if length value > width then Inl ''invalid DER: INTEGER too large''
                        else Inr (replicate (width - length value) 0 @ value, start + n))))"

text \<open>The offset behind the sequence's length and that length; \<open>None\<close> for the \<open>undefined\<close> read past the end.\<close>

definition der_sequence_header :: "bytes \<Rightarrow> string + nat \<times> nat option" where
  "der_sequence_header der =
     (if length der < 2 \<or> der ! 0 \<noteq> 0x30 then Inl ''invalid DER: expected SEQUENCE''
      else if unat (der ! 1) = 0x81 then Inr (3, if 2 < length der then Some (unat (der ! 2)) else None)
      else if unat (der ! 1) > 0x80 then Inl ''invalid DER: unsupported length encoding''
      else Inr (2, Some (unat (der ! 1))))"

definition ecdsa_der_to_raw :: "bytes \<Rightarrow> nat \<Rightarrow> string + bytes" where
  "ecdsa_der_to_raw der width =
     (case der_sequence_header der of
        Inl e \<Rightarrow> Inl e
      | Inr (offset, n) \<Rightarrow>
          if map_option (\<lambda>k. offset + k) n \<noteq> Some (length der) then Inl ''invalid DER: length mismatch''
          else case read_der_integer der offset width of
            Inl e \<Rightarrow> Inl e
          | Inr (r, offset1) \<Rightarrow>
              (case read_der_integer der offset1 width of
                 Inl e \<Rightarrow> Inl e
               | Inr (s, offset2) \<Rightarrow>
                   if offset2 \<noteq> length der then Inl ''invalid DER: trailing bytes'' else Inr (r @ s)))"

section \<open>Round trip\<close>

lemma length_der_trim: "length (der_trim v) \<le> length v"
  by (induction v rule: der_trim.induct) auto

lemma der_trim_pad: "replicate (length v - length (der_trim v)) 0 @ der_trim v = v"
proof (induction v rule: der_trim.induct)
  case (1 a b r)
  then show ?case using length_der_trim [of "b # r"] by (auto simp: Suc_diff_le)
qed simp_all

lemma der_trim_nonempty: "v \<noteq> [] \<Longrightarrow> der_trim v \<noteq> []"
  by (induction v rule: der_trim.induct) auto

lemma der_trim_idem: "der_trim (der_trim v) = der_trim v"
  by (induction v rule: der_trim.induct) auto

lemma der_trim_zero: "t \<noteq> [] \<Longrightarrow> der_trim (0 # t) = der_trim t"
  by (cases t) simp_all

text \<open>The value octets of a written INTEGER, and that reading them gives the coordinate back.\<close>

definition der_octets :: "bytes \<Rightarrow> bytes" where
  "der_octets v = (if hd (der_trim v) AND 0x80 \<noteq> 0 then 0 # der_trim v else der_trim v)"

lemma der_integer_octets: "v \<noteq> [] \<Longrightarrow> der_integer v = [0x02, of_nat (length (der_octets v))] @ der_octets v"
  by (simp add: der_integer_def der_octets_def Let_def der_trim_nonempty)

lemma octets_trim: "v \<noteq> [] \<Longrightarrow> der_trim (der_octets v) = der_trim v"
  by (simp add: der_octets_def der_trim_zero der_trim_nonempty der_trim_idem)

lemma octets_length: "v \<noteq> [] \<Longrightarrow> 0 < length (der_octets v) \<and> length (der_octets v) \<le> length v + 1"
  using der_trim_nonempty [of v] length_der_trim [of v] by (auto simp: der_octets_def)

lemma read_written_integer:
  assumes "v \<noteq> []" and "length v \<le> 100"
  shows "read_der_integer (pre @ der_integer v @ post) (length pre) (length v) = Inr (v, length pre + length (der_integer v))"
proof -
  have n: "0 < length (der_octets v)" "length (der_octets v) \<le> 101" using octets_length [OF assms(1)] assms(2) by auto
  then have u: "unat (of_nat (length (der_octets v)) :: 8 word) = length (der_octets v)"
    by (simp add: unat_of_nat take_bit_nat_eq_self)
  have "der_trim (take (length (der_octets v)) (drop (length pre + 2) (pre @ der_integer v @ post))) = der_trim v"
    by (simp add: der_integer_octets assms(1) octets_trim)
  then show ?thesis
    using n u length_der_trim [of v] der_trim_pad [of v]
    by (simp add: read_der_integer_def Let_def der_integer_octets assms(1) nth_append)
qed

lemma der_round_trip:
  assumes "length raw = 2 * p256_coordinate_length"
  shows "\<exists>der. ecdsa_raw_to_der raw = Inr der \<and> ecdsa_der_to_raw der p256_coordinate_length = Inr raw"
proof -
  let ?r = "take 32 raw" and ?s = "drop 32 raw"
  have parts: "?r \<noteq> []" "?s \<noteq> []" "length ?r = 32" "length ?s = 32" using assms by (auto simp: p256_coordinate_length_def)
  let ?body = "der_integer ?r @ der_integer ?s"
  have len: "length (der_integer ?r) \<le> 35" "length (der_integer ?s) \<le> 35"
    using octets_length [OF parts(1)] octets_length [OF parts(2)] parts by (simp_all add: der_integer_octets)
  then have small: "length ?body \<le> 70" by simp
  define n where "n = length ?body"
  have bound: "n \<le> 70" using small by (simp add: n_def)
  have u: "unat (of_nat n :: 8 word) = n" using small by (intro byte_back [unfolded byte_def]) (simp add: n_def)
  let ?der = "[0x30, of_nat n] @ ?body"
  have der: "ecdsa_raw_to_der raw = Inr ?der"
    using assms small by (auto simp: ecdsa_raw_to_der_def Let_def p256_coordinate_length_def n_def)
  have head: "der_sequence_header ?der = Inr (2, Some n)"
    using bound u by (auto simp: der_sequence_header_def)
  have first: "read_der_integer ?der 2 32 = Inr (?r, 2 + length (der_integer ?r))"
    using read_written_integer [OF parts(1), of "[0x30, of_nat n]" "der_integer ?s"] parts(3) by (simp add: numeral_2_eq_2)
  have second: "read_der_integer ?der (2 + length (der_integer ?r)) 32 = Inr (?s, 2 + length (der_integer ?r) + length (der_integer ?s))"
    using read_written_integer [OF parts(2), of "[0x30, of_nat n] @ der_integer ?r" "[]"] parts(4) by (simp add: numeral_2_eq_2)
  have "ecdsa_der_to_raw ?der p256_coordinate_length = Inr (?r @ ?s)"
    unfolding ecdsa_der_to_raw_def head using first second by (simp add: p256_coordinate_length_def n_def)
  then show ?thesis using der by auto
qed

end
