(* ===== verification/Sec_Presence.thy ===== *)
theory Sec_Presence
  imports Sec_Der
begin

text \<open>
  Fresh user presence: the derived challenge (\<open>presence.ts\<close>), the verification of a WebAuthn assertion
  (\<open>passkey.ts\<close>), and the verifier both ceremonies run with the pairing code (\<open>e2e-ceremony.ts\<close>), all in
  \<open>remote-lib-common/src/security/\<close>.

  WebCrypto and the reading of client data as JSON are the fields of \<open>presence_env\<close>; \<open>None\<close> is a rejected
  promise or a thrown error. Values have passed the type checks of the structural guards, so what is left
  of a guard is its bounds.
\<close>

section \<open>The presence challenge\<close>

definition presence_domain :: js_text where "presence_domain = js ''dormouse/presence/v1''"
definition presence_field_limit :: nat where "presence_field_limit = 1024"
definition ceremony_field_limit :: nat where "ceremony_field_limit = 1024"

datatype presence_binding =
  PairingBinding (pb_burrow: js_text) (pb_hash: js_text) (pb_credential: js_text)
| ConnectionBinding (pb_burrow: js_text) (pb_connection: js_text) (pb_challenge: js_text) (pb_hash: js_text)
    (pb_credential: js_text)

definition binding_kind :: "presence_binding \<Rightarrow> js_text" where
  "binding_kind b = (case b of PairingBinding _ _ _ \<Rightarrow> js ''pairing'' | ConnectionBinding _ _ _ _ _ \<Rightarrow> js ''connection'')"

definition is_presence_binding :: "presence_binding \<Rightarrow> bool" where
  "is_presence_binding b \<longleftrightarrow>
     list_all (\<lambda>s. is_bounded_string s presence_field_limit)
       (case b of
          PairingBinding burrow hash credential \<Rightarrow> [burrow, hash, credential]
        | ConnectionBinding burrow connection challenge hash credential \<Rightarrow>
            [burrow, connection, challenge, hash, credential])"

fun gather :: "'a option list \<Rightarrow> 'a list option" where
  "gather [] = Some []"
| "gather (None # xs) = None"
| "gather (Some x # xs) = map_option (\<lambda>ys. x # ys) (gather xs)"

definition binding_fields :: "presence_binding \<Rightarrow> bytes list option" where
  "binding_fields b =
     gather
       (case b of
          PairingBinding burrow hash credential \<Rightarrow>
            [Some (utf8_encode burrow), from_base64_url hash, Some (utf8_encode credential)]
        | ConnectionBinding burrow connection challenge hash credential \<Rightarrow>
            [Some (utf8_encode burrow), from_base64_url connection, from_base64_url challenge, from_base64_url hash,
             Some (utf8_encode credential)])"

record client_data =
  cd_type :: "js_text option"
  cd_challenge :: "js_text option"
  cd_origin :: "js_text option"

record 'k presence_env =
  pe_digest :: "bytes \<Rightarrow> bytes option"
  pe_import_spki :: "bytes \<Rightarrow> 'k option"
  pe_verify :: "'k \<Rightarrow> bytes \<Rightarrow> bytes \<Rightarrow> bool option"
  pe_client_data :: "js_text \<Rightarrow> client_data option"

text \<open>The bytes hashed, and the challenge; \<open>None\<close> where the source throws.\<close>

definition presence_preimage :: "presence_binding \<Rightarrow> js_text \<Rightarrow> bytes option" where
  "presence_preimage b nonce =
     (if \<not> is_bounded_string nonce presence_field_limit then None
      else case binding_fields b of
             None \<Rightarrow> None
           | Some parts \<Rightarrow>
               map_option (\<lambda>n. length_prefixed_concat ([utf8_encode presence_domain, utf8_encode (binding_kind b)] @ parts @ [n]))
                 (from_base64_url nonce))"

definition presence_challenge :: "'k presence_env \<Rightarrow> presence_binding \<Rightarrow> js_text \<Rightarrow> js_text option" where
  "presence_challenge env b nonce =
     map_option to_base64_url (Option.bind (presence_preimage b nonce) (pe_digest env))"

section \<open>Passkey assertions\<close>

definition flag_user_present :: "8 word" where "flag_user_present = 0x01"
definition flag_user_verified :: "8 word" where "flag_user_verified = 0x04"
definition authenticator_data_min_length :: nat where "authenticator_data_min_length = 37"

record passkey_assertion =
  pa_credential :: js_text
  pa_client_data :: js_text
  pa_authenticator_data :: js_text
  pa_signature :: js_text

record connection_policy =
  cp_origins :: "js_text list"
  cp_rp_id :: js_text
  cp_require_uv :: bool

datatype assertion_failure =
  ClientDataMalformed | ClientDataType | ChallengeMismatch | OriginMismatch | AuthenticatorDataMalformed
| RpIdMismatch | UserPresenceMissing | UserVerificationMissing | PublicKeyInvalid | SignatureInvalid

record assertion_success =
  as_user_verified :: bool
  as_sign_count :: nat

definition base64_url_values_equal :: "js_text \<Rightarrow> js_text \<Rightarrow> bool" where
  "base64_url_values_equal a b =
     (case from_base64_url a of
        None \<Rightarrow> False
      | Some x \<Rightarrow> (case from_base64_url b of None \<Rightarrow> False | Some y \<Rightarrow> constant_time_equal x y))"

definition parsed_client_data :: "'k presence_env \<Rightarrow> js_text \<Rightarrow> (bytes \<times> client_data) option" where
  "parsed_client_data env encoded =
     Option.bind (from_base64_url encoded) (\<lambda>bs.
     Option.bind (utf8_decode bs) (\<lambda>text.
       map_option (\<lambda>cd. (bs, cd)) (pe_client_data env text)))"

text \<open>The last part, once the flags have passed: the key is imported and the signature checked.\<close>

definition check_signature :: "'k presence_env \<Rightarrow> passkey_assertion \<Rightarrow> js_text \<Rightarrow> bytes \<Rightarrow> bytes \<Rightarrow> assertion_failure + unit" where
  "check_signature env a public_key auth_data client_data_bytes =
     (case Option.bind (from_base64_url public_key) (pe_import_spki env) of
        None \<Rightarrow> Inl PublicKeyInvalid
      | Some key \<Rightarrow>
          (case pe_digest env client_data_bytes of
             None \<Rightarrow> Inl SignatureInvalid
           | Some client_data_hash \<Rightarrow>
               (case from_base64_url (pa_signature a) of
                  None \<Rightarrow> Inl SignatureInvalid
                | Some der \<Rightarrow>
                    (case ecdsa_der_to_raw der p256_coordinate_length of
                       Inl _ \<Rightarrow> Inl SignatureInvalid
                     | Inr raw \<Rightarrow>
                         if pe_verify env key raw (concat_bytes [auth_data, client_data_hash]) = Some True
                         then Inr () else Inl SignatureInvalid))))"

definition verify_passkey_assertion ::
    "'k presence_env \<Rightarrow> passkey_assertion \<Rightarrow> js_text \<Rightarrow> js_text \<Rightarrow> connection_policy \<Rightarrow> assertion_failure + assertion_success" where
  "verify_passkey_assertion env a public_key challenge policy =
     (case parsed_client_data env (pa_client_data a) of
        None \<Rightarrow> Inl ClientDataMalformed
      | Some (client_data_bytes, cd) \<Rightarrow>
          if cd_type cd \<noteq> Some (js ''webauthn.get'') then Inl ClientDataType
          else if (case cd_challenge cd of None \<Rightarrow> True | Some given \<Rightarrow> \<not> base64_url_values_equal given challenge)
          then Inl ChallengeMismatch
          else if (case cd_origin cd of None \<Rightarrow> True | Some origin \<Rightarrow> origin \<notin> set (cp_origins policy)) then Inl OriginMismatch
          else case from_base64_url (pa_authenticator_data a) of
            None \<Rightarrow> Inl AuthenticatorDataMalformed
          | Some auth \<Rightarrow>
              if length auth < authenticator_data_min_length then Inl AuthenticatorDataMalformed
              else case pe_digest env (utf8_encode (cp_rp_id policy)) of
                None \<Rightarrow> Inl SignatureInvalid
              | Some rp_hash \<Rightarrow>
                  if \<not> constant_time_equal (take 32 auth) rp_hash then Inl RpIdMismatch
                  else if auth ! 32 AND flag_user_present = 0 then Inl UserPresenceMissing
                  else if cp_require_uv policy \<and> auth ! 32 AND flag_user_verified = 0 then Inl UserVerificationMissing
                  else case check_signature env a public_key auth client_data_bytes of
                    Inl e \<Rightarrow> Inl e
                  | Inr _ \<Rightarrow>
                      Inr \<lparr>as_user_verified = (auth ! 32 AND flag_user_verified \<noteq> 0),
                           as_sign_count = unat (auth ! 33) * 0x1000000 + unat (auth ! 34) * 0x10000 +
                             unat (auth ! 35) * 0x100 + unat (auth ! 36)\<rparr>)"

definition hash_passkey_public_key :: "'k presence_env \<Rightarrow> js_text \<Rightarrow> js_text option" where
  "hash_passkey_public_key env public_key =
     map_option to_base64_url (Option.bind (from_base64_url public_key) (pe_digest env))"

section \<open>The presence proof\<close>

record presence_proof =
  pp_binding :: presence_binding
  pp_relay_nonce :: js_text
  pp_account :: js_text
  pp_credential :: js_text
  pp_public_key :: js_text
  pp_assertion :: passkey_assertion

definition is_passkey_assertion :: "passkey_assertion \<Rightarrow> bool" where
  "is_passkey_assertion a \<longleftrightarrow>
     list_all (\<lambda>s. is_bounded_string s ceremony_field_limit)
       [pa_credential a, pa_client_data a, pa_authenticator_data a, pa_signature a]"

definition is_presence_proof_v1 :: "presence_proof \<Rightarrow> bool" where
  "is_presence_proof_v1 p \<longleftrightarrow>
     is_presence_binding (pp_binding p) \<and>
     list_all (\<lambda>s. is_bounded_string s ceremony_field_limit)
       [pp_relay_nonce p, pp_account p, pp_credential p, pp_public_key p] \<and>
     is_passkey_assertion (pp_assertion p)"

datatype proof_failure =
  Malformed | BindingMismatch | CredentialMismatch | ChallengeUnderivable | AssertionInvalid

definition binding_equals :: "presence_binding \<Rightarrow> presence_binding \<Rightarrow> bool" where
  "binding_equals l r =
     (case (l, r) of
        (PairingBinding b h c, PairingBinding b' h' c') \<Rightarrow> b = b' \<and> h = h' \<and> c = c'
      | (ConnectionBinding b i g h c, ConnectionBinding b' i' g' h' c') \<Rightarrow>
          b = b' \<and> i = i' \<and> g = g' \<and> h = h' \<and> c = c'
      | _ \<Rightarrow> False)"

definition verify_presence_proof ::
    "'k presence_env \<Rightarrow> presence_proof \<Rightarrow> presence_binding \<Rightarrow> connection_policy \<Rightarrow> proof_failure + js_text" where
  "verify_presence_proof env p expected policy =
     (if \<not> is_presence_proof_v1 p then Inl Malformed
      else if \<not> binding_equals (pp_binding p) expected then Inl BindingMismatch
      else if pa_credential (pp_assertion p) \<noteq> pb_credential (pp_binding p) then Inl CredentialMismatch
      else if pp_credential p \<noteq> pb_credential (pp_binding p) then Inl CredentialMismatch
      else case presence_challenge env (pp_binding p) (pp_relay_nonce p) of
             None \<Rightarrow> Inl ChallengeUnderivable
           | Some challenge \<Rightarrow>
               (case verify_passkey_assertion env (pp_assertion p) (pp_public_key p) challenge policy of
                  Inl _ \<Rightarrow> Inl AssertionInvalid
                | Inr _ \<Rightarrow>
                    (case hash_passkey_public_key env (pp_public_key p) of
                       None \<Rightarrow> Inl AssertionInvalid
                     | Some key_hash \<Rightarrow> Inr key_hash)))"

section \<open>Pairing codes\<close>

definition pairing_code_reject_at :: nat where "pairing_code_reject_at = 200"

text \<open>The random bytes drawn one after the other; \<open>None\<close> when they are used up before one is accepted.\<close>

fun sample_pairing_code :: "8 word list \<Rightarrow> js_text option" where
  "sample_pairing_code [] = None"
| "sample_pairing_code (b # bs) =
     (if unat b < pairing_code_reject_at
      then Some [48 + unat b mod 100 div 10, 48 + unat b mod 10]
      else sample_pairing_code bs)"

definition is_pairing_code :: "js_text \<Rightarrow> bool" where
  "is_pairing_code s \<longleftrightarrow> length s = 2 \<and> list_all is_digit s"

end
