(* ===== verification/Sec_Presence_Facts.thy ===== *)
theory Sec_Presence_Facts
  imports Sec_Presence
begin

text \<open>
  What an accepted presence proof shows: the assertion was signed for this ceremony and no other.
  \<open>collision_free\<close> is the documented property of SHA-256 this rests on.
\<close>

definition collision_free :: "'k presence_env \<Rightarrow> bool" where
  "collision_free env \<longleftrightarrow> (\<forall>x y d. pe_digest env x = Some d \<longrightarrow> pe_digest env y = Some d \<longrightarrow> x = y)"

section \<open>Lengths\<close>

lemma scalars_length: "length (scalars s) \<le> length s"
  by (induction s rule: scalars.induct) auto

lemma utf8_length: "length (utf8_encode s) \<le> 4 * length s"
proof -
  have "length (utf8_scalar p) \<le> 4" for p by (simp add: utf8_scalar_def)
  then have "length (concat (map utf8_scalar ps)) \<le> 4 * length ps" for ps
    by (induction ps) (auto intro: add_mono [of _ 4, simplified])
  from this [of "scalars s"] show ?thesis using scalars_length [of s] by (simp add: utf8_encode_def)
qed

lemma decoded_length: "from_base64_url s = Some bs \<Longrightarrow> length bs \<le> length s"
proof -
  assume "from_base64_url s = Some bs"
  then have "base64_url_length (length bs) = length (strip_padding s)"
    by (metis to_from_base64_url length_to_base64_url)
  moreover have "n \<le> base64_url_length n" for n by (simp add: base64_url_length_def) presburger
  moreover have "length (strip_padding s) \<le> length s"
    using length_dropWhile_le [of "\<lambda>c. c = 61" "rev s"] by (simp add: strip_padding_def)
  ultimately show ?thesis by (metis le_trans)
qed

section \<open>The preimage names the ceremony\<close>

definition canonical_binding :: "presence_binding \<Rightarrow> bool" where
  "canonical_binding b \<longleftrightarrow> is_presence_binding b \<and> well_formed (pb_burrow b) \<and> well_formed (pb_credential b) \<and>
     list_all is_b64u_unit (pb_hash b) \<and>
     (case b of PairingBinding _ _ _ \<Rightarrow> True
      | ConnectionBinding _ i g _ _ \<Rightarrow> list_all is_b64u_unit i \<and> list_all is_b64u_unit g)"

lemma gather_Some: "gather xs = Some ys \<longleftrightarrow> xs = map Some ys"
  by (induction xs arbitrary: ys rule: gather.induct) auto

lemma small_parts:
  "is_bounded_string s presence_field_limit \<Longrightarrow> length (utf8_encode s) < 2 ^ 32"
  "is_bounded_string s presence_field_limit \<Longrightarrow> from_base64_url s = Some bs \<Longrightarrow> length bs < 2 ^ 32"
  using utf8_length [of s] decoded_length [of s bs] by (auto simp: is_bounded_string_def presence_field_limit_def)

lemma preimage_parts:
  assumes "presence_preimage b nonce = Some x" and "is_presence_binding b"
  shows "\<exists>parts n. binding_fields b = Some parts \<and> from_base64_url nonce = Some n \<and>
    x = length_prefixed_concat ([utf8_encode presence_domain, utf8_encode (binding_kind b)] @ parts @ [n]) \<and>
    list_all (\<lambda>p. length p < 2 ^ 32) ([utf8_encode presence_domain, utf8_encode (binding_kind b)] @ parts @ [n])"
proof -
  obtain parts n where f: "binding_fields b = Some parts" "from_base64_url nonce = Some n"
      "is_bounded_string nonce presence_field_limit"
      "x = length_prefixed_concat ([utf8_encode presence_domain, utf8_encode (binding_kind b)] @ parts @ [n])"
    using assms(1) by (auto simp: presence_preimage_def split: option.splits if_splits)
  have const: "length (utf8_encode presence_domain) < 2 ^ 32" "length (utf8_encode (binding_kind b)) < 2 ^ 32"
    using utf8_length [of presence_domain] utf8_length [of "binding_kind b"]
    by (auto simp: presence_domain_def binding_kind_def js_def split: presence_binding.splits)
  have "list_all (\<lambda>p. length p < 2 ^ 32) parts"
    using f(1) assms(2) small_parts
    by (cases b) (auto simp: binding_fields_def gather_Some is_presence_binding_def Cons_eq_map_conv)
  then show ?thesis using f const small_parts(2) [OF f(3,2)] by auto
qed

lemma preimage_inj:
  assumes "presence_preimage b nonce = Some x" and "presence_preimage b' nonce' = Some x"
    and "canonical_binding b" and "canonical_binding b'"
    and "list_all is_b64u_unit nonce" and "list_all is_b64u_unit nonce'"
  shows "b = b' \<and> nonce = nonce'"
proof -
  have ok: "is_presence_binding b" "is_presence_binding b'" using assms(3,4) by (simp_all add: canonical_binding_def)
  obtain fs n where f: "binding_fields b = Some fs" "from_base64_url nonce = Some n"
      "x = length_prefixed_concat ([utf8_encode presence_domain, utf8_encode (binding_kind b)] @ fs @ [n])"
      "list_all (\<lambda>p. length p < 2 ^ 32) ([utf8_encode presence_domain, utf8_encode (binding_kind b)] @ fs @ [n])"
    using preimage_parts [OF assms(1) ok(1)] by blast
  obtain fs' n' where f': "binding_fields b' = Some fs'" "from_base64_url nonce' = Some n'"
      "x = length_prefixed_concat ([utf8_encode presence_domain, utf8_encode (binding_kind b')] @ fs' @ [n'])"
      "list_all (\<lambda>p. length p < 2 ^ 32) ([utf8_encode presence_domain, utf8_encode (binding_kind b')] @ fs' @ [n'])"
    using preimage_parts [OF assms(2) ok(2)] by blast
  have eq: "fs = fs'" "n = n'"
    using length_prefixed_inj [OF f(4) f'(4)] f(3) f'(3) by simp_all
  have "nonce = nonce'" using from_base64_url_inj f(2) f'(2) eq(2) assms(5,6) by blast
  moreover have "b = b'"
    using f(1) f'(1) eq(1) assms(3,4)
    by (cases b; cases b')
      (auto simp: binding_fields_def gather_Some canonical_binding_def Cons_eq_map_conv
        intro: utf8_encode_inj from_base64_url_inj)
  ultimately show ?thesis by simp
qed

section \<open>What acceptance shows\<close>

lemma accepted_assertion:
  assumes "verify_passkey_assertion env a key challenge policy = Inr r"
  shows "\<exists>bytes cd given origin auth rp_hash.
    parsed_client_data env (pa_client_data a) = Some (bytes, cd) \<and> cd_type cd = Some (js ''webauthn.get'') \<and>
    cd_challenge cd = Some given \<and> from_base64_url given = from_base64_url challenge \<and> from_base64_url given \<noteq> None \<and>
    cd_origin cd = Some origin \<and> origin \<in> set (cp_origins policy) \<and>
    from_base64_url (pa_authenticator_data a) = Some auth \<and> 37 \<le> length auth \<and>
    pe_digest env (utf8_encode (cp_rp_id policy)) = Some rp_hash \<and> take 32 auth = rp_hash \<and>
    auth ! 32 AND flag_user_present \<noteq> 0 \<and> (cp_require_uv policy \<longrightarrow> auth ! 32 AND flag_user_verified \<noteq> 0) \<and>
    check_signature env a key auth bytes = Inr ()"
  using assms
  by (auto simp: verify_passkey_assertion_def base64_url_values_equal_def constant_time_equal_iff
      authenticator_data_min_length_def not_less split: option.splits if_splits sum.splits)

lemma binding_equals_iff: "binding_equals l r \<longleftrightarrow> l = r"
  by (auto simp: binding_equals_def split: presence_binding.splits)

lemma accepted_proof:
  assumes "verify_presence_proof env p expected policy = Inr h"
  shows "pp_binding p = expected \<and> is_presence_proof_v1 p \<and> pa_credential (pp_assertion p) = pb_credential expected \<and>
    pp_credential p = pb_credential expected \<and> hash_passkey_public_key env (pp_public_key p) = Some h \<and>
    (\<exists>challenge r. presence_challenge env expected (pp_relay_nonce p) = Some challenge \<and>
      verify_passkey_assertion env (pp_assertion p) (pp_public_key p) challenge policy = Inr r)"
  using assms by (auto simp: verify_presence_proof_def binding_equals_iff split: if_splits option.splits sum.splits)

lemma proof_bound:
  assumes "verify_presence_proof env p expected policy = Inr h" and "collision_free env"
    and "parsed_client_data env (pa_client_data (pp_assertion p)) = Some (bytes, cd)"
    and "cd_challenge cd = presence_challenge env b nonce"
    and "canonical_binding b" "canonical_binding expected"
    and "list_all is_b64u_unit nonce" "list_all is_b64u_unit (pp_relay_nonce p)"
  shows "b = expected \<and> nonce = pp_relay_nonce p"
proof -
  obtain challenge where ch: "presence_challenge env expected (pp_relay_nonce p) = Some challenge"
    and given: "cd_challenge cd \<noteq> None" "from_base64_url (the (cd_challenge cd)) = from_base64_url challenge"
    using accepted_proof [OF assms(1)] accepted_assertion assms(3) by fastforce
  obtain x d where x: "presence_preimage expected (pp_relay_nonce p) = Some x" "pe_digest env x = Some d" "challenge = to_base64_url d"
    using ch by (auto simp: presence_challenge_def bind_eq_Some_conv)
  obtain y e where y: "presence_preimage b nonce = Some y" "pe_digest env y = Some e" "cd_challenge cd = Some (to_base64_url e)"
    using given(1) assms(4) by (auto simp: presence_challenge_def bind_eq_Some_conv)
  have "e = d" using given(2) x(3) y(3) by (simp add: from_to_base64_url)
  then have "y = x" using assms(2) x(2) y(2) by (auto simp: collision_free_def)
  then show ?thesis using preimage_inj [of b nonce x expected "pp_relay_nonce p"] x(1) y(1) assms(5-8) by simp
qed

section \<open>Pairing codes are uniform\<close>

lemma code_shape: "sample_pairing_code bs = Some s \<Longrightarrow> is_pairing_code s"
  by (induction bs) (auto simp: is_pairing_code_def is_digit_def split: if_splits)

definition code_of :: "nat \<Rightarrow> js_text" where
  "code_of d = [48 + d div 10, 48 + d mod 10]"

lemma code_uniform:
  assumes "d < 100"
  shows "{b. sample_pairing_code [b] = Some (code_of d)} = {byte d, byte (d + 100)}"
proof (rule set_eqI)
  fix b :: "8 word"
  have "unat b mod 100 = d \<longleftrightarrow> unat b mod 100 div 10 = d div 10 \<and> unat b mod 10 = d mod 10"
  proof -
    have digits: "x = y \<longleftrightarrow> x div 10 = y div 10 \<and> x mod 10 = y mod 10" for x y :: nat
      using div_mult_mod_eq [of x 10] div_mult_mod_eq [of y 10] by metis
    show ?thesis using digits [of "unat b mod 100" d] by (simp add: mod_mod_cancel)
  qed
  moreover have "unat b < 200 \<and> unat b mod 100 = d \<longleftrightarrow> unat b = d \<or> unat b = d + 100"
    using assms by (cases "unat b < 100") (auto simp: le_mod_geq)
  moreover have "b = byte n \<longleftrightarrow> unat b = n" if "n < 256" for n
    by (simp add: word_unat_eq_iff byte_back [OF that])
  ultimately show "b \<in> {b. sample_pairing_code [b] = Some (code_of d)} \<longleftrightarrow> b \<in> {byte d, byte (d + 100)}"
    using assms by (auto simp: pairing_code_reject_at_def code_of_def)
qed

end
