(* ===== verification/Sec_Invitation.thy ===== *)
theory Sec_Invitation
  imports Sec_Framing
begin

text \<open>
  The pairing invitation and the grammar of its URL (\<open>remote-lib-common/src/security/pairing-invitation.ts\<close>).
  The platform's URL parser and the import of an X25519 key are arguments: the first gives \<open>None\<close> for a
  text it rejects, the second whether the key was accepted.
\<close>

definition pairing_invitation_version :: js_text where "pairing_invitation_version = js ''1''"
definition pairing_hash_prefix :: js_text where "pairing_hash_prefix = js ''#pair?''"
definition field_separator :: nat where "field_separator = 46"
definition routing_id_length :: nat where "routing_id_length = base64_url_length 16"
definition secret_length :: nat where "secret_length = base64_url_length 32"
definition expiry_digits :: nat where "expiry_digits = 10"
definition max_uint32 :: int where "max_uint32 = 0xffffffff"
definition fragment_field_count :: nat where "fragment_field_count = 6"
definition pairing_qr_url_max_length :: nat where "pairing_qr_url_max_length = 256"

definition loopback_hosts :: "js_text list" where
  "loopback_hosts = [js ''localhost'', js ''127.0.0.1'', js ''[::1]'']"

definition pairing_fragment_length :: nat where
  "pairing_fragment_length =
     length pairing_invitation_version + routing_id_length * 2 + expiry_digits + secret_length * 2 +
     (fragment_field_count - 1)"

record pairing_invitation =
  pi_burrow :: js_text
  pi_invite :: js_text
  pi_expiry :: int
  pi_setup_token :: js_text
  pi_eph_pub :: bytes
  pi_eph_text :: js_text

record url_parts =
  up_protocol :: js_text
  up_hostname :: js_text
  up_username :: js_text
  up_password :: js_text
  up_pathname :: js_text
  up_search :: js_text
  up_origin :: js_text
  up_hash :: js_text

definition format_invitation_expiry :: "int \<Rightarrow> string + js_text" where
  "format_invitation_expiry seconds =
     (if seconds < 0 \<or> seconds > max_uint32
      then Inl ''pairing invitation expiry must be a uint32 epoch-seconds value''
      else Inr (pad_start expiry_digits 48 (nat_text (nat seconds))))"

definition pairing_invitation_fields :: "pairing_invitation \<Rightarrow> string + js_text list" where
  "pairing_invitation_fields code =
     (case format_invitation_expiry (pi_expiry code) of
        Inl e \<Rightarrow> Inl e
      | Inr expiry \<Rightarrow> Inr [pairing_invitation_version, pi_invite code, expiry, pi_setup_token code, pi_eph_text code])"

definition pairing_invitation_prologue :: "pairing_invitation \<Rightarrow> string + bytes" where
  "pairing_invitation_prologue code =
     (case pairing_invitation_fields code of
        Inl e \<Rightarrow> Inl e
      | Inr parts \<Rightarrow> Inr (e2e_pairing_prologue (pi_burrow code) parts))"

definition invitation_fragment :: "pairing_invitation \<Rightarrow> string + js_text" where
  "invitation_fragment code =
     (case pairing_invitation_fields code of
        Inl e \<Rightarrow> Inl e
      | Inr parts \<Rightarrow> Inr (js_join [field_separator] (hd parts # pi_burrow code # tl parts)))"

definition format_pairing_invitation_url :: "js_text \<Rightarrow> pairing_invitation \<Rightarrow> string + js_text" where
  "format_pairing_invitation_url origin code =
     (case invitation_fragment code of
        Inl e \<Rightarrow> Inl e
      | Inr fragment \<Rightarrow>
          let url = origin @ js ''/'' @ pairing_hash_prefix @ fragment
          in if length url > pairing_qr_url_max_length then Inl ''pairing URL is over the limit''
             else Inr url)"

text \<open>What of the URL decides whether its fragment is read at all.\<close>

definition acceptable_url :: "url_parts \<Rightarrow> js_text \<Rightarrow> bool" where
  "acceptable_url url app_origin \<longleftrightarrow>
     (up_protocol url = js ''https:'' \<or> up_protocol url = js ''http:'' \<and> up_hostname url \<in> set loopback_hosts) \<and>
     up_username url = [] \<and> up_password url = [] \<and> up_pathname url = js ''/'' \<and> up_search url = [] \<and>
     up_origin url = app_origin \<and> starts_with pairing_hash_prefix (up_hash url)"

definition read_fields :: "(bytes \<Rightarrow> bool) \<Rightarrow> int \<Rightarrow> js_text list \<Rightarrow> pairing_invitation option" where
  "read_fields importable now parts =
     (case parts of
        [version, burrow, invite, expiry_text, token, eph] \<Rightarrow>
          if version \<noteq> pairing_invitation_version then None
          else if \<not> is_exact_base64_url burrow routing_id_length \<or> \<not> is_exact_base64_url invite routing_id_length then None
          else if \<not> is_exact_base64_url token secret_length \<or> \<not> is_exact_base64_url eph secret_length then None
          else if \<not> (length expiry_text = expiry_digits \<and> list_all is_digit expiry_text) then None
          else (let expiry = int (digits_value expiry_text)
                in if expiry > max_uint32 then None
                   else if expiry * 1000 < now then None
                   else case from_base64_url eph of
                     None \<Rightarrow> None
                   | Some eph_pub \<Rightarrow>
                       if length eph_pub \<noteq> noise_key_length \<or> \<not> importable eph_pub then None
                       else Some \<lparr>pi_burrow = burrow, pi_invite = invite, pi_expiry = expiry, pi_setup_token = token,
                                  pi_eph_pub = eph_pub, pi_eph_text = eph\<rparr>)
      | _ \<Rightarrow> None)"

definition parse_pairing_invitation_url ::
    "(js_text \<Rightarrow> url_parts option) \<Rightarrow> (bytes \<Rightarrow> bool) \<Rightarrow> js_text \<Rightarrow> js_text \<Rightarrow> int \<Rightarrow> pairing_invitation option" where
  "parse_pairing_invitation_url parse_url importable text app_origin now =
     (if length text > pairing_qr_url_max_length then None
      else case parse_url text of
             None \<Rightarrow> None
           | Some url \<Rightarrow>
               if \<not> acceptable_url url app_origin then None
               else (let fragment = drop (length pairing_hash_prefix) (up_hash url)
                     in if length fragment \<noteq> pairing_fragment_length then None
                        else if length (js_split field_separator fragment) \<noteq> fragment_field_count then None
                        else read_fields importable now (js_split field_separator fragment)))"

definition pairing_invitation_expired ::
    "(js_text \<Rightarrow> url_parts option) \<Rightarrow> (bytes \<Rightarrow> bool) \<Rightarrow> js_text \<Rightarrow> js_text \<Rightarrow> int \<Rightarrow> bool" where
  "pairing_invitation_expired parse_url importable text app_origin now \<longleftrightarrow>
     (case parse_pairing_invitation_url parse_url importable text app_origin 0 of
        None \<Rightarrow> False
      | Some code \<Rightarrow> pi_expiry code * 1000 < now)"

section \<open>The fragment and its invitation determine each other\<close>

text \<open>What an invitation a Burrow mints has.\<close>

definition invitation_ok :: "pairing_invitation \<Rightarrow> bool" where
  "invitation_ok code \<longleftrightarrow>
     is_exact_base64_url (pi_burrow code) routing_id_length \<and> is_exact_base64_url (pi_invite code) routing_id_length \<and>
     is_exact_base64_url (pi_setup_token code) secret_length \<and> is_exact_base64_url (pi_eph_text code) secret_length \<and>
     0 \<le> pi_expiry code \<and> pi_expiry code \<le> max_uint32 \<and> from_base64_url (pi_eph_text code) = Some (pi_eph_pub code) \<and>
     length (pi_eph_pub code) = noise_key_length"

lemma exact_no_dot: "is_exact_base64_url s n \<Longrightarrow> 46 \<notin> set s"
  by (auto simp: is_exact_base64_url_def is_bounded_base64_url_def list_all_iff is_b64u_unit_def is_letter_def
      is_upper_ascii_def is_lower_ascii_def is_digit_def)

definition expiry_text_of :: "int \<Rightarrow> js_text" where
  "expiry_text_of e = pad_start expiry_digits 48 (nat_text (nat e))"

definition fields_of :: "pairing_invitation \<Rightarrow> js_text list" where
  "fields_of code = [pairing_invitation_version, pi_burrow code, pi_invite code, expiry_text_of (pi_expiry code),
     pi_setup_token code, pi_eph_text code]"

lemma expiry_text:
  assumes "0 \<le> e" and "e \<le> max_uint32"
  shows "int (digits_value (expiry_text_of e)) = e" and "length (expiry_text_of e) = expiry_digits"
    and "list_all is_digit (expiry_text_of e)"
proof -
  have small: "nat e < 10 ^ expiry_digits" "0 < expiry_digits" using assms by (simp_all add: max_uint32_def expiry_digits_def nat_less_iff)
  show "int (digits_value (expiry_text_of e)) = e" "length (expiry_text_of e) = expiry_digits" "list_all is_digit (expiry_text_of e)"
    using padded_text [OF small] assms(1) by (simp_all add: expiry_text_of_def)
qed

lemma fragment_of: "invitation_ok code \<Longrightarrow> invitation_fragment code = Inr (js_join [field_separator] (fields_of code))"
  by (simp add: invitation_ok_def invitation_fragment_def pairing_invitation_fields_def format_invitation_expiry_def
      fields_of_def expiry_text_of_def)

lemma fields_dot_free: "invitation_ok code \<Longrightarrow> list_all (\<lambda>p. field_separator \<notin> set p) (fields_of code)"
  using exact_no_dot expiry_text(3) [of "pi_expiry code"]
  by (auto simp: invitation_ok_def fields_of_def field_separator_def pairing_invitation_version_def js_def list_all_iff
      is_digit_def)

lemma fragment_split: "invitation_ok code \<Longrightarrow> js_split field_separator (js_join [field_separator] (fields_of code)) = fields_of code"
  by (rule split_joined [OF fields_dot_free]) (simp_all add: fields_of_def)

lemma fragment_length: "invitation_ok code \<Longrightarrow> length (js_join [field_separator] (fields_of code)) = pairing_fragment_length"
  using expiry_text(2) [of "pi_expiry code"]
  by (simp add: invitation_ok_def fields_of_def is_exact_base64_url_def pairing_fragment_length_def fragment_field_count_def)

lemma fields_read:
  assumes "invitation_ok code" and "importable (pi_eph_pub code)" and "now \<le> pi_expiry code * 1000"
  shows "read_fields importable now (fields_of code) = Some code"
  using assms expiry_text [of "pi_expiry code"]
  by (cases code) (simp add: read_fields_def fields_of_def invitation_ok_def Let_def)

lemma read_fields_ok:
  assumes "read_fields importable now parts = Some code"
  shows "invitation_ok code \<and> importable (pi_eph_pub code) \<and> now \<le> pi_expiry code * 1000 \<and> parts = fields_of code"
proof -
  obtain version burrow invite expiry token eph where parts: "parts = [version, burrow, invite, expiry, token, eph]"
    using assms by (auto simp: read_fields_def split: list.splits)
  obtain eph_pub where e: "version = pairing_invitation_version" "is_exact_base64_url burrow routing_id_length"
    "is_exact_base64_url invite routing_id_length" "is_exact_base64_url token secret_length"
    "is_exact_base64_url eph secret_length" "length expiry = expiry_digits" "list_all is_digit expiry"
    "int (digits_value expiry) \<le> max_uint32" "now \<le> int (digits_value expiry) * 1000"
    "from_base64_url eph = Some eph_pub" "length eph_pub = noise_key_length" "importable eph_pub"
    "code = \<lparr>pi_burrow = burrow, pi_invite = invite, pi_expiry = int (digits_value expiry), pi_setup_token = token,
       pi_eph_pub = eph_pub, pi_eph_text = eph\<rparr>"
    using assms parts by (auto simp: read_fields_def Let_def not_less split: if_splits option.splits)
  have "expiry_text_of (int (digits_value expiry)) = expiry"
    using expiry_text [of "int (digits_value expiry)"] e(6-8) by (intro digits_value_inj) simp_all
  then show ?thesis using e parts by (simp add: invitation_ok_def fields_of_def)
qed

end
