(* ===== verification/Sec_Claims.thy ===== *)
theory Sec_Claims
  imports Sec_Framing_Facts Sec_Guards_Facts Sec_Presence_Facts Sec_Invitation
begin

text \<open>
  The properties of the remote protocol's security layer: encodings that cannot be confused,
  a handshake whose parties agree, a channel that delivers, and guards that hold over any
  sequence of calls. The witnesses run the handshake and the channel over \<open>plain_crypto\<close>, whose
  tags are constant and whose secrets are fixed.
\<close>

section \<open>Encodings\<close>

text \<open>Decoding what the base64url encoder wrote gives the bytes back, for every byte string.\<close>

lemma base64_url_round_trip: "from_base64_url (to_base64_url bs) = Some bs"
  by (rule from_to_base64_url)

text \<open>The decoder accepts one spelling of each byte string: a text it decodes is, up to trailing
  padding, the text the encoder would write, so stray bits in the last character are refused.\<close>

lemma base64_url_canonical:
  assumes "from_base64_url s = Some bs"
  shows "to_base64_url bs = strip_padding s"
  by (rule to_from_base64_url [OF assms])

text \<open>The length-prefixed concatenation of byte strings determines them: two different lists of parts,
  even with a different number of parts, have different encodings.\<close>

lemma length_prefixes_unambiguous:
  assumes "list_all (\<lambda>p. length p < 2 ^ 32) ps" and "list_all (\<lambda>p. length p < 2 ^ 32) qs"
    and "length_prefixed_concat ps = length_prefixed_concat qs"
  shows "ps = qs"
  by (rule length_prefixed_inj [OF assms])

text \<open>Two handshake prologues are equal only when kind, Burrow and every further field are: a handshake
  started for one ceremony or Burrow never has the transcript of another.\<close>

lemma prologues_separate_ceremonies:
  assumes "list_all (\<lambda>s. well_formed s \<and> length (utf8_encode s) < 2 ^ 32) (kind # burrow # extra)"
    and "list_all (\<lambda>s. well_formed s \<and> length (utf8_encode s) < 2 ^ 32) (kind' # burrow' # extra')"
    and "e2e_prologue kind burrow extra = e2e_prologue kind' burrow' extra'"
  shows "kind = kind' \<and> burrow = burrow' \<and> extra = extra'"
  by (rule prologue_inj [OF assms])

text \<open>Decoding an encoded transport plaintext gives the frame back, whether a keepalive, a padded control
  message or a stream body, for every JSON codec whose texts read back and end with a brace.\<close>

lemma transport_plaintext_round_trip:
  assumes "codec_ok j" and "encode_transport_plaintext j frame = Inr bs"
  shows "decode_transport_plaintext j bs = Inr frame"
  by (rule plaintext_round_trip [OF assms])

definition empty_object_codec :: "unit json_codec" where
  "empty_object_codec = \<lparr>jc_stringify = (\<lambda>_. js ''{}''), jc_parse = (\<lambda>_. Some ())\<rparr>"

section \<open>The handshake\<close>

text \<open>C29: An IK handshake between two parties that hold the keys they name, with payloads that fit, runs to
  its end: each side reads the payload the other wrote, both end with one transcript hash and
  crossed cipher states with unused counters, and the responder has learned the initiator's static key.\<close>

theorem handshake_pairs_parties:
  assumes "sound_crypto c"
    and "length (kp_public a) = noise_key_length" "length (kp_public b) = noise_key_length"
      "length (kp_public ea) = noise_key_length" "length (kp_public eb) = noise_key_length"
    and "agreed c ea b es" "agreed c a b ss" "agreed c ea eb ee" "agreed c a eb se"
    and "message_1_overhead + length p1 \<le> noise_max_message_length"
      "message_2_overhead + length p2 \<le> noise_max_message_length"
  shows "\<exists>i r si sr. run_handshake c prologue a b ea eb p1 p2 = Inr (i, r, p1, p2) \<and>
    hs_session i = Some si \<and> hs_session r = Some sr \<and> paired si sr \<and> hs_remote_static r = Some (kp_public a)"
  by (rule handshake_paired [OF assms])

text \<open>Primitives to run it with: tags of zero bytes and one shared secret.\<close>

definition plain_crypto :: "bytes noise_crypto" where
  "plain_crypto = \<lparr>nc_sha256 = (\<lambda>d. take 32 (d @ replicate 32 0)), nc_hmac = (\<lambda>k d. replicate 32 7),
     nc_seal = (\<lambda>k n ad p. p @ replicate 16 0),
     nc_open = (\<lambda>k n ad x. if 16 \<le> length x \<and> drop (length x - 16) x = replicate 16 0 then Some (take (length x - 16) x) else None),
     nc_derive = (\<lambda>k p. Some (replicate 32 1))\<rparr>"

definition plain_keys :: "8 word \<Rightarrow> bytes noise_key_pair" where
  "plain_keys w = \<lparr>kp_private = [w], kp_public = replicate 32 w\<rparr>"

lemma plain_sound: "sound_crypto plain_crypto"
  by (simp add: sound_crypto_def plain_crypto_def noise_key_length_def noise_tag_length_def)

lemma plain_keys_length: "length (kp_public (plain_keys w)) = noise_key_length"
  by (simp add: plain_keys_def noise_key_length_def)

lemma plain_agreed: "agreed plain_crypto (plain_keys v) (plain_keys w) (replicate 32 1)"
  by (simp add: agreed_def x25519_agree_def plain_crypto_def plain_keys_def noise_key_length_def constant_time_equal_iff
      replicate_eq_replicate)

lemma handshake_pairs_parties_witness:
  "\<exists>i r si sr. run_handshake plain_crypto [] (plain_keys 1) (plain_keys 2) (plain_keys 3) (plain_keys 4) [42] [] = Inr (i, r, [42], []) \<and>
    hs_session i = Some si \<and> hs_session r = Some sr \<and> paired si sr \<and> hs_remote_static r = Some (kp_public (plain_keys 1))"
  by (rule handshake_pairs_parties [OF plain_sound plain_keys_length plain_keys_length plain_keys_length plain_keys_length
        plain_agreed plain_agreed plain_agreed plain_agreed]) (simp_all add: noise_sizes)

section \<open>The channel\<close>

text \<open>C30: A reassembler fed any sequence of bodies that each fit one Noise message returns what parsing their
  concatenation returns, the messages and the bytes of the one not yet complete or the same error,
  wherever the boundaries of the bodies fall.\<close>

theorem reassembly_ignores_boundaries:
  assumes "list_all (\<lambda>b. length b \<le> max_stream_body_length) bodies"
  shows "case parse_stream (concat bodies) of
      Inl e \<Rightarrow> \<exists>r. pushes ra_push bodies new_reassembler = (r, Inl e)
    | Inr (messages, rest) \<Rightarrow> \<exists>r. pushes ra_push bodies new_reassembler = (r, Inr messages) \<and> reassembler_ok r \<and> pending r = rest"
  using reassembly.pushes_parse [OF new_reassembler_ok(1) assms] by simp

lemma reassembly_ignores_boundaries_witness:
  "\<exists>r. pushes ra_push [[0, 0], [0, 1, 9, 0]] new_reassembler = (r, Inr [[9]]) \<and> reassembler_ok r \<and> pending r = [0]"
proof -
  have rest: "parse_stream [0] = Inr ([], [0])"
    by (simp add: parse_stream.simps [of "[0]"] read_uint32_be_def uint32_size_def)
  have "parse_stream [0, 0, 0, 1, 9, 0] = Inr ([[9]], [0])"
    by (subst parse_stream.simps)
      (simp add: read_uint32_be_def uint32_size_def max_app_message_length_def app_length_prefix_size_def rest)
  then show ?thesis
    using reassembly_ignores_boundaries [of "[[0, 0], [0, 1, 9, 0]]"] by (simp add: framing_sizes)
qed

text \<open>Over a joined pair of sessions, sending any list of messages within the cap succeeds while counters
  remain, and receiving the resulting ciphertexts in order delivers exactly those messages, in
  order, and leaves the pair joined.\<close>

lemma channel_delivers_messages:
  assumes "sound_crypto c" and "joined s t" and "list_all (\<lambda>m. length m \<le> max_app_message_length) ms"
    and "cs_n (ts_send s) + 17 * length ms \<le> reserved_nonce"
  shows "\<exists>s' t' cts receipts. send_all c j ms s = (s', Inr cts) \<and> receive_all c j cts t = (t', Inr receipts) \<and>
    app_messages receipts = ms \<and> joined s' t'"
  by (rule messages_delivered [OF assms])

definition plain_session :: transport_session where
  "plain_session = \<lparr>ts_send = \<lparr>cs_key = Some [], cs_n = 0\<rparr>, ts_receive = \<lparr>cs_key = Some [], cs_n = 0\<rparr>,
     ts_handshake_hash = [], ts_reassembler = new_reassembler, ts_poison = None\<rparr>"

text \<open>Whatever is sent and received on a session, failures included, its reassembly buffer never exceeds one
  maximal message, its prefix and one maximal body, and a session that is not destroyed
  holds less than one complete message.\<close>

lemma session_memory_bounded:
  assumes "(session_step c j)\<^sup>*\<^sup>* (new_transport_session ns) s"
  shows "length (ra_buffer (ts_reassembler s)) \<le> max_buffer_capacity \<and>
    (ts_poison s = None \<longrightarrow> length (pending (ts_reassembler s)) < app_length_prefix_size + max_app_message_length)"
  using reachable_safe [OF assms] safe_bounded incomplete_length
  by (auto simp: session_safe_def reassembler_ok_def)

definition plain_noise_session :: noise_session where
  "plain_noise_session = \<lparr>ns_send = \<lparr>cs_key = Some [], cs_n = 0\<rparr>, ns_receive = \<lparr>cs_key = Some [], cs_n = 0\<rparr>, ns_handshake_hash = []\<rparr>"

text \<open>C31: A failed receive destroys the session, and a destroyed session stays as it is: no later call of any
  kind changes it.\<close>

theorem first_failure_is_permanent:
  assumes "ts_poison s = None" and "receive c j x s = (s1, Inl e)" and "(session_step c j)\<^sup>*\<^sup>* s1 s2"
  shows "s2 = s1 \<and> ts_poison s2 = Some e"
proof -
  have dead: "ts_poison s1 = Some e" by (rule failed_receive_poisons [OF assms(1,2)])
  from assms(3) have "s2 = s1" by (induction rule: rtranclp_induct) (auto dest: poison_stays [OF _ dead])
  with dead show ?thesis by simp
qed

lemma first_failure_is_permanent_witness:
  "\<exists>s1. receive plain_crypto empty_object_codec [] plain_session = (s1, Inl ''ChaChaPoly authentication failed'') \<and>
     ts_poison s1 = Some ''ChaChaPoly authentication failed''"
proof -
  let ?r = "receive plain_crypto empty_object_codec [] plain_session"
  have r: "?r = (fst ?r, Inl ''ChaChaPoly authentication failed'')"
    by (simp add: receive_def guarded_def require_live_def method_defs ts_open_def decrypt_with_ad_def plain_session_def
        require_max_message_length_def noise_nonce_bytes_def reserved_nonce_def plain_crypto_def)
  have "ts_poison plain_session = None" by (simp add: plain_session_def)
  from first_failure_is_permanent [OF this r rtranclp.rtrancl_refl] r show ?thesis by blast
qed

section \<open>Guards\<close>

text \<open>C33: Over any sequence of calls with any clock readings, a challenge is redeemed at most as often as it was
  issued: a fresh random challenge at most once.\<close>

theorem challenge_redeemed_once: "redeemed handle es (new_issuer ttl limit) \<le> issues_of handle es"
  using redeemed_le [of "new_issuer ttl limit" handle es] by (simp add: new_issuer_def)

text \<open>A challenge that is redeemed was issued by this issuer with these random bytes, and the redeeming
  reading of the clock is before that issue's expiry.\<close>

lemma challenge_redeemed_in_time:
  assumes "snd (consume_challenge now handle (challenge_run es (new_issuer ttl limit)))"
  shows "\<exists>swept issued random. Issued swept issued random \<in> set es \<and> to_base64_url random = handle \<and>
    now < issued + ci_ttl (new_issuer ttl limit)"
proof -
  obtain t where t: "map_of (ci_pending (challenge_run es (new_issuer ttl limit))) handle = Some t" "now < t"
    using assms by (auto simp: consume_challenge_def split: option.splits)
  from run_pending [OF map_of_SomeD [OF t(1)]] t(2) show ?thesis
    by (auto simp: list_ex_iff new_issuer_def)
qed

text \<open>With a ceiling, an issuer never holds more challenges than the ceiling, or one when the ceiling is zero.\<close>

lemma pending_challenges_bounded: "pending_count (challenge_run es (new_issuer ttl (Some limit))) \<le> max 1 limit"
  by (rule run_limit) (simp_all add: new_issuer_def)

text \<open>C32: After any history of approvals and revocations of a Burrow's empty list, a passkey and a Client key
  are authorized together exactly when the latest event naming the pair, its key or its passkey is
  an approval of that pair.\<close>

theorem authorization_follows_history:
  "(\<exists>r. acl_authorize credential static (acl_after burrow es) = Inr r) \<longleftrightarrow> entitled credential static es"
  using burrow_list.permits_iff_entitled [of burrow es credential static] by (simp add: acl_permits_def acl_after_events)

text \<open>A bucket grants no more than its capacity plus one for each whole refill interval since it was made,
  whatever the order of the clock readings, as long as none is later than the end.\<close>

lemma bucket_rate_bounded:
  assumes "new_bucket capacity interval start = Inr b" and "list_all (\<lambda>t. t \<le> finish) ts" and "start \<le> finish"
  shows "int (snd (grants ts b)) \<le> capacity + (finish - start) div interval"
  using new_bucket_ok [OF assms(1)] grants_bounded [of b finish ts] assms(2,3) by (simp add: allowance_def)

text \<open>A refusal names the exact wait: with no call in between, every take before it ends is refused too and
  every take from its end on is granted.\<close>

lemma bucket_wait_exact:
  assumes "bucket_ok b" and "tb_last b \<le> now" and "bucket_take now b = (b', Some w)" and "now \<le> t"
  shows "0 < w \<and> (snd (bucket_take t b') = None \<longleftrightarrow> now + w \<le> t)"
  using refusal_exact [OF assms(1-3)] assms(4) by simp

section \<open>Pairing\<close>

text \<open>What the URL parser documents for a page of an HTTPS origin: the fragment, of characters no URL escapes,
  is kept, and the other parts are those of the origin.\<close>

definition reads_pages_of :: "(js_text \<Rightarrow> url_parts option) \<Rightarrow> js_text \<Rightarrow> bool" where
  "reads_pages_of parse_url origin \<longleftrightarrow>
     (\<forall>fragment. list_all (\<lambda>c. is_b64u_unit c \<or> c = field_separator) fragment \<longrightarrow>
       (\<exists>host. parse_url (origin @ js ''/'' @ pairing_hash_prefix @ fragment) =
         Some \<lparr>up_protocol = js ''https:'', up_hostname = host, up_username = [], up_password = [], up_pathname = js ''/'',
               up_search = [], up_origin = origin, up_hash = pairing_hash_prefix @ fragment\<rparr>))"

lemma fragment_units:
  assumes "invitation_ok code"
  shows "list_all (\<lambda>c. is_b64u_unit c \<or> c = field_separator) (js_join [field_separator] (fields_of code))"
proof -
  have "list_all is_digit s \<Longrightarrow> list_all is_b64u_unit s" for s by (auto simp: list_all_iff is_b64u_unit_def)
  then have "list_all (list_all is_b64u_unit) (fields_of code)"
    using assms expiry_text(3) [of "pi_expiry code"]
    by (auto simp: invitation_ok_def fields_of_def is_exact_base64_url_def is_bounded_base64_url_def
        pairing_invitation_version_def js_def is_b64u_unit_def is_digit_def)
  moreover have "list_all (list_all is_b64u_unit) ps \<Longrightarrow> list_all (\<lambda>c. is_b64u_unit c \<or> c = field_separator) (js_join [field_separator] ps)" for ps
    by (induction "[field_separator]" ps rule: js_join.induct) (auto simp: list_all_iff)
  ultimately show ?thesis by blast
qed

text \<open>C35: The URL a Burrow renders for an invitation reads back, on a phone served from the same origin and before
  the invitation expires, as exactly that invitation.\<close>

theorem invitation_round_trip:
  assumes "invitation_ok code" and "importable (pi_eph_pub code)" and "now \<le> pi_expiry code * 1000"
    and "reads_pages_of parse_url origin" and "format_pairing_invitation_url origin code = Inr scanned"
  shows "parse_pairing_invitation_url parse_url importable scanned origin now = Some code"
proof -
  let ?f = "js_join [field_separator] (fields_of code)"
  have scanned: "scanned = origin @ js ''/'' @ pairing_hash_prefix @ ?f" "length scanned \<le> pairing_qr_url_max_length"
    using assms(5) by (auto simp: format_pairing_invitation_url_def fragment_of [OF assms(1)] Let_def split: if_splits)
  obtain host where "parse_url scanned = Some \<lparr>up_protocol = js ''https:'', up_hostname = host, up_username = [], up_password = [],
      up_pathname = js ''/'', up_search = [], up_origin = origin, up_hash = pairing_hash_prefix @ ?f\<rparr>"
    using assms(4) fragment_units [OF assms(1)] scanned(1) by (auto simp: reads_pages_of_def)
  then show ?thesis
    using scanned(2) fragment_split [OF assms(1)] fragment_length [OF assms(1)] fields_read [of code importable, OF assms(1-3)]
    by (simp add: parse_pairing_invitation_url_def acceptable_url_def starts_with_def Let_def)
      (simp add: fields_of_def fragment_field_count_def)
qed

definition sample_invitation :: pairing_invitation where
  "sample_invitation = \<lparr>pi_burrow = to_base64_url (replicate 16 1), pi_invite = to_base64_url (replicate 16 2), pi_expiry = 1700000000,
     pi_setup_token = to_base64_url (replicate 32 3), pi_eph_pub = replicate 32 4, pi_eph_text = to_base64_url (replicate 32 4)\<rparr>"

definition page_parser :: "js_text \<Rightarrow> url_parts option" where
  "page_parser scanned = Some \<lparr>up_protocol = js ''https:'', up_hostname = js ''d'', up_username = [], up_password = [],
     up_pathname = js ''/'', up_search = [], up_origin = js ''https://d'', up_hash = drop 10 scanned\<rparr>"

lemma encoded_exact: "0 < n \<Longrightarrow> is_exact_base64_url (to_base64_url (replicate n w)) (base64_url_length n)"
  using encoded_units [of _ "replicate n w"]
  by (auto simp: is_exact_base64_url_def is_bounded_base64_url_def length_to_base64_url list_all_iff base64_url_length_def)

lemma sample_ok: "invitation_ok sample_invitation"
  by (simp add: invitation_ok_def sample_invitation_def encoded_exact routing_id_length_def secret_length_def max_uint32_def
      from_to_base64_url noise_key_length_def)

lemma invitation_round_trip_witness:
  "\<exists>scanned. format_pairing_invitation_url (js ''https://d'') sample_invitation = Inr scanned \<and>
     parse_pairing_invitation_url page_parser (\<lambda>_. True) scanned (js ''https://d'') 1690000000000 = Some sample_invitation"
proof -
  have pages: "reads_pages_of page_parser (js ''https://d'')"
    by (auto simp: reads_pages_of_def page_parser_def js_def)
  obtain scanned where scanned: "format_pairing_invitation_url (js ''https://d'') sample_invitation = Inr scanned"
    using fragment_length [OF sample_ok]
    by (simp add: format_pairing_invitation_url_def fragment_of [OF sample_ok] Let_def pairing_qr_url_max_length_def
        pairing_fragment_length_def pairing_hash_prefix_def js_def pairing_invitation_version_def routing_id_length_def
        secret_length_def expiry_digits_def fragment_field_count_def base64_url_length_def)
  then show ?thesis
    using invitation_round_trip [OF sample_ok _ _ pages scanned, of "\<lambda>_. True" 1690000000000] by (simp add: sample_invitation_def)
qed

text \<open>A scanned code is either refused or complete: an invitation it yields has every field in its exact form
  and an importable key, is not expired, comes from a URL of the running app's own origin, and its
  fragment is the one and only fragment the emitter writes for that invitation.\<close>

lemma scanned_invitation_complete:
  assumes "parse_pairing_invitation_url parse_url importable scanned origin now = Some code"
  shows "invitation_ok code \<and> importable (pi_eph_pub code) \<and> now \<le> pi_expiry code * 1000 \<and>
    (\<exists>url fragment. parse_url scanned = Some url \<and> acceptable_url url origin \<and> up_hash url = pairing_hash_prefix @ fragment \<and>
      invitation_fragment code = Inr fragment)"
proof -
  obtain url where url: "parse_url scanned = Some url" "acceptable_url url origin"
    and read: "read_fields importable now (js_split field_separator (drop (length pairing_hash_prefix) (up_hash url))) = Some code"
    using assms by (auto simp: parse_pairing_invitation_url_def Let_def split: if_splits option.splits)
  let ?f = "drop (length pairing_hash_prefix) (up_hash url)"
  note ok = read_fields_ok [OF read]
  have "js_join [field_separator] (fields_of code) = ?f" using ok js_join_split by metis
  then have "invitation_fragment code = Inr ?f" using ok fragment_of by simp
  moreover have "up_hash url = pairing_hash_prefix @ ?f"
    using url(2) by (metis acceptable_url_def starts_with_def append_take_drop_id)
  ultimately show ?thesis using ok url by blast
qed

section \<open>Presence\<close>

declare to_base64_url.simps [simp del]

text \<open>C34: A presence proof that is accepted was made for this ceremony: when the challenge in its signed client data is
  the one derived from some binding and nonce, that binding is the expected one and that nonce the
  proof's, as long as the hash has no collisions and the fields are in their canonical form.\<close>

theorem presence_proof_bound_to_ceremony:
  assumes "verify_presence_proof env p expected policy = Inr h" and "collision_free env"
    and "parsed_client_data env (pa_client_data (pp_assertion p)) = Some (bytes, cd)"
    and "cd_challenge cd = presence_challenge env b nonce"
    and "canonical_binding b" "canonical_binding expected"
    and "list_all is_b64u_unit nonce" "list_all is_b64u_unit (pp_relay_nonce p)"
  shows "b = expected \<and> nonce = pp_relay_nonce p"
  by (rule proof_bound [OF assms])

text \<open>A proof that is accepted: the digest keeps its input, so the relying party is named by 32 bytes.\<close>

definition plain_binding :: presence_binding where
  "plain_binding = PairingBinding [] [] []"

definition plain_env :: "unit presence_env" where
  "plain_env = \<lparr>pe_digest = Some, pe_import_spki = (\<lambda>_. Some ()), pe_verify = (\<lambda>_ _ _. Some True),
     pe_client_data = (\<lambda>_. Some \<lparr>cd_type = Some (js ''webauthn.get''),
       cd_challenge = map_option to_base64_url (presence_preimage plain_binding []), cd_origin = Some []\<rparr>)\<rparr>"

definition plain_proof :: presence_proof where
  "plain_proof = \<lparr>pp_binding = plain_binding, pp_relay_nonce = [], pp_account = [], pp_credential = [], pp_public_key = [],
     pp_assertion = \<lparr>pa_credential = [], pa_client_data = [], pa_authenticator_data = to_base64_url (replicate 32 97 @ [1, 0, 0, 0, 0]),
       pa_signature = to_base64_url [0x30, 6, 2, 1, 1, 2, 1, 1]\<rparr>\<rparr>"

definition plain_policy :: connection_policy where
  "plain_policy = \<lparr>cp_origins = [[]], cp_rp_id = replicate 32 97, cp_require_uv = False\<rparr>"

lemma decode_empty: "from_base64_url [] = Some []"
  using from_to_base64_url [of "[]"] by (simp add: to_base64_url.simps)

lemma plain_preimage: "\<exists>x. presence_preimage plain_binding [] = Some x"
  by (simp add: presence_preimage_def plain_binding_def binding_fields_def decode_empty is_bounded_string_def)

lemma plain_client_data: "parsed_client_data plain_env [] =
    Some ([], \<lparr>cd_type = Some (js ''webauthn.get''), cd_challenge = presence_challenge plain_env plain_binding [], cd_origin = Some []\<rparr>)"
proof -
  have "utf8_decode [] = Some []" by (subst utf8_decode.simps) simp
  then show ?thesis
    by (simp add: parsed_client_data_def decode_empty presence_challenge_def plain_env_def map_option_case split: option.splits)
qed

lemma plain_signature: "check_signature plain_env (pp_assertion plain_proof) [] auth [] = Inr ()"
proof -
  have "\<exists>raw. ecdsa_der_to_raw [0x30, 6, 2, 1, 1, 2, 1, 1] p256_coordinate_length = Inr raw"
    by (simp add: ecdsa_der_to_raw_def der_sequence_header_def read_der_integer_def Let_def p256_coordinate_length_def)
  then show ?thesis
    by (auto simp: check_signature_def decode_empty plain_env_def plain_proof_def from_to_base64_url)
qed

lemma plain_accepted: "\<exists>h. verify_presence_proof plain_env plain_proof plain_binding plain_policy = Inr h"
proof -
  obtain x where x: "presence_preimage plain_binding [] = Some x" using plain_preimage by blast
  have ch: "presence_challenge plain_env plain_binding [] = Some (to_base64_url x)"
    by (simp add: presence_challenge_def x) (simp add: plain_env_def)
  have shape: "is_presence_proof_v1 plain_proof"
    by (simp add: is_presence_proof_v1_def plain_proof_def is_presence_binding_def plain_binding_def is_passkey_assertion_def
        is_bounded_string_def length_to_base64_url base64_url_length_def ceremony_field_limit_def)
  have utf8: "utf8_encode (replicate 32 97) = replicate 32 97"
    by (subst utf8_ascii) (simp_all add: list_all_iff byte_def map_replicate_const)
  have "\<exists>r. verify_passkey_assertion plain_env (pp_assertion plain_proof) [] (to_base64_url x) plain_policy = Inr r"
    using plain_client_data plain_signature ch
    by (simp add: verify_passkey_assertion_def plain_proof_def plain_policy_def base64_url_values_equal_def from_to_base64_url
        constant_time_equal_iff authenticator_data_min_length_def utf8 flag_user_present_def plain_env_def nth_append)
  moreover have "hash_passkey_public_key plain_env [] = Some []"
    by (simp add: hash_passkey_public_key_def decode_empty plain_env_def to_base64_url.simps)
  ultimately show ?thesis
    using shape ch by (auto simp: verify_presence_proof_def binding_equals_iff plain_proof_def plain_binding_def split: sum.splits)
qed

lemma presence_proof_bound_to_ceremony_witness:
  "(\<exists>h. verify_presence_proof plain_env plain_proof plain_binding plain_policy = Inr h) \<and>
   plain_binding = pp_binding plain_proof \<and> [] = pp_relay_nonce plain_proof"
proof -
  obtain h where h: "verify_presence_proof plain_env plain_proof plain_binding plain_policy = Inr h"
    using plain_accepted by blast
  have free: "collision_free plain_env" by (simp add: collision_free_def plain_env_def)
  have canon: "canonical_binding plain_binding"
    by (simp add: canonical_binding_def plain_binding_def is_presence_binding_def is_bounded_string_def)
  have cd: "parsed_client_data plain_env (pa_client_data (pp_assertion plain_proof)) =
      Some ([], \<lparr>cd_type = Some (js ''webauthn.get''), cd_challenge = presence_challenge plain_env plain_binding [], cd_origin = Some []\<rparr>)"
    using plain_client_data by (simp add: plain_proof_def)
  have "plain_binding = plain_binding \<and> [] = pp_relay_nonce plain_proof"
    by (rule presence_proof_bound_to_ceremony [OF h free cd _ canon canon]) (simp_all add: plain_proof_def)
  then show ?thesis using h by (auto simp: plain_proof_def)
qed

text \<open>A raw P-256 signature converted to DER converts back to the same 64 bytes, whatever leading zeros or sign bits
  its coordinates have.\<close>

lemma signature_round_trip:
  assumes "length raw = 2 * p256_coordinate_length"
  shows "\<exists>der. ecdsa_raw_to_der raw = Inr der \<and> ecdsa_der_to_raw der p256_coordinate_length = Inr raw"
  by (rule der_round_trip [OF assms])

end
