(* ===== verification/Remote_Json.thy ===== *)
theory Remote_Json
  imports Js_Text Prelude "HOL-Library.AList"
begin

text \<open>
  The values \<open>JSON.parse\<close> gives and the reads the sources make of them. An object is the list of
  its entries in the order of the text; a key written twice has the value of its last entry, as
  after \<open>JSON.parse\<close>. A number too large for a double parses to an infinity, so
  \<open>Number.isFinite\<close> is a question about a parsed number too.
\<close>

datatype json =
    JNull
  | JBool bool
  | JNum js_num
  | JInfinity bool
  | JStr js_text
  | JArr "json list"
  | JObj "(js_text \<times> json) list"

text \<open>\<open>value !== null && typeof value === 'object'\<close>: objects and arrays.\<close>

fun is_object :: "json \<Rightarrow> bool" where
  "is_object (JArr vs) = True"
| "is_object (JObj kvs) = True"
| "is_object v = False"

text \<open>
  \<open>value.key\<close> for the keys the sources read, none of which an array, a string or a prototype has;
  \<open>None\<close> is \<open>undefined\<close>.
\<close>

fun jprop :: "js_text \<Rightarrow> json \<Rightarrow> json option" where
  "jprop k (JObj kvs) = map_of (rev kvs) k"
| "jprop k v = None"

text \<open>What a type guard asks of a value that may be \<open>undefined\<close>.\<close>

definition string_such :: "(js_text \<Rightarrow> bool) \<Rightarrow> json option \<Rightarrow> bool" where
  "string_such P v = (case v of Some (JStr s) \<Rightarrow> P s | _ \<Rightarrow> False)"

definition is_literal :: "js_text \<Rightarrow> json option \<Rightarrow> bool" where
  "is_literal s v = string_such (\<lambda>t. t = s) v"

definition finite_such :: "(js_num \<Rightarrow> bool) \<Rightarrow> json option \<Rightarrow> bool" where
  "finite_such P v = (case v of Some (JNum n) \<Rightarrow> P n | _ \<Rightarrow> False)"

definition is_number :: "json option \<Rightarrow> bool" where
  "is_number v = (case v of Some (JNum n) \<Rightarrow> True | Some (JInfinity b) \<Rightarrow> True | _ \<Rightarrow> False)"

text \<open>A property a guard has found to be a string.\<close>

definition text_prop :: "js_text \<Rightarrow> json \<Rightarrow> js_text" where
  "text_prop k v = (case jprop k v of Some (JStr s) \<Rightarrow> s | _ \<Rightarrow> [])"

text \<open>A property copied into an object literal: \<open>JSON.stringify\<close> leaves out one that is undefined.\<close>

definition literal_entry :: "js_text \<Rightarrow> json option \<Rightarrow> (js_text \<times> json) list" where
  "literal_entry k v = (case v of None \<Rightarrow> [] | Some w \<Rightarrow> [(k, w)])"

section \<open>Facts\<close>

lemma string_such_Some [simp]:
  "string_such P v \<longleftrightarrow> (\<exists>s. v = Some (JStr s) \<and> P s)"
  by (auto simp: string_such_def split: option.splits json.splits)

lemma is_literal_Some [simp]: "is_literal s v \<longleftrightarrow> v = Some (JStr s)"
  by (auto simp: is_literal_def)

lemma finite_such_Some [simp]: "finite_such P v \<longleftrightarrow> (\<exists>n. v = Some (JNum n) \<and> P n)"
  by (auto simp: finite_such_def split: option.splits json.splits)

lemma prop_Some_object: "jprop k v = Some w \<Longrightarrow> is_object v"
  by (cases v) auto

section \<open>Maps in insertion order\<close>

lemma AList_maps [simp]:
  "map_of (AList.update k v xs) = (map_of xs)(k \<mapsto> v)"
  "map_of (AList.delete k xs) = (map_of xs)(k := None)"
  by (simp_all add: update_conv' delete_conv')

lemma length_update_le: "length (AList.update k v xs) \<le> Suc (length xs)"
  by (induction xs) auto

lemma length_update_present: "map_of xs k \<noteq> None \<Longrightarrow> length (AList.update k v xs) = length xs"
  by (induction xs) auto

lemma length_delete_le: "length (AList.delete k xs) \<le> length xs"
  by (induction xs) auto

lemma filter_delete:
  "filter (\<lambda>(k', c). k' \<notin> K) (AList.delete k xs) = filter (\<lambda>(k', c). k' \<notin> insert k K) xs"
  by (induction xs) auto

lemma set_delete_subset: "set (AList.delete k xs) \<subseteq> set xs"
  by (induction xs) auto

lemma map_of_subset_None: "set ys \<subseteq> set xs \<Longrightarrow> map_of xs k = None \<Longrightarrow> map_of ys k = None"
  by (auto simp: map_of_eq_None_iff)

end
