(* ===== verification/Remote_Wire.thy ===== *)
theory Remote_Wire
  imports Remote_Json Sec_Framing
begin

text \<open>
  The wire contract (\<open>remote-lib-common/src/remote/wire.ts\<close>): the bounds on the routing fields of an
  end-to-end frame and the guards the Relay, the Burrow and the Client run on what they receive.
\<close>

definition e2e_id_byte_length :: nat where "e2e_id_byte_length = 16"

definition e2e_id_length :: nat where "e2e_id_length = base64_url_length e2e_id_byte_length"

definition max_e2e_ciphertext_length :: nat where
  "max_e2e_ciphertext_length = base64_url_length noise_max_message_length"

definition max_client_id_length :: nat where "max_client_id_length = 256"

definition max_relay_to_burrow_frame_length :: nat where
  "max_relay_to_burrow_frame_length = max_e2e_ciphertext_length + max_client_id_length + 512"

definition is_e2e_kind :: "json option \<Rightarrow> bool" where
  "is_e2e_kind v \<longleftrightarrow> is_literal (js ''pairing'') v \<or> is_literal (js ''connection'') v"

definition is_e2e_id :: "json option \<Rightarrow> bool" where
  "is_e2e_id = string_such (\<lambda>s. is_exact_base64_url s e2e_id_length)"

definition is_e2e_ciphertext :: "json option \<Rightarrow> bool" where
  "is_e2e_ciphertext = string_such (\<lambda>s. is_bounded_base64_url s max_e2e_ciphertext_length)"

definition is_client_id :: "json option \<Rightarrow> bool" where
  "is_client_id = string_such (\<lambda>s. is_bounded_string s max_client_id_length)"

definition is_e2e_client_frame :: "json \<Rightarrow> bool" where
  "is_e2e_client_frame v \<longleftrightarrow> is_object v \<and>
     is_literal (js ''e2e'') (jprop (js ''t'') v) \<and>
     is_e2e_id (jprop (js ''burrowId'') v) \<and>
     is_e2e_kind (jprop (js ''kind'') v) \<and>
     is_e2e_id (jprop (js ''id'') v) \<and>
     (is_literal (js ''init'') (jprop (js ''step'') v) \<or> is_literal (js ''transport'') (jprop (js ''step'') v)) \<and>
     is_e2e_ciphertext (jprop (js ''ct'') v)"

definition is_e2e_relay_to_burrow_frame :: "json \<Rightarrow> bool" where
  "is_e2e_relay_to_burrow_frame v \<longleftrightarrow> is_client_id (jprop (js ''clientId'') v) \<and> is_e2e_client_frame v"

definition is_e2e_relay_to_client_frame :: "json \<Rightarrow> bool" where
  "is_e2e_relay_to_client_frame v \<longleftrightarrow> is_object v \<and>
     is_literal (js ''e2e'') (jprop (js ''t'') v) \<and>
     is_e2e_id (jprop (js ''burrowId'') v) \<and>
     is_e2e_kind (jprop (js ''kind'') v) \<and>
     is_e2e_id (jprop (js ''id'') v) \<and>
     (is_literal (js ''response'') (jprop (js ''step'') v) \<or> is_literal (js ''transport'') (jprop (js ''step'') v)) \<and>
     is_e2e_ciphertext (jprop (js ''ct'') v)"

definition is_e2e_burrow_frame :: "json \<Rightarrow> bool" where
  "is_e2e_burrow_frame v \<longleftrightarrow> is_object v \<and>
     is_literal (js ''e2e'') (jprop (js ''t'') v) \<and>
     is_client_id (jprop (js ''clientId'') v) \<and>
     is_e2e_kind (jprop (js ''kind'') v) \<and>
     is_e2e_id (jprop (js ''id'') v) \<and>
     (is_literal (js ''response'') (jprop (js ''step'') v) \<or> is_literal (js ''transport'') (jprop (js ''step'') v)) \<and>
     is_e2e_ciphertext (jprop (js ''ct'') v)"

section \<open>Other guards of the contract\<close>

definition max_tokens_per_burrow :: nat where "max_tokens_per_burrow = 8"

definition setup_token_max_length :: nat where "setup_token_max_length = 128"

definition is_setup_token_handle :: "json option \<Rightarrow> bool" where
  "is_setup_token_handle = string_such (\<lambda>s. is_bounded_base64_url s setup_token_max_length)"

definition is_setup_token_response :: "json \<Rightarrow> bool" where
  "is_setup_token_response v \<longleftrightarrow> is_object v \<and>
     is_setup_token_handle (jprop (js ''token'') v) \<and>
     finite_such (\<lambda>n. 0 < n) (jprop (js ''expiresAt'') v)"

definition ws_close_burrow_replaced :: int where "ws_close_burrow_replaced = 4000"

definition ws_close_burrow_replaced_reason :: js_text where
  "ws_close_burrow_replaced_reason = js ''replaced by a newer burrow connection''"

definition ws_close_burrow_revoked :: int where "ws_close_burrow_revoked = 4001"

definition ws_close_burrow_revoked_reason :: js_text where
  "ws_close_burrow_revoked_reason = js ''this burrow is no longer enrolled''"

definition max_terminal_dimension :: int where "max_terminal_dimension = 2000"

text \<open>A peer's number as it arrives: absent, an infinity or \<open>NaN\<close> are \<open>None\<close>.\<close>

definition clamp_terminal_dimension :: "js_num option \<Rightarrow> js_num \<Rightarrow> js_num" where
  "clamp_terminal_dimension v fallback =
     (case v of None \<Rightarrow> fallback | Some x \<Rightarrow> of_int (min max_terminal_dimension (max 1 \<lfloor>x\<rfloor>)))"

end
