(* ===== verification/Relay_Hub.thy ===== *)
theory Relay_Hub
  imports Remote_Wire "HOL-Library.AList"
begin

text \<open>
  The in-memory relay hub (\<open>relay/src/relay.ts\<close>). It holds one socket per Burrow and one per
  Client, and the Burrow each Client is bound to; it forwards end-to-end frames inside a binding and
  never decodes them.

  A connection object is compared by identity, so it carries a number of its own, \<open>bc_id\<close> or
  \<open>cc_id\<close>, that the hub draws when it makes the object. A Burrow's object is never changed after
  that and is its own handle; a Client's is, so its handle \<open>client_ref\<close> is its number and its
  \<open>clientId\<close>. A Map is an association list in insertion order. Sockets are numbers; what the
  hub does to them is recorded in order in \<open>hub_out\<close>, a frame as the value that is stringified.
  \<open>parse\<close> is \<open>JSON.parse\<close>, with \<open>None\<close> where it throws.
\<close>

record burrow_conn =
  bc_id :: nat
  bc_burrow :: js_text
  bc_socket :: nat

record client_conn =
  cc_id :: nat
  cc_client :: js_text
  cc_socket :: nat
  cc_expires :: int
  cc_burrow :: "js_text option"

record client_ref =
  ref_id :: nat
  ref_client :: js_text

datatype relay_effect = Sent nat json | Closed nat int js_text

record hub =
  hub_burrows :: "(js_text \<times> burrow_conn) list"
  hub_clients :: "(js_text \<times> client_conn) list"
  hub_next :: nat
  hub_out :: "relay_effect list"

definition max_relay_client_sockets :: nat where "max_relay_client_sockets = 64"

definition ws_close_unauthorized :: int where "ws_close_unauthorized = 1008"

definition ws_close_unauthorized_reason :: js_text where
  "ws_close_unauthorized_reason = js ''unauthorized''"

definition new_hub :: hub where
  "new_hub = \<lparr>hub_burrows = [], hub_clients = [], hub_next = 0, hub_out = []\<rparr>"

section \<open>Helpers\<close>

definition parse_frame :: "(js_text \<Rightarrow> json option) \<Rightarrow> js_text \<Rightarrow> json option" where
  "parse_frame parse raw =
     (case parse raw of None \<Rightarrow> None | Some v \<Rightarrow> if is_object v then Some v else None)"

definition safe_send :: "nat \<Rightarrow> json \<Rightarrow> hub \<Rightarrow> hub" where
  "safe_send socket frame h = h\<lparr>hub_out := hub_out h @ [Sent socket frame]\<rparr>"

definition safe_close :: "nat \<Rightarrow> int \<Rightarrow> js_text \<Rightarrow> hub \<Rightarrow> hub" where
  "safe_close socket code reason h = h\<lparr>hub_out := hub_out h @ [Closed socket code reason]\<rparr>"

definition to_client :: "client_conn \<Rightarrow> json \<Rightarrow> hub \<Rightarrow> hub" where
  "to_client client = safe_send (cc_socket client)"

definition to_burrow :: "burrow_conn \<Rightarrow> json \<Rightarrow> hub \<Rightarrow> hub" where
  "to_burrow burrow = safe_send (bc_socket burrow)"

definition burrow_gone_frame :: json where
  "burrow_gone_frame = JObj [(js ''t'', JStr (js ''burrow-gone''))]"

definition error_frame :: "js_text \<Rightarrow> json" where
  "error_frame message = JObj [(js ''t'', JStr (js ''error'')), (js ''error'', JStr message)]"

definition client_gone_frame :: "js_text \<Rightarrow> json" where
  "client_gone_frame client = JObj [(js ''t'', JStr (js ''client-gone'')), (js ''clientId'', JStr client)]"

text \<open>The two object literals a frame is forwarded as.\<close>

definition frame_for_client :: "js_text \<Rightarrow> json \<Rightarrow> json" where
  "frame_for_client burrow frame =
     JObj ([(js ''t'', JStr (js ''e2e'')), (js ''burrowId'', JStr burrow)]
       @ literal_entry (js ''kind'') (jprop (js ''kind'') frame)
       @ literal_entry (js ''id'') (jprop (js ''id'') frame)
       @ literal_entry (js ''step'') (jprop (js ''step'') frame)
       @ literal_entry (js ''ct'') (jprop (js ''ct'') frame))"

definition frame_for_burrow :: "js_text \<Rightarrow> json \<Rightarrow> json" where
  "frame_for_burrow client frame =
     JObj ([(js ''t'', JStr (js ''e2e'')), (js ''clientId'', JStr client)]
       @ literal_entry (js ''burrowId'') (jprop (js ''burrowId'') frame)
       @ literal_entry (js ''kind'') (jprop (js ''kind'') frame)
       @ literal_entry (js ''id'') (jprop (js ''id'') frame)
       @ literal_entry (js ''step'') (jprop (js ''step'') frame)
       @ literal_entry (js ''ct'') (jprop (js ''ct'') frame))"

section \<open>Burrows\<close>

definition is_burrow_online :: "js_text \<Rightarrow> hub \<Rightarrow> bool" where
  "is_burrow_online burrow h \<longleftrightarrow> map_of (hub_burrows h) burrow \<noteq> None"

definition online_burrow_ids :: "hub \<Rightarrow> js_text list" where
  "online_burrow_ids h = map fst (hub_burrows h)"

definition bound_to :: "js_text \<Rightarrow> client_conn \<Rightarrow> bool" where
  "bound_to burrow client \<longleftrightarrow> cc_burrow client = Some burrow"

definition drop_clients_of :: "js_text \<Rightarrow> hub \<Rightarrow> hub" where
  "drop_clients_of burrow h =
     h\<lparr>hub_clients := map (\<lambda>(k, c). (k, if bound_to burrow c then c\<lparr>cc_burrow := None\<rparr> else c)) (hub_clients h),
       hub_out := hub_out h @
         map (\<lambda>(k, c). Sent (cc_socket c) burrow_gone_frame) (filter (\<lambda>(k, c). bound_to burrow c) (hub_clients h))\<rparr>"

text \<open>The generation guard: only the object the map points at speaks for its \<open>burrowId\<close>.\<close>

definition current_burrow :: "burrow_conn \<Rightarrow> hub \<Rightarrow> bool" where
  "current_burrow burrow h \<longleftrightarrow>
     (case map_of (hub_burrows h) (bc_burrow burrow) of None \<Rightarrow> False | Some c \<Rightarrow> bc_id c = bc_id burrow)"

definition unregister_burrow :: "burrow_conn \<Rightarrow> hub \<Rightarrow> hub" where
  "unregister_burrow burrow h =
     (if \<not> current_burrow burrow h then h
      else drop_clients_of (bc_burrow burrow) (h\<lparr>hub_burrows := AList.delete (bc_burrow burrow) (hub_burrows h)\<rparr>))"

definition close_burrow :: "js_text \<Rightarrow> hub \<Rightarrow> hub \<times> bool" where
  "close_burrow burrow h =
     (case map_of (hub_burrows h) burrow of
        None \<Rightarrow> (h, False)
      | Some conn \<Rightarrow>
          (safe_close (bc_socket conn) ws_close_burrow_revoked ws_close_burrow_revoked_reason
             (unregister_burrow conn h), True))"

definition register_burrow :: "js_text \<Rightarrow> nat \<Rightarrow> hub \<Rightarrow> hub \<times> burrow_conn" where
  "register_burrow burrow socket h =
     (let conn = \<lparr>bc_id = hub_next h, bc_burrow = burrow, bc_socket = socket\<rparr>;
          h1 = h\<lparr>hub_next := hub_next h + 1, hub_burrows := AList.update burrow conn (hub_burrows h)\<rparr>
      in (case map_of (hub_burrows h) burrow of
            None \<Rightarrow> h1
          | Some existing \<Rightarrow>
              safe_close (bc_socket existing) ws_close_burrow_replaced ws_close_burrow_replaced_reason
                (drop_clients_of burrow h1),
          conn))"

definition on_burrow_frame :: "(js_text \<Rightarrow> json option) \<Rightarrow> burrow_conn \<Rightarrow> js_text \<Rightarrow> hub \<Rightarrow> hub" where
  "on_burrow_frame parse burrow raw h =
     (if \<not> current_burrow burrow h then h
      else case parse_frame parse raw of
        None \<Rightarrow> h
      | Some frame \<Rightarrow>
          if \<not> is_e2e_burrow_frame frame then h
          else case map_of (hub_clients h) (text_prop (js ''clientId'') frame) of
            None \<Rightarrow> h
          | Some client \<Rightarrow>
              if cc_burrow client \<noteq> Some (bc_burrow burrow) then h
              else to_client client (frame_for_client (bc_burrow burrow) frame) h)"

section \<open>Clients\<close>

definition client_count :: "hub \<Rightarrow> nat" where
  "client_count h = length (hub_clients h)"

definition register_client :: "bytes \<Rightarrow> nat \<Rightarrow> int \<Rightarrow> hub \<Rightarrow> hub \<times> client_ref option" where
  "register_client random socket expires h =
     (if max_relay_client_sockets \<le> length (hub_clients h) then (h, None)
      else let client = to_base64_url random;
               conn = \<lparr>cc_id = hub_next h, cc_client = client, cc_socket = socket, cc_expires = expires,
                       cc_burrow = None\<rparr>
           in (h\<lparr>hub_next := hub_next h + 1, hub_clients := AList.update client conn (hub_clients h)\<rparr>,
               Some \<lparr>ref_id = hub_next h, ref_client = client\<rparr>))"

text \<open>The object the map points at, when it is the one the handle names.\<close>

definition current_client :: "client_ref \<Rightarrow> hub \<Rightarrow> client_conn option" where
  "current_client r h =
     (case map_of (hub_clients h) (ref_client r) of
        None \<Rightarrow> None
      | Some c \<Rightarrow> if cc_id c = ref_id r then Some c else None)"

definition unregister_client :: "client_ref \<Rightarrow> hub \<Rightarrow> hub" where
  "unregister_client r h =
     (case current_client r h of
        None \<Rightarrow> h
      | Some client \<Rightarrow>
          let h1 = h\<lparr>hub_clients := AList.delete (cc_client client) (hub_clients h)\<rparr>
          in case cc_burrow client of
               None \<Rightarrow> h1
             | Some b \<Rightarrow>
                 (case map_of (hub_burrows h1) b of
                    None \<Rightarrow> h1
                  | Some burrow \<Rightarrow> to_burrow burrow (client_gone_frame (cc_client client)) h1))"

definition ref_of :: "client_conn \<Rightarrow> client_ref" where
  "ref_of c = \<lparr>ref_id = cc_id c, ref_client = cc_client c\<rparr>"

text \<open>The loop runs over the clients as they were when it began.\<close>

fun close_expired_loop :: "int \<Rightarrow> client_conn list \<Rightarrow> nat \<Rightarrow> hub \<Rightarrow> hub \<times> nat" where
  "close_expired_loop now [] n h = (h, n)"
| "close_expired_loop now (client # rest) n h =
     (if now < cc_expires client then close_expired_loop now rest n h
      else close_expired_loop now rest (n + 1)
             (safe_close (cc_socket client) ws_close_unauthorized ws_close_unauthorized_reason
               (unregister_client (ref_of client) h)))"

definition close_expired_clients :: "int \<Rightarrow> hub \<Rightarrow> hub \<times> nat" where
  "close_expired_clients now h = close_expired_loop now (map snd (hub_clients h)) 0 h"

definition bind_client_to_burrow :: "client_conn \<Rightarrow> js_text \<Rightarrow> hub \<Rightarrow> hub" where
  "bind_client_to_burrow client burrow h =
     (let told = (case cc_burrow client of
                    None \<Rightarrow> h
                  | Some previous \<Rightarrow>
                      if previous = burrow then h
                      else case map_of (hub_burrows h) previous of
                             None \<Rightarrow> h
                           | Some conn \<Rightarrow> to_burrow conn (client_gone_frame (cc_client client)) h)
      in told\<lparr>hub_clients :=
           AList.update (cc_client client) (client\<lparr>cc_burrow := Some burrow\<rparr>) (hub_clients told)\<rparr>)"

definition offline_message :: "js_text \<Rightarrow> js_text" where
  "offline_message burrow = js ''burrow '' @ burrow @ js '' is offline''"

definition resolve_burrow :: "client_conn \<Rightarrow> js_text \<Rightarrow> hub \<Rightarrow> hub \<times> burrow_conn option" where
  "resolve_burrow client burrow h =
     (case map_of (hub_burrows h) burrow of
        None \<Rightarrow> (to_client client (error_frame (offline_message burrow)) h, None)
      | Some conn \<Rightarrow> (h, Some conn))"

definition on_client_frame :: "(js_text \<Rightarrow> json option) \<Rightarrow> client_ref \<Rightarrow> js_text \<Rightarrow> hub \<Rightarrow> hub" where
  "on_client_frame parse r raw h =
     (case current_client r h of
        None \<Rightarrow> h
      | Some client \<Rightarrow>
          (case parse_frame parse raw of
             None \<Rightarrow> to_client client (error_frame (js ''malformed frame'')) h
           | Some frame \<Rightarrow>
               if \<not> string_such (\<lambda>t. True) (jprop (js ''t'') frame)
               then to_client client (error_frame (js ''malformed frame'')) h
               else if \<not> is_literal (js ''e2e'') (jprop (js ''t'') frame)
               then to_client client (error_frame (js ''unknown frame type'')) h
               else if \<not> is_e2e_client_frame frame
               then to_client client (error_frame (js ''malformed e2e frame'')) h
               else let target = text_prop (js ''burrowId'') frame
                    in case resolve_burrow client target h of
                         (h1, None) \<Rightarrow> h1
                       | (h1, Some burrow) \<Rightarrow>
                           if is_literal (js ''init'') (jprop (js ''step'') frame)
                           then to_burrow burrow (frame_for_burrow (cc_client client) frame)
                                  (bind_client_to_burrow client target h1)
                           else if cc_burrow client \<noteq> Some target then h1
                           else to_burrow burrow (frame_for_burrow (cc_client client) frame) h1))"

section \<open>Runs\<close>

text \<open>What reaches the hub: sockets opening, sending and closing, and the two sweeps.\<close>

datatype hub_event =
    BurrowOpens js_text nat
  | BurrowSends burrow_conn js_text
  | BurrowCloses burrow_conn
  | BurrowRevoked js_text
  | ClientOpens bytes nat int
  | ClientSends client_ref js_text
  | ClientCloses client_ref
  | ExpirySweep int

fun hub_step :: "(js_text \<Rightarrow> json option) \<Rightarrow> hub_event \<Rightarrow> hub \<Rightarrow> hub" where
  "hub_step parse (BurrowOpens burrow socket) h = fst (register_burrow burrow socket h)"
| "hub_step parse (BurrowSends conn raw) h = on_burrow_frame parse conn raw h"
| "hub_step parse (BurrowCloses conn) h = unregister_burrow conn h"
| "hub_step parse (BurrowRevoked burrow) h = fst (close_burrow burrow h)"
| "hub_step parse (ClientOpens random socket expires) h = fst (register_client random socket expires h)"
| "hub_step parse (ClientSends r raw) h = on_client_frame parse r raw h"
| "hub_step parse (ClientCloses r) h = unregister_client r h"
| "hub_step parse (ExpirySweep now) h = fst (close_expired_clients now h)"

end
