(* ===== verification/Relay_Facts.thy ===== *)
theory Relay_Facts
  imports Relay_Hub
begin

text \<open>
  Facts on the relay hub: what each helper does to each field of the state, what the frames it
  builds say, the invariant of its maps, and the agreement between a binding and the frames the
  bound Burrow has been sent.
\<close>

section \<open>Frames\<close>

lemma key_texts:
  "js ''burrowId'' \<noteq> js ''t''" "js ''clientId'' \<noteq> js ''t''" "js ''kind'' \<noteq> js ''t''" "js ''id'' \<noteq> js ''t''"
  "js ''step'' \<noteq> js ''t''" "js ''ct'' \<noteq> js ''t''" "js ''burrowId'' \<noteq> js ''clientId''"
  "js ''kind'' \<noteq> js ''clientId''" "js ''id'' \<noteq> js ''clientId''" "js ''step'' \<noteq> js ''clientId''"
  "js ''ct'' \<noteq> js ''clientId''" "js ''kind'' \<noteq> js ''burrowId''" "js ''id'' \<noteq> js ''burrowId''"
  "js ''step'' \<noteq> js ''burrowId''" "js ''ct'' \<noteq> js ''burrowId''" "js ''id'' \<noteq> js ''kind''"
  "js ''step'' \<noteq> js ''kind''" "js ''ct'' \<noteq> js ''kind''" "js ''step'' \<noteq> js ''id''" "js ''ct'' \<noteq> js ''id''"
  "js ''ct'' \<noteq> js ''step''" "js ''error'' \<noteq> js ''t''"
  "js ''client-gone'' \<noteq> js ''e2e''" "js ''burrow-gone'' \<noteq> js ''e2e''" "js ''error'' \<noteq> js ''e2e''"
  "js ''client-gone'' \<noteq> js ''error''" "js ''client-gone'' \<noteq> js ''burrow-gone''"
  "js ''init'' \<noteq> js ''transport''" "js ''init'' \<noteq> js ''response''"
  by (simp_all add: js_def)

lemmas key_text_simps [simp] = key_texts key_texts [symmetric]

lemma map_of_literal_entry [simp]: "map_of (rev (literal_entry k v)) k' = (if k = k' then v else None)"
  by (auto simp: literal_entry_def split: option.splits)

lemma prop_frame_for_burrow [simp]:
  "jprop (js ''t'') (frame_for_burrow c f) = Some (JStr (js ''e2e''))"
  "jprop (js ''clientId'') (frame_for_burrow c f) = Some (JStr c)"
  "jprop (js ''burrowId'') (frame_for_burrow c f) = jprop (js ''burrowId'') f"
  "jprop (js ''kind'') (frame_for_burrow c f) = jprop (js ''kind'') f"
  "jprop (js ''id'') (frame_for_burrow c f) = jprop (js ''id'') f"
  "jprop (js ''step'') (frame_for_burrow c f) = jprop (js ''step'') f"
  "jprop (js ''ct'') (frame_for_burrow c f) = jprop (js ''ct'') f"
  by (simp_all add: frame_for_burrow_def map_add_def split: option.splits)

lemma prop_frame_for_client [simp]:
  "jprop (js ''t'') (frame_for_client b f) = Some (JStr (js ''e2e''))"
  "jprop (js ''burrowId'') (frame_for_client b f) = Some (JStr b)"
  "jprop (js ''kind'') (frame_for_client b f) = jprop (js ''kind'') f"
  "jprop (js ''id'') (frame_for_client b f) = jprop (js ''id'') f"
  "jprop (js ''step'') (frame_for_client b f) = jprop (js ''step'') f"
  "jprop (js ''ct'') (frame_for_client b f) = jprop (js ''ct'') f"
  by (simp_all add: frame_for_client_def map_add_def split: option.splits)

lemma prop_notices [simp]:
  "jprop (js ''t'') burrow_gone_frame = Some (JStr (js ''burrow-gone''))"
  "jprop (js ''t'') (error_frame m) = Some (JStr (js ''error''))"
  "jprop (js ''t'') (client_gone_frame c) = Some (JStr (js ''client-gone''))"
  "jprop (js ''clientId'') (client_gone_frame c) = Some (JStr c)"
  by (simp_all add: burrow_gone_frame_def error_frame_def client_gone_frame_def)

lemma is_object_frames [simp]: "is_object (frame_for_burrow c f)" "is_object (frame_for_client b f)"
  by (simp_all add: frame_for_burrow_def frame_for_client_def)

lemma frame_for_burrow_guard:
  assumes "is_e2e_client_frame f" "length c \<le> max_client_id_length"
  shows "is_e2e_relay_to_burrow_frame (frame_for_burrow c f)"
  using assms by (simp add: is_e2e_relay_to_burrow_frame_def is_e2e_client_frame_def is_client_id_def
      is_bounded_string_def is_e2e_kind_def)

lemma frame_for_client_guard:
  assumes "is_e2e_burrow_frame f" "is_exact_base64_url b e2e_id_length"
  shows "is_e2e_relay_to_client_frame (frame_for_client b f)"
  using assms by (simp add: is_e2e_relay_to_client_frame_def is_e2e_burrow_frame_def is_e2e_id_def is_e2e_kind_def)

section \<open>What each helper changes\<close>

lemma sends [simp]:
  "hub_burrows (to_client c f h) = hub_burrows h" "hub_clients (to_client c f h) = hub_clients h"
  "hub_next (to_client c f h) = hub_next h" "hub_out (to_client c f h) = hub_out h @ [Sent (cc_socket c) f]"
  "hub_burrows (to_burrow b f h) = hub_burrows h" "hub_clients (to_burrow b f h) = hub_clients h"
  "hub_next (to_burrow b f h) = hub_next h" "hub_out (to_burrow b f h) = hub_out h @ [Sent (bc_socket b) f]"
  "hub_burrows (safe_close s code r h) = hub_burrows h" "hub_clients (safe_close s code r h) = hub_clients h"
  "hub_next (safe_close s code r h) = hub_next h" "hub_out (safe_close s code r h) = hub_out h @ [Closed s code r]"
  by (simp_all add: to_client_def to_burrow_def safe_send_def safe_close_def)

lemma drop_clients_of_simps [simp]:
  "hub_burrows (drop_clients_of b h) = hub_burrows h"
  "hub_next (drop_clients_of b h) = hub_next h"
  "map fst (hub_clients (drop_clients_of b h)) = map fst (hub_clients h)"
  "length (hub_clients (drop_clients_of b h)) = length (hub_clients h)"
  by (auto simp: drop_clients_of_def)

definition release_from :: "js_text \<Rightarrow> client_conn \<Rightarrow> client_conn" where
  "release_from b c = (if bound_to b c then c\<lparr>cc_burrow := None\<rparr> else c)"

lemma release_from_simps [simp]:
  "cc_id (release_from b c) = cc_id c" "cc_client (release_from b c) = cc_client c"
  "cc_socket (release_from b c) = cc_socket c" "cc_expires (release_from b c) = cc_expires c"
  "cc_burrow (release_from b c) = (if cc_burrow c = Some b then None else cc_burrow c)"
  by (auto simp: release_from_def bound_to_def)

lemma drop_clients_map [simp]:
  "map_of (hub_clients (drop_clients_of b h)) k = map_option (release_from b) (map_of (hub_clients h) k)"
  by (simp add: drop_clients_of_def release_from_def [symmetric] map_of_map)

section \<open>What a Burrow has been told\<close>

text \<open>The frames put on one socket, in order.\<close>

fun delivered :: "nat \<Rightarrow> relay_effect list \<Rightarrow> json list" where
  "delivered s [] = []"
| "delivered s (Sent s' f # es) = (if s' = s then f # delivered s es else delivered s es)"
| "delivered s (Closed s' c r # es) = delivered s es"

text \<open>
  Whether a Burrow that reads the frames of its socket counts a Client as present: an \<open>init\<close> opens
  it, \<open>client-gone\<close> ends it.
\<close>

definition learn :: "js_text \<Rightarrow> bool \<Rightarrow> json \<Rightarrow> bool" where
  "learn k present f =
     (if \<not> is_literal k (jprop (js ''clientId'') f) then present
      else if is_literal (js ''client-gone'') (jprop (js ''t'') f) then False
      else if is_literal (js ''e2e'') (jprop (js ''t'') f) \<and> is_literal (js ''init'') (jprop (js ''step'') f) then True
      else present)"

definition knows :: "js_text \<Rightarrow> json list \<Rightarrow> bool" where
  "knows k fs = foldl (learn k) False fs"

lemma delivered_append [simp]: "delivered s (xs @ ys) = delivered s xs @ delivered s ys"
  by (induction s xs rule: delivered.induct) auto

lemma knows_simps [simp]:
  "knows k [] = False" "knows k (fs @ [f]) = learn k (knows k fs) f"
  "knows k (fs @ [f, g]) = learn k (learn k (knows k fs) f) g"
  by (simp_all add: knows_def)

lemma knows_unmentioned: "\<forall>f \<in> set fs. jprop (js ''clientId'') f \<noteq> Some (JStr k) \<Longrightarrow> \<not> knows k fs"
  by (induction fs rule: rev_induct) (auto simp: learn_def)

lemma learn_simps [simp]:
  "learn k present (client_gone_frame k') = (present \<and> k' \<noteq> k)"
  "learn k present (frame_for_burrow k' f) =
     (if k' = k \<and> jprop (js ''step'') f = Some (JStr (js ''init'')) then True else present)"
  by (auto simp: learn_def)

lemma delivered_Nil: "(\<And>f. Sent s f \<notin> set es) \<Longrightarrow> delivered s es = []"
  by (induction s es rule: delivered.induct) auto

lemma delivered_set: "f \<in> set (delivered s es) \<longleftrightarrow> Sent s f \<in> set es"
  by (induction s es rule: delivered.induct) auto

section \<open>The invariant\<close>

text \<open>
  \<open>S\<close> holds the sockets registered so far and \<open>M\<close> the \<open>clientId\<close>s minted so far.
\<close>

definition hub_keyed :: "nat set \<Rightarrow> js_text set \<Rightarrow> hub \<Rightarrow> bool" where
  "hub_keyed S M h \<longleftrightarrow>
     (\<forall>b conn. map_of (hub_burrows h) b = Some conn \<longrightarrow>
        bc_burrow conn = b \<and> bc_socket conn \<in> S \<and> bc_id conn < hub_next h) \<and>
     (\<forall>k c. map_of (hub_clients h) k = Some c \<longrightarrow>
        cc_client c = k \<and> k \<in> M \<and> cc_socket c \<in> S \<and> cc_id c < hub_next h)"

definition hub_bounded :: "hub \<Rightarrow> bool" where
  "hub_bounded h \<longleftrightarrow> distinct (map fst (hub_burrows h)) \<and> distinct (map fst (hub_clients h)) \<and>
     length (hub_clients h) \<le> max_relay_client_sockets"

definition hub_bound_online :: "hub \<Rightarrow> bool" where
  "hub_bound_online h \<longleftrightarrow>
     (\<forall>k c b. map_of (hub_clients h) k = Some c \<longrightarrow> cc_burrow c = Some b \<longrightarrow> map_of (hub_burrows h) b \<noteq> None)"

definition hub_sockets_apart :: "hub \<Rightarrow> bool" where
  "hub_sockets_apart h \<longleftrightarrow>
     (\<forall>b conn b' conn'. map_of (hub_burrows h) b = Some conn \<longrightarrow> map_of (hub_burrows h) b' = Some conn' \<longrightarrow>
        bc_socket conn = bc_socket conn' \<longrightarrow> b = b') \<and>
     (\<forall>b conn k c. map_of (hub_burrows h) b = Some conn \<longrightarrow> map_of (hub_clients h) k = Some c \<longrightarrow>
        bc_socket conn \<noteq> cc_socket c)"

definition hub_logged :: "nat set \<Rightarrow> js_text set \<Rightarrow> hub \<Rightarrow> bool" where
  "hub_logged S M h \<longleftrightarrow>
     (\<forall>s f. Sent s f \<in> set (hub_out h) \<longrightarrow>
        s \<in> S \<and> (\<forall>k. jprop (js ''clientId'') f = Some (JStr k) \<longrightarrow> k \<in> M))"

definition hub_agrees :: "hub \<Rightarrow> bool" where
  "hub_agrees h \<longleftrightarrow>
     (\<forall>b conn k. map_of (hub_burrows h) b = Some conn \<longrightarrow>
        knows k (delivered (bc_socket conn) (hub_out h)) =
          (\<exists>c. map_of (hub_clients h) k = Some c \<and> cc_burrow c = Some b))"

definition hub_inv :: "nat set \<Rightarrow> js_text set \<Rightarrow> hub \<Rightarrow> bool" where
  "hub_inv S M h \<longleftrightarrow> hub_keyed S M h \<and> hub_bounded h \<and> hub_bound_online h \<and> hub_sockets_apart h \<and>
     hub_logged S M h \<and> hub_agrees h"

lemmas hub_inv_defs = hub_inv_def hub_keyed_def hub_bounded_def hub_bound_online_def hub_sockets_apart_def
  hub_logged_def hub_agrees_def

lemma hub_burrow_at:
  "hub_inv S M h \<Longrightarrow> map_of (hub_burrows h) b = Some conn \<Longrightarrow>
   bc_burrow conn = b \<and> bc_socket conn \<in> S \<and> bc_id conn < hub_next h"
  unfolding hub_inv_def hub_keyed_def by blast

lemma hub_client_at:
  "hub_inv S M h \<Longrightarrow> map_of (hub_clients h) k = Some c \<Longrightarrow>
   cc_client c = k \<and> k \<in> M \<and> cc_socket c \<in> S \<and> cc_id c < hub_next h"
  unfolding hub_inv_def hub_keyed_def by blast

lemma hub_binding_online:
  "hub_inv S M h \<Longrightarrow> map_of (hub_clients h) k = Some c \<Longrightarrow> cc_burrow c = Some b \<Longrightarrow>
   map_of (hub_burrows h) b \<noteq> None"
  unfolding hub_inv_def hub_bound_online_def by blast

lemma hub_burrow_sockets:
  "hub_inv S M h \<Longrightarrow> map_of (hub_burrows h) b = Some conn \<Longrightarrow> map_of (hub_burrows h) b' = Some conn' \<Longrightarrow>
   bc_socket conn = bc_socket conn' \<Longrightarrow> b = b'"
  unfolding hub_inv_def hub_sockets_apart_def by blast

lemma hub_client_sockets:
  "hub_inv S M h \<Longrightarrow> map_of (hub_burrows h) b = Some conn \<Longrightarrow> map_of (hub_clients h) k = Some c \<Longrightarrow>
   bc_socket conn \<noteq> cc_socket c"
  unfolding hub_inv_def hub_sockets_apart_def by blast

lemma hub_agreement:
  "hub_inv S M h \<Longrightarrow> map_of (hub_burrows h) b = Some conn \<Longrightarrow>
   knows k (delivered (bc_socket conn) (hub_out h)) =
     (\<exists>c. map_of (hub_clients h) k = Some c \<and> cc_burrow c = Some b)"
  unfolding hub_inv_def hub_agrees_def by blast

lemma hub_inv_new: "hub_inv {} {} new_hub"
  by (simp add: hub_inv_defs new_hub_def)

lemma hub_inv_weaken:
  assumes "hub_inv S M h" "S \<subseteq> S'" "M \<subseteq> M'"
  shows "hub_inv S' M' h"
proof -
  have "hub_keyed S' M' h" using assms unfolding hub_inv_def hub_keyed_def by blast
  moreover have "hub_logged S' M' h" using assms unfolding hub_inv_def hub_logged_def by blast
  ultimately show ?thesis using assms(1) by (simp add: hub_inv_def)
qed

section \<open>Notices to Clients\<close>

text \<open>Effects no Burrow sees: frames without a \<open>clientId\<close> on sockets of \<open>T\<close>, and closes.\<close>

definition unseen :: "nat set \<Rightarrow> relay_effect list \<Rightarrow> bool" where
  "unseen T es \<longleftrightarrow> (\<forall>s f. Sent s f \<in> set es \<longrightarrow> s \<in> T \<and> (\<forall>k. jprop (js ''clientId'') f \<noteq> Some (JStr k)))"

lemma delivered_unseen: "unseen T es \<Longrightarrow> s \<notin> T \<Longrightarrow> delivered s es = []"
  by (rule delivered_Nil) (auto simp: unseen_def)

lemma hub_inv_unseen:
  assumes "hub_inv S M h" "unseen T es" "T \<subseteq> S"
    and "\<And>b conn. map_of (hub_burrows h) b = Some conn \<Longrightarrow> bc_socket conn \<notin> T"
    and h': "hub_burrows h' = hub_burrows h" "hub_clients h' = hub_clients h" "hub_next h' = hub_next h"
      "hub_out h' = hub_out h @ es"
  shows "hub_inv S M h'"
proof -
  have "hub_keyed S M h'" "hub_bounded h'" "hub_bound_online h'" "hub_sockets_apart h'"
    using assms(1) unfolding hub_inv_def hub_keyed_def hub_bounded_def hub_bound_online_def hub_sockets_apart_def h'
    by blast+
  moreover have "hub_logged S M h'"
    using assms(1-3) by (auto simp: hub_inv_def hub_logged_def unseen_def h')
  moreover have "hub_agrees h'"
    using assms(1) delivered_unseen [OF assms(2) assms(4)] by (simp add: hub_inv_def hub_agrees_def h')
  ultimately show ?thesis by (simp add: hub_inv_def)
qed

lemma hub_inv_to_client:
  assumes "hub_inv S M h" "map_of (hub_clients h) k = Some c" "\<forall>k. jprop (js ''clientId'') f \<noteq> Some (JStr k)"
  shows "hub_inv S M (to_client c f h)"
  by (rule hub_inv_unseen [of _ _ h "{cc_socket c}" "[Sent (cc_socket c) f]"])
    (use assms hub_client_at [OF assms(1,2)] hub_client_sockets [OF assms(1) _ assms(2)] in \<open>auto simp: unseen_def\<close>)

lemma hub_inv_close: "hub_inv S M h \<Longrightarrow> hub_inv S M (safe_close s code r h)"
  by (rule hub_inv_unseen [of _ _ h "{}" "[Closed s code r]"]) (auto simp: unseen_def)

lemma notice_props [simp]:
  "jprop (js ''clientId'') burrow_gone_frame = None"
  "jprop (js ''clientId'') (error_frame m) = None"
  "jprop (js ''clientId'') (frame_for_client b f) = None"
  by (simp_all add: burrow_gone_frame_def error_frame_def frame_for_client_def map_add_def js_def
      split: option.splits)

section \<open>Burrows come and go\<close>

definition gone_notices :: "js_text \<Rightarrow> hub \<Rightarrow> relay_effect list" where
  "gone_notices b h =
     map (\<lambda>(k, c). Sent (cc_socket c) burrow_gone_frame) (filter (\<lambda>(k, c). bound_to b c) (hub_clients h))"

lemma drop_clients_out [simp]: "hub_out (drop_clients_of b h) = hub_out h @ gone_notices b h"
  by (simp add: drop_clients_of_def gone_notices_def)

lemma gone_notices_unseen:
  assumes "hub_inv S M h"
  shows "unseen {s. \<exists>k c. map_of (hub_clients h) k = Some c \<and> s = cc_socket c} (gone_notices b h)"
proof -
  have "map_of (hub_clients h) k = Some c" if "(k, c) \<in> set (hub_clients h)" for k c
    using assms that by (simp add: hub_inv_def hub_bounded_def)
  then show ?thesis by (fastforce simp: unseen_def gone_notices_def)
qed

text \<open>
  A Burrow leaves the map, or another socket takes its place: both keep the invariant, since the
  Clients that were bound to it are released in the same step.
\<close>

lemma hub_inv_drop:
  assumes inv: "hub_inv S M h"
    and h1: "hub_clients h1 = hub_clients h" "hub_out h1 = hub_out h" "hub_next h \<le> hub_next h1"
    and B: "map_of (hub_burrows h1) = (map_of (hub_burrows h))(b := new)"
      "distinct (map fst (hub_burrows h1))"
    and new: "\<And>conn. new = Some conn \<Longrightarrow> bc_burrow conn = b \<and> bc_socket conn \<notin> S \<and> bc_socket conn \<in> S' \<and> bc_id conn < hub_next h1"
    and S': "S \<subseteq> S'"
  shows "hub_inv S' M (drop_clients_of b h1)"
proof -
  let ?h = "drop_clients_of b h1"
  let ?T = "{s. \<exists>k c. map_of (hub_clients h) k = Some c \<and> s = cc_socket c}"
  have T: "?T \<subseteq> S" using hub_client_at [OF inv] by blast
  have unseen: "unseen ?T (gone_notices b h1)"
    using gone_notices_unseen [OF inv] by (simp add: gone_notices_def h1)
  have old: "c \<noteq> b \<and> map_of (hub_burrows h) c = Some conn \<or> c = b \<and> new = Some conn"
    if "map_of (hub_burrows ?h) c = Some conn" for c conn
    using that by (auto simp: B split: if_splits)
  have apart: "bc_socket conn \<notin> ?T" if "map_of (hub_burrows ?h) c = Some conn" for c conn
    using old [OF that] hub_client_sockets [OF inv] new T by blast
  have "hub_keyed S' M ?h"
    unfolding hub_keyed_def
  proof (intro conjI allI impI)
    fix c conn assume "map_of (hub_burrows ?h) c = Some conn"
    from old [OF this] show "bc_burrow conn = c" "bc_socket conn \<in> S'" "bc_id conn < hub_next ?h"
      using new [of conn] hub_burrow_at [OF inv, of c conn] S' h1(3) by auto
  next
    fix k c assume "map_of (hub_clients ?h) k = Some c"
    then obtain c0 where "map_of (hub_clients h) k = Some c0" "c = release_from b c0" by (auto simp: h1)
    then show "cc_client c = k" "k \<in> M" "cc_socket c \<in> S'" "cc_id c < hub_next ?h"
      using hub_client_at [OF inv, of k c0] S' h1(3) by auto
  qed
  moreover have "hub_bounded ?h"
    using inv B(2) by (simp add: hub_inv_def hub_bounded_def h1)
  moreover have "hub_bound_online ?h"
    using hub_binding_online [OF inv] by (auto simp: hub_bound_online_def h1 B split: if_splits)
  moreover have "hub_sockets_apart ?h"
    unfolding hub_sockets_apart_def
  proof (intro conjI allI impI)
    fix c conn c' conn'
    assume c: "map_of (hub_burrows ?h) c = Some conn" "map_of (hub_burrows ?h) c' = Some conn'"
      "bc_socket conn = bc_socket conn'"
    from old [OF c(1)] show "c = c'"
    proof
      assume "c = b \<and> new = Some conn"
      then have "bc_socket conn' \<notin> S" "c = b" using new c(3) by auto
      with old [OF c(2)] show ?thesis using hub_burrow_at [OF inv] by blast
    next
      assume o: "c \<noteq> b \<and> map_of (hub_burrows h) c = Some conn"
      then have "bc_socket conn' \<in> S" using hub_burrow_at [OF inv, of c conn] c(3) by simp
      with old [OF c(2)] have "map_of (hub_burrows h) c' = Some conn'" using new by blast
      with o c(3) show ?thesis using hub_burrow_sockets [OF inv] by blast
    qed
  next
    fix c conn k cl
    assume "map_of (hub_burrows ?h) c = Some conn" "map_of (hub_clients ?h) k = Some cl"
    then show "bc_socket conn \<noteq> cc_socket cl"
      using apart by (fastforce simp: h1)
  qed
  moreover have "hub_logged S' M ?h"
    unfolding hub_logged_def
  proof (intro allI impI)
    fix s f assume "Sent s f \<in> set (hub_out ?h)"
    then have "Sent s f \<in> set (hub_out h) \<or> Sent s f \<in> set (gone_notices b h1)" by (auto simp: h1)
    then show "s \<in> S' \<and> (\<forall>k. jprop (js ''clientId'') f = Some (JStr k) \<longrightarrow> k \<in> M)"
      using inv unseen T S' unfolding hub_inv_def hub_logged_def unseen_def by blast
  qed
  moreover have "hub_agrees ?h"
    unfolding hub_agrees_def
  proof (intro allI impI)
    fix c conn k assume c: "map_of (hub_burrows ?h) c = Some conn"
    have same: "delivered (bc_socket conn) (hub_out ?h) = delivered (bc_socket conn) (hub_out h)"
      using delivered_unseen [OF unseen apart [OF c]] by (simp add: h1)
    from old [OF c] show "knows k (delivered (bc_socket conn) (hub_out ?h)) =
      (\<exists>cl. map_of (hub_clients ?h) k = Some cl \<and> cc_burrow cl = Some c)"
    proof
      assume "c \<noteq> b \<and> map_of (hub_burrows h) c = Some conn"
      then show ?thesis
        using hub_agreement [OF inv, of c conn k] unfolding same by (auto simp: h1 split: if_splits)
    next
      assume cb: "c = b \<and> new = Some conn"
      then have "delivered (bc_socket conn) (hub_out h) = []"
        using new inv by (intro delivered_Nil) (auto simp: hub_inv_def hub_logged_def)
      with cb show ?thesis unfolding same by (auto simp: h1 split: if_splits)
    qed
  qed
  ultimately show ?thesis by (simp add: hub_inv_def)
qed

lemma current_burrowD:
  assumes "current_burrow burrow h" "hub_inv S M h"
  obtains conn where "map_of (hub_burrows h) (bc_burrow burrow) = Some conn" "bc_id conn = bc_id burrow"
    "bc_burrow conn = bc_burrow burrow"
  using assms hub_burrow_at [OF assms(2)] by (auto simp: current_burrow_def split: option.splits)

lemma hub_inv_unregister_burrow:
  assumes "hub_inv S M h"
  shows "hub_inv S M (unregister_burrow burrow h)"
proof (cases "current_burrow burrow h")
  case True
  have "hub_inv S M (drop_clients_of (bc_burrow burrow)
      (h\<lparr>hub_burrows := AList.delete (bc_burrow burrow) (hub_burrows h)\<rparr>))"
    by (rule hub_inv_drop [OF assms, where new = None])
      (use assms in \<open>auto simp: hub_inv_def hub_bounded_def distinct_delete\<close>)
  with True show ?thesis by (simp add: unregister_burrow_def)
qed (simp add: unregister_burrow_def assms)

lemma hub_inv_close_burrow: "hub_inv S M h \<Longrightarrow> hub_inv S M (fst (close_burrow b h))"
  by (auto simp: close_burrow_def hub_inv_unregister_burrow hub_inv_close split: option.splits)

lemma unbound_drop:
  assumes "hub_inv S M h" "map_of (hub_burrows h) b = None" "hub_clients h1 = hub_clients h"
  shows "drop_clients_of b h1 = h1"
proof -
  have "\<not> bound_to b c" if "(k, c) \<in> set (hub_clients h)" for k c
    using assms that hub_binding_online [OF assms(1), of k c b]
    by (auto simp: bound_to_def hub_inv_def hub_bounded_def)
  then have *: "\<forall>e \<in> set (hub_clients h1). \<not> bound_to b (snd e)" using assms(3) by auto
  have "map (\<lambda>(k, c). (k, if bound_to b c then c\<lparr>cc_burrow := None\<rparr> else c)) (hub_clients h1) = hub_clients h1"
    by (rule map_idI) (use * in \<open>auto split: prod.splits\<close>)
  moreover have "filter (\<lambda>(k, c). bound_to b c) (hub_clients h1) = []"
    using * by (auto simp: filter_empty_conv)
  ultimately show ?thesis by (simp add: drop_clients_of_def)
qed

lemma hub_inv_register_burrow:
  assumes inv: "hub_inv S M h" and s: "s \<notin> S"
  shows "hub_inv (insert s S) M (fst (register_burrow b s h))"
proof -
  let ?conn = "\<lparr>bc_id = hub_next h, bc_burrow = b, bc_socket = s\<rparr>"
  let ?h1 = "h\<lparr>hub_next := hub_next h + 1, hub_burrows := AList.update b ?conn (hub_burrows h)\<rparr>"
  have "hub_inv (insert s S) M (drop_clients_of b ?h1)"
    by (rule hub_inv_drop [OF inv, where new = "Some ?conn"])
      (use inv s in \<open>auto simp: hub_inv_def hub_bounded_def distinct_update\<close>)
  moreover have "drop_clients_of b ?h1 = ?h1" if "map_of (hub_burrows h) b = None"
    by (rule unbound_drop [OF inv that]) simp
  ultimately show ?thesis
    by (auto simp: register_burrow_def Let_def hub_inv_close split: option.splits)
qed

lemma hub_inv_burrow_frame:
  assumes "hub_inv S M h"
  shows "hub_inv S M (on_burrow_frame parse burrow raw h)"
  by (auto simp: on_burrow_frame_def assms hub_inv_to_client [OF assms] split: option.splits)

section \<open>Clients come and go\<close>

lemma hub_inv_register_client:
  assumes inv: "hub_inv S M h" and fresh: "s \<notin> S" "to_base64_url r \<notin> M"
  shows "hub_inv (insert s S) (insert (to_base64_url r) M) (fst (register_client r s t h))"
proof (cases "max_relay_client_sockets \<le> length (hub_clients h)")
  case True
  then show ?thesis
    using hub_inv_weaken [OF inv subset_insertI subset_insertI] by (simp add: register_client_def)
next
  case False
  let ?k = "to_base64_url r"
  let ?c = "\<lparr>cc_id = hub_next h, cc_client = ?k, cc_socket = s, cc_expires = t, cc_burrow = None\<rparr>"
  let ?h = "h\<lparr>hub_next := hub_next h + 1, hub_clients := AList.update ?k ?c (hub_clients h)\<rparr>"
  have new: "map_of (hub_clients h) ?k = None"
    using hub_client_at [OF inv] fresh(2) by (metis not_None_eq)
  have "hub_keyed (insert s S) (insert ?k M) ?h"
    using inv by (auto simp: hub_inv_def hub_keyed_def less_Suc_eq)
  moreover have "hub_bounded ?h"
    using inv False length_update_le [of ?k ?c "hub_clients h"]
    by (auto simp: hub_inv_def hub_bounded_def distinct_update)
  moreover have "hub_bound_online ?h"
    using hub_binding_online [OF inv] by (auto simp: hub_bound_online_def)
  moreover have "hub_sockets_apart ?h"
    using inv fresh(1) hub_burrow_at [OF inv] by (auto simp: hub_inv_def hub_sockets_apart_def)
  moreover have "hub_logged (insert s S) (insert ?k M) ?h"
    using inv unfolding hub_inv_def hub_logged_def by auto
  moreover have "hub_agrees ?h"
    unfolding hub_agrees_def
  proof (intro allI impI)
    fix b conn k assume "map_of (hub_burrows ?h) b = Some conn"
    then have conn: "map_of (hub_burrows h) b = Some conn" by simp
    have "(\<exists>c. map_of (hub_clients ?h) k = Some c \<and> cc_burrow c = Some b) =
      (\<exists>c. map_of (hub_clients h) k = Some c \<and> cc_burrow c = Some b)"
      using new by auto
    then show "knows k (delivered (bc_socket conn) (hub_out ?h)) =
      (\<exists>c. map_of (hub_clients ?h) k = Some c \<and> cc_burrow c = Some b)"
      using hub_agreement [OF inv conn, of k] by simp
  qed
  ultimately show ?thesis using False by (simp add: register_client_def Let_def hub_inv_def)
qed

lemma current_clientD:
  assumes "current_client r h = Some c" "hub_inv S M h"
  shows "map_of (hub_clients h) (ref_client r) = Some c" "cc_client c = ref_client r" "cc_id c = ref_id r"
    "map_of (hub_clients h) (cc_client c) = Some c"
  using assms hub_client_at [OF assms(2)]
  by (auto simp: current_client_def split: option.splits if_splits)

text \<open>
  One Client's entry changes and a single Burrow hears of it: the binding moves from \<open>cc_burrow c\<close>
  to \<open>C' k\<close>, and the frames put on the sockets say the same.
\<close>

lemma hub_inv_rebind:
  assumes inv: "hub_inv S M h" and c: "map_of (hub_clients h) k = Some c"
    and B: "hub_burrows h' = hub_burrows h" "hub_next h' = hub_next h"
    and C: "map_of (hub_clients h') = (map_of (hub_clients h))(k := new)"
      "distinct (map fst (hub_clients h'))" "length (hub_clients h') \<le> max_relay_client_sockets"
    and new: "\<And>d. new = Some d \<Longrightarrow> cc_id d = cc_id c \<and> cc_client d = k \<and> cc_socket d = cc_socket c \<and>
      (\<forall>b. cc_burrow d = Some b \<longrightarrow> map_of (hub_burrows h) b \<noteq> None)"
    and out: "hub_out h' = hub_out h @ es"
    and es: "\<And>s f. Sent s f \<in> set es \<Longrightarrow> jprop (js ''clientId'') f = Some (JStr k) \<and> s \<in> S"
    and knows_k: "\<And>b conn. map_of (hub_burrows h) b = Some conn \<Longrightarrow>
      foldl (learn k) (cc_burrow c = Some b) (delivered (bc_socket conn) es) =
        (\<exists>d. new = Some d \<and> cc_burrow d = Some b)"
  shows "hub_inv S M h'"
proof -
  have "hub_keyed S M h'"
    unfolding hub_keyed_def
  proof (intro conjI allI impI)
    fix b conn assume "map_of (hub_burrows h') b = Some conn"
    then show "bc_burrow conn = b" "bc_socket conn \<in> S" "bc_id conn < hub_next h'"
      using hub_burrow_at [OF inv, of b conn] by (simp_all add: B)
  next
    fix k' d assume "map_of (hub_clients h') k' = Some d"
    then have "k' = k \<and> new = Some d \<or> k' \<noteq> k \<and> map_of (hub_clients h) k' = Some d" by (auto simp: C split: if_splits)
    then show "cc_client d = k'" "k' \<in> M" "cc_socket d \<in> S" "cc_id d < hub_next h'"
      using hub_client_at [OF inv c] hub_client_at [OF inv, of k' d] new [of d] by (auto simp: B)
  qed
  moreover have "hub_bounded h'" using inv C by (simp add: hub_inv_def hub_bounded_def B)
  moreover have "hub_bound_online h'"
    unfolding hub_bound_online_def
  proof (intro allI impI)
    fix k' d b assume "map_of (hub_clients h') k' = Some d" "cc_burrow d = Some b"
    then show "map_of (hub_burrows h') b \<noteq> None"
      using hub_binding_online [OF inv, of k' d b] new [of d] by (auto simp: C B split: if_splits)
  qed
  moreover have "hub_sockets_apart h'"
    unfolding hub_sockets_apart_def
  proof (intro conjI allI impI)
    fix b conn b' conn' assume "map_of (hub_burrows h') b = Some conn" "map_of (hub_burrows h') b' = Some conn'"
      "bc_socket conn = bc_socket conn'"
    then show "b = b'" using hub_burrow_sockets [OF inv, of b conn b' conn'] by (simp add: B)
  next
    fix b conn k' d assume "map_of (hub_burrows h') b = Some conn" "map_of (hub_clients h') k' = Some d"
    then show "bc_socket conn \<noteq> cc_socket d"
      using hub_client_sockets [OF inv, of b conn k' d] hub_client_sockets [OF inv _ c, of b conn] new [of d]
      by (auto simp: C B split: if_splits)
  qed
  moreover have "hub_logged S M h'"
    unfolding hub_logged_def
  proof (intro allI impI)
    fix s f assume "Sent s f \<in> set (hub_out h')"
    then have "Sent s f \<in> set (hub_out h) \<or> Sent s f \<in> set es" by (simp add: out)
    then show "s \<in> S \<and> (\<forall>k'. jprop (js ''clientId'') f = Some (JStr k') \<longrightarrow> k' \<in> M)"
      using inv es [of s f] hub_client_at [OF inv c] by (auto simp: hub_inv_def hub_logged_def)
  qed
  moreover have "hub_agrees h'"
    unfolding hub_agrees_def
  proof (intro allI impI)
    fix b conn k' assume "map_of (hub_burrows h') b = Some conn"
    then have conn: "map_of (hub_burrows h) b = Some conn" by (simp add: B)
    have split: "knows k' (delivered (bc_socket conn) (hub_out h')) =
      foldl (learn k') (\<exists>c. map_of (hub_clients h) k' = Some c \<and> cc_burrow c = Some b) (delivered (bc_socket conn) es)"
      using hub_agreement [OF inv conn, of k'] by (simp add: out knows_def)
    show "knows k' (delivered (bc_socket conn) (hub_out h')) =
      (\<exists>c. map_of (hub_clients h') k' = Some c \<and> cc_burrow c = Some b)"
    proof (cases "k' = k")
      case True
      then show ?thesis using knows_k [OF conn] c unfolding split C by simp
    next
      case False
      have "foldl (learn k') p fs = p" if "\<forall>f \<in> set fs. jprop (js ''clientId'') f = Some (JStr k)" for p fs
        using that False by (induction fs) (auto simp: learn_def)
      moreover have "\<forall>f \<in> set (delivered (bc_socket conn) es). jprop (js ''clientId'') f = Some (JStr k)"
        using es by (auto simp: delivered_set)
      ultimately show ?thesis using False unfolding split C by simp
    qed
  qed
  ultimately show ?thesis by (simp add: hub_inv_def)
qed

lemma hub_inv_unregister_client:
  assumes inv: "hub_inv S M h"
  shows "hub_inv S M (unregister_client r h)"
proof (cases "current_client r h")
  case None
  then show ?thesis by (simp add: unregister_client_def inv)
next
  case (Some c)
  note c = current_clientD [OF Some inv]
  let ?k = "cc_client c"
  let ?h1 = "h\<lparr>hub_clients := AList.delete ?k (hub_clients h)\<rparr>"
  have D: "distinct (map fst (AList.delete ?k (hub_clients h)))"
    "length (AList.delete ?k (hub_clients h)) \<le> max_relay_client_sockets"
    using inv length_delete_le [of ?k "hub_clients h"] by (auto simp: hub_inv_def hub_bounded_def distinct_delete)
  show ?thesis
  proof (cases "cc_burrow c")
    case None
    have "hub_inv S M ?h1"
      by (rule hub_inv_rebind [OF inv c(4), where new = None and es = "[]"]) (use D None in auto)
    with Some None show ?thesis by (simp add: unregister_client_def)
  next
    case (Some b)
    then obtain conn where conn: "map_of (hub_burrows h) b = Some conn"
      using hub_binding_online [OF inv c(4)] by blast
    let ?f = "client_gone_frame ?k"
    have "hub_inv S M (to_burrow conn ?f ?h1)"
    proof (rule hub_inv_rebind [OF inv c(4), where new = None and es = "[Sent (bc_socket conn) ?f]"])
      fix b' conn' assume "map_of (hub_burrows h) b' = Some conn'"
      then show "foldl (learn ?k) (cc_burrow c = Some b') (delivered (bc_socket conn') [Sent (bc_socket conn) ?f]) =
        (\<exists>d. None = Some d \<and> cc_burrow d = Some b')"
        using hub_burrow_sockets [OF inv conn, of b' conn'] conn Some by auto
    qed (use D hub_burrow_at [OF inv conn] in auto)
    with \<open>current_client r h = Some c\<close> Some conn show ?thesis by (simp add: unregister_client_def Let_def)
  qed
qed

lemma hub_inv_expiry_loop: "hub_inv S M h \<Longrightarrow> hub_inv S M (fst (close_expired_loop now cs n h))"
  by (induction now cs n h rule: close_expired_loop.induct)
    (auto simp: hub_inv_close hub_inv_unregister_client)

lemma hub_inv_client_frame:
  assumes inv: "hub_inv S M h"
  shows "hub_inv S M (on_client_frame parse r raw h)"
proof (cases "current_client r h")
  case None
  then show ?thesis by (simp add: on_client_frame_def inv)
next
  case (Some c)
  note c = current_clientD [OF Some inv]
  let ?k = "cc_client c"
  note told = hub_inv_to_client [OF inv c(4)]
  have "hub_inv S M (to_burrow conn (frame_for_burrow ?k f) (bind_client_to_burrow c b h))"
    if f: "jprop (js ''step'') f = Some (JStr (js ''init''))" and conn: "map_of (hub_burrows h) b = Some conn"
    for f b conn
  proof -
    let ?bound = "c\<lparr>cc_burrow := Some b\<rparr>"
    let ?fwd = "Sent (bc_socket conn) (frame_for_burrow ?k f)"
    have D: "distinct (map fst (AList.update ?k ?bound (hub_clients h)))"
      "length (AList.update ?k ?bound (hub_clients h)) \<le> max_relay_client_sockets"
      using inv length_update_present [of "hub_clients h" ?k ?bound] c(4)
      by (auto simp: hub_inv_def hub_bounded_def distinct_update)
    show ?thesis
    proof (cases "cc_burrow c = None \<or> cc_burrow c = Some b")
      case True
      show ?thesis
      proof (rule hub_inv_rebind [OF inv c(4), where new = "Some ?bound" and es = "[?fwd]"])
        fix b' conn' assume "map_of (hub_burrows h) b' = Some conn'"
        then show "foldl (learn ?k) (cc_burrow c = Some b') (delivered (bc_socket conn') [?fwd]) =
          (\<exists>d. Some ?bound = Some d \<and> cc_burrow d = Some b')"
          using hub_burrow_sockets [OF inv conn, of b' conn'] conn True f by auto
      qed (use D conn True c(4) hub_burrow_at [OF inv conn] in \<open>auto simp: bind_client_to_burrow_def\<close>)
    next
      case False
      then obtain p where p: "cc_burrow c = Some p" "p \<noteq> b" by auto
      then obtain old where old: "map_of (hub_burrows h) p = Some old"
        using hub_binding_online [OF inv c(4)] by blast
      let ?bye = "Sent (bc_socket old) (client_gone_frame ?k)"
      show ?thesis
      proof (rule hub_inv_rebind [OF inv c(4), where new = "Some ?bound" and es = "[?bye, ?fwd]"])
        fix b' conn' assume b': "map_of (hub_burrows h) b' = Some conn'"
        show "foldl (learn ?k) (cc_burrow c = Some b') (delivered (bc_socket conn') [?bye, ?fwd]) =
          (\<exists>d. Some ?bound = Some d \<and> cc_burrow d = Some b')"
          using hub_burrow_sockets [OF inv conn b'] hub_burrow_sockets [OF inv old b']
            hub_burrow_sockets [OF inv old conn] conn old p f b' by auto
      qed (use D conn old p c(4) hub_burrow_at [OF inv conn] hub_burrow_at [OF inv old]
          in \<open>auto simp: bind_client_to_burrow_def\<close>)
    qed
  qed
  moreover have "hub_inv S M (to_burrow conn (frame_for_burrow ?k f) h)"
    if f: "jprop (js ''step'') f \<noteq> Some (JStr (js ''init''))" and conn: "map_of (hub_burrows h) b = Some conn"
    for f b conn
    by (rule hub_inv_rebind [OF inv c(4), where new = "Some c" and es = "[Sent (bc_socket conn) (frame_for_burrow ?k f)]"])
      (use inv f conn c(4) hub_burrow_at [OF inv conn] hub_binding_online [OF inv c(4)] in
        \<open>auto simp: hub_inv_def hub_bounded_def fun_upd_idem\<close>)
  ultimately show ?thesis
    using Some by (auto simp: on_client_frame_def resolve_burrow_def Let_def told inv split: option.splits)
qed

section \<open>Runs\<close>

fun event_sockets :: "hub_event \<Rightarrow> nat list" where
  "event_sockets (BurrowOpens b s) = [s]"
| "event_sockets (ClientOpens r s t) = [s]"
| "event_sockets e = []"

fun event_minted :: "hub_event \<Rightarrow> js_text list" where
  "event_minted (ClientOpens r s t) = [to_base64_url r]"
| "event_minted e = []"

definition opened_sockets :: "hub_event list \<Rightarrow> nat list" where
  "opened_sockets es = concat (map event_sockets es)"

definition minted_ids :: "hub_event list \<Rightarrow> js_text list" where
  "minted_ids es = concat (map event_minted es)"

definition hub_run :: "(js_text \<Rightarrow> json option) \<Rightarrow> hub_event list \<Rightarrow> hub" where
  "hub_run parse es = fold (hub_step parse) es new_hub"

lemma hub_run_simps [simp]:
  "hub_run parse [] = new_hub" "hub_run parse (es @ [e]) = hub_step parse e (hub_run parse es)"
  by (simp_all add: hub_run_def)

lemma hub_inv_step:
  assumes "hub_inv S M h" "set (event_sockets e) \<inter> S = {}" "set (event_minted e) \<inter> M = {}"
  shows "hub_inv (S \<union> set (event_sockets e)) (M \<union> set (event_minted e)) (hub_step parse e h)"
proof (cases e)
  case (BurrowOpens b s)
  then show ?thesis using hub_inv_register_burrow [OF assms(1), of s b] assms(2) by simp
next
  case (ClientOpens r s t)
  then show ?thesis using hub_inv_register_client [OF assms(1), of s r t] assms by simp
next
  case (ExpirySweep now)
  then show ?thesis using hub_inv_expiry_loop [OF assms(1)] by (simp add: close_expired_clients_def)
qed (use assms(1) in \<open>auto simp: hub_inv_burrow_frame hub_inv_unregister_burrow hub_inv_close_burrow
    hub_inv_client_frame hub_inv_unregister_client\<close>)

theorem hub_inv_run:
  "distinct (opened_sockets es) \<Longrightarrow> distinct (minted_ids es) \<Longrightarrow>
   hub_inv (set (opened_sockets es)) (set (minted_ids es)) (hub_run parse es)"
proof (induction es rule: rev_induct)
  case Nil
  then show ?case by (simp add: opened_sockets_def minted_ids_def hub_inv_new)
next
  case (snoc e es)
  have o: "opened_sockets (es @ [e]) = opened_sockets es @ event_sockets e"
    "minted_ids (es @ [e]) = minted_ids es @ event_minted e"
    by (simp_all add: opened_sockets_def minted_ids_def)
  with snoc have "hub_inv (set (opened_sockets es)) (set (minted_ids es)) (hub_run parse es)" by simp
  moreover have "set (event_sockets e) \<inter> set (opened_sockets es) = {}" "set (event_minted e) \<inter> set (minted_ids es) = {}"
    using snoc.prems by (auto simp: o)
  ultimately show ?case using hub_inv_step [of _ _ "hub_run parse es" e parse] by (simp add: o)
qed

section \<open>Displaced and expired connections\<close>

definition stale_burrow :: "burrow_conn \<Rightarrow> hub \<Rightarrow> bool" where
  "stale_burrow conn h \<longleftrightarrow> bc_id conn < hub_next h \<and> \<not> current_burrow conn h"

definition stale_client :: "client_ref \<Rightarrow> hub \<Rightarrow> bool" where
  "stale_client r h \<longleftrightarrow> (\<forall>k c. map_of (hub_clients h) k = Some c \<longrightarrow> cc_client c = k) \<and>
     ref_id r < hub_next h \<and> current_client r h = None"

lemma stale_burrow_ignored:
  "stale_burrow conn h \<Longrightarrow> on_burrow_frame parse conn raw h = h"
  "stale_burrow conn h \<Longrightarrow> unregister_burrow conn h = h"
  by (simp_all add: stale_burrow_def on_burrow_frame_def unregister_burrow_def)

lemma stale_client_ignored:
  "stale_client r h \<Longrightarrow> on_client_frame parse r raw h = h"
  "stale_client r h \<Longrightarrow> unregister_client r h = h"
  by (simp_all add: stale_client_def on_client_frame_def unregister_client_def)

lemma unregister_client_fields [simp]:
  "hub_burrows (unregister_client r h) = hub_burrows h" "hub_next (unregister_client r h) = hub_next h"
  by (auto simp: unregister_client_def Let_def split: option.splits)

lemma expiry_loop_fields [simp]:
  "hub_burrows (fst (close_expired_loop now cs n h)) = hub_burrows h"
  "hub_next (fst (close_expired_loop now cs n h)) = hub_next h"
  by (induction now cs n h rule: close_expired_loop.induct) auto

lemma bind_client_fields [simp]:
  "hub_burrows (bind_client_to_burrow c b h) = hub_burrows h" "hub_next (bind_client_to_burrow c b h) = hub_next h"
  "hub_clients (bind_client_to_burrow c b h) = AList.update (cc_client c) (c\<lparr>cc_burrow := Some b\<rparr>) (hub_clients h)"
  by (auto simp: bind_client_to_burrow_def Let_def split: option.splits)

lemma client_frame_fields [simp]:
  "hub_burrows (on_client_frame parse r raw h) = hub_burrows h" "hub_next (on_client_frame parse r raw h) = hub_next h"
  by (auto simp: on_client_frame_def resolve_burrow_def Let_def split: option.splits)

lemma burrow_frame_fields [simp]:
  "hub_burrows (on_burrow_frame parse conn raw h) = hub_burrows h"
  "hub_clients (on_burrow_frame parse conn raw h) = hub_clients h"
  "hub_next (on_burrow_frame parse conn raw h) = hub_next h"
  by (auto simp: on_burrow_frame_def split: option.splits)

lemma unregister_burrow_fields [simp]:
  "hub_next (unregister_burrow conn h) = hub_next h"
  "map_of (hub_burrows (unregister_burrow conn h)) =
     (if current_burrow conn h then (map_of (hub_burrows h))(bc_burrow conn := None) else map_of (hub_burrows h))"
  by (auto simp: unregister_burrow_def)

lemma close_burrow_fields [simp]:
  "hub_next (fst (close_burrow b h)) = hub_next h"
  by (auto simp: close_burrow_def split: option.splits)

lemma register_burrow_fields [simp]:
  "hub_next (fst (register_burrow b s h)) = Suc (hub_next h)"
  "map_of (hub_burrows (fst (register_burrow b s h))) =
     (map_of (hub_burrows h))(b \<mapsto> \<lparr>bc_id = hub_next h, bc_burrow = b, bc_socket = s\<rparr>)"
  by (auto simp: register_burrow_def Let_def split: option.splits)

lemma register_client_fields [simp]:
  "hub_burrows (fst (register_client r s t h)) = hub_burrows h"
  "hub_next h \<le> hub_next (fst (register_client r s t h))"
  by (auto simp: register_client_def Let_def)

lemma hub_next_step: "hub_next h \<le> hub_next (hub_step parse e h)"
  by (cases e) (simp_all add: close_expired_clients_def)

lemma current_burrow_lookup:
  "current_burrow conn h \<longleftrightarrow> (\<exists>c. map_of (hub_burrows h) (bc_burrow conn) = Some c \<and> bc_id c = bc_id conn)"
  by (auto simp: current_burrow_def split: option.splits)

lemma current_burrow_step:
  "current_burrow conn (hub_step parse e h) \<Longrightarrow> current_burrow conn h \<or> bc_id conn = hub_next h"
  by (cases e) (auto simp: current_burrow_lookup close_expired_clients_def close_burrow_def
      split: option.splits if_splits)

lemma stale_burrow_step: "stale_burrow conn h \<Longrightarrow> stale_burrow conn (hub_step parse e h)"
  using hub_next_step [of h parse e] current_burrow_step [of conn parse e h] by (auto simp: stale_burrow_def)

lemma current_client_lookup:
  "current_client r h = Some c \<longleftrightarrow> map_of (hub_clients h) (ref_client r) = Some c \<and> cc_id c = ref_id r"
  "current_client r h = None \<longleftrightarrow> (\<forall>c. map_of (hub_clients h) (ref_client r) = Some c \<longrightarrow> cc_id c \<noteq> ref_id r)"
  by (auto simp: current_client_def split: option.splits)

text \<open>Every step leaves a Client's entry as it was but for its binding, removes it, or puts a fresh object there.\<close>

lemma clients_after_unregister:
  "hub_clients (unregister_client r h) =
     (case current_client r h of None \<Rightarrow> hub_clients h | Some c \<Rightarrow> AList.delete (cc_client c) (hub_clients h))"
  by (auto simp: unregister_client_def Let_def split: option.splits)

lemma unregister_client_shrinks: "map_of (hub_clients (unregister_client r h)) k = Some c \<Longrightarrow> map_of (hub_clients h) k = Some c"
  by (auto simp: clients_after_unregister split: option.splits if_splits)

lemma expiry_loop_shrinks:
  "map_of (hub_clients (fst (close_expired_loop now cs n h))) k = Some c \<Longrightarrow> map_of (hub_clients h) k = Some c"
  by (induction now cs n h rule: close_expired_loop.induct) (auto dest: unregister_client_shrinks split: if_splits)

lemma clients_after_unregister_burrow:
  "map_of (hub_clients (unregister_burrow conn h)) k = Some c \<Longrightarrow>
   \<exists>c0. map_of (hub_clients h) k = Some c0 \<and> cc_id c0 = cc_id c \<and> cc_client c0 = cc_client c \<and>
     cc_socket c0 = cc_socket c"
  by (auto simp: unregister_burrow_def split: if_splits)

lemma clients_after_step:
  assumes keyed: "\<forall>k c. map_of (hub_clients h) k = Some c \<longrightarrow> cc_client c = k"
    and "map_of (hub_clients (hub_step parse e h)) k = Some c"
  shows "cc_client c = k \<and>
    ((\<exists>c0. map_of (hub_clients h) k = Some c0 \<and> cc_id c0 = cc_id c \<and> cc_socket c0 = cc_socket c) \<or>
     cc_id c = hub_next h \<and> (\<exists>r t. e = ClientOpens r (cc_socket c) t))"
proof (cases e)
  case (BurrowOpens b s)
  with assms show ?thesis by (auto simp: register_burrow_def Let_def split: option.splits if_splits)
next
  case (BurrowCloses conn)
  with assms show ?thesis by (fastforce dest: clients_after_unregister_burrow)
next
  case (BurrowRevoked b)
  with assms show ?thesis
    by (cases "map_of (hub_burrows h) b") (fastforce simp: close_burrow_def dest: clients_after_unregister_burrow)+
next
  case (ClientOpens r s t)
  with assms show ?thesis by (auto simp: register_client_def Let_def split: if_splits)
next
  case (ClientSends r raw)
  with assms show ?thesis
    by (auto simp: on_client_frame_def resolve_burrow_def Let_def current_client_lookup split: option.splits if_splits)
next
  case (ClientCloses r)
  with assms show ?thesis by (auto dest: unregister_client_shrinks)
next
  case (ExpirySweep now)
  with assms show ?thesis by (auto simp: close_expired_clients_def dest: expiry_loop_shrinks)
qed (use assms in auto)

lemma stale_client_step:
  assumes "stale_client r h"
  shows "stale_client r (hub_step parse e h)"
proof -
  have keyed: "\<forall>k c. map_of (hub_clients h) k = Some c \<longrightarrow> cc_client c = k"
    using assms by (simp add: stale_client_def)
  note after = clients_after_step [OF keyed, of parse e]
  have "cc_id c \<noteq> ref_id r" if "map_of (hub_clients (hub_step parse e h)) (ref_client r) = Some c" for c
  proof -
    have "\<forall>c0. map_of (hub_clients h) (ref_client r) = Some c0 \<longrightarrow> cc_id c0 \<noteq> ref_id r" "ref_id r < hub_next h"
      using assms unfolding stale_client_def current_client_lookup by blast+
    with after [OF that] show ?thesis by auto
  qed
  moreover have "\<forall>k c. map_of (hub_clients (hub_step parse e h)) k = Some c \<longrightarrow> cc_client c = k"
    using after by blast
  moreover have "ref_id r < hub_next (hub_step parse e h)"
    using assms hub_next_step [of h parse e] by (simp add: stale_client_def)
  ultimately show ?thesis unfolding stale_client_def current_client_lookup by blast
qed

interpretation displaced: event_system "hub_step parse" "\<lambda>e. True" "stale_burrow conn" for parse conn
  by unfold_locales (rule stale_burrow_step)

interpretation expired: event_system "hub_step parse" "\<lambda>e. True" "stale_client r" for parse r
  by unfold_locales (rule stale_client_step)

interpretation numbering: monotone_events "hub_step parse" "\<lambda>e. True" "\<lambda>h. True" hub_next for parse
  by unfold_locales (simp_all add: hub_next_step)

section \<open>The expiry sweep\<close>

definition expired_at :: "int \<Rightarrow> client_conn \<Rightarrow> bool" where
  "expired_at now c \<longleftrightarrow> cc_expires c \<le> now"

fun is_close :: "relay_effect \<Rightarrow> bool" where
  "is_close (Sent s f) = False"
| "is_close (Closed s code r) = True"

lemma unregister_client_out: "filter is_close (hub_out (unregister_client r h)) = filter is_close (hub_out h)"
  by (auto simp: unregister_client_def Let_def split: option.splits)

lemma expiry_loop_exact:
  assumes "distinct (map fst ys)"
    and "\<forall>(k, c) \<in> set ys. map_of (hub_clients h) k = Some c \<and> cc_client c = k"
  shows "hub_clients (fst (close_expired_loop now (map snd ys) n h)) =
      filter (\<lambda>(k, c). k \<notin> fst ` set (filter (\<lambda>(k, c). expired_at now c) ys)) (hub_clients h) \<and>
    snd (close_expired_loop now (map snd ys) n h) = n + length (filter (\<lambda>(k, c). expired_at now c) ys) \<and>
    filter is_close (hub_out (fst (close_expired_loop now (map snd ys) n h))) =
      filter is_close (hub_out h) @
      map (\<lambda>(k, c). Closed (cc_socket c) ws_close_unauthorized ws_close_unauthorized_reason) (filter (\<lambda>(k, c). expired_at now c) ys)"
  using assms
proof (induction ys arbitrary: n h)
  case Nil
  then show ?case by simp
next
  case (Cons y ys)
  obtain k c where y: "y = (k, c)" by (cases y)
  let ?h = "safe_close (cc_socket c) ws_close_unauthorized ws_close_unauthorized_reason (unregister_client (ref_of c) h)"
  have at: "map_of (hub_clients h) k = Some c" "cc_client c = k" using Cons.prems(2) by (auto simp: y)
  have rest: "hub_clients ?h = AList.delete k (hub_clients h)"
    by (simp add: clients_after_unregister current_client_def ref_of_def at)
  have closed: "filter is_close (hub_out ?h) =
      filter is_close (hub_out h) @ [Closed (cc_socket c) ws_close_unauthorized ws_close_unauthorized_reason]"
    by (simp add: unregister_client_out)
  have D: "distinct (map fst ys)" "k \<notin> fst ` set ys" using Cons.prems(1) by (auto simp: y)
  have here: "\<forall>(k', c') \<in> set ys. map_of (hub_clients ?h) k' = Some c' \<and> cc_client c' = k'"
  proof clarify
    fix k' c' assume e: "(k', c') \<in> set ys"
    then have "k' \<noteq> k" using D(2) by force
    moreover have "map_of (hub_clients h) k' = Some c' \<and> cc_client c' = k'" using Cons.prems(2) e by auto
    ultimately show "map_of (hub_clients ?h) k' = Some c' \<and> cc_client c' = k'" unfolding rest by simp
  qed
  have there: "\<forall>(k', c') \<in> set ys. map_of (hub_clients h) k' = Some c' \<and> cc_client c' = k'"
    using Cons.prems(2) by auto
  show ?case
  proof (cases "expired_at now c")
    case True
    let ?K = "fst ` set (filter (\<lambda>(k, c). expired_at now c) ys)"
    note IH = Cons.IH [OF D(1) here, of "n + 1"]
    have F: "filter (\<lambda>(k, c). expired_at now c) (y # ys) = (k, c) # filter (\<lambda>(k, c). expired_at now c) ys"
      using True by (simp add: y)
    have step: "close_expired_loop now (map snd (y # ys)) n h = close_expired_loop now (map snd ys) (n + 1) ?h"
      using True by (simp add: y expired_at_def)
    have first: "hub_clients (fst (close_expired_loop now (map snd ys) (n + 1) ?h)) =
      filter (\<lambda>(k', c). k' \<notin> insert k ?K) (hub_clients h)"
      using IH unfolding rest filter_delete by blast
    have K: "fst ` set ((k, c) # filter (\<lambda>(k, c). expired_at now c) ys) = insert k ?K" by simp
    show ?thesis
      unfolding step F K
    proof (intro conjI)
      show "snd (close_expired_loop now (map snd ys) (n + 1) ?h) = n + length ((k, c) # filter (\<lambda>(k, c). expired_at now c) ys)"
        using IH by simp
    qed (use first IH in \<open>simp_all add: unregister_client_out\<close>)
  next
    case False
    then show ?thesis
      using Cons.IH [OF D(1) there, of n] by (simp add: y expired_at_def)
  qed
qed

lemma expiry_sweep:
  assumes inv: "hub_inv S M h"
  shows "hub_clients (fst (close_expired_clients now h)) = filter (\<lambda>(k, c). \<not> expired_at now c) (hub_clients h)"
    and "snd (close_expired_clients now h) = length (filter (\<lambda>(k, c). expired_at now c) (hub_clients h))"
    and "filter is_close (hub_out (fst (close_expired_clients now h))) =
      filter is_close (hub_out h) @
      map (\<lambda>(k, c). Closed (cc_socket c) ws_close_unauthorized ws_close_unauthorized_reason)
        (filter (\<lambda>(k, c). expired_at now c) (hub_clients h))"
proof -
  have d: "distinct (map fst (hub_clients h))" using inv by (simp add: hub_inv_def hub_bounded_def)
  have at: "\<forall>(k, c) \<in> set (hub_clients h). map_of (hub_clients h) k = Some c \<and> cc_client c = k"
    using hub_client_at [OF inv] d by auto
  note loop = expiry_loop_exact [OF d at, of now 0]
  show "snd (close_expired_clients now h) = length (filter (\<lambda>(k, c). expired_at now c) (hub_clients h))"
    "filter is_close (hub_out (fst (close_expired_clients now h))) =
      filter is_close (hub_out h) @
      map (\<lambda>(k, c). Closed (cc_socket c) ws_close_unauthorized ws_close_unauthorized_reason)
        (filter (\<lambda>(k, c). expired_at now c) (hub_clients h))"
    using loop by (simp_all add: close_expired_clients_def)
  have "k \<notin> fst ` set (filter (\<lambda>(k, c). expired_at now c) (hub_clients h)) \<longleftrightarrow> \<not> expired_at now c"
    if "(k, c) \<in> set (hub_clients h)" for k c
    using that d by (auto simp: image_iff dest: eq_key_imp_eq_value)
  then show "hub_clients (fst (close_expired_clients now h)) = filter (\<lambda>(k, c). \<not> expired_at now c) (hub_clients h)"
    using loop by (auto simp: close_expired_clients_def intro!: filter_cong)
qed

section \<open>Where forwarded frames come from\<close>

lemma sent_by_burrow_frame:
  assumes "hub_out (on_burrow_frame parse conn raw h) = hub_out h @ es" "Sent s f \<in> set es"
  shows "\<exists>frame c. parse_frame parse raw = Some frame \<and> is_e2e_burrow_frame frame \<and> current_burrow conn h \<and>
    map_of (hub_clients h) (text_prop (js ''clientId'') frame) = Some c \<and> cc_burrow c = Some (bc_burrow conn) \<and>
    s = cc_socket c \<and> f = frame_for_client (bc_burrow conn) frame"
  using assms by (auto simp: on_burrow_frame_def split: option.splits if_splits)

lemma sent_by_client_frame:
  assumes "hub_out (on_client_frame parse r raw h) = hub_out h @ es" "Sent s f \<in> set es"
    "jprop (js ''t'') f = Some (JStr (js ''e2e''))"
  shows "\<exists>frame c conn. parse_frame parse raw = Some frame \<and> is_e2e_client_frame frame \<and> current_client r h = Some c \<and>
    map_of (hub_burrows h) (text_prop (js ''burrowId'') frame) = Some conn \<and> s = bc_socket conn \<and>
    f = frame_for_burrow (cc_client c) frame \<and>
    (jprop (js ''step'') frame = Some (JStr (js ''init'')) \<or> cc_burrow c = Some (text_prop (js ''burrowId'') frame))"
  using assms
  by (auto simp: on_client_frame_def resolve_burrow_def bind_client_to_burrow_def Let_def split: option.splits if_splits)

section \<open>What each kind of socket is sent\<close>

definition burrow_inbound :: "json \<Rightarrow> bool" where
  "burrow_inbound f \<longleftrightarrow> is_e2e_relay_to_burrow_frame f \<or> (\<exists>k. f = client_gone_frame k \<and> length k \<le> max_client_id_length)"

definition client_inbound :: "json \<Rightarrow> bool" where
  "client_inbound f \<longleftrightarrow> is_e2e_relay_to_client_frame f \<or> f = burrow_gone_frame \<or> (\<exists>m. f = error_frame m)"

definition ids_sound :: "hub \<Rightarrow> bool" where
  "ids_sound h \<longleftrightarrow>
     (\<forall>b conn. map_of (hub_burrows h) b = Some conn \<longrightarrow> bc_burrow conn = b \<and> is_exact_base64_url b e2e_id_length) \<and>
     (\<forall>k c. map_of (hub_clients h) k = Some c \<longrightarrow> cc_client c = k \<and> length k \<le> max_client_id_length) \<and>
     distinct (map fst (hub_clients h))"

text \<open>A send of a step, classed by the socket it goes to.\<close>

definition fits_a_burrow :: "hub \<Rightarrow> nat \<Rightarrow> json \<Rightarrow> bool" where
  "fits_a_burrow h s f \<longleftrightarrow>
     (\<exists>b conn. map_of (hub_burrows h) b = Some conn \<and> s = bc_socket conn \<and> burrow_inbound f)"

definition fits :: "hub \<Rightarrow> nat \<Rightarrow> json \<Rightarrow> bool" where
  "fits h s f \<longleftrightarrow> fits_a_burrow h s f \<or>
     (\<exists>k c. map_of (hub_clients h) k = Some c \<and> s = cc_socket c \<and> client_inbound f)"

lemma fits_burrow:
  "map_of (hub_burrows h) b = Some conn \<Longrightarrow> burrow_inbound f \<Longrightarrow> fits_a_burrow h (bc_socket conn) f"
  by (auto simp: fits_a_burrow_def)

lemma fits_client: "map_of (hub_clients h) k = Some c \<Longrightarrow> client_inbound f \<Longrightarrow> fits h (cc_socket c) f"
  by (auto simp: fits_def)

lemma inbound_notices [simp]:
  "client_inbound burrow_gone_frame" "client_inbound (error_frame m)"
  "length k \<le> max_client_id_length \<Longrightarrow> burrow_inbound (client_gone_frame k)"
  by (auto simp: client_inbound_def burrow_inbound_def)

lemma gone_notices_fit:
  assumes "ids_sound h" "Sent s f \<in> set (gone_notices b h)"
  shows "fits h s f"
proof -
  obtain k c where "(k, c) \<in> set (hub_clients h)" "s = cc_socket c" "f = burrow_gone_frame"
    using assms(2) by (auto simp: gone_notices_def)
  with assms(1) show ?thesis by (auto simp: ids_sound_def intro: fits_client)
qed

lemma unregister_burrow_sends:
  assumes "ids_sound h" "Sent s f \<in> set (hub_out (unregister_burrow conn h))"
  shows "Sent s f \<in> set (hub_out h) \<or> fits h s f"
proof (cases "Sent s f \<in> set (hub_out h)")
  case False
  then have "Sent s f \<in> set (gone_notices (bc_burrow conn) h)"
    using assms(2) by (auto simp: unregister_burrow_def gone_notices_def split: if_splits)
  then show ?thesis using gone_notices_fit [OF assms(1)] by blast
qed simp

lemma unregister_client_sends:
  assumes "ids_sound h" "Sent s f \<in> set (hub_out (unregister_client r h))"
  shows "Sent s f \<in> set (hub_out h) \<or> fits_a_burrow h s f"
proof (cases "current_client r h")
  case (Some c)
  then have "map_of (hub_clients h) (ref_client r) = Some c" by (simp add: current_client_lookup)
  then have "length (cc_client c) \<le> max_client_id_length" using assms(1) by (simp add: ids_sound_def)
  then have "fits_a_burrow h (bc_socket conn) (client_gone_frame (cc_client c))"
    if "map_of (hub_burrows h) b = Some conn" for b conn
    using that by (auto intro: fits_burrow)
  then show ?thesis using assms(2) Some by (auto simp: unregister_client_def Let_def split: option.splits)
qed (use assms in \<open>simp add: unregister_client_def\<close>)

lemma unregister_client_sound:
  assumes "ids_sound h"
  shows "ids_sound (unregister_client r h)"
proof -
  have "distinct (map fst (hub_clients (unregister_client r h)))"
    using assms by (cases "current_client r h") (simp_all add: ids_sound_def clients_after_unregister distinct_delete)
  moreover have "cc_client c = k \<and> length k \<le> max_client_id_length"
    if "map_of (hub_clients (unregister_client r h)) k = Some c" for k c
    using unregister_client_shrinks [OF that] assms unfolding ids_sound_def by blast
  ultimately show ?thesis using assms unfolding ids_sound_def by simp
qed

lemma ids_sound_close [simp]: "ids_sound (safe_close s code r h) = ids_sound h"
  by (simp add: ids_sound_def)

lemma expiry_loop_sends:
  "ids_sound h \<Longrightarrow> Sent s f \<in> set (hub_out (fst (close_expired_loop now cs n h))) \<Longrightarrow>
   Sent s f \<in> set (hub_out h) \<or> fits_a_burrow h s f"
proof (induction now cs n h rule: close_expired_loop.induct)
  case (2 now c rest n h)
  let ?h = "unregister_client (ref_of c) h"
  show ?case
  proof (cases "now < cc_expires c")
    case False
    then have "Sent s f \<in> set (hub_out ?h) \<or> fits_a_burrow h s f"
      using "2.IH"(2) [OF False] "2.prems" by (simp add: unregister_client_sound fits_a_burrow_def)
    then show ?thesis using unregister_client_sends [OF "2.prems"(1)] by blast
  qed (use 2 in simp)
qed simp

lemma step_sends:
  assumes sound: "ids_sound h" and sent: "Sent s f \<in> set (hub_out (hub_step parse e h))"
  shows "Sent s f \<in> set (hub_out h) \<or> fits h s f"
proof (cases e)
  case (BurrowOpens b socket)
  have "gone_notices b (h\<lparr>hub_next := n, hub_burrows := B\<rparr>) = gone_notices b h" for n B
    by (simp add: gone_notices_def)
  then show ?thesis
    using BurrowOpens sent gone_notices_fit [OF sound, of s f b]
    by (auto simp: register_burrow_def Let_def split: option.splits)
next
  case (BurrowSends conn raw)
  have "fits h (cc_socket c) (frame_for_client (bc_burrow conn) frame)"
    if "current_burrow conn h" "is_e2e_burrow_frame frame" "map_of (hub_clients h) k = Some c" for frame k c
    using that sound frame_for_client_guard [OF that(2)]
    by (auto simp: current_burrow_lookup ids_sound_def client_inbound_def intro!: fits_client)
  then show ?thesis using BurrowSends sent by (auto simp: on_burrow_frame_def split: option.splits if_splits)
next
  case (BurrowCloses conn)
  then show ?thesis using unregister_burrow_sends [OF sound] sent by auto
next
  case (BurrowRevoked b)
  then show ?thesis
    using unregister_burrow_sends [OF sound] sent by (auto simp: close_burrow_def split: option.splits)
next
  case (ClientOpens r socket t)
  then show ?thesis using sent by (auto simp: register_client_def Let_def split: if_splits)
next
  case (ClientSends r raw)
  show ?thesis
  proof (cases "current_client r h")
    case (Some c)
    then have c: "map_of (hub_clients h) (ref_client r) = Some c" by (simp add: current_client_lookup)
    then have len: "length (cc_client c) \<le> max_client_id_length" using sound by (simp add: ids_sound_def)
    have fwd: "fits h (bc_socket conn) (frame_for_burrow (cc_client c) frame)"
      if "is_e2e_client_frame frame" "map_of (hub_burrows h) b = Some conn" for frame b conn
      using frame_for_burrow_guard [OF that(1) len] that(2) by (auto simp: burrow_inbound_def fits_def intro!: disjI1 fits_burrow)
    have bye: "fits h (bc_socket conn) (client_gone_frame (cc_client c))"
      if "map_of (hub_burrows h) b = Some conn" for b conn
      using that len by (auto simp: fits_def intro!: disjI1 fits_burrow)
    show ?thesis
      using ClientSends sent Some fits_client [OF c] fwd bye
      by (auto simp: on_client_frame_def resolve_burrow_def bind_client_to_burrow_def Let_def
          split: option.splits if_splits)
  qed (use ClientSends sent in \<open>simp add: on_client_frame_def\<close>)
next
  case (ClientCloses r)
  then show ?thesis using unregister_client_sends [OF sound] sent by (auto simp: fits_def)
next
  case (ExpirySweep now)
  then show ?thesis using expiry_loop_sends [OF sound, of s f now "map snd (hub_clients h)" 0] sent by (auto simp: close_expired_clients_def fits_def)
qed

lemma burrows_after_step:
  assumes "map_of (hub_burrows (hub_step parse e h)) b = Some conn"
  shows "map_of (hub_burrows h) b = Some conn \<or> e = BurrowOpens b (bc_socket conn)"
  using assms by (cases e) (auto simp: close_expired_clients_def close_burrow_def split: option.splits if_splits)

definition ids_admitted :: "hub_event list \<Rightarrow> bool" where
  "ids_admitted es \<longleftrightarrow>
     (\<forall>b s. BurrowOpens b s \<in> set es \<longrightarrow> is_exact_base64_url b e2e_id_length) \<and>
     (\<forall>r s t. ClientOpens r s t \<in> set es \<longrightarrow> length r = e2e_id_byte_length)"

lemma run_owners:
  assumes "distinct (opened_sockets es)" "distinct (minted_ids es)"
  shows "(\<forall>b conn. map_of (hub_burrows (hub_run parse es)) b = Some conn \<longrightarrow> BurrowOpens b (bc_socket conn) \<in> set es) \<and>
    (\<forall>k c. map_of (hub_clients (hub_run parse es)) k = Some c \<longrightarrow> (\<exists>r t. ClientOpens r (cc_socket c) t \<in> set es))"
  using assms
proof (induction es rule: rev_induct)
  case Nil
  then show ?case by (simp add: new_hub_def)
next
  case (snoc e es)
  let ?h = "hub_run parse es"
  have d: "distinct (opened_sockets es)" "distinct (minted_ids es)"
    using snoc.prems by (simp_all add: opened_sockets_def minted_ids_def)
  note IH = snoc.IH [OF d]
  have keyed: "\<forall>k c. map_of (hub_clients ?h) k = Some c \<longrightarrow> cc_client c = k"
    using hub_client_at [OF hub_inv_run [OF d]] by blast
  have "BurrowOpens b (bc_socket conn) \<in> set (es @ [e])"
    if "map_of (hub_burrows (hub_step parse e ?h)) b = Some conn" for b conn
    using burrows_after_step [OF that] IH by auto
  moreover have "\<exists>r t. ClientOpens r (cc_socket c) t \<in> set (es @ [e])"
    if "map_of (hub_clients (hub_step parse e ?h)) k = Some c" for k c
  proof -
    from clients_after_step [OF keyed that]
    consider c0 where "map_of (hub_clients ?h) k = Some c0" "cc_socket c0 = cc_socket c"
      | r t where "e = ClientOpens r (cc_socket c) t" by blast
    then show ?thesis
    proof cases
      case 1
      then obtain r t where "ClientOpens r (cc_socket c0) t \<in> set es" using IH by blast
      with 1 show ?thesis by auto
    qed auto
  qed
  ultimately show ?case by simp
qed

lemma run_ids_sound:
  assumes d: "distinct (opened_sockets es)" "distinct (minted_ids es)" and a: "ids_admitted es"
  shows "ids_sound (hub_run parse es)"
proof -
  note inv = hub_inv_run [OF d, of parse]
  have "length k \<le> max_client_id_length" if "k \<in> set (minted_ids es)" for k
  proof -
    from that obtain e where e: "e \<in> set es" "k \<in> set (event_minted e)" by (auto simp: minted_ids_def)
    from e(2) obtain r s t where "e = ClientOpens r s t" "k = to_base64_url r" by (cases e) auto
    moreover from this have "length r = e2e_id_byte_length" using e(1) a unfolding ids_admitted_def by blast
    ultimately show ?thesis by (simp add: e2e_id_byte_length_def length_to_base64_url base64_url_length_def max_client_id_length_def)
  qed
  moreover have "is_exact_base64_url b e2e_id_length" if "map_of (hub_burrows (hub_run parse es)) b = Some conn" for b conn
    using run_owners [OF d, of parse] that a unfolding ids_admitted_def by blast
  moreover have "distinct (map fst (hub_clients (hub_run parse es)))"
    using inv by (simp add: hub_inv_def hub_bounded_def)
  ultimately show ?thesis
    using hub_burrow_at [OF inv] hub_client_at [OF inv] unfolding ids_sound_def by blast
qed

lemma run_sends:
  assumes "distinct (opened_sockets es)" "distinct (minted_ids es)" "ids_admitted es"
    "Sent s f \<in> set (hub_out (hub_run parse es))"
  shows "(\<exists>b. BurrowOpens b s \<in> set es) \<and> burrow_inbound f \<or> (\<exists>r t. ClientOpens r s t \<in> set es) \<and> client_inbound f"
  using assms
proof (induction es rule: rev_induct)
  case Nil
  then show ?case by (simp add: new_hub_def)
next
  case (snoc e es)
  have d: "distinct (opened_sockets es)" "distinct (minted_ids es)" "ids_admitted es"
    using snoc.prems by (auto simp: opened_sockets_def minted_ids_def ids_admitted_def)
  note own = run_owners [OF d(1,2), of parse]
  have "Sent s f \<in> set (hub_out (hub_run parse es)) \<or> fits (hub_run parse es) s f"
    using step_sends [OF run_ids_sound [OF d, of parse]] snoc.prems(4) by simp
  then show ?case
  proof
    assume "Sent s f \<in> set (hub_out (hub_run parse es))"
    from snoc.IH [OF d this] show ?thesis by auto
  next
    assume "fits (hub_run parse es) s f"
    with own show ?thesis unfolding fits_def fits_a_burrow_def by fastforce
  qed
qed

section \<open>Forwarding\<close>

text \<open>A change of the hub that forwards no end-to-end frame.\<close>

definition quiet :: "hub \<Rightarrow> hub \<Rightarrow> bool" where
  "quiet h h' \<longleftrightarrow> (\<exists>es. hub_out h' = hub_out h @ es \<and>
     (\<forall>s f. Sent s f \<in> set es \<longrightarrow> jprop (js ''t'') f \<noteq> Some (JStr (js ''e2e''))))"

lemma quietI:
  "hub_out h' = hub_out h @ es \<Longrightarrow> (\<And>s f. Sent s f \<in> set es \<Longrightarrow> jprop (js ''t'') f \<noteq> Some (JStr (js ''e2e''))) \<Longrightarrow>
   quiet h h'"
  by (auto simp: quiet_def)

lemma quiet_trans:
  assumes "quiet h1 h2" "quiet h2 h3"
  shows "quiet h1 h3"
proof -
  obtain xs ys where "hub_out h2 = hub_out h1 @ xs" "hub_out h3 = hub_out h2 @ ys"
    and no: "\<And>s f. Sent s f \<in> set xs \<Longrightarrow> jprop (js ''t'') f \<noteq> Some (JStr (js ''e2e''))"
      "\<And>s f. Sent s f \<in> set ys \<Longrightarrow> jprop (js ''t'') f \<noteq> Some (JStr (js ''e2e''))"
    using assms unfolding quiet_def by blast
  then have "hub_out h3 = hub_out h1 @ xs @ ys" by simp
  then show ?thesis by (rule quietI) (use no in auto)
qed

lemma quiet_refl [simp]: "quiet h h"
  by (rule quietI [of _ _ "[]"]) auto

lemma quiet_same: "hub_out h' = hub_out h \<Longrightarrow> quiet h h'"
  by (rule quietI [of _ _ "[]"]) auto

lemma quiet_gone: "hub_out h' = hub_out h @ [Sent s (client_gone_frame k)] \<Longrightarrow> quiet h h'"
  by (rule quietI) auto

lemma quiet_close: "quiet h h' \<Longrightarrow> quiet h (safe_close s code r h')"
  by (rule quiet_trans, assumption) (rule quietI [of _ _ "[Closed s code r]"], auto)

lemma quiet_drop: "hub_out h1 = hub_out h \<Longrightarrow> quiet h (drop_clients_of b h1)"
  by (rule quietI [of _ _ "gone_notices b h1"]) (auto simp: gone_notices_def)

lemma quiet_unregister_burrow: "quiet h (unregister_burrow conn h)"
  by (auto simp: unregister_burrow_def intro: quiet_drop)

lemma quiet_unregister_client: "quiet h (unregister_client r h)"
  by (auto simp: unregister_client_def Let_def split: option.splits intro: quiet_same quiet_gone)

lemma quiet_loop: "quiet h (fst (close_expired_loop now cs n h))"
proof (induction now cs n h rule: close_expired_loop.induct)
  case (2 now c rest n h)
  then show ?case using quiet_trans [OF quiet_close [OF quiet_unregister_client]] by auto
qed simp

lemma quiet_register_burrow: "quiet h (fst (register_burrow b s h))"
  by (auto simp: register_burrow_def Let_def split: option.splits intro!: quiet_close quiet_drop intro: quiet_same)

lemma quiet_register_client: "quiet h (fst (register_client r s t h))"
  by (auto simp: register_client_def Let_def intro: quiet_same)

lemma quiet_close_burrow: "quiet h (fst (close_burrow b h))"
  by (auto simp: close_burrow_def split: option.splits intro: quiet_close quiet_unregister_burrow)

lemma quiet_silent:
  assumes "quiet h h'" "hub_out h' = hub_out h @ new" "Sent s f \<in> set new"
  shows "jprop (js ''t'') f \<noteq> Some (JStr (js ''e2e''))"
  using assms by (auto simp: quiet_def)

lemma client_frame_binds:
  assumes inv: "hub_inv S M h" and out: "hub_out (on_client_frame parse r raw h) = hub_out h @ new"
    and "Sent s f \<in> set new" "jprop (js ''t'') f = Some (JStr (js ''e2e''))"
  shows "\<exists>c conn. current_client r h = Some c \<and> map_of (hub_burrows h) (bc_burrow conn) = Some conn \<and>
    s = bc_socket conn \<and> jprop (js ''clientId'') f = Some (JStr (cc_client c)) \<and>
    (\<exists>c'. map_of (hub_clients (on_client_frame parse r raw h)) (cc_client c) = Some c' \<and>
      cc_burrow c' = Some (bc_burrow conn))"
proof -
  obtain frame c conn where p: "parse_frame parse raw = Some frame" "is_e2e_client_frame frame"
    "current_client r h = Some c" "map_of (hub_burrows h) (text_prop (js ''burrowId'') frame) = Some conn"
    "s = bc_socket conn" "f = frame_for_burrow (cc_client c) frame"
    and bound: "jprop (js ''step'') frame = Some (JStr (js ''init'')) \<or> cc_burrow c = Some (text_prop (js ''burrowId'') frame)"
    using sent_by_client_frame [OF out assms(3,4)] by blast
  have b: "bc_burrow conn = text_prop (js ''burrowId'') frame" using hub_burrow_at [OF inv p(4)] by simp
  have t: "jprop (js ''t'') frame = Some (JStr (js ''e2e''))" using p(2) by (simp add: is_e2e_client_frame_def)
  have "\<exists>c'. map_of (hub_clients (on_client_frame parse r raw h)) (cc_client c) = Some c' \<and>
      cc_burrow c' = Some (bc_burrow conn)"
    using bound current_clientD(4) [OF p(3) inv]
    by (auto simp: on_client_frame_def p t resolve_burrow_def Let_def b)
  moreover have "map_of (hub_burrows h) (bc_burrow conn) = Some conn" using p(4) by (simp add: b)
  moreover have "jprop (js ''clientId'') f = Some (JStr (cc_client c))" by (simp add: p(6))
  ultimately show ?thesis using p(3,5) by blast
qed

lemma forwarded_in_binding:
  assumes d: "distinct (opened_sockets es)" "distinct (minted_ids es)"
    and out: "hub_out (hub_step parse e (hub_run parse es)) = hub_out (hub_run parse es) @ new"
    and sent: "Sent s f \<in> set new" and t: "jprop (js ''t'') f = Some (JStr (js ''e2e''))"
  shows "(\<exists>conn raw c holder. e = BurrowSends conn raw \<and>
      map_of (hub_burrows (hub_run parse es)) (bc_burrow conn) = Some holder \<and> bc_id holder = bc_id conn \<and>
      map_of (hub_clients (hub_run parse es)) (cc_client c) = Some c \<and> cc_burrow c = Some (bc_burrow conn) \<and>
      s = cc_socket c \<and> jprop (js ''burrowId'') f = Some (JStr (bc_burrow conn)) \<and>
      knows (cc_client c) (delivered (bc_socket holder) (hub_out (hub_run parse es)))) \<or>
    (\<exists>r raw c conn. e = ClientSends r raw \<and> current_client r (hub_run parse es) = Some c \<and>
      map_of (hub_burrows (hub_run parse es)) (bc_burrow conn) = Some conn \<and> s = bc_socket conn \<and>
      jprop (js ''clientId'') f = Some (JStr (cc_client c)) \<and>
      (\<exists>c'. map_of (hub_clients (hub_step parse e (hub_run parse es))) (cc_client c) = Some c' \<and>
        cc_burrow c' = Some (bc_burrow conn)))"
proof -
  note inv = hub_inv_run [OF d, of parse]
  note silent = quiet_silent [OF _ out sent]
  show ?thesis
  proof (cases e)
    case (BurrowSends conn raw)
    obtain frame c where p: "current_burrow conn (hub_run parse es)"
      "map_of (hub_clients (hub_run parse es)) (text_prop (js ''clientId'') frame) = Some c"
      "cc_burrow c = Some (bc_burrow conn)" "s = cc_socket c" "f = frame_for_client (bc_burrow conn) frame"
      using sent_by_burrow_frame [OF out [unfolded BurrowSends hub_step.simps] sent] by blast
    obtain holder where hold: "map_of (hub_burrows (hub_run parse es)) (bc_burrow conn) = Some holder"
      "bc_id holder = bc_id conn" using p(1) by (auto simp: current_burrow_lookup)
    have c: "map_of (hub_clients (hub_run parse es)) (cc_client c) = Some c"
      using hub_client_at [OF inv p(2)] p(2) by simp
    have "knows (cc_client c) (delivered (bc_socket holder) (hub_out (hub_run parse es)))"
      using hub_agreement [OF inv hold(1), of "cc_client c"] c p(3) by simp
    with BurrowSends p hold c show ?thesis by (intro disjI1) auto
  next
    case (ClientSends r raw)
    then show ?thesis using client_frame_binds [OF inv out [unfolded ClientSends hub_step.simps] sent t] by auto
  qed (use silent t in \<open>auto simp: close_expired_clients_def quiet_loop quiet_register_burrow quiet_register_client
      quiet_close_burrow quiet_unregister_burrow quiet_unregister_client\<close>)
qed

section \<open>Silence\<close>

lemma expired_goes_stale:
  assumes inv: "hub_inv S M h" and r: "current_client r h = Some c" "cc_expires c \<le> now"
  shows "stale_client r (fst (close_expired_clients now h))"
proof -
  let ?h = "fst (close_expired_clients now h)"
  have at: "map_of (hub_clients h) (ref_client r) = Some c" "cc_id c = ref_id r" using current_clientD [OF r(1) inv] by auto
  have d: "distinct (map fst (hub_clients h))" using inv by (simp add: hub_inv_def hub_bounded_def)
  have "map_of (hub_clients ?h) (ref_client r) = None"
  proof (rule ccontr)
    assume "map_of (hub_clients ?h) (ref_client r) \<noteq> None"
    then obtain c' where "map_of (hub_clients ?h) (ref_client r) = Some c'" by blast
    then have "(ref_client r, c') \<in> set (hub_clients h)" "now < cc_expires c'"
      using map_of_SomeD by (fastforce simp: expiry_sweep(1) [OF inv] expired_at_def)+
    with at(1) d r(2) show False by auto
  qed
  moreover have "cc_client c' = k" if "map_of (hub_clients ?h) k = Some c'" for k c'
    using hub_client_at [OF inv, of k c'] expiry_loop_shrinks that unfolding close_expired_clients_def by blast
  moreover have "ref_id r < hub_next ?h"
    using hub_client_at [OF inv at(1)] at(2) by (simp add: close_expired_clients_def)
  ultimately show ?thesis by (auto simp: stale_client_def current_client_lookup)
qed

lemma displaced_goes_stale:
  assumes "register_burrow b s h0 = (h1, conn)"
  shows "stale_burrow conn (hub_step parse (BurrowOpens b s') (fold (hub_step parse) es h1))"
proof -
  have conn: "bc_id conn = hub_next h0" "bc_burrow conn = b" and next1: "hub_next h1 = Suc (hub_next h0)"
    using assms register_burrow_fields(1) [of b s h0] by (auto simp: register_burrow_def Let_def)
  have "hub_next h1 \<le> hub_next (fold (hub_step parse) es h1)"
    by (rule numbering.run_grows) (simp_all add: list_all_iff)
  with conn next1 show ?thesis by (auto simp: stale_burrow_def current_burrow_lookup)
qed

end
