(* ===== verification/Relay_Tokens.thy ===== *)
theory Relay_Tokens
  imports Remote_Wire "HOL-Library.Multiset"
begin

text \<open>
  The setup tokens behind a Burrow's pairing code (\<open>relay/src/setup-token.ts\<close>). The map of
  live tokens is an association list in insertion order. The clock is read where the code reads it,
  once or more per call; each reading is an argument.
\<close>

definition default_pairing_ttl_ms :: int where "default_pairing_ttl_ms = 5 * 60 * 1000"

definition setup_token_ttl_ms :: int where "setup_token_ttl_ms = default_pairing_ttl_ms"

definition setup_token_byte_length :: nat where "setup_token_byte_length = 32"

record setup_entry =
  st_burrow :: js_text
  st_expires :: int

type_synonym setup_tokens = "(js_text \<times> setup_entry) list"

record issued_token =
  it_token :: js_text
  it_expires :: int

definition own_tokens :: "js_text \<Rightarrow> setup_tokens \<Rightarrow> setup_tokens" where
  "own_tokens burrow ts = filter (\<lambda>(token, entry). st_burrow entry = burrow) ts"

definition prune_expired :: "int \<Rightarrow> setup_tokens \<Rightarrow> setup_tokens" where
  "prune_expired now ts = filter (\<lambda>(token, entry). \<not> st_expires entry \<le> now) ts"

text \<open>The own rows, oldest expiry first, of which the first \<open>own.length - limit\<close> are deleted.\<close>

definition trim_burrow :: "js_text \<Rightarrow> nat \<Rightarrow> setup_tokens \<Rightarrow> setup_tokens" where
  "trim_burrow burrow limit ts =
     (let own = sort_key (\<lambda>(token, entry). st_expires entry) (own_tokens burrow ts)
      in fold (\<lambda>(token, entry). AList.delete token) (take (length own - limit) own) ts)"

definition prune_tokens :: "int \<Rightarrow> js_text \<Rightarrow> setup_tokens \<Rightarrow> setup_tokens" where
  "prune_tokens now burrow ts = trim_burrow burrow (max_tokens_per_burrow - 1) (prune_expired now ts)"

definition issue_token :: "int \<Rightarrow> int \<Rightarrow> bytes \<Rightarrow> js_text \<Rightarrow> setup_tokens \<Rightarrow> setup_tokens \<times> issued_token" where
  "issue_token pruned_at issued_at random burrow ts =
     (let kept = prune_tokens pruned_at burrow ts;
          token = to_base64_url random;
          expires = issued_at + setup_token_ttl_ms
      in (AList.update token \<lparr>st_burrow = burrow, st_expires = expires\<rparr> kept,
          \<lparr>it_token = token, it_expires = expires\<rparr>))"

definition peek_token :: "int \<Rightarrow> js_text \<Rightarrow> setup_tokens \<Rightarrow> setup_tokens \<times> setup_entry option" where
  "peek_token now token ts =
     (case map_of ts token of
        None \<Rightarrow> (ts, None)
      | Some entry \<Rightarrow> if st_expires entry \<le> now then (AList.delete token ts, None) else (ts, Some entry))"

definition consume_token :: "int \<Rightarrow> js_text \<Rightarrow> setup_tokens \<Rightarrow> setup_tokens \<times> setup_entry option" where
  "consume_token now token ts =
     (case map_of ts token of
        None \<Rightarrow> (ts, None)
      | Some entry \<Rightarrow> (AList.delete token ts, if now < st_expires entry then Some entry else None))"

definition restore_setup_token :: "int \<Rightarrow> int \<Rightarrow> js_text \<Rightarrow> setup_entry \<Rightarrow> setup_tokens \<Rightarrow> setup_tokens" where
  "restore_setup_token now pruned_at token entry ts =
     (if st_expires entry \<le> now then ts
      else AList.update token entry
             (trim_burrow (st_burrow entry) (max_tokens_per_burrow - 1)
               (prune_expired pruned_at (AList.delete token ts))))"

datatype token_event =
    IssueToken int int bytes js_text
  | PeekToken int js_text
  | ConsumeToken int js_text
  | RestoreToken int int js_text setup_entry

fun token_step :: "token_event \<Rightarrow> setup_tokens \<Rightarrow> setup_tokens" where
  "token_step (IssueToken t1 t2 random burrow) ts = fst (issue_token t1 t2 random burrow ts)"
| "token_step (PeekToken now token) ts = fst (peek_token now token ts)"
| "token_step (ConsumeToken now token) ts = fst (consume_token now token ts)"
| "token_step (RestoreToken t1 t2 token entry) ts = restore_setup_token t1 t2 token entry ts"

section \<open>Trimming\<close>

definition tokens_ok :: "setup_tokens \<Rightarrow> bool" where
  "tokens_ok ts \<longleftrightarrow> distinct (map fst ts) \<and> (\<forall>burrow. length (own_tokens burrow ts) \<le> max_tokens_per_burrow)"

lemma fold_delete:
  "fold (\<lambda>(k, v). AList.delete k) ds xs = filter (\<lambda>(k, v). k \<notin> fst ` set ds) xs"
  by (induction ds arbitrary: xs) (auto simp: filter_delete)

lemma own_tokens_filter: "own_tokens b (filter P ts) = filter P (own_tokens b ts)"
  by (auto simp: own_tokens_def intro: filter_cong)

lemma trim_burrow_other:
  assumes "distinct (map fst ts)" "b \<noteq> b'"
  shows "own_tokens b' (trim_burrow b n ts) = own_tokens b' ts"
proof -
  have apart: "fst e \<notin> fst ` set (take k (sort_key f (own_tokens b ts)))" if "e \<in> set (own_tokens b' ts)" for e k f
  proof
    assume "fst e \<in> fst ` set (take k (sort_key f (own_tokens b ts)))"
    then obtain d where d: "fst d = fst e" "d \<in> set (own_tokens b ts)" using set_take_subset by fastforce
    then have "d = e" using that assms(1) by (auto simp: own_tokens_def dest: eq_key_imp_eq_value)
    with d that assms(2) show False by (auto simp: own_tokens_def)
  qed
  then show ?thesis
    unfolding trim_burrow_def Let_def fold_delete own_tokens_filter
    by (intro filter_True) (simp add: split_beta apart)
qed

lemma trim_burrow_own:
  "length (own_tokens b (trim_burrow b n ts)) \<le> n"
proof -
  let ?own = "sort_key (\<lambda>(token, entry). st_expires entry) (own_tokens b ts)"
  let ?k = "length ?own - n"
  let ?P = "\<lambda>(k, v). k \<notin> fst ` set (take ?k ?own)"
  have "mset (filter ?P (own_tokens b ts)) = mset (filter ?P ?own)" by (simp add: mset_filter)
  then have "length (filter ?P (own_tokens b ts)) = length (filter ?P ?own)" by (rule mset_eq_length)
  also have "filter ?P ?own = filter ?P (take ?k ?own) @ filter ?P (drop ?k ?own)"
    by (metis append_take_drop_id filter_append)
  also have "filter ?P (take ?k ?own) = []" by (force simp: filter_empty_conv)
  also have "length ([] @ filter ?P (drop ?k ?own)) \<le> length ?own - ?k"
    using length_filter_le [of ?P "drop ?k ?own"] by simp
  also have "\<dots> \<le> n" by simp
  finally show ?thesis by (simp add: trim_burrow_def Let_def fold_delete own_tokens_filter)
qed

lemma trim_burrow_subset: "set (trim_burrow b n ts) \<subseteq> set ts"
  by (auto simp: trim_burrow_def Let_def fold_delete)

lemma trim_burrow_distinct: "distinct (map fst ts) \<Longrightarrow> distinct (map fst (trim_burrow b n ts))"
  by (simp add: trim_burrow_def Let_def fold_delete distinct_map_filter)

lemma prune_expired_ok: "tokens_ok ts \<Longrightarrow> tokens_ok (prune_expired now ts)"
  unfolding tokens_ok_def prune_expired_def own_tokens_filter
  by (auto simp: distinct_map_filter intro: le_trans [OF length_filter_le])

lemma delete_ok: "tokens_ok ts \<Longrightarrow> tokens_ok (AList.delete token ts)"
  unfolding tokens_ok_def AList.delete_eq own_tokens_filter
  by (auto simp: distinct_map_filter intro: le_trans [OF length_filter_le])

lemma trim_ok:
  assumes "tokens_ok ts" "n \<le> max_tokens_per_burrow"
  shows "tokens_ok (trim_burrow b n ts)"
proof -
  have "length (own_tokens c (trim_burrow b n ts)) \<le> max_tokens_per_burrow" for c
    using assms trim_burrow_other [of ts b c] trim_burrow_own [of b n ts]
    by (cases "c = b") (auto simp: tokens_ok_def)
  then show ?thesis using assms by (simp add: tokens_ok_def trim_burrow_distinct)
qed

lemma own_update_le:
  "length (own_tokens c (AList.update k e ts)) \<le>
     (if c = st_burrow e then Suc (length (own_tokens c ts)) else length (own_tokens c ts))"
  by (induction ts) (auto simp: own_tokens_def split: if_splits)

lemma update_ok:
  assumes "tokens_ok ts" "length (own_tokens (st_burrow e) ts) < max_tokens_per_burrow"
  shows "tokens_ok (AList.update k e ts)"
proof -
  have "length (own_tokens c (AList.update k e ts)) \<le> max_tokens_per_burrow" for c
    using own_update_le [of c k e ts] assms by (fastforce simp: tokens_ok_def split: if_splits intro: le_trans)
  then show ?thesis using assms(1) by (simp add: tokens_ok_def distinct_update)
qed

lemma trimmed_room: "length (own_tokens b (trim_burrow b (max_tokens_per_burrow - Suc 0) ts)) < max_tokens_per_burrow"
  using trim_burrow_own [of b "max_tokens_per_burrow - 1" ts] by (simp add: max_tokens_per_burrow_def)

lemma token_step_ok: "tokens_ok ts \<Longrightarrow> tokens_ok (token_step e ts)"
proof (cases e)
  case (IssueToken t1 t2 random burrow)
  assume "tokens_ok ts"
  then have "tokens_ok (prune_tokens t1 burrow ts)" by (simp add: prune_tokens_def trim_ok prune_expired_ok)
  moreover have "length (own_tokens burrow (prune_tokens t1 burrow ts)) < max_tokens_per_burrow"
    by (simp add: prune_tokens_def trimmed_room)
  ultimately show ?thesis by (simp add: IssueToken issue_token_def Let_def update_ok)
next
  case (RestoreToken t1 t2 token e)
  assume "tokens_ok ts"
  then show ?thesis
    by (simp add: RestoreToken restore_setup_token_def update_ok trimmed_room trim_ok prune_expired_ok delete_ok)
qed (auto simp: peek_token_def consume_token_def delete_ok split: option.splits)

interpretation setup_tokens: event_system token_step "\<lambda>e. True" tokens_ok
  by unfold_locales (rule token_step_ok)

lemma own_update_other:
  assumes "st_burrow e \<noteq> b" "map_of ts k = None"
  shows "own_tokens b (AList.update k e ts) = own_tokens b ts"
  using assms by (induction ts) (auto simp: own_tokens_def split: if_splits)

lemma issue_spares_others:
  assumes "tokens_ok ts" "map_of ts (to_base64_url random) = None" "other \<noteq> burrow"
  shows "own_tokens other (fst (issue_token now issued random burrow ts)) = prune_expired now (own_tokens other ts)"
proof -
  let ?kept = "prune_tokens now burrow ts"
  have "set ?kept \<subseteq> set ts"
    using trim_burrow_subset by (fastforce simp: prune_tokens_def prune_expired_def)
  then have "own_tokens other (fst (issue_token now issued random burrow ts)) = own_tokens other ?kept"
    using assms(2,3) map_of_subset_None by (auto simp: issue_token_def Let_def intro!: own_update_other)
  also have "\<dots> = own_tokens other (prune_expired now ts)"
    using trim_burrow_other [of "prune_expired now ts" burrow other] prune_expired_ok [OF assms(1)] assms(3)
    by (simp add: prune_tokens_def tokens_ok_def)
  also have "\<dots> = prune_expired now (own_tokens other ts)"
    by (simp add: prune_expired_def own_tokens_filter)
  finally show ?thesis .
qed

section \<open>Redemption\<close>

text \<open>Events that can put a token into the map.\<close>

fun revives :: "js_text \<Rightarrow> token_event \<Rightarrow> bool" where
  "revives token (IssueToken t1 t2 random burrow) = (to_base64_url random = token)"
| "revives token (RestoreToken t1 t2 token' entry) = (token' = token)"
| "revives token e = False"

lemma prune_subset: "set (prune_expired now ts) \<subseteq> set ts"
  by (auto simp: prune_expired_def)

lemma absent_step:
  assumes "map_of ts token = None" "\<not> revives token e"
  shows "map_of (token_step e ts) token = None"
proof (cases e)
  case (IssueToken t1 t2 random burrow)
  have "set (prune_tokens t1 burrow ts) \<subseteq> set ts"
    using trim_burrow_subset prune_subset unfolding prune_tokens_def by blast
  then show ?thesis
    using IssueToken assms map_of_subset_None [OF _ assms(1)] by (simp add: issue_token_def Let_def)
next
  case (RestoreToken t1 t2 token' e)
  have "set (trim_burrow (st_burrow e) (max_tokens_per_burrow - 1) (prune_expired t2 (AList.delete token' ts))) \<subseteq> set ts"
    using trim_burrow_subset prune_subset set_delete_subset by fastforce
  then show ?thesis
    using RestoreToken assms map_of_subset_None [OF _ assms(1)] by (simp add: restore_setup_token_def)
qed (use assms in \<open>auto simp: peek_token_def consume_token_def split: option.splits\<close>)

lemma spent_stays_spent:
  "map_of ts token = None \<Longrightarrow> list_all (\<lambda>e. \<not> revives token e) es \<Longrightarrow> map_of (fold token_step es ts) token = None"
  by (induction es arbitrary: ts) (auto simp: absent_step)

end
