(* ===== verification/Relay_Store.thy ===== *)
theory Relay_Store
  imports Remote_Wire "HOL-Library.Product_Lexorder" "HOL-Library.Multiset"
begin

text \<open>
  The JSON files of the relay server (\<open>relay/src/state.ts\<close>): the reads that keep well-formed rows, the
  reads that refuse a corrupt record, and the read-modify-write of each mutation, which run one at a
  time under the store's mutex. The content of a file is \<open>None\<close> when it does not exist, else its
  text, as the value it parses to or \<open>None\<close> where \<open>JSON.parse\<close> throws. Writing stores the value.
  A row keeps the properties it was read with. \<open>digest\<close> is SHA-256 of the UTF-16LE bytes.
\<close>

type_synonym file_text = "json option"

datatype store_error =
    SyntaxError
  | CorruptState js_text
  | DuplicateCredential js_text
  | BurrowLimitReached
  | InvalidMint js_text
  | ReadsNull
  | Refused js_text

section \<open>Files\<close>

text \<open>\<open>readIfExists\<close>: an absent file is \<open>undefined\<close>.\<close>

definition read_if_exists :: "file_text option \<Rightarrow> store_error + json option" where
  "read_if_exists f =
     (case f of None \<Rightarrow> Inr None
      | Some None \<Rightarrow> Inl SyntaxError
      | Some (Some v) \<Rightarrow> Inr (Some v))"

text \<open>\<open>readIfPresent\<close>: \<open>null\<close> is absence too.\<close>

definition read_if_present :: "file_text option \<Rightarrow> store_error + json option" where
  "read_if_present f =
     (case read_if_exists f of Inl e \<Rightarrow> Inl e
      | Inr v \<Rightarrow> Inr (if v = Some JNull then None else v))"

definition read_or :: "json \<Rightarrow> file_text option \<Rightarrow> store_error + json" where
  "read_or fallback f =
     (case read_if_present f of Inl e \<Rightarrow> Inl e
      | Inr None \<Rightarrow> Inr fallback | Inr (Some v) \<Rightarrow> Inr v)"

definition load_record :: "js_text \<Rightarrow> (json \<Rightarrow> bool) \<Rightarrow> file_text option \<Rightarrow> store_error + json option" where
  "load_record what valid f =
     (case read_if_exists f of
        Inl e \<Rightarrow> Inl (CorruptState what)
      | Inr None \<Rightarrow> Inr None
      | Inr (Some v) \<Rightarrow> if valid v then Inr (Some v) else Inl (CorruptState what))"

text \<open>The file after the call, and the record; a mint is written only when the read would accept it.\<close>

definition load_or_create_record ::
  "js_text \<Rightarrow> (json \<Rightarrow> bool) \<Rightarrow> json \<Rightarrow> file_text option \<Rightarrow> file_text option \<times> (store_error + json)" where
  "load_or_create_record what valid created f =
     (case load_record what valid f of
        Inl e \<Rightarrow> (f, Inl e)
      | Inr (Some v) \<Rightarrow> (f, Inr v)
      | Inr None \<Rightarrow> if valid created then (Some (Some created), Inr created) else (f, Inl (InvalidMint what)))"

section \<open>The cached read\<close>

text \<open>
  \<open>cf_disk\<close> is the file with the key its \<open>stat\<close> gives; \<open>cf_cache\<close> the last parse and the key it was
  read under.
\<close>

record cached_file =
  cf_disk :: "(nat \<times> file_text) option"
  cf_cache :: "(nat \<times> json) option"

definition read_cached :: "cached_file \<Rightarrow> cached_file \<times> (store_error + json option)" where
  "read_cached f =
     (case cf_disk f of
        None \<Rightarrow> (f\<lparr>cf_cache := None\<rparr>, Inr None)
      | Some (key, content) \<Rightarrow>
          (case cf_cache f of
             Some (k, v) \<Rightarrow>
               if k = key then (f, Inr (Some v))
               else (case read_if_present (Some content) of
                       Inl e \<Rightarrow> (f, Inl e)
                     | Inr None \<Rightarrow> (f\<lparr>cf_cache := None\<rparr>, Inr None)
                     | Inr (Some w) \<Rightarrow> (f\<lparr>cf_cache := Some (key, w)\<rparr>, Inr (Some w)))
           | None \<Rightarrow>
               (case read_if_present (Some content) of
                  Inl e \<Rightarrow> (f, Inl e)
                | Inr None \<Rightarrow> (f\<lparr>cf_cache := None\<rparr>, Inr None)
                | Inr (Some w) \<Rightarrow> (f\<lparr>cf_cache := Some (key, w)\<rparr>, Inr (Some w)))))"

definition write_atomic :: "nat \<Rightarrow> json \<Rightarrow> cached_file \<Rightarrow> cached_file" where
  "write_atomic key v f = f\<lparr>cf_disk := Some (key, Some v), cf_cache := None\<rparr>"

text \<open>An edit of the file by hand, or its removal.\<close>

definition edit_file :: "(nat \<times> file_text) option \<Rightarrow> cached_file \<Rightarrow> cached_file" where
  "edit_file disk f = f\<lparr>cf_disk := disk\<rparr>"

section \<open>Records\<close>

definition is_hex_unit :: "nat \<Rightarrow> bool" where
  "is_hex_unit c \<longleftrightarrow> is_digit c \<or> 97 \<le> c \<and> c \<le> 102"

definition is_hex_32_bytes :: "js_text \<Rightarrow> bool" where
  "is_hex_32_bytes s \<longleftrightarrow> length s = 64 \<and> list_all is_hex_unit s"

definition is_setup_password :: "json option \<Rightarrow> bool" where
  "is_setup_password = string_such is_hex_32_bytes"

definition is_stored_setup_password :: "json \<Rightarrow> bool" where
  "is_stored_setup_password v \<longleftrightarrow> is_object v \<and>
     is_setup_password (jprop (js ''password'') v) \<and> finite_such (\<lambda>n. True) (jprop (js ''createdAt'') v)"

definition is_stored_vapid_keys :: "json \<Rightarrow> bool" where
  "is_stored_vapid_keys v \<longleftrightarrow> is_object v \<and>
     string_such (\<lambda>s. 0 < length s) (jprop (js ''publicKey'') v) \<and>
     string_such (\<lambda>s. 0 < length s) (jprop (js ''privateKey'') v) \<and>
     finite_such (\<lambda>n. True) (jprop (js ''createdAt'') v)"

fun is_array :: "json option \<Rightarrow> bool" where
  "is_array (Some (JArr vs)) = True"
| "is_array v = False"

definition is_account :: "json \<Rightarrow> bool" where
  "is_account v \<longleftrightarrow> is_object v \<and>
     string_such (\<lambda>s. True) (jprop (js ''accountId'') v) \<and> is_array (jprop (js ''passkeys'') v)"

definition load_setup_password :: "file_text option \<Rightarrow> store_error + json option" where
  "load_setup_password = load_record (js ''setup password'') is_stored_setup_password"

definition load_or_create_setup_password ::
  "js_text \<Rightarrow> int \<Rightarrow> file_text option \<Rightarrow> file_text option \<times> (store_error + json option)" where
  "load_or_create_setup_password generated now f =
     (let (f', r) = load_or_create_record (js ''setup password'') is_stored_setup_password
            (JObj [(js ''password'', JStr generated), (js ''createdAt'', JNum (of_int now))]) f
      in (f', case r of Inl e \<Rightarrow> Inl e | Inr v \<Rightarrow> Inr (jprop (js ''password'') v)))"

definition load_vapid :: "file_text option \<Rightarrow> store_error + json option" where
  "load_vapid = load_record (js ''VAPID keypair'') is_stored_vapid_keys"

definition load_or_create_vapid ::
  "js_text \<Rightarrow> js_text \<Rightarrow> int \<Rightarrow> file_text option \<Rightarrow> file_text option \<times> (store_error + json)" where
  "load_or_create_vapid public_key private_key now f =
     load_or_create_record (js ''VAPID keypair'') is_stored_vapid_keys
       (JObj [(js ''publicKey'', JStr public_key), (js ''privateKey'', JStr private_key),
              (js ''createdAt'', JNum (of_int now))]) f"

section \<open>The account\<close>

definition load_account :: "file_text option \<Rightarrow> store_error + json option" where
  "load_account = load_record (js ''account record'') is_account"

definition passkeys_of :: "json \<Rightarrow> json list" where
  "passkeys_of account = (case jprop (js ''passkeys'') account of Some (JArr ps) \<Rightarrow> ps | _ \<Rightarrow> [])"

text \<open>\<open>find\<close> and \<open>some\<close> over the rows: reading a property of a \<open>null\<close> row throws.\<close>

fun find_row :: "js_text \<Rightarrow> json list \<Rightarrow> store_error + json option" where
  "find_row credential [] = Inr None"
| "find_row credential (p # ps) =
     (if p = JNull then Inl ReadsNull
      else if is_literal credential (jprop (js ''credentialId'') p) then Inr (Some p)
      else find_row credential ps)"

definition find_passkey :: "js_text \<Rightarrow> file_text option \<Rightarrow> store_error + json option" where
  "find_passkey credential f =
     (case load_account f of
        Inl e \<Rightarrow> Inl e
      | Inr None \<Rightarrow> Inr None
      | Inr (Some account) \<Rightarrow> find_row credential (passkeys_of account))"

definition selfhost_account_id :: js_text where "selfhost_account_id = js ''owner''"

text \<open>Assigning a property of an object: in its place when it is there, else at the end.\<close>

definition set_prop :: "js_text \<Rightarrow> json \<Rightarrow> json \<Rightarrow> json" where
  "set_prop k w v =
     (case v of
        JObj kvs \<Rightarrow>
          if k \<in> fst ` set kvs then JObj (map (\<lambda>(k', x). if k' = k then (k, w) else (k', x)) kvs)
          else JObj (kvs @ [(k, w)])
      | _ \<Rightarrow> v)"

definition new_account :: json where
  "new_account = JObj [(js ''accountId'', JStr selfhost_account_id), (js ''passkeys'', JArr [])]"

definition passkey_row :: "js_text \<Rightarrow> js_text \<Rightarrow> js_text \<Rightarrow> int \<Rightarrow> json" where
  "passkey_row credential public_key label now =
     JObj [(js ''credentialId'', JStr credential), (js ''publicKey'', JStr public_key),
           (js ''label'', JStr label), (js ''createdAt'', JNum (of_int now))]"

definition append_passkey ::
  "js_text \<Rightarrow> js_text \<Rightarrow> js_text \<Rightarrow> int \<Rightarrow> file_text option \<Rightarrow> file_text option \<times> (store_error + json)" where
  "append_passkey credential public_key label now f =
     (case load_account f of
        Inl e \<Rightarrow> (f, Inl e)
      | Inr loaded \<Rightarrow>
          let account = (case loaded of Some a \<Rightarrow> a | None \<Rightarrow> new_account)
          in case find_row credential (passkeys_of account) of
               Inl e \<Rightarrow> (f, Inl e)
             | Inr (Some p) \<Rightarrow> (f, Inl (DuplicateCredential credential))
             | Inr None \<Rightarrow>
                 let account' = set_prop (js ''passkeys'')
                       (JArr (passkeys_of account @ [passkey_row credential public_key label now])) account
                 in (Some (Some account'), Inr account'))"

section \<open>Burrows\<close>

definition burrow_token_byte_length :: nat where "burrow_token_byte_length = 32"

definition burrow_token_length :: nat where "burrow_token_length = base64_url_length burrow_token_byte_length"

definition is_burrow_token :: "js_text \<Rightarrow> bool" where
  "is_burrow_token s \<longleftrightarrow> is_exact_base64_url s burrow_token_length"

definition max_enrolled_burrows :: nat where "max_enrolled_burrows = 32"

definition is_stored_burrow :: "json \<Rightarrow> bool" where
  "is_stored_burrow row \<longleftrightarrow> is_object row \<and>
     is_e2e_id (jprop (js ''burrowId'') row) \<and>
     string_such (\<lambda>s. True) (jprop (js ''burrowToken'') row) \<and>
     is_number (jprop (js ''enrolledAt'') row)"

text \<open>\<open>listIfPresent\<close> and \<open>list\<close>, on what \<open>readCached\<close> returned.\<close>

definition list_burrows_if_present :: "json option \<Rightarrow> json list option" where
  "list_burrows_if_present rows =
     (case rows of None \<Rightarrow> None
      | Some v \<Rightarrow> Some (case v of JArr vs \<Rightarrow> filter is_stored_burrow vs | _ \<Rightarrow> []))"

definition list_burrows :: "json option \<Rightarrow> json list" where
  "list_burrows rows = (case list_burrows_if_present rows of None \<Rightarrow> [] | Some vs \<Rightarrow> vs)"

definition secret_equals :: "(js_text \<Rightarrow> bytes) \<Rightarrow> js_text \<Rightarrow> js_text \<Rightarrow> bool" where
  "secret_equals digest a b \<longleftrightarrow> constant_time_equal (digest a) (digest b)"

text \<open>Every row is compared and the last match kept.\<close>

definition find_by_token :: "(js_text \<Rightarrow> bytes) \<Rightarrow> js_text \<Rightarrow> json option \<Rightarrow> json option" where
  "find_by_token digest token rows =
     (if \<not> is_burrow_token token then None
      else fold (\<lambda>row found. if secret_equals digest (text_prop (js ''burrowToken'') row) token then Some row else found)
             (list_burrows rows) None)"

definition has_burrow :: "js_text \<Rightarrow> json option \<Rightarrow> bool" where
  "has_burrow burrow rows \<longleftrightarrow> list_ex (\<lambda>row. text_prop (js ''burrowId'') row = burrow) (list_burrows rows)"

definition burrow_row :: "bytes \<Rightarrow> bytes \<Rightarrow> int \<Rightarrow> json" where
  "burrow_row id_random token_random now =
     JObj [(js ''burrowId'', JStr (to_base64_url id_random)), (js ''burrowToken'', JStr (to_base64_url token_random)),
           (js ''enrolledAt'', JNum (of_int now))]"

text \<open>
  The mutation. \<open>before\<close> is the credential gate, told whether this would be the first enrollment ever;
  it may refuse. The result is what is written and the new row.
\<close>

definition enroll_burrow ::
  "(bool \<Rightarrow> store_error option) \<Rightarrow> bool \<Rightarrow> bytes \<Rightarrow> bytes \<Rightarrow> int \<Rightarrow> json option \<Rightarrow> store_error + (json \<times> json)" where
  "enroll_burrow before file_exists id_random token_random now rows =
     (case before (\<not> file_exists) of
        Some e \<Rightarrow> Inl e
      | None \<Rightarrow>
          let burrows = list_burrows rows
          in if max_enrolled_burrows \<le> length burrows then Inl BurrowLimitReached
             else let row = burrow_row id_random token_random now in Inr (JArr (burrows @ [row]), row))"

section \<open>Push subscriptions\<close>

definition is_stored_push_subscription :: "json \<Rightarrow> bool" where
  "is_stored_push_subscription row \<longleftrightarrow>
     string_such (\<lambda>s. True) (jprop (js ''burrowId'') row) \<and>
     string_such (\<lambda>s. True) (jprop (js ''deliveryId'') row) \<and>
     string_such (\<lambda>s. True) (jprop (js ''endpoint'') row) \<and>
     (case jprop (js ''keys'') row of None \<Rightarrow> False
      | Some ks \<Rightarrow> string_such (\<lambda>s. True) (jprop (js ''p256dh'') ks) \<and> string_such (\<lambda>s. True) (jprop (js ''auth'') ks)) \<and>
     string_such (\<lambda>s. True) (jprop (js ''vapidPublicKey'') row) \<and>
     is_number (jprop (js ''subscribedAt'') row)"

definition sub_burrow :: "json \<Rightarrow> js_text" where "sub_burrow = text_prop (js ''burrowId'')"
definition sub_delivery :: "json \<Rightarrow> js_text" where "sub_delivery = text_prop (js ''deliveryId'')"
definition sub_endpoint :: "json \<Rightarrow> js_text" where "sub_endpoint = text_prop (js ''endpoint'')"
definition sub_vapid :: "json \<Rightarrow> js_text" where "sub_vapid = text_prop (js ''vapidPublicKey'')"

text \<open>The order of the times of two rows, which is that of their difference: infinities at the ends.\<close>

definition sub_time :: "json \<Rightarrow> nat \<times> js_num" where
  "sub_time row =
     (case jprop (js ''subscribedAt'') row of
        Some (JNum n) \<Rightarrow> (1, n)
      | Some (JInfinity positive) \<Rightarrow> (if positive then 2 else 0, 0)
      | _ \<Rightarrow> (1, 0))"

definition list_subscriptions :: "file_text option \<Rightarrow> json list option \<Rightarrow> store_error + json list" where
  "list_subscriptions f burrows =
     (case read_or (JArr []) f of
        Inl e \<Rightarrow> Inl e
      | Inr (JArr rows) \<Rightarrow>
          let kept = filter is_stored_push_subscription rows
          in Inr (case burrows of None \<Rightarrow> kept
             | Some bs \<Rightarrow> filter (\<lambda>s. sub_burrow s \<in> set (map (text_prop (js ''burrowId'')) bs)) kept)
      | Inr v \<Rightarrow> Inr [])"

definition list_for_burrow :: "js_text \<Rightarrow> json list \<Rightarrow> json list" where
  "list_for_burrow burrow rows = filter (\<lambda>s. sub_burrow s = burrow) rows"

definition list_for_delivery_ids :: "js_text list \<Rightarrow> json list \<Rightarrow> json list" where
  "list_for_delivery_ids ids rows = filter (\<lambda>s. sub_delivery s \<in> set ids) rows"

definition max_subscriptions_per_burrow :: nat where "max_subscriptions_per_burrow = 32"
definition max_subscriptions_total :: nat where "max_subscriptions_total = 256"

text \<open>
  The dropping loop. Rows are compared by identity, so each goes with its index in \<open>all\<close>; \<open>k\<close> is
  the index of \<open>keep\<close>. The result lists the indices of the dropped rows.
\<close>

fun cap_loop :: "nat \<Rightarrow> (nat \<times> json) list \<Rightarrow> (js_text \<Rightarrow> nat) \<Rightarrow> nat \<Rightarrow> nat list" where
  "cap_loop k [] per_burrow left_over = []"
| "cap_loop k ((i, row) # rest) per_burrow left_over =
     (if i = k then cap_loop k rest per_burrow left_over
      else let for_burrow = per_burrow (sub_burrow row)
           in if left_over \<le> max_subscriptions_total \<and> for_burrow \<le> max_subscriptions_per_burrow
              then cap_loop k rest per_burrow left_over
              else i # cap_loop k rest (per_burrow(sub_burrow row := for_burrow - 1)) (left_over - 1))"

definition count_burrow :: "json list \<Rightarrow> js_text \<Rightarrow> nat" where
  "count_burrow rows burrow = length (filter (\<lambda>s. sub_burrow s = burrow) rows)"

definition cap_subscriptions :: "json list \<Rightarrow> json \<Rightarrow> json list" where
  "cap_subscriptions rows keep =
     (let all = rows @ [keep];
          indexed = zip [0..<length all] all
      in if length all \<le> max_subscriptions_per_burrow then all
         else let dropped = cap_loop (length rows) (sort_key (\<lambda>(i, row). sub_time row) indexed)
                              (count_burrow all) (length all)
              in map snd (filter (\<lambda>(i, row). i \<notin> set dropped) indexed))"

record push_record =
  pr_burrow :: js_text
  pr_delivery :: js_text
  pr_endpoint :: js_text
  pr_p256dh :: js_text
  pr_auth :: js_text
  pr_vapid :: js_text

definition push_row :: "push_record \<Rightarrow> int \<Rightarrow> json" where
  "push_row r now =
     JObj [(js ''burrowId'', JStr (pr_burrow r)), (js ''deliveryId'', JStr (pr_delivery r)),
           (js ''endpoint'', JStr (pr_endpoint r)),
           (js ''keys'', JObj [(js ''p256dh'', JStr (pr_p256dh r)), (js ''auth'', JStr (pr_auth r))]),
           (js ''vapidPublicKey'', JStr (pr_vapid r)), (js ''subscribedAt'', JNum (of_int now))]"

definition replaced_endpoints :: "push_record \<Rightarrow> json list \<Rightarrow> js_text set" where
  "replaced_endpoints r all =
     sub_endpoint ` set (filter (\<lambda>s. sub_delivery s = pr_delivery r \<and> sub_endpoint s \<noteq> pr_endpoint r) all)"

text \<open>The rows the mutation writes, from those \<open>list\<close> gave it.\<close>

definition upsert_rows :: "push_record \<Rightarrow> int \<Rightarrow> json list \<Rightarrow> json list" where
  "upsert_rows r now all =
     cap_subscriptions
       (filter (\<lambda>s. \<not> (sub_burrow s = pr_burrow r \<and> sub_delivery s = pr_delivery r) \<and>
          sub_endpoint s \<notin> replaced_endpoints r all) all)
       (push_row r now)"

definition endpoint_burrow_ids :: "push_record \<Rightarrow> json list \<Rightarrow> js_text list" where
  "endpoint_burrow_ids r kept =
     rev (remdups (rev (map sub_burrow (filter (\<lambda>s. sub_endpoint s = pr_endpoint r \<and> sub_vapid s = pr_vapid r) kept))))"

definition upsert_subscription ::
  "push_record \<Rightarrow> int \<Rightarrow> json list option \<Rightarrow> file_text option \<Rightarrow> file_text option \<times> (store_error + (json \<times> js_text list))" where
  "upsert_subscription r now burrows f =
     (case list_subscriptions f burrows of
        Inl e \<Rightarrow> (f, Inl e)
      | Inr all \<Rightarrow>
          let kept = upsert_rows r now all
          in (Some (Some (JArr kept)), Inr (push_row r now, endpoint_burrow_ids r kept)))"

definition remove_rows :: "(json \<Rightarrow> bool) \<Rightarrow> json list option \<Rightarrow> file_text option \<Rightarrow> file_text option \<times> (store_error + nat)" where
  "remove_rows gone burrows f =
     (case list_subscriptions f burrows of
        Inl e \<Rightarrow> (f, Inl e)
      | Inr all \<Rightarrow>
          let kept = filter (\<lambda>s. \<not> gone s) all
          in if length kept = length all then (f, Inr 0)
             else (Some (Some (JArr kept)), Inr (length all - length kept)))"

definition remove_delivery ::
  "js_text \<Rightarrow> json list option \<Rightarrow> file_text option \<Rightarrow> file_text option \<times> (store_error + nat)" where
  "remove_delivery delivery = remove_rows (\<lambda>s. sub_delivery s = delivery)"

definition remove_endpoints ::
  "js_text list \<Rightarrow> json list option \<Rightarrow> file_text option \<Rightarrow> file_text option \<times> (store_error + nat)" where
  "remove_endpoints endpoints = remove_rows (\<lambda>s. sub_endpoint s \<in> set endpoints)"

end
