(* ===== verification/Relay_Store_Facts.thy ===== *)
theory Relay_Store_Facts
  imports Relay_Store
begin

text \<open>
  Facts on the relay server's files: the caps on push subscriptions, what a mutation writes, the
  account and the enrolled Burrows, and the coherence of the cached read.
\<close>

section \<open>The dropping loop\<close>

definition droppable :: "nat \<Rightarrow> (nat \<times> json) list \<Rightarrow> js_text \<Rightarrow> nat" where
  "droppable k xs b = length (filter (\<lambda>(i, row). i \<noteq> k \<and> sub_burrow row = b) xs)"

definition dropped_of :: "nat list \<Rightarrow> (nat \<times> json) list \<Rightarrow> js_text \<Rightarrow> nat" where
  "dropped_of ds xs b = length (filter (\<lambda>(i, row). i \<in> set ds \<and> sub_burrow row = b) xs)"

text \<open>The three ways through one iteration.\<close>

lemma cap_loop_cases [case_names keep pass drop]:
  obtains "i = k" "cap_loop k ((i, row) # rest) cnt n = cap_loop k rest cnt n"
  | "i \<noteq> k" "n \<le> max_subscriptions_total" "cnt (sub_burrow row) \<le> max_subscriptions_per_burrow"
    "cap_loop k ((i, row) # rest) cnt n = cap_loop k rest cnt n"
  | c where "i \<noteq> k" "c = cnt(sub_burrow row := cnt (sub_burrow row) - 1)"
    "cap_loop k ((i, row) # rest) cnt n = i # cap_loop k rest c (n - 1)"
proof (cases "i = k")
  case False
  then show ?thesis
    using that(2,3) by (cases "n \<le> max_subscriptions_total \<and> cnt (sub_burrow row) \<le> max_subscriptions_per_burrow")
      (simp_all add: Let_def)
qed (use that(1) in simp)

lemma cap_loop_subset: "set (cap_loop k xs cnt n) \<subseteq> fst ` set xs - {k}"
proof (induction xs arbitrary: cnt n)
  case (Cons x rest)
  obtain i row where x: "x = (i, row)" by (cases x)
  show ?case
  proof (cases rule: cap_loop_cases [where i = i and k = k and row = row and rest = rest and cnt = cnt and n = n])
    case keep
    then show ?thesis using Cons.IH [of cnt n] unfolding x keep(2) by auto
  next
    case pass
    then show ?thesis using Cons.IH [of cnt n] unfolding x pass(4) by auto
  next
    case (drop c)
    show ?thesis using Cons.IH [of c "n - 1"] drop(1) unfolding x drop(3) by auto
  qed
qed simp

lemma cap_loop_distinct: "distinct (map fst xs) \<Longrightarrow> distinct (cap_loop k xs cnt n)"
proof (induction xs arbitrary: cnt n)
  case (Cons x rest)
  obtain i row where x: "x = (i, row)" by (cases x)
  have i: "i \<notin> set (cap_loop k rest c m)" for c m
    using cap_loop_subset [of k rest c m] Cons.prems by (auto simp: x)
  have d: "distinct (cap_loop k rest c m)" for c m using Cons by (simp add: x)
  show ?case
  proof (cases rule: cap_loop_cases [where i = i and k = k and row = row and rest = rest and cnt = cnt and n = n])
    case keep
    show ?thesis using d unfolding x keep(2) .
  next
    case pass
    show ?thesis using d unfolding x pass(4) .
  next
    case (drop c)
    show ?thesis unfolding x drop(3) using d [of c "n - 1"] i [of c "n - 1"] by (simp only: distinct.simps simp_thms)
  qed
qed simp

lemma cap_loop_total:
  "n \<le> max_subscriptions_total \<or> n \<le> Suc (length (filter (\<lambda>(i, row). i \<noteq> k) xs)) \<Longrightarrow>
   n - length (cap_loop k xs cnt n) \<le> max_subscriptions_total"
proof (induction xs arbitrary: cnt n)
  case Nil
  then show ?case by (auto simp: max_subscriptions_total_def)
next
  case (Cons x rest)
  obtain i row where x: "x = (i, row)" by (cases x)
  show ?case
  proof (cases rule: cap_loop_cases [where i = i and k = k and row = row and rest = rest and cnt = cnt and n = n])
    case keep
    with Cons show ?thesis by (simp add: x)
  next
    case pass
    with Cons.IH [of n cnt] show ?thesis by (simp add: x)
  next
    case (drop c)
    have "n - 1 - length (cap_loop k rest c (n - 1)) \<le> max_subscriptions_total"
      using Cons.prems drop(1) by (intro Cons.IH) (auto simp: x)
    with drop(3) show ?thesis by (simp add: x)
  qed
qed

lemma dropped_of_Cons:
  "dropped_of ds ((i, row) # rest) b = (if i \<in> set ds \<and> sub_burrow row = b then 1 else 0) + dropped_of ds rest b"
  by (simp add: dropped_of_def)

lemma dropped_of_other: "j \<notin> fst ` set rest \<Longrightarrow> dropped_of (j # ds) rest b = dropped_of ds rest b"
  unfolding dropped_of_def by (intro arg_cong [where f = length] filter_cong) force+

lemma cap_loop_burrow:
  "distinct (map fst xs) \<Longrightarrow>
   cnt b \<le> max_subscriptions_per_burrow \<or> cnt b \<le> Suc (droppable k xs b) \<Longrightarrow>
   cnt b - dropped_of (cap_loop k xs cnt n) xs b \<le> max_subscriptions_per_burrow"
proof (induction xs arbitrary: cnt n)
  case Nil
  then show ?case by (auto simp: droppable_def max_subscriptions_per_burrow_def)
next
  case (Cons x rest)
  obtain i row where x: "x = (i, row)" by (cases x)
  have d: "distinct (map fst rest)" and i: "i \<notin> fst ` set rest" using Cons.prems(1) by (auto simp: x)
  have fresh: "i \<notin> set (cap_loop k rest c m)" for c m
    using cap_loop_subset [of k rest c m] i by auto
  show ?case
  proof (cases rule: cap_loop_cases [where i = i and k = k and row = row and rest = rest and cnt = cnt and n = n])
    case keep
    then have "droppable k (x # rest) b = droppable k rest b" by (simp add: droppable_def x)
    with keep Cons.IH [OF d, where cnt = cnt and n = n] Cons.prems(2) show ?thesis
      unfolding x keep(2) dropped_of_Cons using fresh by simp
  next
    case pass
    have "cnt b \<le> max_subscriptions_per_burrow \<or> cnt b \<le> Suc (droppable k rest b)"
      using Cons.prems(2) pass(3) by (cases "sub_burrow row = b") (auto simp: droppable_def x)
    from Cons.IH [OF d, where cnt = cnt and n = n, OF this] show ?thesis
      unfolding x pass(4) dropped_of_Cons using fresh by simp
  next
    case (drop c)
    have cb: "c b = (if sub_burrow row = b then cnt b - 1 else cnt b)" using drop(2) by simp
    have "c b \<le> max_subscriptions_per_burrow \<or> c b \<le> Suc (droppable k rest b)"
      using Cons.prems(2) drop(1) unfolding drop(2) by (cases "sub_burrow row = b") (auto simp: droppable_def x)
    from Cons.IH [OF d, where cnt = c and n = "n - 1", OF this] show ?thesis
      unfolding x drop(3) dropped_of_Cons dropped_of_other [OF i] cb by (cases "sub_burrow row = b") auto
  qed
qed

section \<open>The caps\<close>

lemma filter_index_length:
  assumes "distinct ds" "set ds \<subseteq> fst ` set xs" "distinct (map fst xs)"
  shows "length (filter (\<lambda>(i, row). i \<notin> set ds) xs) = length xs - length ds"
proof -
  have "length (filter (\<lambda>(i, row). i \<in> set ds) xs) = card (fst ` set (filter (\<lambda>(i, row). i \<in> set ds) xs))"
    using assms(3) by (metis distinct_card distinct_map_filter length_map set_map)
  also have "fst ` set (filter (\<lambda>(i, row). i \<in> set ds) xs) = set ds" using assms(2) by force
  also have "card (set ds) = length ds" using assms(1) by (rule distinct_card)
  finally have "length (filter (\<lambda>(i, row). i \<in> set ds) xs) = length ds" .
  moreover have "length (filter (\<lambda>(i, row). i \<in> set ds) xs) + length (filter (\<lambda>(i, row). i \<notin> set ds) xs) = length xs"
    by (induction xs) auto
  ultimately show ?thesis by linarith
qed

lemma count_after_drop:
  "count_burrow (map snd (filter (\<lambda>(i, row). i \<notin> set ds) xs)) b = count_burrow (map snd xs) b - dropped_of ds xs b"
proof -
  have "count_burrow (map snd (filter (\<lambda>(i, row). i \<notin> set ds) xs)) b + dropped_of ds xs b = count_burrow (map snd xs) b"
    by (induction xs) (auto simp: count_burrow_def dropped_of_def)
  then show ?thesis by simp
qed

lemma dropped_of_mset: "mset xs = mset ys \<Longrightarrow> dropped_of ds xs b = dropped_of ds ys b"
  unfolding dropped_of_def by (metis mset_filter size_mset)

lemma count_burrow_le: "count_burrow rows b \<le> length rows"
  by (simp add: count_burrow_def)

text \<open>The capped list when the caps were looked at: all rows but the dropped ones.\<close>

lemma cap_subscriptions_dropped:
  assumes "\<not> Suc (length rows) \<le> max_subscriptions_per_burrow"
  obtains ds where
    "cap_subscriptions rows keep = map snd (filter (\<lambda>(i, row). i \<notin> set ds) (zip [0..<Suc (length rows)] (rows @ [keep])))"
    "distinct ds" "set ds \<subseteq> {..<length rows}"
    "Suc (length rows) - length ds \<le> max_subscriptions_total"
    "\<And>b. count_burrow (rows @ [keep]) b - dropped_of ds (zip [0..<Suc (length rows)] (rows @ [keep])) b
        \<le> max_subscriptions_per_burrow"
proof -
  let ?all = "rows @ [keep]"
  let ?k = "length rows"
  let ?idx = "zip [0..<Suc ?k] ?all"
  let ?xs = "sort_key (\<lambda>(i, row). sub_time row) ?idx"
  let ?ds = "cap_loop ?k ?xs (count_burrow ?all) (Suc ?k)"
  have fsts: "map fst ?idx = [0..<Suc ?k]" by simp
  have len: "length [0..<Suc ?k] = length ?all" by simp
  have m: "mset ?xs = mset ?idx" by simp
  have "mset (map fst ?xs) = mset [0..<Suc ?k]" using m fsts by (metis mset_map)
  then have d: "distinct (map fst ?xs)" by (metis distinct_upt mset_eq_imp_distinct_iff)
  have set_xs: "fst ` set ?xs = {..<Suc ?k}"
  proof -
    have "fst ` set ?xs = set (map fst ?idx)" by (simp only: set_sort set_map)
    also have "\<dots> = {..<Suc ?k}" unfolding fsts by auto
    finally show ?thesis .
  qed
  have split: "?idx = zip [0..<?k] rows @ [(?k, keep)]" by (simp add: zip_append)
  have only: "filter (\<lambda>(i, row). i \<noteq> ?k) (zip [0..<?k] rows) = zip [0..<?k] rows"
    by (rule filter_True) (auto dest: set_zip_leftD)
  have nonkeep: "filter (\<lambda>(i, row). i \<noteq> ?k) ?idx = zip [0..<?k] rows" unfolding split using only by simp
  have lenk: "length (filter (\<lambda>(i, row). i \<noteq> ?k) ?xs) = ?k"
  proof -
    have "mset (filter (\<lambda>(i, row). i \<noteq> ?k) ?xs) = mset (filter (\<lambda>(i, row). i \<noteq> ?k) ?idx)"
      unfolding mset_filter m ..
    from mset_eq_length [OF this] nonkeep show ?thesis by simp
  qed
  have drop_count: "droppable ?k ?xs b = count_burrow rows b" for b
  proof -
    have "mset (filter (\<lambda>(i, row). i \<noteq> ?k \<and> sub_burrow row = b) ?xs) =
        mset (filter (\<lambda>(i, row). i \<noteq> ?k \<and> sub_burrow row = b) ?idx)"
      unfolding mset_filter m ..
    from mset_eq_length [OF this] have "droppable ?k ?xs b =
        length (filter (\<lambda>(i, row). i \<noteq> ?k \<and> sub_burrow row = b) ?idx)"
      by (simp only: droppable_def)
    also have "filter (\<lambda>(i, row). i \<noteq> ?k \<and> sub_burrow row = b) ?idx =
        filter (\<lambda>(i, row). sub_burrow row = b) (filter (\<lambda>(i, row). i \<noteq> ?k) ?idx)"
      unfolding filter_filter split_beta ..
    also have "length (filter (\<lambda>(i, row). sub_burrow row = b) (filter (\<lambda>(i, row). i \<noteq> ?k) ?idx)) =
        length (filter (\<lambda>x. sub_burrow (snd x) = b) (zip [0..<?k] rows))"
      unfolding nonkeep split_beta by (rule refl)
    also have "\<dots> = count_burrow (map snd (zip [0..<?k] rows)) b"
      by (simp only: count_burrow_def filter_map length_map o_def)
    finally show ?thesis by simp
  qed
  show ?thesis
  proof (rule that)
    show "cap_subscriptions rows keep = map snd (filter (\<lambda>(i, row). i \<notin> set ?ds) ?idx)"
      using assms by (simp add: cap_subscriptions_def Let_def)
    show "distinct ?ds" by (rule cap_loop_distinct [OF d])
    show "set ?ds \<subseteq> {..<?k}" using cap_loop_subset [of ?k ?xs] set_xs by force
    show "Suc ?k - length ?ds \<le> max_subscriptions_total"
      by (rule cap_loop_total) (simp only: lenk, simp)
    show "count_burrow ?all b - dropped_of ?ds ?idx b \<le> max_subscriptions_per_burrow" for b
    proof -
      have "count_burrow ?all b \<le> Suc (droppable ?k ?xs b)"
        unfolding drop_count by (simp add: count_burrow_def)
      from cap_loop_burrow [OF d, where cnt = "count_burrow ?all" and b = b and k = ?k and n = "Suc ?k", OF disjI2, OF this]
      show ?thesis
        unfolding dropped_of_mset [OF m] .
    qed
  qed
qed

lemma cap_subscriptions_caps:
  "length (cap_subscriptions rows keep) \<le> max_subscriptions_total"
  "count_burrow (cap_subscriptions rows keep) b \<le> max_subscriptions_per_burrow"
proof (atomize (full), cases "Suc (length rows) \<le> max_subscriptions_per_burrow")
  case True
  then have "cap_subscriptions rows keep = rows @ [keep]" by (simp add: cap_subscriptions_def)
  with True count_burrow_le [of "rows @ [keep]" b]
  show "length (cap_subscriptions rows keep) \<le> max_subscriptions_total \<and>
      count_burrow (cap_subscriptions rows keep) b \<le> max_subscriptions_per_burrow"
    by (simp add: max_subscriptions_per_burrow_def max_subscriptions_total_def)
next
  case False
  let ?idx = "zip [0..<Suc (length rows)] (rows @ [keep])"
  obtain ds where ds: "cap_subscriptions rows keep = map snd (filter (\<lambda>(i, row). i \<notin> set ds) ?idx)"
    "distinct ds" "set ds \<subseteq> {..<length rows}"
    "Suc (length rows) - length ds \<le> max_subscriptions_total"
    "\<And>b. count_burrow (rows @ [keep]) b - dropped_of ds ?idx b \<le> max_subscriptions_per_burrow"
    using cap_subscriptions_dropped [OF False] by blast
  have fsts: "map fst ?idx = [0..<Suc (length rows)]" by simp
  have "fst ` set ?idx = {..<Suc (length rows)}" using arg_cong [OF fsts, of set] unfolding set_map by auto
  then have "set ds \<subseteq> fst ` set ?idx" "distinct (map fst ?idx)" using ds(3) by auto
  then have "length (cap_subscriptions rows keep) = Suc (length rows) - length ds"
    unfolding ds(1) length_map using filter_index_length [OF ds(2), of ?idx] by simp
  moreover have "count_burrow (cap_subscriptions rows keep) b = count_burrow (rows @ [keep]) b - dropped_of ds ?idx b"
    unfolding ds(1) count_after_drop by simp
  ultimately show "length (cap_subscriptions rows keep) \<le> max_subscriptions_total \<and>
      count_burrow (cap_subscriptions rows keep) b \<le> max_subscriptions_per_burrow"
    using ds(4,5) by simp
qed

lemma cap_subscriptions_keeps:
  obtains ys where "cap_subscriptions rows keep = ys @ [keep]" "set ys \<subseteq> set rows"
proof (cases "Suc (length rows) \<le> max_subscriptions_per_burrow")
  case True
  then show ?thesis using that [of rows] by (simp add: cap_subscriptions_def)
next
  case False
  obtain ds where ds: "cap_subscriptions rows keep =
      map snd (filter (\<lambda>(i, row). i \<notin> set ds) (zip [0..<Suc (length rows)] (rows @ [keep])))"
    "set ds \<subseteq> {..<length rows}"
    by (rule cap_subscriptions_dropped [OF False, of keep]) (rule that; assumption)
  let ?ys = "map snd (filter (\<lambda>(i, row). i \<notin> set ds) (zip [0..<length rows] rows))"
  have "length rows \<notin> set ds" using ds(2) by auto
  then have "cap_subscriptions rows keep = ?ys @ [keep]" unfolding ds(1) by simp
  moreover have "set ?ys \<subseteq> set rows" by (auto dest: set_zip_rightD)
  ultimately show ?thesis by (rule that)
qed

section \<open>Mutations of the subscriptions\<close>

lemma push_keys:
  "js ''deliveryId'' \<noteq> js ''burrowId''" "js ''endpoint'' \<noteq> js ''burrowId''"
  "js ''keys'' \<noteq> js ''burrowId''" "js ''vapidPublicKey'' \<noteq> js ''burrowId''"
  "js ''subscribedAt'' \<noteq> js ''burrowId''" "js ''endpoint'' \<noteq> js ''deliveryId''"
  "js ''keys'' \<noteq> js ''deliveryId''" "js ''vapidPublicKey'' \<noteq> js ''deliveryId''"
  "js ''subscribedAt'' \<noteq> js ''deliveryId''" "js ''keys'' \<noteq> js ''endpoint''"
  "js ''vapidPublicKey'' \<noteq> js ''endpoint''" "js ''subscribedAt'' \<noteq> js ''endpoint''"
  "js ''vapidPublicKey'' \<noteq> js ''keys''" "js ''subscribedAt'' \<noteq> js ''keys''"
  "js ''subscribedAt'' \<noteq> js ''vapidPublicKey''" "js ''auth'' \<noteq> js ''p256dh''"
  by (simp_all add: js_def)

lemmas push_key_simps [simp] = push_keys push_keys [symmetric]

lemma push_row_fields [simp]:
  "sub_burrow (push_row r now) = pr_burrow r" "sub_delivery (push_row r now) = pr_delivery r"
  "sub_endpoint (push_row r now) = pr_endpoint r" "sub_vapid (push_row r now) = pr_vapid r"
  by (simp_all add: sub_burrow_def sub_delivery_def sub_endpoint_def sub_vapid_def push_row_def text_prop_def)

lemma push_row_stored: "is_stored_push_subscription (push_row r now)"
  by (simp add: is_stored_push_subscription_def push_row_def is_number_def)

lemma list_subscriptions_sound:
  "list_subscriptions f burrows = Inr rows \<Longrightarrow> list_all is_stored_push_subscription rows"
  by (auto simp: list_subscriptions_def Let_def list_all_iff split: sum.splits json.splits option.splits)

lemma list_subscriptions_enrolled:
  "list_subscriptions f (Some bs) = Inr rows \<Longrightarrow> row \<in> set rows \<Longrightarrow> \<exists>b \<in> set bs. text_prop (js ''burrowId'') b = sub_burrow row"
  by (force simp: list_subscriptions_def Let_def split: sum.splits json.splits)

lemma upsert_rows_shape:
  obtains ys where "upsert_rows r now all = ys @ [push_row r now]"
    "set ys \<subseteq> set (filter (\<lambda>s. \<not> (sub_burrow s = pr_burrow r \<and> sub_delivery s = pr_delivery r) \<and>
       sub_endpoint s \<notin> replaced_endpoints r all) all)"
  unfolding upsert_rows_def by (rule cap_subscriptions_keeps)

lemma upsert_subscription_result:
  assumes "upsert_subscription r now burrows f = (f', Inr (row, ids))"
  shows "\<exists>rows. f' = Some (Some (JArr (rows @ [row]))) \<and> length (rows @ [row]) \<le> max_subscriptions_total \<and>
    (\<forall>b. count_burrow (rows @ [row]) b \<le> max_subscriptions_per_burrow) \<and>
    list_all is_stored_push_subscription (rows @ [row]) \<and>
    (\<forall>s \<in> set rows. \<not> (sub_burrow s = pr_burrow r \<and> sub_delivery s = pr_delivery r) \<and>
      (sub_delivery s = pr_delivery r \<longrightarrow> sub_endpoint s = pr_endpoint r))"
proof -
  obtain all where all: "list_subscriptions f burrows = Inr all" "f' = Some (Some (JArr (upsert_rows r now all)))"
    and row: "row = push_row r now"
    using assms by (auto simp: upsert_subscription_def Let_def split: sum.splits)
  obtain ys where ys: "upsert_rows r now all = ys @ [row]"
    "set ys \<subseteq> set (filter (\<lambda>s. \<not> (sub_burrow s = pr_burrow r \<and> sub_delivery s = pr_delivery r) \<and>
       sub_endpoint s \<notin> replaced_endpoints r all) all)"
    unfolding row by (rule upsert_rows_shape)
  have caps: "length (ys @ [row]) \<le> max_subscriptions_total" "count_burrow (ys @ [row]) b \<le> max_subscriptions_per_burrow" for b
    unfolding ys(1) [symmetric] upsert_rows_def by (rule cap_subscriptions_caps)+
  have "list_all is_stored_push_subscription (ys @ [row])"
    using ys(2) list_subscriptions_sound [OF all(1)] push_row_stored by (auto simp: row list_all_iff)
  moreover have "\<not> (sub_burrow s = pr_burrow r \<and> sub_delivery s = pr_delivery r) \<and>
      (sub_delivery s = pr_delivery r \<longrightarrow> sub_endpoint s = pr_endpoint r)" if "s \<in> set ys" for s
  proof -
    have "s \<in> set all" "sub_endpoint s \<notin> replaced_endpoints r all"
      "\<not> (sub_burrow s = pr_burrow r \<and> sub_delivery s = pr_delivery r)"
      using that ys(2) by auto
    then show ?thesis by (auto simp: replaced_endpoints_def)
  qed
  ultimately show ?thesis using caps all(2) ys(1) by auto
qed

text \<open>After a write the next read gives the rows back, when all their Burrows are enrolled.\<close>

lemma written_rows_read_back:
  assumes "list_all is_stored_push_subscription rows"
    and "\<forall>row \<in> set rows. \<forall>bs. burrows = Some bs \<longrightarrow> sub_burrow row \<in> set (map (text_prop (js ''burrowId'')) bs)"
  shows "list_subscriptions (Some (Some (JArr rows))) burrows = Inr rows"
proof -
  have "filter is_stored_push_subscription rows = rows" using assms(1) by (simp add: list_all_iff filter_id_conv)
  moreover have "filter (\<lambda>s. sub_burrow s \<in> set (map (text_prop (js ''burrowId'')) bs)) rows = rows" if "burrows = Some bs" for bs
    using assms(2) that by (simp only: filter_id_conv) blast
  ultimately show ?thesis
    by (simp add: list_subscriptions_def read_or_def read_if_present_def read_if_exists_def split: option.splits)
qed

section \<open>The account\<close>

lemma jprop_set_prop [simp]:
  "is_object v \<Longrightarrow> jprop k v \<noteq> None \<Longrightarrow> jprop k (set_prop k w v) = Some w"
  "k' \<noteq> k \<Longrightarrow> jprop k' (set_prop k w v) = jprop k' v"
proof -
  have some: "map_of (map (\<lambda>(k', x). if k' = k then (k, w) else (k', x)) xs) k = Some w" if "k \<in> fst ` set xs" for xs
    using that by (induction xs) auto
  have other: "map_of (map (\<lambda>(k', x). if k' = k then (k, w) else (k', x)) xs) k' = map_of xs k'" if "k' \<noteq> k" for xs k'
    using that by (induction xs) auto
  have "map_of (rev kvs) k \<noteq> None \<Longrightarrow> k \<in> fst ` set kvs" for kvs :: "(js_text \<times> json) list"
    by (metis map_of_eq_None_iff set_rev)
  then show "is_object v \<Longrightarrow> jprop k v \<noteq> None \<Longrightarrow> jprop k (set_prop k w v) = Some w"
    using some [of "rev kvs" for kvs] by (cases v) (auto simp: set_prop_def rev_map)
  show "k' \<noteq> k \<Longrightarrow> jprop k' (set_prop k w v) = jprop k' v"
    using other by (cases v) (auto simp: set_prop_def rev_map)
qed

lemma account_keys: "js ''accountId'' \<noteq> js ''passkeys''"
  by (simp add: js_def)

lemma is_object_set_prop [simp]: "is_object (set_prop k w v) = is_object v"
  by (cases v) (auto simp: set_prop_def)

lemma new_account_ok: "is_account new_account" "passkeys_of new_account = []"
  by (simp_all add: is_account_def new_account_def passkeys_of_def account_keys account_keys [symmetric])

lemma is_account_set_passkeys:
  assumes "is_account a"
  shows "is_account (set_prop (js ''passkeys'') (JArr ps) a)"
    and "passkeys_of (set_prop (js ''passkeys'') (JArr ps) a) = ps"
proof -
  have "jprop (js ''passkeys'') a \<noteq> None" using assms by (cases "jprop (js ''passkeys'') a") (auto simp: is_account_def)
  then have "jprop (js ''passkeys'') (set_prop (js ''passkeys'') (JArr ps) a) = Some (JArr ps)"
    using assms by (simp add: is_account_def)
  then show "is_account (set_prop (js ''passkeys'') (JArr ps) a)"
    "passkeys_of (set_prop (js ''passkeys'') (JArr ps) a) = ps"
    using assms by (simp_all add: is_account_def passkeys_of_def account_keys)
qed

lemma load_account_sound: "load_account f = Inr (Some a) \<Longrightarrow> is_account a"
  by (auto simp: load_account_def load_record_def split: sum.splits option.splits if_splits)

lemma load_account_written: "is_account a \<Longrightarrow> load_account (Some (Some a)) = Inr (Some a)"
  by (simp add: load_account_def load_record_def read_if_exists_def)

lemma find_row_append:
  "find_row c (ps @ [p]) =
     (case find_row c ps of Inl e \<Rightarrow> Inl e | Inr (Some q) \<Rightarrow> Inr (Some q)
      | Inr None \<Rightarrow> if p = JNull then Inl ReadsNull
          else if is_literal c (jprop (js ''credentialId'') p) then Inr (Some p) else Inr None)"
  by (induction ps) auto

lemma passkey_row_id [simp]: "jprop (js ''credentialId'') (passkey_row c k l t) = Some (JStr c)"
  "passkey_row c k l t \<noteq> JNull"
  by (simp_all add: passkey_row_def js_def)

lemma append_passkey_cases:
  assumes "append_passkey c k l t f = (f', Inr a)"
  obtains a0 where "is_account a0" "load_account f = Inr (Some a0) \<or> load_account f = Inr None \<and> a0 = new_account"
    "find_row c (passkeys_of a0) = Inr None" "a = set_prop (js ''passkeys'') (JArr (passkeys_of a0 @ [passkey_row c k l t])) a0"
    "f' = Some (Some a)"
  using assms load_account_sound [of f] new_account_ok
  by (auto simp: append_passkey_def Let_def split: sum.splits option.splits)

lemma append_passkey_found:
  assumes "append_passkey c k l t f = (f', Inr a)"
  shows "find_passkey c f' = Inr (Some (passkey_row c k l t))"
    and "find_passkey c f = Inr None"
    and "c' \<noteq> c \<Longrightarrow> find_passkey c' f' = find_passkey c' f"
proof -
  obtain a0 where a0: "is_account a0" "load_account f = Inr (Some a0) \<or> load_account f = Inr None \<and> a0 = new_account"
    "find_row c (passkeys_of a0) = Inr None" "a = set_prop (js ''passkeys'') (JArr (passkeys_of a0 @ [passkey_row c k l t])) a0"
    "f' = Some (Some a)"
    using append_passkey_cases [OF assms] by blast
  note a = is_account_set_passkeys [OF a0(1), of "passkeys_of a0 @ [passkey_row c k l t]", folded a0(4)]
  have f': "find_passkey d f' = find_row d (passkeys_of a0 @ [passkey_row c k l t])" for d
    by (simp add: find_passkey_def a0(5) load_account_written [OF a(1)] a(2))
  have f: "find_passkey d f = find_row d (passkeys_of a0)" for d
    using a0(2) new_account_ok(2) by (auto simp: find_passkey_def)
  show "find_passkey c f' = Inr (Some (passkey_row c k l t))" "find_passkey c f = Inr None"
    using a0(3) by (simp_all add: f' f find_row_append)
  show "c' \<noteq> c \<Longrightarrow> find_passkey c' f' = find_passkey c' f"
    by (auto simp: f' f find_row_append split: sum.splits option.splits)
qed

lemma append_passkey_refused: "append_passkey c k l t f = (f', Inl e) \<Longrightarrow> f' = f"
  by (auto simp: append_passkey_def Let_def split: sum.splits option.splits)

lemma append_passkey_duplicate:
  assumes "find_passkey c f = Inr (Some p)"
  shows "append_passkey c k l t f = (f, Inl (DuplicateCredential c))"
  using assms by (auto simp: find_passkey_def append_passkey_def Let_def split: sum.splits option.splits)

section \<open>Burrows\<close>

lemma find_by_token_enrolled:
  assumes "find_by_token digest token rows = Some row"
  shows "is_burrow_token token \<and> row \<in> set (list_burrows rows) \<and> is_stored_burrow row \<and>
    digest (text_prop (js ''burrowToken'') row) = digest token"
proof -
  have "fold (\<lambda>row found. if P row then Some row else found) rs z = Some r \<Longrightarrow> z = Some r \<or> r \<in> set rs \<and> P r" for P rs z r
    by (induction rs arbitrary: z) (fastforce split: if_splits)+
  from this [of "\<lambda>r. secret_equals digest (text_prop (js ''burrowToken'') r) token" "list_burrows rows" None row] assms
  show ?thesis
    by (auto simp: find_by_token_def secret_equals_def constant_time_equal_iff list_burrows_def
        list_burrows_if_present_def split: if_splits option.splits json.splits)
qed

lemma enroll_burrow_bounded:
  assumes "enroll_burrow before file_exists r1 r2 now rows = Inr (written, row)" "length r1 = e2e_id_byte_length"
  shows "list_burrows (Some written) = list_burrows rows @ [row]"
    and "length (list_burrows (Some written)) \<le> max_enrolled_burrows"
proof -
  have row: "row = burrow_row r1 r2 now" "written = JArr (list_burrows rows @ [row])" "length (list_burrows rows) < max_enrolled_burrows"
    using assms(1) by (auto simp: enroll_burrow_def Let_def split: if_splits option.splits)
  have "length (to_base64_url r1) = 22"
    using assms(2) by (simp add: length_to_base64_url e2e_id_byte_length_def base64_url_length_def)
  moreover from this have "to_base64_url r1 \<noteq> []" by auto
  ultimately have "is_e2e_id (Some (JStr (to_base64_url r1)))"
    by (simp add: is_e2e_id_def is_exact_base64_url_def is_bounded_base64_url_def e2e_id_length_def
        e2e_id_byte_length_def base64_url_length_def list_all_iff encoded_units)
  then have "is_stored_burrow row"
    by (simp add: row(1) is_stored_burrow_def burrow_row_def is_number_def js_def)
  moreover have "filter is_stored_burrow (list_burrows rows) = list_burrows rows"
    by (auto simp: list_burrows_def list_burrows_if_present_def split: option.splits json.splits)
  ultimately show "list_burrows (Some written) = list_burrows rows @ [row]"
    by (simp add: row(2) list_burrows_def [of "Some _"] list_burrows_if_present_def)
  with row(3) show "length (list_burrows (Some written)) \<le> max_enrolled_burrows" by simp
qed

section \<open>The cached read\<close>

datatype file_event = FileRead | FileWrite nat json | FileEdit "(nat \<times> file_text) option"

fun file_step :: "file_event \<Rightarrow> cached_file \<Rightarrow> cached_file" where
  "file_step FileRead f = fst (read_cached f)"
| "file_step (FileWrite key v) f = write_atomic key v f"
| "file_step (FileEdit disk) f = edit_file disk f"

text \<open>What the gate rests on: a \<open>stat\<close> key names one content.\<close>

fun names_content :: "(nat \<Rightarrow> file_text) \<Rightarrow> file_event \<Rightarrow> bool" where
  "names_content content FileRead = True"
| "names_content content (FileWrite key v) = (content key = Some v)"
| "names_content content (FileEdit None) = True"
| "names_content content (FileEdit (Some (key, c))) = (content key = c)"

definition cache_ok :: "(nat \<Rightarrow> file_text) \<Rightarrow> cached_file \<Rightarrow> bool" where
  "cache_ok content f \<longleftrightarrow>
     (\<forall>key c. cf_disk f = Some (key, c) \<longrightarrow> c = content key) \<and>
     (\<forall>key v. cf_cache f = Some (key, v) \<longrightarrow> content key = Some v \<and> v \<noteq> JNull)"

definition read_uncached :: "cached_file \<Rightarrow> store_error + json option" where
  "read_uncached f = read_if_present (map_option snd (cf_disk f))"

lemma read_cached_exact: "cache_ok content f \<Longrightarrow> snd (read_cached f) = read_uncached f"
  by (auto simp: cache_ok_def read_cached_def read_uncached_def read_if_present_def read_if_exists_def
      split: option.splits sum.splits)

lemma file_step_ok: "cache_ok content f \<Longrightarrow> names_content content e \<Longrightarrow> cache_ok content (file_step e f)"
proof (cases e)
  case FileRead
  assume "cache_ok content f"
  then show ?thesis
    by (auto simp: FileRead cache_ok_def read_cached_def read_if_present_def read_if_exists_def
        split: option.splits sum.splits if_splits)
next
  case (FileEdit disk)
  assume "cache_ok content f" "names_content content e"
  then show ?thesis
    by (cases disk) (auto simp: FileEdit cache_ok_def edit_file_def)
qed (auto simp: cache_ok_def write_atomic_def)

interpretation cached_reads: event_system file_step "names_content content" "cache_ok content" for content
  by unfold_locales (rule file_step_ok)

end
