(* ===== verification/Relay_Claims.thy ===== *)
theory Relay_Claims
  imports Relay_Facts Relay_Tokens Relay_Store_Facts
begin

text \<open>The properties of the relay server's components, each with an instance.\<close>

section \<open>An example run\<close>

text \<open>A Burrow and a Client connect and the Client sends an \<open>init\<close>, the frame the parser gives.\<close>

definition demo_id :: js_text where "demo_id = js ''AAAAAAAAAAAAAAAAAAAAAA''"

definition demo_init :: json where
  "demo_init = JObj [(js ''t'', JStr (js ''e2e'')), (js ''burrowId'', JStr demo_id), (js ''kind'', JStr (js ''pairing'')),
     (js ''id'', JStr demo_id), (js ''step'', JStr (js ''init'')), (js ''ct'', JStr (js ''AAAA''))]"

definition demo_run :: "hub_event list" where
  "demo_run = [BurrowOpens demo_id 1, ClientOpens (replicate 16 0) 2 100,
     ClientSends \<lparr>ref_id = 1, ref_client = demo_id\<rparr> []]"

lemma demo_id_exact: "is_exact_base64_url demo_id 22"
  by (simp add: demo_id_def js_def is_exact_base64_url_def is_bounded_base64_url_def is_b64u_unit_def char_classes)

lemma demo_minted: "to_base64_url (replicate 16 0) = demo_id"
  by code_simp

lemma wire_lengths:
  "e2e_id_length = 22" "max_e2e_ciphertext_length = 87380"
  by (simp_all add: e2e_id_length_def e2e_id_byte_length_def max_e2e_ciphertext_length_def base64_url_length_def
      noise_max_message_length_def)

lemma demo_props:
  "jprop (js ''t'') demo_init = Some (JStr (js ''e2e''))" "jprop (js ''burrowId'') demo_init = Some (JStr demo_id)"
  "jprop (js ''kind'') demo_init = Some (JStr (js ''pairing''))" "jprop (js ''id'') demo_init = Some (JStr demo_id)"
  "jprop (js ''step'') demo_init = Some (JStr (js ''init''))" "jprop (js ''ct'') demo_init = Some (JStr (js ''AAAA''))"
  "is_object demo_init"
  by (simp_all add: demo_init_def)

lemma demo_ct: "is_bounded_base64_url (js ''AAAA'') 87380"
  by (simp add: js_def is_bounded_base64_url_def is_b64u_unit_def char_classes)

lemma demo_guard: "is_e2e_client_frame demo_init"
  by (simp add: is_e2e_client_frame_def demo_props is_e2e_id_def is_e2e_kind_def is_e2e_ciphertext_def wire_lengths
      demo_id_exact demo_ct)

lemma demo_fresh: "distinct (opened_sockets demo_run)" "distinct (minted_ids demo_run)" "ids_admitted demo_run"
  by (simp_all add: demo_run_def opened_sockets_def minted_ids_def ids_admitted_def demo_id_exact wire_lengths
      e2e_id_byte_length_def)

lemma demo_state:
  "hub_run (\<lambda>raw. Some demo_init) demo_run =
     \<lparr>hub_burrows = [(demo_id, \<lparr>bc_id = 0, bc_burrow = demo_id, bc_socket = 1\<rparr>)],
      hub_clients = [(demo_id, \<lparr>cc_id = 1, cc_client = demo_id, cc_socket = 2, cc_expires = 100, cc_burrow = Some demo_id\<rparr>)],
      hub_next = 2, hub_out = [Sent 1 (frame_for_burrow demo_id demo_init)]\<rparr>"
  by (simp add: hub_run_def demo_run_def new_hub_def register_burrow_def register_client_def demo_minted Let_def
      max_relay_client_sockets_def on_client_frame_def current_client_def parse_frame_def demo_props demo_guard
      resolve_burrow_def text_prop_def bind_client_to_burrow_def to_burrow_def safe_send_def)

section \<open>Routing\<close>

text \<open>C36: However sockets open, send, close, expire and are replaced, the Burrow registered under an id counts a
  Client as present, going by the init and client-gone frames its own socket was sent, exactly when the
  hub holds that Client bound to that Burrow; a binding never outlives the Burrow process it was made with.\<close>

theorem bindings_agree_with_burrows:
  assumes "distinct (opened_sockets es)" and "distinct (minted_ids es)"
    and "map_of (hub_burrows (hub_run parse es)) b = Some conn"
  shows "knows k (delivered (bc_socket conn) (hub_out (hub_run parse es))) \<longleftrightarrow>
    (\<exists>c. map_of (hub_clients (hub_run parse es)) k = Some c \<and> cc_burrow c = Some b)"
  by (rule hub_agreement [OF hub_inv_run [OF assms(1,2)] assms(3)])

lemma bindings_agree_with_burrows_witness:
  "knows demo_id (delivered 1 (hub_out (hub_run (\<lambda>raw. Some demo_init) demo_run)))"
  using bindings_agree_with_burrows [OF demo_fresh(1,2), of "\<lambda>raw. Some demo_init" demo_id _ demo_id]
  by (simp add: demo_state)

text \<open>C37: An end-to-end frame is forwarded only inside a binding. To a Client: from the socket now registered for the
  Burrow the Client is bound to, stamped with that Burrow's id, and only after that very Burrow socket was
  sent an init of that Client. To a Burrow: from a registered Client, stamped with its clientId,
  and the Client is bound to that Burrow when the step is over.\<close>

theorem forwards_within_bindings:
  assumes "distinct (opened_sockets es)" and "distinct (minted_ids es)"
    and "hub_out (hub_step parse e (hub_run parse es)) = hub_out (hub_run parse es) @ new"
    and "Sent s f \<in> set new" and "jprop (js ''t'') f = Some (JStr (js ''e2e''))"
  shows "(\<exists>conn raw c holder. e = BurrowSends conn raw \<and>
      map_of (hub_burrows (hub_run parse es)) (bc_burrow conn) = Some holder \<and> bc_id holder = bc_id conn \<and>
      map_of (hub_clients (hub_run parse es)) (cc_client c) = Some c \<and> cc_burrow c = Some (bc_burrow conn) \<and>
      s = cc_socket c \<and> jprop (js ''burrowId'') f = Some (JStr (bc_burrow conn)) \<and>
      knows (cc_client c) (delivered (bc_socket holder) (hub_out (hub_run parse es)))) \<or>
    (\<exists>r raw c conn. e = ClientSends r raw \<and> current_client r (hub_run parse es) = Some c \<and>
      map_of (hub_burrows (hub_run parse es)) (bc_burrow conn) = Some conn \<and> s = bc_socket conn \<and>
      jprop (js ''clientId'') f = Some (JStr (cc_client c)) \<and>
      (\<exists>c'. map_of (hub_clients (hub_step parse e (hub_run parse es))) (cc_client c) = Some c' \<and>
        cc_burrow c' = Some (bc_burrow conn)))"
  by (rule forwarded_in_binding [OF assms])

lemma forwards_within_bindings_witness:
  "\<exists>c'. map_of (hub_clients (hub_run (\<lambda>raw. Some demo_init) demo_run)) demo_id = Some c' \<and> cc_burrow c' = Some demo_id"
proof -
  let ?es = "[BurrowOpens demo_id 1, ClientOpens (replicate 16 0) 2 100]"
  let ?parse = "\<lambda>raw. Some demo_init"
  have split: "hub_run ?parse demo_run = hub_step ?parse (ClientSends \<lparr>ref_id = 1, ref_client = demo_id\<rparr> []) (hub_run ?parse ?es)"
    by (simp add: demo_run_def hub_run_def)
  have before: "hub_clients (hub_run ?parse ?es) = [(demo_id, \<lparr>cc_id = 1, cc_client = demo_id, cc_socket = 2,
      cc_expires = 100, cc_burrow = None\<rparr>)]" "hub_out (hub_run ?parse ?es) = []"
    "hub_burrows (hub_run ?parse ?es) = [(demo_id, \<lparr>bc_id = 0, bc_burrow = demo_id, bc_socket = 1\<rparr>)]"
    by (simp_all add: hub_run_def new_hub_def register_burrow_def register_client_def demo_minted Let_def
        max_relay_client_sockets_def)
  have "distinct (opened_sockets ?es)" "distinct (minted_ids ?es)"
    by (simp_all add: opened_sockets_def minted_ids_def)
  from forwards_within_bindings [OF this, of ?parse "ClientSends \<lparr>ref_id = 1, ref_client = demo_id\<rparr> []"
      "[Sent 1 (frame_for_burrow demo_id demo_init)]" 1 "frame_for_burrow demo_id demo_init"]
  show ?thesis
    unfolding split [symmetric] by (auto simp: before demo_state current_client_def)
qed

text \<open>C38: What the hub puts on a socket has the shape its receiver checks for: on a Burrow's socket a frame that
  passes isE2eRelayToBurrowFrame or a client-gone naming a bounded clientId, on a Client's a frame
  that passes isE2eRelayToClientFrame, burrow-gone or an error.\<close>

theorem sent_frames_have_receiver_type:
  assumes "distinct (opened_sockets es)" and "distinct (minted_ids es)" and "ids_admitted es"
    and "Sent s f \<in> set (hub_out (hub_run parse es))"
  shows "(\<exists>b. BurrowOpens b s \<in> set es) \<and> burrow_inbound f \<or> (\<exists>r t. ClientOpens r s t \<in> set es) \<and> client_inbound f"
  by (rule run_sends [OF assms])

lemma sent_frames_have_receiver_type_witness: "burrow_inbound (frame_for_burrow demo_id demo_init)"
proof -
  have "\<not> (\<exists>r t. ClientOpens r 1 t \<in> set demo_run)" by (simp add: demo_run_def)
  then show ?thesis
    using sent_frames_have_receiver_type [OF demo_fresh, of 1 "frame_for_burrow demo_id demo_init" "\<lambda>raw. Some demo_init"]
    by (simp add: demo_state)
qed

text \<open>C39: A sweep at a time removes exactly the Clients whose session has ended by then, closes each of their sockets
  once with the code and reason of a refused upgrade and reports how many; and whatever happens later, nothing
  such a Client still sends, nor its own closing, has any effect on the hub.\<close>

theorem expired_clients_are_cut_off:
  assumes "distinct (opened_sockets es)" and "distinct (minted_ids es)"
    and "close_expired_clients now (hub_run parse es) = (swept, closed_count)"
  shows "hub_clients swept = filter (\<lambda>(k, c). \<not> expired_at now c) (hub_clients (hub_run parse es)) \<and>
    closed_count = length (filter (\<lambda>(k, c). expired_at now c) (hub_clients (hub_run parse es))) \<and>
    filter is_close (hub_out swept) = filter is_close (hub_out (hub_run parse es)) @
      map (\<lambda>(k, c). Closed (cc_socket c) ws_close_unauthorized ws_close_unauthorized_reason)
        (filter (\<lambda>(k, c). expired_at now c) (hub_clients (hub_run parse es))) \<and>
    (\<forall>r c raw later. current_client r (hub_run parse es) = Some c \<longrightarrow> expired_at now c \<longrightarrow>
      on_client_frame parse r raw (fold (hub_step parse) later swept) = fold (hub_step parse) later swept \<and>
      unregister_client r (fold (hub_step parse) later swept) = fold (hub_step parse) later swept)"
proof -
  note inv = hub_inv_run [OF assms(1,2), of parse]
  have swept: "swept = fst (close_expired_clients now (hub_run parse es))" using assms(3) by simp
  have "stale_client r (fold (hub_step parse) later swept)"
    if "current_client r (hub_run parse es) = Some c" "expired_at now c" for r c later
    using expired_goes_stale [OF inv that(1)] that(2) unfolding swept expired_at_def
    by (intro expired.run_keeps) (simp_all add: list_all_iff)
  then show ?thesis
    using expiry_sweep [OF inv, of now] stale_client_ignored assms(3) by auto
qed

lemma expired_clients_are_cut_off_witness:
  "on_client_frame (\<lambda>raw. Some demo_init) \<lparr>ref_id = 1, ref_client = demo_id\<rparr> []
     (fst (close_expired_clients 100 (hub_run (\<lambda>raw. Some demo_init) demo_run))) =
   fst (close_expired_clients 100 (hub_run (\<lambda>raw. Some demo_init) demo_run))"
proof -
  let ?h = "hub_run (\<lambda>raw. Some demo_init) demo_run"
  have "close_expired_clients 100 ?h = (fst (close_expired_clients 100 ?h), snd (close_expired_clients 100 ?h))" by simp
  from expired_clients_are_cut_off [OF demo_fresh(1,2) this] have
    "on_client_frame (\<lambda>raw. Some demo_init) r raw (fold (hub_step (\<lambda>raw. Some demo_init)) later (fst (close_expired_clients 100 ?h)))
      = fold (hub_step (\<lambda>raw. Some demo_init)) later (fst (close_expired_clients 100 ?h))"
    if "current_client r ?h = Some c" "expired_at 100 c" for r c raw later
    using that by blast
  from this [of "\<lparr>ref_id = 1, ref_client = demo_id\<rparr>" _ "[]" "[]"] show ?thesis
    by (simp add: demo_state current_client_def expired_at_def)
qed

text \<open>C12: Once another socket has registered a Burrow's id, no frame the displaced socket still delivers, nor its
  own closing, changes anything of the hub, whatever the hub held before and whatever happened in between.\<close>

theorem displaced_burrow_is_silent:
  assumes "register_burrow b s h0 = (h1, conn)"
    and "h2 = hub_step parse (BurrowOpens b s') (fold (hub_step parse) es h1)"
  shows "on_burrow_frame parse conn raw (fold (hub_step parse) later h2) = fold (hub_step parse) later h2 \<and>
    unregister_burrow conn (fold (hub_step parse) later h2) = fold (hub_step parse) later h2"
proof -
  have "stale_burrow conn (fold (hub_step parse) later h2)"
    using displaced_goes_stale [OF assms(1)] unfolding assms(2)
    by (intro displaced.run_keeps) (simp_all add: list_all_iff)
  then show ?thesis by (simp add: stale_burrow_ignored)
qed

lemma displaced_burrow_is_silent_witness:
  "unregister_burrow \<lparr>bc_id = 0, bc_burrow = demo_id, bc_socket = 1\<rparr>
     (hub_step (\<lambda>raw. None) (BurrowOpens demo_id 2) (fst (register_burrow demo_id 1 new_hub))) =
   hub_step (\<lambda>raw. None) (BurrowOpens demo_id 2) (fst (register_burrow demo_id 1 new_hub))"
proof -
  have "register_burrow demo_id 1 new_hub =
      (fst (register_burrow demo_id 1 new_hub), \<lparr>bc_id = 0, bc_burrow = demo_id, bc_socket = 1\<rparr>)"
    by (simp add: register_burrow_def new_hub_def Let_def)
  from displaced_burrow_is_silent [OF this, of _ "\<lambda>raw. None" 2 "[]" "[]" "[]"] show ?thesis by simp
qed

section \<open>Setup tokens\<close>

text \<open>C40: A setup token is redeemed at most once: the redemption that succeeds is of a token the map held, before
  its expiry, and afterwards neither a redemption nor a look finds it, until it is put back or minted again.\<close>

theorem setup_token_spent_once:
  assumes "consume_token now token ts = (ts', r)" and "list_all (\<lambda>e. \<not> revives token e) es"
  shows "snd (consume_token later token (fold token_step es ts')) = None \<and>
    snd (peek_token later token (fold token_step es ts')) = None \<and>
    (\<forall>e. r = Some e \<longrightarrow> map_of ts token = Some e \<and> now < st_expires e)"
proof -
  have "map_of ts' token = None" using assms(1) by (auto simp: consume_token_def split: option.splits)
  from spent_stays_spent [OF this assms(2)] have "map_of (fold token_step es ts') token = None" .
  then show ?thesis using assms(1) by (auto simp: consume_token_def peek_token_def split: option.splits if_splits)
qed

lemma setup_token_spent_once_witness:
  "snd (consume_token 6 [65] (fold token_step [PeekToken 5 [65]] [])) = None"
  using setup_token_spent_once [of 3 "[65]" "[([65], \<lparr>st_burrow = [66], st_expires = 9\<rparr>)]" "[]" "Some \<lparr>st_burrow = [66], st_expires = 9\<rparr>"
      "[PeekToken 5 [65]]" 6]
  by (simp add: consume_token_def)

text \<open>Whatever is minted, looked at, redeemed and put back, no Burrow ever holds more than eight setup tokens, and
  minting one costs no other Burrow a token that is still alive.\<close>

lemma setup_tokens_bounded:
  assumes "ts = fold token_step es []"
  shows "length (own_tokens burrow ts) \<le> max_tokens_per_burrow \<and>
    (map_of ts (to_base64_url random) = None \<longrightarrow> other \<noteq> burrow \<longrightarrow>
      own_tokens other (fst (issue_token now issued random burrow ts)) = prune_expired now (own_tokens other ts))"
proof -
  have "tokens_ok ts"
    unfolding assms by (rule setup_tokens.run_keeps) (simp_all add: tokens_ok_def own_tokens_def list_all_iff)
  then show ?thesis using issue_spares_others by (simp add: tokens_ok_def)
qed

section \<open>State files\<close>

text \<open>Registering a push subscription leaves a file of at most 256 rows, at most 32 of a Burrow; the new row is
  in it, it is the only one for its Burrow and delivery id, and no row is left on an address that delivery
  had before.\<close>

lemma subscriptions_capped_and_current:
  assumes "upsert_subscription r now burrows f = (f', Inr (row, ids))"
  shows "\<exists>rows. f' = Some (Some (JArr (rows @ [row]))) \<and> length (rows @ [row]) \<le> max_subscriptions_total \<and>
    (\<forall>b. count_burrow (rows @ [row]) b \<le> max_subscriptions_per_burrow) \<and>
    list_all is_stored_push_subscription (rows @ [row]) \<and>
    (\<forall>s \<in> set rows. \<not> (sub_burrow s = pr_burrow r \<and> sub_delivery s = pr_delivery r) \<and>
      (sub_delivery s = pr_delivery r \<longrightarrow> sub_endpoint s = pr_endpoint r))"
  by (rule upsert_subscription_result [OF assms])

text \<open>As long as a stat key names one content of the file, the cached read answers what reading and parsing
  the file would, whatever writes, edits by hand, removals and earlier reads came before: a row deleted by hand
  is gone at the next request.\<close>

lemma cached_read_is_fresh:
  assumes "list_all (names_content content) es"
  shows "snd (read_cached (fold file_step es \<lparr>cf_disk = None, cf_cache = None\<rparr>)) =
    read_uncached (fold file_step es \<lparr>cf_disk = None, cf_cache = None\<rparr>)"
  by (rule read_cached_exact [OF cached_reads.run_keeps [OF _ assms]]) (simp add: cache_ok_def)

text \<open>A passkey that was registered is found by its credential id, is registered once (a second registration is
  refused and writes nothing) and changes what no other credential id finds.\<close>

lemma passkey_registered_once:
  assumes "append_passkey c k l t f = (f', Inr account)"
  shows "find_passkey c f = Inr None \<and> find_passkey c f' = Inr (Some (passkey_row c k l t)) \<and>
    append_passkey c k2 l2 t2 f' = (f', Inl (DuplicateCredential c)) \<and>
    (\<forall>c'. c' \<noteq> c \<longrightarrow> find_passkey c' f' = find_passkey c' f)"
  using append_passkey_found [OF assms] append_passkey_duplicate by blast

end
