(* ===== verification/Remote_Ceremony.thy ===== *)
theory Remote_Ceremony
  imports Remote_Json Sec_Presence
begin

text \<open>
  The messages of the two ceremonies as they arrive, untyped (\<open>e2e-ceremony.ts\<close> and the binding guard of
  \<open>presence.ts\<close>), the display text of attacker-chosen labels (\<open>push.ts\<close>, \<open>pairing.ts\<close>) and sealed
  notifications (\<open>push-seal.ts\<close>), all in \<open>remote-lib-common/src/security/\<close>. A guard is a predicate on a
  JSON value; the cast that follows it is a reader of the fields it has checked.
\<close>

section \<open>Guards and readers\<close>

definition bounded_prop :: "nat \<Rightarrow> json \<Rightarrow> js_text \<Rightarrow> bool" where
  "bounded_prop limit v k \<longleftrightarrow> string_such (\<lambda>s. is_bounded_string s limit) (jprop k v)"

text \<open>\<open>Object.keys\<close>.\<close>

fun object_keys :: "json \<Rightarrow> js_text list" where
  "object_keys (JObj kvs) = remdups (map fst kvs)"
| "object_keys v = []"

definition pairing_fields :: "js_text list" where
  "pairing_fields = [js ''burrowId'', js ''handshakeHash'', js ''passkeyCredentialId'', js ''kind'']"

definition connection_fields :: "js_text list" where
  "connection_fields = [js ''burrowId'', js ''connectionId'', js ''burrowChallenge'', js ''handshakeHash'',
     js ''passkeyCredentialId'', js ''kind'']"

definition is_binding_value :: "json \<Rightarrow> bool" where
  "is_binding_value v \<longleftrightarrow> is_object v \<and>
     (case (if is_literal (js ''pairing'') (jprop (js ''kind'') v) then Some pairing_fields
            else if is_literal (js ''connection'') (jprop (js ''kind'') v) then Some connection_fields
            else None) of
        None \<Rightarrow> False
      | Some ks \<Rightarrow> length (object_keys v) = length ks \<and> list_all (bounded_prop presence_field_limit v) ks)"

definition binding_of :: "json \<Rightarrow> presence_binding" where
  "binding_of v =
     (if is_literal (js ''pairing'') (jprop (js ''kind'') v)
      then PairingBinding (text_prop (js ''burrowId'') v) (text_prop (js ''handshakeHash'') v)
             (text_prop (js ''passkeyCredentialId'') v)
      else ConnectionBinding (text_prop (js ''burrowId'') v) (text_prop (js ''connectionId'') v)
             (text_prop (js ''burrowChallenge'') v) (text_prop (js ''handshakeHash'') v)
             (text_prop (js ''passkeyCredentialId'') v))"

definition is_assertion_value :: "json \<Rightarrow> bool" where
  "is_assertion_value v \<longleftrightarrow> is_object v \<and>
     list_all (bounded_prop ceremony_field_limit v)
       [js ''credentialId'', js ''clientDataJSON'', js ''authenticatorData'', js ''signature'']"

definition assertion_of :: "json \<Rightarrow> passkey_assertion" where
  "assertion_of v = \<lparr>pa_credential = text_prop (js ''credentialId'') v,
     pa_client_data = text_prop (js ''clientDataJSON'') v,
     pa_authenticator_data = text_prop (js ''authenticatorData'') v, pa_signature = text_prop (js ''signature'') v\<rparr>"

text \<open>A property a guard has found to be there, itself to be read further.\<close>

definition value_prop :: "js_text \<Rightarrow> json \<Rightarrow> json" where
  "value_prop k v = (case jprop k v of None \<Rightarrow> JNull | Some w \<Rightarrow> w)"

definition is_proof_value :: "json \<Rightarrow> bool" where
  "is_proof_value v \<longleftrightarrow> is_object v \<and>
     is_binding_value (value_prop (js ''binding'') v) \<and>
     list_all (bounded_prop ceremony_field_limit v)
       [js ''relayNonce'', js ''accountId'', js ''passkeyCredentialId'', js ''passkeyPublicKey''] \<and>
     is_assertion_value (value_prop (js ''assertion'') v)"

definition proof_of :: "json \<Rightarrow> presence_proof" where
  "proof_of v = \<lparr>pp_binding = binding_of (value_prop (js ''binding'') v),
     pp_relay_nonce = text_prop (js ''relayNonce'') v, pp_account = text_prop (js ''accountId'') v,
     pp_credential = text_prop (js ''passkeyCredentialId'') v, pp_public_key = text_prop (js ''passkeyPublicKey'') v,
     pp_assertion = assertion_of (value_prop (js ''assertion'') v)\<rparr>"

definition is_pairing_request_v1 :: "json \<Rightarrow> bool" where
  "is_pairing_request_v1 v \<longleftrightarrow> is_object v \<and>
     string_such is_pairing_code (jprop (js ''code'') v) \<and>
     bounded_prop ceremony_field_limit v (js ''label'') \<and>
     is_proof_value (value_prop (js ''presence'') v)"

definition is_connection_request_v1 :: "json \<Rightarrow> bool" where
  "is_connection_request_v1 v \<longleftrightarrow> is_object v \<and> is_proof_value (value_prop (js ''presence'') v)"

section \<open>Outcomes\<close>

datatype pairing_denial =
  UserDenied | ConfirmationMismatch | PresenceRejected | InvitationExpired | Superseded | PairingBurrowError

datatype connection_denial =
  PairingRequired | ConnectionPresenceRejected | ProtocolRejected | BurrowBusy | ConnectionBurrowError

fun pairing_denial_text :: "pairing_denial \<Rightarrow> js_text" where
  "pairing_denial_text UserDenied = js ''user-denied''"
| "pairing_denial_text ConfirmationMismatch = js ''confirmation-mismatch''"
| "pairing_denial_text PresenceRejected = js ''presence-rejected''"
| "pairing_denial_text InvitationExpired = js ''invitation-expired''"
| "pairing_denial_text Superseded = js ''superseded''"
| "pairing_denial_text PairingBurrowError = js ''burrow-error''"

fun connection_denial_text :: "connection_denial \<Rightarrow> js_text" where
  "connection_denial_text PairingRequired = js ''pairing-required''"
| "connection_denial_text ConnectionPresenceRejected = js ''presence-rejected''"
| "connection_denial_text ProtocolRejected = js ''protocol-rejected''"
| "connection_denial_text BurrowBusy = js ''burrow-busy''"
| "connection_denial_text ConnectionBurrowError = js ''burrow-error''"

definition pairing_denials :: "js_text list" where
  "pairing_denials = map pairing_denial_text
     [UserDenied, ConfirmationMismatch, PresenceRejected, InvitationExpired, Superseded, PairingBurrowError]"

definition connection_denials :: "js_text list" where
  "connection_denials = map connection_denial_text
     [PairingRequired, ConnectionPresenceRejected, ProtocolRejected, BurrowBusy, ConnectionBurrowError]"

record paired_outcome =
  po_static :: js_text
  po_label :: js_text
  po_account :: js_text
  po_credential :: js_text
  po_key_hash :: js_text
  po_delivery :: js_text

type_synonym pairing_outcome = "pairing_denial + paired_outcome"
type_synonym connection_outcome = "connection_denial + js_text"

definition denial_value :: "js_text \<Rightarrow> json" where
  "denial_value code = JObj [(js ''ok'', JBool False), (js ''code'', JStr code)]"

definition pairing_outcome_value :: "pairing_outcome \<Rightarrow> json" where
  "pairing_outcome_value r =
     (case r of
        Inl d \<Rightarrow> denial_value (pairing_denial_text d)
      | Inr p \<Rightarrow> JObj [(js ''ok'', JBool True), (js ''burrowStaticPublicKey'', JStr (po_static p)),
          (js ''burrowLabel'', JStr (po_label p)), (js ''accountId'', JStr (po_account p)),
          (js ''passkeyCredentialId'', JStr (po_credential p)), (js ''passkeyPublicKeyHash'', JStr (po_key_hash p)),
          (js ''deliveryId'', JStr (po_delivery p))])"

definition connection_outcome_value :: "connection_outcome \<Rightarrow> json" where
  "connection_outcome_value r =
     (case r of
        Inl d \<Rightarrow> denial_value (connection_denial_text d)
      | Inr label \<Rightarrow> JObj [(js ''ok'', JBool True), (js ''burrowLabel'', JStr label)])"

definition includes_code :: "js_text list \<Rightarrow> json option \<Rightarrow> bool" where
  "includes_code codes = string_such (\<lambda>s. s \<in> set codes)"

definition is_pairing_outcome_v1 :: "json \<Rightarrow> bool" where
  "is_pairing_outcome_v1 v \<longleftrightarrow> is_object v \<and>
     (if jprop (js ''ok'') v = Some (JBool False) then includes_code pairing_denials (jprop (js ''code'') v)
      else jprop (js ''ok'') v = Some (JBool True) \<and>
        list_all (bounded_prop ceremony_field_limit v)
          [js ''burrowStaticPublicKey'', js ''burrowLabel'', js ''accountId'', js ''passkeyCredentialId'',
           js ''passkeyPublicKeyHash'', js ''deliveryId''])"

definition is_connection_outcome_v1 :: "json \<Rightarrow> bool" where
  "is_connection_outcome_v1 v \<longleftrightarrow> is_object v \<and>
     (if jprop (js ''ok'') v = Some (JBool False) then includes_code connection_denials (jprop (js ''code'') v)
      else jprop (js ''ok'') v = Some (JBool True) \<and> bounded_prop ceremony_field_limit v (js ''burrowLabel''))"

section \<open>Display text\<close>

definition is_control_unit :: "nat \<Rightarrow> bool" where
  "is_control_unit c \<longleftrightarrow> c \<le> 0x1f \<or> 0x7f \<le> c \<and> c \<le> 0x9f"

definition is_format_unit :: "nat \<Rightarrow> bool" where
  "is_format_unit c \<longleftrightarrow> c = 0x061c \<or> 0x200b \<le> c \<and> c \<le> 0x200f \<or> 0x202a \<le> c \<and> c \<le> 0x202e \<or>
     0x2060 \<le> c \<and> c \<le> 0x2064 \<or> 0x2066 \<le> c \<and> c \<le> 0x2069 \<or> c = 0xfeff"

text \<open>\<open>replace(/\s+/g, ' ')\<close>.\<close>

function squeeze_spaces :: "js_text \<Rightarrow> js_text" where
  "squeeze_spaces [] = []"
| "squeeze_spaces (c # cs) =
     (if is_ws c then 32 # squeeze_spaces (dropWhile is_ws cs) else c # squeeze_spaces cs)"
  by pat_completeness auto
termination
  by (relation "measure length") (auto simp: le_imp_less_Suc length_dropWhile_le)

definition cleaned_text :: "js_text \<Rightarrow> js_text" where
  "cleaned_text s =
     js_trim (squeeze_spaces
       (filter (\<lambda>c. \<not> is_format_unit c) (map (\<lambda>c. if is_control_unit c then 32 else c) s)))"

text \<open>The value is \<open>None\<close> where it is not a string.\<close>

definition bounded_push_text :: "js_text option \<Rightarrow> nat \<Rightarrow> js_text \<Rightarrow> js_text" where
  "bounded_push_text v limit fallback =
     (case v of
        None \<Rightarrow> fallback
      | Some s \<Rightarrow>
          let kept = js_trim (concat (take limit (code_points (cleaned_text s))))
          in if kept = [] then fallback else kept)"

definition pairing_label_limit :: nat where "pairing_label_limit = 64"

definition bounded_pairing_label :: "js_text \<Rightarrow> js_text" where
  "bounded_pairing_label s = bounded_push_text (Some s) pairing_label_limit (js ''(unnamed)'')"

definition bounded_burrow_label :: "js_text \<Rightarrow> js_text" where
  "bounded_burrow_label s = bounded_push_text (Some s) pairing_label_limit []"

section \<open>Sealed notifications\<close>

definition push_seal_domain :: js_text where "push_seal_domain = js ''dormouse/push/v1''"
definition push_seal_salt_length :: nat where "push_seal_salt_length = 32"
definition max_sealed_push_plaintext_length :: nat where "max_sealed_push_plaintext_length = 1536"
definition max_sealed_push_length :: nat where
  "max_sealed_push_length = base64_url_length (max_sealed_push_plaintext_length + noise_tag_length)"
definition min_sealed_push_length :: nat where "min_sealed_push_length = base64_url_length noise_tag_length"
definition sealed_push_salt_chars :: nat where "sealed_push_salt_chars = base64_url_length push_seal_salt_length"
definition zero_nonce :: bytes where "zero_nonce = replicate 12 0"

record sealed_push =
  sp_salt :: js_text
  sp_ct :: js_text

definition is_sealed_push_v1 :: "sealed_push \<Rightarrow> bool" where
  "is_sealed_push_v1 p \<longleftrightarrow>
     is_exact_base64_url (sp_salt p) sealed_push_salt_chars \<and>
     is_bounded_base64_url (sp_ct p) max_sealed_push_length \<and> min_sealed_push_length \<le> length (sp_ct p)"

text \<open>
  \<open>hkdf salt info ikm\<close> is WebCrypto's HKDF-SHA-256 of 32 bytes; \<open>seal\<close> and \<open>open\<close> take key, nonce, additional
  data and text, as in \<open>noise_crypto\<close>.
\<close>

definition seal_key :: "'k noise_crypto \<Rightarrow> (bytes \<Rightarrow> bytes \<Rightarrow> bytes \<Rightarrow> bytes) \<Rightarrow> 'k \<Rightarrow> bytes \<Rightarrow> bytes \<Rightarrow> string + bytes" where
  "seal_key c hkdf private_key peer salt =
     (case x25519_agree c private_key peer of
        Inl e \<Rightarrow> Inl e
      | Inr shared \<Rightarrow> Inr (hkdf salt (utf8_encode push_seal_domain) shared))"

definition seal_push ::
    "'k noise_crypto \<Rightarrow> (bytes \<Rightarrow> bytes \<Rightarrow> bytes \<Rightarrow> bytes) \<Rightarrow> 'k \<Rightarrow> bytes \<Rightarrow> bytes \<Rightarrow> bytes \<Rightarrow> string + sealed_push" where
  "seal_push c hkdf private_key peer salt plaintext =
     (if length plaintext > max_sealed_push_plaintext_length then Inl ''sealed push plaintext is too long''
      else case seal_key c hkdf private_key peer salt of
             Inl e \<Rightarrow> Inl e
           | Inr key \<Rightarrow> Inr \<lparr>sp_salt = to_base64_url salt, sp_ct = to_base64_url (nc_seal c key zero_nonce [] plaintext)\<rparr>)"

definition open_push ::
    "'k noise_crypto \<Rightarrow> (bytes \<Rightarrow> bytes \<Rightarrow> bytes \<Rightarrow> bytes) \<Rightarrow> 'k \<Rightarrow> bytes \<Rightarrow> sealed_push \<Rightarrow> bytes option" where
  "open_push c hkdf private_key peer p =
     (if \<not> is_sealed_push_v1 p then None
      else case from_base64_url (sp_salt p) of
             None \<Rightarrow> None
           | Some salt \<Rightarrow>
               (case seal_key c hkdf private_key peer salt of
                  Inl _ \<Rightarrow> None
                | Inr key \<Rightarrow> Option.bind (from_base64_url (sp_ct p)) (nc_open c key zero_nonce [])))"

end
