(* ===== verification/Burrow_Runtime.thy ===== *)
theory Burrow_Runtime
  imports Remote_Ceremony Remote_Wire Relay_Tokens Sec_Guards Sec_Invitation
begin

text \<open>
  The Burrow's end of the relay (\<open>lib/src/remote/burrow/burrow-runtime.ts\<close>): invitations, both ceremonies,
  the sessions they end in, the reaper of every deadline and the relay socket's life cycle.

  The class's private fields are the record \<open>burrow\<close>. An asynchronous method is cut at its awaits: what it still
  has to do when its promise settles is a value of \<open>drain\<close>, \<open>save_job\<close> or \<open>mint_call\<close>, and anything may
  happen in between. An object the code compares by identity carries a number of its own, and so does the
  Noise session it holds, which lives in the store \<open>bw_sessions\<close>: a session stays usable by the remote-api
  handler that was given it, also when its client entry is gone. Injected callbacks and the socket are the log
  \<open>bw_out\<close> of what they were called with; what the remote-api handler sends while it handles a message is
  the argument \<open>be_reply\<close>, a function of that log, and what it sends at other times is an event. The clock is
  read once per event.
\<close>

section \<open>State\<close>

definition max_pending_pairings :: nat where "max_pending_pairings = 8"
definition max_pending_connection_handshakes :: nat where "max_pending_connection_handshakes = 8"
definition max_established_e2e_sessions :: nat where "max_established_e2e_sessions = 16"
definition established_e2e_idle_timeout_ms :: int where "established_e2e_idle_timeout_ms = 120000"
definition e2e_init_burst :: int where "e2e_init_burst = 8"
definition e2e_init_refill_interval_ms :: int where "e2e_init_refill_interval_ms = 1000"
definition max_queued_relay_frames :: nat where "max_queued_relay_frames = 128"
definition max_queued_relay_frame_chars :: nat where "max_queued_relay_frame_chars = 4 * 1024 * 1024"
definition initial_backoff_ms :: int where "initial_backoff_ms = 1000"
definition max_backoff_ms :: int where "max_backoff_ms = 30000"

datatype invitation_state = Live | Reserved | Consumed | Expired | Dropped

datatype ceremony_end = Paired | CodeMismatch | Cancelled | TimedOut | Replaced | BurrowFailed

fun pairing_outcome_for_denial :: "pairing_denial \<Rightarrow> ceremony_end" where
  "pairing_outcome_for_denial UserDenied = Cancelled"
| "pairing_outcome_for_denial ConfirmationMismatch = CodeMismatch"
| "pairing_outcome_for_denial PresenceRejected = BurrowFailed"
| "pairing_outcome_for_denial InvitationExpired = TimedOut"
| "pairing_outcome_for_denial Superseded = Replaced"
| "pairing_outcome_for_denial PairingBurrowError = BurrowFailed"

record 'k held_invitation =
  hi_ref :: nat
  hi_invitation :: pairing_invitation
  hi_key :: "'k noise_key_pair"
  hi_expires :: int
  hi_reserved :: bool

record pairing_approval =
  pg_code :: js_text
  pg_account :: js_text
  pg_credential :: js_text
  pg_key_hash :: js_text
  pg_label :: js_text

record pending_pairing =
  pn_ref :: nat
  pn_invite :: js_text
  pn_id :: js_text
  pn_hash :: js_text
  pn_static :: js_text
  pn_requested :: int
  pn_expires :: int
  pn_committing :: bool
  pn_approval :: "pairing_approval option"
  pn_attempted :: bool

record pending_connection =
  cn_ref :: nat
  cn_id :: js_text
  cn_hash :: js_text
  cn_static :: js_text
  cn_challenge :: js_text
  cn_expires :: int

record established_session =
  es_ref :: nat
  es_id :: js_text
  es_static :: js_text
  es_activity :: int

record client_state =
  cl_pairing :: "pending_pairing option"
  cl_connection :: "pending_connection option"
  cl_established :: "established_session option"

text \<open>
  What the frame in hand is waiting for. \<open>Idle\<close> is a cleared latch, \<open>Ready\<close> a set one with no frame in hand. A
  handshake between its two messages carries its responder.
\<close>

datatype 'k drain =
    Idle
  | Ready
  | PairingHandshake "'k held_invitation" json nat
  | PairingProof js_text pending_pairing json
  | ConnectionStatic json nat
  | ConnectionAnswer json nat "'k handshake" issued_challenge
  | ConnectionProof js_text pending_connection bool json

record mint_call =
  mc_epoch :: nat
  mc_token :: js_text
  mc_expires :: int

record save_job =
  sj_client :: js_text
  sj_pairing :: pending_pairing
  sj_approval :: pairing_approval

record commit =
  cm_job :: save_job
  cm_acl :: burrow_acl
  cm_record :: acl_record

datatype burrow_status = NotStarted | Connecting | Connected | Disconnected | Displaced | Stopped

datatype burrow_effect =
    SocketMade nat js_text
  | SocketSent nat json
  | SocketShut nat
  | InvitationChanged js_text invitation_state "ceremony_end option"
  | ApprovalRequested js_text js_text js_text int
  | ApprovalDismissed js_text
  | AclSaved "acl_record list"
  | ApiStarted nat
  | ApiHandled nat json
  | ApiDisposed nat

text \<open>What the constructor was given. \<open>be_static\<close> is the outcome of the one import of the enrolled Noise key.\<close>

record ('k, 'p) burrow_env =
  be_crypto :: "'k noise_crypto"
  be_json :: "json json_codec"
  be_presence :: "'p presence_env"
  be_static :: "'k noise_key_pair option"
  be_burrow :: js_text
  be_socket_url :: js_text
  be_static_public :: "js_text option"
  be_label :: js_text
  be_policy :: connection_policy
  be_reconnect :: bool
  be_has_api :: bool
  be_reply :: "burrow_effect list \<Rightarrow> json list"

record 'k burrow =
  bw_clients :: "(js_text \<times> client_state) list"
  bw_invitations :: "(js_text \<times> 'k held_invitation) list"
  bw_sessions :: "nat \<Rightarrow> transport_session option"
  bw_apis :: "(nat \<times> js_text \<times> js_text) list"
  bw_challenges :: challenge_issuer
  bw_tokens :: bucket
  bw_frames :: "(json \<times> nat) list"
  bw_frame_chars :: nat
  bw_drain :: "'k drain"
  bw_epoch :: nat
  bw_acl :: burrow_acl
  bw_mints :: "mint_call list"
  bw_jobs :: "save_job list"
  bw_commit :: "commit option"
  bw_reaper :: "int option"
  bw_socket :: "nat option"
  bw_status :: burrow_status
  bw_stopped :: bool
  bw_displaced :: bool
  bw_backoff :: int
  bw_reconnect :: "int option"
  bw_next :: nat
  bw_out :: "burrow_effect list"

text \<open>What a store may hand back, and the list it is rehydrated to (\<open>acl.ts\<close> beside the runtime).\<close>

definition filter_acl_records :: "js_text \<Rightarrow> acl_record list \<Rightarrow> acl_record list" where
  "filter_acl_records burrow = filter (\<lambda>r. is_burrow_acl_record r \<and> ar_burrow r = burrow)"

definition load_burrow_acl :: "js_text \<Rightarrow> acl_record list \<Rightarrow> burrow_acl" where
  "load_burrow_acl burrow records =
     (case acl_from_records burrow records of Inl _ \<Rightarrow> new_acl burrow | Inr acl \<Rightarrow> acl)"

definition init_tokens :: "int \<Rightarrow> bucket" where
  "init_tokens now =
     (case new_bucket e2e_init_burst e2e_init_refill_interval_ms now of
        Inr b \<Rightarrow> b
      | Inl _ \<Rightarrow> \<lparr>tb_capacity = 0, tb_interval = 1, tb_tokens = 0, tb_last = now\<rparr>)"

definition new_burrow :: "('k, 'p) burrow_env \<Rightarrow> acl_record list \<Rightarrow> int \<Rightarrow> 'k burrow" where
  "new_burrow env records now =
     \<lparr>bw_clients = [], bw_invitations = [], bw_sessions = (\<lambda>_. None), bw_apis = [],
      bw_challenges = new_issuer None None, bw_tokens = init_tokens now, bw_frames = [], bw_frame_chars = 0,
      bw_drain = Idle, bw_epoch = 0, bw_acl = load_burrow_acl (be_burrow env) records, bw_mints = [],
      bw_jobs = [], bw_commit = None, bw_reaper = None, bw_socket = None, bw_status = NotStarted,
      bw_stopped = False, bw_displaced = False, bw_backoff = initial_backoff_ms, bw_reconnect = None,
      bw_next = 0, bw_out = []\<rparr>"

section \<open>Plumbing\<close>

definition emit :: "burrow_effect \<Rightarrow> 'k burrow \<Rightarrow> 'k burrow" where
  "emit x s = s\<lparr>bw_out := bw_out s @ [x]\<rparr>"

definition empty_client :: client_state where
  "empty_client = \<lparr>cl_pairing = None, cl_connection = None, cl_established = None\<rparr>"

definition client_state_of :: "js_text \<Rightarrow> 'k burrow \<Rightarrow> client_state" where
  "client_state_of client s = (case map_of (bw_clients s) client of None \<Rightarrow> empty_client | Some st \<Rightarrow> st)"

text \<open>\<open>#clientState\<close> followed by a change of the entry it gives, which it creates when there is none.\<close>

definition set_client :: "js_text \<Rightarrow> (client_state \<Rightarrow> client_state) \<Rightarrow> 'k burrow \<Rightarrow> 'k burrow" where
  "set_client client f s =
     s\<lparr>bw_clients := AList.update client (f (client_state_of client s)) (bw_clients s)\<rparr>"

definition pairing_at :: "js_text \<Rightarrow> 'k burrow \<Rightarrow> pending_pairing option" where
  "pairing_at client s = Option.bind (map_of (bw_clients s) client) cl_pairing"

definition connection_at :: "js_text \<Rightarrow> 'k burrow \<Rightarrow> pending_connection option" where
  "connection_at client s = Option.bind (map_of (bw_clients s) client) cl_connection"

definition established_at :: "js_text \<Rightarrow> 'k burrow \<Rightarrow> established_session option" where
  "established_at client s = Option.bind (map_of (bw_clients s) client) cl_established"

text \<open>\<open>this.#clients.get(clientId)?.pairing === pending\<close>, and the same of the other two.\<close>

definition pairing_is :: "js_text \<Rightarrow> nat \<Rightarrow> 'k burrow \<Rightarrow> bool" where
  "pairing_is client r s \<longleftrightarrow> map_option pn_ref (pairing_at client s) = Some r"

definition connection_is :: "js_text \<Rightarrow> nat \<Rightarrow> 'k burrow \<Rightarrow> bool" where
  "connection_is client r s \<longleftrightarrow> map_option cn_ref (connection_at client s) = Some r"

definition established_is :: "js_text \<Rightarrow> nat \<Rightarrow> 'k burrow \<Rightarrow> bool" where
  "established_is client r s \<longleftrightarrow> map_option es_ref (established_at client s) = Some r"

definition holds_nothing :: "client_state \<Rightarrow> bool" where
  "holds_nothing st \<longleftrightarrow> cl_pairing st = None \<and> cl_connection st = None \<and> cl_established st = None"

definition prune_client :: "js_text \<Rightarrow> 'k burrow \<Rightarrow> 'k burrow" where
  "prune_client client s =
     (case map_of (bw_clients s) client of
        None \<Rightarrow> s
      | Some st \<Rightarrow> if holds_nothing st then s\<lparr>bw_clients := AList.delete client (bw_clients s)\<rparr> else s)"

definition send_frame :: "json \<Rightarrow> 'k burrow \<Rightarrow> 'k burrow" where
  "send_frame frame s = (case bw_socket s of None \<Rightarrow> s | Some ws \<Rightarrow> emit (SocketSent ws frame) s)"

definition kind_text :: "bool \<Rightarrow> js_text" where
  "kind_text pairing = (if pairing then js ''pairing'' else js ''connection'')"

definition e2e_frame :: "js_text \<Rightarrow> bool \<Rightarrow> js_text \<Rightarrow> js_text \<Rightarrow> bytes \<Rightarrow> json" where
  "e2e_frame client pairing i step ciphertext =
     JObj [(js ''t'', JStr (js ''e2e'')), (js ''clientId'', JStr client), (js ''kind'', JStr (kind_text pairing)),
           (js ''id'', JStr i), (js ''step'', JStr step), (js ''ct'', JStr (to_base64_url ciphertext))]"

definition send_e2e :: "js_text \<Rightarrow> bool \<Rightarrow> js_text \<Rightarrow> js_text \<Rightarrow> bytes \<Rightarrow> 'k burrow \<Rightarrow> 'k burrow" where
  "send_e2e client pairing i step ciphertext = send_frame (e2e_frame client pairing i step ciphertext)"

definition send_control_frame ::
    "('k, 'p) burrow_env \<Rightarrow> js_text \<Rightarrow> bool \<Rightarrow> js_text \<Rightarrow> nat \<Rightarrow> json \<Rightarrow> 'k burrow \<Rightarrow> 'k burrow" where
  "send_control_frame env client pairing i r value s =
     (case bw_sessions s r of
        None \<Rightarrow> s
      | Some session \<Rightarrow>
          (case send_control (be_crypto env) (be_json env) value session of
             (session', Inl _) \<Rightarrow> s\<lparr>bw_sessions := (bw_sessions s)(r := Some session')\<rparr>
           | (session', Inr ciphertext) \<Rightarrow>
               send_e2e client pairing i (js ''transport'') ciphertext
                 (s\<lparr>bw_sessions := (bw_sessions s)(r := Some session')\<rparr>)))"

section \<open>Letting go\<close>

definition retire_invitation :: "js_text \<Rightarrow> invitation_state option \<Rightarrow> ceremony_end option \<Rightarrow> 'k burrow \<Rightarrow> 'k burrow" where
  "retire_invitation invite state outcome s =
     (case map_of (bw_invitations s) invite of
        None \<Rightarrow> s
      | Some held \<Rightarrow>
          emit (InvitationChanged invite
                  (if hi_reserved held then Consumed else case state of None \<Rightarrow> Dropped | Some st \<Rightarrow> st) outcome)
            (s\<lparr>bw_invitations := AList.delete invite (bw_invitations s)\<rparr>))"

definition dispose_pairing :: "js_text \<Rightarrow> ceremony_end option \<Rightarrow> 'k burrow \<Rightarrow> 'k burrow" where
  "dispose_pairing client outcome s =
     (case pairing_at client s of
        None \<Rightarrow> s
      | Some p \<Rightarrow>
          prune_client client
            (emit (ApprovalDismissed client)
              (retire_invitation (pn_invite p) (Some Consumed) outcome
                (set_client client (\<lambda>st. st\<lparr>cl_pairing := None\<rparr>) s))))"

definition send_pairing_outcome ::
    "('k, 'p) burrow_env \<Rightarrow> js_text \<Rightarrow> pending_pairing \<Rightarrow> pairing_outcome \<Rightarrow> 'k burrow \<Rightarrow> 'k burrow" where
  "send_pairing_outcome env client p outcome =
     send_control_frame env client True (pn_invite p) (pn_ref p) (pairing_outcome_value outcome)"

definition finish_pairing :: "('k, 'p) burrow_env \<Rightarrow> js_text \<Rightarrow> pairing_denial \<Rightarrow> 'k burrow \<Rightarrow> 'k burrow" where
  "finish_pairing env client code s =
     (case pairing_at client s of
        None \<Rightarrow> s
      | Some p \<Rightarrow>
          if pn_committing p then dispose_pairing client None s
          else dispose_pairing client (Some (pairing_outcome_for_denial code))
                 (send_pairing_outcome env client p (Inl code) s))"

definition dispose_connection :: "int \<Rightarrow> js_text \<Rightarrow> 'k burrow \<Rightarrow> 'k burrow" where
  "dispose_connection now client s =
     (case connection_at client s of
        None \<Rightarrow> s
      | Some p \<Rightarrow>
          prune_client client
            (set_client client (\<lambda>st. st\<lparr>cl_connection := None\<rparr>)
              (s\<lparr>bw_challenges := fst (consume_challenge now (cn_challenge p) (bw_challenges s))\<rparr>)))"

definition deny_connection ::
    "('k, 'p) burrow_env \<Rightarrow> int \<Rightarrow> js_text \<Rightarrow> pending_connection \<Rightarrow> connection_denial \<Rightarrow> 'k burrow \<Rightarrow> 'k burrow" where
  "deny_connection env now client p code s =
     dispose_connection now client
       (send_control_frame env client False (cn_id p) (cn_ref p) (connection_outcome_value (Inl code)) s)"

definition dispose_established :: "js_text \<Rightarrow> 'k burrow \<Rightarrow> 'k burrow" where
  "dispose_established client s =
     (case established_at client s of
        None \<Rightarrow> s
      | Some e \<Rightarrow>
          prune_client client
            (set_client client (\<lambda>st. st\<lparr>cl_established := None\<rparr>) (emit (ApiDisposed (es_ref e)) s)))"

definition dispose_client :: "int \<Rightarrow> js_text \<Rightarrow> 'k burrow \<Rightarrow> 'k burrow" where
  "dispose_client now client s =
     (if map_of (bw_clients s) client = None then s
      else (let s1 = dispose_established client (dispose_connection now client (dispose_pairing client None s))
            in s1\<lparr>bw_clients := AList.delete client (bw_clients s1)\<rparr>))"

section \<open>The reaper\<close>

datatype deadline =
    PairingDue js_text
  | ConnectionDue js_text pending_connection
  | EstablishedDue js_text
  | InvitationDue js_text

definition client_deadlines :: "js_text \<Rightarrow> client_state \<Rightarrow> (int \<times> deadline) list" where
  "client_deadlines client st =
     (case cl_pairing st of None \<Rightarrow> [] | Some p \<Rightarrow> [(pn_expires p, PairingDue client)]) @
     (case cl_connection st of None \<Rightarrow> [] | Some p \<Rightarrow> [(cn_expires p, ConnectionDue client p)]) @
     (case cl_established st of
        None \<Rightarrow> [] | Some e \<Rightarrow> [(es_activity e + established_e2e_idle_timeout_ms, EstablishedDue client)])"

definition deadlines :: "'k burrow \<Rightarrow> (int \<times> deadline) list" where
  "deadlines s =
     concat (map (\<lambda>(client, st). client_deadlines client st) (bw_clients s)) @
     map (\<lambda>(invite, held). (hi_expires held, InvitationDue invite)) (bw_invitations s)"

fun expire :: "('k, 'p) burrow_env \<Rightarrow> int \<Rightarrow> deadline \<Rightarrow> 'k burrow \<Rightarrow> 'k burrow" where
  "expire env now (PairingDue client) s = finish_pairing env client InvitationExpired s"
| "expire env now (ConnectionDue client p) s =
     (if connection_is client (cn_ref p) s
      then deny_connection env now client p ConnectionPresenceRejected s else s)"
| "expire env now (EstablishedDue client) s = dispose_established client s"
| "expire env now (InvitationDue invite) s = retire_invitation invite (Some Expired) None s"

definition soonest :: "int list \<Rightarrow> int option" where
  "soonest ts = (if ts = [] then None else Some (Min (set ts)))"

definition arm_reaper :: "'k burrow \<Rightarrow> 'k burrow" where
  "arm_reaper s =
     (case soonest (map fst (deadlines s)) of
        None \<Rightarrow> s\<lparr>bw_reaper := None\<rparr>
      | Some deadline \<Rightarrow>
          (case bw_reaper s of
             None \<Rightarrow> s\<lparr>bw_reaper := Some deadline\<rparr>
           | Some armed \<Rightarrow> if armed \<le> deadline then s else s\<lparr>bw_reaper := Some deadline\<rparr>))"

definition reap :: "('k, 'p) burrow_env \<Rightarrow> int \<Rightarrow> 'k burrow \<Rightarrow> 'k burrow" where
  "reap env now s =
     arm_reaper (fold (\<lambda>(due, d) t. if due \<le> now then expire env now d t else t) (deadlines s) s)"

definition reaper_fires :: "('k, 'p) burrow_env \<Rightarrow> int \<Rightarrow> 'k burrow \<Rightarrow> 'k burrow" where
  "reaper_fires env now s =
     (if bw_reaper s = None then s else reap env now (s\<lparr>bw_reaper := None\<rparr>))"

section \<open>What the runtime answers\<close>

definition tracked_client_count :: "'k burrow \<Rightarrow> nat" where
  "tracked_client_count s = length (bw_clients s)"

definition established_session_count :: "'k burrow \<Rightarrow> nat" where
  "established_session_count s = length (filter (\<lambda>(client, st). cl_established st \<noteq> None) (bw_clients s))"

definition outstanding_invitation_count :: "'k burrow \<Rightarrow> nat" where
  "outstanding_invitation_count s = length (bw_invitations s)"

definition pending_challenge_count :: "'k burrow \<Rightarrow> nat" where
  "pending_challenge_count s = pending_count (bw_challenges s)"

text \<open>\<open>None\<close> is the \<open>null\<close> of a notification that could not be sealed.\<close>

definition seal_push_for_client ::
    "('k, 'p) burrow_env \<Rightarrow> (bytes \<Rightarrow> bytes \<Rightarrow> bytes \<Rightarrow> bytes) \<Rightarrow> js_text \<Rightarrow> bytes \<Rightarrow> bytes \<Rightarrow> sealed_push option" where
  "seal_push_for_client env hkdf static salt plaintext =
     (case (be_static env, from_base64_url static) of
        (Some keys, Some peer) \<Rightarrow>
          (case seal_push (be_crypto env) hkdf (kp_private keys) peer salt plaintext of
             Inl _ \<Rightarrow> None | Inr p \<Rightarrow> Some p)
      | _ \<Rightarrow> None)"

section \<open>Invitations\<close>

definition mint_begin :: "js_text \<Rightarrow> int \<Rightarrow> 'k burrow \<Rightarrow> 'k burrow" where
  "mint_begin token relay_expires s =
     s\<lparr>bw_mints := bw_mints s @ [\<lparr>mc_epoch = bw_epoch s, mc_token = token, mc_expires = relay_expires\<rparr>]\<rparr>"

text \<open>The eviction loop of a mint: entries leave in insertion order until there is room for one.\<close>

fun evict_invitations :: "(js_text \<times> 'k held_invitation) list \<Rightarrow> 'k burrow \<Rightarrow> 'k burrow" where
  "evict_invitations [] s = s"
| "evict_invitations ((invite, held) # rest) s =
     (if max_tokens_per_burrow \<le> length (bw_invitations s)
      then evict_invitations rest (retire_invitation invite None None s) else s)"

definition invitation_of :: "('k, 'p) burrow_env \<Rightarrow> js_text \<Rightarrow> mint_call \<Rightarrow> int \<Rightarrow> 'k noise_key_pair \<Rightarrow> pairing_invitation" where
  "invitation_of env invite call expires keys =
     \<lparr>pi_burrow = be_burrow env, pi_invite = invite, pi_expiry = expires div 1000, pi_setup_token = mc_token call,
      pi_eph_pub = kp_public keys, pi_eph_text = to_base64_url (kp_public keys)\<rparr>"

text \<open>The rest of \<open>mintInvitation\<close> once the key pair is generated, with the answer of the call.\<close>

definition finish_mint ::
    "('k, 'p) burrow_env \<Rightarrow> int \<Rightarrow> 'k noise_key_pair \<Rightarrow> bytes \<Rightarrow> mint_call \<Rightarrow> 'k burrow \<Rightarrow> 'k burrow \<times> (string + pairing_invitation)" where
  "finish_mint env now keys random call s =
     (if bw_epoch s \<noteq> mc_epoch call then (s, Inl ''could not mint a setup code'')
      else let s1 = reap env now s;
               s2 = evict_invitations (bw_invitations s1) s1;
               expires = min (now + default_pairing_ttl_ms) (mc_expires call);
               invite = to_base64_url random;
               invitation = invitation_of env invite call expires keys
           in case format_invitation_expiry (pi_expiry invitation) of
                Inl e \<Rightarrow> (s2, Inl e)
              | Inr _ \<Rightarrow>
                  (arm_reaper (s2\<lparr>bw_next := bw_next s2 + 1,
                     bw_invitations := AList.update invite
                       \<lparr>hi_ref = bw_next s2, hi_invitation = invitation, hi_key = keys, hi_expires = expires, hi_reserved = False\<rparr>
                       (bw_invitations s2)\<rparr>),
                   Inr invitation))"

definition mint_end :: "('k, 'p) burrow_env \<Rightarrow> int \<Rightarrow> nat \<Rightarrow> 'k noise_key_pair \<Rightarrow> bytes \<Rightarrow> 'k burrow \<Rightarrow> 'k burrow" where
  "mint_end env now i keys random s =
     (if i < length (bw_mints s)
      then fst (finish_mint env now keys random (bw_mints s ! i)
             (s\<lparr>bw_mints := take i (bw_mints s) @ drop (Suc i) (bw_mints s)\<rparr>))
      else s)"

definition invitation_state :: "int \<Rightarrow> js_text \<Rightarrow> 'k burrow \<Rightarrow> invitation_state" where
  "invitation_state now invite s =
     (case map_of (bw_invitations s) invite of
        None \<Rightarrow> Consumed
      | Some held \<Rightarrow> if hi_expires held \<le> now then Expired else if hi_reserved held then Reserved else Live)"

section \<open>The socket's life cycle\<close>

definition drop_transient_state :: "int \<Rightarrow> 'k burrow \<Rightarrow> 'k burrow" where
  "drop_transient_state now s =
     (let s1 = s\<lparr>bw_epoch := bw_epoch s + 1, bw_frames := [], bw_frame_chars := 0\<rparr>;
          s2 = fold (dispose_client now) (map fst (bw_clients s1)) s1
      in arm_reaper (fold (\<lambda>invite. retire_invitation invite None None) (map fst (bw_invitations s2)) s2))"

text \<open>A socket is the number of its making.\<close>

definition connect :: "('k, 'p) burrow_env \<Rightarrow> 'k burrow \<Rightarrow> 'k burrow" where
  "connect env s =
     (if bw_socket s \<noteq> None \<or> bw_stopped s \<or> bw_displaced s then s
      else emit (SocketMade (bw_next s) (be_socket_url env))
             (s\<lparr>bw_status := Connecting, bw_socket := Some (bw_next s), bw_next := bw_next s + 1\<rparr>))"

definition burrow_start :: "('k, 'p) burrow_env \<Rightarrow> 'k burrow \<Rightarrow> 'k burrow" where
  "burrow_start env s =
     connect env (s\<lparr>bw_stopped := False, bw_displaced := False, bw_reconnect := None, bw_backoff := initial_backoff_ms\<rparr>)"

definition shut_socket :: "nat option \<Rightarrow> 'k burrow \<Rightarrow> 'k burrow" where
  "shut_socket ws s = (case ws of None \<Rightarrow> s | Some n \<Rightarrow> emit (SocketShut n) s)"

definition burrow_stop :: "int \<Rightarrow> 'k burrow \<Rightarrow> 'k burrow" where
  "burrow_stop now s =
     (let s1 = drop_transient_state now (s\<lparr>bw_stopped := True, bw_status := Stopped, bw_reconnect := None\<rparr>)
      in (shut_socket (bw_socket s1) (s1\<lparr>bw_reaper := None\<rparr>))\<lparr>bw_socket := None\<rparr>)"

definition on_close :: "('k, 'p) burrow_env \<Rightarrow> int \<Rightarrow> int option \<Rightarrow> 'k burrow \<Rightarrow> 'k burrow" where
  "on_close env now code s =
     (let s1 = drop_transient_state now s
      in if bw_stopped s1 then s1\<lparr>bw_status := Stopped\<rparr>
         else if code = Some ws_close_burrow_replaced then s1\<lparr>bw_displaced := True, bw_status := Displaced\<rparr>
         else if \<not> be_reconnect env then s1\<lparr>bw_status := Stopped\<rparr>
         else s1\<lparr>bw_status := Disconnected, bw_reconnect := Some (bw_backoff s1),
                bw_backoff := min (bw_backoff s1 * 2) max_backoff_ms\<rparr>)"

definition socket_opened :: "('k, 'p) burrow_env \<Rightarrow> int \<Rightarrow> nat \<Rightarrow> 'k burrow \<Rightarrow> 'k burrow" where
  "socket_opened env now ws s =
     (if bw_socket s \<noteq> Some ws then s
      else reap env now (s\<lparr>bw_status := Connected, bw_backoff := initial_backoff_ms\<rparr>))"

definition socket_closed :: "('k, 'p) burrow_env \<Rightarrow> int \<Rightarrow> nat \<Rightarrow> int option \<Rightarrow> 'k burrow \<Rightarrow> 'k burrow" where
  "socket_closed env now ws code s =
     (if bw_socket s \<noteq> Some ws then s else on_close env now code (s\<lparr>bw_socket := None\<rparr>))"

definition reconnect_fires :: "('k, 'p) burrow_env \<Rightarrow> 'k burrow \<Rightarrow> 'k burrow" where
  "reconnect_fires env s = (if bw_reconnect s = None then s else connect env (s\<lparr>bw_reconnect := None\<rparr>))"

section \<open>The queue of frames\<close>

definition enqueue :: "('k, 'p) burrow_env \<Rightarrow> int \<Rightarrow> json \<Rightarrow> nat \<Rightarrow> 'k burrow \<Rightarrow> 'k burrow" where
  "enqueue env now frame chars s =
     (if max_queued_relay_frames \<le> length (bw_frames s) \<or> max_queued_relay_frame_chars < bw_frame_chars s + chars
      then shut_socket (bw_socket s) (on_close env now None (s\<lparr>bw_socket := None\<rparr>))
      else let s1 = s\<lparr>bw_frames := bw_frames s @ [(frame, chars)], bw_frame_chars := bw_frame_chars s + chars\<rparr>
           in (case bw_drain s1 of Idle \<Rightarrow> s1\<lparr>bw_drain := Ready\<rparr> | _ \<Rightarrow> s1))"

definition is_gone_frame :: "json \<Rightarrow> bool" where
  "is_gone_frame frame \<longleftrightarrow> is_literal (js ''client-gone'') (jprop (js ''t'') frame)"

definition on_frame :: "('k, 'p) burrow_env \<Rightarrow> int \<Rightarrow> js_text \<Rightarrow> 'k burrow \<Rightarrow> 'k burrow" where
  "on_frame env now raw s =
     (if max_relay_to_burrow_frame_length < length raw then s
      else case jc_parse (be_json env) raw of
        None \<Rightarrow> s
      | Some frame \<Rightarrow>
          if \<not> string_such (\<lambda>_. True) (jprop (js ''t'') frame) then s
          else if is_gone_frame frame
          then (if \<not> is_client_id (jprop (js ''clientId'') frame) then s else enqueue env now frame (length raw) s)
          else if \<not> is_literal (js ''e2e'') (jprop (js ''t'') frame) then s
          else if \<not> is_e2e_relay_to_burrow_frame frame then s
          else enqueue env now frame (length raw) s)"

definition socket_message :: "('k, 'p) burrow_env \<Rightarrow> int \<Rightarrow> nat \<Rightarrow> js_text \<Rightarrow> 'k burrow \<Rightarrow> 'k burrow" where
  "socket_message env now ws raw s = (if bw_socket s \<noteq> Some ws then s else on_frame env now raw s)"

definition frame_client :: "json \<Rightarrow> js_text" where "frame_client = text_prop (js ''clientId'')"
definition frame_id :: "json \<Rightarrow> js_text" where "frame_id = text_prop (js ''id'')"
definition frame_bytes :: "json \<Rightarrow> bytes option" where "frame_bytes frame = from_base64_url (text_prop (js ''ct'') frame)"
definition is_pairing_frame :: "json \<Rightarrow> bool" where
  "is_pairing_frame frame \<longleftrightarrow> is_literal (js ''pairing'') (jprop (js ''kind'') frame)"
definition is_init_frame :: "json \<Rightarrow> bool" where
  "is_init_frame frame \<longleftrightarrow> is_literal (js ''init'') (jprop (js ''step'') frame)"

definition spend_init_token :: "int \<Rightarrow> 'k burrow \<Rightarrow> 'k burrow \<times> bool" where
  "spend_init_token now s =
     (case bucket_take now (bw_tokens s) of (b, wait) \<Rightarrow> (s\<lparr>bw_tokens := b\<rparr>, wait = None))"

text \<open>
  \<open>#evictOldestIfFull\<close>: one walk that counts the pending work and finds the oldest, and the loop around it,
  \<open>None\<close> if it never ends.
\<close>

fun oldest_of :: "(client_state \<Rightarrow> int option) \<Rightarrow> (js_text \<times> client_state) list \<Rightarrow> nat \<Rightarrow> (js_text \<times> int) option \<Rightarrow>
    nat \<times> (js_text \<times> int) option" where
  "oldest_of age [] n best = (n, best)"
| "oldest_of age ((client, st) # rest) n best =
     (case age st of
        None \<Rightarrow> oldest_of age rest n best
      | Some t \<Rightarrow>
          oldest_of age rest (n + 1)
            (case best of None \<Rightarrow> Some (client, t) | Some (c, u) \<Rightarrow> if t < u then Some (client, t) else best))"

partial_function (option) evict_oldest_if_full ::
    "(client_state \<Rightarrow> int option) \<Rightarrow> nat \<Rightarrow> (js_text \<Rightarrow> 'k burrow \<Rightarrow> 'k burrow) \<Rightarrow> 'k burrow \<Rightarrow> 'k burrow option" where
  "evict_oldest_if_full age cap evict s =
     (case oldest_of age (bw_clients s) 0 None of
        (n, None) \<Rightarrow> Some s
      | (n, Some (client, _)) \<Rightarrow> if n < cap then Some s else evict_oldest_if_full age cap evict (evict client s))"

definition evict_oldest_pairing_if_full :: "('k, 'p) burrow_env \<Rightarrow> 'k burrow \<Rightarrow> 'k burrow option" where
  "evict_oldest_pairing_if_full env =
     evict_oldest_if_full (\<lambda>st. map_option pn_requested (cl_pairing st)) max_pending_pairings
       (\<lambda>client. finish_pairing env client Superseded)"

definition evict_oldest_connection_if_full :: "int \<Rightarrow> 'k burrow \<Rightarrow> 'k burrow option" where
  "evict_oldest_connection_if_full now =
     evict_oldest_if_full (\<lambda>st. map_option cn_expires (cl_connection st)) max_pending_connection_handshakes
       (dispose_connection now)"

section \<open>Pairing\<close>

text \<open>
  The handshake both ceremonies answer with: message 1 is read against a responder, and must carry no payload.
  \<open>None\<close> is whatever the source catches.
\<close>

definition read_init ::
    "('k, 'p) burrow_env \<Rightarrow> string + bytes \<Rightarrow> 'k noise_key_pair \<Rightarrow> json \<Rightarrow> 'k handshake option" where
  "read_init env prologue keys frame =
     (case prologue of
        Inl _ \<Rightarrow> None
      | Inr p \<Rightarrow>
          (case create_noise_responder (be_crypto env) p keys None of
             Inl _ \<Rightarrow> None
           | Inr h \<Rightarrow>
               (case frame_bytes frame of
                  None \<Rightarrow> None
                | Some message \<Rightarrow>
                    (case read_message (be_crypto env) message h of
                       (h', Inr []) \<Rightarrow> Some h'
                     | _ \<Rightarrow> None))))"

text \<open>Message 2, and what the finished handshake leaves: the Client's static key and the session.\<close>

definition answer_init ::
    "('k, 'p) burrow_env \<Rightarrow> 'k noise_key_pair \<Rightarrow> bytes \<Rightarrow> 'k handshake \<Rightarrow> (bytes \<times> js_text \<times> transport_session) option" where
  "answer_init env fresh payload h =
     (case write_message (be_crypto env) fresh payload h of
        (h', Inl _) \<Rightarrow> None
      | (h', Inr message2) \<Rightarrow>
          (case (hs_remote_static h', hs_session h') of
             (Some static, Some session) \<Rightarrow>
               Some (message2, to_base64_url static, new_transport_session session)
           | _ \<Rightarrow> None))"

definition on_pairing_init :: "int \<Rightarrow> json \<Rightarrow> 'k burrow \<Rightarrow> 'k burrow" where
  "on_pairing_init now frame s =
     (case map_of (bw_invitations s) (frame_id frame) of
        None \<Rightarrow> s
      | Some held \<Rightarrow>
          if hi_reserved held then s
          else (case spend_init_token now s of
                  (s1, False) \<Rightarrow> s1
                | (s1, True) \<Rightarrow> s1\<lparr>bw_drain := PairingHandshake held frame (bw_epoch s1)\<rparr>))"

text \<open>\<open>held.state = 'reserved'\<close>, on the entry of that identity.\<close>

definition reserve_invitation :: "nat \<Rightarrow> 'k burrow \<Rightarrow> 'k burrow" where
  "reserve_invitation r s =
     s\<lparr>bw_invitations := map (\<lambda>(k, h). (k, if hi_ref h = r then h\<lparr>hi_reserved := True\<rparr> else h)) (bw_invitations s)\<rparr>"

definition pairing_answered ::
    "('k, 'p) burrow_env \<Rightarrow> int \<Rightarrow> 'k noise_key_pair \<Rightarrow> bytes \<Rightarrow> 'k held_invitation \<Rightarrow> json \<Rightarrow> nat \<Rightarrow> 'k burrow \<Rightarrow> 'k burrow option" where
  "pairing_answered env now fresh random held frame epoch s =
     (case Option.bind (read_init env (pairing_invitation_prologue (hi_invitation held)) (hi_key held) frame)
             (answer_init env fresh []) of
        None \<Rightarrow> Some s
      | Some (message2, static, session) \<Rightarrow>
          if bw_epoch s \<noteq> epoch \<or> map_option hi_ref (map_of (bw_invitations s) (frame_id frame)) \<noteq> Some (hi_ref held)
          then Some s
          else map_option
            (\<lambda>s1. let invite = pi_invite (hi_invitation held);
                      s2 = emit (InvitationChanged invite Reserved None) (reserve_invitation (hi_ref held) s1);
                      p = \<lparr>pn_ref = bw_next s2, pn_invite = invite, pn_id = to_base64_url random,
                           pn_hash = to_base64_url (ts_handshake_hash session), pn_static = static,
                           pn_requested = now, pn_expires = hi_expires held, pn_committing = False,
                           pn_approval = None, pn_attempted = False\<rparr>
                  in send_e2e (frame_client frame) True (frame_id frame) (js ''response'') message2
                       (arm_reaper
                         (set_client (frame_client frame) (\<lambda>st. st\<lparr>cl_pairing := Some p\<rparr>)
                           (s2\<lparr>bw_next := bw_next s2 + 1, bw_sessions := (bw_sessions s2)(bw_next s2 := Some session)\<rparr>))))
            (evict_oldest_pairing_if_full env
              (if pairing_at (frame_client frame) s = None then s
               else finish_pairing env (frame_client frame) Superseded s)))"

text \<open>\<open>receive\<close> on the session of a record; \<open>None\<close> where the source catches.\<close>

definition receive_on ::
    "('k, 'p) burrow_env \<Rightarrow> nat \<Rightarrow> json \<Rightarrow> 'k burrow \<Rightarrow> 'k burrow \<times> json transport_receipt option" where
  "receive_on env r frame s =
     (case (frame_bytes frame, bw_sessions s r) of
        (Some ct, Some session) \<Rightarrow>
          (case receive (be_crypto env) (be_json env) ct session of
             (session', Inl _) \<Rightarrow> (s\<lparr>bw_sessions := (bw_sessions s)(r := Some session')\<rparr>, None)
           | (session', Inr receipt) \<Rightarrow> (s\<lparr>bw_sessions := (bw_sessions s)(r := Some session')\<rparr>, Some receipt))
      | _ \<Rightarrow> (s, None))"

definition on_pairing_transport :: "('k, 'p) burrow_env \<Rightarrow> int \<Rightarrow> json \<Rightarrow> 'k burrow \<Rightarrow> 'k burrow" where
  "on_pairing_transport env now frame s =
     (let client = frame_client frame in
      case pairing_at client s of
        None \<Rightarrow> s
      | Some p \<Rightarrow>
          if pn_invite p \<noteq> frame_id frame then s
          else if pn_expires p \<le> now then finish_pairing env client InvitationExpired s
          else (case receive_on env (pn_ref p) frame s of
                  (s1, None) \<Rightarrow> dispose_pairing client (Some BurrowFailed) s1
                | (s1, Some receipt) \<Rightarrow>
                    if receipt = GotKeepalive \<or> pn_approval p \<noteq> None then s1
                    else (case receipt of
                            GotControl v \<Rightarrow>
                              if is_pairing_request_v1 v then s1\<lparr>bw_drain := PairingProof client p v\<rparr>
                              else finish_pairing env client PairingBurrowError s1
                          | _ \<Rightarrow> finish_pairing env client PairingBurrowError s1)))"

definition request_proof :: "json \<Rightarrow> presence_proof" where
  "request_proof v = proof_of (value_prop (js ''presence'') v)"

definition pairing_binding_of :: "('k, 'p) burrow_env \<Rightarrow> pending_pairing \<Rightarrow> json \<Rightarrow> presence_binding" where
  "pairing_binding_of env p v =
     PairingBinding (be_burrow env) (pn_hash p) (pb_credential (pp_binding (request_proof v)))"

definition pairing_proved :: "('k, 'p) burrow_env \<Rightarrow> js_text \<Rightarrow> pending_pairing \<Rightarrow> json \<Rightarrow> 'k burrow \<Rightarrow> 'k burrow" where
  "pairing_proved env client p v s =
     (if \<not> pairing_is client (pn_ref p) s then s
      else case verify_presence_proof (be_presence env) (request_proof v) (pairing_binding_of env p v) (be_policy env) of
        Inl _ \<Rightarrow> finish_pairing env client PresenceRejected s
      | Inr key_hash \<Rightarrow>
          let approval = \<lparr>pg_code = text_prop (js ''code'') v, pg_account = pp_account (request_proof v),
                 pg_credential = pb_credential (pp_binding (request_proof v)), pg_key_hash = key_hash,
                 pg_label = bounded_pairing_label (text_prop (js ''label'') v)\<rparr>
          in emit (ApprovalRequested client (pn_id p) (pg_label approval) (pn_requested p))
               (set_client client
                 (\<lambda>st. st\<lparr>cl_pairing := map_option (\<lambda>q. q\<lparr>pn_approval := Some approval\<rparr>) (cl_pairing st)\<rparr>) s))"

section \<open>The local decision\<close>

definition set_pairing :: "js_text \<Rightarrow> (pending_pairing \<Rightarrow> pending_pairing) \<Rightarrow> 'k burrow \<Rightarrow> 'k burrow" where
  "set_pairing client f = set_client client (\<lambda>st. st\<lparr>cl_pairing := map_option f (cl_pairing st)\<rparr>)"

definition approve_pairing :: "('k, 'p) burrow_env \<Rightarrow> int \<Rightarrow> js_text \<Rightarrow> js_text \<Rightarrow> js_text \<Rightarrow> 'k burrow \<Rightarrow> 'k burrow" where
  "approve_pairing env now client pairing_id code s =
     (case pairing_at client s of
        None \<Rightarrow> s
      | Some p \<Rightarrow>
          (case pn_approval p of
             None \<Rightarrow> s
           | Some approval \<Rightarrow>
               if pn_id p \<noteq> pairing_id \<or> pn_attempted p then s
               else let s1 = set_pairing client (\<lambda>q. q\<lparr>pn_attempted := True\<rparr>) s
                    in if pn_expires p \<le> now then finish_pairing env client InvitationExpired s1
                       else if be_static_public env = None then finish_pairing env client PairingBurrowError s1
                       else if \<not> constant_time_equal (utf8_encode code) (utf8_encode (pg_code approval))
                       then finish_pairing env client ConfirmationMismatch s1
                       else s1\<lparr>bw_jobs := bw_jobs s1 @ [\<lparr>sj_client = client, sj_pairing = p, sj_approval = approval\<rparr>]\<rparr>))"

definition deny_pairing :: "('k, 'p) burrow_env \<Rightarrow> int \<Rightarrow> js_text \<Rightarrow> js_text \<Rightarrow> 'k burrow \<Rightarrow> 'k burrow" where
  "deny_pairing env now client pairing_id s =
     (case pairing_at client s of
        None \<Rightarrow> s
      | Some p \<Rightarrow>
          if pn_id p \<noteq> pairing_id \<or> pn_attempted p then s
          else reap env now (finish_pairing env client UserDenied s))"

definition approved_client_of :: "save_job \<Rightarrow> bytes \<Rightarrow> approved_client" where
  "approved_client_of job random =
     \<lparr>ac_account = pg_account (sj_approval job), ac_credential = pg_credential (sj_approval job),
      ac_key_hash = pg_key_hash (sj_approval job), ac_static = pn_static (sj_pairing job),
      ac_delivery = to_base64_url random, ac_approved_by = js ''burrow-user'', ac_label = pg_label (sj_approval job)\<rparr>"

definition save_failed :: "('k, 'p) burrow_env \<Rightarrow> int \<Rightarrow> save_job \<Rightarrow> 'k burrow \<Rightarrow> 'k burrow" where
  "save_failed env now job s =
     (if \<not> pairing_is (sj_client job) (pn_ref (sj_pairing job)) s then s
      else reap env now (finish_pairing env (sj_client job) PairingBurrowError
             (set_pairing (sj_client job) (\<lambda>q. q\<lparr>pn_committing := False\<rparr>) s)))"

text \<open>The work of one approval up to the await of \<open>saveAcl\<close>; the serial queue starts the next when none runs.\<close>

definition save_begin :: "('k, 'p) burrow_env \<Rightarrow> int \<Rightarrow> bytes \<Rightarrow> 'k burrow \<Rightarrow> 'k burrow" where
  "save_begin env now random s =
     (case (bw_commit s, bw_jobs s) of
        (None, job # rest) \<Rightarrow>
          let s1 = s\<lparr>bw_jobs := rest\<rparr>
          in if \<not> pairing_is (sj_client job) (pn_ref (sj_pairing job)) s1 then s1
             else if pn_expires (sj_pairing job) \<le> now then finish_pairing env (sj_client job) InvitationExpired s1
             else (case acl_from_records (acl_burrow (bw_acl s1)) (acl_records (bw_acl s1)) of
                     Inl _ \<Rightarrow> save_failed env now job s1
                   | Inr copy \<Rightarrow>
                       (case acl_approve now (approved_client_of job random) copy of
                          (fresh, record) \<Rightarrow>
                            emit (AclSaved (acl_records fresh))
                              ((set_pairing (sj_client job) (\<lambda>q. q\<lparr>pn_committing := True\<rparr>) s1)
                                \<lparr>bw_commit := Some \<lparr>cm_job = job, cm_acl = fresh, cm_record = record\<rparr>\<rparr>)))
      | _ \<Rightarrow> s)"

definition paired_outcome_of :: "('k, 'p) burrow_env \<Rightarrow> acl_record \<Rightarrow> paired_outcome" where
  "paired_outcome_of env r =
     \<lparr>po_static = (case be_static_public env of None \<Rightarrow> [] | Some k \<Rightarrow> k), po_label = bounded_burrow_label (be_label env),
      po_account = ac_account (ar_client r), po_credential = ac_credential (ar_client r),
      po_key_hash = ac_key_hash (ar_client r), po_delivery = ac_delivery (ar_client r)\<rparr>"

definition save_end :: "('k, 'p) burrow_env \<Rightarrow> int \<Rightarrow> bool \<Rightarrow> 'k burrow \<Rightarrow> 'k burrow" where
  "save_end env now saved s =
     (case bw_commit s of
        None \<Rightarrow> s
      | Some cm \<Rightarrow>
          let job = cm_job cm; client = sj_client job; s1 = s\<lparr>bw_commit := None\<rparr>
          in if \<not> saved then save_failed env now job s1
             else let s2 = s1\<lparr>bw_acl := cm_acl cm\<rparr>
                  in if \<not> pairing_is client (pn_ref (sj_pairing job)) s2 then s2
                     else reap env now
                       (dispose_pairing client (Some Paired)
                         (send_pairing_outcome env client (sj_pairing job) (Inr (paired_outcome_of env (cm_record cm))) s2)))"

section \<open>Connections\<close>

definition on_connection_init :: "int \<Rightarrow> json \<Rightarrow> 'k burrow \<Rightarrow> 'k burrow" where
  "on_connection_init now frame s =
     (case spend_init_token now s of
        (s1, False) \<Rightarrow> s1
      | (s1, True) \<Rightarrow> s1\<lparr>bw_drain := ConnectionStatic frame (bw_epoch s1)\<rparr>)"

text \<open>Once message 1 is read, a challenge is issued and message 2 is on its way; only then is the epoch compared.\<close>

definition connection_read ::
    "('k, 'p) burrow_env \<Rightarrow> int \<Rightarrow> bytes \<Rightarrow> json \<Rightarrow> nat \<Rightarrow> 'k burrow \<Rightarrow> 'k burrow" where
  "connection_read env now random frame epoch s =
     (case be_static env of
        None \<Rightarrow> s
      | Some keys \<Rightarrow>
          (case read_init env (Inr (e2e_connection_prologue (be_burrow env) (frame_id frame))) keys frame of
             None \<Rightarrow> s
           | Some h \<Rightarrow>
               (case issue_challenge now now random (bw_challenges s) of
                  (ci, issued) \<Rightarrow>
                    s\<lparr>bw_challenges := ci, bw_drain := ConnectionAnswer frame epoch h issued\<rparr>)))"

definition connection_answered ::
    "('k, 'p) burrow_env \<Rightarrow> int \<Rightarrow> 'k noise_key_pair \<Rightarrow> json \<Rightarrow> nat \<Rightarrow> 'k handshake \<Rightarrow> issued_challenge \<Rightarrow>
      'k burrow \<Rightarrow> 'k burrow option" where
  "connection_answered env now fresh frame epoch h issued s =
     (case Option.bind (from_base64_url (ic_challenge issued)) (\<lambda>payload. answer_init env fresh payload h) of
        None \<Rightarrow> Some s
      | Some (message2, static, session) \<Rightarrow>
          if bw_epoch s \<noteq> epoch then Some s
          else map_option
            (\<lambda>s1. let p = \<lparr>cn_ref = bw_next s1, cn_id = frame_id frame,
                           cn_hash = to_base64_url (ts_handshake_hash session), cn_static = static,
                           cn_challenge = ic_challenge issued, cn_expires = ic_expires_at issued\<rparr>
                  in send_e2e (frame_client frame) False (frame_id frame) (js ''response'') message2
                       (arm_reaper
                         (set_client (frame_client frame) (\<lambda>st. st\<lparr>cl_connection := Some p\<rparr>)
                           (s1\<lparr>bw_next := bw_next s1 + 1, bw_sessions := (bw_sessions s1)(bw_next s1 := Some session)\<rparr>))))
            (evict_oldest_connection_if_full now (dispose_connection now (frame_client frame) s)))"

text \<open>\<open>#aclMiss\<close>: whether one record holds all four identities.\<close>

datatype acl_refusal = NoRecord "acl_miss list" | AccountMismatch | PasskeyKeyMismatch

definition acl_miss_of :: "js_text \<Rightarrow> js_text \<Rightarrow> js_text \<Rightarrow> js_text \<Rightarrow> 'k burrow \<Rightarrow> acl_refusal option" where
  "acl_miss_of credential static account key_hash s =
     (case acl_authorize credential static (bw_acl s) of
        Inl misses \<Rightarrow> Some (NoRecord misses)
      | Inr r \<Rightarrow>
          if ac_account (ar_client r) \<noteq> account then Some AccountMismatch
          else if ac_key_hash (ar_client r) \<noteq> key_hash then Some PasskeyKeyMismatch
          else None)"

fun established_walk :: "js_text \<Rightarrow> js_text \<Rightarrow> (js_text \<times> client_state) list \<Rightarrow> js_text option \<Rightarrow> nat \<Rightarrow> js_text option \<times> nat" where
  "established_walk static except [] incumbent others = (incumbent, others)"
| "established_walk static except ((client, st) # rest) incumbent others =
     (case cl_established st of
        None \<Rightarrow> established_walk static except rest incumbent others
      | Some e \<Rightarrow>
          established_walk static except rest (if es_static e = static then Some client else incumbent)
            (if client \<noteq> except then others + 1 else others))"

definition established_for :: "js_text \<Rightarrow> js_text \<Rightarrow> 'k burrow \<Rightarrow> js_text option \<times> nat" where
  "established_for static except s = established_walk static except (bw_clients s) None 0"

text \<open>The steps of a promotion after its guard, in their order.\<close>

definition displace_incumbent :: "js_text \<Rightarrow> js_text option \<Rightarrow> 'k burrow \<Rightarrow> 'k burrow" where
  "displace_incumbent client incumbent s =
     (case incumbent of None \<Rightarrow> s | Some i \<Rightarrow> if i \<noteq> client then dispose_established i s else s)"

definition clear_established :: "js_text \<Rightarrow> 'k burrow \<Rightarrow> 'k burrow" where
  "clear_established client s =
     (case established_at client s of
        None \<Rightarrow> s
      | Some e \<Rightarrow> set_client client (\<lambda>st. st\<lparr>cl_established := None\<rparr>) (emit (ApiDisposed (es_ref e)) s))"

definition promote_connection :: "('k, 'p) burrow_env \<Rightarrow> int \<Rightarrow> js_text \<Rightarrow> pending_connection \<Rightarrow> 'k burrow \<Rightarrow> 'k burrow" where
  "promote_connection env now client p s =
     (case established_for (cn_static p) client s of
        (incumbent, others) \<Rightarrow>
          if incumbent = None \<and> max_established_e2e_sessions \<le> others then deny_connection env now client p BurrowBusy s
          else let s1 = set_client client (\<lambda>st. st\<lparr>cl_connection := None\<rparr>) s;
                   s2 = clear_established client (displace_incumbent client incumbent s1);
                   s3 = send_control_frame env client False (cn_id p) (cn_ref p)
                          (connection_outcome_value (Inr (bounded_burrow_label (be_label env)))) s2
               in if \<not> be_has_api env then prune_client client s3
                  else arm_reaper
                    (set_client client
                      (\<lambda>st. st\<lparr>cl_established := Some \<lparr>es_ref = cn_ref p, es_id = cn_id p, es_static = cn_static p, es_activity = now\<rparr>\<rparr>)
                      (emit (ApiStarted (cn_ref p)) (s3\<lparr>bw_apis := (cn_ref p, client, cn_id p) # bw_apis s3\<rparr>))))"

definition connection_binding_of :: "('k, 'p) burrow_env \<Rightarrow> pending_connection \<Rightarrow> json \<Rightarrow> presence_binding" where
  "connection_binding_of env p v =
     ConnectionBinding (be_burrow env) (cn_id p) (cn_challenge p) (cn_hash p)
       (pb_credential (pp_binding (request_proof v)))"

definition connection_proved ::
    "('k, 'p) burrow_env \<Rightarrow> int \<Rightarrow> js_text \<Rightarrow> pending_connection \<Rightarrow> bool \<Rightarrow> json \<Rightarrow> 'k burrow \<Rightarrow> 'k burrow" where
  "connection_proved env now client p challenge_valid v s =
     (if \<not> connection_is client (cn_ref p) s then s
      else case (challenge_valid,
                 verify_presence_proof (be_presence env) (request_proof v) (connection_binding_of env p v) (be_policy env)) of
        (True, Inr key_hash) \<Rightarrow>
          if acl_miss_of (pb_credential (pp_binding (request_proof v))) (cn_static p) (pp_account (request_proof v)) key_hash s \<noteq> None
          then deny_connection env now client p PairingRequired s
          else promote_connection env now client p s
      | _ \<Rightarrow> deny_connection env now client p ConnectionPresenceRejected s)"

section \<open>Authorized sessions\<close>

definition send_app_frames :: "js_text \<Rightarrow> js_text \<Rightarrow> bytes list \<Rightarrow> 'k burrow \<Rightarrow> 'k burrow" where
  "send_app_frames client i = fold (send_e2e client False i (js ''transport''))"

definition send_app_message :: "('k, 'p) burrow_env \<Rightarrow> js_text \<Rightarrow> js_text \<Rightarrow> nat \<Rightarrow> json \<Rightarrow> 'k burrow \<Rightarrow> 'k burrow" where
  "send_app_message env client i r payload s =
     (case bw_sessions s r of
        None \<Rightarrow> s
      | Some session \<Rightarrow>
          (case send_app (be_crypto env) (be_json env) (utf8_encode (jc_stringify (be_json env) payload)) session of
             (session', result) \<Rightarrow>
               let s1 = s\<lparr>bw_sessions := (bw_sessions s)(r := Some session')\<rparr>
               in (case result of
                     Inr cts \<Rightarrow> send_app_frames client i cts s1
                   | Inl _ \<Rightarrow> if ts_poison session' = None then s1 else dispose_established client s1)))"

text \<open>What the handler of a session sends: through the closure it was given, whatever has become of the session.\<close>

definition api_sends :: "('k, 'p) burrow_env \<Rightarrow> nat \<Rightarrow> json \<Rightarrow> 'k burrow \<Rightarrow> 'k burrow" where
  "api_sends env r payload s =
     (case map_of (bw_apis s) r of None \<Rightarrow> s | Some (client, i) \<Rightarrow> send_app_message env client i r payload s)"

definition parse_message :: "('k, 'p) burrow_env \<Rightarrow> bytes \<Rightarrow> json option" where
  "parse_message env message = Option.bind (utf8_decode message) (jc_parse (be_json env))"

fun handle_messages :: "('k, 'p) burrow_env \<Rightarrow> js_text \<Rightarrow> nat \<Rightarrow> bytes list \<Rightarrow> 'k burrow \<Rightarrow> 'k burrow" where
  "handle_messages env client r [] s = s"
| "handle_messages env client r (message # rest) s =
     (case parse_message env message of
        None \<Rightarrow> handle_messages env client r rest s
      | Some payload \<Rightarrow>
          let s1 = emit (ApiHandled r payload) s;
              s2 = fold (api_sends env r) (be_reply env (bw_out s1)) s1
          in if \<not> established_is client r s2 then s2 else handle_messages env client r rest s2)"

definition on_established_frame ::
    "('k, 'p) burrow_env \<Rightarrow> int \<Rightarrow> js_text \<Rightarrow> established_session \<Rightarrow> json \<Rightarrow> 'k burrow \<Rightarrow> 'k burrow" where
  "on_established_frame env now client e frame s =
     (case receive_on env (es_ref e) frame s of
        (s1, None) \<Rightarrow> dispose_established client s1
      | (s1, Some receipt) \<Rightarrow>
          let s2 = set_client client
                (\<lambda>st. st\<lparr>cl_established := map_option (\<lambda>x. x\<lparr>es_activity := now\<rparr>) (cl_established st)\<rparr>) s1
          in (case receipt of GotApp messages \<Rightarrow> handle_messages env client (es_ref e) messages s2 | _ \<Rightarrow> s2))"

definition on_pending_frame ::
    "('k, 'p) burrow_env \<Rightarrow> int \<Rightarrow> js_text \<Rightarrow> pending_connection \<Rightarrow> json \<Rightarrow> 'k burrow \<Rightarrow> 'k burrow" where
  "on_pending_frame env now client p frame s =
     (case receive_on env (cn_ref p) frame s of
        (s1, None) \<Rightarrow> dispose_connection now client s1
      | (s1, Some receipt) \<Rightarrow>
          (case receipt of
             GotKeepalive \<Rightarrow> s1
           | GotControl v \<Rightarrow>
               if is_connection_request_v1 v
               then (case consume_challenge now (cn_challenge p) (bw_challenges s1) of
                       (ci, valid) \<Rightarrow> s1\<lparr>bw_challenges := ci, bw_drain := ConnectionProof client p valid v\<rparr>)
               else deny_connection env now client p ProtocolRejected s1
           | GotApp _ \<Rightarrow> deny_connection env now client p ProtocolRejected s1))"

definition on_connection_transport :: "('k, 'p) burrow_env \<Rightarrow> int \<Rightarrow> json \<Rightarrow> 'k burrow \<Rightarrow> 'k burrow" where
  "on_connection_transport env now frame s =
     (let client = frame_client frame in
      case map_of (bw_clients s) client of
        None \<Rightarrow> s
      | Some st \<Rightarrow>
          (case cl_established st of
             Some e \<Rightarrow>
               if es_id e = frame_id frame then on_established_frame env now client e frame s
               else (case cl_connection st of
                       None \<Rightarrow> s
                     | Some p \<Rightarrow> if cn_id p \<noteq> frame_id frame then s else on_pending_frame env now client p frame s)
           | None \<Rightarrow>
               (case cl_connection st of
                  None \<Rightarrow> s
                | Some p \<Rightarrow> if cn_id p \<noteq> frame_id frame then s else on_pending_frame env now client p frame s)))"

section \<open>Draining the queue\<close>

definition on_client_gone :: "('k, 'p) burrow_env \<Rightarrow> int \<Rightarrow> js_text \<Rightarrow> 'k burrow \<Rightarrow> 'k burrow" where
  "on_client_gone env now client s = reap env now (dispose_client now client s)"

definition on_e2e :: "('k, 'p) burrow_env \<Rightarrow> int \<Rightarrow> json \<Rightarrow> 'k burrow \<Rightarrow> 'k burrow" where
  "on_e2e env now frame s =
     (if is_pairing_frame frame
      then (if is_init_frame frame then on_pairing_init now frame (reap env now s)
            else on_pairing_transport env now frame s)
      else (if is_init_frame frame then on_connection_init now frame (reap env now s)
            else on_connection_transport env now frame s))"

definition next_frame :: "('k, 'p) burrow_env \<Rightarrow> int \<Rightarrow> 'k burrow \<Rightarrow> 'k burrow" where
  "next_frame env now s =
     (case bw_frames s of
        [] \<Rightarrow> s\<lparr>bw_drain := Idle\<rparr>
      | (frame, chars) # rest \<Rightarrow>
          let s1 = s\<lparr>bw_frames := rest, bw_frame_chars := bw_frame_chars s - chars\<rparr>
          in if is_gone_frame frame then on_client_gone env now (frame_client frame) s1
             else on_e2e env now frame s1)"

text \<open>
  One turn of the drain: the frame in hand goes on from where it waited, or the next one is taken. \<open>fresh\<close> and
  \<open>random\<close> are the key pair and the bytes generated, where the turn needs any.
\<close>

definition drain_turn ::
    "('k, 'p) burrow_env \<Rightarrow> int \<Rightarrow> 'k noise_key_pair \<Rightarrow> bytes \<Rightarrow> 'k burrow \<Rightarrow> 'k burrow option" where
  "drain_turn env now fresh random s =
     (let s1 = s\<lparr>bw_drain := Ready\<rparr> in
      case bw_drain s of
        Idle \<Rightarrow> Some s
      | Ready \<Rightarrow> Some (next_frame env now s)
      | PairingHandshake held frame epoch \<Rightarrow> pairing_answered env now fresh random held frame epoch s1
      | PairingProof client p v \<Rightarrow> Some (pairing_proved env client p v s1)
      | ConnectionStatic frame epoch \<Rightarrow> Some (connection_read env now random frame epoch s1)
      | ConnectionAnswer frame epoch h issued \<Rightarrow> connection_answered env now fresh frame epoch h issued s1
      | ConnectionProof client p valid v \<Rightarrow> Some (connection_proved env now client p valid v s1))"

section \<open>Events\<close>

datatype 'k burrow_event =
    Starts
  | Stops int
  | SocketOpens int nat
  | SocketDelivers int nat js_text
  | SocketCloses int nat "int option"
  | ReconnectFires
  | ReaperFires int
  | DrainTurn int "'k noise_key_pair" bytes
  | MintBegins js_text int
  | MintEnds int nat "'k noise_key_pair" bytes
  | Approves int js_text js_text js_text
  | Denies int js_text js_text
  | SaveBegins int bytes
  | SaveEnds int bool
  | ApiSends nat json

fun burrow_step :: "('k, 'p) burrow_env \<Rightarrow> 'k burrow_event \<Rightarrow> 'k burrow \<Rightarrow> 'k burrow option" where
  "burrow_step env Starts s = Some (burrow_start env s)"
| "burrow_step env (Stops now) s = Some (burrow_stop now s)"
| "burrow_step env (SocketOpens now ws) s = Some (socket_opened env now ws s)"
| "burrow_step env (SocketDelivers now ws raw) s = Some (socket_message env now ws raw s)"
| "burrow_step env (SocketCloses now ws code) s = Some (socket_closed env now ws code s)"
| "burrow_step env ReconnectFires s = Some (reconnect_fires env s)"
| "burrow_step env (ReaperFires now) s = Some (reaper_fires env now s)"
| "burrow_step env (DrainTurn now fresh random) s = drain_turn env now fresh random s"
| "burrow_step env (MintBegins token expires) s = Some (mint_begin token expires s)"
| "burrow_step env (MintEnds now i keys random) s = Some (mint_end env now i keys random s)"
| "burrow_step env (Approves now client pairing code) s = Some (approve_pairing env now client pairing code s)"
| "burrow_step env (Denies now client pairing) s = Some (deny_pairing env now client pairing s)"
| "burrow_step env (SaveBegins now random) s = Some (save_begin env now random s)"
| "burrow_step env (SaveEnds now saved) s = Some (save_end env now saved s)"
| "burrow_step env (ApiSends r payload) s = Some (api_sends env r payload s)"

fun burrow_run :: "('k, 'p) burrow_env \<Rightarrow> 'k burrow_event list \<Rightarrow> 'k burrow \<Rightarrow> 'k burrow option" where
  "burrow_run env [] s = Some s"
| "burrow_run env (e # es) s = Option.bind (burrow_step env e s) (burrow_run env es)"

end
