(* ===== verification/Burrow_Facts.thy ===== *)
theory Burrow_Facts
  imports Burrow_Runtime
begin

text \<open>
  What every operation of the Burrow's runtime keeps. The client map is seen through \<open>pairing_at\<close>,
  \<open>connection_at\<close> and \<open>established_at\<close>; the operations that only give things up are steps of the preorder
  \<open>lets_go\<close>, under which each part of the invariant is preserved once for all of them.
\<close>

section \<open>What an operation leaves alone\<close>

text \<open>The fields that no giving up touches.\<close>

definition core where
  "core s = (bw_apis s, bw_tokens s, bw_frames s, bw_frame_chars s, bw_drain s, bw_epoch s, bw_acl s, bw_mints s,
     bw_jobs s, bw_commit s, bw_socket s, bw_status s, bw_stopped s, bw_displaced s, bw_backoff s, bw_reconnect s,
     bw_next s)"

lemma core_fields:
  assumes "core t = core s"
  shows "bw_apis t = bw_apis s" "bw_tokens t = bw_tokens s" "bw_frames t = bw_frames s"
    "bw_frame_chars t = bw_frame_chars s" "bw_drain t = bw_drain s" "bw_epoch t = bw_epoch s" "bw_acl t = bw_acl s"
    "bw_mints t = bw_mints s" "bw_jobs t = bw_jobs s" "bw_commit t = bw_commit s" "bw_socket t = bw_socket s"
    "bw_status t = bw_status s" "bw_stopped t = bw_stopped s" "bw_displaced t = bw_displaced s"
    "bw_backoff t = bw_backoff s" "bw_reconnect t = bw_reconnect s" "bw_next t = bw_next s"
  using assms by (simp_all add: core_def)

text \<open>Operations that touch neither the client map nor the invitations.\<close>

lemma at_cong:
  assumes "bw_clients t = bw_clients s"
  shows "pairing_at c t = pairing_at c s" "connection_at c t = connection_at c s" "established_at c t = established_at c s"
  using assms by (simp_all add: pairing_at_def connection_at_def established_at_def)

lemma at_update:
  "pairing_at c (s\<lparr>bw_clients := cs\<rparr>) = Option.bind (map_of cs c) cl_pairing"
  "connection_at c (s\<lparr>bw_clients := cs\<rparr>) = Option.bind (map_of cs c) cl_connection"
  "established_at c (s\<lparr>bw_clients := cs\<rparr>) = Option.bind (map_of cs c) cl_established"
  by (simp_all add: pairing_at_def connection_at_def established_at_def)

lemma state_of_fields:
  "cl_pairing (client_state_of c s) = pairing_at c s"
  "cl_connection (client_state_of c s) = connection_at c s"
  "cl_established (client_state_of c s) = established_at c s"
  by (auto simp: client_state_of_def pairing_at_def connection_at_def established_at_def empty_client_def split: option.splits)

lemma emit_simps [simp]:
  "bw_clients (emit x s) = bw_clients s" "bw_invitations (emit x s) = bw_invitations s" "core (emit x s) = core s"
  "bw_sessions (emit x s) = bw_sessions s" "bw_challenges (emit x s) = bw_challenges s" "bw_reaper (emit x s) = bw_reaper s"
  "bw_out (emit x s) = bw_out s @ [x]"
  "pairing_at c (emit x s) = pairing_at c s" "connection_at c (emit x s) = connection_at c s"
  "established_at c (emit x s) = established_at c s"
  by (simp_all add: emit_def core_def pairing_at_def connection_at_def established_at_def)

lemmas emit_core [simp] = core_fields [OF emit_simps(3)]

lemma set_client_simps [simp]:
  "bw_invitations (set_client k f s) = bw_invitations s" "core (set_client k f s) = core s"
  "bw_sessions (set_client k f s) = bw_sessions s" "bw_challenges (set_client k f s) = bw_challenges s"
  "bw_reaper (set_client k f s) = bw_reaper s" "bw_out (set_client k f s) = bw_out s"
  by (simp_all add: set_client_def core_def)

lemmas set_client_core [simp] = core_fields [OF set_client_simps(2)]

lemma set_client_at:
  "pairing_at c (set_client k f s) = (if c = k then cl_pairing (f (client_state_of k s)) else pairing_at c s)"
  "connection_at c (set_client k f s) = (if c = k then cl_connection (f (client_state_of k s)) else connection_at c s)"
  "established_at c (set_client k f s) = (if c = k then cl_established (f (client_state_of k s)) else established_at c s)"
  by (simp_all add: set_client_def pairing_at_def connection_at_def established_at_def update_conv')

lemma prune_client_simps [simp]:
  "bw_invitations (prune_client k s) = bw_invitations s" "core (prune_client k s) = core s"
  "bw_sessions (prune_client k s) = bw_sessions s" "bw_challenges (prune_client k s) = bw_challenges s"
  "bw_reaper (prune_client k s) = bw_reaper s" "bw_out (prune_client k s) = bw_out s"
  "pairing_at c (prune_client k s) = pairing_at c s" "connection_at c (prune_client k s) = connection_at c s"
  "established_at c (prune_client k s) = established_at c s"
  by (auto simp: prune_client_def core_def pairing_at_def connection_at_def established_at_def holds_nothing_def
      delete_conv' split: option.splits)

lemmas prune_client_core [simp] = core_fields [OF prune_client_simps(2)]

lemma send_frame_simps [simp]:
  "bw_clients (send_frame x s) = bw_clients s" "bw_invitations (send_frame x s) = bw_invitations s"
  "core (send_frame x s) = core s" "bw_sessions (send_frame x s) = bw_sessions s"
  "bw_challenges (send_frame x s) = bw_challenges s" "bw_reaper (send_frame x s) = bw_reaper s"
  "pairing_at c (send_frame x s) = pairing_at c s" "connection_at c (send_frame x s) = connection_at c s"
  "established_at c (send_frame x s) = established_at c s"
  by (simp_all add: send_frame_def split: option.splits)

lemmas send_frame_core [simp] = core_fields [OF send_frame_simps(3)]

text \<open>A session's transcript never changes.\<close>

definition keeps_hash :: "(transport_session, 'a) throwing \<Rightarrow> bool" where
  "keeps_hash m \<longleftrightarrow> (\<forall>t. ts_handshake_hash (fst (m t)) = ts_handshake_hash t)"

lemma keeps_hash_basic [simp]: "keeps_hash (m_return a)" "keeps_hash (m_lift x)" "keeps_hash require_live" "keeps_hash (ts_seal c p)"
  "keeps_hash (ts_open c ct)"
  by (simp_all add: keeps_hash_def m_return_def m_lift_def require_live_def ts_seal_def ts_open_def
      split: prod.splits option.splits)

lemma keeps_hash_bind: "keeps_hash m \<Longrightarrow> (\<And>a. keeps_hash (f a)) \<Longrightarrow> keeps_hash (m_bind m f)"
  unfolding keeps_hash_def m_bind_def by (simp split: prod.splits sum.splits) (metis fst_conv)

lemma keeps_hashD: "keeps_hash m \<Longrightarrow> m t = (t', x) \<Longrightarrow> ts_handshake_hash t' = ts_handshake_hash t"
  by (metis fst_conv keeps_hash_def)

lemma keeps_hash_guarded: "keeps_hash m \<Longrightarrow> keeps_hash (guarded m)"
  unfolding guarded_def
proof (rule keeps_hash_bind)
  assume "keeps_hash m"
  then have m: "ts_handshake_hash t' = ts_handshake_hash t" if "m t = (t', x)" for t t' x
    using that by (rule keeps_hashD)
  show "keeps_hash (\<lambda>s. case m s of (s', Inl e) \<Rightarrow> (s'\<lparr>ts_poison := Some e\<rparr>, Inl e) | (s', Inr a) \<Rightarrow> (s', Inr a))"
    unfolding keeps_hash_def by (auto split: prod.splits sum.splits simp: m)
qed simp

lemma keeps_hash_encrypt: "keeps_hash (ts_encrypt c j p)"
  unfolding ts_encrypt_def by (rule keeps_hash_bind) simp_all

lemma keeps_hash_encrypt_all: "keeps_hash (ts_encrypt_all c j bodies)"
  by (induction bodies) (auto intro!: keeps_hash_bind keeps_hash_encrypt)

lemma keeps_hash_sends: "keeps_hash (send_control c j v)" "keeps_hash (send_app c j m)"
  unfolding send_control_def send_app_def
  by (auto intro!: keeps_hash_bind keeps_hash_guarded keeps_hash_encrypt_all)

lemma keeps_hash_receive: "keeps_hash (receive c j ct)"
proof -
  have "keeps_hash (\<lambda>s. case frame of
           PlainKeepalive \<Rightarrow> (s, Inr GotKeepalive)
         | PlainControl v \<Rightarrow> (s, Inr (GotControl v))
         | PlainStream body \<Rightarrow>
             (case ra_push body (ts_reassembler s) of
                (ra, Inl e) \<Rightarrow> (s\<lparr>ts_reassembler := ra\<rparr>, Inl e)
              | (ra, Inr messages) \<Rightarrow> (s\<lparr>ts_reassembler := ra\<rparr>, Inr (GotApp messages))))" for frame :: "'v transport_plaintext"
    by (simp add: keeps_hash_def split: transport_plaintext.splits prod.splits sum.splits)
  then show ?thesis unfolding receive_def by (intro keeps_hash_guarded keeps_hash_bind) simp_all
qed

definition hashes :: "'k burrow \<Rightarrow> nat \<Rightarrow> bytes option" where
  "hashes s = (\<lambda>r. map_option ts_handshake_hash (bw_sessions s r))"

lemma hashes_cong: "bw_sessions t = bw_sessions s \<Longrightarrow> hashes t = hashes s"
  by (simp add: hashes_def)

lemmas hashes_same [simp] = emit_simps(4) [THEN hashes_cong] set_client_simps(3) [THEN hashes_cong]
  prune_client_simps(3) [THEN hashes_cong] send_frame_simps(4) [THEN hashes_cong]

lemma hashes_update:
  "bw_sessions s r = Some t \<Longrightarrow> ts_handshake_hash t' = ts_handshake_hash t \<Longrightarrow>
    hashes (s\<lparr>bw_sessions := (bw_sessions s)(r := Some t')\<rparr>) = hashes s"
  by (auto simp: hashes_def fun_eq_iff)

lemma send_control_frame_simps [simp]:
  "bw_clients (send_control_frame env k b i r v s) = bw_clients s"
  "bw_invitations (send_control_frame env k b i r v s) = bw_invitations s"
  "core (send_control_frame env k b i r v s) = core s"
  "bw_challenges (send_control_frame env k b i r v s) = bw_challenges s"
  "bw_reaper (send_control_frame env k b i r v s) = bw_reaper s"
  by (auto simp: send_control_frame_def send_e2e_def core_def split: option.splits prod.splits sum.splits)

lemma send_control_frame_hashes [simp]: "hashes (send_control_frame env k b i r v s) = hashes s"
proof (cases "bw_sessions s r")
  case (Some t)
  obtain t' x where r: "send_control (be_crypto env) (be_json env) v t = (t', x)" by fastforce
  then have "ts_handshake_hash t' = ts_handshake_hash t" by (rule keeps_hashD [OF keeps_hash_sends(1)])
  then show ?thesis
    using hashes_update [OF Some, of t']
    by (auto simp: send_control_frame_def Some r send_e2e_def split: sum.splits)
qed (simp add: send_control_frame_def)

lemmas send_control_frame_core [simp] = core_fields [OF send_control_frame_simps(3)]
lemmas send_control_frame_at [simp] = at_cong [OF send_control_frame_simps(1)]

section \<open>Giving up\<close>

text \<open>Keys are unique, and every client entry but perhaps those of \<open>K\<close> holds something.\<close>

definition idle_at :: "js_text \<Rightarrow> 'k burrow \<Rightarrow> bool" where
  "idle_at c s \<longleftrightarrow> (case map_of (bw_clients s) c of None \<Rightarrow> False | Some st \<Rightarrow> holds_nothing st)"

definition tidy_but :: "js_text set \<Rightarrow> 'k burrow \<Rightarrow> bool" where
  "tidy_but K s \<longleftrightarrow> distinct (map fst (bw_clients s)) \<and> distinct (map fst (bw_invitations s)) \<and>
     (\<forall>c. idle_at c s \<longrightarrow> c \<in> K)"

abbreviation tidy :: "'k burrow \<Rightarrow> bool" where "tidy \<equiv> tidy_but {}"

lemma tidy_but_cong:
  "bw_clients t = bw_clients s \<Longrightarrow> bw_invitations t = bw_invitations s \<Longrightarrow> tidy_but K t = tidy_but K s"
  by (simp add: tidy_but_def idle_at_def)

lemma tidy_but_simps [simp]:
  "tidy_but K (emit x s) = tidy_but K s" "tidy_but K (send_frame y s) = tidy_but K s"
  "tidy_but K (send_control_frame env k b i r v s) = tidy_but K s"
  by (rule tidy_but_cong; simp)+

lemma idle_at_set_client:
  "idle_at c (set_client k f s) = (if c = k then holds_nothing (f (client_state_of k s)) else idle_at c s)"
  by (simp add: idle_at_def set_client_def)

lemma idle_at_prune: "idle_at c (prune_client k s) = (c \<noteq> k \<and> idle_at c s)"
  by (auto simp: idle_at_def prune_client_def split: option.splits)

lemma distinct_set_client:
  "distinct (map fst (bw_clients s)) \<Longrightarrow> distinct (map fst (bw_clients (set_client k f s)))"
  by (simp add: set_client_def distinct_update)

lemma distinct_prune:
  "distinct (map fst (bw_clients s)) \<Longrightarrow> distinct (map fst (bw_clients (prune_client k s)))"
  by (simp add: prune_client_def distinct_delete split: option.splits)

lemma tidy_set_client: "tidy_but K s \<Longrightarrow> tidy_but (insert k K) (set_client k f s)"
  unfolding tidy_but_def idle_at_set_client by (auto intro: distinct_set_client)

lemma tidy_set_client_held:
  "tidy_but K s \<Longrightarrow> \<not> holds_nothing (f (client_state_of k s)) \<Longrightarrow> tidy_but (K - {k}) (set_client k f s)"
  unfolding tidy_but_def idle_at_set_client by (auto intro: distinct_set_client)

lemma tidy_prune: "tidy_but K s \<Longrightarrow> tidy_but (K - {k}) (prune_client k s)"
  unfolding tidy_but_def idle_at_prune by (auto intro: distinct_prune)

lemma tidy_weaken: "tidy_but K s \<Longrightarrow> K \<subseteq> L \<Longrightarrow> tidy_but L s"
  unfolding tidy_but_def by auto

lemma tidy_delete: "tidy_but K s \<Longrightarrow> tidy_but K (s\<lparr>bw_clients := AList.delete k (bw_clients s)\<rparr>)"
  unfolding tidy_but_def by (auto simp: distinct_delete idle_at_def)

lemma tidy_retire: "tidy_but K s \<Longrightarrow> tidy_but K (retire_invitation i st o' s)"
  by (auto simp: tidy_but_def retire_invitation_def distinct_delete idle_at_def split: option.splits)

text \<open>Every part a client or the invitation map holds stays as it is or goes.\<close>

definition part_of :: "('a \<Rightarrow> 'b option) \<Rightarrow> ('a \<Rightarrow> 'b option) \<Rightarrow> bool" where
  "part_of f g \<longleftrightarrow> (\<forall>x. f x = None \<or> f x = g x)"

lemma part_of_refl [simp]: "part_of f f"
  by (simp add: part_of_def)

lemma part_of_trans: "part_of f g \<Longrightarrow> part_of g h \<Longrightarrow> part_of f h"
  unfolding part_of_def by (intro allI) (erule_tac x = x in allE; erule_tac x = x in allE; auto)

lemma part_of_Some: "part_of f g \<Longrightarrow> f x = Some y \<Longrightarrow> g x = Some y"
  unfolding part_of_def by (erule_tac x = x in allE) auto

lemma part_of_dom: "part_of f g \<Longrightarrow> dom f \<subseteq> dom g"
  by (auto dest: part_of_Some)

definition lets_go :: "'k burrow \<Rightarrow> 'k burrow \<Rightarrow> bool" where
  "lets_go s t \<longleftrightarrow> core t = core s \<and>
     part_of (\<lambda>c. pairing_at c t) (\<lambda>c. pairing_at c s) \<and> part_of (\<lambda>c. connection_at c t) (\<lambda>c. connection_at c s) \<and>
     part_of (\<lambda>c. established_at c t) (\<lambda>c. established_at c s) \<and> part_of (map_of (bw_invitations t)) (map_of (bw_invitations s)) \<and>
     part_of (map_of (ci_pending (bw_challenges t))) (map_of (ci_pending (bw_challenges s))) \<and>
     hashes t = hashes s \<and> (tidy s \<longrightarrow> tidy t)"

lemma lets_go_refl [simp]: "lets_go s s"
  by (simp add: lets_go_def)

lemma lets_go_trans [trans]: "lets_go s t \<Longrightarrow> lets_go t u \<Longrightarrow> lets_go s u"
  unfolding lets_go_def by (auto intro: part_of_trans)

lemma lets_go_core:
  assumes "lets_go s t"
  shows "bw_apis t = bw_apis s" "bw_tokens t = bw_tokens s" "bw_frames t = bw_frames s"
    "bw_frame_chars t = bw_frame_chars s" "bw_drain t = bw_drain s" "bw_epoch t = bw_epoch s" "bw_acl t = bw_acl s"
    "bw_mints t = bw_mints s" "bw_jobs t = bw_jobs s" "bw_commit t = bw_commit s" "bw_socket t = bw_socket s"
    "bw_status t = bw_status s" "bw_stopped t = bw_stopped s" "bw_displaced t = bw_displaced s"
    "bw_backoff t = bw_backoff s" "bw_reconnect t = bw_reconnect s" "bw_next t = bw_next s"
  using assms by (auto simp: lets_go_def core_def)

lemma lets_go_parts:
  assumes "lets_go s t"
  shows "part_of (\<lambda>c. pairing_at c t) (\<lambda>c. pairing_at c s)" "part_of (\<lambda>c. connection_at c t) (\<lambda>c. connection_at c s)"
    "part_of (\<lambda>c. established_at c t) (\<lambda>c. established_at c s)" "part_of (map_of (bw_invitations t)) (map_of (bw_invitations s))"
    "part_of (map_of (ci_pending (bw_challenges t))) (map_of (ci_pending (bw_challenges s)))"
    "hashes t = hashes s" "tidy s \<Longrightarrow> tidy t"
  using assms by (auto simp: lets_go_def)

lemma lets_go_fold: "(\<And>x u. lets_go u (f x u)) \<Longrightarrow> lets_go s (fold f xs s)"
  by (induction xs arbitrary: s) (auto intro: lets_go_trans)

lemma lets_go_emit: "lets_go s (emit x s)"
  by (simp add: lets_go_def)

lemma lets_go_send: "lets_go s (send_frame x s)"
  by (simp add: lets_go_def)

lemma lets_go_control: "lets_go s (send_control_frame env k b i r v s)"
  by (simp add: lets_go_def)

lemma retire_invitation_simps [simp]:
  "bw_clients (retire_invitation i st o' s) = bw_clients s" "core (retire_invitation i st o' s) = core s"
  "bw_sessions (retire_invitation i st o' s) = bw_sessions s" "bw_challenges (retire_invitation i st o' s) = bw_challenges s"
  "bw_reaper (retire_invitation i st o' s) = bw_reaper s"
  "map_of (bw_invitations (retire_invitation i st o' s)) = (map_of (bw_invitations s))(i := None)"
  by (auto simp: retire_invitation_def core_def emit_def fun_eq_iff split: option.splits)

lemmas retire_invitation_at [simp] = at_cong [OF retire_invitation_simps(1)]
lemmas retire_invitation_hashes [simp] = retire_invitation_simps(3) [THEN hashes_cong]
lemmas retire_invitation_core [simp] = core_fields [OF retire_invitation_simps(2)]

lemma lets_go_retire: "lets_go s (retire_invitation i st o' s)"
  by (auto simp: lets_go_def part_of_def intro: tidy_retire)

lemma dispose_pairing_at:
  "pairing_at c (dispose_pairing k o' s) = (if c = k then None else pairing_at c s)"
  "connection_at c (dispose_pairing k o' s) = connection_at c s"
  "established_at c (dispose_pairing k o' s) = established_at c s"
  by (auto simp: dispose_pairing_def set_client_at state_of_fields split: option.splits)

lemma dispose_pairing_simps [simp]:
  "core (dispose_pairing k o' s) = core s" "bw_sessions (dispose_pairing k o' s) = bw_sessions s"
  "bw_challenges (dispose_pairing k o' s) = bw_challenges s" "bw_reaper (dispose_pairing k o' s) = bw_reaper s"
  "part_of (map_of (bw_invitations (dispose_pairing k o' s))) (map_of (bw_invitations s))"
  by (auto simp: dispose_pairing_def part_of_def split: option.splits)

lemmas dispose_pairing_hashes [simp] = dispose_pairing_simps(2) [THEN hashes_cong]
lemmas dispose_pairing_core [simp] = core_fields [OF dispose_pairing_simps(1)]

lemma lets_go_dispose_pairing: "lets_go s (dispose_pairing k o' s)"
proof (cases "pairing_at k s")
  case (Some p)
  have "tidy (dispose_pairing k o' s)" if "tidy s"
  proof -
    have "tidy_but {k} (set_client k (\<lambda>st. st\<lparr>cl_pairing := None\<rparr>) s)" by (rule tidy_set_client [OF that])
    then have "tidy_but {k} (emit (ApprovalDismissed k) (retire_invitation (pn_invite p) (Some Consumed) o'
        (set_client k (\<lambda>st. st\<lparr>cl_pairing := None\<rparr>) s)))" by (simp add: tidy_retire)
    from tidy_prune [OF this, of k] show ?thesis by (simp add: dispose_pairing_def Some)
  qed
  moreover have "part_of (\<lambda>c. pairing_at c (dispose_pairing k o' s)) (\<lambda>c. pairing_at c s)"
    by (simp add: part_of_def dispose_pairing_at)
  ultimately show ?thesis by (simp add: lets_go_def dispose_pairing_at)
qed (simp add: dispose_pairing_def)

lemma lets_go_finish_pairing: "lets_go s (finish_pairing env k d s)"
  by (auto simp: finish_pairing_def send_pairing_outcome_def split: option.splits
      intro: lets_go_dispose_pairing lets_go_trans [OF lets_go_control lets_go_dispose_pairing])

lemma finish_pairing_gone: "pairing_at k (finish_pairing env k d s) = None"
  by (auto simp: finish_pairing_def send_pairing_outcome_def dispose_pairing_at split: option.splits)

lemma dispose_connection_at:
  "pairing_at c (dispose_connection now k s) = pairing_at c s"
  "connection_at c (dispose_connection now k s) = (if c = k then None else connection_at c s)"
  "established_at c (dispose_connection now k s) = established_at c s"
  by (auto simp: dispose_connection_def set_client_at state_of_fields split: option.splits)
    (auto simp: pairing_at_def connection_at_def established_at_def)

lemma consume_part: "part_of (map_of (ci_pending (fst (consume_challenge now h ci)))) (map_of (ci_pending ci))"
  by (auto simp: part_of_def consume_challenge_def split: option.splits)

lemma dispose_connection_simps [simp]:
  "core (dispose_connection now k s) = core s" "bw_sessions (dispose_connection now k s) = bw_sessions s"
  "bw_reaper (dispose_connection now k s) = bw_reaper s"
  "bw_invitations (dispose_connection now k s) = bw_invitations s"
  "part_of (map_of (ci_pending (bw_challenges (dispose_connection now k s)))) (map_of (ci_pending (bw_challenges s)))"
  by (auto simp: dispose_connection_def core_def consume_part split: option.splits)

lemmas dispose_connection_hashes [simp] = dispose_connection_simps(2) [THEN hashes_cong]
lemmas dispose_connection_core [simp] = core_fields [OF dispose_connection_simps(1)]

lemma lets_go_dispose_connection: "lets_go s (dispose_connection now k s)"
proof (cases "connection_at k s")
  case (Some p)
  let ?t = "s\<lparr>bw_challenges := fst (consume_challenge now (cn_challenge p) (bw_challenges s))\<rparr>"
  have "tidy (dispose_connection now k s)" if "tidy s"
  proof -
    have "tidy ?t" using that tidy_but_cong [of ?t s "{}"] by simp
    then have "tidy_but {k} (set_client k (\<lambda>st. st\<lparr>cl_connection := None\<rparr>) ?t)" by (rule tidy_set_client)
    from tidy_prune [OF this, of k] show ?thesis by (simp add: dispose_connection_def Some)
  qed
  moreover have "part_of (\<lambda>c. connection_at c (dispose_connection now k s)) (\<lambda>c. connection_at c s)"
    by (simp add: part_of_def dispose_connection_at)
  ultimately show ?thesis by (simp add: lets_go_def dispose_connection_at)
qed (simp add: dispose_connection_def)

lemma lets_go_deny_connection: "lets_go s (deny_connection env now k p d s)"
  unfolding deny_connection_def by (rule lets_go_trans [OF lets_go_control lets_go_dispose_connection])

lemma deny_connection_gone: "connection_at k (deny_connection env now k p d s) = None"
  by (simp add: deny_connection_def dispose_connection_at)

lemma dispose_established_at:
  "pairing_at c (dispose_established k s) = pairing_at c s"
  "connection_at c (dispose_established k s) = connection_at c s"
  "established_at c (dispose_established k s) = (if c = k then None else established_at c s)"
  by (auto simp: dispose_established_def set_client_at state_of_fields split: option.splits)

lemma dispose_established_simps [simp]:
  "core (dispose_established k s) = core s" "bw_sessions (dispose_established k s) = bw_sessions s"
  "bw_reaper (dispose_established k s) = bw_reaper s" "bw_challenges (dispose_established k s) = bw_challenges s"
  "bw_invitations (dispose_established k s) = bw_invitations s"
  by (simp_all add: dispose_established_def split: option.splits)

lemmas dispose_established_hashes [simp] = dispose_established_simps(2) [THEN hashes_cong]
lemmas dispose_established_core [simp] = core_fields [OF dispose_established_simps(1)]

lemma lets_go_dispose_established: "lets_go s (dispose_established k s)"
proof (cases "established_at k s")
  case (Some e)
  have "tidy (dispose_established k s)" if "tidy s"
  proof -
    have "tidy_but {k} (set_client k (\<lambda>st. st\<lparr>cl_established := None\<rparr>) (emit (ApiDisposed (es_ref e)) s))"
      by (rule tidy_set_client) (simp add: that)
    from tidy_prune [OF this, of k] show ?thesis by (simp add: dispose_established_def Some)
  qed
  moreover have "part_of (\<lambda>c. established_at c (dispose_established k s)) (\<lambda>c. established_at c s)"
    by (simp add: part_of_def dispose_established_at)
  ultimately show ?thesis by (simp add: lets_go_def dispose_established_at)
qed (simp add: dispose_established_def)

lemma at_delete:
  "pairing_at c (s\<lparr>bw_clients := AList.delete k (bw_clients s)\<rparr>) = (if c = k then None else pairing_at c s)"
  "connection_at c (s\<lparr>bw_clients := AList.delete k (bw_clients s)\<rparr>) = (if c = k then None else connection_at c s)"
  "established_at c (s\<lparr>bw_clients := AList.delete k (bw_clients s)\<rparr>) = (if c = k then None else established_at c s)"
  by (simp_all add: pairing_at_def connection_at_def established_at_def)

lemma lets_go_delete: "lets_go s (s\<lparr>bw_clients := AList.delete k (bw_clients s)\<rparr>)"
  unfolding lets_go_def at_delete by (simp add: core_def part_of_def tidy_delete hashes_def)

lemma lets_go_dispose_client: "lets_go s (dispose_client now k s)"
proof -
  let ?t = "dispose_established k (dispose_connection now k (dispose_pairing k None s))"
  have "lets_go s ?t"
    by (rule lets_go_trans [OF lets_go_dispose_pairing lets_go_trans [OF lets_go_dispose_connection lets_go_dispose_established]])
  then show ?thesis unfolding dispose_client_def Let_def by (simp add: lets_go_trans [OF _ lets_go_delete])
qed

lemma dispose_client_gone: "map_of (bw_clients (dispose_client now k s)) k = None"
  by (simp add: dispose_client_def Let_def)

lemma lets_go_expire: "lets_go s (expire env now d s)"
  by (cases d) (auto intro: lets_go_finish_pairing lets_go_deny_connection lets_go_dispose_established lets_go_retire)

lemma arm_reaper_simps [simp]:
  "bw_clients (arm_reaper s) = bw_clients s" "bw_invitations (arm_reaper s) = bw_invitations s"
  "core (arm_reaper s) = core s" "bw_sessions (arm_reaper s) = bw_sessions s"
  "bw_challenges (arm_reaper s) = bw_challenges s" "bw_out (arm_reaper s) = bw_out s"
  by (auto simp: arm_reaper_def core_def split: option.splits)

lemmas arm_reaper_hashes [simp] = arm_reaper_simps(4) [THEN hashes_cong]
lemmas arm_reaper_core [simp] = core_fields [OF arm_reaper_simps(3)]
lemmas arm_reaper_at [simp] = at_cong [OF arm_reaper_simps(1)]

lemma tidy_arm [simp]: "tidy_but K (arm_reaper s) = tidy_but K s"
  by (rule tidy_but_cong) simp_all

lemma lets_go_arm: "lets_go s (arm_reaper s)"
  by (simp add: lets_go_def)

lemma lets_go_sweep: "lets_go s (fold (\<lambda>(due, d) t. if due \<le> now then expire env now d t else t) ds s)"
  by (rule lets_go_fold) (auto intro: lets_go_expire)

lemma lets_go_reap: "lets_go s (reap env now s)"
  unfolding reap_def by (rule lets_go_trans [OF lets_go_sweep lets_go_arm])

end
