(* ===== verification/Burrow_Invariant.thy ===== *)
theory Burrow_Invariant
  imports Burrow_Facts
begin

text \<open>
  The invariant of the Burrow's runtime: keys are unique and every client entry holds something, the caps,
  the bound on the queue, no handshake newer than the epoch, a timer armed for whatever is held, one session
  of a Client key, and each record's number naming the session it ran its handshake on. It holds in the first state and
  every event keeps it, and keeps that nothing is held while there is no socket.
\<close>

definition pairings :: "'k burrow \<Rightarrow> js_text set" where "pairings s = dom (\<lambda>c. pairing_at c s)"
definition connections :: "'k burrow \<Rightarrow> js_text set" where "connections s = dom (\<lambda>c. connection_at c s)"
definition sessions :: "'k burrow \<Rightarrow> js_text set" where "sessions s = dom (\<lambda>c. established_at c s)"

definition bounded :: "'k burrow \<Rightarrow> bool" where
  "bounded s \<longleftrightarrow> card (pairings s) \<le> max_pending_pairings \<and> card (connections s) \<le> max_pending_connection_handshakes \<and>
     card (sessions s) \<le> max_established_e2e_sessions \<and> length (bw_invitations s) \<le> max_tokens_per_burrow"

definition queue_ok :: "'k burrow \<Rightarrow> bool" where
  "queue_ok s \<longleftrightarrow> length (bw_frames s) \<le> max_queued_relay_frames \<and> bw_frame_chars s \<le> max_queued_relay_frame_chars \<and>
     bw_frame_chars s = sum_list (map snd (bw_frames s))"

fun waiting_epoch :: "'k drain \<Rightarrow> nat option" where
  "waiting_epoch (PairingHandshake held frame epoch) = Some epoch"
| "waiting_epoch (ConnectionStatic frame epoch) = Some epoch"
| "waiting_epoch (ConnectionAnswer frame epoch h issued) = Some epoch"
| "waiting_epoch d = None"

definition epochs_ok :: "'k burrow \<Rightarrow> bool" where
  "epochs_ok s \<longleftrightarrow> (\<forall>e. waiting_epoch (bw_drain s) = Some e \<longrightarrow> e \<le> bw_epoch s)"

definition armed_by :: "int \<Rightarrow> 'k burrow \<Rightarrow> bool" where
  "armed_by t s \<longleftrightarrow> (\<exists>r. bw_reaper s = Some r \<and> r \<le> t)"

definition covered :: "'k burrow \<Rightarrow> bool" where
  "covered s \<longleftrightarrow> (\<forall>c p. pairing_at c s = Some p \<longrightarrow> armed_by (pn_expires p) s) \<and>
     (\<forall>c p. connection_at c s = Some p \<longrightarrow> armed_by (cn_expires p) s) \<and>
     (\<forall>i h. map_of (bw_invitations s) i = Some h \<longrightarrow> armed_by (hi_expires h) s) \<and>
     (\<forall>c e. established_at c s = Some e \<longrightarrow> bw_reaper s \<noteq> None)"

definition one_session_per_key :: "'k burrow \<Rightarrow> bool" where
  "one_session_per_key s \<longleftrightarrow> (\<forall>c d e e'. established_at c s = Some e \<longrightarrow> established_at d s = Some e' \<longrightarrow>
     es_static e = es_static e' \<longrightarrow> c = d)"

definition transcript_of :: "'k burrow \<Rightarrow> nat \<Rightarrow> js_text option" where
  "transcript_of s r = map_option to_base64_url (hashes s r)"

definition numbered :: "'k burrow \<Rightarrow> bool" where
  "numbered s \<longleftrightarrow> (\<forall>c p. pairing_at c s = Some p \<longrightarrow> transcript_of s (pn_ref p) = Some (pn_hash p)) \<and>
     (\<forall>c p. connection_at c s = Some p \<longrightarrow> transcript_of s (cn_ref p) = Some (cn_hash p)) \<and>
     (\<forall>c e. established_at c s = Some e \<longrightarrow> transcript_of s (es_ref e) \<noteq> None) \<and>
     (\<forall>r\<ge>bw_next s. transcript_of s r = None)"

definition burrow_base :: "'k burrow \<Rightarrow> bool" where
  "burrow_base s \<longleftrightarrow> tidy s \<and> bounded s \<and> queue_ok s \<and> epochs_ok s \<and> one_session_per_key s \<and> numbered s"

definition burrow_inv :: "'k burrow \<Rightarrow> bool" where
  "burrow_inv s \<longleftrightarrow> burrow_base s \<and> covered s"

text \<open>Nothing is held, and no handshake of the present epoch is under way.\<close>

definition empty_handed :: "'k burrow \<Rightarrow> bool" where
  "empty_handed s \<longleftrightarrow> bw_clients s = [] \<and> bw_frames s = [] \<and> waiting_epoch (bw_drain s) \<noteq> Some (bw_epoch s)"

definition offline_empty :: "'k burrow \<Rightarrow> bool" where
  "offline_empty s \<longleftrightarrow> (bw_socket s = None \<longrightarrow> empty_handed s)"

section \<open>Preservation by giving up\<close>

lemma finite_at [simp]:
  "finite (pairings s)" "finite (connections s)" "finite (sessions s)"
proof -
  have "pairings s \<subseteq> set (map fst (bw_clients s))" "connections s \<subseteq> set (map fst (bw_clients s))"
    "sessions s \<subseteq> set (map fst (bw_clients s))"
    by (auto simp: pairings_def connections_def sessions_def pairing_at_def connection_at_def established_at_def
        bind_eq_Some_conv dest!: map_of_SomeD intro: image_eqI [of _ fst "(_, _)", OF fst_conv [symmetric]])
  then show "finite (pairings s)" "finite (connections s)" "finite (sessions s)"
    by (auto intro: finite_subset)
qed

lemma base_grow:
  assumes "burrow_base s" "bw_clients t = bw_clients s" "bw_sessions t = bw_sessions s" "bw_next s \<le> bw_next t"
    "tidy t" "length (bw_invitations t) \<le> max_tokens_per_burrow" "queue_ok t" "epochs_ok t"
  shows "burrow_base t"
proof -
  have [simp]: "hashes t = hashes s" by (rule hashes_cong) (use assms in simp)
  note [simp] = at_cong [OF assms(2)]
  have "numbered t" using assms(1,4) by (auto simp: burrow_base_def numbered_def transcript_of_def)
  then show ?thesis using assms(1,5-8)
    by (simp add: burrow_base_def bounded_def one_session_per_key_def pairings_def connections_def sessions_def)
qed

lemma base_change:
  assumes "burrow_base s" "bw_clients t = bw_clients s" "bw_invitations t = bw_invitations s" "bw_sessions t = bw_sessions s"
    "bw_next t = bw_next s" "queue_ok t" "epochs_ok t"
  shows "burrow_base t"
  by (rule base_grow [OF assms(1,2,4)])
    (use assms tidy_but_cong [OF assms(2,3)] in \<open>simp_all add: burrow_base_def bounded_def\<close>)

lemma base_cong:
  assumes "bw_clients t = bw_clients s" "bw_invitations t = bw_invitations s" "bw_sessions t = bw_sessions s"
    "bw_next t = bw_next s" "bw_frames t = bw_frames s" "bw_frame_chars t = bw_frame_chars s"
    "waiting_epoch (bw_drain t) = waiting_epoch (bw_drain s)" "bw_epoch t = bw_epoch s" 
  shows "burrow_base s \<Longrightarrow> burrow_base t"
  by (rule base_change [OF _ assms(1-4)])
    (use assms(5-8) in \<open>simp_all add: burrow_base_def queue_ok_def epochs_ok_def\<close>)

lemma covered_cong:
  assumes "bw_clients t = bw_clients s" "bw_invitations t = bw_invitations s" "bw_reaper t = bw_reaper s"
  shows "covered t = covered s"
  by (simp add: covered_def armed_by_def assms at_cong [OF assms(1)])

lemmas inv_parts = burrow_inv_def burrow_base_def

lemma map_of_length: "distinct (map fst xs) \<Longrightarrow> length xs = card (dom (map_of xs))"
  using distinct_card [of "map fst xs"] by (simp add: dom_map_of_conv_image_fst)

lemma tidy_distinct: "tidy s \<Longrightarrow> distinct (map fst (bw_clients s))" "tidy s \<Longrightarrow> distinct (map fst (bw_invitations s))"
  by (simp_all add: tidy_but_def)

lemma bounded_gives_up: "tidy s \<Longrightarrow> lets_go s t \<Longrightarrow> bounded s \<Longrightarrow> bounded t"
proof -
  assume s: "tidy s" "lets_go s t" "bounded s"
  note p = lets_go_parts [OF s(2)]
  have "card (pairings t) \<le> card (pairings s)" "card (connections t) \<le> card (connections s)" "card (sessions t) \<le> card (sessions s)"
    using part_of_dom [OF p(1)] part_of_dom [OF p(2)] part_of_dom [OF p(3)]
    by (auto intro!: card_mono simp: pairings_def [symmetric] connections_def [symmetric] sessions_def [symmetric])
  moreover have "card (dom (map_of (bw_invitations t))) \<le> card (dom (map_of (bw_invitations s)))"
    by (rule card_mono [OF finite_dom_map_of part_of_dom [OF p(4)]])
  then have "length (bw_invitations t) \<le> length (bw_invitations s)"
    by (simp only: map_of_length [OF tidy_distinct(2) [OF s(1)]] map_of_length [OF tidy_distinct(2) [OF p(7) [OF s(1)]]])
  ultimately show "bounded t" using s(3) by (simp add: bounded_def)
qed

lemma covered_gives_up: "lets_go s t \<Longrightarrow> bw_reaper t = bw_reaper s \<Longrightarrow> covered s \<Longrightarrow> covered t"
proof -
  assume g: "lets_go s t" and r: "bw_reaper t = bw_reaper s" and c: "covered s"
  note p = lets_go_parts [OF g]
  have a: "armed_by x t = armed_by x s" for x by (simp add: armed_by_def r)
  show "covered t"
    using c part_of_Some [OF p(1)] part_of_Some [OF p(2)] part_of_Some [OF p(3)] part_of_Some [OF p(4)]
    unfolding covered_def a r by blast
qed

lemma one_session_gives_up: "lets_go s t \<Longrightarrow> one_session_per_key s \<Longrightarrow> one_session_per_key t"
  unfolding one_session_per_key_def using part_of_Some [OF lets_go_parts(3)] by blast

lemma numbered_gives_up: "lets_go s t \<Longrightarrow> numbered s \<Longrightarrow> numbered t"
proof -
  assume g: "lets_go s t" and n: "numbered s"
  note p = lets_go_parts [OF g]
  have a: "transcript_of t = transcript_of s" by (simp add: transcript_of_def fun_eq_iff p(6))
  show "numbered t"
    using n part_of_Some [OF p(1)] part_of_Some [OF p(2)] part_of_Some [OF p(3)]
    unfolding numbered_def a lets_go_core(17) [OF g] by blast
qed

lemma base_gives_up:
  assumes "burrow_base s" "lets_go s t"
  shows "burrow_base t"
proof -
  have "queue_ok t" "epochs_ok t"
    using assms by (simp_all add: burrow_base_def queue_ok_def epochs_ok_def lets_go_core [OF assms(2)])
  then show ?thesis
    using assms lets_go_parts(7) [OF assms(2)] bounded_gives_up one_session_gives_up numbered_gives_up
    unfolding burrow_base_def by blast
qed

lemma inv_gives_up: "burrow_inv s \<Longrightarrow> lets_go s t \<Longrightarrow> bw_reaper t = bw_reaper s \<Longrightarrow> burrow_inv t"
  unfolding burrow_inv_def using base_gives_up covered_gives_up by blast

lemma due_listed:
  "pairing_at c s = Some p \<Longrightarrow> pn_expires p \<in> set (map fst (deadlines s))"
  "connection_at c s = Some q \<Longrightarrow> cn_expires q \<in> set (map fst (deadlines s))"
  "established_at c s = Some e \<Longrightarrow> map fst (deadlines s) \<noteq> []"
  "map_of (bw_invitations s) i = Some h \<Longrightarrow> hi_expires h \<in> set (map fst (deadlines s))"
proof -
  have m: "set (client_deadlines c st) \<subseteq> set (deadlines s)" if "map_of (bw_clients s) c = Some st" for st
    using map_of_SomeD [OF that] by (force simp: deadlines_def)
  have l: "x \<in> set (map fst (deadlines s))" if "map_of (bw_clients s) c = Some st" "x \<in> set (map fst (client_deadlines c st))" for st x
    using m [OF that(1)] that(2) by auto
  show "pn_expires p \<in> set (map fst (deadlines s))" if p: "pairing_at c s = Some p"
  proof -
    obtain st where st: "map_of (bw_clients s) c = Some st" "cl_pairing st = Some p"
      using p unfolding pairing_at_def bind_eq_Some_conv by blast
    show ?thesis by (rule l [OF st(1)]) (simp add: client_deadlines_def st(2))
  qed
  show "cn_expires q \<in> set (map fst (deadlines s))" if q: "connection_at c s = Some q"
  proof -
    obtain st where st: "map_of (bw_clients s) c = Some st" "cl_connection st = Some q"
      using q unfolding connection_at_def bind_eq_Some_conv by blast
    show ?thesis by (rule l [OF st(1)]) (simp add: client_deadlines_def st(2))
  qed
  show "map fst (deadlines s) \<noteq> []" if e: "established_at c s = Some e"
  proof -
    obtain st where st: "map_of (bw_clients s) c = Some st" "cl_established st = Some e"
      using e unfolding established_at_def bind_eq_Some_conv by blast
    have "es_activity e + established_e2e_idle_timeout_ms \<in> set (map fst (deadlines s))"
      by (rule l [OF st(1)]) (simp add: client_deadlines_def st(2))
    then show ?thesis by auto
  qed
  show "map_of (bw_invitations s) i = Some h \<Longrightarrow> hi_expires h \<in> set (map fst (deadlines s))"
    by (force simp: deadlines_def dest: map_of_SomeD)
qed

lemma arm_covers:
  "t \<in> set (map fst (deadlines s)) \<Longrightarrow> armed_by t (arm_reaper s)"
  "map fst (deadlines s) \<noteq> [] \<Longrightarrow> bw_reaper (arm_reaper s) \<noteq> None"
proof -
  assume t: "t \<in> set (map fst (deadlines s))"
  let ?m = "Min (set (map fst (deadlines s)))"
  have m: "soonest (map fst (deadlines s)) = Some ?m" "?m \<le> t"
    using t Min_le [OF finite_set t] unfolding soonest_def by auto
  show "armed_by t (arm_reaper s)"
    using m(2) by (cases "bw_reaper s") (auto simp: armed_by_def arm_reaper_def m(1))
next
  assume "map fst (deadlines s) \<noteq> []"
  then show "bw_reaper (arm_reaper s) \<noteq> None" by (simp add: arm_reaper_def soonest_def split: option.splits)
qed

lemma covered_arm: "covered (arm_reaper s)"
  unfolding covered_def
  using due_listed(1) arm_covers(1) due_listed(2) due_listed(3) arm_covers(2) due_listed(4) by (metis arm_reaper_simps(2) arm_reaper_at)

lemma inv_arm: "burrow_base s \<Longrightarrow> burrow_inv (arm_reaper s)"
  unfolding burrow_inv_def using base_gives_up [OF _ lets_go_arm] covered_arm by blast

lemma inv_reap: "burrow_base s \<Longrightarrow> burrow_inv (reap env now s)"
  unfolding reap_def by (rule inv_arm) (rule base_gives_up [OF _ lets_go_sweep])

lemma reaper_kept [simp]:
  "bw_reaper (finish_pairing env k d s) = bw_reaper s" "bw_reaper (deny_connection env now k p cd s) = bw_reaper s"
  by (auto simp: finish_pairing_def send_pairing_outcome_def deny_connection_def split: option.splits)

lemmas inv_releases = inv_gives_up [OF _ lets_go_finish_pairing] inv_gives_up [OF _ lets_go_dispose_pairing]
  inv_gives_up [OF _ lets_go_dispose_connection] inv_gives_up [OF _ lets_go_deny_connection]
  inv_gives_up [OF _ lets_go_dispose_established] inv_gives_up [OF _ lets_go_retire] inv_gives_up [OF _ lets_go_emit]
  inv_gives_up [OF _ lets_go_send] inv_gives_up [OF _ lets_go_control]

section \<open>Losing the socket\<close>

lemma empty_views:
  assumes "tidy s" and "\<And>c. pairing_at c s = None" "\<And>c. connection_at c s = None" "\<And>c. established_at c s = None"
  shows "bw_clients s = []"
proof (cases "bw_clients s")
  case (Cons x xs)
  then have "map_of (bw_clients s) (fst x) = Some (snd x)" by simp
  moreover from this have "holds_nothing (snd x)"
    using assms(2-4) [of "fst x"] by (simp add: holds_nothing_def pairing_at_def connection_at_def established_at_def)
  ultimately have "idle_at (fst x) s" by (simp add: idle_at_def)
  with assms(1) show ?thesis by (simp add: tidy_but_def)
qed simp

lemma dispose_client_views:
  "pairing_at k (dispose_client now k s) = None" "connection_at k (dispose_client now k s) = None"
  "established_at k (dispose_client now k s) = None"
  by (simp_all add: pairing_at_def connection_at_def established_at_def dispose_client_gone)

lemma part_of_None: "part_of f g \<Longrightarrow> g x = None \<Longrightarrow> f x = None"
  by (metis part_of_def)

lemma fold_dispose_views:
  assumes "c \<in> set cs \<or> pairing_at c s = None \<and> connection_at c s = None \<and> established_at c s = None"
  shows "pairing_at c (fold (dispose_client now) cs s) = None \<and> connection_at c (fold (dispose_client now) cs s) = None \<and>
    established_at c (fold (dispose_client now) cs s) = None"
  using assms
proof (induction cs arbitrary: s)
  case (Cons k cs)
  note p = lets_go_parts(1-3) [OF lets_go_dispose_client [where s = s and now = now and k = k]]
  have "c \<in> set cs \<or> pairing_at c (dispose_client now k s) = None \<and> connection_at c (dispose_client now k s) = None \<and>
      established_at c (dispose_client now k s) = None"
    using Cons.prems dispose_client_views [where now = now and k = k and s = s] part_of_None [OF p(1)] part_of_None [OF p(2)] part_of_None [OF p(3)]
    by auto
  with Cons.IH show ?case by simp
qed simp

lemma lets_go_drop_parts:
  "lets_go s (fold (dispose_client now) cs s)" "lets_go s (fold (\<lambda>i. retire_invitation i st o') is s)"
  by (rule lets_go_fold, rule lets_go_dispose_client) (rule lets_go_fold, rule lets_go_retire)

lemma unlisted_views:
  "c \<notin> set (map fst (bw_clients s)) \<Longrightarrow> pairing_at c s = None \<and> connection_at c s = None \<and> established_at c s = None"
  using map_of_eq_None_iff [of "bw_clients s" c]
  by (simp add: pairing_at_def connection_at_def established_at_def del: map_of_eq_None_iff)

lemma all_disposed:
  assumes "tidy s"
  shows "bw_clients (fold (dispose_client now) (map fst (bw_clients s)) s) = []"
proof (rule empty_views)
  show "tidy (fold (dispose_client now) (map fst (bw_clients s)) s)"
    using lets_go_parts(7) [OF lets_go_drop_parts(1) assms] .
  fix c
  have "c \<in> set (map fst (bw_clients s)) \<or> pairing_at c s = None \<and> connection_at c s = None \<and> established_at c s = None"
    using unlisted_views by blast
  from fold_dispose_views [OF this, where now = now]
  show "pairing_at c (fold (dispose_client now) (map fst (bw_clients s)) s) = None"
    "connection_at c (fold (dispose_client now) (map fst (bw_clients s)) s) = None"
    "established_at c (fold (dispose_client now) (map fst (bw_clients s)) s) = None" by blast+
qed

lemma fold_retire_clients [simp]: "bw_clients (fold (\<lambda>i. retire_invitation i st o') is s) = bw_clients s"
  by (induction "is" arbitrary: s) simp_all

lemma drop_result:
  assumes "burrow_base s"
  shows "burrow_inv (drop_transient_state now s)" "empty_handed (drop_transient_state now s)"
proof -
  let ?s1 = "s\<lparr>bw_epoch := bw_epoch s + 1, bw_frames := [], bw_frame_chars := 0\<rparr>"
  let ?s2 = "fold (dispose_client now) (map fst (bw_clients ?s1)) ?s1"
  let ?s3 = "fold (\<lambda>i. retire_invitation i None None) (map fst (bw_invitations ?s2)) ?s2"
  have d: "drop_transient_state now s = arm_reaper ?s3" by (simp add: drop_transient_state_def Let_def)
  have b1: "burrow_base ?s1"
    by (rule base_change [OF assms])
      (use assms in \<open>auto simp: queue_ok_def epochs_ok_def burrow_base_def max_queued_relay_frames_def\<close>)
  have g: "lets_go ?s1 ?s2" "lets_go ?s2 ?s3" by (rule lets_go_drop_parts)+
  show "burrow_inv (drop_transient_state now s)"
    unfolding d by (intro inv_arm base_gives_up [OF _ lets_go_trans [OF g]] b1)
  have "bw_clients ?s2 = []" by (rule all_disposed) (use b1 in \<open>simp add: burrow_base_def\<close>)
  moreover have "waiting_epoch (bw_drain s) \<noteq> Some (bw_epoch s + 1)"
    using assms by (auto simp: burrow_base_def epochs_ok_def)
  moreover have "bw_frames ?s3 = []" "bw_epoch ?s3 = bw_epoch s + 1" "bw_drain ?s3 = bw_drain s"
    unfolding lets_go_core [OF g(2)] lets_go_core [OF g(1)] by simp_all
  ultimately show "empty_handed (drop_transient_state now s)"
    unfolding d empty_handed_def by (simp del: One_nat_def add: Suc_eq_plus1)
qed

lemma empty_handed_cong:
  "bw_clients t = bw_clients s \<Longrightarrow> bw_frames t = bw_frames s \<Longrightarrow> bw_drain t = bw_drain s \<Longrightarrow> bw_epoch t = bw_epoch s \<Longrightarrow>
    empty_handed t = empty_handed s"
  by (simp add: empty_handed_def)

lemma inv_cong:
  assumes "bw_clients t = bw_clients s" "bw_invitations t = bw_invitations s" "bw_sessions t = bw_sessions s"
    "bw_next t = bw_next s" "bw_frames t = bw_frames s" "bw_frame_chars t = bw_frame_chars s"
    "waiting_epoch (bw_drain t) = waiting_epoch (bw_drain s)" "bw_epoch t = bw_epoch s" "bw_reaper t = bw_reaper s"
  shows "burrow_inv s \<Longrightarrow> burrow_inv t"
  unfolding burrow_inv_def using base_cong [OF assms(1-8)] covered_cong [OF assms(1,2,9)] by blast

lemma on_close_result:
  assumes "burrow_base s"
  shows "burrow_inv (on_close env now code s)" "empty_handed (on_close env now code s)"
proof -
  note d = drop_result [OF assms, where now = now]
  show "burrow_inv (on_close env now code s)"
    by (rule inv_cong [OF _ _ _ _ _ _ _ _ _ d(1)]) (simp_all add: on_close_def Let_def)
  show "empty_handed (on_close env now code s)"
    using d(2) by (simp add: on_close_def Let_def empty_handed_def)
qed

section \<open>Taking on\<close>

lemma hashes_new: "hashes (s\<lparr>bw_sessions := (bw_sessions s)(n := Some x)\<rparr>) = (hashes s)(n := Some (ts_handshake_hash x))"
  by (auto simp: hashes_def fun_eq_iff)

text \<open>A state in which one entry changed and perhaps a session was numbered.\<close>

definition with_session :: "transport_session \<Rightarrow> 'k burrow \<Rightarrow> 'k burrow" where
  "with_session x s = s\<lparr>bw_next := bw_next s + 1, bw_sessions := (bw_sessions s)(bw_next s := Some x)\<rparr>"

lemma with_session_simps [simp]:
  "bw_clients (with_session x s) = bw_clients s" "bw_invitations (with_session x s) = bw_invitations s"
  "bw_frames (with_session x s) = bw_frames s" "bw_frame_chars (with_session x s) = bw_frame_chars s"
  "bw_drain (with_session x s) = bw_drain s" "bw_epoch (with_session x s) = bw_epoch s"
  "bw_reaper (with_session x s) = bw_reaper s" "bw_next (with_session x s) = bw_next s + 1"
  "bw_socket (with_session x s) = bw_socket s"
  by (simp_all add: with_session_def)

lemmas with_session_at [simp] = at_cong [OF with_session_simps(1)]

lemma transcript_with_session:
  "transcript_of (with_session x s) r = (if r = bw_next s then Some (to_base64_url (ts_handshake_hash x)) else transcript_of s r)"
  by (simp add: transcript_of_def hashes_def with_session_def)

lemma numbered_transcripts:
  assumes "numbered s"
  shows "pairing_at c s = Some p \<Longrightarrow> transcript_of s (pn_ref p) = Some (pn_hash p) \<and> pn_ref p \<noteq> bw_next s"
    "connection_at c s = Some q \<Longrightarrow> transcript_of s (cn_ref q) = Some (cn_hash q) \<and> cn_ref q \<noteq> bw_next s"
    "established_at c s = Some e \<Longrightarrow> transcript_of s (es_ref e) \<noteq> None \<and> es_ref e \<noteq> bw_next s"
    "bw_next s \<le> r \<Longrightarrow> transcript_of s r = None"
  using assms unfolding numbered_def by fastforce+

lemma base_with_session:
  assumes "burrow_base s"
  shows "burrow_base (with_session x s)"
proof -
  have n: "numbered s" using assms by (simp add: burrow_base_def)
  have "numbered (with_session x s)"
    unfolding numbered_def transcript_with_session with_session_simps with_session_at
    using numbered_transcripts [OF n] by (auto dest: Suc_leD)
  moreover have "tidy (with_session x s)"
    using assms tidy_but_cong [of "with_session x s" s "{}"] by (simp add: burrow_base_def)
  ultimately show ?thesis using assms
    by (simp add: burrow_base_def bounded_def queue_ok_def epochs_ok_def one_session_per_key_def pairings_def
        connections_def sessions_def)
qed

lemma set_client_transcript [simp]: "transcript_of (set_client k f s) = transcript_of s"
  by (simp add: transcript_of_def fun_eq_iff)

lemma tidy_set_client_full: "tidy s \<Longrightarrow> \<not> holds_nothing (f (client_state_of k s)) \<Longrightarrow> tidy (set_client k f s)"
  using tidy_set_client_held [of "{}" s f k] by simp

lemma base_set_pairing_to:
  assumes base: "burrow_base s" and room: "k \<in> pairings s \<or> card (pairings s) < max_pending_pairings"
    and p: "transcript_of s (pn_ref p) = Some (pn_hash p)"
  shows "burrow_base (set_client k (\<lambda>st. st\<lparr>cl_pairing := Some p\<rparr>) s)"
proof -
  let ?t = "set_client k (\<lambda>st. st\<lparr>cl_pairing := Some p\<rparr>) s"
  have at: "pairing_at c ?t = (if c = k then Some p else pairing_at c s)" "connection_at c ?t = connection_at c s"
    "established_at c ?t = established_at c s" for c
    by (auto simp: set_client_at state_of_fields)
  have "pairings ?t = insert k (pairings s)" "connections ?t = connections s" "sessions ?t = sessions s"
    by (auto simp: pairings_def connections_def sessions_def dom_def at)
  then have "bounded ?t" using base room by (auto simp: burrow_base_def bounded_def insert_absorb card_insert_if)
  moreover have "numbered ?t" using base p by (simp add: numbered_def at burrow_base_def)
  moreover have "tidy ?t" using base by (intro tidy_set_client_full) (simp_all add: burrow_base_def holds_nothing_def)
  ultimately show ?thesis using base
    by (simp add: burrow_base_def one_session_per_key_def at queue_ok_def epochs_ok_def)
qed

lemma base_set_connection_to:
  assumes base: "burrow_base s" and room: "k \<in> connections s \<or> card (connections s) < max_pending_connection_handshakes"
    and p: "transcript_of s (cn_ref p) = Some (cn_hash p)"
  shows "burrow_base (set_client k (\<lambda>st. st\<lparr>cl_connection := Some p\<rparr>) s)"
proof -
  let ?t = "set_client k (\<lambda>st. st\<lparr>cl_connection := Some p\<rparr>) s"
  have at: "connection_at c ?t = (if c = k then Some p else connection_at c s)" "pairing_at c ?t = pairing_at c s"
    "established_at c ?t = established_at c s" for c
    by (auto simp: set_client_at state_of_fields)
  have "connections ?t = insert k (connections s)" "pairings ?t = pairings s" "sessions ?t = sessions s"
    by (auto simp: pairings_def connections_def sessions_def dom_def at)
  then have "bounded ?t" using base room by (auto simp: burrow_base_def bounded_def insert_absorb card_insert_if)
  moreover have "numbered ?t" using base p by (simp add: numbered_def at burrow_base_def)
  moreover have "tidy ?t" using base by (intro tidy_set_client_full) (simp_all add: burrow_base_def holds_nothing_def)
  ultimately show ?thesis using base
    by (simp add: burrow_base_def one_session_per_key_def at queue_ok_def epochs_ok_def)
qed

text \<open>A change of a pending pairing that leaves its session, transcript and deadline.\<close>

definition harmless :: "(pending_pairing \<Rightarrow> pending_pairing) \<Rightarrow> bool" where
  "harmless f \<longleftrightarrow> (\<forall>p. pn_ref (f p) = pn_ref p \<and> pn_hash (f p) = pn_hash p \<and> pn_expires (f p) = pn_expires p)"

lemma harmless_updates [simp]:
  "harmless (\<lambda>q. q\<lparr>pn_attempted := b\<rparr>)" "harmless (\<lambda>q. q\<lparr>pn_committing := b\<rparr>)" "harmless (\<lambda>q. q\<lparr>pn_approval := a\<rparr>)"
  by (simp_all add: harmless_def)

lemma inv_set_pairing:
  assumes inv: "burrow_inv s" and f: "harmless f" and k: "pairing_at k s \<noteq> None"
  shows "burrow_inv (set_pairing k f s)"
proof -
  obtain p where p: "pairing_at k s = Some p" using k by blast
  let ?t = "set_client k (\<lambda>st. st\<lparr>cl_pairing := Some (f p)\<rparr>) s"
  have n: "transcript_of s (pn_ref p) = Some (pn_hash p)"
    using inv p by (simp add: inv_parts numbered_def)
  have t: "set_pairing k f s = ?t"
    using p by (simp add: set_pairing_def set_client_def state_of_fields)
  have "burrow_base ?t"
    using inv f n p by (intro base_set_pairing_to) (auto simp: burrow_inv_def harmless_def pairings_def)
  moreover have at: "pairing_at c ?t = (if c = k then Some (f p) else pairing_at c s)" "connection_at c ?t = connection_at c s"
    "established_at c ?t = established_at c s" for c
    by (auto simp: set_client_at state_of_fields)
  have "covered ?t"
    using inv p f by (simp add: burrow_inv_def covered_def at armed_by_def harmless_def)
  ultimately show ?thesis by (simp add: t burrow_inv_def)
qed

end
