(* ===== verification/Burrow_Steps.thy ===== *)
theory Burrow_Steps
  imports Burrow_Invariant
begin

text \<open>
  Every event of the Burrow's runtime ends, keeps the invariant and leaves nothing held without a socket: the
  eviction loop of the caps, minting, both ceremonies, the local decision, authorized sessions, and the
  interpretation of the event system.
\<close>

section \<open>The eviction loop\<close>

lemma oldest_of_spec:
  "oldest_of age cs n best = (m, best') \<Longrightarrow> m = n + length (filter (\<lambda>(c, st). age st \<noteq> None) cs) \<and>
     (case best' of None \<Rightarrow> best = None \<and> filter (\<lambda>(c, st). age st \<noteq> None) cs = []
        | Some (c, t) \<Rightarrow> best = Some (c, t) \<or> (\<exists>st. (c, st) \<in> set cs \<and> age st = Some t))"
proof (induction age cs n best arbitrary: m best' rule: oldest_of.induct)
  case (2 age client st rest n best)
  show ?case
  proof (cases "age st")
    case None
    with 2 show ?thesis by (fastforce split: option.splits)
  next
    case (Some t)
    let ?b = "case best of None \<Rightarrow> Some (client, t) | Some (c, u) \<Rightarrow> if t < u then Some (client, t) else best"
    have "oldest_of age rest (n + 1) ?b = (m, best')" using 2(3) Some by simp
    from 2(2) [OF Some this] show ?thesis
      using Some by (cases best'; cases best) (auto split: if_splits prod.splits)
  qed
qed (auto split: option.splits)

lemma filter_length_card:
  "distinct (map fst cs) \<Longrightarrow> length (filter P cs) = card {c. \<exists>st. map_of cs c = Some st \<and> P (c, st)}"
proof -
  assume d: "distinct (map fst cs)"
  then have "distinct (map fst (filter P cs))" by (simp add: distinct_map_filter)
  then have "length (filter P cs) = card (fst ` set (filter P cs))" using distinct_card by fastforce
  also have "fst ` set (filter P cs) = {c. \<exists>st. map_of cs c = Some st \<and> P (c, st)}"
    using d by (force simp: map_of_eq_Some_iff)
  finally show ?thesis .
qed

locale evictable =
  fixes part :: "client_state \<Rightarrow> 'p option"
    and age_of :: "'p \<Rightarrow> int"
    and evict :: "js_text \<Rightarrow> 'k burrow \<Rightarrow> 'k burrow"
    and cap :: nat
  assumes gives_up: "lets_go s (evict c s)"
    and keeps_reaper: "bw_reaper (evict c s) = bw_reaper s"
    and evicted: "Option.bind (map_of (bw_clients (evict c s)) c) part = None"
    and shrinks: "part_of (\<lambda>d. Option.bind (map_of (bw_clients (evict c s)) d) part) (\<lambda>d. Option.bind (map_of (bw_clients s) d) part)"
    and cap_positive: "0 < cap"
begin

definition holders :: "'k burrow \<Rightarrow> js_text set" where
  "holders s = dom (\<lambda>c. Option.bind (map_of (bw_clients s) c) part)"

lemma finite_holders: "finite (holders s)"
  by (rule finite_subset [OF _ finite_dom_map_of [of "bw_clients s"]]) (auto simp: holders_def bind_eq_Some_conv)

lemma walk:
  assumes "tidy s" and "oldest_of (\<lambda>st. map_option age_of (part st)) (bw_clients s) 0 None = (n, best)"
  shows "n = card (holders s)" "best = None \<Longrightarrow> holders s = {}" "best = Some (c, t) \<Longrightarrow> c \<in> holders s"
proof -
  let ?held = "\<lambda>(c, st). map_option age_of (part st) \<noteq> None"
  have d: "distinct (map fst (bw_clients s))" using assms(1) by (simp add: tidy_but_def)
  have h: "holders s = {c. \<exists>st. map_of (bw_clients s) c = Some st \<and> ?held (c, st)}"
    by (auto simp: holders_def bind_eq_Some_conv)
  note w = oldest_of_spec [OF assms(2)]
  show "n = card (holders s)" using w filter_length_card [OF d, of ?held] by (simp add: h)
  show "holders s = {}" if "best = None"
  proof -
    have "filter ?held (bw_clients s) = []" using w that by simp
    then have "card (holders s) = 0" using filter_length_card [OF d, of ?held] unfolding h by simp
    then show ?thesis using finite_holders by simp
  qed
  show "c \<in> holders s" if "best = Some (c, t)"
    using w that d by (auto simp: h)
qed

lemma evict_shrinks: "c \<in> holders s \<Longrightarrow> card (holders (evict c s)) < card (holders s)"
proof (rule psubset_card_mono [OF finite_holders])
  assume c: "c \<in> holders s"
  have "holders (evict c s) \<subseteq> holders s" unfolding holders_def by (rule part_of_dom [OF shrinks])
  moreover have "c \<notin> holders (evict c s)" by (simp add: holders_def evicted domIff)
  ultimately show "holders (evict c s) \<subset> holders s" using c by blast
qed

lemma loop_ends:
  "tidy s \<Longrightarrow> \<exists>t. evict_oldest_if_full (\<lambda>st. map_option age_of (part st)) cap evict s = Some t \<and> lets_go s t \<and>
     bw_reaper t = bw_reaper s \<and> card (holders t) < cap \<and> holders t \<subseteq> holders s"
proof (induction "card (holders s)" arbitrary: s rule: less_induct)
  case less
  let ?age = "\<lambda>st. map_option age_of (part st)"
  obtain n best where w: "oldest_of ?age (bw_clients s) 0 None = (n, best)" by fastforce
  note walked = walk [OF less(2) w]
  show ?case
  proof (cases best)
    case None
    then have "evict_oldest_if_full ?age cap evict s = Some s"
      using w by (subst evict_oldest_if_full.simps) simp
    then show ?thesis using walked(2) [OF None] cap_positive by auto
  next
    case (Some b)
    obtain c t where b: "best = Some (c, t)" using Some by (cases b) auto
    show ?thesis
    proof (cases "n < cap")
      case True
      then have "evict_oldest_if_full ?age cap evict s = Some s"
        using w b by (subst evict_oldest_if_full.simps) simp
      then show ?thesis using walked(1) True by auto
    next
      case False
      then have e: "evict_oldest_if_full ?age cap evict s = evict_oldest_if_full ?age cap evict (evict c s)"
        using w b by (subst evict_oldest_if_full.simps) simp
      have c: "c \<in> holders s" by (rule walked(3) [OF b])
      have "tidy (evict c s)" using lets_go_parts(7) [OF gives_up less(2)] .
      from less(1) [OF evict_shrinks [OF c] this] obtain u where
        u: "evict_oldest_if_full ?age cap evict (evict c s) = Some u" "lets_go (evict c s) u"
          "bw_reaper u = bw_reaper (evict c s)" "card (holders u) < cap" "holders u \<subseteq> holders (evict c s)" by blast
      have "holders (evict c s) \<subseteq> holders s" unfolding holders_def by (rule part_of_dom [OF shrinks])
      with u lets_go_trans [OF gives_up u(2)] show ?thesis by (auto simp: e keeps_reaper)
    qed
  qed
qed

end

lemma at_bind:
  "Option.bind (map_of (bw_clients s) c) cl_pairing = pairing_at c s"
  "Option.bind (map_of (bw_clients s) c) cl_connection = connection_at c s"
  by (simp_all add: pairing_at_def connection_at_def)

lemma finish_pairing_part: "part_of (\<lambda>d. pairing_at d (finish_pairing env c x s)) (\<lambda>d. pairing_at d s)"
  by (rule lets_go_parts(1) [OF lets_go_finish_pairing])

interpretation pairing_queue: evictable cl_pairing pn_requested "\<lambda>client. finish_pairing env client Superseded" max_pending_pairings
  for env :: "('k, 'p) burrow_env"
  by unfold_locales
    (auto simp: at_bind finish_pairing_gone max_pending_pairings_def intro: lets_go_finish_pairing finish_pairing_part)

interpretation connection_queue: evictable cl_connection cn_expires "dispose_connection now" max_pending_connection_handshakes
  for now :: int
  by unfold_locales
    (auto simp: at_bind dispose_connection_at max_pending_connection_handshakes_def part_of_def
      intro: lets_go_dispose_connection)

lemma pairing_eviction_ends:
  "tidy s \<Longrightarrow> \<exists>t. evict_oldest_pairing_if_full env s = Some t \<and> lets_go s t \<and> bw_reaper t = bw_reaper s \<and>
     card (pairings t) < max_pending_pairings"
  using pairing_queue.loop_ends [of s env]
  unfolding evict_oldest_pairing_if_full_def pairing_queue.holders_def at_bind pairings_def [symmetric] by blast

lemma connection_eviction_ends:
  "tidy s \<Longrightarrow> \<exists>t. evict_oldest_connection_if_full now s = Some t \<and> lets_go s t \<and> bw_reaper t = bw_reaper s \<and>
     card (connections t) < max_pending_connection_handshakes"
  using connection_queue.loop_ends [of s now]
  unfolding evict_oldest_connection_if_full_def connection_queue.holders_def at_bind connections_def [symmetric] by blast

section \<open>What an event carries over\<close>

definition carries :: "'k burrow \<Rightarrow> 'k burrow \<Rightarrow> bool" where
  "carries s t \<longleftrightarrow> burrow_inv t \<and> bw_socket t = bw_socket s \<and> (empty_handed s \<longrightarrow> empty_handed t)"

lemma carries_refl: "burrow_inv s \<Longrightarrow> carries s s"
  by (simp add: carries_def)

lemma carries_trans [trans]: "carries s t \<Longrightarrow> carries t u \<Longrightarrow> carries s u"
  by (auto simp: carries_def)

lemma carries_inv: "carries s t \<Longrightarrow> burrow_inv t"
  by (simp add: carries_def)

lemma empty_gives_up: "tidy s \<Longrightarrow> lets_go s t \<Longrightarrow> empty_handed s \<Longrightarrow> empty_handed t"
proof -
  assume s: "tidy s" and g: "lets_go s t" and e: "empty_handed s"
  note p = lets_go_parts [OF g]
  have none: "pairing_at c s = None" "connection_at c s = None" "established_at c s = None" for c
    using e by (simp_all add: empty_handed_def pairing_at_def connection_at_def established_at_def)
  have "bw_clients t = []"
    using p(7) [OF s] part_of_None [OF p(1)] part_of_None [OF p(2)] part_of_None [OF p(3)] none
    by (intro empty_views) blast+
  then show "empty_handed t" using e by (simp add: empty_handed_def lets_go_core [OF g])
qed

lemma inv_tidy: "burrow_inv s \<Longrightarrow> tidy s"
  by (simp add: inv_parts)

lemma carries_gives_up: "burrow_inv s \<Longrightarrow> lets_go s t \<Longrightarrow> bw_reaper t = bw_reaper s \<Longrightarrow> carries s t"
  unfolding carries_def using inv_gives_up empty_gives_up inv_tidy lets_go_core(11) by blast

lemma carries_reap: "burrow_inv s \<Longrightarrow> carries s (reap env now s)"
  unfolding carries_def
  using inv_reap empty_gives_up [OF _ lets_go_reap] inv_tidy lets_go_core(11) [OF lets_go_reap] by (auto simp: inv_parts)

lemma carries_arm: "burrow_inv s \<Longrightarrow> carries s (arm_reaper s)"
proof -
  assume s: "burrow_inv s"
  have "burrow_inv (arm_reaper s)" using s by (intro inv_arm) (simp add: burrow_inv_def)
  then show ?thesis using empty_gives_up [OF inv_tidy [OF s] lets_go_arm] by (simp add: carries_def)
qed

lemma carries_cong:
  assumes "burrow_inv s" "bw_clients t = bw_clients s" "bw_invitations t = bw_invitations s" "bw_sessions t = bw_sessions s"
    "bw_next t = bw_next s" "bw_frames t = bw_frames s" "bw_frame_chars t = bw_frame_chars s"
    "waiting_epoch (bw_drain t) = waiting_epoch (bw_drain s)" "bw_epoch t = bw_epoch s" "bw_reaper t = bw_reaper s"
    "bw_socket t = bw_socket s"
  shows "carries s t"
  unfolding carries_def using inv_cong [OF assms(2-10,1)] assms by (simp add: empty_handed_def)

lemma not_waiting:
  assumes s: "burrow_inv s" and d: "waiting_epoch d = None"
  shows "carries s (s\<lparr>bw_drain := d\<rparr>)"
proof -
  have q: "queue_ok (s\<lparr>bw_drain := d\<rparr>)" "epochs_ok (s\<lparr>bw_drain := d\<rparr>)"
    using s d by (simp_all add: inv_parts queue_ok_def epochs_ok_def)
  have "burrow_base (s\<lparr>bw_drain := d\<rparr>)"
    by (rule base_change [OF _ _ _ _ _ q]) (use s in \<open>simp_all add: burrow_inv_def\<close>)
  moreover have "covered (s\<lparr>bw_drain := d\<rparr>)" using s covered_cong [of "s\<lparr>bw_drain := d\<rparr>" s] by (simp add: burrow_inv_def)
  ultimately show ?thesis using d by (simp add: carries_def burrow_inv_def empty_handed_def)
qed

lemmas carries_releases = carries_gives_up [OF _ lets_go_finish_pairing reaper_kept(1)]
  carries_gives_up [OF _ lets_go_dispose_pairing dispose_pairing_simps(4)]
  carries_gives_up [OF _ lets_go_dispose_connection dispose_connection_simps(3)]
  carries_gives_up [OF _ lets_go_deny_connection reaper_kept(2)]
  carries_gives_up [OF _ lets_go_dispose_established dispose_established_simps(3)]
  carries_gives_up [OF _ lets_go_emit emit_simps(6)]
  carries_gives_up [OF _ lets_go_send send_frame_simps(6)]
  carries_gives_up [OF _ lets_go_control send_control_frame_simps(5)]

text \<open>While a handshake of the present epoch is under way the Burrow is not empty-handed, so only the invariant
  and the socket matter.\<close>

definition survives :: "'k burrow \<Rightarrow> 'k burrow \<Rightarrow> bool" where
  "survives s t \<longleftrightarrow> burrow_inv t \<and> bw_socket t = bw_socket s"

lemma carries_survives: "carries s t \<Longrightarrow> survives s t"
  by (simp add: carries_def survives_def)

lemma survives_trans: "survives s t \<Longrightarrow> survives t u \<Longrightarrow> survives s u"
  by (simp add: survives_def)

section \<open>Invitations and the socket\<close>

lemma evict_invitations_gives_up: "lets_go s (evict_invitations xs s)"
  by (induction xs s rule: evict_invitations.induct) (auto intro: lets_go_trans [OF lets_go_retire])

lemma evict_invitations_room:
  "bw_invitations s = xs \<Longrightarrow> distinct (map fst xs) \<Longrightarrow> length (bw_invitations (evict_invitations xs s)) < max_tokens_per_burrow"
proof (induction xs s rule: evict_invitations.induct)
  case (2 invite held rest s)
  have "bw_invitations (retire_invitation invite None None s) = rest"
    using 2(2,3) by (simp add: retire_invitation_def delete_id)
  then show ?case using 2 by simp
qed (simp add: max_tokens_per_burrow_def)

lemma base_new_invitation:
  assumes "burrow_base s" "length (bw_invitations s) < max_tokens_per_burrow"
  shows "burrow_base (s\<lparr>bw_next := bw_next s + 1, bw_invitations := AList.update i h (bw_invitations s)\<rparr>)"
  by (rule base_grow [OF assms(1)])
    (use assms length_update_le [of i h "bw_invitations s"] in
      \<open>auto simp: burrow_base_def tidy_but_def idle_at_def distinct_update queue_ok_def epochs_ok_def\<close>)

lemma mint_carries: "burrow_inv s \<Longrightarrow> carries s (fst (finish_mint env now keys random call s))"
proof -
  assume s: "burrow_inv s"
  let ?s1 = "reap env now s" and ?s2 = "evict_invitations (bw_invitations (reap env now s)) (reap env now s)"
  have g: "lets_go s ?s2" by (rule lets_go_trans [OF lets_go_reap evict_invitations_gives_up])
  have base: "burrow_base ?s2" using s by (intro base_gives_up [OF _ g]) (simp add: burrow_inv_def)
  have r: "bw_reaper ?s2 = bw_reaper ?s1"
  proof -
    have "bw_reaper (evict_invitations xs u) = bw_reaper u" for xs and u :: "'a burrow"
      by (induction xs u rule: evict_invitations.induct) auto
    then show ?thesis .
  qed
  have one: "carries s ?s2"
    by (rule carries_trans [OF carries_reap [OF s] carries_gives_up [OF carries_inv [OF carries_reap [OF s]] evict_invitations_gives_up r]])
  have room: "length (bw_invitations ?s2) < max_tokens_per_burrow"
    using inv_tidy [OF carries_inv [OF carries_reap [OF s]]] by (intro evict_invitations_room) (auto simp: tidy_but_def)
  have two: "carries s (arm_reaper (?s2\<lparr>bw_next := bw_next ?s2 + 1, bw_invitations := AList.update i h (bw_invitations ?s2)\<rparr>))" for i h
    using one inv_arm [OF base_new_invitation [OF base room, of i h]] by (auto simp: carries_def empty_handed_def)
  show ?thesis
    using one two carries_refl [OF s]
    by (auto simp: finish_mint_def Let_def split: sum.splits)
qed

lemma connect_inv: "burrow_inv s \<Longrightarrow> burrow_inv (connect env s)"
  unfolding connect_def
proof (split if_split, intro conjI impI)
  let ?t = "s\<lparr>bw_status := Connecting, bw_socket := Some (bw_next s), bw_next := bw_next s + 1\<rparr>"
  assume s: "burrow_inv s"
  have "burrow_base ?t"
    by (rule base_grow [where s = s])
      (use s tidy_but_cong [of ?t s "{}"] in \<open>simp_all add: inv_parts bounded_def queue_ok_def epochs_ok_def\<close>)
  moreover have "covered ?t" using s covered_cong [of ?t s] by (simp add: burrow_inv_def)
  ultimately have "burrow_inv ?t" by (simp add: burrow_inv_def)
  then show "burrow_inv (emit (SocketMade (bw_next s) (be_socket_url env)) ?t)"
    by (rule inv_gives_up [OF _ lets_go_emit]) simp
qed

lemma connect_online: "offline_empty s \<Longrightarrow> offline_empty (connect env s)"
  by (simp add: connect_def offline_empty_def)

section \<open>Sessions in use\<close>

lemma lets_go_session:
  assumes "bw_sessions s r = Some x" "ts_handshake_hash x' = ts_handshake_hash x"
  shows "lets_go s (s\<lparr>bw_sessions := (bw_sessions s)(r := Some x')\<rparr>)"
proof -
  let ?t = "s\<lparr>bw_sessions := (bw_sessions s)(r := Some x')\<rparr>"
  have "pairing_at c ?t = pairing_at c s" "connection_at c ?t = connection_at c s" "established_at c ?t = established_at c s" for c
    by (rule at_cong; simp)+
  moreover have "tidy ?t = tidy s" by (rule tidy_but_cong) simp_all
  ultimately show ?thesis using hashes_update [OF assms] by (simp add: lets_go_def core_def)
qed

lemma receive_on_gives_up:
  assumes "receive_on env r frame s = (t, x)"
  shows "lets_go s t" "bw_reaper t = bw_reaper s" "bw_clients t = bw_clients s" "bw_challenges t = bw_challenges s"
proof -
  have "lets_go s t \<and> bw_reaper t = bw_reaper s \<and> bw_clients t = bw_clients s \<and> bw_challenges t = bw_challenges s"
  proof (cases "frame_bytes frame")
    case (Some ct)
    show ?thesis
    proof (cases "bw_sessions s r")
      case (Some u)
      obtain u' y where y: "receive (be_crypto env) (be_json env) ct u = (u', y)" by fastforce
      have "lets_go s (s\<lparr>bw_sessions := (bw_sessions s)(r := Some u')\<rparr>)"
        by (rule lets_go_session [OF Some keeps_hashD [OF keeps_hash_receive y]])
      then show ?thesis using assms \<open>frame_bytes frame = Some ct\<close> Some y by (auto simp: receive_on_def split: sum.splits)
    qed (use assms Some in \<open>auto simp: receive_on_def\<close>)
  qed (use assms in \<open>auto simp: receive_on_def\<close>)
  then show "lets_go s t" "bw_reaper t = bw_reaper s" "bw_clients t = bw_clients s" "bw_challenges t = bw_challenges s" by auto
qed

lemma carries_receive: "burrow_inv s \<Longrightarrow> receive_on env r frame s = (t, x) \<Longrightarrow> carries s t"
  using carries_gives_up receive_on_gives_up by blast

lemma send_app_gives_up: "lets_go s (send_app_message env client i r payload s)"
  "bw_reaper (send_app_message env client i r payload s) = bw_reaper s"
proof -
  have f: "lets_go u (send_app_frames client i cts u) \<and> bw_reaper (send_app_frames client i cts u) = bw_reaper u" for cts and u :: "'a burrow"
    by (induction cts arbitrary: u) (auto simp: send_app_frames_def send_e2e_def intro: lets_go_trans [OF lets_go_send])
  have "lets_go s (send_app_message env client i r payload s) \<and> bw_reaper (send_app_message env client i r payload s) = bw_reaper s"
  proof (cases "bw_sessions s r")
    case (Some x)
    obtain x' y where y: "send_app (be_crypto env) (be_json env) (utf8_encode (jc_stringify (be_json env) payload)) x = (x', y)" by fastforce
    have "lets_go s (s\<lparr>bw_sessions := (bw_sessions s)(r := Some x')\<rparr>)"
      by (rule lets_go_session [OF Some keeps_hashD [OF keeps_hash_sends(2) y]])
    note g = this
    show ?thesis
    proof (cases y)
      case (Inl e)
      then show ?thesis
        using g lets_go_trans [OF g lets_go_dispose_established] by (simp add: send_app_message_def Some y Let_def)
    next
      case (Inr cts)
      then show ?thesis using f lets_go_trans [OF g] by (simp add: send_app_message_def Some y Let_def)
    qed
  qed (simp add: send_app_message_def)
  then show "lets_go s (send_app_message env client i r payload s)"
    "bw_reaper (send_app_message env client i r payload s) = bw_reaper s" by auto
qed

lemma api_sends_gives_up: "lets_go s (api_sends env r payload s)" "bw_reaper (api_sends env r payload s) = bw_reaper s"
  using send_app_gives_up by (auto simp: api_sends_def split: option.splits)

lemma replies_give_up:
  "lets_go s (fold (api_sends env r) ps s)" "bw_reaper (fold (api_sends env r) ps s) = bw_reaper s"
  by (rule lets_go_fold, rule api_sends_gives_up) (induction ps arbitrary: s, auto simp: api_sends_gives_up)

lemma handle_messages_gives_up:
  "lets_go s (handle_messages env client r ms s) \<and> bw_reaper (handle_messages env client r ms s) = bw_reaper s"
proof (induction env client r ms s rule: handle_messages.induct)
  case (2 env client r message rest s)
  show ?case
  proof (cases "parse_message env message")
    case (Some payload)
    let ?s1 = "emit (ApiHandled r payload) s"
    let ?s2 = "fold (api_sends env r) (be_reply env (bw_out ?s1)) ?s1"
    have g: "lets_go s ?s2" by (rule lets_go_trans [OF lets_go_emit replies_give_up(1)])
    have r: "bw_reaper ?s2 = bw_reaper s" by (simp add: replies_give_up(2))
    show ?thesis
      using g r 2(2) [OF Some refl refl] lets_go_trans [OF g] by (auto simp: Some Let_def)
  qed (use 2 in simp)
qed simp

lemma inv_touch:
  assumes inv: "burrow_inv s" and e: "established_at k s = Some e"
  shows "burrow_inv (set_client k (\<lambda>st. st\<lparr>cl_established := map_option (\<lambda>x. x\<lparr>es_activity := now\<rparr>) (cl_established st)\<rparr>) s)"
proof -
  let ?t = "set_client k (\<lambda>st. st\<lparr>cl_established := map_option (\<lambda>x. x\<lparr>es_activity := now\<rparr>) (cl_established st)\<rparr>) s"
  have at: "pairing_at c ?t = pairing_at c s" "connection_at c ?t = connection_at c s"
    "established_at c ?t = (if c = k then Some (e\<lparr>es_activity := now\<rparr>) else established_at c s)" for c
    using e by (auto simp: set_client_at state_of_fields)
  have "sessions ?t = sessions s" "pairings ?t = pairings s" "connections ?t = connections s"
    using e by (auto simp: sessions_def pairings_def connections_def dom_def at)
  moreover have "tidy ?t" using inv e by (intro tidy_set_client_full inv_tidy) (simp_all add: holds_nothing_def state_of_fields)
  moreover have "one_session_per_key ?t" using inv e by (auto simp: inv_parts one_session_per_key_def at)
  moreover have "numbered ?t" using inv e by (simp add: inv_parts numbered_def at)
  moreover have "bw_reaper s \<noteq> None" using inv e by (auto simp: burrow_inv_def covered_def)
  then have "covered ?t" using inv by (simp add: burrow_inv_def covered_def at armed_by_def)
  ultimately show ?thesis using inv by (simp add: inv_parts bounded_def queue_ok_def epochs_ok_def)
qed

lemma not_empty_handed: "map_of (bw_clients s) k = Some st \<Longrightarrow> \<not> empty_handed s"
  by (auto simp: empty_handed_def)

lemma at_entry:
  "pairing_at k s = Some p \<Longrightarrow> \<not> empty_handed s" "connection_at k s = Some q \<Longrightarrow> \<not> empty_handed s"
  "established_at k s = Some e \<Longrightarrow> \<not> empty_handed s"
  by (auto simp: empty_handed_def pairing_at_def connection_at_def established_at_def)

lemma established_frame_carries:
  assumes inv: "burrow_inv s" and e: "established_at client s = Some e"
  shows "carries s (on_established_frame env now client e frame s)"
proof -
  obtain s1 x where r: "receive_on env (es_ref e) frame s = (s1, x)" by fastforce
  have c1: "carries s s1" by (rule carries_receive [OF inv r])
  have e1: "established_at client s1 = Some e" using e receive_on_gives_up(3) [OF r] at_cong(3) by metis
  let ?s2 = "set_client client (\<lambda>st. st\<lparr>cl_established := map_option (\<lambda>x. x\<lparr>es_activity := now\<rparr>) (cl_established st)\<rparr>) s1"
  have "carries s1 ?s2"
    using inv_touch [OF carries_inv [OF c1] e1] at_entry(3) [OF e1] by (simp add: carries_def)
  then have c2: "carries s ?s2" by (rule carries_trans [OF c1])
  have "carries s (handle_messages env client (es_ref e) ms ?s2)" for ms
    by (rule carries_trans [OF c2 carries_gives_up [OF carries_inv [OF c2]]]) (simp_all add: handle_messages_gives_up)
  moreover have "carries s (dispose_established client s1)"
    by (rule carries_trans [OF c1 carries_releases(5) [OF carries_inv [OF c1]]])
  ultimately show ?thesis using c2 by (auto simp: on_established_frame_def r Let_def split: option.splits transport_receipt.splits)
qed

section \<open>Pairing\<close>

lemma base_reserve: "burrow_base s \<Longrightarrow> burrow_base (reserve_invitation r s)"
  by (rule base_grow [where s = s])
    (auto simp: reserve_invitation_def burrow_base_def tidy_but_def idle_at_def bounded_def queue_ok_def epochs_ok_def
      comp_def case_prod_beta' )

lemma reserve_simps [simp]:
  "bw_clients (reserve_invitation r s) = bw_clients s" "bw_socket (reserve_invitation r s) = bw_socket s"
  "bw_sessions (reserve_invitation r s) = bw_sessions s" "bw_next (reserve_invitation r s) = bw_next s"
  "bw_acl (reserve_invitation r s) = bw_acl s" "bw_drain (reserve_invitation r s) = bw_drain s"
  "bw_jobs (reserve_invitation r s) = bw_jobs s" "bw_commit (reserve_invitation r s) = bw_commit s"
  by (simp_all add: reserve_invitation_def)

lemmas reserve_at [simp] = at_cong [OF reserve_simps(1)]

lemma base_emit: "burrow_base s \<Longrightarrow> burrow_base (emit x s)"
  by (rule base_gives_up [OF _ lets_go_emit])

lemma lets_go_pairings: "lets_go s t \<Longrightarrow> pairings t \<subseteq> pairings s" "lets_go s t \<Longrightarrow> connections t \<subseteq> connections s"
  "lets_go s t \<Longrightarrow> sessions t \<subseteq> sessions s"
  unfolding pairings_def connections_def sessions_def by (rule part_of_dom, erule lets_go_parts)+

text \<open>The new entry of a finished handshake, its timer and its answer.\<close>

lemma taken_on:
  assumes base: "burrow_base (set_client k f (with_session x u))" and online: "bw_socket u = bw_socket s"
  shows "survives s (send_e2e k b i step ct (arm_reaper (set_client k f (with_session x u))))"
proof -
  have "burrow_inv (send_e2e k b i step ct (arm_reaper (set_client k f (with_session x u))))"
    unfolding send_e2e_def by (rule inv_gives_up [OF inv_arm [OF base] lets_go_send]) simp
  then show ?thesis using online by (simp add: survives_def send_e2e_def)
qed

lemma pairing_answered_survives:
  assumes inv: "burrow_inv s"
  shows "\<exists>t. pairing_answered env now fresh random held frame epoch s = Some t \<and> survives s t \<and>
    (epoch \<noteq> bw_epoch s \<longrightarrow> t = s)"
proof (cases "Option.bind (read_init env (pairing_invitation_prologue (hi_invitation held)) (hi_key held) frame) (answer_init env fresh [])")
  case None
  then show ?thesis using carries_survives [OF carries_refl [OF inv]] by (simp add: pairing_answered_def)
next
  case (Some a)
  obtain message2 static x where a: "a = (message2, static, x)" by (cases a)
  let ?stale = "bw_epoch s \<noteq> epoch \<or> map_option hi_ref (map_of (bw_invitations s) (frame_id frame)) \<noteq> Some (hi_ref held)"
  show ?thesis
  proof (cases ?stale)
    case True
    then show ?thesis using carries_survives [OF carries_refl [OF inv]] by (simp add: pairing_answered_def Some a)
  next
    case False
    let ?k = "frame_client frame"
    let ?s0 = "if pairing_at ?k s = None then s else finish_pairing env ?k Superseded s"
    have g0: "lets_go s ?s0" by (simp add: lets_go_finish_pairing)
    obtain s1 where e: "evict_oldest_pairing_if_full env ?s0 = Some s1" "lets_go ?s0 s1" "card (pairings s1) < max_pending_pairings"
      using pairing_eviction_ends [of ?s0 env] lets_go_parts(7) [OF g0 inv_tidy [OF inv]] by blast
    have base1: "burrow_base s1"
      using inv by (intro base_gives_up [OF _ lets_go_trans [OF g0 e(2)]]) (simp add: burrow_inv_def)
    let ?u = "emit (InvitationChanged (pi_invite (hi_invitation held)) Reserved None) (reserve_invitation (hi_ref held) s1)"
    let ?p = "\<lparr>pn_ref = bw_next ?u, pn_invite = pi_invite (hi_invitation held), pn_id = to_base64_url random,
       pn_hash = to_base64_url (ts_handshake_hash x), pn_static = static, pn_requested = now, pn_expires = hi_expires held,
       pn_committing = False, pn_approval = None, pn_attempted = False\<rparr>"
    have "pairings (with_session x ?u) = pairings s1" by (simp add: pairings_def)
    then have "burrow_base (set_client ?k (\<lambda>st. st\<lparr>cl_pairing := Some ?p\<rparr>) (with_session x ?u))"
      by (intro base_set_pairing_to base_with_session base_emit base_reserve base1)
        (simp_all add: e(3) transcript_with_session)
    moreover have "bw_socket ?u = bw_socket s"
      using lets_go_core(11) [OF lets_go_trans [OF g0 e(2)]] by simp
    ultimately have "survives s (send_e2e ?k True (frame_id frame) (js ''response'') message2
        (arm_reaper (set_client ?k (\<lambda>st. st\<lparr>cl_pairing := Some ?p\<rparr>) (with_session x ?u))))"
      by (intro taken_on)
    then show ?thesis using False by (simp add: pairing_answered_def Some a e(1) with_session_def Let_def)
  qed
qed

lemma pairing_proved_carries: "burrow_inv s \<Longrightarrow> carries s (pairing_proved env client p v s)"
proof -
  assume inv: "burrow_inv s"
  have "carries s (emit x (set_client client (\<lambda>st. st\<lparr>cl_pairing := map_option (\<lambda>q. q\<lparr>pn_approval := Some g\<rparr>) (cl_pairing st)\<rparr>) s))"
    if "pairing_is client (pn_ref p) s" for g x
  proof -
    have k: "pairing_at client s \<noteq> None" using that by (auto simp: pairing_is_def)
    have "burrow_inv (set_pairing client (\<lambda>q. q\<lparr>pn_approval := Some g\<rparr>) s)" by (rule inv_set_pairing [OF inv _ k]) simp
    then have "burrow_inv (emit x (set_pairing client (\<lambda>q. q\<lparr>pn_approval := Some g\<rparr>) s))"
      by (rule inv_gives_up [OF _ lets_go_emit]) simp
    then show ?thesis using k at_entry(1) by (fastforce simp: carries_def set_pairing_def)
  qed
  then show ?thesis using carries_refl [OF inv] carries_releases(1) [OF inv]
    by (auto simp: pairing_proved_def Let_def split: sum.splits)
qed

lemma set_pairing_carries: "burrow_inv s \<Longrightarrow> harmless f \<Longrightarrow> pairing_at k s \<noteq> None \<Longrightarrow> carries s (set_pairing k f s)"
  using inv_set_pairing at_entry(1) by (fastforce simp: carries_def set_pairing_def)

lemma approve_carries: "burrow_inv s \<Longrightarrow> carries s (approve_pairing env now client pairing_id code s)"
proof -
  assume inv: "burrow_inv s"
  show ?thesis
  proof (cases "pairing_at client s")
    case (Some p)
    let ?s1 = "set_pairing client (\<lambda>q. q\<lparr>pn_attempted := True\<rparr>) s"
    have c1: "carries s ?s1" by (rule set_pairing_carries [OF inv]) (simp_all add: Some)
    have f: "carries s (finish_pairing env client d ?s1)" for d
      by (rule carries_trans [OF c1 carries_releases(1) [OF carries_inv [OF c1]]])
    have j: "carries s (?s1\<lparr>bw_jobs := js\<rparr>)" for js
      by (rule carries_trans [OF c1 carries_cong [OF carries_inv [OF c1]]]) simp_all
    show ?thesis using carries_refl [OF inv] f j
      by (simp add: approve_pairing_def Some Let_def split: option.splits)
  qed (simp add: approve_pairing_def carries_refl [OF inv])
qed

lemma deny_carries: "burrow_inv s \<Longrightarrow> carries s (deny_pairing env now client pairing_id s)"
  unfolding deny_pairing_def
  by (auto split: option.splits intro: carries_refl carries_trans [OF carries_releases(1) carries_reap] carries_inv [OF carries_releases(1)])

lemma save_failed_carries: "burrow_inv s \<Longrightarrow> carries s (save_failed env now job s)"
proof -
  assume inv: "burrow_inv s"
  have "carries s (reap env now (finish_pairing env (sj_client job) PairingBurrowError
      (set_pairing (sj_client job) (\<lambda>q. q\<lparr>pn_committing := False\<rparr>) s)))"
    if "pairing_is (sj_client job) (pn_ref (sj_pairing job)) s"
  proof -
    have c: "carries s (set_pairing (sj_client job) (\<lambda>q. q\<lparr>pn_committing := False\<rparr>) s)"
      by (rule set_pairing_carries [OF inv]) (use that in \<open>auto simp: pairing_is_def\<close>)
    note d = carries_trans [OF c carries_releases(1) [OF carries_inv [OF c]]]
    show ?thesis by (rule carries_trans [OF d carries_reap [OF carries_inv [OF d]]])
  qed
  then show ?thesis using carries_refl [OF inv] by (simp add: save_failed_def)
qed

lemma save_begin_carries: "burrow_inv s \<Longrightarrow> carries s (save_begin env now random s)"
proof -
  assume inv: "burrow_inv s"
  show ?thesis
  proof (cases "bw_commit s")
    case None
    show ?thesis
    proof (cases "bw_jobs s")
      case (Cons job rest)
      let ?s1 = "s\<lparr>bw_jobs := rest\<rparr>"
      have c1: "carries s ?s1" by (rule carries_cong [OF inv]) simp_all
      note i1 = carries_inv [OF c1]
      have f: "carries s (finish_pairing env k d ?s1)" for k d by (rule carries_trans [OF c1 carries_releases(1) [OF i1]])
      have g: "carries s (save_failed env now job ?s1)" by (rule carries_trans [OF c1 save_failed_carries [OF i1]])
      have "carries s (emit x ((set_pairing (sj_client job) (\<lambda>q. q\<lparr>pn_committing := True\<rparr>) ?s1)\<lparr>bw_commit := cm\<rparr>))"
        if "pairing_is (sj_client job) (pn_ref (sj_pairing job)) ?s1" for x cm
      proof -
        have "carries ?s1 (set_pairing (sj_client job) (\<lambda>q. q\<lparr>pn_committing := True\<rparr>) ?s1)"
          by (rule set_pairing_carries [OF i1]) (use that in \<open>auto simp: pairing_is_def\<close>)
        note c2 = carries_trans [OF c1 this]
        have c3: "carries s ((set_pairing (sj_client job) (\<lambda>q. q\<lparr>pn_committing := True\<rparr>) ?s1)\<lparr>bw_commit := cm\<rparr>)"
          by (rule carries_trans [OF c2 carries_cong [OF carries_inv [OF c2]]]) simp_all
        show ?thesis by (rule carries_trans [OF c3 carries_releases(6) [OF carries_inv [OF c3]]])
      qed
      then show ?thesis using c1 f g by (auto simp: save_begin_def None Cons Let_def split: sum.splits prod.splits)
    qed (simp add: save_begin_def None carries_refl [OF inv])
  qed (simp add: save_begin_def carries_refl [OF inv])
qed

lemma save_end_carries: "burrow_inv s \<Longrightarrow> carries s (save_end env now saved s)"
proof -
  assume inv: "burrow_inv s"
  show ?thesis
  proof (cases "bw_commit s")
    case (Some cm)
    let ?s1 = "s\<lparr>bw_commit := None\<rparr>" and ?s2 = "s\<lparr>bw_commit := None, bw_acl := cm_acl cm\<rparr>"
    have c1: "carries s ?s1" "carries s ?s2" by (rule carries_cong [OF inv]; simp)+
    have f: "carries s (save_failed env now job ?s1)" for job by (rule carries_trans [OF c1(1) save_failed_carries [OF carries_inv [OF c1(1)]]])
    have "carries s (reap env now (dispose_pairing k (Some Paired) (send_pairing_outcome env k p oc ?s2)))" for k p oc
    proof -
      note a = carries_trans [OF c1(2) carries_releases(8) [OF carries_inv [OF c1(2)]]]
      note b = carries_trans [OF a carries_releases(2) [OF carries_inv [OF a]]]
      show ?thesis unfolding send_pairing_outcome_def by (rule carries_trans [OF b carries_reap [OF carries_inv [OF b]]])
    qed
    then show ?thesis using c1 f by (simp add: save_end_def Some Let_def)
  qed (simp add: save_end_def carries_refl [OF inv])
qed

section \<open>Connections\<close>

lemma connection_answered_survives:
  assumes inv: "burrow_inv s"
  shows "\<exists>t. connection_answered env now fresh frame epoch h issued s = Some t \<and> survives s t \<and>
    (epoch \<noteq> bw_epoch s \<longrightarrow> t = s)"
proof (cases "Option.bind (from_base64_url (ic_challenge issued)) (\<lambda>payload. answer_init env fresh payload h)")
  case None
  then show ?thesis using carries_survives [OF carries_refl [OF inv]] by (simp add: connection_answered_def)
next
  case (Some a)
  obtain message2 static x where a: "a = (message2, static, x)" by (cases a)
  show ?thesis
  proof (cases "bw_epoch s = epoch")
    case False
    then show ?thesis using carries_survives [OF carries_refl [OF inv]] by (simp add: connection_answered_def Some a)
  next
    case True
    let ?k = "frame_client frame"
    let ?s0 = "dispose_connection now ?k s"
    obtain s1 where e: "evict_oldest_connection_if_full now ?s0 = Some s1" "lets_go ?s0 s1"
        "card (connections s1) < max_pending_connection_handshakes"
      using connection_eviction_ends [of ?s0 now] lets_go_parts(7) [OF lets_go_dispose_connection inv_tidy [OF inv]] by blast
    have g: "lets_go s s1" by (rule lets_go_trans [OF lets_go_dispose_connection e(2)])
    have base1: "burrow_base s1" using inv by (intro base_gives_up [OF _ g]) (simp add: burrow_inv_def)
    let ?p = "\<lparr>cn_ref = bw_next s1, cn_id = frame_id frame, cn_hash = to_base64_url (ts_handshake_hash x),
       cn_static = static, cn_challenge = ic_challenge issued, cn_expires = ic_expires_at issued\<rparr>"
    have "connections (with_session x s1) = connections s1" by (simp add: connections_def)
    then have "burrow_base (set_client ?k (\<lambda>st. st\<lparr>cl_connection := Some ?p\<rparr>) (with_session x s1))"
      by (intro base_set_connection_to base_with_session base1) (simp_all add: e(3) transcript_with_session)
    then have "survives s (send_e2e ?k False (frame_id frame) (js ''response'') message2
        (arm_reaper (set_client ?k (\<lambda>st. st\<lparr>cl_connection := Some ?p\<rparr>) (with_session x s1))))"
      using lets_go_core(11) [OF g] by (intro taken_on)
    then show ?thesis using True by (simp add: connection_answered_def Some a e(1) with_session_def Let_def)
  qed
qed

lemma walk_spec:
  "established_walk static except cs inc n = (inc', n') \<Longrightarrow>
     n' = n + length (filter (\<lambda>(c, st). cl_established st \<noteq> None \<and> c \<noteq> except) cs) \<and>
     (inc' = None \<longrightarrow> inc = None \<and> (\<forall>(c, st) \<in> set cs. \<forall>e. cl_established st = Some e \<longrightarrow> es_static e \<noteq> static)) \<and>
     (\<forall>i. inc' = Some i \<longrightarrow> inc = Some i \<or> (\<exists>st e. (i, st) \<in> set cs \<and> cl_established st = Some e \<and> es_static e = static))"
proof (induction static except cs inc n arbitrary: inc' n' rule: established_walk.induct)
  case (2 static except client st rest inc n)
  show ?case
  proof (cases "cl_established st")
    case None
    with 2 show ?thesis by fastforce
  next
    case (Some e)
    have "established_walk static except rest (if es_static e = static then Some client else inc)
        (if client \<noteq> except then n + 1 else n) = (inc', n')" using 2(3) Some by simp
    from 2(2) [OF Some this] show ?thesis using Some by (auto split: if_splits)
  qed
qed simp

lemma established_for_spec:
  assumes tidy: "tidy s" and w: "established_for static k s = (inc, others)"
  shows "others = card (sessions s - {k})"
    "inc = None \<Longrightarrow> established_at c s = Some e \<Longrightarrow> es_static e \<noteq> static"
    "inc = Some i \<Longrightarrow> \<exists>e. established_at i s = Some e \<and> es_static e = static"
proof -
  note spec = walk_spec [OF w [unfolded established_for_def]]
  have d: "distinct (map fst (bw_clients s))" using tidy by (simp add: tidy_but_def)
  have "sessions s - {k} = {c. \<exists>st. map_of (bw_clients s) c = Some st \<and> (case (c, st) of (c, st) \<Rightarrow> cl_established st \<noteq> None \<and> c \<noteq> k)}"
    by (auto simp: sessions_def established_at_def bind_eq_Some_conv)
  then show "others = card (sessions s - {k})" using spec filter_length_card [OF d] by auto
  show "es_static e \<noteq> static" if "inc = None" "established_at c s = Some e"
    using spec that by (auto simp: established_at_def bind_eq_Some_conv dest!: map_of_SomeD)
  show "\<exists>e. established_at i s = Some e \<and> es_static e = static" if "inc = Some i"
    using spec that d by (force simp: established_at_def bind_eq_Some_conv map_of_eq_Some_iff)
qed

lemma tidy_dispose_established: "tidy_but K s \<Longrightarrow> tidy_but K (dispose_established k s)"
proof (cases "established_at k s")
  case (Some e)
  assume "tidy_but K s"
  then have "tidy_but (insert k K) (set_client k (\<lambda>st. st\<lparr>cl_established := None\<rparr>) (emit (ApiDisposed (es_ref e)) s))"
    by (intro tidy_set_client) simp
  from tidy_weaken [OF tidy_prune [OF this, of k], of K] show ?thesis by (auto simp: dispose_established_def Some)
qed (simp add: dispose_established_def)

lemma tidy_set_again: "tidy_but K s \<Longrightarrow> k \<in> K \<Longrightarrow> tidy_but K (set_client k f s)"
  using tidy_set_client [of K s k f] by (simp add: insert_absorb)

text \<open>The state of a promotion before its outcome is sent.\<close>

definition displaced_state where
  "displaced_state client incumbent s =
     clear_established client (displace_incumbent client incumbent (set_client client (\<lambda>st. st\<lparr>cl_connection := None\<rparr>) s))"

lemma clear_established_simps [simp]:
  "bw_invitations (clear_established k s) = bw_invitations s" "core (clear_established k s) = core s"
  "hashes (clear_established k s) = hashes s" "bw_reaper (clear_established k s) = bw_reaper s"
  "bw_challenges (clear_established k s) = bw_challenges s"
  by (simp_all add: clear_established_def split: option.splits)

lemma displaced_simps:
  "core (displaced_state k inc s) = core s" "bw_invitations (displaced_state k inc s) = bw_invitations s"
  "hashes (displaced_state k inc s) = hashes s" "bw_reaper (displaced_state k inc s) = bw_reaper s"
  "bw_challenges (displaced_state k inc s) = bw_challenges s"
  by (simp_all add: displaced_state_def displace_incumbent_def split: option.splits)

lemma displaced_at:
  "pairing_at c (displaced_state k inc s) = pairing_at c s"
  "connection_at c (displaced_state k inc s) = (if c = k then None else connection_at c s)"
  "established_at c (displaced_state k inc s) = (if c = k \<or> inc = Some c then None else established_at c s)"
  by (auto simp: displaced_state_def displace_incumbent_def clear_established_def set_client_at state_of_fields
      dispose_established_at split: option.splits)

lemma displaced_tidy: "tidy s \<Longrightarrow> tidy_but {k} (displaced_state k inc s)"
proof -
  assume "tidy s"
  then have "tidy_but {k} (displace_incumbent k inc (set_client k (\<lambda>st. st\<lparr>cl_connection := None\<rparr>) s))"
    by (auto simp: displace_incumbent_def split: option.splits intro: tidy_dispose_established tidy_set_client)
  then show ?thesis
    by (auto simp: displaced_state_def clear_established_def split: option.splits intro: tidy_set_again)
qed

lemma card_insert_le_Suc: "finite A \<Longrightarrow> card (insert k A) \<le> Suc (card A)"
  by (simp add: card_insert_if)

text \<open>What the promotion of a connection leaves, and that it keeps the caps.\<close>

lemma promoted_base:
  assumes inv: "burrow_inv s" and w: "established_for (cn_static p) k s = (inc, others)"
    and room: "inc \<noteq> None \<or> others < max_established_e2e_sessions"
    and r: "transcript_of s (es_ref e) \<noteq> None" and static: "es_static e = cn_static p"
    and u: "bw_clients u = bw_clients (displaced_state k inc s)" "core u = core (displaced_state k inc s)"
      "bw_invitations u = bw_invitations s" "hashes u = hashes s"
    and t: "bw_clients t = bw_clients u" "bw_invitations t = bw_invitations u" "bw_sessions t = bw_sessions u" "bw_next t = bw_next u"
      "bw_frames t = bw_frames u" "bw_frame_chars t = bw_frame_chars u" "bw_drain t = bw_drain u" "bw_epoch t = bw_epoch u"
  shows "burrow_base (set_client k (\<lambda>st. st\<lparr>cl_established := Some e\<rparr>) t)"
proof -
  let ?t = "set_client k (\<lambda>st. st\<lparr>cl_established := Some e\<rparr>) t"
  have tidy: "tidy s" by (rule inv_tidy [OF inv])
  have c: "core u = core s" using u(2) displaced_simps(1) by metis
  have at: "pairing_at c ?t = pairing_at c s" "connection_at c ?t = (if c = k then None else connection_at c s)"
    "established_at c ?t = (if c = k then Some e else if inc = Some c then None else established_at c s)" for c
    using at_cong [OF trans [OF t(1) u(1)]] displaced_at [of c k inc s]
    by (auto simp: set_client_at state_of_fields displaced_at)
  have "tidy_but {k} t"
    using displaced_tidy [OF tidy, of k inc] tidy_but_cong [of t "displaced_state k inc s" "{k}"]
      t(1,2) u(1,3) displaced_simps(2) [of k inc s] by simp
  then have tt: "tidy ?t"
    using tidy_set_client_held [of "{k}" t "\<lambda>st. st\<lparr>cl_established := Some e\<rparr>" k] by (simp add: holds_nothing_def)
  have others: "others = card (sessions s - {k})" by (rule established_for_spec(1) [OF tidy w])
  have ses: "sessions ?t = insert k {c \<in> sessions s. inc \<noteq> Some c}" by (auto simp: sessions_def at domIff split: if_splits)
  have "card (sessions ?t) \<le> max_established_e2e_sessions"
  proof (cases inc)
    case None
    have eq: "sessions ?t = insert k (sessions s - {k})" using ses None by auto
    have "card (sessions ?t) \<le> Suc (card (sessions s - {k}))" unfolding eq by (rule card_insert_le_Suc) simp
    then show ?thesis using room None others by simp
  next
    case (Some i)
    have i: "i \<in> sessions s" using established_for_spec(3) [OF tidy w Some] by (auto simp: sessions_def)
    have "sessions ?t \<subseteq> insert k (sessions s - {i})" using ses Some by auto
    then have "card (sessions ?t) \<le> card (insert k (sessions s - {i}))" by (intro card_mono) simp_all
    also have "\<dots> \<le> Suc (card (sessions s - {i}))" by (rule card_insert_le_Suc) simp
    also have "\<dots> = card (sessions s)" by (rule card_Suc_Diff1 [OF finite_at(3) i])
    finally show ?thesis using inv by (simp add: inv_parts bounded_def)
  qed
  moreover have "pairings ?t = pairings s" "connections ?t \<subseteq> connections s"
    by (auto simp: pairings_def connections_def at split: if_splits)
  then have "card (pairings ?t) \<le> max_pending_pairings" "card (connections ?t) \<le> max_pending_connection_handshakes"
    using inv card_mono [OF finite_at(2) \<open>connections ?t \<subseteq> connections s\<close>] by (simp_all add: inv_parts bounded_def)
  ultimately have bounded: "bounded ?t"
    using inv by (simp add: bounded_def inv_parts t u)
  have h: "transcript_of ?t = transcript_of s"
    using hashes_cong [OF t(3)] u(4) by (simp add: transcript_of_def fun_eq_iff)
  have next_eq: "bw_next ?t = bw_next s" using t(4) core_fields(17) [OF c] by simp
  have numbered: "numbered ?t" using inv r unfolding inv_parts numbered_def at h next_eq by (auto split: if_splits)
  have other: "es_static e' \<noteq> cn_static p" if "established_at c ?t = Some e'" "c \<noteq> k" for c e'
  proof (cases inc)
    case None
    then show ?thesis using established_for_spec(2) [OF tidy w None] that by (auto simp: at split: if_splits)
  next
    case (Some i)
    have "c \<noteq> i" using that Some by (auto simp: at)
    moreover have "established_at c s = Some e'" using that Some by (auto simp: at split: if_splits)
    ultimately show ?thesis using established_for_spec(3) [OF tidy w Some] inv by (auto simp: inv_parts one_session_per_key_def)
  qed
  have "one_session_per_key ?t"
    unfolding one_session_per_key_def
  proof (intro allI impI)
    fix c d x y
    assume x: "established_at c ?t = Some x" and y: "established_at d ?t = Some y" and xy: "es_static x = es_static y"
    have k: "c = k \<Longrightarrow> es_static x = cn_static p" "d = k \<Longrightarrow> es_static y = cn_static p" using x y static by (simp_all add: at)
    show "c = d"
    proof (cases "c = k \<or> d = k")
      case True
      then show ?thesis using other [OF x] other [OF y] k xy by metis
    next
      case False
      then show ?thesis using x y xy inv by (auto simp: at inv_parts one_session_per_key_def split: if_splits)
    qed
  qed
  then show ?thesis using tt bounded numbered inv t(5-8) core_fields [OF c]
    by (simp add: burrow_base_def inv_parts queue_ok_def epochs_ok_def)
qed

lemma promote_carries:
  assumes inv: "burrow_inv s" and r: "connection_is client (cn_ref p) s"
  shows "carries s (promote_connection env now client p s)"
proof -
  obtain inc others where w: "established_for (cn_static p) client s = (inc, others)" by fastforce
  obtain q where q: "connection_at client s = Some q" "cn_ref q = cn_ref p"
    using r by (auto simp: connection_is_def)
  have held: "\<not> empty_handed s" by (rule at_entry(2) [OF q(1)])
  show ?thesis
  proof (cases "inc = None \<and> max_established_e2e_sessions \<le> others")
    case True
    then show ?thesis using carries_releases(4) [OF inv] by (simp add: promote_connection_def w)
  next
    case False
    let ?d = "displaced_state client inc s"
    define u where "u = send_control_frame env client False (cn_id p) (cn_ref p)
          (connection_outcome_value (Inr (bounded_burrow_label (be_label env)))) ?d"
    have u: "bw_clients u = bw_clients ?d" "core u = core ?d" "bw_invitations u = bw_invitations s" "hashes u = hashes s"
      "bw_reaper u = bw_reaper s"
      by (simp_all add: u_def displaced_simps)
    have socket: "bw_socket u = bw_socket s"
      by (simp add: u_def core_fields(11) [OF displaced_simps(1)])
    show ?thesis
    proof (cases "be_has_api env")
      case True
      let ?e = "\<lparr>es_ref = cn_ref p, es_id = cn_id p, es_static = cn_static p, es_activity = now\<rparr>"
      let ?t = "emit (ApiStarted (cn_ref p)) (u\<lparr>bw_apis := (cn_ref p, client, cn_id p) # bw_apis u\<rparr>)"
      have "transcript_of s (cn_ref q) = Some (cn_hash q)" using inv q(1) by (simp add: inv_parts numbered_def)
      then have "transcript_of s (cn_ref p) \<noteq> None" by (simp add: q(2))
      then have "burrow_base (set_client client (\<lambda>st. st\<lparr>cl_established := Some ?e\<rparr>) ?t)"
        using False by (intro promoted_base [OF inv w _ _ _ u(1-4)]) auto
      then have "burrow_inv (arm_reaper (set_client client (\<lambda>st. st\<lparr>cl_established := Some ?e\<rparr>) ?t))" by (rule inv_arm)
      then show ?thesis
        using False True held socket
        by (auto simp: promote_connection_def w carries_def Let_def u_def displaced_state_def)
    next
      case no_api: False
      have "tidy_but {client} u"
        using displaced_tidy [OF inv_tidy [OF inv]] by (simp add: u_def)
      then have "tidy (prune_client client u)" using tidy_prune [of "{client}" u client] by simp
      then have "lets_go s (prune_client client u)"
        by (simp add: lets_go_def u_def displaced_simps part_of_def displaced_at)
      then have "carries s (prune_client client u)"
        by (rule carries_gives_up [OF inv]) (simp add: u(5))
      then show ?thesis
        using False no_api by (auto simp: promote_connection_def w Let_def u_def displaced_state_def)
    qed
  qed
qed

lemma connection_proved_carries:
  "burrow_inv s \<Longrightarrow> carries s (connection_proved env now client p valid v s)"
  using carries_refl promote_carries carries_releases(4)
  unfolding connection_proved_def
  by (auto split: bool.splits sum.splits)

lemma connection_read_survives:
  assumes inv: "burrow_inv s" and e: "epoch \<le> bw_epoch s"
  shows "survives s (connection_read env now random frame epoch s)"
    "epoch \<noteq> bw_epoch s \<Longrightarrow> empty_handed s \<Longrightarrow> empty_handed (connection_read env now random frame epoch s)"
proof -
  have "survives s (s\<lparr>bw_challenges := ci, bw_drain := ConnectionAnswer frame epoch h issued\<rparr>)" for ci h issued
  proof -
    let ?t = "s\<lparr>bw_challenges := ci, bw_drain := ConnectionAnswer frame epoch h issued\<rparr>"
    have "burrow_base ?t"
      by (rule base_change [where s = s])
        (use inv e in \<open>simp_all add: inv_parts queue_ok_def epochs_ok_def\<close>)
    moreover have "covered ?t" using inv covered_cong [of ?t s] by (simp add: burrow_inv_def)
    ultimately show ?thesis by (auto simp: survives_def burrow_inv_def)
  qed
  then show "survives s (connection_read env now random frame epoch s)"
    using carries_survives [OF carries_refl [OF inv]] by (auto simp: connection_read_def split: option.splits prod.splits)
  show "epoch \<noteq> bw_epoch s \<Longrightarrow> empty_handed s \<Longrightarrow> empty_handed (connection_read env now random frame epoch s)"
    by (auto simp: connection_read_def empty_handed_def split: option.splits prod.splits)
qed

lemma pending_frame_carries:
  assumes inv: "burrow_inv s" and d: "waiting_epoch (bw_drain s) = None"
  shows "carries s (on_pending_frame env now client p frame s)"
proof -
  obtain s1 x where r: "receive_on env (cn_ref p) frame s = (s1, x)" by fastforce
  have c1: "carries s s1" by (rule carries_receive [OF inv r])
  note i1 = carries_inv [OF c1]
  have "carries s (dispose_connection now client s1)" "carries s (deny_connection env now client p cd s1)" for cd
    using carries_trans [OF c1 carries_releases(3) [OF i1]] carries_trans [OF c1 carries_releases(4) [OF i1]] by auto
  moreover have "carries s (s1\<lparr>bw_challenges := ci, bw_drain := ConnectionProof client p valid v\<rparr>)" for ci valid v
  proof -
    have a: "carries s1 (s1\<lparr>bw_challenges := ci\<rparr>)" by (rule carries_cong [OF i1]) simp_all
    have "carries (s1\<lparr>bw_challenges := ci\<rparr>) (s1\<lparr>bw_challenges := ci, bw_drain := ConnectionProof client p valid v\<rparr>)"
      using not_waiting [OF carries_inv [OF a], of "ConnectionProof client p valid v"] by simp
    then show ?thesis by (rule carries_trans [OF carries_trans [OF c1 a]])
  qed
  ultimately show ?thesis using c1
    by (auto simp: on_pending_frame_def r split: option.splits transport_receipt.splits prod.splits)
qed

lemma connection_transport_carries:
  assumes inv: "burrow_inv s" and d: "waiting_epoch (bw_drain s) = None"
  shows "carries s (on_connection_transport env now frame s)"
proof (cases "map_of (bw_clients s) (frame_client frame)")
  case (Some st)
  have "carries s (on_established_frame env now (frame_client frame) e frame s)" if "cl_established st = Some e" for e
    by (rule established_frame_carries [OF inv]) (simp add: established_at_def Some that)
  then show ?thesis using carries_refl [OF inv] pending_frame_carries [OF inv d]
    by (auto simp: on_connection_transport_def Some Let_def split: option.splits)
qed (simp add: on_connection_transport_def carries_refl [OF inv])

lemma pairing_transport_carries:
  assumes inv: "burrow_inv s" and d: "waiting_epoch (bw_drain s) = None"
  shows "carries s (on_pairing_transport env now frame s)"
proof (cases "pairing_at (frame_client frame) s")
  case (Some p)
  obtain s1 x where r: "receive_on env (pn_ref p) frame s = (s1, x)" by fastforce
  have c1: "carries s s1" by (rule carries_receive [OF inv r])
  note i1 = carries_inv [OF c1]
  have "carries s (finish_pairing env k dn s1)" "carries s (dispose_pairing k o' s1)"
    "carries s (s1\<lparr>bw_drain := PairingProof k p v\<rparr>)" for k dn o' v
    using carries_trans [OF c1 carries_releases(1) [OF i1]] carries_trans [OF c1 carries_releases(2) [OF i1]]
      carries_trans [OF c1 not_waiting [OF i1, of "PairingProof k p v"]] by auto
  then show ?thesis using c1 carries_refl [OF inv] carries_releases(1) [OF inv]
    by (auto simp: on_pairing_transport_def Some r Let_def split: option.splits transport_receipt.splits)
qed (simp add: on_pairing_transport_def carries_refl [OF inv])

section \<open>The queue\<close>

lemma spend_survives: "burrow_inv s \<Longrightarrow> spend_init_token now s = (t, b) \<Longrightarrow> carries s t \<and> bw_drain t = bw_drain s \<and> bw_epoch t = bw_epoch s"
proof -
  assume inv: "burrow_inv s" and t: "spend_init_token now s = (t, b)"
  obtain x where x: "t = s\<lparr>bw_tokens := x\<rparr>" using t by (auto simp: spend_init_token_def split: prod.splits)
  have "carries s t" unfolding x by (rule carries_cong [OF inv]) simp_all
  then show ?thesis by (simp add: x)
qed

lemma waiting_survives:
  assumes inv: "burrow_inv s" and d: "waiting_epoch d = Some (bw_epoch s)"
  shows "survives s (s\<lparr>bw_drain := d\<rparr>)"
proof -
  have q: "queue_ok (s\<lparr>bw_drain := d\<rparr>)" "epochs_ok (s\<lparr>bw_drain := d\<rparr>)"
    using inv d by (simp_all add: inv_parts queue_ok_def epochs_ok_def)
  have "burrow_base (s\<lparr>bw_drain := d\<rparr>)"
    by (rule base_change [OF _ _ _ _ _ q]) (use inv in \<open>simp_all add: burrow_inv_def\<close>)
  moreover have "covered (s\<lparr>bw_drain := d\<rparr>)" using inv covered_cong [of "s\<lparr>bw_drain := d\<rparr>" s] by (simp add: burrow_inv_def)
  ultimately show ?thesis by (simp add: survives_def burrow_inv_def)
qed

lemma init_survives:
  assumes inv: "burrow_inv s"
  shows "survives s (on_pairing_init now frame s)" "survives s (on_connection_init now frame s)"
proof -
  have w: "survives s (t\<lparr>bw_drain := d\<rparr>)" if "spend_init_token now s = (t, b)" "waiting_epoch d = Some (bw_epoch t)" for t b d
    using spend_survives [OF inv that(1)] waiting_survives [OF carries_inv that(2)] carries_survives survives_trans by blast
  have k: "survives s t" if "spend_init_token now s = (t, b)" for t b
    using spend_survives [OF inv that] carries_survives by blast
  show "survives s (on_pairing_init now frame s)" "survives s (on_connection_init now frame s)"
    using w k carries_survives [OF carries_refl [OF inv]]
    by (auto simp: on_pairing_init_def on_connection_init_def split: option.splits prod.splits bool.splits)
qed

lemma reap_drain [simp]: "bw_drain (reap env now s) = bw_drain s"
  by (rule lets_go_core(5) [OF lets_go_reap])

lemma e2e_survives:
  assumes inv: "burrow_inv s" and d: "waiting_epoch (bw_drain s) = None"
  shows "survives s (on_e2e env now frame s)"
proof -
  note r = carries_reap [OF inv, of env now]
  have i: "survives s (on_pairing_init now frame (reap env now s))" "survives s (on_connection_init now frame (reap env now s))"
    using survives_trans [OF carries_survives [OF r]] init_survives [OF carries_inv [OF r]] by blast+
  show ?thesis
    by (simp add: on_e2e_def i carries_survives [OF pairing_transport_carries [OF inv d]]
        carries_survives [OF connection_transport_carries [OF inv d]])
qed

lemma next_frame_carries:
  assumes inv: "burrow_inv s" and d: "bw_drain s = Ready"
  shows "carries s (next_frame env now s)"
proof (cases "bw_frames s")
  case Nil
  then show ?thesis using not_waiting [OF inv, of Idle] by (simp add: next_frame_def)
next
  case (Cons f rest)
  obtain frame chars where f: "f = (frame, chars)" by (cases f)
  let ?s1 = "s\<lparr>bw_frames := rest, bw_frame_chars := bw_frame_chars s - chars\<rparr>"
  have q: "queue_ok ?s1" "epochs_ok ?s1"
    using inv Cons f by (auto simp: inv_parts queue_ok_def epochs_ok_def)
  have "burrow_base ?s1" by (rule base_change [OF _ _ _ _ _ q]) (use inv in \<open>simp_all add: burrow_inv_def\<close>)
  moreover have "covered ?s1" using inv covered_cong [of ?s1 s] by (simp add: burrow_inv_def)
  ultimately have i1: "burrow_inv ?s1" by (simp add: burrow_inv_def)
  have gone: "carries ?s1 (on_client_gone env now k ?s1)" for k
  proof -
    have r: "bw_reaper (dispose_client now k u) = bw_reaper u" for u :: "'a burrow" by (simp add: dispose_client_def Let_def)
    have d: "carries ?s1 (dispose_client now k ?s1)" by (rule carries_gives_up [OF i1 lets_go_dispose_client r])
    show ?thesis unfolding on_client_gone_def by (rule carries_trans [OF d carries_reap [OF carries_inv [OF d]]])
  qed
  have "waiting_epoch (bw_drain ?s1) = None" using d by simp
  then have "survives ?s1 (next_frame env now s)"
    by (simp add: next_frame_def Cons f Let_def carries_survives [OF gone] e2e_survives [OF i1])
  moreover have "\<not> empty_handed s" using Cons by (simp add: empty_handed_def)
  ultimately show ?thesis by (simp add: carries_def survives_def)
qed

lemma drain_turn_carries:
  assumes inv: "burrow_inv s"
  shows "\<exists>t. drain_turn env now fresh random s = Some t \<and> carries s t"
proof -
  let ?r = "s\<lparr>bw_drain := Ready\<rparr>"
  have c: "carries s ?r" by (rule not_waiting [OF inv]) simp
  note i = carries_inv [OF c]
  have into: "carries s t" if "carries ?r t" for t by (rule carries_trans [OF c that])
  text \<open>A handshake of an earlier epoch changes nothing; one of this epoch shows that something is in hand.\<close>
  have handshake: "carries s t"
    if "waiting_epoch (bw_drain s) = Some epoch" "survives ?r t" "epoch \<noteq> bw_epoch s \<Longrightarrow> empty_handed ?r \<Longrightarrow> empty_handed t" for t epoch
    using that by (cases "epoch = bw_epoch s") (auto simp: carries_def survives_def empty_handed_def)
  show ?thesis
  proof (cases "bw_drain s")
    case Ready
    then show ?thesis using next_frame_carries [OF inv] by (simp add: drain_turn_def Let_def)
  next
    case (PairingHandshake held frame epoch)
    then show ?thesis
      using pairing_answered_survives [OF i, of env now fresh random held frame epoch] handshake [of epoch]
      by (fastforce simp: drain_turn_def Let_def)
  next
    case (PairingProof client p v)
    then show ?thesis using into [OF pairing_proved_carries [OF i]] by (simp add: drain_turn_def Let_def)
  next
    case (ConnectionStatic frame epoch)
    have "epoch \<le> bw_epoch ?r" using inv ConnectionStatic by (simp add: inv_parts epochs_ok_def)
    from connection_read_survives [OF i this, of env now random frame] show ?thesis
      using handshake [of epoch] ConnectionStatic by (simp add: drain_turn_def Let_def)
  next
    case (ConnectionAnswer frame epoch h issued)
    then show ?thesis
      using connection_answered_survives [OF i, of env now fresh frame epoch h issued] handshake [of epoch]
      by (fastforce simp: drain_turn_def Let_def)
  next
    case (ConnectionProof client p valid v)
    then show ?thesis using into [OF connection_proved_carries [OF i]] by (simp add: drain_turn_def Let_def)
  qed (use carries_refl [OF inv] in \<open>simp add: drain_turn_def\<close>)
qed

section \<open>Every event\<close>

definition burrow_ok :: "'k burrow \<Rightarrow> bool" where
  "burrow_ok s \<longleftrightarrow> burrow_inv s \<and> offline_empty s"

lemma ok_carries: "burrow_ok s \<Longrightarrow> carries s t \<Longrightarrow> burrow_ok t"
  by (auto simp: burrow_ok_def carries_def offline_empty_def)

lemma ok_empty: "burrow_inv t \<Longrightarrow> empty_handed t \<Longrightarrow> burrow_ok t"
  by (simp add: burrow_ok_def offline_empty_def)

lemma shut_socket_simps [simp]:
  "bw_clients (shut_socket ws s) = bw_clients s" "bw_invitations (shut_socket ws s) = bw_invitations s"
  "core (shut_socket ws s) = core s" "bw_sessions (shut_socket ws s) = bw_sessions s" "bw_reaper (shut_socket ws s) = bw_reaper s"
  by (simp_all add: shut_socket_def split: option.splits)

lemmas shut_socket_core [simp] = core_fields [OF shut_socket_simps(3)]

lemma drop_invitations: "bw_invitations (drop_transient_state now s) = []" if "tidy s"
proof -
  let ?s1 = "s\<lparr>bw_epoch := bw_epoch s + 1, bw_frames := [], bw_frame_chars := 0\<rparr>"
  let ?s2 = "fold (dispose_client now) (map fst (bw_clients ?s1)) ?s1"
  have "map_of (bw_invitations (fold (\<lambda>i. retire_invitation i None None) is u)) i = None"
    if "i \<in> set is \<or> map_of (bw_invitations u) i = None" for "is" i and u :: "'a burrow"
    using that
  proof (induction "is" arbitrary: u)
    case (Cons j js)
    have "map_of (bw_invitations (retire_invitation j None None u)) i = None" if "i = j \<or> map_of (bw_invitations u) i = None"
      using that by auto
    then show ?case using Cons by auto
  qed simp
  then have "map_of (bw_invitations (drop_transient_state now s)) i = None" for i
    using map_of_eq_None_iff [of "bw_invitations ?s2" i] by (auto simp: drop_transient_state_def Let_def)
  then show ?thesis by (metis list.exhaust map_of_Cons_code(2) option.distinct(1) surj_pair)
qed

lemma on_message_ok:
  assumes ok: "burrow_ok s"
  shows "burrow_ok (socket_message env now ws raw s)"
proof (cases "bw_socket s = Some ws")
  case True
  have inv: "burrow_inv s" using ok by (simp add: burrow_ok_def)
  have "burrow_ok (enqueue env now frame chars s)" for frame chars
  proof (cases "max_queued_relay_frames \<le> length (bw_frames s) \<or> max_queued_relay_frame_chars < bw_frame_chars s + chars")
    case full: True
    have "burrow_base (s\<lparr>bw_socket := None\<rparr>)"
      by (rule base_cong [where s = s]) (use inv in \<open>simp_all add: burrow_inv_def\<close>)
    note c = on_close_result [OF this, where env = env and now = now and code = None]
    show ?thesis unfolding enqueue_def
      using full inv_cong [OF _ _ _ _ _ _ _ _ _ c(1)] c(2)
      by (auto intro!: ok_empty simp: empty_handed_def) 
  next
    case room: False
    let ?s1 = "s\<lparr>bw_frames := bw_frames s @ [(frame, chars)], bw_frame_chars := bw_frame_chars s + chars\<rparr>"
    have q: "queue_ok ?s1" "epochs_ok ?s1" using inv room by (auto simp: inv_parts queue_ok_def epochs_ok_def)
    have "burrow_base ?s1" by (rule base_change [OF _ _ _ _ _ q]) (use inv in \<open>simp_all add: burrow_inv_def\<close>)
    moreover have "covered ?s1" using inv covered_cong [of ?s1 s] by (simp add: burrow_inv_def)
    ultimately have i1: "burrow_inv ?s1" by (simp add: burrow_inv_def)
    have "burrow_inv (?s1\<lparr>bw_drain := Ready\<rparr>)" using carries_inv [OF not_waiting [OF i1]] by simp
    with i1 show ?thesis
      using room True by (auto simp: enqueue_def burrow_ok_def offline_empty_def Let_def split: drain.splits)
  qed
  then show ?thesis using True ok by (auto simp: socket_message_def on_frame_def split: option.splits)
qed (simp add: socket_message_def ok)

lemma socket_closed_ok:
  assumes ok: "burrow_ok s"
  shows "burrow_ok (socket_closed env now ws code s)"
proof -
  have "burrow_base (s\<lparr>bw_socket := None\<rparr>)"
    by (rule base_cong [where s = s]) (use ok in \<open>simp_all add: burrow_ok_def burrow_inv_def\<close>)
  note c = on_close_result [OF this, where env = env and now = now and code = code]
  show ?thesis using ok ok_empty [OF c] by (simp add: socket_closed_def)
qed

lemma stop_ok:
  assumes ok: "burrow_ok s"
  shows "burrow_ok (burrow_stop now s)" "bw_invitations (burrow_stop now s) = []"
proof -
  let ?s0 = "s\<lparr>bw_stopped := True, bw_status := Stopped, bw_reconnect := None\<rparr>"
  let ?s1 = "drop_transient_state now ?s0"
  let ?t = "(shut_socket (bw_socket ?s1) (?s1\<lparr>bw_reaper := None\<rparr>))\<lparr>bw_socket := None\<rparr>"
  have base: "burrow_base ?s0" by (rule base_cong [where s = s]) (use ok in \<open>simp_all add: burrow_ok_def burrow_inv_def\<close>)
  note d = drop_result [OF base, where now = now]
  have inv: "bw_invitations ?s1 = []" by (rule drop_invitations) (use base in \<open>simp add: burrow_base_def\<close>)
  have "burrow_base ?t" by (rule base_cong [where s = ?s1]) (use d(1) in \<open>simp_all add: burrow_inv_def\<close>)
  moreover have "covered ?t"
    using d(2) inv by (simp add: covered_def empty_handed_def pairing_at_def connection_at_def established_at_def)
  ultimately have "burrow_inv ?t" by (simp add: burrow_inv_def)
  moreover have "empty_handed ?t" using d(2) by (simp add: empty_handed_def)
  moreover have t: "burrow_stop now s = ?t" by (simp add: burrow_stop_def Let_def)
  ultimately show "burrow_ok (burrow_stop now s)" by (simp add: ok_empty)
  show "bw_invitations (burrow_stop now s) = []" unfolding t using inv by simp
qed

lemma connect_ok: "burrow_ok s \<Longrightarrow> burrow_ok (connect env s)"
  by (simp add: burrow_ok_def connect_inv connect_online)

lemma ok_cong:
  assumes "burrow_ok s" "bw_clients t = bw_clients s" "bw_invitations t = bw_invitations s" "bw_sessions t = bw_sessions s"
    "bw_next t = bw_next s" "bw_frames t = bw_frames s" "bw_frame_chars t = bw_frame_chars s"
    "bw_drain t = bw_drain s" "bw_epoch t = bw_epoch s" "bw_reaper t = bw_reaper s" "bw_socket t = bw_socket s"
  shows "burrow_ok t"
  by (rule ok_carries [OF assms(1) carries_cong]) (use assms in \<open>simp_all add: burrow_ok_def\<close>)

lemma burrow_step_ok:
  assumes ok: "burrow_ok s"
  shows "\<exists>t. burrow_step env e s = Some t \<and> burrow_ok t"
proof -
  have inv: "burrow_inv s" using ok by (simp add: burrow_ok_def)
  have by_carrying: "burrow_ok t" if "carries s t" for t by (rule ok_carries [OF ok that])
  show ?thesis
  proof (cases e)
    case Starts
    have "burrow_ok (s\<lparr>bw_stopped := False, bw_displaced := False, bw_reconnect := None, bw_backoff := initial_backoff_ms\<rparr>)"
      by (rule ok_cong [OF ok]) simp_all
    then show ?thesis by (simp add: Starts burrow_start_def connect_ok)
  next
    case (Stops now)
    then show ?thesis using stop_ok(1) [OF ok] by simp
  next
    case (SocketOpens now ws)
    have c: "carries s (s\<lparr>bw_status := Connected, bw_backoff := initial_backoff_ms\<rparr>)" by (rule carries_cong [OF inv]) simp_all
    show ?thesis
      by (simp add: SocketOpens socket_opened_def ok by_carrying [OF carries_trans [OF c carries_reap [OF carries_inv [OF c]]]])
  next
    case (SocketDelivers now ws raw)
    then show ?thesis by (simp add: on_message_ok [OF ok])
  next
    case (SocketCloses now ws code)
    then show ?thesis by (simp add: socket_closed_ok [OF ok])
  next
    case ReconnectFires
    have "burrow_ok (s\<lparr>bw_reconnect := None\<rparr>)" by (rule ok_cong [OF ok]) simp_all
    then show ?thesis by (simp add: ReconnectFires reconnect_fires_def connect_ok ok)
  next
    case (ReaperFires now)
    have base: "burrow_base (s\<lparr>bw_reaper := None\<rparr>)" by (rule base_cong [where s = s]) (use inv in \<open>simp_all add: burrow_inv_def\<close>)
    have "empty_handed (reap env now (s\<lparr>bw_reaper := None\<rparr>))" if "empty_handed s"
      using empty_gives_up [OF _ lets_go_reap, of "s\<lparr>bw_reaper := None\<rparr>" env now] base that
      by (simp add: burrow_base_def empty_handed_def)
    then have "burrow_ok (reap env now (s\<lparr>bw_reaper := None\<rparr>))"
      using inv_reap [OF base, of env now] ok lets_go_core(11) [OF lets_go_reap, of env now "s\<lparr>bw_reaper := None\<rparr>"]
      by (simp add: burrow_ok_def offline_empty_def)
    then show ?thesis using ok by (simp add: ReaperFires reaper_fires_def)
  next
    case (DrainTurn now fresh random)
    then show ?thesis using drain_turn_carries [OF inv, of env now fresh random] by_carrying by auto
  next
    case (MintBegins token expires)
    have "burrow_ok (mint_begin token expires s)" unfolding mint_begin_def by (rule ok_cong [OF ok]) simp_all
    then show ?thesis by (simp add: MintBegins)
  next
    case (MintEnds now i keys random)
    have c: "carries s (s\<lparr>bw_mints := ms\<rparr>)" for ms by (rule carries_cong [OF inv]) simp_all
    show ?thesis
      by (simp add: MintEnds mint_end_def ok by_carrying [OF carries_trans [OF c mint_carries [OF carries_inv [OF c]]]])
  next
    case (Approves now client pairing code)
    then show ?thesis by (simp add: by_carrying [OF approve_carries [OF inv]])
  next
    case (Denies now client pairing)
    then show ?thesis by (simp add: by_carrying [OF deny_carries [OF inv]])
  next
    case (SaveBegins now random)
    then show ?thesis by (simp add: by_carrying [OF save_begin_carries [OF inv]])
  next
    case (SaveEnds now saved)
    then show ?thesis by (simp add: by_carrying [OF save_end_carries [OF inv]])
  next
    case (ApiSends r payload)
    then show ?thesis by (simp add: by_carrying [OF carries_gives_up [OF inv api_sends_gives_up]])
  qed
qed

lemma burrow_ok_new: "burrow_ok (new_burrow env records now)"
proof -
  have none: "pairing_at c (new_burrow env records now) = None" "connection_at c (new_burrow env records now) = None"
    "established_at c (new_burrow env records now) = None" for c
    by (simp_all add: new_burrow_def pairing_at_def connection_at_def established_at_def)
  show ?thesis
    by (simp add: burrow_ok_def inv_parts offline_empty_def tidy_but_def idle_at_def bounded_def pairings_def connections_def
        sessions_def none queue_ok_def epochs_ok_def one_session_per_key_def numbered_def covered_def empty_handed_def
        transcript_of_def hashes_def)
      (simp add: new_burrow_def max_queued_relay_frames_def)
qed

interpretation burrow_events: event_system "\<lambda>e so. Option.bind so (burrow_step env e)" "\<lambda>_. True"
    "\<lambda>so. \<exists>s. so = Some s \<and> burrow_ok s"
  for env :: "('k, 'p) burrow_env"
  by unfold_locales (use burrow_step_ok in fastforce)

lemma burrow_run_fold: "burrow_run env es s = fold (\<lambda>e so. Option.bind so (burrow_step env e)) es (Some s)"
proof -
  have none: "fold (\<lambda>e so. Option.bind so (burrow_step env e)) es None = None" for es by (induction es) simp_all
  show ?thesis by (induction es arbitrary: s) (auto simp: none split: option.splits simp: Option.bind_eq_None_conv split: bind_splits)
qed

lemma burrow_run_ok: "burrow_ok s \<Longrightarrow> \<exists>t. burrow_run env es s = Some t \<and> burrow_ok t"
  using burrow_events.run_keeps [of "Some s" es env] by (simp add: burrow_run_fold list_all_iff)

end
