(* ===== verification/Burrow_Authority.thy ===== *)
theory Burrow_Authority
  imports Burrow_Steps
begin

text \<open>
  Who gets a session, and who gets on the access list. Most of what the runtime does is \<open>powerless\<close>: it starts
  no session, approves nothing and leaves the access list and its pending writes. The rest is a session after a
  verified proof, an approval after one, and a record after a local confirmation; each is traced back through
  the run to the events it needs.
\<close>

section \<open>Operations without authority\<close>

text \<open>All of a session but when it was last heard of.\<close>

definition same_session :: "established_session \<Rightarrow> established_session \<Rightarrow> bool" where
  "same_session y x \<longleftrightarrow> es_ref y = es_ref x \<and> es_id y = es_id x \<and> es_static y = es_static x"

lemma same_session_refl [simp]: "same_session x x"
  by (simp add: same_session_def)

lemma same_session_trans: "same_session x y \<Longrightarrow> same_session y z \<Longrightarrow> same_session x z"
  by (simp add: same_session_def)

definition calm :: "'k burrow \<Rightarrow> 'k burrow \<Rightarrow> bool" where
  "calm s t \<longleftrightarrow> bw_next s \<le> bw_next t \<and> (\<forall>r<bw_next s. hashes t r = hashes s r) \<and>
     (\<forall>k x. established_at k t = Some x \<longrightarrow> (\<exists>y. established_at k s = Some y \<and> same_session y x)) \<and>
     (\<forall>c p g. pairing_at c t = Some p \<longrightarrow> pn_approval p = Some g \<longrightarrow>
        (\<exists>q. pairing_at c s = Some q \<and> pn_hash q = pn_hash p \<and> pn_approval q = Some g))"

definition powerless :: "'k burrow \<Rightarrow> 'k burrow \<Rightarrow> bool" where
  "powerless s t \<longleftrightarrow> calm s t \<and> bw_acl t = bw_acl s \<and> bw_jobs t = bw_jobs s \<and> bw_commit t = bw_commit s"

lemma calm_core:
  assumes "calm s t"
  shows "bw_next s \<le> bw_next t" "r < bw_next s \<Longrightarrow> hashes t r = hashes s r"
  using assms by (simp_all add: calm_def)

lemma calm_session: "calm s t \<Longrightarrow> established_at k t = Some x \<Longrightarrow> \<exists>y. established_at k s = Some y \<and> same_session y x"
  by (simp add: calm_def)

lemma calm_approval:
  "calm s t \<Longrightarrow> pairing_at c t = Some p \<Longrightarrow> pn_approval p = Some g \<Longrightarrow>
     \<exists>q. pairing_at c s = Some q \<and> pn_hash q = pn_hash p \<and> pn_approval q = Some g"
  by (simp add: calm_def)

lemma calm_refl [simp]: "calm s s"
  by (auto simp: calm_def)

lemma calm_trans [trans]:
  assumes st: "calm s t" and tu: "calm t u"
  shows "calm s u"
proof -
  have "\<exists>y. established_at k s = Some y \<and> same_session y x" if x: "established_at k u = Some x" for k x
  proof -
    obtain y where y: "established_at k t = Some y" "same_session y x" using calm_session [OF tu x] by blast
    show ?thesis using calm_session [OF st y(1)] same_session_trans [OF _ y(2)] by blast
  qed
  moreover have "\<exists>q. pairing_at c s = Some q \<and> pn_hash q = pn_hash p \<and> pn_approval q = Some g"
    if p: "pairing_at c u = Some p" "pn_approval p = Some g" for c p g
  proof -
    obtain q where q: "pairing_at c t = Some q" "pn_hash q = pn_hash p" "pn_approval q = Some g"
      using calm_approval [OF tu p] by blast
    show ?thesis using calm_approval [OF st q(1,3)] q(2) by simp
  qed
  moreover have "hashes u r = hashes s r" if "r < bw_next s" for r
    using that calm_core [OF st] calm_core(2) [OF tu, of r] by simp
  ultimately show ?thesis
    using calm_core(1) [OF st] calm_core(1) [OF tu] unfolding calm_def by simp
qed

lemma calm_cong:
  assumes "bw_clients t = bw_clients s" "bw_sessions t = bw_sessions s" "bw_next s \<le> bw_next t"
  shows "calm s t"
  using assms by (auto simp: calm_def at_cong [OF assms(1)] hashes_cong [OF assms(2)])

lemma powerless_refl [simp]: "powerless s s"
  by (simp add: powerless_def)

lemma powerless_calm: "powerless s t \<Longrightarrow> calm s t"
  by (simp add: powerless_def)

lemma powerless_trans [trans]: "powerless s t \<Longrightarrow> powerless t u \<Longrightarrow> powerless s u"
  by (auto simp: powerless_def intro: calm_trans)

lemma powerless_gives_up: "lets_go s t \<Longrightarrow> powerless s t"
proof -
  assume g: "lets_go s t"
  note p = lets_go_parts [OF g]
  show ?thesis
    unfolding powerless_def calm_def lets_go_core [OF g] p(6)
    using part_of_Some [OF p(3)] part_of_Some [OF p(1)] by fastforce
qed

lemma powerless_cong:
  assumes "bw_clients t = bw_clients s" "bw_acl t = bw_acl s" "bw_jobs t = bw_jobs s" "bw_commit t = bw_commit s"
    "bw_sessions t = bw_sessions s" "bw_next s \<le> bw_next t"
  shows "powerless s t"
  using assms calm_cong [of t s] by (simp add: powerless_def)

lemma powerless_fold: "(\<And>x u. powerless u (f x u)) \<Longrightarrow> powerless s (fold f xs s)"
  by (induction xs arbitrary: s) (auto intro: powerless_trans)

lemma powerless_set_client:
  assumes "\<And>x. cl_established (f (client_state_of k s)) = Some x \<Longrightarrow> \<exists>y. established_at k s = Some y \<and> same_session y x"
    and "\<And>p g. cl_pairing (f (client_state_of k s)) = Some p \<Longrightarrow> pn_approval p = Some g \<Longrightarrow>
      \<exists>q. pairing_at k s = Some q \<and> pn_hash q = pn_hash p \<and> pn_approval q = Some g"
  shows "powerless s (set_client k f s)"
  using assms by (auto simp: powerless_def calm_def set_client_at)

lemma powerless_set_pairing:
  assumes "\<And>p. pn_hash (f p) = pn_hash p \<and> pn_approval (f p) = pn_approval p"
  shows "powerless s (set_pairing k f s)"
  unfolding set_pairing_def
  by (rule powerless_set_client) (use assms in \<open>auto simp: state_of_fields\<close>)

lemma powerless_reap: "powerless s (reap env now s)"
  by (rule powerless_gives_up [OF lets_go_reap])

lemma powerless_arm: "powerless s (arm_reaper s)"
  by (rule powerless_gives_up [OF lets_go_arm])

lemma powerless_finish: "powerless s (finish_pairing env k d s)"
  by (rule powerless_gives_up [OF lets_go_finish_pairing])

lemma powerless_send: "powerless s (send_e2e k b i step ct s)"
  unfolding send_e2e_def by (rule powerless_gives_up [OF lets_go_send])

lemma powerless_drop: "powerless s (drop_transient_state now s)"
proof -
  let ?s1 = "s\<lparr>bw_epoch := bw_epoch s + 1, bw_frames := [], bw_frame_chars := 0\<rparr>"
  have a: "powerless s ?s1" by (rule powerless_cong) simp_all
  show ?thesis unfolding drop_transient_state_def Let_def
    by (rule powerless_trans [OF a powerless_trans [OF powerless_gives_up [OF lets_go_drop_parts(1)]
          powerless_trans [OF powerless_gives_up [OF lets_go_drop_parts(2)] powerless_arm]]])
qed

lemma powerless_close: "powerless s (on_close env now code s)"
  by (rule powerless_trans [OF powerless_drop [where now = now] powerless_cong]) (simp_all add: on_close_def Let_def)

lemma drop_drain [simp]: "bw_drain (drop_transient_state now s) = bw_drain s"
  by (simp add: drop_transient_state_def Let_def lets_go_core(5) [OF lets_go_drop_parts(1)] lets_go_core(5) [OF lets_go_drop_parts(2)])

lemma close_drain [simp]: "bw_drain (on_close env now code s) = bw_drain s"
  by (simp add: on_close_def Let_def)

lemma powerless_connect: "powerless s (connect env s) \<and> bw_drain (connect env s) = bw_drain s"
  by (auto simp: connect_def intro!: powerless_cong)

lemma powerless_mint: "powerless s (mint_end env now i keys random s) \<and> bw_drain (mint_end env now i keys random s) = bw_drain s"
proof -
  let ?r = "\<lambda>s. evict_invitations (bw_invitations (reap env now s)) (reap env now s)"
  have g: "lets_go u (?r u)" for u :: "'a burrow" by (rule lets_go_trans [OF lets_go_reap evict_invitations_gives_up])
  have a: "powerless u (arm_reaper ((?r u)\<lparr>bw_next := bw_next (?r u) + 1, bw_invitations := xs\<rparr>))" for u :: "'a burrow" and xs
    by (rule powerless_trans [OF powerless_gives_up [OF g] powerless_trans [OF powerless_cong powerless_arm]]) simp_all
  have m: "powerless u (fst (finish_mint env now keys random call u)) \<and> bw_drain (fst (finish_mint env now keys random call u)) = bw_drain u"
    for call and u :: "'a burrow"
    using a powerless_gives_up [OF g] lets_go_core(5) [OF g] by (auto simp: finish_mint_def Let_def split: sum.splits)
  have "powerless s (s\<lparr>bw_mints := ms\<rparr>)" for ms by (rule powerless_cong) simp_all
  then show ?thesis using m powerless_trans by (fastforce simp: mint_end_def)
qed

lemma powerless_message:
  "powerless s (socket_message env now ws raw s) \<and>
    (bw_drain (socket_message env now ws raw s) = bw_drain s \<or> bw_drain (socket_message env now ws raw s) = Ready)"
proof -
  have a: "powerless s (s\<lparr>bw_socket := None\<rparr>)" by (rule powerless_cong) simp_all
  have b: "powerless u (shut_socket ws u)" for ws and u :: "'a burrow" by (rule powerless_cong) simp_all
  have "powerless s (enqueue env now frame chars s) \<and> (bw_drain (enqueue env now frame chars s) = bw_drain s \<or>
      bw_drain (enqueue env now frame chars s) = Ready)" for frame chars
  proof -
    have q: "powerless s (s\<lparr>bw_frames := fs, bw_frame_chars := n\<rparr>)" "powerless s (s\<lparr>bw_frames := fs, bw_frame_chars := n, bw_drain := d\<rparr>)"
      for fs n d by (rule powerless_cong; simp)+
    show ?thesis
      using q by (auto simp: enqueue_def Let_def powerless_trans [OF a powerless_trans [OF powerless_close b]] split: drain.splits)
  qed
  then show ?thesis by (auto simp: socket_message_def on_frame_def split: option.splits)
qed

lemma powerless_stop: "powerless s (burrow_stop now s) \<and> bw_drain (burrow_stop now s) = bw_drain s"
proof -
  let ?s0 = "s\<lparr>bw_stopped := True, bw_status := Stopped, bw_reconnect := None\<rparr>"
  have a: "powerless s ?s0" by (rule powerless_cong) simp_all
  have "powerless (drop_transient_state now ?s0) (burrow_stop now s)"
    by (rule powerless_cong) (simp_all add: burrow_stop_def Let_def)
  from powerless_trans [OF powerless_trans [OF a powerless_drop] this] show ?thesis by (simp add: burrow_stop_def Let_def)
qed

lemma powerless_deny: "powerless s (deny_pairing env now client pairing s) \<and> bw_drain (deny_pairing env now client pairing s) = bw_drain s"
  using powerless_trans [OF powerless_finish powerless_reap] lets_go_core(5) [OF lets_go_finish_pairing]
  by (auto simp: deny_pairing_def split: option.splits)

text \<open>Events that neither drain a frame nor decide or save an approval.\<close>

fun plain_event :: "'k burrow_event \<Rightarrow> bool" where
  "plain_event (DrainTurn now fresh random) = False"
| "plain_event (Approves now client pairing code) = False"
| "plain_event (SaveBegins now random) = False"
| "plain_event (SaveEnds now saved) = False"
| "plain_event e = True"

lemma plain_step:
  assumes "plain_event e" "burrow_step env e s = Some t"
  shows "powerless s t \<and> (bw_drain t = bw_drain s \<or> bw_drain t = Ready)"
proof (cases e)
  case Starts
  have "powerless s (s\<lparr>bw_stopped := False, bw_displaced := False, bw_reconnect := None, bw_backoff := initial_backoff_ms\<rparr>)"
    by (rule powerless_cong) simp_all
  from powerless_trans [OF this] show ?thesis using assms by (auto simp: Starts burrow_start_def powerless_connect)
next
  case (Stops now)
  then show ?thesis using assms by (auto simp: powerless_stop)
next
  case (SocketOpens now ws)
  have "powerless s (reap env now (s\<lparr>bw_status := Connected, bw_backoff := initial_backoff_ms\<rparr>))"
    by (rule powerless_trans [OF powerless_cong powerless_reap]) simp_all
  then show ?thesis using assms by (auto simp: SocketOpens socket_opened_def split: if_splits)
next
  case (SocketDelivers now ws raw)
  then show ?thesis using assms powerless_message [of s env now ws raw] by auto
next
  case (SocketCloses now ws code)
  have "powerless s (on_close env now code (s\<lparr>bw_socket := None\<rparr>))"
    by (rule powerless_trans [OF powerless_cong powerless_close]) simp_all
  then show ?thesis using assms by (auto simp: SocketCloses socket_closed_def split: if_splits)
next
  case ReconnectFires
  have "powerless s (connect env (s\<lparr>bw_reconnect := None\<rparr>)) \<and> bw_drain (connect env (s\<lparr>bw_reconnect := None\<rparr>)) = bw_drain s"
    using powerless_trans [OF powerless_cong [of "s\<lparr>bw_reconnect := None\<rparr>" s]] powerless_connect [of "s\<lparr>bw_reconnect := None\<rparr>" env] by simp
  then show ?thesis using assms by (auto simp: ReconnectFires reconnect_fires_def split: if_splits)
next
  case (ReaperFires now)
  have "powerless s (reap env now (s\<lparr>bw_reaper := None\<rparr>))"
    by (rule powerless_trans [OF powerless_cong powerless_reap]) simp_all
  then show ?thesis using assms by (auto simp: ReaperFires reaper_fires_def split: if_splits)
next
  case (MintBegins token expires)
  then show ?thesis using assms by (auto simp: mint_begin_def intro: powerless_cong)
next
  case (MintEnds now i keys random)
  then show ?thesis using assms by (auto simp: powerless_mint)
next
  case (Denies now client pairing)
  then show ?thesis using assms by (auto simp: powerless_deny)
next
  case (ApiSends r payload)
  then show ?thesis using assms
    by (auto simp: powerless_gives_up [OF api_sends_gives_up(1)] lets_go_core(5) [OF api_sends_gives_up(1)])
qed (use assms in simp_all)

end
