(* ===== verification/Burrow_Grants.thy ===== *)
theory Burrow_Grants
  imports Burrow_Authority
begin

text \<open>
  What one step of the drain and of an approval may grant. Only the turn that ends a connection's presence proof
  starts a session, only the one that ends a pairing's gives it an approval, and only the end of a save changes
  the access list.
\<close>

section \<open>Turns without authority\<close>

lemma powerless_with_session: "powerless s (with_session x s)"
proof -
  have "hashes (with_session x s) = (hashes s)(bw_next s := Some (ts_handshake_hash x))"
    by (auto simp: hashes_def with_session_def fun_eq_iff)
  moreover have "bw_acl (with_session x s) = bw_acl s" "bw_jobs (with_session x s) = bw_jobs s" "bw_commit (with_session x s) = bw_commit s"
    by (simp_all add: with_session_def)
  ultimately show ?thesis by (auto simp: powerless_def calm_def)
qed

lemma powerless_answer:
  assumes "powerless s u" "\<And>p. cl_pairing (f (client_state_of k (with_session x u))) = Some p \<Longrightarrow> pn_approval p = None \<or> pairing_at k u = Some p"
    "cl_established (f (client_state_of k (with_session x u))) = established_at k u"
  shows "powerless s (send_e2e k b i step ct (arm_reaper (set_client k f (with_session x u))))"
proof -
  have "powerless (with_session x u) (set_client k f (with_session x u))"
    by (rule powerless_set_client) (use assms(2,3) in \<open>force+\<close>)
  from powerless_trans [OF powerless_trans [OF assms(1) powerless_with_session] this]
  show ?thesis by (rule powerless_trans [OF _ powerless_trans [OF powerless_arm powerless_send]])
qed

lemma answer_drain [simp]: "bw_drain (send_e2e k b i step ct (arm_reaper (set_client k f (with_session x u)))) = bw_drain u"
  by (simp add: send_e2e_def)

lemma pairing_answered_powerless:
  assumes tidy: "tidy s" and t: "pairing_answered env now fresh random held frame epoch s = Some t"
  shows "powerless s t \<and> bw_drain t = bw_drain s"
proof (cases "Option.bind (read_init env (pairing_invitation_prologue (hi_invitation held)) (hi_key held) frame) (answer_init env fresh [])")
  case None
  then show ?thesis using t by (simp add: pairing_answered_def)
next
  case (Some a)
  obtain message2 static x where a: "a = (message2, static, x)" by (cases a)
  let ?k = "frame_client frame"
  let ?s0 = "if pairing_at ?k s = None then s else finish_pairing env ?k Superseded s"
  have g0: "lets_go s ?s0" by (simp add: lets_go_finish_pairing)
  obtain s1 where e: "evict_oldest_pairing_if_full env ?s0 = Some s1" "lets_go ?s0 s1"
    using pairing_eviction_ends [of ?s0 env] lets_go_parts(7) [OF g0 tidy] by blast
  note g = lets_go_trans [OF g0 e(2)]
  let ?u = "emit (InvitationChanged (pi_invite (hi_invitation held)) Reserved None) (reserve_invitation (hi_ref held) s1)"
  have u: "powerless s ?u" by (rule powerless_trans [OF powerless_gives_up [OF g] powerless_cong]) simp_all
  have d: "bw_drain ?u = bw_drain s" using lets_go_core(5) [OF g] by simp
  let ?p = "\<lparr>pn_ref = bw_next ?u, pn_invite = pi_invite (hi_invitation held), pn_id = to_base64_url random,
     pn_hash = to_base64_url (ts_handshake_hash x), pn_static = static, pn_requested = now, pn_expires = hi_expires held,
     pn_committing = False, pn_approval = None, pn_attempted = False\<rparr>"
  let ?t = "send_e2e ?k True (frame_id frame) (js ''response'') message2
        (arm_reaper (set_client ?k (\<lambda>st. st\<lparr>cl_pairing := Some ?p\<rparr>) (with_session x ?u)))"
  have "powerless s ?t" by (rule powerless_answer [OF u]) (simp_all add: state_of_fields)
  moreover have "bw_drain ?t = bw_drain s" unfolding answer_drain by (rule d)
  moreover have "t = s \<or> t = ?t"
    using t by (auto simp: pairing_answered_def Some a e(1) with_session_def Let_def split: if_splits)
  ultimately show ?thesis by auto
qed

lemma connection_answered_powerless:
  assumes tidy: "tidy s" and t: "connection_answered env now fresh frame epoch h issued s = Some t"
  shows "powerless s t \<and> bw_drain t = bw_drain s"
proof (cases "Option.bind (from_base64_url (ic_challenge issued)) (\<lambda>payload. answer_init env fresh payload h)")
  case None
  then show ?thesis using t by (simp add: connection_answered_def)
next
  case (Some a)
  obtain message2 static x where a: "a = (message2, static, x)" by (cases a)
  let ?s0 = "dispose_connection now (frame_client frame) s"
  obtain s1 where e: "evict_oldest_connection_if_full now ?s0 = Some s1" "lets_go ?s0 s1"
    using connection_eviction_ends [of ?s0 now] lets_go_parts(7) [OF lets_go_dispose_connection tidy] by blast
  note g = lets_go_trans [OF lets_go_dispose_connection e(2)]
  let ?k = "frame_client frame"
  let ?p = "\<lparr>cn_ref = bw_next s1, cn_id = frame_id frame, cn_hash = to_base64_url (ts_handshake_hash x),
     cn_static = static, cn_challenge = ic_challenge issued, cn_expires = ic_expires_at issued\<rparr>"
  let ?t = "send_e2e ?k False (frame_id frame) (js ''response'') message2
        (arm_reaper (set_client ?k (\<lambda>st. st\<lparr>cl_connection := Some ?p\<rparr>) (with_session x s1)))"
  have "powerless s ?t" by (rule powerless_answer [OF powerless_gives_up [OF g]]) (simp_all add: state_of_fields)
  moreover have "bw_drain ?t = bw_drain s" unfolding answer_drain by (rule lets_go_core(5) [OF g])
  moreover have "t = s \<or> t = ?t"
    using t by (auto simp: connection_answered_def Some a e(1) with_session_def Let_def split: if_splits)
  ultimately show ?thesis by auto
qed

lemma powerless_drain: "powerless s (s\<lparr>bw_drain := d\<rparr>)"
  by (rule powerless_cong) simp_all

lemma powerless_receive: "receive_on env r frame s = (t, x) \<Longrightarrow> powerless s t"
  by (rule powerless_gives_up [OF receive_on_gives_up(1)])

lemma receive_on_kept:
  assumes "receive_on env r frame s = (t, x)"
  shows "bw_drain t = bw_drain s" "pairing_at c t = pairing_at c s" "connection_at c t = connection_at c s"
  using lets_go_core(5) [OF receive_on_gives_up(1) [OF assms]] at_cong [OF receive_on_gives_up(3) [OF assms]] by simp_all

text \<open>What a frame newly in hand waits for, and of which record.\<close>

definition waits_rightly :: "int \<Rightarrow> 'k burrow \<Rightarrow> 'k drain \<Rightarrow> bool" where
  "waits_rightly now s d \<longleftrightarrow>
     (\<forall>c p v. d = PairingProof c p v \<longrightarrow> pairing_at c s = Some p) \<and>
     (\<forall>c p valid v. d = ConnectionProof c p valid v \<longrightarrow>
        connection_at c s = Some p \<and> valid = snd (consume_challenge now (cn_challenge p) (bw_challenges s)))"

lemma waits_rightly_plain [simp]:
  "waits_rightly now s Idle" "waits_rightly now s Ready" "waits_rightly now s (PairingHandshake held frame epoch)"
  "waits_rightly now s (ConnectionStatic frame epoch)" "waits_rightly now s (ConnectionAnswer frame epoch h issued)"
  by (simp_all add: waits_rightly_def)

lemma waits_rightly_new [simp]:
  "waits_rightly now s (PairingProof c p v) = (pairing_at c s = Some p)"
  "waits_rightly now s (ConnectionProof c q valid v) =
     (connection_at c s = Some q \<and> valid = snd (consume_challenge now (cn_challenge q) (bw_challenges s)))"
  by (auto simp: waits_rightly_def)

lemma pending_frame_powerless:
  assumes d: "bw_drain s = Ready" and p: "connection_at client s = Some p"
  shows "powerless s (on_pending_frame env now client p frame s) \<and>
    waits_rightly now s (bw_drain (on_pending_frame env now client p frame s))"
proof -
  obtain s1 x where r: "receive_on env (cn_ref p) frame s = (s1, x)" by fastforce
  note k = receive_on_kept [OF r] receive_on_gives_up(4) [OF r]
  note into = powerless_trans [OF powerless_receive [OF r]]
  note g = into [OF powerless_gives_up [OF lets_go_dispose_connection]] into [OF powerless_gives_up [OF lets_go_deny_connection]]
  have g3: "powerless s (s1\<lparr>bw_challenges := ci, bw_drain := dr\<rparr>)" for ci dr by (rule into [OF powerless_cong]) simp_all
  have "bw_drain (dispose_connection now client s1) = Ready" "bw_drain (deny_connection env now client p cd s1) = Ready" for cd
    using k(1) d by (simp_all add: lets_go_core(5) [OF lets_go_dispose_connection] lets_go_core(5) [OF lets_go_deny_connection])
  then show ?thesis using powerless_receive [OF r] k d p
    by (auto simp: on_pending_frame_def r g g3 split: option.splits transport_receipt.splits prod.splits)
qed

lemma established_frame_powerless:
  assumes d: "bw_drain s = Ready"
  shows "powerless s (on_established_frame env now client e frame s) \<and> bw_drain (on_established_frame env now client e frame s) = Ready"
proof -
  obtain s1 x where r: "receive_on env (es_ref e) frame s = (s1, x)" by fastforce
  let ?s2 = "set_client client (\<lambda>st. st\<lparr>cl_established := map_option (\<lambda>x. x\<lparr>es_activity := now\<rparr>) (cl_established st)\<rparr>) s1"
  have "powerless s1 ?s2"
    by (rule powerless_set_client) (auto simp: state_of_fields same_session_def)
  note two = powerless_trans [OF powerless_receive [OF r] this]
  have g: "powerless s (dispose_established client s1)" "powerless s (handle_messages env client (es_ref e) ms ?s2)" for ms
    using powerless_trans [OF powerless_receive [OF r] powerless_gives_up [OF lets_go_dispose_established]]
      powerless_trans [OF two powerless_gives_up] handle_messages_gives_up by blast+
  have "bw_drain (dispose_established client s1) = Ready" "bw_drain (handle_messages env client (es_ref e) ms ?s2) = Ready" for ms
    using lets_go_core(5) [OF lets_go_dispose_established] lets_go_core(5) [OF conjunct1 [OF handle_messages_gives_up], of env client "es_ref e" ms ?s2]
      receive_on_kept(1) [OF r] d by auto
  then show ?thesis using g two receive_on_kept(1) [OF r] d
    by (auto simp: on_established_frame_def r Let_def split: option.splits transport_receipt.splits)
qed

lemma connection_transport_powerless:
  assumes d: "bw_drain s = Ready"
  shows "powerless s (on_connection_transport env now frame s) \<and>
    waits_rightly now s (bw_drain (on_connection_transport env now frame s))"
proof (cases "map_of (bw_clients s) (frame_client frame)")
  case (Some st)
  have "connection_at (frame_client frame) s = cl_connection st" by (simp add: connection_at_def Some)
  then show ?thesis
    using d by (auto simp: on_connection_transport_def Some Let_def pending_frame_powerless established_frame_powerless split: option.splits)
qed (simp add: on_connection_transport_def d)

lemma pairing_transport_powerless:
  assumes d: "bw_drain s = Ready"
  shows "powerless s (on_pairing_transport env now frame s) \<and>
    waits_rightly now s (bw_drain (on_pairing_transport env now frame s))"
proof (cases "pairing_at (frame_client frame) s")
  case (Some p)
  obtain s1 x where r: "receive_on env (pn_ref p) frame s = (s1, x)" by fastforce
  note k = receive_on_kept [OF r]
  note into = powerless_trans [OF powerless_receive [OF r]]
  note g = into [OF powerless_finish] into [OF powerless_gives_up [OF lets_go_dispose_pairing]] into [OF powerless_drain]
  have f: "bw_drain (finish_pairing env k dn u) = bw_drain u" "bw_drain (dispose_pairing k o' u) = bw_drain u" for k dn o' and u :: "'a burrow"
    by (simp_all add: lets_go_core(5) [OF lets_go_finish_pairing])
  show ?thesis using powerless_receive [OF r] k d Some
    by (auto simp: on_pairing_transport_def r Let_def g f powerless_finish split: option.splits transport_receipt.splits)
qed (simp add: on_pairing_transport_def d)

lemma init_powerless:
  assumes d: "bw_drain s = Ready"
  shows "powerless s (on_pairing_init now frame s) \<and> waits_rightly now s (bw_drain (on_pairing_init now frame s))"
    "powerless s (on_connection_init now frame s) \<and> waits_rightly now s (bw_drain (on_connection_init now frame s))"
proof -
  have t: "powerless s (s\<lparr>bw_tokens := b\<rparr>)" "powerless s (s\<lparr>bw_tokens := b, bw_drain := dr\<rparr>)" for b dr
    by (rule powerless_cong; simp)+
  show "powerless s (on_pairing_init now frame s) \<and> waits_rightly now s (bw_drain (on_pairing_init now frame s))"
    "powerless s (on_connection_init now frame s) \<and> waits_rightly now s (bw_drain (on_connection_init now frame s))"
    using d by (auto simp: on_pairing_init_def on_connection_init_def spend_init_token_def t split: option.splits prod.splits bool.splits)
qed

lemma next_frame_powerless:
  assumes d: "bw_drain s = Ready"
  shows "powerless s (next_frame env now s) \<and> waits_rightly now s (bw_drain (next_frame env now s))"
proof (cases "bw_frames s")
  case Nil
  then show ?thesis by (simp add: next_frame_def powerless_drain)
next
  case (Cons f rest)
  obtain frame chars where f: "f = (frame, chars)" by (cases f)
  let ?s1 = "s\<lparr>bw_frames := rest, bw_frame_chars := bw_frame_chars s - chars\<rparr>"
  have p: "powerless s ?s1" by (rule powerless_cong) simp_all
  have w: "waits_rightly now s dr" if "waits_rightly now ?s1 dr" for dr
    using that at_cong [of ?s1 s] by (simp add: waits_rightly_def)
  have d1: "bw_drain ?s1 = Ready" using d by simp
  have gone: "powerless ?s1 (on_client_gone env now k ?s1)" "bw_drain (on_client_gone env now k ?s1) = Ready" for k
    unfolding on_client_gone_def
    by (rule powerless_trans [OF powerless_gives_up [OF lets_go_dispose_client] powerless_reap])
      (simp add: lets_go_core(5) [OF lets_go_dispose_client] d)
  let ?r = "reap env now ?s1"
  have dr: "bw_drain ?r = Ready" using d by simp
  have i: "powerless ?s1 (on_pairing_init now frame ?r)" "powerless ?s1 (on_connection_init now frame ?r)"
    using powerless_trans [OF powerless_reap] init_powerless [OF dr] by blast+
  have wi: "waits_rightly now ?s1 (bw_drain (on_pairing_init now frame ?r))" "waits_rightly now ?s1 (bw_drain (on_connection_init now frame ?r))"
    using dr by (auto simp: on_pairing_init_def on_connection_init_def spend_init_token_def split: option.splits prod.splits bool.splits)
  have e: "powerless ?s1 (on_e2e env now frame ?s1) \<and> waits_rightly now ?s1 (bw_drain (on_e2e env now frame ?s1))"
    by (simp add: on_e2e_def i wi pairing_transport_powerless [OF d1] connection_transport_powerless [OF d1])
  show ?thesis
    using powerless_trans [OF p gone(1)] gone(2) powerless_trans [OF p conjunct1 [OF e]] w [OF conjunct2 [OF e]]
    by (simp add: next_frame_def Cons f Let_def)
qed

section \<open>A verified pairing request\<close>

definition approval_of :: "json \<Rightarrow> js_text \<Rightarrow> pairing_approval" where
  "approval_of v key_hash = \<lparr>pg_code = text_prop (js ''code'') v, pg_account = pp_account (request_proof v),
     pg_credential = pb_credential (pp_binding (request_proof v)), pg_key_hash = key_hash,
     pg_label = bounded_pairing_label (text_prop (js ''label'') v)\<rparr>"

text \<open>The turn that ends it: its proof is of the pending pairing's own transcript.\<close>

definition surfaces :: "('k, 'p) burrow_env \<Rightarrow> 'k burrow \<Rightarrow> js_text \<Rightarrow> nat \<Rightarrow> pairing_approval \<Rightarrow> bool" where
  "surfaces env s c r g \<longleftrightarrow> (\<exists>p v key_hash. bw_drain s = PairingProof c p v \<and> pn_ref p = r \<and>
     verify_presence_proof (be_presence env) (request_proof v) (pairing_binding_of env p v) (be_policy env) = Inr key_hash \<and>
     g = approval_of v key_hash)"

lemma pairing_proved_grants:
  assumes "bw_drain s = PairingProof client p v" "t = pairing_proved env client p v (s\<lparr>bw_drain := Ready\<rparr>)"
  shows "powerless s t \<or>
    (\<exists>q g. pairing_at client s = Some q \<and> surfaces env s client (pn_ref q) g \<and>
       powerless (set_pairing client (\<lambda>q. q\<lparr>pn_approval := Some g\<rparr>) (s\<lparr>bw_drain := Ready\<rparr>)) t)"
proof -
  let ?r = "s\<lparr>bw_drain := Ready\<rparr>"
  have e: "powerless u (emit x u)" for x and u :: "'a burrow" by (rule powerless_cong) simp_all
  show ?thesis
  proof (cases "pairing_is client (pn_ref p) ?r")
    case False
    then show ?thesis using assms(2) by (simp add: pairing_proved_def powerless_drain)
  next
    case True
    then obtain q where q: "pairing_at client s = Some q" "pn_ref q = pn_ref p"
      using at_cong [of ?r s] by (auto simp: pairing_is_def)
    show ?thesis
    proof (cases "verify_presence_proof (be_presence env) (request_proof v) (pairing_binding_of env p v) (be_policy env)")
      case (Inl x)
      then show ?thesis using assms(2) True
        by (simp add: pairing_proved_def powerless_trans [OF powerless_drain powerless_finish])
    next
      case (Inr kh)
      have "surfaces env s client (pn_ref q) (approval_of v kh)"
        unfolding surfaces_def using assms(1) q(2) Inr by auto
      then show ?thesis using assms(2) True Inr q(1) e
        by (auto simp: pairing_proved_def set_pairing_def approval_of_def Let_def)
    qed
  qed
qed

section \<open>A promoted connection\<close>

definition authorizes :: "('k, 'p) burrow_env \<Rightarrow> 'k burrow \<Rightarrow> pending_connection \<Rightarrow> json \<Rightarrow> acl_record \<Rightarrow> bool" where
  "authorizes env s p v r \<longleftrightarrow> r \<in> set (acl_records (bw_acl s)) \<and> ar_active r \<and>
     ac_credential (ar_client r) = pb_credential (pp_binding (request_proof v)) \<and> ac_static (ar_client r) = cn_static p \<and>
     ac_account (ar_client r) = pp_account (request_proof v) \<and>
     verify_presence_proof (be_presence env) (request_proof v) (connection_binding_of env p v) (be_policy env) =
       Inr (ac_key_hash (ar_client r))"

definition admits :: "('k, 'p) burrow_env \<Rightarrow> 'k burrow \<Rightarrow> js_text \<Rightarrow> established_session \<Rightarrow> bool" where
  "admits env s k x \<longleftrightarrow> (\<exists>p v r. bw_drain s = ConnectionProof k p True v \<and> authorizes env s p v r \<and>
     es_ref x = cn_ref p \<and> es_id x = cn_id p \<and> es_static x = cn_static p)"

lemma find_Some: "List.find P xs = Some x \<Longrightarrow> x \<in> set xs \<and> P x"
  by (auto simp: find_Some_iff)

lemma no_miss_authorizes:
  assumes "acl_miss_of (pb_credential (pp_binding (request_proof v))) (cn_static p) (pp_account (request_proof v)) kh s = None"
    "verify_presence_proof (be_presence env) (request_proof v) (connection_binding_of env p v) (be_policy env) = Inr kh"
  shows "\<exists>r. authorizes env s p v r"
proof -
  obtain r where r: "acl_find (pb_credential (pp_binding (request_proof v))) (cn_static p) (bw_acl s) = Some r"
    "ac_account (ar_client r) = pp_account (request_proof v)" "ac_key_hash (ar_client r) = kh"
    using assms(1) by (auto simp: acl_miss_of_def acl_authorize_def Let_def split: option.splits sum.splits if_splits)
  from find_Some [OF r(1) [unfolded acl_find_def]] have "authorizes env s p v r"
    using r(2,3) assms(2) by (simp add: authorizes_def active_for_def)
  then show ?thesis ..
qed

lemma promote_effect:
  assumes t: "t = promote_connection env now client p s"
  shows "bw_acl t = bw_acl s" "bw_jobs t = bw_jobs s" "bw_commit t = bw_commit s" "bw_next t = bw_next s" "hashes t = hashes s"
    "bw_drain t = bw_drain s"
    "pairing_at c t = Some q \<Longrightarrow> pairing_at c s = Some q"
    "established_at c t = Some x \<Longrightarrow> established_at c s = Some x \<or>
       c = client \<and> es_ref x = cn_ref p \<and> es_id x = cn_id p \<and> es_static x = cn_static p"
proof -
  obtain inc others where w: "established_for (cn_static p) client s = (inc, others)" by fastforce
  define u where "u = send_control_frame env client False (cn_id p) (cn_ref p)
        (connection_outcome_value (Inr (bounded_burrow_label (be_label env)))) (displaced_state client inc s)"
  have u: "core u = core s" "hashes u = hashes s" by (simp_all add: u_def displaced_simps)
  have at: "pairing_at c u = pairing_at c s" "established_at c u = (if c = client \<or> inc = Some c then None else established_at c s)" for c
    by (simp_all add: u_def displaced_at)
  let ?e = "\<lparr>es_ref = cn_ref p, es_id = cn_id p, es_static = cn_static p, es_activity = now\<rparr>"
  let ?u1 = "emit (ApiStarted (cn_ref p)) (u\<lparr>bw_apis := (cn_ref p, client, cn_id p) # bw_apis u\<rparr>)"
  let ?t1 = "arm_reaper (set_client client (\<lambda>st. st\<lparr>cl_established := Some ?e\<rparr>) ?u1)"
  have at1: "pairing_at c ?t1 = pairing_at c s" "established_at c ?t1 = (if c = client then Some ?e else established_at c u)" for c
    using at_cong [of ?u1 u] by (simp_all add: set_client_at state_of_fields at)
  have "hashes ?u1 = hashes s" using hashes_cong [of ?u1 u] u(2) by simp
  then have h1: "hashes ?t1 = hashes s" by simp
  have pr: "pairing_at c (prune_client client u) = pairing_at c u" "established_at c (prune_client client u) = established_at c u" for c
    by (auto simp: prune_client_def at_update pairing_at_def established_at_def holds_nothing_def delete_conv' split: option.splits)
  have hp: "hashes (prune_client client u) = hashes s" using hashes_cong [of "prune_client client u" u] u(2) by simp
  have cases: "(lets_go s t) \<or> t = prune_client client u \<or> t = ?t1"
    unfolding t promote_connection_def w
    by (auto simp: Let_def u_def displaced_state_def lets_go_deny_connection)
  note c = core_fields [OF u(1)]
  show "bw_acl t = bw_acl s" "bw_jobs t = bw_jobs s" "bw_commit t = bw_commit s" "bw_next t = bw_next s" "bw_drain t = bw_drain s"
    using cases c lets_go_core [of s t] by auto
  show "hashes t = hashes s" using cases lets_go_parts(6) [of s t] h1 hp by auto
  show "pairing_at c t = Some q \<Longrightarrow> pairing_at c s = Some q"
    using cases at(1) at1(1) pr part_of_Some [OF lets_go_parts(1) [of s t]] by auto
  show "established_at c t = Some x \<Longrightarrow> established_at c s = Some x \<or>
       c = client \<and> es_ref x = cn_ref p \<and> es_id x = cn_id p \<and> es_static x = cn_static p"
    using cases at(2) at1(2) pr(2) part_of_Some [OF lets_go_parts(3) [of s t]] by (auto split: if_splits)
qed

lemma connection_proved_grants:
  assumes d: "bw_drain s = ConnectionProof client p valid v"
    and t: "t = connection_proved env now client p valid v (s\<lparr>bw_drain := Ready\<rparr>)"
  shows "bw_acl t = bw_acl s" "bw_jobs t = bw_jobs s" "bw_commit t = bw_commit s" "bw_next t = bw_next s" "hashes t = hashes s"
    "bw_drain t = Ready"
    "pairing_at c t = Some q \<Longrightarrow> pairing_at c s = Some q"
    "established_at c t = Some x \<Longrightarrow> established_at c s = Some x \<or> admits env s c x"
proof -
  let ?r = "s\<lparr>bw_drain := Ready\<rparr>"
  have h: "hashes ?r = hashes s" by (rule hashes_cong) simp
  have at: "pairing_at c ?r = pairing_at c s" "established_at c ?r = established_at c s" for c using at_cong [of ?r s] by simp_all
  have cases: "lets_go ?r t \<or> t = promote_connection env now client p ?r \<and> (\<exists>r. authorizes env s p v r) \<and> valid"
  proof (cases "connection_is client (cn_ref p) ?r \<and> valid \<and> (\<exists>kh.
      verify_presence_proof (be_presence env) (request_proof v) (connection_binding_of env p v) (be_policy env) = Inr kh \<and>
      acl_miss_of (pb_credential (pp_binding (request_proof v))) (cn_static p) (pp_account (request_proof v)) kh ?r = None)")
    case True
    then obtain kh where kh: "verify_presence_proof (be_presence env) (request_proof v) (connection_binding_of env p v) (be_policy env) = Inr kh"
      "acl_miss_of (pb_credential (pp_binding (request_proof v))) (cn_static p) (pp_account (request_proof v)) kh ?r = None" by blast
    have "\<exists>r. authorizes env ?r p v r" by (rule no_miss_authorizes [OF kh(2,1)])
    then have "\<exists>r. authorizes env s p v r" by (simp add: authorizes_def)
    moreover have "t = promote_connection env now client p ?r" using True kh by (simp add: t connection_proved_def)
    ultimately show ?thesis using True by blast
  next
    case False
    then show ?thesis
      by (auto simp: t connection_proved_def lets_go_deny_connection split: bool.splits sum.splits)
  qed
  have same: "bw_acl t = bw_acl s \<and> bw_jobs t = bw_jobs s \<and> bw_commit t = bw_commit s \<and> bw_next t = bw_next s \<and>
      bw_drain t = Ready \<and> hashes t = hashes s \<and>
      (pairing_at c t = Some q \<longrightarrow> pairing_at c s = Some q) \<and>
      (established_at c t = Some x \<longrightarrow> established_at c s = Some x \<or> admits env s c x)"
  proof (cases "lets_go ?r t")
    case True
    note l = lets_go_core [OF True] lets_go_parts(6) [OF True]
    have "pairing_at c t = Some q \<longrightarrow> pairing_at c s = Some q" "established_at c t = Some x \<longrightarrow> established_at c s = Some x"
      using part_of_Some [OF lets_go_parts(1) [OF True]] part_of_Some [OF lets_go_parts(3) [OF True]] at by auto
    then show ?thesis using l h by simp
  next
    case False
    then obtain r where up: "t = promote_connection env now client p ?r" "authorizes env s p v r" "valid" using cases by blast
    note pe = promote_effect [OF up(1)]
    have "admits env s client x" if "es_ref x = cn_ref p" "es_id x = cn_id p" "es_static x = cn_static p"
      unfolding admits_def by (rule exI [of _ p], rule exI [of _ v], rule exI [of _ r]) (use that up(2,3) d in simp)
    then have "established_at c t = Some x \<longrightarrow> established_at c s = Some x \<or> admits env s c x"
      using pe(8) [of c x] at(2) by metis
    moreover have "pairing_at c t = Some q \<longrightarrow> pairing_at c s = Some q" using pe(7) [of c q] at(1) by metis
    ultimately show ?thesis using pe(1-6) h by simp
  qed
  then show "bw_acl t = bw_acl s" "bw_jobs t = bw_jobs s" "bw_commit t = bw_commit s" "bw_next t = bw_next s" "hashes t = hashes s"
    "bw_drain t = Ready" "pairing_at c t = Some q \<Longrightarrow> pairing_at c s = Some q"
    "established_at c t = Some x \<Longrightarrow> established_at c s = Some x \<or> admits env s c x" by blast+
qed

section \<open>A turn of the drain\<close>

lemma turn_grants:
  assumes inv: "burrow_inv s" and t: "drain_turn env now fresh random s = Some t"
  shows "bw_acl t = bw_acl s \<and> bw_jobs t = bw_jobs s \<and> bw_commit t = bw_commit s \<and>
      bw_next s \<le> bw_next t \<and> (\<forall>r<bw_next s. hashes t r = hashes s r)" (is ?same)
    "established_at k t = Some x \<Longrightarrow> (\<exists>y. established_at k s = Some y \<and> same_session y x) \<or> admits env s k x"
    "pairing_at c t = Some p \<Longrightarrow> pn_approval p = Some g \<Longrightarrow>
       \<exists>q. pairing_at c s = Some q \<and> pn_hash q = pn_hash p \<and> (pn_approval q = Some g \<or> surfaces env s c (pn_ref q) g)"
    "waits_rightly now s (bw_drain t)"
proof -
  let ?r = "s\<lparr>bw_drain := Ready\<rparr>"
  have wr: "waits_rightly now s d" if "waits_rightly now ?r d" for d
    using that at_cong [of ?r s] by (simp add: waits_rightly_def)
  have tidy: "tidy ?r" using inv_tidy [OF inv] tidy_but_cong [of ?r s] by simp
  have from_quiet: "?same \<and> (\<forall>k x. established_at k t = Some x \<longrightarrow> (\<exists>y. established_at k s = Some y \<and> same_session y x) \<or> admits env s k x) \<and>
      (\<forall>c p g. pairing_at c t = Some p \<longrightarrow> pn_approval p = Some g \<longrightarrow>
        (\<exists>q. pairing_at c s = Some q \<and> pn_hash q = pn_hash p \<and> (pn_approval q = Some g \<or> surfaces env s c (pn_ref q) g)))"
    if "powerless s t" using that unfolding powerless_def calm_def by blast
  have "?same \<and> (\<forall>k x. established_at k t = Some x \<longrightarrow> (\<exists>y. established_at k s = Some y \<and> same_session y x) \<or> admits env s k x) \<and>
      (\<forall>c p g. pairing_at c t = Some p \<longrightarrow> pn_approval p = Some g \<longrightarrow>
        (\<exists>q. pairing_at c s = Some q \<and> pn_hash q = pn_hash p \<and> (pn_approval q = Some g \<or> surfaces env s c (pn_ref q) g))) \<and>
      waits_rightly now s (bw_drain t)"
  proof (cases "bw_drain s")
    case Idle
    then show ?thesis using t from_quiet by (simp add: drain_turn_def)
  next
    case Ready
    then show ?thesis using t from_quiet next_frame_powerless [OF Ready, of env now] by (simp add: drain_turn_def Let_def)
  next
    case (PairingHandshake held frame epoch)
    then have "pairing_answered env now fresh random held frame epoch ?r = Some t" using t by (simp add: drain_turn_def Let_def)
    from pairing_answered_powerless [OF tidy this] show ?thesis using from_quiet powerless_trans [OF powerless_drain] by fastforce
  next
    case (PairingProof client p v)
    have t': "t = pairing_proved env client p v ?r" using t PairingProof by (simp add: drain_turn_def Let_def)
    have "bw_drain t = Ready"
      by (simp add: t' pairing_proved_def Let_def lets_go_core(5) [OF lets_go_finish_pairing] split: sum.splits)
    then have w: "waits_rightly now s (bw_drain t)" by simp
    from pairing_proved_grants [OF PairingProof t'] show ?thesis
    proof
      assume "powerless s t"
      then show ?thesis using from_quiet w by blast
    next
      assume "\<exists>q g. pairing_at client s = Some q \<and> surfaces env s client (pn_ref q) g \<and>
         powerless (set_pairing client (\<lambda>q. q\<lparr>pn_approval := Some g\<rparr>) ?r) t"
      then obtain q g where q: "pairing_at client s = Some q" "surfaces env s client (pn_ref q) g"
        and l: "powerless (set_pairing client (\<lambda>q. q\<lparr>pn_approval := Some g\<rparr>) ?r) t" by blast
      let ?u = "set_pairing client (\<lambda>q. q\<lparr>pn_approval := Some g\<rparr>) ?r"
      have at: "pairing_at c ?u = (if c = client then Some (q\<lparr>pn_approval := Some g\<rparr>) else pairing_at c s)"
        "established_at c ?u = established_at c s" for c
        using q(1) at_cong [of ?r s] by (auto simp: set_pairing_def set_client_at state_of_fields)
      have h: "hashes ?u = hashes s" using hashes_cong [of ?r s] by (simp add: set_pairing_def)
      have n: "bw_next ?u = bw_next s" "bw_acl ?u = bw_acl s" "bw_jobs ?u = bw_jobs s" "bw_commit ?u = bw_commit s"
        by (simp_all add: set_pairing_def)
      have c: "calm ?u t" by (rule powerless_calm [OF l])
      have "?same" using l calm_core [OF c] h n by (simp add: powerless_def)
      moreover have "\<exists>y. established_at k s = Some y \<and> same_session y x" if "established_at k t = Some x" for k x
        using calm_session [OF c that] by (simp add: at)
      moreover have "\<exists>q. pairing_at c s = Some q \<and> pn_hash q = pn_hash p \<and> (pn_approval q = Some g \<or> surfaces env s c (pn_ref q) g)"
        if p: "pairing_at c t = Some p" "pn_approval p = Some g" for c p g
        using calm_approval [OF c p] q by (auto simp: at split: if_splits)
      ultimately show ?thesis using w by blast
    qed
  next
    case (ConnectionStatic frame epoch)
    then have t': "t = connection_read env now random frame epoch ?r" using t by (simp add: drain_turn_def Let_def)
    have "powerless s (s\<lparr>bw_challenges := ci, bw_drain := d\<rparr>)" for ci d by (rule powerless_cong) simp_all
    then have "powerless s t \<and> waits_rightly now s (bw_drain t)"
      by (auto simp: t' connection_read_def powerless_drain split: option.splits prod.splits)
    then show ?thesis using from_quiet by blast
  next
    case (ConnectionAnswer frame epoch h issued)
    then have "connection_answered env now fresh frame epoch h issued ?r = Some t" using t by (simp add: drain_turn_def Let_def)
    from connection_answered_powerless [OF tidy this] show ?thesis using from_quiet powerless_trans [OF powerless_drain] by fastforce
  next
    case (ConnectionProof client p valid v)
    have t': "t = connection_proved env now client p valid v ?r" using t ConnectionProof by (simp add: drain_turn_def Let_def)
    note g = connection_proved_grants [OF ConnectionProof t']
    have "(\<exists>y. established_at k s = Some y \<and> same_session y x) \<or> admits env s k x" if "established_at k t = Some x" for k x
      using g(8) [OF that] same_session_refl by blast
    moreover have "\<exists>q. pairing_at c s = Some q \<and> pn_hash q = pn_hash p \<and> (pn_approval q = Some g \<or> surfaces env s c (pn_ref q) g)"
      if "pairing_at c t = Some p" "pn_approval p = Some g" for c p g
      using g(7) [OF that(1)] that(2) by blast
    ultimately show ?thesis using g(1-6) by simp
  qed
  then show ?same "established_at k t = Some x \<Longrightarrow> (\<exists>y. established_at k s = Some y \<and> same_session y x) \<or> admits env s k x"
    "pairing_at c t = Some p \<Longrightarrow> pn_approval p = Some g \<Longrightarrow>
       \<exists>q. pairing_at c s = Some q \<and> pn_hash q = pn_hash p \<and> (pn_approval q = Some g \<or> surfaces env s c (pn_ref q) g)"
    "waits_rightly now s (bw_drain t)" by blast+
qed

section \<open>A local confirmation and its save\<close>

definition confirms :: "int \<Rightarrow> js_text \<Rightarrow> js_text \<Rightarrow> js_text \<Rightarrow> 'k burrow \<Rightarrow> save_job \<Rightarrow> bool" where
  "confirms now client pairing code s job \<longleftrightarrow> sj_client job = client \<and> pairing_at client s = Some (sj_pairing job) \<and>
     pn_id (sj_pairing job) = pairing \<and> pn_approval (sj_pairing job) = Some (sj_approval job) \<and>
     \<not> pn_attempted (sj_pairing job) \<and> now < pn_expires (sj_pairing job) \<and>
     constant_time_equal (utf8_encode code) (utf8_encode (pg_code (sj_approval job)))"

lemma drain_finish [simp]: "bw_drain (finish_pairing env k d s) = bw_drain s"
  by (rule lets_go_core(5) [OF lets_go_finish_pairing])

lemma set_pairing_drain [simp]: "bw_drain (set_pairing k f s) = bw_drain s"
  by (simp add: set_pairing_def)

lemma approve_grants:
  assumes t: "t = approve_pairing env now client pairing code s"
  shows "bw_drain t = bw_drain s \<and> (powerless s t \<or>
    (\<exists>job. confirms now client pairing code s job \<and> calm s t \<and> bw_acl t = bw_acl s \<and> bw_commit t = bw_commit s \<and>
       bw_jobs t = bw_jobs s @ [job]))"
proof (cases "pairing_at client s")
  case (Some p)
  show ?thesis
  proof (cases "pn_approval p")
    case None
    then show ?thesis by (simp add: t approve_pairing_def Some)
  next
    case g: (Some g)
    let ?s1 = "set_pairing client (\<lambda>q. q\<lparr>pn_attempted := True\<rparr>) s"
    let ?job = "\<lparr>sj_client = client, sj_pairing = p, sj_approval = g\<rparr>"
    have s1: "powerless s ?s1" by (rule powerless_set_pairing) simp
    have f: "powerless s (finish_pairing env client d ?s1)" for d by (rule powerless_trans [OF s1 powerless_finish])
    have c: "calm s (?s1\<lparr>bw_jobs := js\<rparr>)" for js
      by (rule calm_trans [OF powerless_calm [OF s1] calm_cong]) simp_all
    note same = s1 [unfolded powerless_def]
    show ?thesis
    proof (cases "pn_id p = pairing \<and> \<not> pn_attempted p \<and> now < pn_expires p \<and> be_static_public env \<noteq> None \<and>
        constant_time_equal (utf8_encode code) (utf8_encode (pg_code g))")
      case True
      then have "confirms now client pairing code s ?job" using Some g by (simp add: confirms_def)
      moreover have "t = ?s1\<lparr>bw_jobs := bw_jobs ?s1 @ [?job]\<rparr>"
        using True by (auto simp: t approve_pairing_def Some g Let_def)
      ultimately show ?thesis using c same by auto
    next
      case False
      then show ?thesis using f by (auto simp: t approve_pairing_def Some g Let_def)
    qed
  qed
qed (simp add: t approve_pairing_def)

lemma failed_powerless: "powerless s (save_failed env now job s) \<and> bw_drain (save_failed env now job s) = bw_drain s"
proof -
  have "powerless s (set_pairing k (\<lambda>q. q\<lparr>pn_committing := False\<rparr>) s)" for k by (rule powerless_set_pairing) simp
  note g = powerless_trans [OF this powerless_trans [OF powerless_finish powerless_reap]]
  show ?thesis by (simp add: save_failed_def g)
qed

lemma update_first_clients:
  "(\<And>r. ar_client (f r) = ar_client r) \<Longrightarrow> ar_client ` set (update_first P f rs) = ar_client ` set rs"
  by (induction rs) auto

lemma approve_clients:
  "acl_approve now client acl = (fresh, r) \<Longrightarrow>
     ar_client ` set (acl_records fresh) = insert client (ar_client ` set (acl_records acl))"
proof -
  assume "acl_approve now client acl = (fresh, r)"
  then have f: "acl_records fresh = update_first (active_for (ac_credential client) (ac_static client))
      (\<lambda>r. r\<lparr>ar_revoked_at := Some now\<rparr>) (acl_records acl) @ [r]" "ar_client r = client"
    by (auto simp: acl_approve_def Let_def)
  show ?thesis unfolding f(1) set_append image_Un by (simp add: update_first_clients f(2))
qed

lemma save_begin_grants:
  assumes t: "t = save_begin env now random s"
  shows "calm s t \<and> bw_acl t = bw_acl s \<and> bw_drain t = bw_drain s \<and> set (bw_jobs t) \<subseteq> set (bw_jobs s) \<and>
    (bw_commit t = bw_commit s \<or> (\<exists>job cm. job \<in> set (bw_jobs s) \<and> bw_commit t = Some cm \<and>
       ar_client ` set (acl_records (cm_acl cm)) =
         insert (approved_client_of job random) (ar_client ` set (acl_records (bw_acl s)))))"
proof (cases "bw_commit s = None \<and> bw_jobs s \<noteq> []")
  case False
  then have "t = s" by (auto simp: t save_begin_def split: option.splits list.splits)
  then show ?thesis by simp
next
  case True
  then obtain job rest where j: "bw_commit s = None" "bw_jobs s = job # rest" by (cases "bw_jobs s") auto
  let ?s1 = "s\<lparr>bw_jobs := rest\<rparr>"
  have c1: "calm s ?s1" by (rule calm_cong) simp_all
  have quiet: ?thesis if "powerless ?s1 t" "bw_drain t = bw_drain s"
    using that calm_trans [OF c1 powerless_calm [OF that(1)]] j by (auto simp: powerless_def)
  show ?thesis
  proof (cases "pairing_is (sj_client job) (pn_ref (sj_pairing job)) ?s1 \<and> now < pn_expires (sj_pairing job)")
    case False
    then show ?thesis by (intro quiet) (auto simp: t save_begin_def j Let_def powerless_finish)
  next
    case True
    show ?thesis
    proof (cases "acl_from_records (acl_burrow (bw_acl ?s1)) (acl_records (bw_acl ?s1))")
      case (Inl x)
      then have "t = save_failed env now job ?s1" using True by (simp add: t save_begin_def j)
      then show ?thesis by (intro quiet) (simp_all add: failed_powerless)
    next
      case (Inr copy)
      obtain fresh r where a: "acl_approve now (approved_client_of job random) copy = (fresh, r)" by fastforce
      let ?s2 = "set_pairing (sj_client job) (\<lambda>q. q\<lparr>pn_committing := True\<rparr>) ?s1"
      let ?cm = "\<lparr>cm_job = job, cm_acl = fresh, cm_record = r\<rparr>"
      have t': "t = emit (AclSaved (acl_records fresh)) (?s2\<lparr>bw_commit := Some ?cm\<rparr>)"
        using True Inr a by (simp add: t save_begin_def j)
      have s2: "powerless ?s1 ?s2" by (rule powerless_set_pairing) simp
      have "calm ?s2 t" unfolding t' by (rule calm_cong) simp_all
      then have "calm s t" by (rule calm_trans [OF calm_trans [OF c1 powerless_calm [OF s2]]])
      moreover have "acl_records copy = acl_records (bw_acl s)" using Inr by (auto simp: acl_from_records_def split: option.splits)
      then have "ar_client ` set (acl_records (cm_acl ?cm)) =
         insert (approved_client_of job random) (ar_client ` set (acl_records (bw_acl s)))"
        using approve_clients [OF a] by simp
      moreover have "bw_acl t = bw_acl s" "bw_jobs t = rest" "bw_commit t = Some ?cm" "bw_drain t = bw_drain s"
        using s2 by (simp_all add: t' powerless_def)
      ultimately show ?thesis using j(2) by auto
    qed
  qed
qed

lemma save_end_grants:
  assumes t: "t = save_end env now saved s"
  shows "calm s t \<and> bw_jobs t = bw_jobs s \<and> bw_drain t = bw_drain s \<and> (bw_commit t = bw_commit s \<or> bw_commit t = None) \<and>
    (bw_acl t = bw_acl s \<or> (\<exists>cm. bw_commit s = Some cm \<and> bw_acl t = cm_acl cm))"
proof (cases "bw_commit s")
  case (Some cm)
  let ?s1 = "s\<lparr>bw_commit := None\<rparr>"
  let ?s2 = "?s1\<lparr>bw_acl := cm_acl cm\<rparr>"
  have c: "calm s ?s1" "calm s ?s2" by (rule calm_cong; simp)+
  have done_now: ?thesis if "powerless u t" "bw_drain t = bw_drain s" "u = ?s1 \<or> u = ?s2" for u
    using that(2,3) calm_trans [OF _ powerless_calm [OF that(1)], of s] c that(1) Some unfolding powerless_def by auto
  have sent: "powerless u (reap env now (dispose_pairing k (Some Paired) (send_pairing_outcome env k p oc u))) \<and>
      bw_drain (reap env now (dispose_pairing k (Some Paired) (send_pairing_outcome env k p oc u))) = bw_drain u" for u :: "'a burrow" and k p oc
  proof -
    have "lets_go u (send_pairing_outcome env k p oc u)" unfolding send_pairing_outcome_def by (rule lets_go_control)
    note g = lets_go_trans [OF this lets_go_trans [OF lets_go_dispose_pairing lets_go_reap]]
    show ?thesis using powerless_gives_up [OF g] lets_go_core(5) [OF g] by simp
  qed
  have [simp]: "bw_drain (send_pairing_outcome env k p oc u) = bw_drain u" for k p oc and u :: "'a burrow"
    by (simp add: send_pairing_outcome_def)
  consider (failed) "t = save_failed env now (cm_job cm) ?s1" | (gone) "t = ?s2"
    | (told) k p oc where "t = reap env now (dispose_pairing k (Some Paired) (send_pairing_outcome env k p oc ?s2))"
    using t by (auto simp: save_end_def Some Let_def split: if_splits)
  then show ?thesis
  proof cases
    case failed
    show ?thesis by (rule done_now [of ?s1]) (simp_all add: failed failed_powerless)
  next
    case gone
    show ?thesis by (rule done_now [of ?s2]) (simp_all add: gone)
  next
    case told
    show ?thesis by (rule done_now [of ?s2]) (simp_all add: told sent)
  qed
qed (simp add: t save_end_def)

end
