(* ===== verification/Burrow_History.thy ===== *)
theory Burrow_History
  imports Burrow_Grants
begin

text \<open>
  What a run must have held before a session is in place or a record is on the access list: the events are traced
  back through the run, each to the state it met.
\<close>

section \<open>Events of a run\<close>

text \<open>Some event of the run met a state at which \<open>P\<close> holds, of the events before it, of it and of that state.\<close>

definition happened :: "('k, 'p) burrow_env \<Rightarrow> 'k burrow \<Rightarrow> 'k burrow_event list \<Rightarrow>
    ('k burrow_event list \<Rightarrow> 'k burrow_event \<Rightarrow> 'k burrow \<Rightarrow> bool) \<Rightarrow> bool" where
  "happened env s0 es P \<longleftrightarrow> (\<exists>pre e post s. es = pre @ e # post \<and> burrow_run env pre s0 = Some s \<and> P pre e s)"

lemma happened_later: "happened env s0 es P \<Longrightarrow> happened env s0 (es @ [e]) P"
  unfolding happened_def by fastforce

lemma happened_now: "burrow_run env es s0 = Some s \<Longrightarrow> P es e s \<Longrightarrow> happened env s0 (es @ [e]) P"
  unfolding happened_def by blast

lemma run_append: "burrow_run env (es @ [e]) s = Option.bind (burrow_run env es s) (burrow_step env e)"
  by (induction es arbitrary: s) (simp_all split: bind_splits)

text \<open>A challenge was redeemed in time, for a connection pending on the transcript that its session has.\<close>

definition redeemed :: "('k, 'p) burrow_env \<Rightarrow> 'k burrow \<Rightarrow> 'k burrow_event list \<Rightarrow> js_text \<Rightarrow> pending_connection \<Rightarrow> bool" where
  "redeemed env s0 es c p \<longleftrightarrow> happened env s0 es (\<lambda>pre e s. \<exists>now fresh random. e = DrainTurn now fresh random \<and>
     connection_at c s = Some p \<and> transcript_of s (cn_ref p) = Some (cn_hash p) \<and>
     snd (consume_challenge now (cn_challenge p) (bw_challenges s)))"

text \<open>A presence proof of the pairing's transcript was verified.\<close>

definition surfaced :: "('k, 'p) burrow_env \<Rightarrow> 'k burrow \<Rightarrow> 'k burrow_event list \<Rightarrow> js_text \<Rightarrow> js_text \<Rightarrow> pairing_approval \<Rightarrow> bool" where
  "surfaced env s0 es c transcript g \<longleftrightarrow> happened env s0 es (\<lambda>pre e s. \<exists>now fresh random p v key_hash.
     e = DrainTurn now fresh random \<and> bw_drain s = PairingProof c p v \<and> pn_hash p = transcript \<and>
     verify_presence_proof (be_presence env) (request_proof v) (pairing_binding_of env p v) (be_policy env) = Inr key_hash \<and>
     g = approval_of v key_hash)"

text \<open>The person at the machine typed the code of a pending pairing that had shown presence.\<close>

definition confirmed :: "('k, 'p) burrow_env \<Rightarrow> 'k burrow \<Rightarrow> 'k burrow_event list \<Rightarrow> save_job \<Rightarrow> bool" where
  "confirmed env s0 es job \<longleftrightarrow> happened env s0 es (\<lambda>pre e s. \<exists>now client pairing code. e = Approves now client pairing code \<and>
     confirms now client pairing code s job \<and> surfaced env s0 pre client (pn_hash (sj_pairing job)) (sj_approval job))"

definition granted :: "('k, 'p) burrow_env \<Rightarrow> 'k burrow \<Rightarrow> 'k burrow_event list \<Rightarrow> approved_client \<Rightarrow> bool" where
  "granted env s0 es a \<longleftrightarrow> (\<exists>job random. a = approved_client_of job random \<and> confirmed env s0 es job)"

definition entitled :: "('k, 'p) burrow_env \<Rightarrow> acl_record list \<Rightarrow> 'k burrow \<Rightarrow> 'k burrow_event list \<Rightarrow> approved_client \<Rightarrow> bool" where
  "entitled env records s0 es a \<longleftrightarrow> a \<in> ar_client ` set records \<or> granted env s0 es a"

text \<open>A session was admitted by an active record that holds all four identities, after its challenge was redeemed.\<close>

definition admitted :: "('k, 'p) burrow_env \<Rightarrow> acl_record list \<Rightarrow> 'k burrow \<Rightarrow> 'k burrow_event list \<Rightarrow> js_text \<Rightarrow>
    established_session \<Rightarrow> bool" where
  "admitted env records s0 es c x \<longleftrightarrow> happened env s0 es (\<lambda>pre e s. \<exists>now fresh random p v r. e = DrainTurn now fresh random \<and>
     bw_drain s = ConnectionProof c p True v \<and> redeemed env s0 pre c p \<and> authorizes env s p v r \<and>
     entitled env records s0 pre (ar_client r) \<and>
     es_ref x = cn_ref p \<and> es_id x = cn_id p \<and> es_static x = cn_static p)"

lemma later:
  "redeemed env s0 es c p \<Longrightarrow> redeemed env s0 (es @ [e]) c p"
  "surfaced env s0 es c h g \<Longrightarrow> surfaced env s0 (es @ [e]) c h g"
  "confirmed env s0 es job \<Longrightarrow> confirmed env s0 (es @ [e]) job"
  "granted env s0 es a \<Longrightarrow> granted env s0 (es @ [e]) a"
  "entitled env records s0 es a \<Longrightarrow> entitled env records s0 (es @ [e]) a"
  "admitted env records s0 es c x \<Longrightarrow> admitted env records s0 (es @ [e]) c x"
  unfolding redeemed_def surfaced_def confirmed_def granted_def entitled_def admitted_def
  using happened_later by blast+

lemma admitted_same: "admitted env records s0 es c y \<Longrightarrow> same_session y x \<Longrightarrow> admitted env records s0 es c x"
  unfolding admitted_def same_session_def by simp

section \<open>The invariant of a run\<close>

definition hand_traced :: "('k, 'p) burrow_env \<Rightarrow> 'k burrow \<Rightarrow> 'k burrow_event list \<Rightarrow> 'k burrow \<Rightarrow> bool" where
  "hand_traced env s0 es s \<longleftrightarrow>
     (\<forall>c p v. bw_drain s = PairingProof c p v \<longrightarrow> pn_ref p < bw_next s \<and> transcript_of s (pn_ref p) = Some (pn_hash p)) \<and>
     (\<forall>c p v. bw_drain s = ConnectionProof c p True v \<longrightarrow> redeemed env s0 es c p)"

definition traced :: "('k, 'p) burrow_env \<Rightarrow> acl_record list \<Rightarrow> 'k burrow \<Rightarrow> 'k burrow_event list \<Rightarrow> 'k burrow \<Rightarrow> bool" where
  "traced env records s0 es s \<longleftrightarrow> hand_traced env s0 es s \<and>
     (\<forall>k x. established_at k s = Some x \<longrightarrow> admitted env records s0 es k x) \<and>
     (\<forall>c p g. pairing_at c s = Some p \<longrightarrow> pn_approval p = Some g \<longrightarrow> surfaced env s0 es c (pn_hash p) g) \<and>
     (\<forall>job \<in> set (bw_jobs s). confirmed env s0 es job) \<and>
     (\<forall>cm. bw_commit s = Some cm \<longrightarrow> (\<forall>a \<in> ar_client ` set (acl_records (cm_acl cm)). entitled env records s0 es a)) \<and>
     (\<forall>a \<in> ar_client ` set (acl_records (bw_acl s)). entitled env records s0 es a)"

lemma traced_parts:
  assumes "traced env records s0 es s"
  shows "hand_traced env s0 es s" "established_at k s = Some x \<Longrightarrow> admitted env records s0 es k x"
    "pairing_at c s = Some p \<Longrightarrow> pn_approval p = Some g \<Longrightarrow> surfaced env s0 es c (pn_hash p) g"
    "job \<in> set (bw_jobs s) \<Longrightarrow> confirmed env s0 es job"
    "bw_commit s = Some cm \<Longrightarrow> a \<in> ar_client ` set (acl_records (cm_acl cm)) \<Longrightarrow> entitled env records s0 es a"
    "a \<in> ar_client ` set (acl_records (bw_acl s)) \<Longrightarrow> entitled env records s0 es a"
proof -
  note a = assms [unfolded traced_def]
  note b = conjunct2 [OF a] note c = conjunct2 [OF b] note d = conjunct2 [OF c] note e = conjunct2 [OF d]
  show "hand_traced env s0 es s" by (rule conjunct1 [OF a])
  show "established_at k s = Some x \<Longrightarrow> admitted env records s0 es k x" using conjunct1 [OF b] by blast
  show "pairing_at c s = Some p \<Longrightarrow> pn_approval p = Some g \<Longrightarrow> surfaced env s0 es c (pn_hash p) g" using conjunct1 [OF c] by blast
  show "job \<in> set (bw_jobs s) \<Longrightarrow> confirmed env s0 es job" using conjunct1 [OF d] by blast
  show "bw_commit s = Some cm \<Longrightarrow> a \<in> ar_client ` set (acl_records (cm_acl cm)) \<Longrightarrow> entitled env records s0 es a"
    using conjunct1 [OF e] by blast
  show "a \<in> ar_client ` set (acl_records (bw_acl s)) \<Longrightarrow> entitled env records s0 es a" using conjunct2 [OF e] by blast
qed

text \<open>A calm step keeps all but perhaps what the access list, its jobs and the frame in hand claim.\<close>

lemma traced_calm:
  assumes "traced env records s0 es s" "calm s t" "hand_traced env s0 (es @ [e]) t"
    and "\<And>job. job \<in> set (bw_jobs t) \<Longrightarrow> job \<in> set (bw_jobs s) \<or> confirmed env s0 (es @ [e]) job"
    and "\<And>cm a. bw_commit t = Some cm \<Longrightarrow> a \<in> ar_client ` set (acl_records (cm_acl cm)) \<Longrightarrow>
      bw_commit s = Some cm \<or> entitled env records s0 (es @ [e]) a"
    and "bw_acl t = bw_acl s \<or> (\<exists>cm. bw_commit s = Some cm \<and> bw_acl t = cm_acl cm)"
  shows "traced env records s0 (es @ [e]) t"
  unfolding traced_def
proof (intro conjI allI impI ballI)
  show "hand_traced env s0 (es @ [e]) t" by (rule assms(3))
next
  fix k x assume "established_at k t = Some x"
  then obtain y where y: "established_at k s = Some y" "same_session y x" using calm_session [OF assms(2)] by blast
  show "admitted env records s0 (es @ [e]) k x"
    by (rule admitted_same [OF later(6) [OF traced_parts(2) [OF assms(1) y(1)]] y(2)])
next
  fix c p g assume "pairing_at c t = Some p" "pn_approval p = Some g"
  from calm_approval [OF assms(2) this] show "surfaced env s0 (es @ [e]) c (pn_hash p) g"
    using later(2) [OF traced_parts(3) [OF assms(1)]] by metis
next
  fix job assume "job \<in> set (bw_jobs t)"
  then show "confirmed env s0 (es @ [e]) job" using assms(4) later(3) [OF traced_parts(4) [OF assms(1)]] by blast
next
  fix cm a assume "bw_commit t = Some cm" "a \<in> ar_client ` set (acl_records (cm_acl cm))"
  then show "entitled env records s0 (es @ [e]) a" using assms(5) later(5) [OF traced_parts(5) [OF assms(1)]] by blast
next
  fix a assume a: "a \<in> ar_client ` set (acl_records (bw_acl t))"
  from assms(6) show "entitled env records s0 (es @ [e]) a"
  proof
    assume "bw_acl t = bw_acl s"
    then show ?thesis using a later(5) [OF traced_parts(6) [OF assms(1)]] by simp
  next
    assume "\<exists>cm. bw_commit s = Some cm \<and> bw_acl t = cm_acl cm"
    then show ?thesis using a later(5) [OF traced_parts(5) [OF assms(1)]] by auto
  qed
qed

lemma transcript_kept:
  "calm s t \<Longrightarrow> r < bw_next s \<Longrightarrow> transcript_of t r = transcript_of s r"
  by (simp add: transcript_of_def calm_core(2))

lemma hand_kept:
  assumes "hand_traced env s0 es s" "calm s t" "bw_drain t = bw_drain s \<or> bw_drain t = Ready"
  shows "hand_traced env s0 (es @ [e]) t"
  using assms(3)
proof
  assume "bw_drain t = Ready"
  then show ?thesis by (simp add: hand_traced_def)
next
  assume d: "bw_drain t = bw_drain s"
  have "pn_ref p < bw_next t \<and> transcript_of t (pn_ref p) = Some (pn_hash p)" if "bw_drain s = PairingProof c p v" for c p v
  proof -
    have "pn_ref p < bw_next s" "transcript_of s (pn_ref p) = Some (pn_hash p)"
      using assms(1) that unfolding hand_traced_def by blast+
    then show ?thesis using transcript_kept [OF assms(2)] calm_core(1) [OF assms(2)] by simp
  qed
  then show ?thesis using assms(1) later(1) unfolding hand_traced_def d by blast
qed

lemma plain_lists:
  assumes "plain_event e" "burrow_step env e s = Some t"
  shows "calm s t" "bw_acl t = bw_acl s" "bw_jobs t = bw_jobs s" "bw_commit t = bw_commit s"
  using conjunct1 [OF plain_step [OF assms]] by (simp_all add: powerless_def)

lemma plain_traced:
  assumes "traced env records s0 es s" "plain_event e" "burrow_step env e s = Some t"
  shows "traced env records s0 (es @ [e]) t"
  by (rule traced_calm [OF assms(1) plain_lists(1) [OF assms(2,3)] hand_kept [OF traced_parts(1) [OF assms(1)] plain_lists(1) [OF assms(2,3)]
        conjunct2 [OF plain_step [OF assms(2,3)]]]])
    (simp_all add: plain_lists [OF assms(2,3)])

lemma turn_traced:
  assumes inv: "burrow_inv s" and run: "burrow_run env es s0 = Some s" and h: "traced env records s0 es s"
    and t: "drain_turn env now fresh random s = Some t"
  shows "traced env records s0 (es @ [DrainTurn now fresh random]) t" (is "traced _ _ _ (_ @ [?e]) _")
proof -
  note g = turn_grants [OF inv t]
  note hand = traced_parts(1) [OF h]
  have numbered: "numbered s" using inv by (simp add: inv_parts)
  have same: "bw_acl t = bw_acl s" "bw_jobs t = bw_jobs s" "bw_commit t = bw_commit s" "bw_next s \<le> bw_next t"
    "r < bw_next s \<Longrightarrow> transcript_of t r = transcript_of s r" for r
    using g(1) by (simp_all add: transcript_of_def)
  have refs: "r < bw_next s" if "transcript_of s r \<noteq> None" for r
    using numbered_transcripts(4) [OF numbered, of r] that by (meson not_le)
  have w: "hand_traced env s0 (es @ [?e]) t"
    unfolding hand_traced_def
  proof (intro conjI allI impI)
    fix c p v assume "bw_drain t = PairingProof c p v"
    then have "pairing_at c s = Some p" using g(4) by simp
    then have "transcript_of s (pn_ref p) = Some (pn_hash p)" using numbered_transcripts(1) [OF numbered] by blast
    then show "pn_ref p < bw_next t" "transcript_of t (pn_ref p) = Some (pn_hash p)" using refs same(4,5) by fastforce+
  next
    fix c p v assume "bw_drain t = ConnectionProof c p True v"
    then have c: "connection_at c s = Some p" "snd (consume_challenge now (cn_challenge p) (bw_challenges s))" using g(4) by auto
    then have "transcript_of s (cn_ref p) = Some (cn_hash p)" using numbered_transcripts(2) [OF numbered] by blast
    then show "redeemed env s0 (es @ [?e]) c p"
      unfolding redeemed_def using c by (intro happened_now [OF run]) blast
  qed
  show ?thesis
    unfolding traced_def
  proof (intro conjI allI impI ballI)
    show "hand_traced env s0 (es @ [?e]) t" by (rule w)
  next
    fix k x assume "established_at k t = Some x"
    from g(2) [OF this] show "admitted env records s0 (es @ [?e]) k x"
    proof
      assume "\<exists>y. established_at k s = Some y \<and> same_session y x"
      then show ?thesis using admitted_same later(6) traced_parts(2) [OF h] by blast
    next
      assume "admits env s k x"
      then obtain p v r where a: "bw_drain s = ConnectionProof k p True v" "authorizes env s p v r"
        "es_ref x = cn_ref p" "es_id x = cn_id p" "es_static x = cn_static p" unfolding admits_def by blast
      have "redeemed env s0 es k p" using hand a(1) unfolding hand_traced_def by blast
      moreover have "entitled env records s0 es (ar_client r)"
        using a(2) by (intro traced_parts(6) [OF h]) (simp add: authorizes_def)
      ultimately show ?thesis unfolding admitted_def using a by (intro happened_now [OF run]) blast
    qed
  next
    fix c p g' assume "pairing_at c t = Some p" "pn_approval p = Some g'"
    from g(3) [OF this] obtain q where q: "pairing_at c s = Some q" "pn_hash q = pn_hash p"
      "pn_approval q = Some g' \<or> surfaces env s c (pn_ref q) g'" by blast
    from q(3) show "surfaced env s0 (es @ [?e]) c (pn_hash p) g'"
    proof
      assume "pn_approval q = Some g'"
      then show ?thesis using later(2) traced_parts(3) [OF h q(1)] q(2) by metis
    next
      assume "surfaces env s c (pn_ref q) g'"
      then obtain p' v kh where s: "bw_drain s = PairingProof c p' v" "pn_ref p' = pn_ref q"
        "verify_presence_proof (be_presence env) (request_proof v) (pairing_binding_of env p' v) (be_policy env) = Inr kh"
        "g' = approval_of v kh" unfolding surfaces_def by blast
      have "transcript_of s (pn_ref p') = Some (pn_hash p')" using hand s(1) unfolding hand_traced_def by blast
      then have "pn_hash p' = pn_hash p"
        using numbered_transcripts(1) [OF numbered q(1)] s(2) q(2) by simp
      then show ?thesis unfolding surfaced_def using s by (intro happened_now [OF run]) blast
    qed
  next
    fix job assume "job \<in> set (bw_jobs t)"
    then show "confirmed env s0 (es @ [?e]) job" using later(3) traced_parts(4) [OF h] same(2) by metis
  next
    fix cm a assume "bw_commit t = Some cm" "a \<in> ar_client ` set (acl_records (cm_acl cm))"
    then show "entitled env records s0 (es @ [?e]) a" using later(5) traced_parts(5) [OF h] same(3) by metis
  next
    fix a assume "a \<in> ar_client ` set (acl_records (bw_acl t))"
    then show "entitled env records s0 (es @ [?e]) a" using later(5) traced_parts(6) [OF h] same(1) by metis
  qed
qed

lemma approve_traced:
  assumes run: "burrow_run env es s0 = Some s" and h: "traced env records s0 es s"
    and t: "t = approve_pairing env now client pairing code s"
  shows "traced env records s0 (es @ [Approves now client pairing code]) t" (is "traced _ _ _ (_ @ [?e]) _")
proof -
  note g = approve_grants [OF t]
  have hand: "hand_traced env s0 (es @ [?e]) t" if "calm s t" by (rule hand_kept [OF traced_parts(1) [OF h] that disjI1 [OF conjunct1 [OF g]]])
  from conjunct2 [OF g] show ?thesis
  proof
    assume p: "powerless s t"
    show ?thesis
      by (rule traced_calm [OF h powerless_calm [OF p] hand [OF powerless_calm [OF p]]]) (use p in \<open>simp_all add: powerless_def\<close>)
  next
    assume "\<exists>job. confirms now client pairing code s job \<and> calm s t \<and> bw_acl t = bw_acl s \<and> bw_commit t = bw_commit s \<and>
       bw_jobs t = bw_jobs s @ [job]"
    then obtain job where j: "confirms now client pairing code s job" "calm s t" "bw_acl t = bw_acl s" "bw_commit t = bw_commit s"
       "bw_jobs t = bw_jobs s @ [job]" by blast
    have "surfaced env s0 es client (pn_hash (sj_pairing job)) (sj_approval job)"
      using j(1) by (intro traced_parts(3) [OF h]) (simp_all add: confirms_def)
    then have "confirmed env s0 (es @ [?e]) job"
      unfolding confirmed_def using j(1) by (intro happened_now [OF run]) blast
    then show ?thesis
      by (intro traced_calm [OF h j(2) hand [OF j(2)]]) (use j in auto)
  qed
qed

lemma save_traced:
  assumes h: "traced env records s0 es s"
  shows "traced env records s0 (es @ [SaveBegins now random]) (save_begin env now random s)"
    "traced env records s0 (es @ [SaveEnds now saved]) (save_end env now saved s)"
proof -
  note b = save_begin_grants [where env = env and now = now and random = random and s = s, OF refl]
  have cb: "calm s (save_begin env now random s)" using b by blast
  have "entitled env records s0 (es @ [SaveBegins now random]) a"
    if "job \<in> set (bw_jobs s)" "a \<in> insert (approved_client_of job random) (ar_client ` set (acl_records (bw_acl s)))" for job a
  proof (cases "a = approved_client_of job random")
    case True
    then have "granted env s0 es a" using traced_parts(4) [OF h that(1)] unfolding granted_def by blast
    then show ?thesis by (intro later(5)) (simp add: entitled_def)
  next
    case False
    then show ?thesis using that(2) later(5) traced_parts(6) [OF h] by blast
  qed
  note begun = this
  show "traced env records s0 (es @ [SaveBegins now random]) (save_begin env now random s)"
  proof (rule traced_calm [OF h cb hand_kept [OF traced_parts(1) [OF h] cb]])
    show "bw_drain (save_begin env now random s) = bw_drain s \<or> bw_drain (save_begin env now random s) = Ready" using b by blast
    show "job \<in> set (bw_jobs s) \<or> confirmed env s0 (es @ [SaveBegins now random]) job"
      if "job \<in> set (bw_jobs (save_begin env now random s))" for job using that b by blast
    show "bw_commit s = Some cm \<or> entitled env records s0 (es @ [SaveBegins now random]) a"
      if "bw_commit (save_begin env now random s) = Some cm" "a \<in> ar_client ` set (acl_records (cm_acl cm))" for cm a
      using that b begun by (metis option.inject)
    show "bw_acl (save_begin env now random s) = bw_acl s \<or> (\<exists>cm. bw_commit s = Some cm \<and> bw_acl (save_begin env now random s) = cm_acl cm)"
      using b by blast
  qed
  note e = save_end_grants [where env = env and now = now and saved = saved and s = s, OF refl]
  have ce: "calm s (save_end env now saved s)" using e by blast
  show "traced env records s0 (es @ [SaveEnds now saved]) (save_end env now saved s)"
  proof (rule traced_calm [OF h ce hand_kept [OF traced_parts(1) [OF h] ce]])
    show "bw_drain (save_end env now saved s) = bw_drain s \<or> bw_drain (save_end env now saved s) = Ready" using e by blast
    show "job \<in> set (bw_jobs s) \<or> confirmed env s0 (es @ [SaveEnds now saved]) job"
      if "job \<in> set (bw_jobs (save_end env now saved s))" for job using that e by simp
    show "bw_commit s = Some cm \<or> entitled env records s0 (es @ [SaveEnds now saved]) a"
      if "bw_commit (save_end env now saved s) = Some cm" for cm a using that e by auto
    show "bw_acl (save_end env now saved s) = bw_acl s \<or> (\<exists>cm. bw_commit s = Some cm \<and> bw_acl (save_end env now saved s) = cm_acl cm)"
      using e by blast
  qed
qed

lemma traced_step:
  assumes "burrow_inv s" "burrow_run env es s0 = Some s" "traced env records s0 es s" "burrow_step env e s = Some t"
  shows "traced env records s0 (es @ [e]) t"
proof (cases "plain_event e")
  case True
  show ?thesis by (rule plain_traced [OF assms(3) True assms(4)])
next
  case False
  then show ?thesis
    using assms turn_traced [OF assms(1-3)] approve_traced [OF assms(2,3) refl] save_traced [OF assms(3)]
    by (cases e) auto
qed

lemma traced_new: "traced env records (new_burrow env records now) [] (new_burrow env records now)"
proof -
  have "ar_client ` set (acl_records (load_burrow_acl b records)) \<subseteq> ar_client ` set records" for b
    by (auto simp: load_burrow_acl_def acl_from_records_def new_acl_def split: option.splits sum.splits)
  then show ?thesis
    by (auto simp: traced_def hand_traced_def new_burrow_def pairing_at_def established_at_def entitled_def)
qed

text \<open>Every run of a new Burrow is traced.\<close>

lemma run_traced:
  "\<exists>s. burrow_run env es (new_burrow env records now) = Some s \<and> burrow_ok s \<and> traced env records (new_burrow env records now) es s"
proof (induction es rule: rev_induct)
  case Nil
  show ?case by (simp add: burrow_ok_new traced_new)
next
  case (snoc e es)
  then obtain s where s: "burrow_run env es (new_burrow env records now) = Some s" "burrow_ok s"
    "traced env records (new_burrow env records now) es s" by blast
  obtain t where t: "burrow_step env e s = Some t" "burrow_ok t" using burrow_step_ok [OF s(2)] by blast
  have "traced env records (new_burrow env records now) (es @ [e]) t"
    using s(2) by (intro traced_step [OF _ s(1,3) t(1)]) (simp add: burrow_ok_def)
  then show ?case using s(1) t by (simp add: run_append)
qed

end
