(* ===== verification/Burrow_Reaper.thy ===== *)
theory Burrow_Reaper
  imports Burrow_Steps
begin

text \<open>
  What the one reaper owes: after a sweep nothing that was due is held any more. Each deadline of the snapshot
  ends the very part it was listed for, and nothing comes back during the sweep, since a sweep only lets go.
\<close>

text \<open>Whether the part a deadline was listed for is held.\<close>

fun held_for :: "deadline \<Rightarrow> 'k burrow \<Rightarrow> bool" where
  "held_for (PairingDue c) s = (pairing_at c s \<noteq> None)"
| "held_for (ConnectionDue c p) s = (connection_at c s = Some p)"
| "held_for (EstablishedDue c) s = (established_at c s \<noteq> None)"
| "held_for (InvitationDue i) s = (map_of (bw_invitations s) i \<noteq> None)"

lemma held_for_gives_up: "lets_go s t \<Longrightarrow> held_for d t \<Longrightarrow> held_for d s"
  by (cases d) (auto dest: lets_go_parts part_of_Some)

lemma expire_ends: "\<not> held_for d (expire env now d s)"
proof (cases d)
  case (ConnectionDue c p)
  then show ?thesis
    by (auto simp: deny_connection_gone connection_is_def)
next
  case (EstablishedDue c)
  then show ?thesis by (simp add: dispose_established_at)
qed (simp_all add: finish_pairing_gone)

lemma sweep_ends:
  "(due, d) \<in> set ds \<Longrightarrow> due \<le> now \<Longrightarrow>
     \<not> held_for d (fold (\<lambda>(due, d) t. if due \<le> now then expire env now d t else t) ds s)"
proof (induction ds arbitrary: s)
  case (Cons x ds)
  show ?case
  proof (cases "x = (due, d)")
    case True
    then show ?thesis
      using held_for_gives_up [OF lets_go_sweep [where s = "expire env now d s" and env = env and now = now and ds = ds], of d]
        expire_ends [of d env now s] Cons.prems(2) by auto
  next
    case False
    then show ?thesis using Cons by simp
  qed
qed simp

text \<open>A listed deadline of a state that let go was listed before.\<close>

lemma client_deadline_at:
  "(due, d) \<in> set (client_deadlines c st) \<longleftrightarrow>
     (\<exists>p. cl_pairing st = Some p \<and> due = pn_expires p \<and> d = PairingDue c) \<or>
     (\<exists>p. cl_connection st = Some p \<and> due = cn_expires p \<and> d = ConnectionDue c p) \<or>
     (\<exists>e. cl_established st = Some e \<and> due = es_activity e + established_e2e_idle_timeout_ms \<and> d = EstablishedDue c)"
  by (cases "cl_pairing st"; cases "cl_connection st"; cases "cl_established st") (auto simp: client_deadlines_def)

lemma deadlines_iff:
  assumes "tidy s"
  shows "(due, d) \<in> set (deadlines s) \<longleftrightarrow>
     (\<exists>c p. pairing_at c s = Some p \<and> due = pn_expires p \<and> d = PairingDue c) \<or>
     (\<exists>c p. connection_at c s = Some p \<and> due = cn_expires p \<and> d = ConnectionDue c p) \<or>
     (\<exists>c e. established_at c s = Some e \<and> due = es_activity e + established_e2e_idle_timeout_ms \<and> d = EstablishedDue c) \<or>
     (\<exists>i h. map_of (bw_invitations s) i = Some h \<and> due = hi_expires h \<and> d = InvitationDue i)"
proof -
  have c: "(c, st) \<in> set (bw_clients s) \<longleftrightarrow> map_of (bw_clients s) c = Some st" for c st
    using assms by (simp add: tidy_but_def)
  have i: "(i, h) \<in> set (bw_invitations s) \<longleftrightarrow> map_of (bw_invitations s) i = Some h" for i h
    using assms by (simp add: tidy_but_def)
  have "(due, d) \<in> set (deadlines s) \<longleftrightarrow>
      (\<exists>c st. (c, st) \<in> set (bw_clients s) \<and> (due, d) \<in> set (client_deadlines c st)) \<or>
      (\<exists>i h. (i, h) \<in> set (bw_invitations s) \<and> due = hi_expires h \<and> d = InvitationDue i)"
    by (auto simp: deadlines_def)
  then show ?thesis
    unfolding c i client_deadline_at pairing_at_def connection_at_def established_at_def bind_eq_Some_conv by blast
qed

lemma deadline_held: "tidy s \<Longrightarrow> (due, d) \<in> set (deadlines s) \<Longrightarrow> held_for d s"
  by (auto simp: deadlines_iff)

lemma deadlines_give_up:
  assumes "tidy s" "lets_go s t" "(due, d) \<in> set (deadlines t)"
  shows "(due, d) \<in> set (deadlines s)"
proof -
  note p = lets_go_parts [OF assms(2)]
  show ?thesis
    using assms(3) part_of_Some [OF p(1)] part_of_Some [OF p(2)] part_of_Some [OF p(3)] part_of_Some [OF p(4)]
    unfolding deadlines_iff [OF assms(1)] deadlines_iff [OF p(7) [OF assms(1)]] by blast
qed

lemma deadlines_arm [simp]: "deadlines (arm_reaper s) = deadlines s"
  by (simp add: deadlines_def)

lemma reap_leaves_nothing_due:
  assumes t: "tidy s" and d: "(due, d) \<in> set (deadlines (reap env now s))"
  shows "now < due"
proof (rule ccontr)
  let ?f = "fold (\<lambda>(due, d) t. if due \<le> now then expire env now d t else t) (deadlines s) s"
  assume "\<not> now < due"
  moreover have f: "(due, d) \<in> set (deadlines ?f)" using d by (simp add: reap_def)
  moreover have "(due, d) \<in> set (deadlines s)" by (rule deadlines_give_up [OF t lets_go_sweep f])
  moreover have "tidy ?f" by (rule lets_go_parts(7) [OF lets_go_sweep t])
  ultimately show False using sweep_ends [of due d "deadlines s" now env s] deadline_held [of ?f due d] by simp
qed

lemma arm_soonest: "bw_reaper s = None \<Longrightarrow> bw_reaper (arm_reaper s) = soonest (map fst (deadlines s))"
  by (simp add: arm_reaper_def split: option.splits)

lemma sweep_reaper [simp]:
  "bw_reaper (fold (\<lambda>(due, d) t. if due \<le> now then expire env now d t else t) ds s) = bw_reaper s"
proof (induction ds arbitrary: s)
  case (Cons x ds)
  have "bw_reaper (expire env now d u) = bw_reaper u" for d u
    by (cases d) (auto simp: retire_invitation_simps)
  then show ?case by (cases x) (simp add: Cons)
qed simp

lemma reaper_rearms:
  "bw_reaper (reap env now (s\<lparr>bw_reaper := None\<rparr>)) = soonest (map fst (deadlines (reap env now (s\<lparr>bw_reaper := None\<rparr>))))"
  by (simp add: reap_def arm_soonest)

end
