(* ===== verification/Burrow_Claims.thy ===== *)
theory Burrow_Claims
  imports Burrow_History Burrow_Reaper
begin

text \<open>
  The properties of the Burrow's runtime. Each is about every run of a new Burrow: any events, in any order,
  with whatever is delivered to its socket.
\<close>

section \<open>Counting what is held\<close>

lemma count_parts:
  assumes "tidy s"
  shows "length (filter (\<lambda>(c, st). cl_pairing st \<noteq> None) (bw_clients s)) = card (pairings s)"
    "length (filter (\<lambda>(c, st). cl_connection st \<noteq> None) (bw_clients s)) = card (connections s)"
    "length (filter (\<lambda>(c, st). cl_established st \<noteq> None) (bw_clients s)) = card (sessions s)"
proof -
  have d: "distinct (map fst (bw_clients s))" by (rule tidy_distinct(1) [OF assms])
  have "length (filter (\<lambda>(c, st). part st \<noteq> None) (bw_clients s)) = card (dom (\<lambda>c. Option.bind (map_of (bw_clients s) c) part))"
    for part :: "client_state \<Rightarrow> 'b option"
  proof -
    let ?f = "filter (\<lambda>(c, st). part st \<noteq> None) (bw_clients s)"
    have df: "distinct (map fst ?f)" by (rule distinct_map_filter [OF d])
    have "fst ` set ?f = dom (\<lambda>c. Option.bind (map_of (bw_clients s) c) part)"
      using d by (force simp: dom_def bind_eq_Some_conv)
    then show ?thesis using distinct_card [OF df] by simp
  qed
  from this [of cl_pairing] this [of cl_connection] this [of cl_established]
  show "length (filter (\<lambda>(c, st). cl_pairing st \<noteq> None) (bw_clients s)) = card (pairings s)"
    "length (filter (\<lambda>(c, st). cl_connection st \<noteq> None) (bw_clients s)) = card (connections s)"
    "length (filter (\<lambda>(c, st). cl_established st \<noteq> None) (bw_clients s)) = card (sessions s)"
    by (simp_all add: pairings_def connections_def sessions_def pairing_at_def connection_at_def established_at_def)
qed

lemma tidy_holds: "tidy s \<Longrightarrow> list_all (\<lambda>(c, st). \<not> holds_nothing st) (bw_clients s)"
proof -
  assume "tidy s"
  then show ?thesis by (fastforce simp: tidy_but_def idle_at_def list_all_iff split: option.splits)
qed

lemma three_parts:
  "list_all (\<lambda>(c, st). \<not> holds_nothing st) xs \<Longrightarrow>
     length xs \<le> length (filter (\<lambda>(c, st). cl_pairing st \<noteq> None) xs) + length (filter (\<lambda>(c, st). cl_connection st \<noteq> None) xs) +
       length (filter (\<lambda>(c, st). cl_established st \<noteq> None) xs)"
  by (induction xs) (auto simp: holds_nothing_def)

definition session_keys :: "'k burrow \<Rightarrow> js_text list" where
  "session_keys s = List.map_filter (\<lambda>(c, st). map_option es_static (cl_established st)) (bw_clients s)"

lemma one_session_distinct:
  assumes "tidy s" "one_session_per_key s"
  shows "distinct (session_keys s)"
proof -
  have at: "established_at c s = Some e" if "(c, st) \<in> set (bw_clients s)" "cl_established st = Some e" for c st e
    using that tidy_distinct(1) [OF assms(1)] by (simp add: established_at_def)
  have "distinct (List.map_filter (\<lambda>(c, st). map_option es_static (cl_established st)) xs)"
    if "set xs \<subseteq> set (bw_clients s)" "distinct (map fst xs)" for xs
    using that
  proof (induction xs)
    case (Cons x xs)
    obtain c st where x: "x = (c, st)" by (cases x)
    show ?case
    proof (cases "cl_established st")
      case None
      then show ?thesis using Cons by (simp add: x map_filter_simps)
    next
      case (Some e)
      have "es_static e' \<noteq> es_static e" if "(d, st') \<in> set xs" "cl_established st' = Some e'" for d st' e'
      proof
        assume "es_static e' = es_static e"
        then have "d = c"
          using at [of c st e] at [of d st' e'] that Some Cons.prems(1) assms(2) unfolding one_session_per_key_def x by auto
        then show False using that(1) Cons.prems(2) by (force simp: x)
      qed
      then show ?thesis using Cons by (force simp: x Some map_filter_simps map_filter_def)
    qed
  qed (simp add: map_filter_simps)
  then show ?thesis unfolding session_keys_def using tidy_distinct(1) [OF assms(1)] by blast
qed

section \<open>Stopped\<close>

lemma offline_parts:
  assumes "burrow_ok s" "bw_socket s = None"
  shows "bw_clients s = []" "bw_frames s = []" "waiting_epoch (bw_drain s) \<noteq> Some (bw_epoch s)"
    "pairing_at c s = None" "connection_at c s = None" "established_at c s = None"
  using assms by (simp_all add: burrow_ok_def offline_empty_def empty_handed_def pairing_at_def connection_at_def established_at_def)

lemma offline_turn:
  assumes "burrow_ok s" "bw_socket s = None" "drain_turn env now fresh random s = Some t"
  shows "bw_socket t = bw_socket s \<and> bw_stopped t = bw_stopped s \<and> bw_displaced t = bw_displaced s \<and> bw_reconnect t = bw_reconnect s"
proof -
  let ?r = "s\<lparr>bw_drain := Ready\<rparr>"
  note o = offline_parts [OF assms(1,2)]
  have at: "pairing_at c ?r = None" "connection_at c ?r = None" for c using at_cong [of ?r s] o(4,5) by simp_all
  show ?thesis using assms(3) o(2,3)
    by (cases "bw_drain s")
      (auto simp: drain_turn_def Let_def next_frame_def pairing_answered_def connection_answered_def connection_read_def
        pairing_proved_def connection_proved_def pairing_is_def connection_is_def at split: option.splits prod.splits)
qed

lemma drop_kept [simp]:
  "bw_stopped (drop_transient_state now s) = bw_stopped s" "bw_reconnect (drop_transient_state now s) = bw_reconnect s"
  "bw_status (drop_transient_state now s) = bw_status s" "bw_frames (drop_transient_state now s) = []"
  by (simp_all add: drop_transient_state_def Let_def lets_go_core [OF lets_go_drop_parts(1)] lets_go_core [OF lets_go_drop_parts(2)])

lemma stop_result:
  "bw_stopped (burrow_stop now s)" "bw_socket (burrow_stop now s) = None" "bw_reconnect (burrow_stop now s) = None"
  "bw_status (burrow_stop now s) = Stopped" "bw_reaper (burrow_stop now s) = None" "bw_frames (burrow_stop now s) = []"
  by (simp_all add: burrow_stop_def Let_def)

lemma stopped_step:
  assumes ok: "burrow_ok s" and off: "bw_socket s = None" "bw_stopped s" and e: "e \<noteq> Starts" and t: "burrow_step env e s = Some t"
  shows "bw_socket t = None \<and> bw_stopped t"
proof -
  note o = offline_parts [OF ok off(1)]
  have no_pairing: "\<not> pairing_is c r u" if "bw_clients u = []" for c r and u :: "'a burrow"
    by (simp add: pairing_is_def pairing_at_def that)
  show ?thesis
  proof (cases e)
    case (Stops now)
    then show ?thesis using t by (auto simp: stop_result)
  next
    case (DrainTurn now fresh random)
    then show ?thesis using offline_turn [OF ok off(1), of env now fresh random t] t off by simp
  next
    case (MintEnds now i keys random)
    have "bw_socket (fst (finish_mint env now keys random call u)) = bw_socket u \<and> bw_stopped (fst (finish_mint env now keys random call u)) = bw_stopped u"
      for call and u :: "'a burrow"
      by (auto simp: finish_mint_def Let_def lets_go_core [OF lets_go_trans [OF lets_go_reap evict_invitations_gives_up]] split: sum.splits)
    then show ?thesis using t off by (auto simp: MintEnds mint_end_def)
  next
    case (ApiSends r payload)
    then show ?thesis using t off by (auto simp: lets_go_core [OF api_sends_gives_up(1)])
  next
    case (SaveBegins now random)
    then show ?thesis using t off o(4)
      by (auto simp: save_begin_def no_pairing o(1) split: option.splits list.splits)
  next
    case (SaveEnds now saved)
    then show ?thesis using t off o(4)
      by (auto simp: save_end_def save_failed_def no_pairing o(1) Let_def split: option.splits)
  qed (use e t off o in \<open>auto simp: socket_opened_def socket_message_def socket_closed_def reconnect_fires_def connect_def
      reaper_fires_def mint_begin_def approve_pairing_def deny_pairing_def lets_go_core [OF lets_go_reap]\<close>)
qed

lemma stopped_run:
  "burrow_ok s \<Longrightarrow> bw_socket s = None \<Longrightarrow> bw_stopped s \<Longrightarrow>
     \<exists>t. burrow_run env (filter (\<lambda>e. e \<noteq> Starts) es) s = Some t \<and> burrow_ok t \<and> bw_socket t = None \<and> bw_stopped t"
proof (induction es arbitrary: s)
  case (Cons e es)
  show ?case
  proof (cases "e = Starts")
    case False
    obtain t where t: "burrow_step env e s = Some t" "burrow_ok t" using burrow_step_ok [OF Cons.prems(1)] by blast
    from stopped_step [OF Cons.prems False t(1)] Cons.IH [OF t(2)] False t(1) show ?thesis by simp
  qed (use Cons in simp)
qed simp

section \<open>Guesses\<close>

lemma finish_quiet: "pairing_at c s = None \<Longrightarrow> approve_pairing env now c pairing code s = s"
  by (simp add: approve_pairing_def)

text \<open>Whatever a first confirmation came to, a second finds no pairing, or one that was attempted.\<close>

lemma second_guess:
  "approve_pairing env now' c pairing code' (approve_pairing env now c pairing code s) = approve_pairing env now c pairing code s"
proof (cases "pairing_at c s")
  case (Some p)
  show ?thesis
  proof (cases "pn_approval p")
    case g: (Some g)
    let ?s1 = "set_pairing c (\<lambda>q. q\<lparr>pn_attempted := True\<rparr>) s"
    have at: "pairing_at c (?s1\<lparr>bw_jobs := js\<rparr>) = Some (p\<lparr>pn_attempted := True\<rparr>)" for js
      using at_cong [of "?s1\<lparr>bw_jobs := js\<rparr>" ?s1] Some by (simp add: set_pairing_def set_client_at state_of_fields)
    have "approve_pairing env now' c pairing code' (?s1\<lparr>bw_jobs := js\<rparr>) = ?s1\<lparr>bw_jobs := js\<rparr>" for js
      unfolding approve_pairing_def at using g by simp
    then show ?thesis
      by (simp add: approve_pairing_def [of env now c pairing code s] Some g Let_def finish_quiet finish_pairing_gone)
        (simp add: approve_pairing_def Some g)
  qed (simp add: approve_pairing_def Some)
qed (simp add: approve_pairing_def)

section \<open>The properties\<close>

text \<open>C18: However the events fall, the runtime returns from each: in every state of a run both eviction loops end, with room
  for one more, and every event has a next state.\<close>

theorem every_event_returns:
  "\<exists>s t u v. burrow_run env es (new_burrow env records now) = Some s \<and>
     evict_oldest_pairing_if_full env s = Some t \<and>
     length (filter (\<lambda>(c, st). cl_pairing st \<noteq> None) (bw_clients t)) < max_pending_pairings \<and>
     evict_oldest_connection_if_full now' s = Some u \<and>
     length (filter (\<lambda>(c, st). cl_connection st \<noteq> None) (bw_clients u)) < max_pending_connection_handshakes \<and>
     burrow_step env e s = Some v"
proof -
  obtain s where s: "burrow_run env es (new_burrow env records now) = Some s" "burrow_ok s"
    using burrow_run_ok [OF burrow_ok_new] by blast
  have tidy: "tidy s" using s(2) by (simp add: burrow_ok_def inv_parts)
  obtain t where t: "evict_oldest_pairing_if_full env s = Some t" "lets_go s t" "card (pairings t) < max_pending_pairings"
    using pairing_eviction_ends [OF tidy] by blast
  obtain u where u: "evict_oldest_connection_if_full now' s = Some u" "lets_go s u"
      "card (connections u) < max_pending_connection_handshakes"
    using connection_eviction_ends [OF tidy] by blast
  obtain v where "burrow_step env e s = Some v" using burrow_step_ok [OF s(2)] by blast
  then show ?thesis
    using s(1) t u count_parts(1) [OF lets_go_parts(7) [OF t(2) tidy]] count_parts(2) [OF lets_go_parts(7) [OF u(2) tidy]] by auto
qed

text \<open>C3: In every state of a run the Burrow holds no more than its caps: eight pending pairings, eight pending connections,
  sixteen sessions, each of another Client key, and hence as many clients as these together; the invitations a Relay allows;
  and queued frames within their number and their characters, which it counts exactly.\<close>

theorem holdings_stay_bounded:
  "\<exists>s. burrow_run env es (new_burrow env records now) = Some s \<and>
     length (filter (\<lambda>(c, st). cl_pairing st \<noteq> None) (bw_clients s)) \<le> max_pending_pairings \<and>
     length (filter (\<lambda>(c, st). cl_connection st \<noteq> None) (bw_clients s)) \<le> max_pending_connection_handshakes \<and>
     established_session_count s \<le> max_established_e2e_sessions \<and> distinct (session_keys s) \<and>
     tracked_client_count s \<le> max_pending_pairings + max_pending_connection_handshakes + max_established_e2e_sessions \<and>
     outstanding_invitation_count s \<le> max_tokens_per_burrow \<and>
     length (bw_frames s) \<le> max_queued_relay_frames \<and> bw_frame_chars s \<le> max_queued_relay_frame_chars \<and>
     bw_frame_chars s = sum_list (map snd (bw_frames s))"
proof -
  obtain s where s: "burrow_run env es (new_burrow env records now) = Some s" "burrow_ok s"
    using burrow_run_ok [OF burrow_ok_new] by blast
  have i: "tidy s" "bounded s" "queue_ok s" "one_session_per_key s" using s(2) by (simp_all add: burrow_ok_def inv_parts)
  show ?thesis
    using s(1) i(2,3) count_parts [OF i(1)] three_parts [OF tidy_holds [OF i(1)]] one_session_distinct [OF i(1,4)]
    by (auto simp: bounded_def queue_ok_def established_session_count_def tracked_client_count_def outstanding_invitation_count_def)
qed

text \<open>C1: Every session in place was admitted in an earlier turn of the drain: its presence proof, of this Burrow, this
  connection, its challenge and the transcript of its own handshake, was verified after the challenge had been redeemed in
  time; one active record held its passkey, Client key, account and passkey key; and that record came from the file or was
  granted by a local confirmation before.\<close>

theorem sessions_were_admitted:
  "\<exists>s. burrow_run env es (new_burrow env records now) = Some s \<and>
     list_all (\<lambda>(c, st). case cl_established st of None \<Rightarrow> True
        | Some x \<Rightarrow> admitted env records (new_burrow env records now) es c x) (bw_clients s)"
proof -
  obtain s where s: "burrow_run env es (new_burrow env records now) = Some s" "burrow_ok s"
    "traced env records (new_burrow env records now) es s"
    using run_traced by blast
  have "distinct (map fst (bw_clients s))" using s(2) by (intro tidy_distinct) (simp add: burrow_ok_def inv_parts)
  then have "established_at c s = cl_established st" if "(c, st) \<in> set (bw_clients s)" for c st
    using that by (simp add: established_at_def)
  then show ?thesis using s(1) traced_parts(2) [OF s(3)] by (fastforce simp: list_all_iff split: option.splits)
qed

text \<open>C2: The access list holds nobody but the Clients it was loaded with and those the person at this machine approved: with
  the code of a pending, unexpired pairing on its one attempt, whose presence proof of the pairing's own transcript had been
  verified before; the record names that pairing's Client key, and that proof's account and passkey.\<close>

theorem records_were_confirmed:
  "\<exists>s. burrow_run env es (new_burrow env records now) = Some s \<and>
     list_all (\<lambda>r. entitled env records (new_burrow env records now) es (ar_client r)) (acl_records (bw_acl s))"
proof -
  obtain s where "burrow_run env es (new_burrow env records now) = Some s"
    "traced env records (new_burrow env records now) es s"
    using run_traced by blast
  then show ?thesis by (auto simp: list_all_iff intro: traced_parts(6))
qed

text \<open>C20: A pairing takes exactly one confirmation: however many codes are tried on it, and when, the outcome is that of the
  first.\<close>

theorem one_guess_decides:
  "fold (\<lambda>(now, code). approve_pairing env now client pairing code) (guess # guesses) s =
     approve_pairing env (fst guess) client pairing (snd guess) s"
proof -
  have "fold (\<lambda>(now, code). approve_pairing env now client pairing code) gs (approve_pairing env n client pairing c s) =
      approve_pairing env n client pairing c s" for gs n c
    by (induction gs) (auto simp: second_guess)
  then show ?thesis by (cases guess) simp
qed

text \<open>C21: One sweep leaves nothing overdue, of any of the four kinds of deadline; a sweep that the timer starts arms it again
  for the soonest deadline left, and does not when nothing is left.\<close>

theorem sweep_leaves_nothing_overdue:
  "\<exists>s. burrow_run env es (new_burrow env records now) = Some s \<and>
     list_all (\<lambda>(due, d). now' < due) (deadlines (reap env now' s)) \<and>
     (let t = reap env now' (s\<lparr>bw_reaper := None\<rparr>) in bw_reaper t = soonest (map fst (deadlines t)))"
proof -
  obtain s where s: "burrow_run env es (new_burrow env records now) = Some s" "burrow_ok s"
    using burrow_run_ok [OF burrow_ok_new] by blast
  have "tidy s" using s(2) by (simp add: burrow_ok_def inv_parts)
  from reap_leaves_nothing_due [OF this] show ?thesis
    using s(1) by (auto simp: list_all_iff Let_def reaper_rearms)
qed

text \<open>C19: A stopped Burrow is silent until it is started again: stopping clears its clients, invitations, queue, timers and
  socket, and whatever settles or is delivered afterwards, it has no client, no queue and no socket.\<close>

theorem stopped_burrow_stays_empty:
  "\<exists>s t. burrow_run env es (new_burrow env records now) = Some s \<and>
     (let u = burrow_stop now' s in
        bw_clients u = [] \<and> bw_invitations u = [] \<and> bw_frames u = [] \<and> bw_reaper u = None \<and> bw_reconnect u = None \<and>
        bw_socket u = None \<and> bw_status u = Stopped \<and>
        burrow_run env (filter (\<lambda>e. e \<noteq> Starts) later_events) u = Some t) \<and>
     bw_clients t = [] \<and> bw_frames t = [] \<and> bw_socket t = None"
proof -
  obtain s where s: "burrow_run env es (new_burrow env records now) = Some s" "burrow_ok s"
    using burrow_run_ok [OF burrow_ok_new] by blast
  let ?u = "burrow_stop now' s"
  note u = stop_ok [OF s(2), where now = now']
  obtain t where t: "burrow_run env (filter (\<lambda>e. e \<noteq> Starts) later_events) ?u = Some t" "burrow_ok t" "bw_socket t = None"
    using stopped_run [OF u(1)] stop_result(1,2) by blast
  show ?thesis
    using s(1) u(2) t(1,3) offline_parts(1,2) [OF t(2,3)] offline_parts(1) [OF u(1) stop_result(2)] stop_result
    by (auto simp: Let_def)
qed

end
