(* ===== verification/Spec2Isabelle.thy ===== *)
theory Spec2Isabelle
  imports Lath_Claims Term_Claims Term_Parser_Claims Alert_Claims Sec_Claims Relay_Claims Burrow_Claims
begin

text \<open>
  A verification development of Dormouse, a terminal multiplexer with remote access. It covers the parts of the
  TypeScript sources that decide something: the tiling engine, what a pane knows of its shell, the
  alerts, the security layer of remote sessions, the relay server between their two ends and the runtime of the machine
  that is reached.

  \<^bold>\<open>Tiling.\<close> \<open>lib/src/lib/lath/\<close>. \<open>Lath_Model\<close> has the split tree of \<open>model.ts\<close> with its queries by leaf and by
  path, weight normalization and canonicalization; \<open>Lath_Fingerprint\<close> the structure fingerprint with the JSON text it is
  made of; \<open>Lath_Layout\<close> the waterfill allocation, cumulative rounding, rectangles, neighbor search and sashes of
  \<open>layout.ts\<close>; \<open>Lath_Ops\<close> the eight operations of \<open>ops.ts\<close> with restore tokens. \<open>Lath_Correct\<close>, \<open>Lath_Restructure\<close>,
  \<open>Lath_Restore\<close> and \<open>Lath_Roundtrip\<close> show for each operation when it is refused, that its result is well formed and what
  happens to the leaves, through the locale \<open>lath_operation\<close>, and that restore undoes remove. \<open>Lath_Tiling\<close> shows
  that rectangles lie in the wall, never overlap and use it up, exactly when its sides are whole pixels and to half a
  pixel (\<open>grown\<close>, \<open>shrunk\<close>) when they are fractional. The properties are in \<open>Lath_Claims\<close>.

  \<^bold>\<open>Panes and their shells.\<close> \<open>lib/src/lib/terminal-state.ts\<close>, \<open>shell-escape.ts\<close>, \<open>posix-escape.ts\<close> and
  \<open>dor/src/commands/shell-quote.ts\<close>. \<open>Shell_Command\<close> has quoting for three shells, the tokenizer, program names and
  titles; \<open>Term_Cwd\<close> reported directories, their identities, labels and spellings; \<open>Term_State\<close> the pane's record, its
  reducer \<open>reduce_terminal_state\<close>, titles, headers and grouping. \<open>Shell_Roundtrip\<close>, \<open>Term_Cwd_Facts\<close> and
  \<open>Term_State_Facts\<close> show that what is quoted or escaped reads back, that labels tell panes apart, and the
  invariant of a pane's state under every event. The properties are in \<open>Term_Claims\<close>.

  \<^bold>\<open>Terminal output.\<close> \<open>lib/src/lib/terminal-controls.ts\<close>, \<open>terminal-protocol.ts\<close>, \<open>css-color.ts\<close> and
  \<open>processed-pty-stream.ts\<close>, the boundary between a program's output and everything that reads it. \<open>Term_Controls\<close> has the
  grammar of string controls, the stream filter and \<open>stripTerminalControls\<close>; \<open>Css_Color\<close> and \<open>Term_Values\<close> the values that are read out
  of sequences; \<open>Term_Protocol\<close> one definition per OSC and their routing; \<open>Term_Parser\<close> the class
  \<open>TerminalProtocolParser\<close>, whose loop is \<open>scan\<close>; \<open>Term_Stream\<close> the stream with its sinks. Exceptions of a read are values.
  \<open>Term_Parser_Facts\<close> shows what one read comes to when it is cut in two, from the scanners up (\<open>clean_cut\<close>, \<open>split_safe\<close>);
  \<open>Term_Parser_Correct\<close> lifts this to reads in pieces; \<open>Term_Parser_Safety\<close> has clean events and the bounds on the parser's
  state, through the locale \<open>event_system\<close>, as \<open>Term_Stream\<close> has for the stream. One event is not clean,
  the progress that \<open>osc94_lookup\<close> finds in \<open>Object.prototype\<close> (\<open>inherited_progress\<close>). The properties are in \<open>Term_Parser_Claims\<close>, with
  the inputs on which the code departs from its documentation.

  \<^bold>\<open>Alerts.\<close> \<open>lib/src/lib/quiesce-detector.ts\<close> and \<open>alert-manager.ts\<close>. \<open>Alert_Detector\<close> has the detector that calls a
  session quiet, its five timers as deadlines; \<open>Alert_Manager\<close> the manager's state, every handler, control and
  timer callback, and \<open>alert_step\<close>, which handles one event at one time. The code's listeners are a log of
  what was emitted. \<open>Alert_Frames\<close> to \<open>Alert_Steps\<close> compose what each handler leaves alone into what holds along every
  run: sound entries, awaits answered once, ring counters that never decrease, and the abstract verdict that decides
  whether a completion rings. The locales \<open>event_system\<close> and \<open>monotone_events\<close> of \<open>Prelude\<close> carry
  invariants from steps to runs, here and for the tree and the panes. The properties are in \<open>Alert_Claims\<close>.

  \<^bold>\<open>Remote security.\<close> \<open>remote-lib-common/src/security/\<close>. \<open>Sec_Bytes\<close> and \<open>Sec_Utf8\<close> have the encodings of
  \<open>bytes.ts\<close>, bit by bit on 8- and 32-bit words; \<open>Sec_Noise\<close> the IK handshake of \<open>noise.ts\<close>, whose methods return the state
  they leave also when they throw; \<open>Sec_Framing\<close> the transport plaintexts, the reassembly buffer and the session of
  \<open>noise-transport.ts\<close>; \<open>Sec_Guards\<close> the token bucket, the challenge issuer and the access list of
  \<open>token-bucket.ts\<close>, \<open>challenge.ts\<close> and \<open>acl.ts\<close>; \<open>Sec_Der\<close> the signature formats of \<open>ecdsa.ts\<close>; \<open>Sec_Presence\<close> the presence
  challenge, assertion and proof of \<open>presence.ts\<close>, \<open>passkey.ts\<close> and \<open>e2e-ceremony.ts\<close>; \<open>Sec_Invitation\<close> the URL
  grammar of \<open>pairing-invitation.ts\<close>. \<open>Sec_Noise_Facts\<close> shows that both parties of a handshake agree;
  \<open>Sec_Framing_Facts\<close> that the buffer computes the parse of the byte stream (\<open>parse_stream\<close>, the abstract specification,
  through the locale \<open>stream_receiver\<close>) inside its bound, and that a pair of sessions delivers; \<open>Sec_Guards_Facts\<close> that
  the access list implements its specification by history (locale \<open>access_list\<close>), that challenges are single use and that
  the bucket keeps its rate; \<open>Sec_Presence_Facts\<close> that a proof is bound to its ceremony. The properties are in
  \<open>Sec_Claims\<close>, and the one that joins handshake and channel is below.

  \<^bold>\<open>The relay.\<close> \<open>relay/src/\<close> and \<open>remote-lib-common/src/remote/wire.ts\<close>. \<open>Remote_Json\<close> has untyped JSON values and the
  maps in insertion order; \<open>Remote_Wire\<close> the frame guards and bounds of \<open>wire.ts\<close>; \<open>Relay_Hub\<close> the class \<open>RelayHub\<close> of
  \<open>relay.ts\<close>, with everything put on a socket as a log, and \<open>hub_step\<close>, one event of the server; \<open>Relay_Tokens\<close> the
  setup tokens of \<open>setup-token.ts\<close>; \<open>Relay_Store\<close> the files of \<open>state.ts\<close>. \<open>Relay_Facts\<close> shows that what a Burrow was told
  agrees with what the hub holds (\<open>hub_inv\<close>, against the abstract reading \<open>knows\<close> of a socket's log), and that
  what is gone has no effect (the locale \<open>event_system\<close> again); \<open>Relay_Store_Facts\<close> the caps, the cached read and
  the passkeys. The properties are in \<open>Relay_Claims\<close>.

  \<^bold>\<open>The machine that is reached.\<close> \<open>lib/src/remote/burrow/burrow-runtime.ts\<close>, which uses all of the security layer.
  \<open>Remote_Ceremony\<close> has the messages of both ceremonies as JSON values with their guards (\<open>e2e-ceremony.ts\<close>,
  \<open>presence.ts\<close>), display text and the sealing of pushes (\<open>push.ts\<close>, \<open>pairing.ts\<close>, \<open>push-seal.ts\<close>);
  \<open>Burrow_Runtime\<close> the class \<open>BurrowRuntime\<close> whole: its fields are the record \<open>burrow\<close>, its callbacks a log, and
  \<open>burrow_step\<close> one event. An asynchronous method is cut at its awaits, and its rest is a value of the state, so that
  anything may happen in between. \<open>Burrow_Facts\<close> orders the operations that only let go (\<open>lets_go\<close>);
  \<open>Burrow_Invariant\<close> states the caps, the queue, the timer and the numbering of sessions, and \<open>Burrow_Steps\<close> that every
  event returns and keeps them (the locale \<open>evictable\<close> for both eviction loops, which are partial functions proved to
  end); \<open>Burrow_Reaper\<close> what a sweep owes. \<open>Burrow_Authority\<close> and \<open>Burrow_Grants\<close> separate the steps that grant nothing
  from the three that do, and \<open>Burrow_History\<close> traces each session and each access record back through the run to the
  proofs and the confirmation it needs. The properties are in \<open>Burrow_Claims\<close>.

  \<^bold>\<open>How the code is modelled.\<close> Strings are lists of UTF-16 code units (\<open>Js_Text\<close>). Layout numbers are
  rationals, so the rounding of doubles is not modelled (\<open>Prelude\<close>); times and counters are integers. A
  thrown error is a value of a sum or option type, an early return a branch. A reading of the clock, fresh random
  bytes and generated keys are arguments. What the platform provides is an argument too, and what is relied on
  is a named hypothesis: \<open>sound_crypto\<close> and \<open>agreed\<close> for the primitives of the handshake, \<open>codec_ok\<close> for JSON,
  \<open>collision_free\<close> for SHA-256, \<open>reads_pages_of\<close> for the URL parser. Every loop is a recursion proved to end, or, for
  the eviction loop of the runtime, a partial function proved to return; no definition uses fuel. The one loop over fresh randomness, \<open>sample_pairing_code\<close>, reads a finite list of
  bytes. Seventeen stream bodies carry any message within the cap, hence the factor in the bounds on counters.

  \<^bold>\<open>Not modelled.\<close> The HTTP routes of the relay, the Pocket client, the remote-api behind a session, the guards of HTTP bodies,
  React components, desktop and editor hosts, themes, the website and scripts: most of it is I/O, and the state machines among them are
  left to later work. In modelled files: \<open>validate\<close> and \<open>rectKey\<close> of the tree, claimants of a completion other than
  awaits, listener registration, key import and probing of WebCrypto, structural guards over untyped
  values, of which the bounds are kept and the types are the model's, and a throw of \<open>createSession\<close> or of a callback
  while the runtime promotes a connection.
\<close>

section \<open>From the handshake to the messages\<close>

text \<open>C28: Two parties that run the handshake with the keys they name end with sessions over which every list of
  messages within the cap, sent by the responder to the initiator, arrives complete, unchanged and in order.\<close>

theorem established_channel_delivers:
  assumes "sound_crypto c"
    and "length (kp_public a) = noise_key_length" "length (kp_public b) = noise_key_length"
      "length (kp_public ea) = noise_key_length" "length (kp_public eb) = noise_key_length"
    and "agreed c ea b es" "agreed c a b ss" "agreed c ea eb ee" "agreed c a eb se"
    and "message_1_overhead + length p1 \<le> noise_max_message_length"
      "message_2_overhead + length p2 \<le> noise_max_message_length"
    and "list_all (\<lambda>m. length m \<le> max_app_message_length) ms" and "17 * length ms \<le> reserved_nonce"
  shows "\<exists>i r si sr s' t' cts receipts. run_handshake c prologue a b ea eb p1 p2 = Inr (i, r, p1, p2) \<and>
    hs_session i = Some si \<and> hs_session r = Some sr \<and>
    send_all c j ms (new_transport_session sr) = (s', Inr cts) \<and>
    receive_all c j cts (new_transport_session si) = (t', Inr receipts) \<and> app_messages receipts = ms"
proof -
  obtain i r si sr where run: "run_handshake c prologue a b ea eb p1 p2 = Inr (i, r, p1, p2)"
      "hs_session i = Some si" "hs_session r = Some sr" "paired si sr"
    using handshake_paired [OF assms(1-11), of prologue] by blast
  have joined: "joined (new_transport_session sr) (new_transport_session si)"
    and zero: "cs_n (ts_send (new_transport_session sr)) = 0"
    using paired_joined [OF run(4)] by auto
  have room: "cs_n (ts_send (new_transport_session sr)) + 17 * length ms \<le> reserved_nonce"
    using assms(13) zero by simp
  show ?thesis using run messages_delivered [OF assms(1) joined assms(12) room, of j] by blast
qed

theorem established_channel_delivers_witness:
  "\<exists>i r si sr s' t' cts receipts.
    run_handshake plain_crypto [] (plain_keys 1) (plain_keys 2) (plain_keys 3) (plain_keys 4) [42] [] = Inr (i, r, [42], []) \<and>
    hs_session i = Some si \<and> hs_session r = Some sr \<and>
    send_all plain_crypto empty_object_codec [[1, 2], []] (new_transport_session sr) = (s', Inr cts) \<and>
    receive_all plain_crypto empty_object_codec cts (new_transport_session si) = (t', Inr receipts) \<and>
    app_messages receipts = [[1, 2], []]"
  by (rule established_channel_delivers [OF plain_sound plain_keys_length plain_keys_length plain_keys_length plain_keys_length
        plain_agreed plain_agreed plain_agreed plain_agreed])
    (simp_all add: noise_sizes max_app_message_length_def reserved_nonce_def)

end
